(* ===== verification/Kernel_Prelude.thy ===== *)
theory Kernel_Prelude
  imports Main "HOL-Library.Word" "HOL-Library.Signed_Division"
begin

text \<open>
  Shared vocabulary of the development: the machine integer types of the 32-bit target, pointers,
  the faults an unchecked C program can run into, two's complement wrap-around on mathematical
  integers, and the generic facts on lists and words that the component theories use.
\<close>

unbundle bit_operations_syntax

section \<open>Machine types\<close>

type_synonym u8 = "8 word"
type_synonym u16 = "16 word"
type_synonym u32 = "32 word"
type_synonym u64 = "64 word"

text \<open>A pointer to a kernel object: \<open>None\<close> is \<open>NULL\<close>, \<open>Some a\<close> the object at address \<open>a\<close>.\<close>

type_synonym ptr = "nat option"

text \<open>
  What the C code does not check: a dereference of \<open>NULL\<close>, an access outside an object, a failed
  \<open>assert\<close> or \<open>panic\<close> (\<open>src/debug.h\<close>), and a loop that never ends. A fallible operation returns
  \<open>Inl\<close> one of these, or \<open>Inr\<close> its result.
\<close>

datatype fault = NullDeref | OutOfBounds | AssertFail | Hang

type_synonym 'a result = "fault + 'a"

definition rbind :: "'a result \<Rightarrow> ('a \<Rightarrow> 'b result) \<Rightarrow> 'b result" where
  "rbind r f = (case r of Inl e \<Rightarrow> Inl e | Inr x \<Rightarrow> f x)"

section \<open>Collections of facts\<close>

named_theorems os_defs \<open>definitions of the operations, for unfolding\<close>
named_theorems inv_intros \<open>preservation of the components' invariants\<close>

section \<open>Two's complement on mathematical integers\<close>

text \<open>The value of a 32-bit C \<open>int\<close> and \<open>unsigned int\<close> after an operation with result \<open>x\<close>.\<close>

definition s32 :: "int \<Rightarrow> int" where
  "s32 x = signed_take_bit 31 x"

definition un32 :: "int \<Rightarrow> int" where
  "un32 x = x mod 2 ^ 32"

lemma s32_id: "- (2 ^ 31) \<le> x \<Longrightarrow> x < 2 ^ 31 \<Longrightarrow> s32 x = x"
  unfolding s32_def by (simp add: signed_take_bit_int_eq_self)

lemma s32_eq: "s32 x = (x + 2 ^ 31) mod 2 ^ 32 - 2 ^ 31"
  unfolding s32_def by (simp add: signed_take_bit_eq_take_bit_shift take_bit_eq_mod)

lemma s32_simps: "s32 (s32 a + b) = s32 (a + b)" "s32 (s32 a - b) = s32 (a - b)"
proof -
  have eq: "s32 (s32 a + b) = s32 (a + b)" for b
  proof -
    have "s32 a + b + 2 ^ 31 = (a + 2 ^ 31) mod 2 ^ 32 + b" by (simp add: s32_eq)
    then have "(s32 a + b + 2 ^ 31) mod 2 ^ 32 = (a + 2 ^ 31 + b) mod 2 ^ 32" by (simp only: mod_add_left_eq)
    then show ?thesis unfolding s32_eq [of "s32 a + b"] s32_eq [of "a + b"] by (simp add: algebra_simps)
  qed
  show "s32 (s32 a + b) = s32 (a + b)" by (rule eq)
  show "s32 (s32 a - b) = s32 (a - b)" using eq [of "- b"] by simp
qed

lemma un32_id: "0 \<le> x \<Longrightarrow> x < 2 ^ 32 \<Longrightarrow> un32 x = x"
  by (simp add: un32_def)

section \<open>Results\<close>

lemma rbind_simps [simp]:
  "rbind (Inl e) f = Inl e"
  "rbind (Inr x) f = f x"
  by (simp_all add: rbind_def)

lemma rbind_eq_Inr_iff: "rbind r f = Inr y \<longleftrightarrow> (\<exists>x. r = Inr x \<and> f x = Inr y)"
  by (cases r) auto

lemma rbind_InrE:
  assumes "rbind r f = Inr y"
  obtains x where "r = Inr x" "f x = Inr y"
  using assms by (cases r) auto

section \<open>Words\<close>

lemma bit_push_bit_1: "bit (push_bit n (1::'a::len word)) i \<longleftrightarrow> i = n \<and> n < LENGTH('a)"
  by (auto simp: bit_push_bit_iff bit_1_iff simp del: push_bit_of_1)

lemma and_1_eq_bit: "(drop_bit n w :: 'a::len word) AND 1 = (if bit w n then 1 else 0)"
  by (rule bit_eqI) (auto simp: bit_and_iff bit_1_iff bit_drop_bit_eq intro: gr0I)

lemma word_full_iff: "(w = NOT (0::'a::len word)) \<longleftrightarrow> (\<forall>i < LENGTH('a). bit w i)"
  by (auto simp: bit_eq_iff bit_not_iff)

section \<open>Singly linked lists\<close>

text \<open>
  \<open>chain nx p ns q\<close>: following \<open>nx\<close> from the pointer \<open>p\<close> visits exactly the nodes \<open>ns\<close> and ends at the
  pointer \<open>q\<close>. \<open>walk\<close> computes the nodes, visiting at most a given number of them.
\<close>

primrec chain :: "(nat \<Rightarrow> ptr) \<Rightarrow> ptr \<Rightarrow> nat list \<Rightarrow> ptr \<Rightarrow> bool" where
  "chain nx p [] q \<longleftrightarrow> p = q"
| "chain nx p (n # ns) q \<longleftrightarrow> p = Some n \<and> chain nx (nx n) ns q"

primrec walk :: "(nat \<Rightarrow> ptr) \<Rightarrow> nat \<Rightarrow> ptr \<Rightarrow> nat list" where
  "walk nx 0 p = []"
| "walk nx (Suc k) p = (case p of None \<Rightarrow> [] | Some n \<Rightarrow> n # walk nx k (nx n))"

lemma chain_append [simp]:
  "chain nx p (as @ bs) q \<longleftrightarrow> (\<exists>r. chain nx p as r \<and> chain nx r bs q)"
  by (induction as arbitrary: p) auto

lemma chain_cong:
  "(\<And>n. n \<in> set ns \<Longrightarrow> nx n = nx' n) \<Longrightarrow> chain nx p ns q = chain nx' p ns q"
  by (induction ns arbitrary: p) auto

lemma chain_upd [simp]: "n \<notin> set ns \<Longrightarrow> chain (nx(n := v)) p ns q = chain nx p ns q"
  by (rule chain_cong) auto

lemma chain_from_None [simp]: "chain nx None ns q \<longleftrightarrow> ns = [] \<and> q = None"
  by (cases ns) auto

lemma chain_from_Some:
  "chain nx (Some n) ns None \<longleftrightarrow> (\<exists>ms. ns = n # ms \<and> chain nx (nx n) ms None)"
  by (cases ns) auto

lemma chain_None_unique:
  "chain nx p as None \<Longrightarrow> chain nx p bs None \<Longrightarrow> as = bs"
proof (induction as arbitrary: p bs)
  case (Cons a as)
  then show ?case by (cases bs) auto
qed auto

lemma chain_tail_fresh: "chain nx (nx n) ns None \<Longrightarrow> n \<notin> set ns"
proof
  assume c: "chain nx (nx n) ns None" and "n \<in> set ns"
  then obtain as bs where ns: "ns = as @ n # bs" by (auto dest: split_list)
  with c have "chain nx (nx n) bs None" by auto
  with c have "ns = bs" by (rule chain_None_unique)
  with ns show False by simp
qed

lemma chain_None_distinct: "chain nx p ns None \<Longrightarrow> distinct ns"
  by (induction ns arbitrary: p) (auto dest: chain_tail_fresh)

lemma walk_chain: "chain nx p ns None \<Longrightarrow> length ns \<le> k \<Longrightarrow> walk nx k p = ns"
proof (induction ns arbitrary: p k)
  case Nil
  then show ?case by (cases k) auto
next
  case (Cons n ns)
  then obtain k' where "k = Suc k'" by (cases k) auto
  with Cons show ?case by simp
qed

text \<open>Nodes below a bound: a chain of them is no longer than the bound.\<close>

lemma chain_length_le:
  assumes "chain nx p ns None" and "\<forall>n \<in> set ns. n < b"
  shows "length ns \<le> b"
proof -
  have "set ns \<subseteq> {..<b}" using assms(2) by auto
  then have "card (set ns) \<le> b" by (metis card_lessThan card_mono finite_lessThan)
  then show ?thesis
    using chain_None_distinct [OF assms(1)] by (simp add: distinct_card)
qed

section \<open>Lists\<close>

text \<open>The list without its first element that satisfies \<open>P\<close>.\<close>

fun drop_first :: "('a \<Rightarrow> bool) \<Rightarrow> 'a list \<Rightarrow> 'a list" where
  "drop_first P [] = []"
| "drop_first P (x # xs) = (if P x then xs else x # drop_first P xs)"

lemma drop_first_append:
  "(\<And>x. x \<in> set as \<Longrightarrow> \<not> P x) \<Longrightarrow> drop_first P (as @ bs) = as @ drop_first P bs"
  by (induction as) auto

lemma drop_first_absent: "(\<And>x. x \<in> set xs \<Longrightarrow> \<not> P x) \<Longrightarrow> drop_first P xs = xs"
  by (induction xs) auto

lemma drop_first_map: "drop_first P (map f xs) = map f (drop_first (\<lambda>x. P (f x)) xs)"
  by (induction xs) auto

lemma set_drop_first: "set (drop_first P xs) \<subseteq> set xs"
  by (induction xs) auto

lemma drop_first_split:
  "P x \<Longrightarrow> (\<And>a. a \<in> set as \<Longrightarrow> \<not> P a) \<Longrightarrow> drop_first P (as @ x # bs) = as @ bs"
  by (induction as) auto

lemma upt_split: "i \<le> j \<Longrightarrow> j \<le> k \<Longrightarrow> [i..<k] = [i..<j] @ [j..<k]"
  by (metis le_add_diff_inverse upt_add_eq_append)

end
