(* ===== verification/Process_Queue.thy ===== *)
theory Process_Queue
  imports Kernel_Prelude
begin

text \<open>
  \<open>src/system/processQueue.c\<close>: the singly linked queues of processes of the scheduler and of the
  FIFOs. All queues draw their nodes from one free list, and from \<open>kalloc\<close> when it is empty. A node
  is never returned to \<open>kalloc\<close>, so the nodes it hands out are pairwise distinct: the model numbers
  them by \<open>pq_brk\<close>, and \<open>pq_avail\<close> counts how many more \<open>kalloc\<close> can provide before it returns
  \<open>NULL\<close>. A process is represented by the address of its \<open>struct Process\<close>; its pid is looked up in
  an argument \<open>pid\<close>.
\<close>

section \<open>Definitions\<close>

record QueueNode =
  qn_next :: ptr
  qn_process :: nat
  qn_acumPriority :: int

record ProcessQueue =
  pq_first :: ptr
  pq_last :: ptr

record queue_heap =
  pq_nodes :: "nat \<Rightarrow> QueueNode"
  pq_freeNodes :: ptr
  pq_brk :: nat
  pq_avail :: nat

definition pq_update :: "nat \<Rightarrow> (QueueNode \<Rightarrow> QueueNode) \<Rightarrow> queue_heap \<Rightarrow> queue_heap" where
  "pq_update n f h = h\<lparr>pq_nodes := (pq_nodes h)(n := f (pq_nodes h n))\<rparr>"

definition pq_free_node :: "queue_heap \<Rightarrow> nat \<Rightarrow> queue_heap" where
  "pq_free_node h n =
     (pq_update n (\<lambda>x. x\<lparr>qn_next := pq_freeNodes h\<rparr>) h)\<lparr>pq_freeNodes := Some n\<rparr>"

definition pq_alloc_node :: "queue_heap \<Rightarrow> ptr \<times> queue_heap" where
  "pq_alloc_node h =
     (case pq_freeNodes h of
        None \<Rightarrow>
          if pq_avail h = 0 then (None, h)
          else (Some (pq_brk h), h\<lparr>pq_brk := Suc (pq_brk h), pq_avail := pq_avail h - 1\<rparr>)
      | Some n \<Rightarrow> (Some n, h\<lparr>pq_freeNodes := qn_next (pq_nodes h n)\<rparr>))"

definition process_queue_push ::
  "queue_heap \<times> ProcessQueue \<Rightarrow> nat \<Rightarrow> (queue_heap \<times> ProcessQueue) result" where
  "process_queue_push s process =
     (case s of (h, queue) \<Rightarrow>
       (case pq_alloc_node h of
          (None, h1) \<Rightarrow> Inl NullDeref
        | (Some node, h1) \<Rightarrow>
            let h2 = pq_update node (\<lambda>x. x\<lparr>qn_process := process, qn_acumPriority := 1\<rparr>) h1
            in rbind
                 (if pq_first queue = None
                  then Inr (h2, queue\<lparr>pq_first := Some node, pq_last := Some node\<rparr>)
                  else (case pq_last queue of
                          None \<Rightarrow> Inl NullDeref
                        | Some l \<Rightarrow> Inr (pq_update l (\<lambda>x. x\<lparr>qn_next := Some node\<rparr>) h2,
                                         queue\<lparr>pq_last := Some node\<rparr>)))
                 (\<lambda>(h3, queue'). Inr (pq_update node (\<lambda>x. x\<lparr>qn_next := None\<rparr>) h3, queue'))))"

definition process_queue_pop ::
  "queue_heap \<times> ProcessQueue \<Rightarrow> ptr \<times> (queue_heap \<times> ProcessQueue)" where
  "process_queue_pop s =
     (case s of (h, queue) \<Rightarrow>
       (case pq_first queue of
          None \<Rightarrow> (None, (h, queue))
        | Some aux \<Rightarrow>
            (Some (qn_process (pq_nodes h aux)),
             (pq_free_node h aux,
              if pq_first queue = pq_last queue
              then queue\<lparr>pq_first := None, pq_last := None\<rparr>
              else queue\<lparr>pq_first := qn_next (pq_nodes h aux)\<rparr>))))"

text \<open>The body of the search loop for the node that matches: unlink it from \<open>prev\<close> and free it.\<close>

definition pq_unlink :: "queue_heap \<Rightarrow> ProcessQueue \<Rightarrow> ptr \<Rightarrow> nat \<Rightarrow> queue_heap \<times> ProcessQueue" where
  "pq_unlink h queue prev n =
     (let queue1 = (if pq_last queue = Some n then queue\<lparr>pq_last := prev\<rparr> else queue);
          nxt = qn_next (pq_nodes h n);
          (h1, queue2) =
            (case prev of
               Some p \<Rightarrow> (pq_update p (\<lambda>x. x\<lparr>qn_next := nxt\<rparr>) h, queue1)
             | None \<Rightarrow> (h, queue1\<lparr>pq_first := nxt\<rparr>))
      in (pq_free_node h1 n, queue2))"

text \<open>The search loop of \<open>process_queue_remove\<close>; \<open>None\<close> when it never ends (a cyclic list).\<close>

partial_function (option) pq_remove_loop ::
  "(nat \<Rightarrow> int) \<Rightarrow> int \<Rightarrow> queue_heap \<Rightarrow> ProcessQueue \<Rightarrow> ptr \<Rightarrow> ptr \<Rightarrow> (queue_heap \<times> ProcessQueue) option"
  where
  "pq_remove_loop pid target h queue prev cur =
     (case cur of
        None \<Rightarrow> Some (h, queue)
      | Some n \<Rightarrow>
          if pid (qn_process (pq_nodes h n)) = target
          then Some (pq_unlink h queue prev n)
          else pq_remove_loop pid target h queue (Some n) (qn_next (pq_nodes h n)))"

definition process_queue_remove ::
  "(nat \<Rightarrow> int) \<Rightarrow> queue_heap \<times> ProcessQueue \<Rightarrow> nat \<Rightarrow> (queue_heap \<times> ProcessQueue) option" where
  "process_queue_remove pid s process =
     (case s of (h, queue) \<Rightarrow>
        if pq_first queue = None then Some (h, queue)
        else pq_remove_loop pid (pid process) h queue None (pq_first queue))"

section \<open>What a queue holds\<close>

text \<open>
  The abstract queue: the processes in order, each with its accumulated priority. \<open>queue_wf\<close> says
  that \<open>ns\<close> are the nodes of the queue and \<open>fs\<close> those of the free list.
\<close>

type_synonym queue_entry = "nat \<times> int"

abbreviation next_of :: "queue_heap \<Rightarrow> nat \<Rightarrow> ptr" where
  "next_of h \<equiv> (\<lambda>n. qn_next (pq_nodes h n))"

abbreviation entry_of :: "queue_heap \<Rightarrow> nat \<Rightarrow> queue_entry" where
  "entry_of h \<equiv> (\<lambda>n. (qn_process (pq_nodes h n), qn_acumPriority (pq_nodes h n)))"

definition queue_wf :: "queue_heap \<Rightarrow> ProcessQueue \<Rightarrow> nat list \<Rightarrow> nat list \<Rightarrow> bool" where
  "queue_wf h q ns fs \<longleftrightarrow>
     chain (next_of h) (pq_first q) ns None \<and>
     pq_last q = (if ns = [] then None else Some (last ns)) \<and>
     chain (next_of h) (pq_freeNodes h) fs None \<and>
     set ns \<inter> set fs = {} \<and>
     (\<forall>n \<in> set ns \<union> set fs. n < pq_brk h)"

definition queue_invar :: "queue_heap \<times> ProcessQueue \<Rightarrow> bool" where
  "queue_invar s \<longleftrightarrow> (\<exists>ns fs. queue_wf (fst s) (snd s) ns fs)"

definition queue_entries :: "queue_heap \<times> ProcessQueue \<Rightarrow> queue_entry list" where
  "queue_entries s =
     map (entry_of (fst s)) (walk (next_of (fst s)) (pq_brk (fst s)) (pq_first (snd s)))"

definition queue_room :: "queue_heap \<times> ProcessQueue \<Rightarrow> nat" where
  "queue_room s =
     pq_avail (fst s) + length (walk (next_of (fst s)) (pq_brk (fst s)) (pq_freeNodes (fst s)))"

section \<open>Refinement of the abstract queue\<close>

lemma queue_wf_entries:
  assumes "queue_wf h q ns fs"
  shows "queue_entries (h, q) = map (entry_of h) ns"
    and "queue_room (h, q) = pq_avail h + length fs"
  using assms
  by (auto simp: queue_wf_def queue_entries_def queue_room_def walk_chain chain_length_le)

lemma queue_wf_invar: "queue_wf h q ns fs \<Longrightarrow> queue_invar (h, q)"
  by (auto simp: queue_invar_def)

lemma queue_wf_distinct: "queue_wf h q ns fs \<Longrightarrow> distinct ns \<and> distinct fs"
  by (auto simp: queue_wf_def dest: chain_None_distinct)

text \<open>Taking a node from the free list or from \<open>kalloc\<close>.\<close>

lemma pq_alloc_node_wf:
  assumes wf: "queue_wf h q ns fs" and room: "0 < pq_avail h + length fs"
  obtains n h1 fs1 where "pq_alloc_node h = (Some n, h1)" and "queue_wf h1 q ns fs1"
    and "n \<notin> set ns" and "n \<notin> set fs1" and "n < pq_brk h1" and "pq_nodes h1 = pq_nodes h"
    and "pq_avail h1 + length fs1 = pq_avail h + length fs - 1"
proof (cases fs)
  case Nil
  with wf room that [of "pq_brk h" "h\<lparr>pq_brk := Suc (pq_brk h), pq_avail := pq_avail h - 1\<rparr>" "[]"]
  show ?thesis by (auto simp: queue_wf_def pq_alloc_node_def less_Suc_eq)
next
  case (Cons n fs1)
  with wf queue_wf_distinct [OF wf]
    that [of n "h\<lparr>pq_freeNodes := qn_next (pq_nodes h n)\<rparr>" fs1]
  show ?thesis by (auto simp: queue_wf_def pq_alloc_node_def)
qed

lemma pq_alloc_node_fail:
  "queue_wf h q ns fs \<Longrightarrow> pq_avail h + length fs = 0 \<Longrightarrow> pq_alloc_node h = (None, h)"
  by (auto simp: queue_wf_def pq_alloc_node_def)

lemma chain_snoc:
  assumes "chain nx p ns None" "ns \<noteq> []" "n \<notin> set ns"
  shows "chain (nx(last ns := Some n, n := None)) p (ns @ [n]) None"
  using assms
proof (induction ns arbitrary: p)
  case (Cons a as)
  show ?case
  proof (cases "as = []")
    case False
    have "a \<notin> set as" using Cons.prems(1) by (auto dest: chain_tail_fresh)
    with False Cons show ?thesis by auto
  qed (use Cons in auto)
qed simp

lemma next_of_update:
  "next_of (pq_update m (\<lambda>x. x\<lparr>qn_next := v\<rparr>) h) = (next_of h)(m := v)"
  by (auto simp: pq_update_def)

lemma process_queue_push_wf:
  assumes wf: "queue_wf h q ns fs" and room: "0 < pq_avail h + length fs"
  obtains h' q' n fs' where "process_queue_push (h, q) p = Inr (h', q')"
    and "queue_wf h' q' (ns @ [n]) fs'" and "map (entry_of h') (ns @ [n]) = map (entry_of h) ns @ [(p, 1)]"
    and "pq_avail h' + length fs' = pq_avail h + length fs - 1"
proof -
  from wf room obtain n h1 fs1 where al: "pq_alloc_node h = (Some n, h1)" and wf1: "queue_wf h1 q ns fs1"
    and fresh: "n \<notin> set ns" "n \<notin> set fs1" "n < pq_brk h1" and nodes: "pq_nodes h1 = pq_nodes h"
    and av: "pq_avail h1 + length fs1 = pq_avail h + length fs - 1"
    by (rule pq_alloc_node_wf)
  define h2 where "h2 = pq_update n (\<lambda>x. x\<lparr>qn_process := p, qn_acumPriority := 1\<rparr>) h1"
  have nx2: "next_of h2 = next_of h1" by (auto simp: h2_def pq_update_def)
  define h3 where "h3 = (if ns = [] then h2 else pq_update (last ns) (\<lambda>x. x\<lparr>qn_next := Some n\<rparr>) h2)"
  define h4 where "h4 = pq_update n (\<lambda>x. x\<lparr>qn_next := None\<rparr>) h3"
  define q4 where "q4 = q\<lparr>pq_first := (if ns = [] then Some n else pq_first q), pq_last := Some n\<rparr>"
  have nx4: "next_of h4 = (if ns = [] then next_of h1 else (next_of h1)(last ns := Some n))(n := None)"
    by (auto simp: h4_def h3_def nx2 next_of_update)
  have "pq_first q = None \<longleftrightarrow> ns = []"
    using wf by (cases ns) (auto simp: queue_wf_def)
  then have run: "process_queue_push (h, q) p = Inr (h4, q4)"
    using wf al by (auto simp: process_queue_push_def queue_wf_def h4_def h3_def h2_def q4_def Let_def)
  have frees: "pq_freeNodes h4 = pq_freeNodes h1" "pq_brk h4 = pq_brk h1" "pq_avail h4 = pq_avail h1"
    by (simp_all add: h4_def h3_def h2_def pq_update_def)
  have "last ns \<notin> set fs1" if "ns \<noteq> []"
    using wf1 that by (metis queue_wf_def disjoint_iff last_in_set)
  then have fc: "chain (next_of h4) (pq_freeNodes h4) fs1 None"
    using wf1 fresh(2) frees(1) by (auto simp: queue_wf_def nx4)
  have "chain (next_of h4) (pq_first q4) (ns @ [n]) None"
  proof (cases "ns = []")
    case True
    then show ?thesis unfolding nx4 by (simp add: q4_def)
  next
    case False
    with wf1 fresh(1) show ?thesis
      unfolding nx4 using chain_snoc [of "next_of h1" "pq_first q" ns n]
      by (simp add: q4_def queue_wf_def del: chain_append)
  qed
  with fc wf1 fresh have "queue_wf h4 q4 (ns @ [n]) fs1"
    by (auto simp: queue_wf_def frees q4_def)
  moreover have "map (entry_of h4) (ns @ [n]) = map (entry_of h) ns @ [(p, 1)]"
    using fresh(1) nodes by (auto simp: h4_def h3_def h2_def pq_update_def)
  ultimately show ?thesis
    using that run av frees(3) by simp
qed

lemma process_queue_pop_wf:
  assumes wf: "queue_wf h q (n # ns) fs"
  obtains h' q' where "process_queue_pop (h, q) = (Some (qn_process (pq_nodes h n)), (h', q'))"
    and "queue_wf h' q' ns (n # fs)" and "map (entry_of h') ns = map (entry_of h) ns"
    and "pq_avail h' = pq_avail h"
proof -
  define h' where "h' = pq_free_node h n"
  define q' where "q' = (if pq_first q = pq_last q then q\<lparr>pq_first := None, pq_last := None\<rparr>
                         else q\<lparr>pq_first := qn_next (pq_nodes h n)\<rparr>)"
  have d: "n \<notin> set ns" "n \<notin> set fs"
    using wf queue_wf_distinct [OF wf] by (auto simp: queue_wf_def)
  have nx: "next_of h' = (next_of h)(n := pq_freeNodes h)"
    by (auto simp: h'_def pq_free_node_def pq_update_def)
  have "pq_first q = pq_last q \<longleftrightarrow> ns = []"
    using wf d(1) by (auto simp: queue_wf_def dest: last_in_set)
  with wf have ns: "chain (next_of h) (pq_first q') ns None"
    "pq_last q' = (if ns = [] then None else Some (last ns))"
    by (auto simp: queue_wf_def q'_def)
  have "queue_wf h' q' ns (n # fs)"
    unfolding queue_wf_def nx using wf ns d
    by (auto simp: queue_wf_def h'_def pq_free_node_def pq_update_def)
  moreover have "map (entry_of h') ns = map (entry_of h) ns"
    using d(1) by (auto simp: h'_def pq_free_node_def pq_update_def)
  moreover have "process_queue_pop (h, q) = (Some (qn_process (pq_nodes h n)), (h', q'))"
    using wf by (simp add: process_queue_pop_def queue_wf_def h'_def q'_def)
  moreover have "pq_avail h' = pq_avail h"
    by (simp add: h'_def pq_free_node_def pq_update_def)
  ultimately show ?thesis using that by simp
qed

lemma pq_unlink_wf:
  assumes wf: "queue_wf h q (as @ n # bs) fs"
    and prev: "prev = (if as = [] then None else Some (last as))"
    and res: "pq_unlink h q prev n = (h', q')"
  shows "queue_wf h' q' (as @ bs) (n # fs)"
    and "map (entry_of h') (as @ bs) = map (entry_of h) (as @ bs)"
    and "pq_avail h' = pq_avail h"
proof -
  have d: "distinct (as @ n # bs)" "n \<notin> set fs" "set as \<inter> set fs = {}"
    using wf queue_wf_distinct [OF wf] by (auto simp: queue_wf_def)
  have las: "last as \<in> set as" if "as \<noteq> []" using that by simp
  let ?nxt = "qn_next (pq_nodes h n)"
  have nx: "next_of h' = (if as = [] then next_of h else (next_of h)(last as := ?nxt))(n := pq_freeNodes h)"
    and misc: "pq_freeNodes h' = Some n" "pq_brk h' = pq_brk h" "pq_avail h' = pq_avail h"
    using res prev by (auto simp: pq_unlink_def Let_def pq_free_node_def pq_update_def split: if_splits)
  have q': "pq_first q' = (if as = [] then ?nxt else pq_first q)"
    "pq_last q' = (if pq_last q = Some n then prev else pq_last q)"
    using res prev by (auto simp: pq_unlink_def Let_def split: if_splits)
  have ch: "chain (next_of h) (pq_first q) as (Some n)" "chain (next_of h) ?nxt bs None"
    using wf by (auto simp: queue_wf_def)
  have "chain (next_of h') (pq_first q') as ?nxt"
  proof (cases "as = []")
    case False
    then obtain as' a where as: "as = as' @ [a]" by (metis append_butlast_last_id)
    with d(1) ch(1) show ?thesis unfolding nx by (auto simp: q')
  qed (simp add: q')
  moreover have "chain (next_of h') ?nxt bs None"
    unfolding nx using d(1) ch(2) las by (auto simp: disjoint_iff)
  moreover have "chain (next_of h') (pq_freeNodes h) fs None"
    unfolding nx using d las wf by (auto simp: queue_wf_def disjoint_iff)
  moreover have "pq_last q' = (if as @ bs = [] then None else Some (last (as @ bs)))"
    using wf d(1) prev last_in_set [of bs] by (auto simp: q' queue_wf_def)
  moreover have "next_of h' n = pq_freeNodes h" using fun_cong [OF nx, of n] by simp
  ultimately show "queue_wf h' q' (as @ bs) (n # fs)"
    using wf d misc(1,2) unfolding queue_wf_def by (auto simp del: fun_upd_apply)
  show "map (entry_of h') (as @ bs) = map (entry_of h) (as @ bs)"
    using res by (auto simp: pq_unlink_def Let_def pq_free_node_def pq_update_def split: option.splits)
  show "pq_avail h' = pq_avail h" by (rule misc)
qed

lemma pq_remove_loop_wf:
  assumes "queue_wf h q (as @ bs) fs"
    and "prev = (if as = [] then None else Some (last as))"
    and "cur = (if bs = [] then None else Some (hd bs))"
    and "\<forall>n \<in> set as. pid (qn_process (pq_nodes h n)) \<noteq> target"
  shows "\<exists>h' q' ns' fs'. pq_remove_loop pid target h q prev cur = Some (h', q') \<and>
     queue_wf h' q' ns' fs' \<and>
     map (entry_of h') ns' = drop_first (\<lambda>e. pid (fst e) = target) (map (entry_of h) (as @ bs)) \<and>
     pq_avail h' + length fs' + length ns' = pq_avail h + length fs + length (as @ bs)"
  using assms
proof (induction bs arbitrary: as prev cur)
  case Nil
  then have "drop_first (\<lambda>e. pid (fst e) = target) (map (entry_of h) as) = map (entry_of h) as"
    unfolding drop_first_map by (subst drop_first_absent) auto
  with Nil show ?case
    by (auto simp: pq_remove_loop.simps)
next
  case (Cons n bs)
  let ?p = "\<lambda>n. pid (qn_process (pq_nodes h n)) = target"
  show ?case
  proof (cases "?p n")
    case True
    obtain h' q' where ul: "pq_unlink h q prev n = (h', q')" by fastforce
    then have "pq_remove_loop pid target h q prev cur = Some (h', q')"
      using True Cons.prems(3)
      by (simp add: pq_remove_loop.simps [of pid target h q prev])
    moreover have "drop_first (\<lambda>e. pid (fst e) = target) (map (entry_of h) (as @ n # bs)) =
        map (entry_of h) (as @ bs)"
      unfolding drop_first_map using True Cons.prems(4) by (subst drop_first_split) auto
    moreover note pq_unlink_wf [OF Cons.prems(1,2) ul]
    ultimately show ?thesis
      by (intro exI [of _ h'] exI [of _ q'] exI [of _ "as @ bs"] exI [of _ "n # fs"]) simp
  next
    case False
    have "next_of h n = (if bs = [] then None else Some (hd bs))"
      using Cons.prems(1) by (cases bs) (auto simp: queue_wf_def)
    moreover have "pq_remove_loop pid target h q prev cur =
        pq_remove_loop pid target h q (Some n) (next_of h n)"
      using False Cons.prems(3) by (simp add: pq_remove_loop.simps [of pid target h q prev])
    ultimately show ?thesis
      using Cons.IH [of "as @ [n]" "Some n" "next_of h n"] Cons.prems False by simp
  qed
qed

section \<open>The interface of a process queue\<close>

text \<open>
  What the scheduler and the FIFOs rely on: a FIFO queue of processes, each entered with accumulated
  priority 1; \<open>room\<close> is the number of entries that can still be pushed before \<open>kalloc\<close> fails.
\<close>

locale fifo_queue =
  fixes push :: "'q \<Rightarrow> nat \<Rightarrow> 'q result"
    and pop :: "'q \<Rightarrow> nat option \<times> 'q"
    and remove :: "(nat \<Rightarrow> int) \<Rightarrow> 'q \<Rightarrow> nat \<Rightarrow> 'q option"
    and entries :: "'q \<Rightarrow> queue_entry list"
    and room :: "'q \<Rightarrow> nat"
    and invar :: "'q \<Rightarrow> bool"
  assumes push_ok: "invar s \<Longrightarrow> 0 < room s \<Longrightarrow>
      \<exists>s'. push s p = Inr s' \<and> invar s' \<and> entries s' = entries s @ [(p, 1)] \<and> Suc (room s') = room s"
    and push_fail: "invar s \<Longrightarrow> room s = 0 \<Longrightarrow> push s p = Inl NullDeref"
    and pop_empty: "invar s \<Longrightarrow> entries s = [] \<Longrightarrow> pop s = (None, s)"
    and pop_first: "invar s \<Longrightarrow> entries s = e # es \<Longrightarrow>
      \<exists>s'. pop s = (Some (fst e), s') \<and> invar s' \<and> entries s' = es \<and> room s' = Suc (room s)"
    and remove_ok: "invar s \<Longrightarrow>
      \<exists>s'. remove pid s p = Some s' \<and> invar s' \<and>
        entries s' = drop_first (\<lambda>e. pid (fst e) = pid p) (entries s) \<and>
        room s' + length (entries s') = room s + length (entries s)"
begin

primrec push_all :: "'q \<Rightarrow> nat list \<Rightarrow> 'q result" where
  "push_all s [] = Inr s"
| "push_all s (p # ps) = rbind (push s p) (\<lambda>s'. push_all s' ps)"

primrec pop_n :: "nat \<Rightarrow> 'q \<Rightarrow> nat option list \<times> 'q" where
  "pop_n 0 s = ([], s)"
| "pop_n (Suc k) s = (case pop s of (x, s') \<Rightarrow> case pop_n k s' of (xs, s'') \<Rightarrow> (x # xs, s''))"

lemma push_all_ok:
  "invar s \<Longrightarrow> length ps \<le> room s \<Longrightarrow>
     \<exists>s'. push_all s ps = Inr s' \<and> invar s' \<and> entries s' = entries s @ map (\<lambda>p. (p, 1)) ps"
proof (induction ps arbitrary: s)
  case (Cons p ps)
  from Cons.prems have "0 < room s" by (simp add: Suc_le_eq)
  with Cons.prems(1) obtain s' where s': "push s p = Inr s'" "invar s'"
    "entries s' = entries s @ [(p, 1)]" "Suc (room s') = room s"
    using push_ok by blast
  with Cons.prems(2) have "length ps \<le> room s'" by simp
  from Cons.IH [OF s'(2) this] s' show ?case by auto
qed simp

lemma pop_n_drains:
  "invar s \<Longrightarrow> \<exists>s'. pop_n (length (entries s)) s = (map (Some \<circ> fst) (entries s), s') \<and>
     invar s' \<and> entries s' = [] \<and> pop s' = (None, s')"
proof (induction "entries s" arbitrary: s)
  case Nil
  then show ?case by (auto simp: pop_empty)
next
  case (Cons e es)
  then obtain s' where s': "pop s = (Some (fst e), s')" "invar s'" "entries s' = es"
    using pop_first by metis
  from Cons.hyps(1) [of s'] s' obtain s'' where
    "pop_n (length es) s' = (map (Some \<circ> fst) es, s'')" "invar s''" "entries s'' = []" "pop s'' = (None, s'')"
    by auto
  with Cons.hyps(2) s'(1) show ?case by (auto simp flip: Cons.hyps(2))
qed

text \<open>First in, first out: what was pushed onto an empty queue is popped in the same order.\<close>

lemma fifo_order:
  assumes "invar s" "entries s = []" "length ps \<le> room s"
  shows "\<exists>s' s''. push_all s ps = Inr s' \<and> pop_n (length ps) s' = (map Some ps, s'') \<and> pop s'' = (None, s'')"
proof -
  from push_all_ok [OF assms(1,3)] assms(2) obtain s' where
    s': "push_all s ps = Inr s'" "invar s'" "entries s' = map (\<lambda>p. (p, 1)) ps" by auto
  from pop_n_drains [OF s'(2)] s' show ?thesis by (auto simp: comp_def)
qed

end

interpretation pq: fifo_queue process_queue_push process_queue_pop process_queue_remove
  queue_entries queue_room queue_invar
proof
  fix s :: "queue_heap \<times> ProcessQueue" and p :: nat
  obtain h q where s: "s = (h, q)" by fastforce
  {
    assume "queue_invar s" "0 < queue_room s"
    with s obtain ns fs where wf: "queue_wf h q ns fs" "0 < pq_avail h + length fs"
      by (auto simp: queue_invar_def queue_wf_entries)
    then obtain h' q' n fs' where r: "process_queue_push (h, q) p = Inr (h', q')"
      "queue_wf h' q' (ns @ [n]) fs'" "map (entry_of h') (ns @ [n]) = map (entry_of h) ns @ [(p, 1)]"
      "pq_avail h' + length fs' = pq_avail h + length fs - 1"
      by (rule process_queue_push_wf)
    then show "\<exists>s'. process_queue_push s p = Inr s' \<and> queue_invar s' \<and>
        queue_entries s' = queue_entries s @ [(p, 1)] \<and> Suc (queue_room s') = queue_room s"
      using s wf by (intro exI [of _ "(h', q')"]) (auto simp: queue_wf_entries queue_wf_invar)
  next
    assume "queue_invar s" "queue_room s = 0"
    with s show "process_queue_push s p = Inl NullDeref"
      by (auto simp: queue_invar_def queue_wf_entries process_queue_push_def
          pq_alloc_node_fail)
  next
    assume "queue_invar s" "queue_entries s = []"
    with s show "process_queue_pop s = (None, s)"
      by (auto simp: queue_invar_def queue_wf_entries process_queue_pop_def queue_wf_def)
  next
    fix e es assume "queue_invar s" and es: "queue_entries s = e # es"
    with s obtain n ns fs where wf: "queue_wf h q (n # ns) fs" and e: "e = entry_of h n"
      and es': "es = map (entry_of h) ns"
      by (auto simp: queue_invar_def queue_wf_entries map_eq_Cons_conv)
    obtain h' q' where r: "process_queue_pop (h, q) = (Some (qn_process (pq_nodes h n)), (h', q'))"
      "queue_wf h' q' ns (n # fs)" "map (entry_of h') ns = map (entry_of h) ns" "pq_avail h' = pq_avail h"
      by (rule process_queue_pop_wf [OF wf])
    then show "\<exists>s'. process_queue_pop s = (Some (fst e), s') \<and> queue_invar s' \<and>
        queue_entries s' = es \<and> queue_room s' = Suc (queue_room s)"
      using s wf e es' by (intro exI [of _ "(h', q')"]) (auto simp: queue_wf_entries queue_wf_invar)
  next
    fix pid assume "queue_invar s"
    with s obtain ns fs where wf: "queue_wf h q ns fs" by (auto simp: queue_invar_def)
    have "pq_first q = (if ns = [] then None else Some (hd ns))"
      using wf by (cases ns) (auto simp: queue_wf_def)
    with pq_remove_loop_wf [of h q "[]" ns fs None "pq_first q" pid "pid p"] wf
    obtain h' q' ns' fs' where r: "pq_remove_loop pid (pid p) h q None (pq_first q) = Some (h', q')"
      "queue_wf h' q' ns' fs'"
      "map (entry_of h') ns' = drop_first (\<lambda>e. pid (fst e) = pid p) (map (entry_of h) ns)"
      "pq_avail h' + length fs' + length ns' = pq_avail h + length fs + length ns" by auto
    have "process_queue_remove pid s p = Some (h', q')"
      using r(1) s by (auto simp: process_queue_remove_def pq_remove_loop.simps [of _ _ _ _ _ None])
    moreover have "length (drop_first (\<lambda>e. pid (fst e) = pid p) (map (entry_of h) ns)) = length ns'"
      by (metis length_map r(3))
    ultimately show "\<exists>s'. process_queue_remove pid s p = Some s' \<and> queue_invar s' \<and>
        queue_entries s' = drop_first (\<lambda>e. pid (fst e) = pid p) (queue_entries s) \<and>
        queue_room s' + length (queue_entries s') = queue_room s + length (queue_entries s)"
      using r s wf by (intro exI [of _ "(h', q')"]) (auto simp: queue_wf_entries queue_wf_invar)
  }
qed

section \<open>The operations on the entries\<close>

text \<open>
  The clients (scheduler and FIFOs) are modelled on the list of entries of their queue. The operations
  on the list, and that the pointer code implements them while \<open>kalloc\<close> can provide nodes:
\<close>

definition queue_push :: "queue_entry list \<Rightarrow> nat \<Rightarrow> queue_entry list" where
  "queue_push q p = q @ [(p, 1)]"

fun queue_pop :: "queue_entry list \<Rightarrow> nat option \<times> queue_entry list" where
  "queue_pop [] = (None, [])"
| "queue_pop (e # q) = (Some (fst e), q)"

definition queue_remove :: "(nat \<Rightarrow> int) \<Rightarrow> queue_entry list \<Rightarrow> nat \<Rightarrow> queue_entry list" where
  "queue_remove pid q p = drop_first (\<lambda>e. pid (fst e) = pid p) q"

lemma push_refines:
  "queue_invar s \<Longrightarrow> 0 < queue_room s \<Longrightarrow>
     \<exists>s'. process_queue_push s p = Inr s' \<and> queue_invar s' \<and> queue_entries s' = queue_push (queue_entries s) p"
  using pq.push_ok by (metis queue_push_def)

lemma pop_refines:
  assumes "queue_invar s"
  shows "\<exists>x s'. process_queue_pop s = (x, s') \<and> queue_invar s' \<and>
     queue_pop (queue_entries s) = (x, queue_entries s')"
proof (cases "queue_entries s")
  case Nil
  with pq.pop_empty assms show ?thesis by auto
next
  case (Cons e es)
  with pq.pop_first [OF assms] show ?thesis by auto
qed

lemma remove_refines:
  "queue_invar s \<Longrightarrow>
     \<exists>s'. process_queue_remove pid s p = Some s' \<and> queue_invar s' \<and>
       queue_entries s' = queue_remove pid (queue_entries s) p"
  using pq.remove_ok by (metis queue_remove_def)

section \<open>Properties\<close>

text \<open>
  C24. On a well-formed queue the pointer code implements the list operations, node by node and with the
  shared free list: a push appends when a node can be had and faults otherwise, a pop takes the first
  entry, a removal takes out the first entry with the process's pid; each leaves a well-formed queue
  and loses no node.
\<close>

theorem process_queue_refines_list:
  assumes "queue_invar s"
  shows "(if queue_room s = 0 then process_queue_push s p = Inl NullDeref
      else \<exists>s'. process_queue_push s p = Inr s' \<and> queue_invar s' \<and>
        queue_entries s' = queue_push (queue_entries s) p \<and> Suc (queue_room s') = queue_room s) \<and>
     (\<exists>x s'. process_queue_pop s = (x, s') \<and> queue_invar s' \<and>
        queue_pop (queue_entries s) = (x, queue_entries s') \<and>
        queue_room s' + length (queue_entries s') = queue_room s + length (queue_entries s)) \<and>
     (\<exists>s'. process_queue_remove pid s p = Some s' \<and> queue_invar s' \<and>
        queue_entries s' = queue_remove pid (queue_entries s) p \<and>
        queue_room s' + length (queue_entries s') = queue_room s + length (queue_entries s))"
  (is "?push \<and> ?pop \<and> ?remove")
proof (intro conjI)
  show ?push
    using pq.push_ok [OF assms] pq.push_fail [OF assms] by (simp add: queue_push_def)
  show ?remove
    using pq.remove_ok [OF assms] by (simp add: queue_remove_def)
  show ?pop
  proof (cases "queue_entries s")
    case Nil
    with pq.pop_empty assms show ?thesis by auto
  next
    case (Cons e es)
    with pq.pop_first [OF assms] show ?thesis by auto
  qed
qed

text \<open>The queue the kernel starts with.\<close>

definition empty_queue :: "nat \<Rightarrow> queue_heap \<times> ProcessQueue" where
  "empty_queue avail =
     (\<lparr>pq_nodes = (\<lambda>n. \<lparr>qn_next = None, qn_process = 0, qn_acumPriority = 0\<rparr>), pq_freeNodes = None,
       pq_brk = 0, pq_avail = avail\<rparr>, \<lparr>pq_first = None, pq_last = None\<rparr>)"

lemma empty_queue_invar: "queue_invar (empty_queue avail)" "queue_entries (empty_queue avail) = []"
  "queue_room (empty_queue avail) = avail"
  by (auto simp: queue_invar_def queue_wf_def empty_queue_def queue_entries_def queue_room_def)

theorem process_queue_refines_list_witness:
  "\<exists>s'. process_queue_push (empty_queue 3) 42 = Inr s' \<and> queue_entries s' = [(42, 1)]"
  using process_queue_refines_list [of "empty_queue 3" 42 int] empty_queue_invar [of 3]
  by (auto simp: queue_push_def)

text \<open>
  First in, first out: the processes pushed onto an empty queue are popped in the order they were
  pushed, and then the queue is empty again.
\<close>

theorem process_queue_fifo:
  assumes "queue_invar s" "queue_entries s = []" "length ps \<le> queue_room s"
  shows "\<exists>s' s''. pq.push_all s ps = Inr s' \<and> pq.pop_n (length ps) s' = (map Some ps, s'') \<and>
     process_queue_pop s'' = (None, s'')"
  using assms by (rule pq.fifo_order)

theorem process_queue_fifo_witness:
  "\<exists>s' s''. pq.push_all (empty_queue 3) [4, 5] = Inr s' \<and> pq.pop_n 2 s' = ([Some 4, Some 5], s'') \<and>
     process_queue_pop s'' = (None, s'')"
  using process_queue_fifo [of "empty_queue 3" "[4, 5]"] empty_queue_invar [of 3]
  by (simp add: numeral_2_eq_2)

end
