(* ===== verification/Process_Types.thy ===== *)
theory Process_Types
  imports Kernel_Prelude
begin

text \<open>
  \<open>src/system/process/process.h\<close>, \<open>src/system/fs/fd.h\<close>: the structures every kernel component
  shares. Objects that C reaches through pointers live at addresses (\<open>nat\<close>); a pointer field is a
  \<open>ptr\<close>. Bit fields of one bit are booleans; \<open>priority\<close> is the 2-bit field, so an assignment to it
  keeps the value modulo 4 (see \<open>set_priority\<close>).
\<close>

section \<open>Definitions\<close>

datatype ProcessStatus = StatusRunning | StatusReady | StatusBlocked

record ProcessSchedule =
  status :: ProcessStatus
  priority :: nat
  inWait :: bool
  ioWait :: bool
  asleep :: bool
  is_done :: bool

record Pages =
  pg_start :: nat
  pg_count :: nat

record ProcessMemory =
  esp :: nat
  pagesInStack :: nat
  mallocContext :: ptr
  pagesInHeap :: nat
  esp0 :: nat
  kernelStack :: nat
  pagesInKernelStack :: nat
  reservedPages :: "Pages list"
  directory :: ptr

record FileDescriptor =
  fd_inode :: ptr
  fd_flags :: int
  fd_offset :: nat
  fd_ops :: nat

record Process =
  p_pid :: int
  p_kernel :: bool
  p_ppid :: int
  p_parent :: ptr
  p_entryPoint :: nat
  p_args :: string
  p_terminal :: int
  p_active :: bool
  p_firstChild :: ptr
  p_prev :: ptr
  p_next :: ptr
  p_schedule :: ProcessSchedule
  p_mm :: ProcessMemory
  p_cycles :: u64
  p_curr_cycles :: u64
  p_prev_cycles :: u64
  p_timeStart :: u32
  p_uid :: int
  p_gid :: int
  p_fdTable :: "FileDescriptor list"
  p_cwd :: string

text \<open>The objects of type \<open>struct Process\<close>, by address.\<close>

type_synonym process_store = "nat \<Rightarrow> Process"

definition upd_proc :: "nat \<Rightarrow> (Process \<Rightarrow> Process) \<Rightarrow> process_store \<Rightarrow> process_store" where
  "upd_proc a f P = P(a := f (P a))"

definition upd_sched :: "nat \<Rightarrow> (ProcessSchedule \<Rightarrow> ProcessSchedule) \<Rightarrow> process_store \<Rightarrow> process_store" where
  "upd_sched a f P = upd_proc a (\<lambda>p. p\<lparr>p_schedule := f (p_schedule p)\<rparr>) P"

definition set_priority :: "int \<Rightarrow> ProcessSchedule \<Rightarrow> ProcessSchedule" where
  "set_priority v s = s\<lparr>priority := nat (v mod 4)\<rparr>"

abbreviation status_of :: "process_store \<Rightarrow> nat \<Rightarrow> ProcessStatus" where
  "status_of P a \<equiv> status (p_schedule (P a))"

abbreviation priority_of :: "process_store \<Rightarrow> nat \<Rightarrow> nat" where
  "priority_of P a \<equiv> priority (p_schedule (P a))"

abbreviation pid_of :: "process_store \<Rightarrow> nat \<Rightarrow> int" where
  "pid_of P a \<equiv> p_pid (P a)"

text \<open>The value of every field of zero-initialised static storage.\<close>

definition zero_schedule :: ProcessSchedule where
  "zero_schedule = \<lparr>status = StatusRunning, priority = 0, inWait = False, ioWait = False,
     asleep = False, is_done = False\<rparr>"

definition zero_memory :: ProcessMemory where
  "zero_memory = \<lparr>esp = 0, pagesInStack = 0, mallocContext = None, pagesInHeap = 0, esp0 = 0,
     kernelStack = 0, pagesInKernelStack = 0, reservedPages = [], directory = None\<rparr>"

definition zero_process :: Process where
  "zero_process = \<lparr>p_pid = 0, p_kernel = False, p_ppid = 0, p_parent = None, p_entryPoint = 0,
     p_args = [], p_terminal = 0, p_active = False, p_firstChild = None, p_prev = None,
     p_next = None, p_schedule = zero_schedule, p_mm = zero_memory, p_cycles = 0,
     p_curr_cycles = 0, p_prev_cycles = 0, p_timeStart = 0, p_uid = 0, p_gid = 0,
     p_fdTable = [], p_cwd = []\<rparr>"

section \<open>Reading an updated store\<close>

lemma upd_proc_apply [simp]: "upd_proc a f P b = (if b = a then f (P a) else P b)"
  by (simp add: upd_proc_def)

lemma upd_sched_apply [simp]:
  "upd_sched a f P b = (if b = a then (P a)\<lparr>p_schedule := f (p_schedule (P a))\<rparr> else P b)"
  by (simp add: upd_sched_def)

lemma pid_of_upd_sched [simp]: "pid_of (upd_sched a f P) = pid_of P"
  by auto

lemma set_priority_range: "priority (set_priority v s) < 4"
  by (simp add: set_priority_def)

end
