(* ===== verification/Sleep_List.thy ===== *)
theory Sleep_List
  imports Process_Types
begin

text \<open>
  \<open>src/system/sleepList.c\<close>: the delta queue of sleeping processes. Each node holds the number of
  ticks between the wake-up of its predecessor and its own. The list \<open>sl_nodes\<close> is the chain of
  \<open>struct Node\<close> from \<open>first\<close>; \<open>sl_free\<close> is the length of the free list and \<open>sl_avail\<close> the number of
  nodes \<open>kalloc\<close> can still provide.
\<close>

section \<open>Definitions\<close>

record sleep_node =
  sn_process :: nat
  sn_delta :: int

record sleep_list =
  sl_nodes :: "sleep_node list"
  sl_free :: nat
  sl_avail :: nat

text \<open>\<open>alloc_node\<close>: \<open>None\<close> is \<open>NULL\<close>; otherwise the list with one node taken from the free list or from \<open>kalloc\<close>.\<close>

definition sl_alloc_node :: "sleep_list \<Rightarrow> sleep_list option" where
  "sl_alloc_node l =
     (if sl_free l = 0
      then (if sl_avail l = 0 then None else Some (l\<lparr>sl_avail := sl_avail l - 1\<rparr>))
      else Some (l\<lparr>sl_free := sl_free l - 1\<rparr>))"

definition sl_free_node :: "sleep_list \<Rightarrow> sleep_list" where
  "sl_free_node l = l\<lparr>sl_free := Suc (sl_free l)\<rparr>"

definition sleep_list_init :: "nat \<Rightarrow> sleep_list" where
  "sleep_list_init avail = \<lparr>sl_nodes = [], sl_free = 0, sl_avail = avail\<rparr>"

text \<open>\<open>update_list\<close>: subtract the ticks from the node, the first of its argument, if there is one.\<close>

fun update_list :: "sleep_node list \<Rightarrow> int \<Rightarrow> sleep_node list" where
  "update_list [] ticks = []"
| "update_list (cur # rest) ticks = cur\<lparr>sn_delta := sn_delta cur - ticks\<rparr> # rest"

text \<open>The search loop of \<open>sleep_list_add\<close>: the nodes passed, the ticks left over, and the rest from \<open>curr\<close> on.\<close>

fun sl_search :: "sleep_node list \<Rightarrow> int \<Rightarrow> sleep_node list \<times> int \<times> sleep_node list" where
  "sl_search [] ticks = ([], ticks, [])"
| "sl_search (cur # rest) ticks =
     (if sn_delta cur \<le> ticks
      then (case sl_search rest (ticks - sn_delta cur) of (passed, t, r) \<Rightarrow> (cur # passed, t, r))
      else ([], ticks, cur # rest))"

definition sleep_list_add :: "sleep_list \<Rightarrow> nat \<Rightarrow> int \<Rightarrow> sleep_list result" where
  "sleep_list_add l process ticks =
     (case sl_alloc_node l of
        None \<Rightarrow> Inl NullDeref
      | Some l1 \<Rightarrow>
          if sl_nodes l1 = [] \<or> sn_delta (hd (sl_nodes l1)) \<ge> ticks
          then Inr (l1\<lparr>sl_nodes :=
                 \<lparr>sn_process = process, sn_delta = ticks\<rparr> # update_list (sl_nodes l1) ticks\<rparr>)
          else (case sl_search (sl_nodes l1) ticks of
                  (passed, t, []) \<Rightarrow> Inl NullDeref
                | (passed, t, cur # rest) \<Rightarrow>
                    Inr (l1\<lparr>sl_nodes :=
                      passed @ \<lparr>sn_process = process, sn_delta = t\<rparr> # cur # update_list rest t\<rparr>)))"

text \<open>The search and unlinking of \<open>sleep_list_remove\<close>: the delta of the node removed goes to its successor.\<close>

fun sl_remove :: "(nat \<Rightarrow> int) \<Rightarrow> int \<Rightarrow> sleep_node list \<Rightarrow> sleep_node list option" where
  "sl_remove pid target [] = None"
| "sl_remove pid target (cur # rest) =
     (if pid (sn_process cur) \<noteq> target
      then map_option ((#) cur) (sl_remove pid target rest)
      else (case rest of
              [] \<Rightarrow> Some []
            | nxt # rest' \<Rightarrow> Some (nxt\<lparr>sn_delta := sn_delta nxt + sn_delta cur\<rparr> # rest')))"

definition sleep_list_remove :: "(nat \<Rightarrow> int) \<Rightarrow> sleep_list \<Rightarrow> nat \<Rightarrow> sleep_list" where
  "sleep_list_remove pid l process =
     (case sl_remove pid (pid process) (sl_nodes l) of
        None \<Rightarrow> l
      | Some ns \<Rightarrow> sl_free_node (l\<lparr>sl_nodes := ns\<rparr>))"

section \<open>Wake-up times\<close>

text \<open>The tick, counted from now, at which each process of the list is due.\<close>

fun due_from :: "int \<Rightarrow> sleep_node list \<Rightarrow> (nat \<times> int) list" where
  "due_from t [] = []"
| "due_from t (n # ns) = (sn_process n, t + sn_delta n) # due_from (t + sn_delta n) ns"

abbreviation due :: "sleep_list \<Rightarrow> (nat \<times> int) list" where
  "due l \<equiv> due_from 0 (sl_nodes l)"

lemma due_from_shift: "due_from (t + d) ns = map (\<lambda>(p, x). (p, x + d)) (due_from t ns)"
proof (induction ns arbitrary: t)
  case (Cons n ns)
  from Cons [of "t + sn_delta n"] show ?case by (simp add: algebra_simps)
qed simp

lemma due_from_update_list: "due_from t (update_list ns t) = due_from 0 ns"
  by (cases ns) simp_all

text \<open>
  Adding a process due no later than every other keeps the others' due times, and removing any
  process keeps the others' due times.
\<close>

lemma sleep_list_add_front:
  assumes "sl_free l + sl_avail l > 0"
    and "sl_nodes l = [] \<or> ticks \<le> sn_delta (hd (sl_nodes l))"
  shows "\<exists>l'. sleep_list_add l process ticks = Inr l' \<and> due l' = (process, ticks) # due l"
  using assms
  by (auto simp: sleep_list_add_def sl_alloc_node_def due_from_update_list)

lemma sl_remove_due:
  "sl_remove pid target ns = Some ns' \<Longrightarrow> due_from t ns' = drop_first (\<lambda>(p, x). pid p = target) (due_from t ns)"
proof (induction ns arbitrary: t ns')
  case (Cons n ns)
  show ?case
  proof (cases "pid (sn_process n) = target")
    case True
    with Cons.prems show ?thesis
      by (cases ns) (auto simp: algebra_simps)
  next
    case False
    with Cons show ?thesis by auto
  qed
qed simp

lemma sl_remove_None: "sl_remove pid target ns = None \<longleftrightarrow> (\<forall>n \<in> set ns. pid (sn_process n) \<noteq> target)"
  by (induction ns) (auto split: list.splits)

lemma due_from_processes: "map fst (due_from t ns) = map sn_process ns"
  by (induction ns arbitrary: t) auto

lemma sleep_list_remove_due:
  "due (sleep_list_remove pid l process) = drop_first (\<lambda>(p, x). pid p = pid process) (due l)"
proof (cases "sl_remove pid (pid process) (sl_nodes l)")
  case None
  then have "\<forall>n \<in> set (map fst (due l)). pid n \<noteq> pid process"
    unfolding due_from_processes by (auto simp: sl_remove_None)
  then have "drop_first (\<lambda>(p, x). pid p = pid process) (due l) = due l"
    by (intro drop_first_absent) auto
  with None show ?thesis by (simp add: sleep_list_remove_def)
qed (simp add: sleep_list_remove_def sl_free_node_def sl_remove_due)

text \<open>The search passes every node when the new process is due no earlier than the last.\<close>

lemma sl_search_all:
  "(\<forall>n \<in> set ns. 0 \<le> sn_delta n) \<Longrightarrow> sum_list (map sn_delta ns) \<le> ticks \<Longrightarrow>
     sl_search ns ticks = (ns, ticks - sum_list (map sn_delta ns), [])"
proof (induction ns arbitrary: ticks)
  case (Cons n ns)
  then have "0 \<le> sum_list (map sn_delta ns)" by (intro sum_list_nonneg) auto
  with Cons show ?case by (auto simp: algebra_simps)
qed simp

section \<open>Properties\<close>

text \<open>Taking a process out of the sleep list leaves every other process its due time and the order.\<close>

theorem sleep_list_remove_keeps_due:
  "due (sleep_list_remove pid l process) = drop_first (\<lambda>(p, x). pid p = pid process) (due l)"
  by (rule sleep_list_remove_due)

text \<open>
  C40. A process that sleeps longer than every process already in a non-empty list makes
  \<open>sleep_list_add\<close> read \<open>curr->next\<close> with \<open>curr\<close> equal to \<open>NULL\<close>.
\<close>

theorem sleep_list_add_longest_faults:
  assumes "sl_nodes l \<noteq> []" and "\<forall>n \<in> set (sl_nodes l). 0 \<le> sn_delta n"
    and "sum_list (map sn_delta (sl_nodes l)) < ticks"
  shows "sleep_list_add l process ticks = Inl NullDeref"
proof -
  obtain n ns where ns: "sl_nodes l = n # ns" using assms(1) by (cases "sl_nodes l") auto
  have "0 \<le> sum_list (map sn_delta ns)"
    using assms(2) ns by (intro sum_list_nonneg) auto
  with assms(3) ns have "sn_delta n < ticks" by simp
  with ns sl_search_all [of "sl_nodes l" ticks] assms(2,3) show ?thesis
    by (auto simp: sleep_list_add_def sl_alloc_node_def split: if_splits)
qed

theorem sleep_list_add_longest_faults_witness:
  "sleep_list_add \<lparr>sl_nodes = [\<lparr>sn_process = 1, sn_delta = 4\<rparr>], sl_free = 0, sl_avail = 9\<rparr> 2 7 = Inl NullDeref"
  by (rule sleep_list_add_longest_faults) simp_all

end
