(* ===== verification/Scheduler.thy ===== *)
theory Scheduler
  imports Process_Queue Sleep_List
begin

text \<open>
  \<open>src/system/scheduler.c\<close>, the two \<open>choose_next\<close> implementations of \<open>src/system/scheduler/\<close> (one of
  them is linked, the \<open>SCHEDULER\<close> variable of the Makefile chooses), \<open>task_load\<close> of
  \<open>src/system/task.c\<close> and \<open>sleep_list_update\<close> of \<open>src/system/sleepList.c\<close>, which calls back into the
  scheduler. The ready queue is the list of entries of a process queue (theory \<open>Process_Queue\<close>).
  A loop that calls \<open>scheduler_do\<close> in its body is cut there: the model gives the part before the
  switch and the part after it as two operations, since other processes run in between.
\<close>

section \<open>Definitions\<close>

record sched =
  procs :: process_store
  scheduler_queue :: "queue_entry list"
  scheduler_curr :: ptr
  scheduler_sleep_list :: sleep_list
  cycles :: u64
  prev_cycles :: u64
  curr_cycles :: u64
  ts_esp0 :: nat

definition scheduler_init :: "nat \<Rightarrow> 'z sched_scheme \<Rightarrow> 'z sched_scheme" where
  "scheduler_init avail k = k\<lparr>scheduler_sleep_list := sleep_list_init avail\<rparr>"

definition scheduler_add :: "nat \<Rightarrow> 'z sched_scheme \<Rightarrow> 'z sched_scheme" where
  "scheduler_add p k = k\<lparr>scheduler_queue := queue_push (scheduler_queue k) p\<rparr>"

definition scheduler_unblock :: "nat \<Rightarrow> 'z sched_scheme \<Rightarrow> 'z sched_scheme" where
  "scheduler_unblock p k =
     (if \<not> is_done (p_schedule (procs k p))
      then k\<lparr>scheduler_queue := queue_push (scheduler_queue k) p\<rparr> else k)"

definition scheduler_block :: "nat \<Rightarrow> 'z sched_scheme \<Rightarrow> 'z sched_scheme" where
  "scheduler_block p k =
     k\<lparr>scheduler_queue := queue_remove (pid_of (procs k)) (scheduler_queue k) p\<rparr>"

definition scheduler_remove :: "nat \<Rightarrow> 'z sched_scheme \<Rightarrow> 'z sched_scheme" where
  "scheduler_remove p k =
     (let k1 = (case scheduler_curr k of
                  Some c \<Rightarrow> if pid_of (procs k) p = pid_of (procs k) c then k\<lparr>scheduler_curr := None\<rparr> else k
                | None \<Rightarrow> k);
          k2 = (if asleep (p_schedule (procs k1 p))
                then k1\<lparr>scheduler_sleep_list :=
                       sleep_list_remove (pid_of (procs k1)) (scheduler_sleep_list k1) p\<rparr>
                else k1)
      in k2\<lparr>scheduler_queue := queue_remove (pid_of (procs k2)) (scheduler_queue k2) p\<rparr>)"

definition update_cycles :: "u64 \<Rightarrow> nat \<Rightarrow> 'z sched_scheme \<Rightarrow> 'z sched_scheme" where
  "update_cycles newCycles c k =
     (let delta = newCycles - cycles k
      in k\<lparr>procs := upd_proc c (\<lambda>p. p\<lparr>p_cycles := p_cycles p + delta,
                                      p_curr_cycles := p_curr_cycles p + delta\<rparr>) (procs k),
           curr_cycles := curr_cycles k + delta,
           cycles := newCycles\<rparr>)"

text \<open>The demotion of the running process both \<open>choose_next\<close> start with.\<close>

definition demote_current :: "'z sched_scheme \<Rightarrow> 'z sched_scheme" where
  "demote_current k =
     (case scheduler_curr k of
        Some c \<Rightarrow> if status_of (procs k) c = StatusRunning
                  then k\<lparr>procs := upd_sched c (\<lambda>s. s\<lparr>status := StatusReady\<rparr>) (procs k)\<rparr> else k
      | None \<Rightarrow> k)"

definition run_process :: "nat \<Rightarrow> 'z sched_scheme \<Rightarrow> 'z sched_scheme" where
  "run_process p k =
     k\<lparr>scheduler_curr := Some p, procs := upd_sched p (\<lambda>s. s\<lparr>status := StatusRunning\<rparr>) (procs k)\<rparr>"

text \<open>
  \<open>updateAcumPriorities\<close> of the priority scheduler: \<open>i\<close> is the position of \<open>node\<close> and \<open>tp\<close> that of
  \<open>top_priority\<close>, which starts at the first node.
\<close>

function updateAcum_loop ::
  "process_store \<Rightarrow> queue_entry list \<Rightarrow> nat \<Rightarrow> nat \<Rightarrow> queue_entry list \<times> nat" where
  "updateAcum_loop P q tp i =
     (if i < length q
      then (let p = fst (q ! i)
            in if status_of P p \<noteq> StatusBlocked
               then (let q1 = q[i := (p, snd (q ! i) + (int (priority_of P p) + 1))];
                         tp1 = (if snd (q1 ! i) > snd (q1 ! tp) then i else tp)
                     in updateAcum_loop P q1 tp1 (Suc i))
               else updateAcum_loop P q tp (Suc i))
      else (q, tp))"
  by pat_completeness auto
termination
  by (relation "measure (\<lambda>(P, q, tp, i). length q - i)") (auto simp: Let_def)

declare updateAcum_loop.simps [simp del]

definition updateAcumPriorities :: "process_store \<Rightarrow> queue_entry list \<Rightarrow> queue_entry list \<times> nat option" where
  "updateAcumPriorities P q =
     (if q = [] then (q, None)
      else (case updateAcum_loop P q 0 0 of (q', tp) \<Rightarrow> (q', Some tp)))"

definition choose_next_priority :: "'z sched_scheme \<Rightarrow> 'z sched_scheme" where
  "choose_next_priority k =
     (let k1 = demote_current k
      in case updateAcumPriorities (procs k1) (scheduler_queue k1) of
           (q, None) \<Rightarrow> k1\<lparr>scheduler_queue := q\<rparr>
         | (q, Some tp) \<Rightarrow>
             run_process (fst (q ! tp)) (k1\<lparr>scheduler_queue := q[tp := (fst (q ! tp), 1)]\<rparr>))"

text \<open>
  The round robin scheduler: the loop that pops and pushes until it meets a process that is not
  blocked; \<open>None\<close> when it never does.
\<close>

partial_function (option) rr_loop ::
  "process_store \<Rightarrow> queue_entry list \<Rightarrow> (nat option \<times> queue_entry list) option" where
  "rr_loop P q =
     (case queue_pop q of
        (None, q1) \<Rightarrow> Some (None, q1)
      | (Some p, q1) \<Rightarrow>
          if status_of P p = StatusBlocked then rr_loop P (queue_push q1 p)
          else Some (Some p, queue_push q1 p))"

definition choose_next_rr :: "'z sched_scheme \<Rightarrow> 'z sched_scheme option" where
  "choose_next_rr k =
     (let k1 = demote_current k
      in case rr_loop (procs k1) (scheduler_queue k1) of
           None \<Rightarrow> None
         | Some (None, q) \<Rightarrow> Some (k1\<lparr>scheduler_queue := q, scheduler_curr := None\<rparr>)
         | Some (Some p, q) \<Rightarrow> Some (run_process p (k1\<lparr>scheduler_queue := q\<rparr>)))"

definition task_load :: "nat \<Rightarrow> 'z sched_scheme \<Rightarrow> 'z sched_scheme" where
  "task_load p k = k\<lparr>ts_esp0 := kernelStack (p_mm (procs k p))\<rparr>"

text \<open>
  \<open>scheduler_do\<close>, with \<open>choose_next\<close> as linked, the frame pointer \<open>ebp\<close> and the time stamp counter at
  the call; the second component is the frame pointer it returns with.
\<close>

definition scheduler_do ::
  "('z sched_scheme \<Rightarrow> 'z sched_scheme option) \<Rightarrow> nat \<Rightarrow> u64 \<Rightarrow> 'z sched_scheme \<Rightarrow> ('z sched_scheme \<times> nat) option"
  where
  "scheduler_do choose_next ebp tsc k =
     (let k1 = (case scheduler_curr k of
                  Some c \<Rightarrow> update_cycles tsc c
                     (k\<lparr>procs := upd_proc c (\<lambda>p. p\<lparr>p_mm := (p_mm p)\<lparr>esp0 := ebp\<rparr>\<rparr>) (procs k)\<rparr>)
                | None \<Rightarrow> k)
      in case choose_next k1 of
           None \<Rightarrow> None
         | Some k2 \<Rightarrow>
             (case scheduler_curr k2 of
                Some c \<Rightarrow> Some (task_load c k2, esp0 (p_mm (procs k2 c)))
              | None \<Rightarrow> Some (k2, ebp)))"

definition scheduler_current :: "'z sched_scheme \<Rightarrow> ptr" where
  "scheduler_current k = scheduler_curr k"

definition scheduler_get_cycles :: "'z sched_scheme \<Rightarrow> u64" where
  "scheduler_get_cycles k = cycles k"

definition scheduler_get_prev_sample_cycles :: "'z sched_scheme \<Rightarrow> u64" where
  "scheduler_get_prev_sample_cycles k = prev_cycles k"

text \<open>The wake-up loop of \<open>sleep_list_update\<close>: the nodes left and the state after the unblocking.\<close>

fun sl_wake_loop :: "sleep_node list \<Rightarrow> 'z sched_scheme \<Rightarrow> sleep_node list \<times> 'z sched_scheme" where
  "sl_wake_loop [] k = ([], k)"
| "sl_wake_loop (n # ns) k =
     (if sn_delta n = 0
      then sl_wake_loop ns
             (let k1 = k\<lparr>procs := upd_sched (sn_process n)
                           (\<lambda>s. s\<lparr>status := StatusReady, asleep := False\<rparr>) (procs k)\<rparr>;
                  k2 = scheduler_unblock (sn_process n) k1
              in k2\<lparr>scheduler_sleep_list := sl_free_node (scheduler_sleep_list k2)\<rparr>)
      else (n # ns, k))"

definition sleep_list_update :: "'z sched_scheme \<Rightarrow> 'z sched_scheme" where
  "sleep_list_update k =
     (let ns = (case sl_nodes (scheduler_sleep_list k) of
                  [] \<Rightarrow> []
                | n # ns \<Rightarrow> n\<lparr>sn_delta := sn_delta n - 1\<rparr> # ns)
      in case sl_wake_loop ns k of
           (ns', k') \<Rightarrow> k'\<lparr>scheduler_sleep_list := (scheduler_sleep_list k')\<lparr>sl_nodes := ns'\<rparr>\<rparr>)"

definition scheduler_tick :: "'z sched_scheme \<Rightarrow> 'z sched_scheme" where
  "scheduler_tick k = sleep_list_update k"

definition scheduler_restart_sample :: "'z sched_scheme \<Rightarrow> 'z sched_scheme" where
  "scheduler_restart_sample k = k\<lparr>prev_cycles := curr_cycles k, curr_cycles := 0\<rparr>"

text \<open>
  \<open>scheduler_sleep\<close> up to its first \<open>scheduler_do\<close>, and the loop test after each: \<open>None\<close> when the
  process may go on.
\<close>

definition sleep_block :: "nat \<Rightarrow> 'z sched_scheme \<Rightarrow> 'z sched_scheme" where
  "sleep_block p k =
     scheduler_block p (k\<lparr>procs := upd_sched p (\<lambda>s. s\<lparr>status := StatusBlocked\<rparr>) (procs k)\<rparr>)"

definition sleep_ticks :: "int \<Rightarrow> int" where
  "sleep_ticks seconds = s32 (seconds * 1000) sdiv 55"

definition scheduler_sleep :: "nat \<Rightarrow> int \<Rightarrow> 'z sched_scheme \<Rightarrow> 'z sched_scheme result" where
  "scheduler_sleep p seconds k =
     rbind (sleep_list_add (scheduler_sleep_list k) p (sleep_ticks seconds))
       (\<lambda>l. Inr (sleep_block p
          (k\<lparr>scheduler_sleep_list := l, procs := upd_sched p (\<lambda>s. s\<lparr>asleep := True\<rparr>) (procs k)\<rparr>)))"

definition scheduler_sleep_resume :: "nat \<Rightarrow> 'z sched_scheme \<Rightarrow> 'z sched_scheme option" where
  "scheduler_sleep_resume p k =
     (if asleep (p_schedule (procs k p)) then Some (sleep_block p k) else None)"


section \<open>The priority scheduler\<close>

text \<open>What one round adds to the accumulated priority of an entry.\<close>

definition live :: "process_store \<Rightarrow> queue_entry \<Rightarrow> bool" where
  "live P e \<longleftrightarrow> status_of P (fst e) \<noteq> StatusBlocked"

definition bump :: "process_store \<Rightarrow> queue_entry \<Rightarrow> queue_entry" where
  "bump P e = (if live P e then (fst e, snd e + (int (priority_of P (fst e)) + 1)) else e)"

lemma fst_bump [simp]: "fst (bump P e) = fst e"
  by (simp add: bump_def)

lemma live_bump [simp]: "live P (bump P e) = live P e"
  by (simp add: live_def)

text \<open>
  The loop bumps every entry from \<open>i\<close> on and ends with the position of the largest accumulated
  priority among the live entries.
\<close>

lemma updateAcum_loop_spec:
  assumes "updateAcum_loop P q tp i = (q', tp')" "tp < length q" "tp \<le> i" "tp = i \<longrightarrow> i = 0"
    and "\<And>j. j < i \<Longrightarrow> j < length q \<Longrightarrow> live P (q ! j) \<Longrightarrow> snd (q ! j) \<le> snd (q ! tp)"
  shows "q' = take i q @ map (bump P) (drop i q) \<and> tp' < length q \<and>
     (\<forall>j < length q. live P (q ! j) \<longrightarrow> snd (q' ! j) \<le> snd (q' ! tp'))"
  using assms
proof (induction "length q - i" arbitrary: q tp i)
  case 0
  then show ?case by (subst (asm) updateAcum_loop.simps) auto
next
  case (Suc d)
  then have i: "i < length q" by simp
  show ?case
  proof (cases "live P (q ! i)")
    case False
    with i Suc.prems(1) have eq: "updateAcum_loop P q tp (Suc i) = (q', tp')"
      by (subst (asm) updateAcum_loop.simps) (auto simp: live_def Let_def)
    have "q' = take (Suc i) q @ map (bump P) (drop (Suc i) q) \<and> tp' < length q \<and>
        (\<forall>j < length q. live P (q ! j) \<longrightarrow> snd (q' ! j) \<le> snd (q' ! tp'))"
      using False i Suc.prems(2-5) Suc.hyps(2) by (intro Suc.hyps(1) [OF _ eq]) (auto simp: less_Suc_eq)
    moreover have "bump P (q ! i) = q ! i" using False by (simp add: bump_def)
    ultimately show ?thesis
      using i by (auto simp: take_Suc_conv_app_nth Cons_nth_drop_Suc [symmetric])
  next
    case live: True
    define q1 where "q1 = q[i := bump P (q ! i)]"
    define tp1 where "tp1 = (if snd (q1 ! i) > snd (q1 ! tp) then i else tp)"
    have upd: "(fst (q ! i), snd (q ! i) + (int (priority_of P (fst (q ! i))) + 1)) = bump P (q ! i)"
      using live by (simp add: bump_def)
    have eq: "updateAcum_loop P q1 tp1 (Suc i) = (q', tp')"
      using live i Suc.prems(1)
      by (subst (asm) updateAcum_loop.simps)
        (simp add: live_def Let_def upd q1_def [symmetric] tp1_def [symmetric])
    have lv: "live P (q1 ! j) = live P (q ! j)" if "j < length q" for j
      using that i by (auto simp: q1_def nth_list_update)
    have le: "snd (q1 ! j) \<le> snd (q1 ! tp1)" if "j < Suc i" "live P (q1 ! j)" for j
    proof (cases "j = i")
      case False
      with that i Suc.prems(5) [of j] lv [of j] have "snd (q ! j) \<le> snd (q ! tp)" by simp
      moreover have "q1 ! j = q ! j" using False by (simp add: q1_def)
      moreover have "snd (q ! tp) \<le> snd (q1 ! tp)"
        by (auto simp: q1_def nth_list_update bump_def i)
      ultimately show ?thesis by (auto simp: tp1_def)
    qed (auto simp: tp1_def)
    have "q' = take (Suc i) q1 @ map (bump P) (drop (Suc i) q1) \<and> tp' < length q1 \<and>
        (\<forall>j < length q1. live P (q1 ! j) \<longrightarrow> snd (q' ! j) \<le> snd (q' ! tp'))"
      using i Suc.prems(2-4) Suc.hyps(2) le
      by (intro Suc.hyps(1) [OF _ eq]) (auto simp: q1_def tp1_def)
    then show ?thesis
      using i lv by (auto simp: q1_def take_Suc_conv_app_nth Cons_nth_drop_Suc [symmetric])
  qed
qed

lemma updateAcumPriorities_spec:
  assumes "q \<noteq> []"
  shows "\<exists>tp. updateAcumPriorities P q = (map (bump P) q, Some tp) \<and> tp < length q \<and>
     (\<forall>j < length q. live P (q ! j) \<longrightarrow> snd (bump P (q ! j)) \<le> snd (bump P (q ! tp)))"
proof -
  obtain q' tp' where eq: "updateAcum_loop P q 0 0 = (q', tp')" by fastforce
  with updateAcum_loop_spec [OF eq] assms show ?thesis
    by (auto simp: updateAcumPriorities_def)
qed

lemma updateAcumPriorities_Nil [simp]: "updateAcumPriorities P [] = ([], None)"
  by (simp add: updateAcumPriorities_def)

lemma demote_current_simps [simp]:
  "scheduler_queue (demote_current k) = scheduler_queue k"
  "scheduler_curr (demote_current k) = scheduler_curr k"
  "priority_of (procs (demote_current k)) p = priority_of (procs k) p"
  "pid_of (procs (demote_current k)) p = pid_of (procs k) p"
  "status_of (procs (demote_current k)) p = StatusBlocked \<longleftrightarrow> status_of (procs k) p = StatusBlocked"
  by (auto simp: demote_current_def split: option.splits)

lemma run_process_simps [simp]:
  "scheduler_queue (run_process p k) = scheduler_queue k"
  "scheduler_curr (run_process p k) = Some p"
  "priority_of (procs (run_process p k)) x = priority_of (procs k) x"
  "pid_of (procs (run_process p k)) x = pid_of (procs k) x"
  "status_of (procs (run_process p k)) x = (if x = p then StatusRunning else status_of (procs k) x)"
  by (auto simp: run_process_def)

lemma live_demote [simp]: "live (procs (demote_current k)) = live (procs k)"
  by (auto simp: live_def)

lemma bump_demote [simp]: "bump (procs (demote_current k)) = bump (procs k)"
  by (auto simp: bump_def fun_eq_iff)

lemma choose_next_priority_spec:
  assumes "scheduler_queue k \<noteq> []"
  shows "\<exists>tp. tp < length (scheduler_queue k) \<and>
     (\<forall>j < length (scheduler_queue k). live (procs k) (scheduler_queue k ! j) \<longrightarrow>
        snd (bump (procs k) (scheduler_queue k ! j)) \<le> snd (bump (procs k) (scheduler_queue k ! tp))) \<and>
     choose_next_priority k = run_process (fst (scheduler_queue k ! tp))
       ((demote_current k)\<lparr>scheduler_queue :=
          (map (bump (procs k)) (scheduler_queue k))[tp := (fst (scheduler_queue k ! tp), 1)]\<rparr>)"
proof -
  from updateAcumPriorities_spec [OF assms, of "procs (demote_current k)"] obtain tp
    where tp: "updateAcumPriorities (procs (demote_current k)) (scheduler_queue k) =
        (map (bump (procs k)) (scheduler_queue k), Some tp)" "tp < length (scheduler_queue k)"
      "\<forall>j < length (scheduler_queue k). live (procs k) (scheduler_queue k ! j) \<longrightarrow>
        snd (bump (procs k) (scheduler_queue k ! j)) \<le> snd (bump (procs k) (scheduler_queue k ! tp))"
    by auto
  then show ?thesis by (intro exI [of _ tp]) (simp add: choose_next_priority_def Let_def)
qed

text \<open>
  No starvation, on the accumulated priorities alone: in round \<open>r\<close> slot \<open>i\<close> rises from \<open>A r i\<close> to
  \<open>B r i\<close>, by one to four, and the slot \<open>T r\<close> with the largest value falls back to one. Every slot is
  chosen within \<open>4 * n\<close> rounds.
\<close>

lemma rising_slots_chosen:
  fixes A B :: "nat \<Rightarrow> nat \<Rightarrow> int" and T :: "nat \<Rightarrow> nat"
  assumes T: "\<And>r. T r < n"
    and B: "\<And>r i. i < n \<Longrightarrow> A r i + 1 \<le> B r i \<and> B r i \<le> A r i + 4"
    and top_B: "\<And>r i. i < n \<Longrightarrow> B r i \<le> B r (T r)"
    and A: "\<And>r i. i < n \<Longrightarrow> A (Suc r) i = (if i = T r then 1 else B r i)"
    and init: "\<And>i. i < n \<Longrightarrow> 1 \<le> A 0 i"
    and i0: "i0 < n"
  shows "\<exists>r < 4 * n. T r = i0"
proof (rule ccontr)
  assume "\<not> ?thesis"
  then have never: "T r \<noteq> i0" if "r < 4 * n" for r using that by blast
  have low: "1 + int r \<le> A r i0" if "r \<le> 4 * n" for r
    using that
  proof (induction r)
    case (Suc r)
    with never [of r] B [OF i0, of r] A [OF i0, of r] show ?case by simp
  qed (simp add: init [OF i0])
  have high: "A (Suc r + d) i \<le> 1 + 4 * int d" if "T r = i" for r d i
  proof (induction d)
    case 0
    then show ?case using A [of i r] T [of r] that by simp
  next
    case (Suc d)
    with A [of i "Suc r + d"] B [of i "Suc r + d"] T [of r] that show ?case by auto
  qed
  have sep: "4 * r1 < 3 * r2" if "r1 < r2" "r2 < 4 * n" "T r1 = T r2" for r1 r2
  proof -
    have "A r2 (T r2) \<le> 1 + 4 * int (r2 - Suc r1)"
      using high [OF that(3), of "r2 - Suc r1"] that(1) by simp
    with low [of r2] B [OF i0, of r2] B [of "T r2" r2, OF T] top_B [OF i0, of r2] that
    show ?thesis by simp
  qed
  have "T r1 \<noteq> T r2" if "r1 < r2" "3 * n \<le> r1" "r2 < 4 * n" for r1 r2
    using sep [of r1 r2] that by fastforce
  then have "inj_on T {3 * n ..< 4 * n}"
    by (intro linorder_inj_onI) auto
  then have "card (T ` {3 * n ..< 4 * n}) = n" by (simp add: card_image)
  moreover have "T ` {3 * n ..< 4 * n} \<subseteq> {..<n} - {i0}" using T never by force
  ultimately have "n \<le> card ({..<n} - {i0})" by (metis card_mono finite_Diff finite_lessThan)
  with i0 show False by simp
qed


lemma choose_next_priority_Nil:
  "scheduler_queue k = [] \<Longrightarrow> scheduler_queue (choose_next_priority k) = []"
  by (simp add: choose_next_priority_def Let_def)

text \<open>
  A ready queue as the scheduler finds it: no entry is blocked, the priorities are those a 2-bit field
  can hold and every accumulated priority is at least the one it was pushed with.
\<close>

definition ready_queue :: "'z sched_scheme \<Rightarrow> bool" where
  "ready_queue k \<longleftrightarrow> (\<forall>e \<in> set (scheduler_queue k).
     live (procs k) e \<and> priority_of (procs k) (fst e) < 4 \<and> 1 \<le> snd e)"

definition next_top :: "'z sched_scheme \<Rightarrow> nat" where
  "next_top k = the (snd (updateAcumPriorities (procs (demote_current k)) (scheduler_queue k)))"

lemma choose_next_priority_ready:
  assumes "ready_queue k" "scheduler_queue k \<noteq> []"
  defines "q \<equiv> scheduler_queue k" and "k' \<equiv> choose_next_priority k"
  shows "next_top k < length q"
    and "\<And>i. i < length q \<Longrightarrow> snd (bump (procs k) (q ! i)) \<le> snd (bump (procs k) (q ! next_top k))"
    and "\<And>i. i < length q \<Longrightarrow> scheduler_queue k' ! i =
           (if i = next_top k then (fst (q ! i), 1) else bump (procs k) (q ! i))"
    and "length (scheduler_queue k') = length q"
    and "scheduler_curr k' = Some (fst (q ! next_top k))"
    and "ready_queue k'"
proof -
  from updateAcumPriorities_spec [OF assms(2), of "procs (demote_current k)"] obtain tp
    where tp: "updateAcumPriorities (procs (demote_current k)) q = (map (bump (procs k)) q, Some tp)"
      "tp < length q"
      "\<forall>j < length q. live (procs k) (q ! j) \<longrightarrow> snd (bump (procs k) (q ! j)) \<le> snd (bump (procs k) (q ! tp))"
    by (auto simp: q_def)
  have top_eq: "next_top k = tp" using tp(1) by (simp add: next_top_def q_def)
  have k': "k' = run_process (fst (q ! tp))
      ((demote_current k)\<lparr>scheduler_queue := (map (bump (procs k)) q)[tp := (fst (q ! tp), 1)]\<rparr>)"
    using tp by (simp add: choose_next_priority_def Let_def k'_def q_def [symmetric])
  have lq: "live (procs k) (q ! i) \<and> priority_of (procs k) (fst (q ! i)) < 4 \<and> 1 \<le> snd (q ! i)"
    if "i < length q" for i
    using assms(1) that by (auto simp: ready_queue_def q_def)
  show "next_top k < length q" using tp top_eq by simp
  show "snd (bump (procs k) (q ! i)) \<le> snd (bump (procs k) (q ! next_top k))" if "i < length q" for i
    using tp lq that top_eq by simp
  show qn: "scheduler_queue k' ! i = (if i = next_top k then (fst (q ! i), 1) else bump (procs k) (q ! i))"
    if "i < length q" for i
    using that tp(2) top_eq by (auto simp: k' nth_list_update)
  show len: "length (scheduler_queue k') = length q" by (simp add: k')
  show "scheduler_curr k' = Some (fst (q ! next_top k))" by (simp add: k' top_eq)
  have "live (procs k') (scheduler_queue k' ! i) \<and> priority_of (procs k') (fst (scheduler_queue k' ! i)) < 4 \<and>
      1 \<le> snd (scheduler_queue k' ! i)" if "i < length q" for i
    using lq [OF that] qn [OF that] by (auto simp: k' live_def bump_def)
  with len show "ready_queue k'"
    unfolding ready_queue_def by (metis in_set_conv_nth)
qed

lemma priority_of_choose_next: "priority_of (procs (choose_next_priority k)) p = priority_of (procs k) p"
  by (auto simp: choose_next_priority_def Let_def split: option.splits prod.splits)

lemma ready_queue_rounds:
  assumes "ready_queue k"
  shows "ready_queue ((choose_next_priority ^^ r) k) \<and>
     length (scheduler_queue ((choose_next_priority ^^ r) k)) = length (scheduler_queue k) \<and>
     map fst (scheduler_queue ((choose_next_priority ^^ r) k)) = map fst (scheduler_queue k)"
proof (induction r)
  case (Suc r)
  define k' where "k' = (choose_next_priority ^^ r) k"
  show ?case
  proof (cases "scheduler_queue k' = []")
    case True
    then have "scheduler_queue (choose_next_priority k') = []" by (rule choose_next_priority_Nil)
    with Suc True show ?thesis
      by (simp add: k'_def [symmetric] ready_queue_def)
  next
    case False
    with Suc have r: "ready_queue k'" by (simp add: k'_def)
    note next_round = choose_next_priority_ready [OF r False]
    have "map fst (scheduler_queue (choose_next_priority k')) = map fst (scheduler_queue k')"
      by (rule nth_equalityI) (simp_all add: next_round)
    with Suc next_round show ?thesis by (simp add: k'_def [symmetric])
  qed
qed (use assms in simp)

lemma priority_no_starvation_lemma:
  assumes "ready_queue k" "i0 < length (scheduler_queue k)"
  shows "\<exists>r < 4 * length (scheduler_queue k).
     scheduler_curr ((choose_next_priority ^^ Suc r) k) = Some (fst (scheduler_queue k ! i0))"
proof -
  define n where "n = length (scheduler_queue k)"
  define K where "K r = (choose_next_priority ^^ r) k" for r
  have K: "ready_queue (K r)" "length (scheduler_queue (K r)) = n" "scheduler_queue (K r) \<noteq> []"
    "map fst (scheduler_queue (K r)) = map fst (scheduler_queue k)" for r
    using ready_queue_rounds [OF assms(1), of r] assms(2) by (auto simp: K_def n_def)
  have KS: "choose_next_priority (K r) = K (Suc r)" for r by (simp add: K_def)
  have lv: "live (procs (K r)) (scheduler_queue (K r) ! i)"
    "priority_of (procs (K r)) (fst (scheduler_queue (K r) ! i)) < 4" if "i < n" for r i
    using K [of r] that by (auto simp: ready_queue_def)
  note ready = choose_next_priority_ready [OF K(1,3), unfolded KS K(2)]
  have "\<exists>r < 4 * n. next_top (K r) = i0"
  proof (rule rising_slots_chosen [where A = "\<lambda>r i. snd (scheduler_queue (K r) ! i)"
        and B = "\<lambda>r i. snd (bump (procs (K r)) (scheduler_queue (K r) ! i))"])
    show "1 \<le> snd (scheduler_queue (K 0) ! i)" if "i < n" for i
      using K(1,2) [of 0] that by (auto simp: ready_queue_def)
    show "snd (scheduler_queue (K r) ! i) + 1 \<le> snd (bump (procs (K r)) (scheduler_queue (K r) ! i)) \<and>
        snd (bump (procs (K r)) (scheduler_queue (K r) ! i)) \<le> snd (scheduler_queue (K r) ! i) + 4"
      if "i < n" for r i
      using lv [OF that, of r] by (simp add: bump_def)
  qed (use ready assms(2) in \<open>auto simp: n_def\<close>)
  then obtain r where r: "r < 4 * n" "next_top (K r) = i0" by blast
  have "scheduler_curr (K (Suc r)) = Some (fst (scheduler_queue (K r) ! i0))"
    using ready(5) [of r] r by simp
  moreover have "fst (scheduler_queue (K r) ! i0) = fst (scheduler_queue k ! i0)"
    using K(2,4) [of r] assms(2) by (metis length_map nth_map n_def)
  ultimately show ?thesis using r(1) unfolding K_def n_def by auto
qed


section \<open>The round robin scheduler\<close>

text \<open>The loop passes the blocked entries, re-queues them and stops after the first live one.\<close>

lemma rr_loop_first_live:
  assumes "\<forall>e \<in> set as. \<not> live P e" "live P e"
  shows "rr_loop P (as @ e # bs) = Some (Some (fst e), bs @ map (\<lambda>a. (fst a, 1)) as @ [(fst e, 1)])"
  using assms
proof (induction as arbitrary: bs)
  case Nil
  then show ?case by (subst rr_loop.simps) (simp add: live_def queue_push_def)
next
  case (Cons a as)
  then have "rr_loop P ((a # as) @ e # bs) = rr_loop P (as @ e # (bs @ [(fst a, 1)]))"
    by (subst rr_loop.simps) (simp add: live_def queue_push_def)
  with Cons show ?case by simp
qed

lemma rr_loop_Nil [simp]: "rr_loop P [] = Some (None, [])"
  by (subst rr_loop.simps) simp

lemma rr_loop_returns_live:
  assumes "rr_loop P q = Some r" "q \<noteq> []"
  shows "\<exists>e \<in> set q. live P e"
proof -
  define R where "R = (\<lambda>x (r :: nat option \<times> queue_entry list).
     snd x \<noteq> [] \<longrightarrow> (\<exists>e \<in> set (snd x). live (fst x) e))"
  have "R (P, q) r"
  proof (rule rr_loop.raw_induct [of R, OF _ assms(1)])
    fix rr P q r
    assume IH: "\<And>P q r. rr P q = Some r \<Longrightarrow> R (P, q) r"
      and eq: "(case queue_pop q of (None, q1) \<Rightarrow> Some (None, q1)
        | (Some p, q1) \<Rightarrow> if status_of P p = StatusBlocked then rr P (queue_push q1 p)
            else Some (Some p, queue_push q1 p)) = Some r"
    show "R (P, q) r"
    proof (cases q)
      case (Cons e q')
      show ?thesis
      proof (cases "live P e")
        case False
        with eq Cons have "rr P (queue_push q' (fst e)) = Some r" by (simp add: live_def)
        from IH [OF this] have "\<exists>x \<in> set (queue_push q' (fst e)). live P x"
          by (auto simp: queue_push_def R_def)
        with False Cons show ?thesis by (auto simp: queue_push_def live_def R_def)
      qed (simp add: Cons R_def)
    qed (simp add: R_def)
  qed
  with assms(2) show ?thesis by (simp add: R_def)
qed

lemma rr_loop_terminates_iff:
  "(\<exists>r. rr_loop P q = Some r) \<longleftrightarrow> q = [] \<or> (\<exists>e \<in> set q. live P e)"
proof
  assume "q = [] \<or> (\<exists>e \<in> set q. live P e)"
  then show "\<exists>r. rr_loop P q = Some r"
  proof
    assume "\<exists>e \<in> set q. live P e"
    then obtain as e bs where "q = as @ e # bs" "live P e" "\<forall>a \<in> set as. \<not> live P a"
      using split_list_first_prop [of q "live P"] by blast
    then show ?thesis using rr_loop_first_live by blast
  qed simp
qed (use rr_loop_returns_live in blast)

lemma choose_next_rr_live:
  assumes "scheduler_queue k = e # q" "\<forall>x \<in> set (e # q). live (procs k) x"
  shows "\<exists>k'. choose_next_rr k = Some k' \<and> scheduler_curr k' = Some (fst e) \<and>
     scheduler_queue k' = q @ [(fst e, 1)] \<and> (\<forall>x \<in> set (scheduler_queue k'). live (procs k') x)"
  using rr_loop_first_live [of "[]" "procs (demote_current k)" e q] assms
  by (auto simp: choose_next_rr_def Let_def live_def)

text \<open>\<open>r\<close> calls of the round robin \<open>choose_next\<close> in a row.\<close>

primrec rr_rounds :: "nat \<Rightarrow> 'z sched_scheme \<Rightarrow> 'z sched_scheme option" where
  "rr_rounds 0 k = Some k"
| "rr_rounds (Suc r) k = (case choose_next_rr k of None \<Rightarrow> None | Some k' \<Rightarrow> rr_rounds r k')"

lemma rr_rounds_live:
  assumes "scheduler_queue k = as @ e # q" "\<forall>x \<in> set (scheduler_queue k). live (procs k) x"
  shows "\<exists>k'. rr_rounds (Suc (length as)) k = Some k' \<and> scheduler_curr k' = Some (fst e)"
  using assms
proof (induction as arbitrary: k q)
  case Nil
  with choose_next_rr_live [of k e q] show ?case by auto
next
  case (Cons a as)
  from choose_next_rr_live [of k a "as @ e # q"] Cons.prems obtain k' where
    k': "choose_next_rr k = Some k'" "scheduler_queue k' = as @ e # (q @ [(fst a, 1)])"
      "\<forall>x \<in> set (scheduler_queue k'). live (procs k') x" by auto
  from Cons.IH [OF k'(2,3)] k'(1) show ?case by simp
qed

section \<open>Sleeping processes\<close>

text \<open>
  A delta list as the ticks leave it: the first process is due in the future and no process before
  its predecessor.
\<close>

definition sleep_wf :: "sleep_list \<Rightarrow> bool" where
  "sleep_wf l \<longleftrightarrow> (case sl_nodes l of [] \<Rightarrow> True | n # ns \<Rightarrow> 1 \<le> sn_delta n \<and> (\<forall>x \<in> set ns. 0 \<le> sn_delta x))"

definition wake_entries :: "process_store \<Rightarrow> (nat \<times> int) list \<Rightarrow> queue_entry list" where
  "wake_entries P ds = map (\<lambda>d. (fst d, 1)) (filter (\<lambda>d. \<not> is_done (p_schedule (P (fst d)))) ds)"

lemma sl_wake_loop_nodes: "fst (sl_wake_loop ns k) = dropWhile (\<lambda>n. sn_delta n = 0) ns"
  by (induction ns k rule: sl_wake_loop.induct) auto

lemma sl_wake_loop_done:
  "is_done (p_schedule (procs (snd (sl_wake_loop ns k)) p)) = is_done (p_schedule (procs k p))"
  by (induction ns k rule: sl_wake_loop.induct) (auto simp: Let_def scheduler_unblock_def)

lemma sl_wake_loop_queue:
  "scheduler_queue (snd (sl_wake_loop ns k)) = scheduler_queue k @
     wake_entries (procs k) (map (\<lambda>n. (sn_process n, 0)) (takeWhile (\<lambda>n. sn_delta n = 0) ns))"
proof (induction ns k rule: sl_wake_loop.induct)
  case (2 n ns k)
  have "wake_entries (upd_sched p (\<lambda>s. s\<lparr>status := StatusReady, asleep := False\<rparr>) (procs k)) ds =
      wake_entries (procs k) ds" for p ds
    unfolding wake_entries_def
    by (rule arg_cong [where f = "map (\<lambda>d. (fst d, 1))"], rule filter_cong) auto
  with 2 show ?case
    by (auto simp: Let_def scheduler_unblock_def wake_entries_def queue_push_def)
qed (simp add: wake_entries_def)

lemma due_from_ge: "\<forall>n \<in> set ns. 0 \<le> sn_delta n \<Longrightarrow> d \<in> set (due_from t ns) \<Longrightarrow> t \<le> snd d"
  by (induction ns arbitrary: t) fastforce+

lemma due_split:
  assumes "\<forall>n \<in> set ns. 0 \<le> sn_delta n"
  shows "due_from 0 (dropWhile (\<lambda>n. sn_delta n = 0) ns) = filter (\<lambda>d. snd d \<noteq> 0) (due_from 0 ns) \<and>
    map (\<lambda>n. (sn_process n, 0)) (takeWhile (\<lambda>n. sn_delta n = 0) ns) = filter (\<lambda>d. snd d = 0) (due_from 0 ns)"
  using assms
proof (induction ns)
  case (Cons n ns)
  have late: "snd d \<noteq> 0" if "sn_delta n \<noteq> 0" "d \<in> set (due_from (sn_delta n) ns)" for d
    using due_from_ge [of ns d "sn_delta n"] that Cons.prems by auto
  show ?case
  proof (cases "sn_delta n = 0")
    case True
    with Cons show ?thesis by simp
  next
    case False
    with late have "filter (\<lambda>d. snd d \<noteq> 0) (due_from (sn_delta n) ns) = due_from (sn_delta n) ns"
      "filter (\<lambda>d. snd d = 0) (due_from (sn_delta n) ns) = []"
      by (auto simp: filter_id_conv filter_empty_conv)
    with False show ?thesis by simp
  qed
qed simp

lemma dropWhile_hd_pos:
  "\<forall>n \<in> set ns. 0 \<le> sn_delta n \<Longrightarrow>
     case dropWhile (\<lambda>n. sn_delta n = 0) ns of [] \<Rightarrow> True
     | n # ns' \<Rightarrow> 1 \<le> sn_delta n \<and> (\<forall>x \<in> set ns'. 0 \<le> sn_delta x)"
  by (induction ns) auto

text \<open>
  One tick brings every process one tick nearer and moves those that are due, in order, to the end
  of the ready queue.
\<close>

lemma sleep_list_update_tick:
  assumes "sleep_wf (scheduler_sleep_list k)"
  defines "k' \<equiv> sleep_list_update k"
  shows "sleep_wf (scheduler_sleep_list k')"
    and "due (scheduler_sleep_list k') =
           map (\<lambda>d. (fst d, snd d - 1)) (filter (\<lambda>d. snd d \<noteq> 1) (due (scheduler_sleep_list k)))"
    and "scheduler_queue k' = scheduler_queue k @
           wake_entries (procs k) (filter (\<lambda>d. snd d = 1) (due (scheduler_sleep_list k)))"
    and "is_done (p_schedule (procs k' p)) = is_done (p_schedule (procs k p))"
proof -
  define ns where "ns = (case sl_nodes (scheduler_sleep_list k) of [] \<Rightarrow> []
      | n # ns \<Rightarrow> n\<lparr>sn_delta := sn_delta n - 1\<rparr> # ns)"
  have nonneg: "\<forall>n \<in> set ns. 0 \<le> sn_delta n"
    using assms(1) by (auto simp: ns_def sleep_wf_def split: list.splits)
  have shift: "due_from 0 ns = map (\<lambda>d. (fst d, snd d - 1)) (due (scheduler_sleep_list k))"
  proof (cases "sl_nodes (scheduler_sleep_list k)")
    case (Cons n rest)
    with due_from_shift [of "sn_delta n" "-1" rest] show ?thesis
      by (simp add: ns_def case_prod_beta)
  qed (simp add: ns_def)
  have eqs: "sl_nodes (scheduler_sleep_list k') = dropWhile (\<lambda>n. sn_delta n = 0) ns"
    "scheduler_queue k' = scheduler_queue (snd (sl_wake_loop ns k))"
    "procs k' = procs (snd (sl_wake_loop ns k))"
    using sl_wake_loop_nodes [of ns k]
    by (simp_all add: k'_def sleep_list_update_def ns_def [symmetric] case_prod_beta)
  show "sleep_wf (scheduler_sleep_list k')"
    using dropWhile_hd_pos [OF nonneg] by (simp add: sleep_wf_def eqs)
  show "due (scheduler_sleep_list k') =
      map (\<lambda>d. (fst d, snd d - 1)) (filter (\<lambda>d. snd d \<noteq> 1) (due (scheduler_sleep_list k)))"
    by (simp add: eqs due_split [OF nonneg] shift filter_map comp_def)
  show "scheduler_queue k' = scheduler_queue k @
      wake_entries (procs k) (filter (\<lambda>d. snd d = 1) (due (scheduler_sleep_list k)))"
    by (simp add: eqs sl_wake_loop_queue due_split [OF nonneg] shift filter_map comp_def wake_entries_def)
  show "is_done (p_schedule (procs k' p)) = is_done (p_schedule (procs k p))"
    by (simp add: eqs sl_wake_loop_done)
qed

text \<open>After \<open>n\<close> ticks exactly the processes due within \<open>n\<close> have left the list, each to the ready queue.\<close>

lemma wake_entries_cong:
  "(\<And>p. is_done (p_schedule (P p)) = is_done (p_schedule (P' p))) \<Longrightarrow>
     wake_entries P (map (\<lambda>d. (fst d, f d)) ds) = wake_entries P' ds"
  by (simp add: wake_entries_def filter_map comp_def)

lemma due_sorted: "\<forall>n \<in> set ns. 0 \<le> sn_delta n \<Longrightarrow> sorted (map snd (due_from t ns))"
proof (induction ns arbitrary: t)
  case (Cons n ns)
  with due_from_ge [of ns _ "t + sn_delta n"] show ?case by auto
qed simp

lemma sorted_filter_le_split:
  assumes "sorted (map snd ds)"
  shows "filter (\<lambda>d. snd d \<le> m) ds @ filter (\<lambda>d. snd d = m + 1) ds = filter (\<lambda>d. snd d \<le> m + (1::int)) ds"
  using assms
proof (induction ds)
  case (Cons d ds)
  show ?case
  proof (cases "snd d \<le> m")
    case False
    with Cons.prems have "filter (\<lambda>d. snd d \<le> m) ds = []" by (fastforce simp: filter_empty_conv)
    with False Cons show ?thesis by (cases "snd d = m + 1") auto
  qed (use Cons in auto)
qed simp

lemma sleep_wf_nonneg: "sleep_wf l \<Longrightarrow> \<forall>n \<in> set (sl_nodes l). 0 \<le> sn_delta n"
  by (auto simp: sleep_wf_def split: list.splits)

lemma sleep_ticks_elapse:
  assumes "sleep_wf (scheduler_sleep_list k)"
  defines "ds \<equiv> due (scheduler_sleep_list k)"
  shows "sleep_wf (scheduler_sleep_list ((scheduler_tick ^^ n) k)) \<and>
     (\<forall>p. is_done (p_schedule (procs ((scheduler_tick ^^ n) k) p)) = is_done (p_schedule (procs k p))) \<and>
     due (scheduler_sleep_list ((scheduler_tick ^^ n) k)) =
       map (\<lambda>d. (fst d, snd d - int n)) (filter (\<lambda>d. snd d > int n) ds) \<and>
     scheduler_queue ((scheduler_tick ^^ n) k) =
       scheduler_queue k @ wake_entries (procs k) (filter (\<lambda>d. snd d \<le> int n) ds)"
proof (induction n)
  case 0
  have pos: "0 < snd d" if "d \<in> set ds" for d
  proof (cases "sl_nodes (scheduler_sleep_list k)")
    case (Cons n ns)
    with that assms(1) due_from_ge [of ns d "sn_delta n"] show ?thesis
      by (auto simp: ds_def sleep_wf_def)
  qed (use that in \<open>simp add: ds_def\<close>)
  then have "filter (\<lambda>d. snd d \<le> 0) ds = []" "filter (\<lambda>d. snd d > 0) ds = ds"
    by (force simp: filter_empty_conv filter_id_conv not_le)+
  then show ?case by (simp add: assms(1) ds_def [symmetric] wake_entries_def)
next
  case (Suc n)
  define kn where "kn = (scheduler_tick ^^ n) k"
  have IH: "sleep_wf (scheduler_sleep_list kn)"
    "\<And>p. is_done (p_schedule (procs kn p)) = is_done (p_schedule (procs k p))"
    "due (scheduler_sleep_list kn) = map (\<lambda>d. (fst d, snd d - int n)) (filter (\<lambda>d. snd d > int n) ds)"
    "scheduler_queue kn = scheduler_queue k @ wake_entries (procs k) (filter (\<lambda>d. snd d \<le> int n) ds)"
    using Suc by (simp_all add: kn_def)
  note tick = sleep_list_update_tick [OF IH(1)]
  have next_k: "(scheduler_tick ^^ Suc n) k = sleep_list_update kn"
    by (simp add: kn_def scheduler_tick_def)
  have "filter (\<lambda>d. snd d = 1) (due (scheduler_sleep_list kn)) =
      map (\<lambda>d. (fst d, snd d - int n)) (filter (\<lambda>d. snd d = int n + 1) ds)"
    by (auto simp: IH(3) filter_map comp_def intro!: arg_cong [where f = "map _"] filter_cong)
  then have "wake_entries (procs kn) (filter (\<lambda>d. snd d = 1) (due (scheduler_sleep_list kn))) =
      wake_entries (procs k) (filter (\<lambda>d. snd d = int n + 1) ds)"
    by (simp add: wake_entries_cong [of "procs kn" "procs k"] IH(2))
  moreover have "filter (\<lambda>d. snd d \<le> int n) ds @ filter (\<lambda>d. snd d = int n + 1) ds =
      filter (\<lambda>d. snd d \<le> int n + 1) ds"
    using assms(1) unfolding ds_def by (intro sorted_filter_le_split due_sorted sleep_wf_nonneg)
  then have "wake_entries (procs k) (filter (\<lambda>d. snd d \<le> int n) ds) @
      wake_entries (procs k) (filter (\<lambda>d. snd d = int n + 1) ds) =
      wake_entries (procs k) (filter (\<lambda>d. snd d \<le> int n + 1) ds)"
    by (metis wake_entries_def map_append filter_append)
  moreover have "filter (\<lambda>d. snd d \<noteq> 1) (due (scheduler_sleep_list kn)) =
      map (\<lambda>d. (fst d, snd d - int n)) (filter (\<lambda>d. snd d > int n + 1) ds)"
    by (auto simp: IH(3) filter_map comp_def intro!: arg_cong [where f = "map _"] filter_cong)
  ultimately show ?case
    using tick IH(2,4) unfolding next_k by (simp add: add.commute diff_diff_eq comp_def)
qed

section \<open>Cycle accounting\<close>

text \<open>The cycles charged to the processes of a set that contains the running one, against the global counter.\<close>

lemma update_cycles_conserves:
  assumes "finite S" "c \<in> S"
  shows "(\<Sum>p\<in>S. p_curr_cycles (procs (update_cycles tsc c k) p)) - curr_cycles (update_cycles tsc c k) =
     (\<Sum>p\<in>S. p_curr_cycles (procs k p)) - curr_cycles k"
    and "(\<Sum>p\<in>S. p_cycles (procs (update_cycles tsc c k) p)) - cycles (update_cycles tsc c k) =
     (\<Sum>p\<in>S. p_cycles (procs k p)) - cycles k"
  using assms by (simp_all add: update_cycles_def Let_def sum.remove [of S c])


section \<open>Blocking\<close>

text \<open>A queue in which no pid occurs twice: blocking a process leaves no entry of it and all others.\<close>

definition distinct_pids :: "'z sched_scheme \<Rightarrow> bool" where
  "distinct_pids k \<longleftrightarrow> distinct (map (\<lambda>e. pid_of (procs k) (fst e)) (scheduler_queue k))"

lemma drop_first_filter:
  "distinct (map f xs) \<Longrightarrow> drop_first (\<lambda>x. f x = t) xs = filter (\<lambda>x. f x \<noteq> t) xs"
proof (induction xs)
  case (Cons x xs)
  show ?case
  proof (cases "f x = t")
    case True
    with Cons.prems have "t \<notin> f ` set xs" by auto
    then have "filter (\<lambda>x. f x \<noteq> t) xs = xs" by (auto simp: filter_id_conv)
    with True show ?thesis by simp
  qed (use Cons in simp)
qed simp

lemma scheduler_block_queue:
  "distinct_pids k \<Longrightarrow> scheduler_queue (scheduler_block p k) =
     filter (\<lambda>e. pid_of (procs k) (fst e) \<noteq> pid_of (procs k) p) (scheduler_queue k)"
  by (simp add: scheduler_block_def queue_remove_def distinct_pids_def drop_first_filter)

lemma scheduler_remove_queue:
  "distinct_pids k \<Longrightarrow> scheduler_queue (scheduler_remove p k) =
     filter (\<lambda>e. pid_of (procs k) (fst e) \<noteq> pid_of (procs k) p) (scheduler_queue k)"
  by (auto simp: scheduler_remove_def Let_def queue_remove_def distinct_pids_def drop_first_filter
      split: option.splits)


section \<open>Properties\<close>

text \<open>A small system for the examples: two ready processes, one sleeper due in three ticks.\<close>

definition sched_example :: sched where
  "sched_example = \<lparr>procs = (\<lambda>a. zero_process\<lparr>p_pid := int a\<rparr>), scheduler_queue = [(7, 1), (8, 1)],
     scheduler_curr = Some 7,
     scheduler_sleep_list = \<lparr>sl_nodes = [\<lparr>sn_process = 9, sn_delta = 3\<rparr>], sl_free = 0, sl_avail = 5\<rparr>,
     cycles = 0, prev_cycles = 0, curr_cycles = 0, ts_esp0 = 0\<rparr>"

lemmas sched_example_simps = sched_example_def zero_process_def zero_schedule_def

text \<open>
  C16. The priority scheduler starves no process: while the ready queue holds \<open>n\<close> processes that are
  not blocked, each of them is the current process after at most \<open>4 * n\<close> calls of \<open>choose_next\<close>,
  whatever their priorities.
\<close>

theorem priority_no_starvation:
  assumes "ready_queue k" and "i < length (scheduler_queue k)"
  shows "\<exists>r < 4 * length (scheduler_queue k).
     scheduler_curr ((choose_next_priority ^^ Suc r) k) = Some (fst (scheduler_queue k ! i))"
  using assms by (rule priority_no_starvation_lemma)

theorem priority_no_starvation_witness:
  "\<exists>r < 8. scheduler_curr ((choose_next_priority ^^ Suc r) sched_example) = Some 8"
  using priority_no_starvation [of sched_example 1]
  by (simp add: sched_example_simps ready_queue_def live_def)

text \<open>
  One call of the priority \<open>choose_next\<close> on a ready queue: the process chosen has, after every
  entry was raised by its priority plus one, the largest accumulated priority; it becomes current and
  \<open>StatusRunning\<close>, its accumulated priority falls back to one, the other entries keep the raised one,
  and the order of the queue does not change.
\<close>

theorem choose_next_priority_max:
  assumes "ready_queue k" and "scheduler_queue k \<noteq> []"
  shows "\<exists>tp < length (scheduler_queue k). \<exists>p. p = fst (scheduler_queue k ! tp) \<and>
     (\<forall>e \<in> set (scheduler_queue k). snd e + int (priority_of (procs k) (fst e)) \<le>
        snd (scheduler_queue k ! tp) + int (priority_of (procs k) p)) \<and>
     scheduler_curr (choose_next_priority k) = Some p \<and>
     status_of (procs (choose_next_priority k)) p = StatusRunning \<and>
     scheduler_queue (choose_next_priority k) =
       (map (\<lambda>e. (fst e, snd e + (int (priority_of (procs k) (fst e)) + 1))) (scheduler_queue k))[tp := (p, 1)]"
proof -
  obtain tp where tp: "tp < length (scheduler_queue k)"
    "\<forall>j < length (scheduler_queue k). live (procs k) (scheduler_queue k ! j) \<longrightarrow>
        snd (bump (procs k) (scheduler_queue k ! j)) \<le> snd (bump (procs k) (scheduler_queue k ! tp))"
    and cn: "choose_next_priority k = run_process (fst (scheduler_queue k ! tp))
       ((demote_current k)\<lparr>scheduler_queue :=
          (map (bump (procs k)) (scheduler_queue k))[tp := (fst (scheduler_queue k ! tp), 1)]\<rparr>)"
    using choose_next_priority_spec [OF assms(2)] by blast
  have b: "bump (procs k) e = (fst e, snd e + (int (priority_of (procs k) (fst e)) + 1))"
    "live (procs k) e" if "e \<in> set (scheduler_queue k)" for e
    using assms(1) that by (auto simp: ready_queue_def bump_def)
  have "snd e + int (priority_of (procs k) (fst e)) \<le>
      snd (scheduler_queue k ! tp) + int (priority_of (procs k) (fst (scheduler_queue k ! tp)))"
    if e: "e \<in> set (scheduler_queue k)" for e
  proof -
    from e obtain i where "i < length (scheduler_queue k)" "e = scheduler_queue k ! i"
      by (metis in_set_conv_nth)
    with tp b [OF e] b [OF nth_mem [OF tp(1)]] show ?thesis by auto
  qed
  with tp(1) cn b show ?thesis by (intro exI [of _ tp]) (simp cong: map_cong)
qed

theorem choose_next_priority_max_witness:
  "\<exists>p. scheduler_curr (choose_next_priority sched_example) = Some p \<and>
     status_of (procs (choose_next_priority sched_example)) p = StatusRunning"
proof -
  have "ready_queue sched_example" "scheduler_queue sched_example \<noteq> []"
    by (simp_all add: sched_example_simps ready_queue_def live_def)
  from choose_next_priority_max [OF this] show ?thesis by blast
qed

text \<open>
  C25. The round robin \<open>choose_next\<close> returns exactly when the ready queue is empty or holds a process
  that is not blocked, and on a queue without blocked processes the process at position \<open>i\<close> is the
  current one after \<open>i + 1\<close> calls.
\<close>

theorem choose_next_rr_fair:
  "((\<exists>k'. choose_next_rr k = Some k') \<longleftrightarrow>
      scheduler_queue k = [] \<or> (\<exists>e \<in> set (scheduler_queue k). status_of (procs k) (fst e) \<noteq> StatusBlocked)) \<and>
   ((\<forall>e \<in> set (scheduler_queue k). status_of (procs k) (fst e) \<noteq> StatusBlocked) \<longrightarrow>
      (\<forall>i < length (scheduler_queue k). \<exists>k'. rr_rounds (Suc i) k = Some k' \<and>
         scheduler_curr k' = Some (fst (scheduler_queue k ! i))))"
proof (intro conjI impI allI)
  have "(\<exists>k'. choose_next_rr k = Some k') \<longleftrightarrow> (\<exists>r. rr_loop (procs (demote_current k)) (scheduler_queue k) = Some r)"
    by (auto simp: choose_next_rr_def Let_def split: option.splits)
  also have "\<dots> \<longleftrightarrow> scheduler_queue k = [] \<or> (\<exists>e \<in> set (scheduler_queue k). status_of (procs k) (fst e) \<noteq> StatusBlocked)"
    unfolding rr_loop_terminates_iff live_demote by (simp add: live_def)
  finally show "(\<exists>k'. choose_next_rr k = Some k') \<longleftrightarrow>
      scheduler_queue k = [] \<or> (\<exists>e \<in> set (scheduler_queue k). status_of (procs k) (fst e) \<noteq> StatusBlocked)" .
next
  fix i assume "\<forall>e \<in> set (scheduler_queue k). status_of (procs k) (fst e) \<noteq> StatusBlocked"
    and i: "i < length (scheduler_queue k)"
  with rr_rounds_live [of k "take i (scheduler_queue k)" "scheduler_queue k ! i" "drop (Suc i) (scheduler_queue k)"]
  show "\<exists>k'. rr_rounds (Suc i) k = Some k' \<and> scheduler_curr k' = Some (fst (scheduler_queue k ! i))"
    by (simp add: live_def id_take_nth_drop [symmetric])
qed

theorem choose_next_rr_fair_witness:
  "\<exists>k'. rr_rounds (Suc 1) sched_example = Some k' \<and> scheduler_curr k' = Some 8"
proof -
  have live: "\<forall>e \<in> set (scheduler_queue sched_example).
      status_of (procs sched_example) (fst e) \<noteq> StatusBlocked"
    and q: "1 < length (scheduler_queue sched_example)" "fst (scheduler_queue sched_example ! 1) = 8"
    by (simp_all add: sched_example_simps)
  from choose_next_rr_fair [of sched_example] live q show ?thesis by metis
qed

text \<open>
  Sleeping processes wake on time: from a delta list in order, \<open>n\<close> timer ticks move to the end of
  the ready queue, in the order of their due times, exactly the sleepers due within \<open>n\<close> ticks (those
  already exiting excepted), and bring all others \<open>n\<close> ticks nearer.
\<close>

theorem scheduler_ticks_wake:
  assumes "sleep_wf (scheduler_sleep_list k)"
  shows "scheduler_queue ((scheduler_tick ^^ n) k) = scheduler_queue k @
       map (\<lambda>d. (fst d, 1)) (filter (\<lambda>d. snd d \<le> int n \<and> \<not> is_done (p_schedule (procs k (fst d))))
         (due (scheduler_sleep_list k))) \<and>
     due (scheduler_sleep_list ((scheduler_tick ^^ n) k)) =
       map (\<lambda>d. (fst d, snd d - int n)) (filter (\<lambda>d. snd d > int n) (due (scheduler_sleep_list k)))"
  using sleep_ticks_elapse [OF assms, of n] by (auto simp: wake_entries_def conj_commute)

theorem scheduler_ticks_wake_witness:
  "scheduler_queue ((scheduler_tick ^^ 3) sched_example) = [(7, 1), (8, 1), (9, 1)]"
  using scheduler_ticks_wake [of sched_example 3]
  by (simp add: sched_example_simps sleep_wf_def)

end
