(* ===== verification/Bitmap.thy ===== *)
theory Bitmap
  imports Kernel_Prelude
begin

text \<open>
  \<open>src/bitmap.h\<close>: bit arrays over 32-bit slots, used for the block and inode bitmaps of ext2.
  A bitmap is the memory behind an \<open>unsigned int*\<close>, a function from slot numbers to slots.
\<close>

unbundle bit_operations_syntax

section \<open>Definitions\<close>

type_synonym bitmap = "nat \<Rightarrow> u32"

abbreviation (input) ENTRIES_PER_SLOT :: nat where
  "ENTRIES_PER_SLOT \<equiv> 32"

definition bitmap_set :: "bitmap \<Rightarrow> nat \<Rightarrow> bitmap" where
  "bitmap_set m b = m(b div ENTRIES_PER_SLOT :=
     m (b div ENTRIES_PER_SLOT) OR push_bit (b mod ENTRIES_PER_SLOT) 1)"

definition bitmap_clear :: "bitmap \<Rightarrow> nat \<Rightarrow> bitmap" where
  "bitmap_clear m b = m(b div ENTRIES_PER_SLOT :=
     m (b div ENTRIES_PER_SLOT) AND NOT (push_bit (b mod ENTRIES_PER_SLOT) 1))"

definition bitmap_test :: "bitmap \<Rightarrow> nat \<Rightarrow> u32" where
  "bitmap_test m b = drop_bit (b mod ENTRIES_PER_SLOT) (m (b div ENTRIES_PER_SLOT)) AND 1"

text \<open>The inner loop over the bits of slot \<open>i\<close>, from bit \<open>j\<close> on; \<open>None\<close> when it runs to its end.\<close>

function first_clear_in_slot :: "bitmap \<Rightarrow> nat \<Rightarrow> nat \<Rightarrow> nat option" where
  "first_clear_in_slot m i j =
     (if j < ENTRIES_PER_SLOT
      then (let b = i * ENTRIES_PER_SLOT + j
            in if bitmap_test m b = 0 then Some b else first_clear_in_slot m i (Suc j))
      else None)"
  by pat_completeness auto
termination
  by (relation "measure (\<lambda>(m, i, j). ENTRIES_PER_SLOT - j)") auto

function first_clear_from :: "bitmap \<Rightarrow> nat \<Rightarrow> nat \<Rightarrow> int" where
  "first_clear_from m slots i =
     (if i < slots
      then (if m i \<noteq> NOT 0
            then (case first_clear_in_slot m i 0 of
                    Some b \<Rightarrow> int b
                  | None \<Rightarrow> first_clear_from m slots (Suc i))
            else first_clear_from m slots (Suc i))
      else -1)"
  by pat_completeness auto
termination
  by (relation "measure (\<lambda>(m, slots, i). slots - i)") auto

definition bitmap_first_clear :: "bitmap \<Rightarrow> nat \<Rightarrow> int" where
  "bitmap_first_clear m entries = first_clear_from m (entries div ENTRIES_PER_SLOT) 0"

declare first_clear_in_slot.simps [simp del] first_clear_from.simps [simp del]

section \<open>Reading back what was written\<close>

lemma bitmap_test_bit: "bitmap_test m b = (if bit (m (b div 32)) (b mod 32) then 1 else 0)"
  by (simp add: bitmap_test_def and_1_eq_bit)

lemma same_bit_iff: "(b div 32 = c div 32 \<and> b mod 32 = c mod 32) \<longleftrightarrow> b = (c::nat)"
  by (metis div_mult_mod_eq)

lemma bitmap_test_set: "bitmap_test (bitmap_set m b) c = (if c = b then 1 else bitmap_test m c)"
  using same_bit_iff [of c b]
  by (auto simp: bitmap_test_bit bitmap_set_def bit_or_iff bit_push_bit_1 simp del: push_bit_of_1)

lemma bitmap_test_clear: "bitmap_test (bitmap_clear m b) c = (if c = b then 0 else bitmap_test m c)"
  using same_bit_iff [of c b]
  by (auto simp: bitmap_test_bit bitmap_clear_def bit_and_iff bit_not_iff bit_push_bit_1
      simp del: push_bit_of_1)

section \<open>The search for a clear bit\<close>

text \<open>The inner loop returns the least clear bit of its slot at or after bit \<open>j\<close>.\<close>

lemma first_clear_in_slot_Some:
  "first_clear_in_slot m i j = Some b \<Longrightarrow>
     bitmap_test m b = 0 \<and> i * 32 + j \<le> b \<and> b < i * 32 + 32 \<and>
     (\<forall>c. i * 32 + j \<le> c \<and> c < b \<longrightarrow> bitmap_test m c \<noteq> 0)"
proof (induction m i j rule: first_clear_in_slot.induct)
  case (1 m i j)
  show ?case
  proof (cases "j < 32 \<and> bitmap_test m (i * 32 + j) \<noteq> 0")
    case True
    with 1 have "first_clear_in_slot m i (Suc j) = Some b"
      by (simp add: first_clear_in_slot.simps [of m i j] Let_def)
    with 1 True show ?thesis
      by (auto simp: Let_def) (metis Suc_leI le_antisym not_less_eq_eq)
  next
    case False
    with 1 show ?thesis
      by (auto simp: first_clear_in_slot.simps [of m i j] Let_def split: if_splits)
  qed
qed

lemma first_clear_in_slot_None:
  "first_clear_in_slot m i j = None \<Longrightarrow> i * 32 + j \<le> c \<Longrightarrow> c < i * 32 + 32 \<Longrightarrow> bitmap_test m c \<noteq> 0"
proof (induction m i j rule: first_clear_in_slot.induct)
  case (1 m i j)
  then have j: "j < 32" by simp
  with 1 have nz: "bitmap_test m (i * 32 + j) \<noteq> 0"
    by (auto simp: first_clear_in_slot.simps [of m i j] Let_def split: if_splits)
  with 1 j have none: "first_clear_in_slot m i (Suc j) = None"
    by (simp add: first_clear_in_slot.simps [of m i j] Let_def)
  show ?case
  proof (cases "c = i * 32 + j")
    case True
    with nz show ?thesis by simp
  next
    case False
    with 1 have "i * 32 + Suc j \<le> c" by simp
    with 1 j nz none show ?thesis by (simp add: Let_def)
  qed
qed

text \<open>A slot that is not all ones has a clear bit, so the inner loop never runs to its end.\<close>

lemma slot_full_iff: "m i = NOT 0 \<longleftrightarrow> (\<forall>c. i * 32 \<le> c \<and> c < i * 32 + 32 \<longrightarrow> bitmap_test m c \<noteq> 0)"
proof -
  have "(\<forall>j < 32. bit (m i) j) \<longleftrightarrow> (\<forall>c. i * 32 \<le> c \<and> c < i * 32 + 32 \<longrightarrow> bitmap_test m c \<noteq> 0)"
  proof safe
    fix c assume "\<forall>j < 32. bit (m i) j" "i * 32 \<le> c" "c < i * 32 + 32" "bitmap_test m c = 0"
    then show False by (auto simp: bitmap_test_bit split: if_splits)
        (metis div_nat_eqI mod_less_divisor mult.commute mult_Suc add.commute zero_less_numeral)
  next
    fix j :: nat assume "\<forall>c. i * 32 \<le> c \<and> c < i * 32 + 32 \<longrightarrow> bitmap_test m c \<noteq> 0" "j < 32"
    then have "bitmap_test m (i * 32 + j) \<noteq> 0" by simp
    with \<open>j < 32\<close> show "bit (m i) j" by (simp add: bitmap_test_bit split: if_splits)
  qed
  then show ?thesis using word_full_iff [of "m i"] by simp
qed

lemma first_clear_from_correct:
  assumes "\<forall>c < i * 32. bitmap_test m c \<noteq> 0"
  shows "first_clear_from m slots i =
     (if \<exists>c < slots * 32. bitmap_test m c = 0 then int (LEAST c. bitmap_test m c = 0) else -1)"
  using assms
proof (induction m slots i rule: first_clear_from.induct)
  case (1 m slots i)
  consider (fin) "\<not> i < slots" | (full) "i < slots" "m i = NOT 0" | (hit) "i < slots" "m i \<noteq> NOT 0"
    by blast
  then show ?case
  proof cases
    case fin
    with 1 show ?thesis by (auto simp: first_clear_from.simps [of m slots i])
  next
    case full
    with slot_full_iff [of m i] 1(3) have "\<forall>c < Suc i * 32. bitmap_test m c \<noteq> 0"
      by (metis add.commute leI mult_Suc)
    with full 1 show ?thesis by (simp add: first_clear_from.simps [of m slots i])
  next
    case hit
    with slot_full_iff [of m i] first_clear_in_slot_None [of m i 0]
    obtain b where b: "first_clear_in_slot m i 0 = Some b" by fastforce
    have bs: "bitmap_test m b = 0" "b < i * 32 + 32" "\<And>c. i * 32 \<le> c \<Longrightarrow> c < b \<Longrightarrow> bitmap_test m c \<noteq> 0"
      using first_clear_in_slot_Some [OF b] by auto
    have "b \<le> y" if "bitmap_test m y = 0" for y
    proof (rule ccontr)
      assume "\<not> b \<le> y"
      then show False using that bs(3) [of y] 1(3) by (cases "y < i * 32") auto
    qed
    then have "(LEAST c. bitmap_test m c = 0) = b"
      using bs(1) by (intro Least_equality) blast+
    moreover have "b < slots * 32"
      using bs(2) hit(1) by linarith
    ultimately show ?thesis
      using hit b bs(1) by (auto simp: first_clear_from.simps [of m slots i])
  qed
qed

lemma bitmap_first_clear_least:
  "bitmap_first_clear m entries =
     (if \<exists>c < entries div 32 * 32. bitmap_test m c = 0
      then int (LEAST c. bitmap_test m c = 0) else -1)"
  unfolding bitmap_first_clear_def by (rule first_clear_from_correct) simp

section \<open>Properties\<close>

text \<open>
  \<open>bitmap_first_clear\<close> returns the least clear bit of the whole slots below \<open>entries\<close>, and \<open>-1\<close>
  exactly when all their bits are set; setting and clearing a bit changes that bit only.
\<close>

theorem bitmap_first_clear_correct:
  "bitmap_first_clear m entries =
     (if \<exists>c < entries div 32 * 32. bitmap_test m c = 0
      then int (LEAST c. bitmap_test m c = 0) else -1) \<and>
   bitmap_test (bitmap_set m b) c = (if c = b then 1 else bitmap_test m c) \<and>
   bitmap_test (bitmap_clear m b) c = (if c = b then 0 else bitmap_test m c)"
  by (intro conjI bitmap_first_clear_least bitmap_test_set bitmap_test_clear)

end
