(* ===== verification/Page_Allocator.thy ===== *)
theory Page_Allocator
  imports Bitmap Process_Types
begin

text \<open>
  \<open>src/system/mm/allocator.c\<close>: the physical page allocator. \<open>pageMap\<close> holds one bit per page from
  page \<open>UNUSABLE_PAGES\<close> on; a set bit marks a free page. \<open>cache_evict\<close> (\<open>src/system/cache/cache.c\<close>)
  calls back into this allocator, so \<open>allocPages\<close> takes it as an argument. \<open>pm_kalloc\<close> counts the
  objects the kernel heap can still provide before \<open>kalloc\<close> returns \<open>NULL\<close>.
\<close>

unbundle bit_operations_syntax

section \<open>Definitions\<close>

definition MAPPABLE_PAGES :: nat where "MAPPABLE_PAGES = 1024 * 1024"
definition UNUSABLE_PAGES :: nat where "UNUSABLE_PAGES = 1024"
definition PAGE_SIZE :: nat where "PAGE_SIZE = 4 * 1024"
definition ENTRIES_IN_MAP :: nat where
  "ENTRIES_IN_MAP = (MAPPABLE_PAGES - UNUSABLE_PAGES) div 32 + 1"

text \<open>\<open>page -= UNUSABLE_PAGES\<close> on an \<open>int\<close>, divided as an \<open>unsigned int\<close>.\<close>

definition page_index :: "nat \<Rightarrow> nat" where
  "page_index page = nat (un32 (int page - int UNUSABLE_PAGES))"

definition setPage :: "bitmap \<Rightarrow> nat \<Rightarrow> bitmap" where
  "setPage m page = (let p = page_index page
     in m(p div 32 := m (p div 32) AND (- 1 XOR push_bit (p mod 32) 1)))"

definition unsetPage :: "bitmap \<Rightarrow> nat \<Rightarrow> bitmap" where
  "unsetPage m page = (let p = page_index page
     in m(p div 32 := m (p div 32) OR push_bit (p mod 32) 1))"

definition isPageSet :: "bitmap \<Rightarrow> nat \<Rightarrow> bool" where
  "isPageSet m page = (let p = page_index page in m (p div 32) AND push_bit (p mod 32) 1 = 0)"

text \<open>The inner loop of \<open>find_pages\<close>: the values of \<open>i\<close>, \<open>offset\<close> and \<open>consecutive\<close> it ends with.\<close>

function scan_pages :: "bitmap \<Rightarrow> nat \<Rightarrow> nat \<Rightarrow> nat \<Rightarrow> nat \<Rightarrow> nat \<Rightarrow> nat \<times> nat \<times> nat" where
  "scan_pages m pages start i offset consecutive =
     (let taken = isPageSet m (start + offset);
          cons1 = (if taken then 0 else consecutive + 1)
      in if \<not> taken \<and> cons1 = pages then (i, offset, cons1)
         else if (offset + 1) mod 32 = 0
         then (if cons1 \<noteq> 0 \<and> i + 1 < ENTRIES_IN_MAP \<and> m (i + 1) \<noteq> 0
               then scan_pages m pages start (i + 1) (offset + 1) cons1
               else (i, offset, cons1))
         else scan_pages m pages start i (offset + 1) cons1)"
  by pat_completeness auto
termination
proof (relation "measures [\<lambda>(m, pages, start, i, offset, c). ENTRIES_IN_MAP - i,
    \<lambda>(m, pages, start, i, offset, c). 32 - offset mod 32]", goal_cases)
  case (3 m pages start i offset c x xa)
  then have "(offset + 1) mod 32 = offset mod 32 + 1"
    by (simp add: mod_Suc split: if_splits)
  then show ?case using mod_less_divisor [of 32 "offset + 1"] by simp
qed auto

declare scan_pages.simps [simp del]

lemma scan_pages_index: "i \<le> fst (scan_pages m pages start i offset consecutive)"
proof (induction m pages start i offset consecutive rule: scan_pages.induct)
  case (1 m pages start i offset consecutive)
  then show ?case
    by (subst scan_pages.simps) (auto simp: Let_def intro: Suc_leD)
qed

lemma scan_pages_index_less:
  "i < ENTRIES_IN_MAP \<Longrightarrow> fst (scan_pages m pages start i offset consecutive) < ENTRIES_IN_MAP"
proof (induction m pages start i offset consecutive rule: scan_pages.induct)
  case (1 m pages start i offset consecutive)
  then show ?case
    by (subst scan_pages.simps) (auto simp: Let_def)
qed

text \<open>The outer loop: the first page of the run found, or 0.\<close>

function find_run :: "bitmap \<Rightarrow> nat \<Rightarrow> nat \<Rightarrow> nat" where
  "find_run m pages i =
     (if i < ENTRIES_IN_MAP
      then (if m i \<noteq> 0
            then (let start = i * 32 + UNUSABLE_PAGES;
                      r = scan_pages m pages start i 0 0
                  in if snd (snd r) = pages then start + (fst (snd r) + 1 - pages)
                     else find_run m pages (fst r + 1))
            else find_run m pages (i + 1))
      else 0)"
  by pat_completeness auto
termination
  by (relation "measure (\<lambda>(m, pages, i). ENTRIES_IN_MAP - i)")
    (auto simp: Let_def, metis diff_less_mono2 le_imp_less_Suc scan_pages_index fst_conv)

declare find_run.simps [simp del]


definition set_run :: "(bitmap \<Rightarrow> nat \<Rightarrow> bitmap) \<Rightarrow> bitmap \<Rightarrow> nat \<Rightarrow> nat \<Rightarrow> bitmap" where
  "set_run f m start pages = fold (\<lambda>i m. f m (start + i)) [0..<pages] m"

definition find_pages :: "bitmap \<Rightarrow> nat \<Rightarrow> nat \<times> bitmap" where
  "find_pages m pages =
     (if pages = 0 then (0, m)
      else (let start = find_run m pages 0
            in if start = 0 then (0, m)
               else (start * PAGE_SIZE, set_run setPage m start pages)))"

definition freePages :: "bitmap \<Rightarrow> nat \<Rightarrow> nat \<Rightarrow> bitmap" where
  "freePages m page pages = set_run unsetPage m (page div PAGE_SIZE) pages"

record page_state =
  pageMap :: bitmap
  pm_kalloc :: nat

text \<open>\<open>0\<close> stands for \<open>NULL\<close>; \<open>evict\<close> is \<open>cache_evict\<close>.\<close>

definition allocPages ::
  "(nat \<Rightarrow> 'z page_state_scheme \<Rightarrow> nat \<times> 'z page_state_scheme) \<Rightarrow> nat \<Rightarrow> 'z page_state_scheme \<Rightarrow>
     nat \<times> 'z page_state_scheme" where
  "allocPages evict pages st =
     (case find_pages (pageMap st) pages of
        (start, m) \<Rightarrow>
          if start = 0
          then (case evict pages (st\<lparr>pageMap := m\<rparr>) of
                  (evicted, st1) \<Rightarrow>
                    if evicted \<ge> pages
                    then (case find_pages (pageMap st1) pages of (s, m1) \<Rightarrow> (s, st1\<lparr>pageMap := m1\<rparr>))
                    else (0, st1))
          else (start, st\<lparr>pageMap := m\<rparr>))"

text \<open>The callback of \<open>malloc\<close>: the memory and the size allocated.\<close>

definition allocator ::
  "(nat \<Rightarrow> 'z page_state_scheme \<Rightarrow> nat \<times> 'z page_state_scheme) \<Rightarrow> nat \<Rightarrow> 'z page_state_scheme \<Rightarrow>
     (nat \<times> nat) \<times> 'z page_state_scheme" where
  "allocator evict sz st =
     (let pages = sz div PAGE_SIZE + 1
      in case allocPages evict pages st of
           (memory, st1) \<Rightarrow> ((memory, if memory \<noteq> 0 then PAGE_SIZE * pages else 0), st1))"

text \<open>\<open>reserve_pages\<close>: \<open>None\<close> is \<open>NULL\<close>; the new \<open>struct Pages\<close> becomes the first of its owner's list.\<close>

definition reserve_pages ::
  "(nat \<Rightarrow> 'z page_state_scheme \<Rightarrow> nat \<times> 'z page_state_scheme) \<Rightarrow> Process \<Rightarrow> nat \<Rightarrow> 'z page_state_scheme \<Rightarrow>
     (Pages option \<times> Process \<times> 'z page_state_scheme) result" where
  "reserve_pages evict owner pages st =
     (case allocPages evict pages st of
        (start, st1) \<Rightarrow>
          if start = 0 then Inr (None, owner, st1)
          else if pm_kalloc st1 = 0 then Inl NullDeref
          else (let pg = \<lparr>pg_start = start, pg_count = pages\<rparr>;
                    mm = p_mm owner
                in Inr (Some pg, owner\<lparr>p_mm := mm\<lparr>reservedPages := pg # reservedPages mm\<rparr>\<rparr>,
                        st1\<lparr>pm_kalloc := pm_kalloc st1 - 1\<rparr>)))"

definition free_pages :: "Pages list \<Rightarrow> 'z page_state_scheme \<Rightarrow> 'z page_state_scheme" where
  "free_pages pages st =
     fold (\<lambda>pg s. s\<lparr>pageMap := freePages (pageMap s) (pg_start pg) (pg_count pg),
                    pm_kalloc := Suc (pm_kalloc s)\<rparr>) pages st"

text \<open>An entry of the multiboot memory map; the fields are 32-bit unsigned.\<close>

record MemoryMapEntry =
  base_addr_low :: u32
  base_addr_high :: u32
  length_low :: u32
  length_high :: u32
  mm_type :: u32

text \<open>\<open>reservePageMap\<close>: where the page map is put; \<open>None\<close> when it panics.\<close>

definition MEMORY_START :: u32 where "MEMORY_START = 1024 * 4096"

fun reservePageMap :: "MemoryMapEntry list \<Rightarrow> u32 option" where
  "reservePageMap [] = None"
| "reservePageMap (entry # rest) =
     (let mapSize = of_nat (4 * ENTRIES_IN_MAP);
          en = base_addr_low entry + length_low entry
      in if base_addr_high entry = 0 \<and> en \<noteq> 0 \<and> mm_type entry = 1 \<and> 3 * 1024 * 1024 \<le> en \<and>
            base_addr_low entry < MEMORY_START \<and> base_addr_low entry < en - mapSize
         then Some (if MEMORY_START < en then 3 * 1024 * 1024 else en - mapSize)
         else reservePageMap rest)"

text \<open>The pages one entry of the memory map makes free: its first page and their number.\<close>

definition entry_pages :: "MemoryMapEntry \<Rightarrow> nat \<times> nat" where
  "entry_pages entry =
     (let en = base_addr_low entry + length_low entry
      in if base_addr_high entry = 0 \<and> en \<noteq> 0 \<and> mm_type entry = 1 \<and> MEMORY_START \<le> en
         then (let start = (if base_addr_low entry < MEMORY_START then MEMORY_START else base_addr_low entry);
                   firstPage = start div 4096;
                   startOffset = start mod 4096;
                   firstPage1 = (if startOffset \<noteq> 0 then firstPage + 1 else firstPage);
                   alignedLength = length_low entry - startOffset
               in (unat firstPage1, unat (alignedLength div 4096)))
         else (0, 0))"

definition initPages_entry :: "MemoryMapEntry \<Rightarrow> bitmap \<Rightarrow> bitmap" where
  "initPages_entry entry m =
     (case entry_pages entry of
        (firstPage, pages) \<Rightarrow>
          fold (\<lambda>page m. if page < MAPPABLE_PAGES then unsetPage m page else m)
            [firstPage..<firstPage + pages] m)"

definition initPages :: "MemoryMapEntry list \<Rightarrow> bitmap \<Rightarrow> bitmap" where
  "initPages entries m = fold initPages_entry entries m"

section \<open>The page map as a set of free pages\<close>

definition page_free :: "bitmap \<Rightarrow> nat \<Rightarrow> bool" where
  "page_free m p \<longleftrightarrow> bitmap_test m (p - UNUSABLE_PAGES) = 1"

text \<open>Pages the map can hold a bit for.\<close>

abbreviation PAGE_LIMIT :: nat where
  "PAGE_LIMIT \<equiv> UNUSABLE_PAGES + 32 * ENTRIES_IN_MAP"

lemma page_index_eq: "UNUSABLE_PAGES \<le> p \<Longrightarrow> p < 2 ^ 32 \<Longrightarrow> page_index p = p - UNUSABLE_PAGES"
  unfolding page_index_def by (subst un32_id) (auto simp: UNUSABLE_PAGES_def nat_diff_distrib)

lemma ENTRIES_IN_MAP_eq: "ENTRIES_IN_MAP = 32737"
  by (simp add: ENTRIES_IN_MAP_def MAPPABLE_PAGES_def UNUSABLE_PAGES_def)

lemma PAGE_LIMIT_less: "p < PAGE_LIMIT \<Longrightarrow> p < 2 ^ 32"
  by (simp add: ENTRIES_IN_MAP_eq UNUSABLE_PAGES_def)

lemma page_ops_bitmap:
  assumes "UNUSABLE_PAGES \<le> p" "p < PAGE_LIMIT"
  shows "setPage m p = bitmap_clear m (p - UNUSABLE_PAGES)"
    and "unsetPage m p = bitmap_set m (p - UNUSABLE_PAGES)"
    and "isPageSet m p \<longleftrightarrow> \<not> page_free m p"
proof -
  note idx = page_index_eq [OF assms(1) PAGE_LIMIT_less [OF assms(2)]]
  have "- 1 XOR w = NOT w" for w :: u32
    by (rule bit_word_eqI) (simp add: bit_xor_iff bit_not_iff)
  then show "setPage m p = bitmap_clear m (p - UNUSABLE_PAGES)"
    by (simp add: setPage_def bitmap_clear_def idx Let_def)
  show "unsetPage m p = bitmap_set m (p - UNUSABLE_PAGES)"
    by (simp add: unsetPage_def bitmap_set_def idx Let_def)
  have "w AND push_bit b 1 = 0 \<longleftrightarrow> \<not> bit w b" if "b < 32" for w :: u32 and b
    unfolding bit_eq_iff [of "w AND push_bit b 1"]
    using that by (auto simp: bit_and_iff bit_push_bit_1 simp del: push_bit_of_1)
  then show "isPageSet m p \<longleftrightarrow> \<not> page_free m p"
    by (simp add: isPageSet_def page_free_def bitmap_test_bit idx Let_def)
qed

lemma page_free_setPage:
  assumes "UNUSABLE_PAGES \<le> p" "p < PAGE_LIMIT" "UNUSABLE_PAGES \<le> x"
  shows "page_free (setPage m p) x \<longleftrightarrow> x \<noteq> p \<and> page_free m x"
    and "page_free (unsetPage m p) x \<longleftrightarrow> x = p \<or> page_free m x"
  using assms by (auto simp: page_ops_bitmap [OF assms(1,2)] page_free_def bitmap_test_clear bitmap_test_set)

lemma word_zero_no_free:
  assumes "m i = 0" "p div 32 = i"
  shows "\<not> page_free m (p + UNUSABLE_PAGES)"
  using assms by (simp add: page_free_def bitmap_test_bit)


section \<open>The search for a run of free pages\<close>

text \<open>A run of \<open>n\<close> free pages from page \<open>a\<close>, within the map.\<close>

definition free_run :: "bitmap \<Rightarrow> nat \<Rightarrow> nat \<Rightarrow> bool" where
  "free_run m a n \<longleftrightarrow> UNUSABLE_PAGES \<le> a \<and> a + n \<le> PAGE_LIMIT \<and> (\<forall>j < n. page_free m (a + j))"

text \<open>
  What the loops know before they look at page \<open>pos\<close>: the \<open>c\<close> pages before it are free, fewer than
  asked for, and every run of free pages starts at the first of these or later.
\<close>

definition scan_inv :: "bitmap \<Rightarrow> nat \<Rightarrow> nat \<Rightarrow> nat \<Rightarrow> bool" where
  "scan_inv m n pos c \<longleftrightarrow> c < n \<and> UNUSABLE_PAGES + c \<le> pos \<and> (\<forall>p. pos - c \<le> p \<and> p < pos \<longrightarrow> page_free m p) \<and>
     (\<forall>a. free_run m a n \<longrightarrow> pos - c \<le> a)"

lemma scan_inv_free:
  assumes "scan_inv m n pos c" "page_free m pos"
  shows "\<forall>p. pos - c \<le> p \<and> p < pos + 1 \<longrightarrow> page_free m p"
    and "c + 1 < n \<Longrightarrow> scan_inv m n (pos + 1) (c + 1)"
  using assms by (auto simp: scan_inv_def less_Suc_eq)

lemma scan_inv_taken:
  assumes "scan_inv m n pos c" "\<not> page_free m pos"
  shows "scan_inv m n (pos + 1) 0"
proof -
  have "pos < a" if "free_run m a n" for a
  proof (rule ccontr)
    assume "\<not> pos < a"
    moreover have "pos - c \<le> a" "c < n" "c \<le> pos" using assms(1) that by (auto simp: scan_inv_def)
    ultimately have "pos - a < n" "a + (pos - a) = pos" by auto
    with that assms(2) show False by (metis free_run_def)
  qed
  with assms(1) show ?thesis by (auto simp: scan_inv_def Suc_le_eq)
qed

text \<open>A run can not begin before a page that ends the map, or a page whose word is zero.\<close>

lemma scan_inv_restart:
  assumes "scan_inv m n pos c" "pos = PAGE_LIMIT \<or> \<not> page_free m pos"
  shows "scan_inv m n pos 0"
proof -
  have "pos \<le> a" if "free_run m a n" for a
  proof (rule ccontr)
    assume "\<not> pos \<le> a"
    moreover have ac: "pos - c \<le> a" "c < n" "c \<le> pos" using assms(1) that by (auto simp: scan_inv_def)
    ultimately have "pos - a < n" "a + (pos - a) = pos" by auto
    with that ac assms(2) show False by (auto simp: free_run_def)
  qed
  with assms(1) show ?thesis by (auto simp: scan_inv_def)
qed

lemma scan_inv_skip_word:
  assumes "scan_inv m n (i * 32 + UNUSABLE_PAGES) 0" "m i = 0"
  shows "scan_inv m n (Suc i * 32 + UNUSABLE_PAGES) 0"
proof -
  have "scan_inv m n (i * 32 + UNUSABLE_PAGES + j) 0" if "j \<le> 32" for j
    using that
  proof (induction j)
    case (Suc j)
    have "\<not> page_free m ((i * 32 + j) + UNUSABLE_PAGES)"
      using Suc.prems assms(2) by (intro word_zero_no_free [of m i]) auto
    with Suc scan_inv_taken [of m n "i * 32 + UNUSABLE_PAGES + j" 0] show ?case
      by (simp add: add.assoc add.commute add.left_commute)
  qed (use assms(1) in simp)
  from this [of 32] show ?thesis by (simp add: add.assoc add.commute add.left_commute)
qed

text \<open>Where the inner loop stops: with a run, the least one, or at the end of a word with none begun.\<close>

definition scan_post :: "bitmap \<Rightarrow> nat \<Rightarrow> nat \<Rightarrow> nat \<times> nat \<times> nat \<Rightarrow> bool" where
  "scan_post m n start r \<longleftrightarrow> (case r of (i, offset, c) \<Rightarrow>
     if c = n then n \<le> offset + 1 \<and> free_run m (start + (offset + 1 - n)) n \<and>
       (\<forall>a. free_run m a n \<longrightarrow> start + (offset + 1 - n) \<le> a)
     else scan_inv m n (Suc i * 32 + UNUSABLE_PAGES) 0)"

lemma scan_pages_correct:
  assumes "scan_inv m n (start + offset) c" "0 < n" "c \<le> offset"
    and "start = i0 * 32 + UNUSABLE_PAGES" "i = i0 + offset div 32" "i < ENTRIES_IN_MAP"
  shows "scan_post m n start (scan_pages m n start i offset c)"
  using assms
proof (induction m n start i offset c rule: scan_pages.induct)
  case (1 m n start i offset c)
  let ?pos = "start + offset"
  have lim: "?pos < PAGE_LIMIT" "UNUSABLE_PAGES \<le> ?pos"
    using "1.prems"(4-6) by (auto simp: algebra_simps)
  note set_iff = page_ops_bitmap(3) [OF lim(2,1), of m]
  define c' where "c' = (if page_free m ?pos then c + 1 else 0)"
  show ?case
  proof (cases "page_free m ?pos \<and> c' = n")
    case True
    have n: "?pos + 1 - n = ?pos - c" "n \<le> offset + 1" "start + (offset + 1 - n) = ?pos - c"
      using True "1.prems"(3) by (auto simp: c'_def)
    have "free_run m (?pos - c) n"
      unfolding free_run_def
    proof (intro conjI allI impI)
      fix j assume "j < n"
      then have "?pos - c \<le> ?pos - c + j" "?pos - c + j < ?pos + 1"
        using True "1.prems"(3) by (auto simp: c'_def)
      with scan_inv_free(1) [OF "1.prems"(1)] True show "page_free m (?pos - c + j)"
        by blast
    qed (use "1.prems" True lim in \<open>auto simp: scan_inv_def c'_def\<close>)
    moreover have "\<forall>a. free_run m a n \<longrightarrow> ?pos - c \<le> a" using "1.prems"(1) by (simp add: scan_inv_def)
    ultimately have "scan_post m n start (i, offset, n)" using n by (simp add: scan_post_def)
    moreover have "scan_pages m n start i offset c = (i, offset, n)"
      using True by (subst scan_pages.simps) (auto simp: Let_def set_iff c'_def)
    ultimately show ?thesis by simp
  next
    case False
    have "c' < n" using False "1.prems"(1,2) by (auto simp: c'_def scan_inv_def)
    then have inv': "scan_inv m n (start + (offset + 1)) c'"
      using scan_inv_free(2) [OF "1.prems"(1)] scan_inv_taken [OF "1.prems"(1)]
      by (auto simp: c'_def split: if_splits)
    have eq: "scan_pages m n start i offset c =
        (if (offset + 1) mod 32 = 0
         then (if c' \<noteq> 0 \<and> i + 1 < ENTRIES_IN_MAP \<and> m (i + 1) \<noteq> 0
               then scan_pages m n start (i + 1) (offset + 1) c' else (i, offset, c'))
         else scan_pages m n start i (offset + 1) c')"
      using False by (subst scan_pages.simps) (auto simp: Let_def set_iff c'_def)
    have word_end: "offset + 1 = 32 * (offset div 32 + 1)" if "(offset + 1) mod 32 = 0"
      using that mult_div_mod_eq [of 32 "offset + 1"] by (simp add: div_Suc)
    have word_end': "start + (offset + 1) = Suc i * 32 + UNUSABLE_PAGES" if "(offset + 1) mod 32 = 0"
      using word_end [OF that] "1.prems"(4,5) by simp
    have in_word: "(offset + 1) div 32 = offset div 32" if "(offset + 1) mod 32 \<noteq> 0"
      using that by (simp add: div_Suc)
    have c'_le: "c' \<le> offset + 1" using "1.prems"(3) by (simp add: c'_def)
    have tk: "c' = (if isPageSet m ?pos then 0 else c + 1)" by (simp add: c'_def set_iff)
    have nc: "\<not> (\<not> isPageSet m ?pos \<and> c' = n)" using False by (simp add: set_iff)
    consider (next_word) "(offset + 1) mod 32 = 0" "c' \<noteq> 0 \<and> i + 1 < ENTRIES_IN_MAP \<and> m (i + 1) \<noteq> 0"
      | (stop) "(offset + 1) mod 32 = 0" "\<not> (c' \<noteq> 0 \<and> i + 1 < ENTRIES_IN_MAP \<and> m (i + 1) \<noteq> 0)"
      | (same) "(offset + 1) mod 32 \<noteq> 0" by blast
    then show ?thesis
    proof cases
      case next_word
      have "scan_post m n start (scan_pages m n start (i + 1) (offset + 1) c')"
        by (rule "1.IH"(1) [OF refl tk nc next_word inv'])
          (use "1.prems" c'_le word_end [OF next_word(1)] next_word(2) in simp_all)
      with eq next_word show ?thesis by simp
    next
      case same
      have "scan_post m n start (scan_pages m n start i (offset + 1) c')"
        by (rule "1.IH"(2) [OF refl tk nc same inv'])
          (use "1.prems" c'_le in_word [OF same] in simp_all)
      with eq same show ?thesis by simp
    next
      case stop
      have "scan_inv m n (Suc i * 32 + UNUSABLE_PAGES) 0"
      proof (cases "c' = 0")
        case False
        with stop consider "i + 1 = ENTRIES_IN_MAP" | "m (i + 1) = 0" using "1.prems"(6) by fastforce
        then have "Suc i * 32 + UNUSABLE_PAGES = PAGE_LIMIT \<or> \<not> page_free m (Suc i * 32 + UNUSABLE_PAGES)"
          using word_zero_no_free [of m "Suc i" "Suc i * 32"] by cases auto
        with scan_inv_restart inv' word_end' [OF stop(1)] show ?thesis by metis
      qed (use inv' word_end' [OF stop(1)] in \<open>simp only:\<close>)
      moreover have "scan_pages m n start i offset c = (i, offset, c')"
        using eq stop by (simp only: if_True if_False refl)
      ultimately show ?thesis using \<open>c' < n\<close> by (simp add: scan_post_def)
    qed
  qed
qed

text \<open>The whole search finds the first run, or 0 when there is none.\<close>

lemma find_run_correct_from:
  assumes "scan_inv m n (i * 32 + UNUSABLE_PAGES) 0" "0 < n" "i \<le> ENTRIES_IN_MAP"
  shows "(if find_run m n i = 0 then \<forall>a. \<not> free_run m a n
     else free_run m (find_run m n i) n \<and> (\<forall>a. free_run m a n \<longrightarrow> find_run m n i \<le> a))"
  using assms
proof (induction m n i rule: find_run.induct)
  case (1 m n i)
  consider (fin) "\<not> i < ENTRIES_IN_MAP" | (skip) "i < ENTRIES_IN_MAP" "m i = 0"
    | (scan) "i < ENTRIES_IN_MAP" "m i \<noteq> 0" by blast
  then show ?case
  proof cases
    case fin
    with "1.prems" have "\<not> free_run m a n" for a
      by (auto simp: scan_inv_def free_run_def)
    with fin show ?thesis by (subst find_run.simps) auto
  next
    case skip
    with "1.IH"(2) scan_inv_skip_word [OF "1.prems"(1)] "1.prems" have
      "(if find_run m n (i + 1) = 0 then \<forall>a. \<not> free_run m a n
        else free_run m (find_run m n (i + 1)) n \<and> (\<forall>a. free_run m a n \<longrightarrow> find_run m n (i + 1) \<le> a))"
      by simp
    moreover have "find_run m n i = find_run m n (i + 1)" using skip by (subst find_run.simps) simp
    ultimately show ?thesis by (simp only:)
  next
    case scan
    define start where "start = i * 32 + UNUSABLE_PAGES"
    obtain i' offset c where r: "scan_pages m n start i 0 0 = (i', offset, c)" by (metis prod_cases3)
    have post: "scan_post m n start (i', offset, c)"
      unfolding r [symmetric]
      by (rule scan_pages_correct [where i0 = i]) (use "1.prems" scan in \<open>auto simp: start_def\<close>)
    show ?thesis
    proof (cases "c = n")
      case True
      then have "find_run m n i = start + (offset + 1 - n)"
        using scan r by (subst find_run.simps) (simp add: Let_def start_def)
      moreover have "start \<noteq> 0" by (simp add: start_def UNUSABLE_PAGES_def)
      ultimately show ?thesis using post True by (auto simp: scan_post_def simp del: Nat.add_diff_assoc)
    next
      case False
      with post have inv: "scan_inv m n (Suc i' * 32 + UNUSABLE_PAGES) 0" by (simp add: scan_post_def)
      have fr: "find_run m n i = find_run m n (i' + 1)"
        using False scan r by (subst find_run.simps) (simp add: Let_def start_def)
      have "i' < ENTRIES_IN_MAP" using scan_pages_index_less [OF scan(1), of m n start 0 0] r by simp
      with inv "1.IH"(1) [OF scan start_def refl, unfolded r fst_conv snd_conv] False "1.prems"(2)
      show ?thesis unfolding fr by simp
    qed
  qed
qed


lemma find_run_correct:
  assumes "0 < n"
  shows "if find_run m n 0 = 0 then \<forall>a. \<not> free_run m a n
     else free_run m (find_run m n 0) n \<and> (\<forall>a. free_run m a n \<longrightarrow> find_run m n 0 \<le> a)"
  using assms by (intro find_run_correct_from) (auto simp: scan_inv_def free_run_def)

lemma set_run_Suc: "set_run f m a (Suc n) = f (set_run f m a n) (a + n)"
  by (simp add: set_run_def)

lemma page_free_set_run:
  assumes "UNUSABLE_PAGES \<le> a" "a + n \<le> PAGE_LIMIT" "UNUSABLE_PAGES \<le> x"
  shows "page_free (set_run setPage m a n) x \<longleftrightarrow> page_free m x \<and> \<not> (a \<le> x \<and> x < a + n)"
    and "page_free (set_run unsetPage m a n) x \<longleftrightarrow> page_free m x \<or> (a \<le> x \<and> x < a + n)"
proof -
  have "(page_free (set_run setPage m a n) x \<longleftrightarrow> page_free m x \<and> \<not> (a \<le> x \<and> x < a + n)) \<and>
        (page_free (set_run unsetPage m a n) x \<longleftrightarrow> page_free m x \<or> (a \<le> x \<and> x < a + n))"
    using assms(2)
  proof (induction n)
    case (Suc n)
    with assms(1,3) show ?case
      by (auto simp: set_run_Suc page_free_setPage)
  qed (auto simp: set_run_def)
  then show "page_free (set_run setPage m a n) x \<longleftrightarrow> page_free m x \<and> \<not> (a \<le> x \<and> x < a + n)"
    "page_free (set_run unsetPage m a n) x \<longleftrightarrow> page_free m x \<or> (a \<le> x \<and> x < a + n)" by auto
qed

text \<open>The two outcomes of \<open>find_pages\<close>.\<close>

lemma find_pages_cases:
  assumes "0 < n"
  obtains (none) "find_pages m n = (0, m)" "\<forall>a. \<not> free_run m a n"
  | (found) a where "find_pages m n = (a * PAGE_SIZE, set_run setPage m a n)" "free_run m a n"
      "\<forall>b. free_run m b n \<longrightarrow> a \<le> b" "0 < a"
proof (cases "find_run m n 0 = 0")
  case True
  with find_run_correct [OF assms, of m] assms none show ?thesis
    by (simp add: find_pages_def)
next
  case False
  with find_run_correct [OF assms, of m] assms found [of "find_run m n 0"] show ?thesis
    by (simp add: find_pages_def Let_def)
qed

lemma PAGE_SIZE_pos [simp]: "0 < PAGE_SIZE" "PAGE_SIZE \<noteq> 0"
  by (simp_all add: PAGE_SIZE_def)

text \<open>What a page count and a map of free pages add up to: no page is lost or handed out twice.\<close>

definition free_set :: "bitmap \<Rightarrow> nat set" where
  "free_set m = {p. UNUSABLE_PAGES \<le> p \<and> page_free m p}"

definition pages_of :: "Pages \<Rightarrow> nat set" where
  "pages_of pg = {pg_start pg div PAGE_SIZE ..< pg_start pg div PAGE_SIZE + pg_count pg}"

definition valid_pages :: "Pages \<Rightarrow> bool" where
  "valid_pages pg \<longleftrightarrow> UNUSABLE_PAGES \<le> pg_start pg div PAGE_SIZE \<and>
     pg_start pg div PAGE_SIZE + pg_count pg \<le> PAGE_LIMIT"

lemma free_set_freePages:
  "valid_pages pg \<Longrightarrow> free_set (freePages m (pg_start pg) (pg_count pg)) = free_set m \<union> pages_of pg"
  by (auto simp: free_set_def freePages_def valid_pages_def page_free_set_run pages_of_def)

lemma free_set_find_pages:
  assumes "find_pages m n = (start, m')" "start \<noteq> 0" "0 < n"
  defines "pg \<equiv> \<lparr>pg_start = start, pg_count = n\<rparr>"
  shows "valid_pages pg" "pages_of pg \<subseteq> free_set m" "free_set m' = free_set m - pages_of pg"
    "start mod PAGE_SIZE = 0"
proof -
  obtain a where a: "start = a * PAGE_SIZE" "m' = set_run setPage m a n" "free_run m a n"
    using find_pages_cases [OF assms(3), of m] assms(1,2) by (metis fst_conv snd_conv)
  then show "valid_pages pg" by (simp add: pg_def valid_pages_def free_run_def)
  show "pages_of pg \<subseteq> free_set m"
  proof
    fix x assume "x \<in> pages_of pg"
    with a(1) have x: "a \<le> x" "x < a + n" by (auto simp: pages_of_def pg_def)
    then have "x - a < n" by simp
    with a(3) have "page_free m (a + (x - a))" unfolding free_run_def by blast
    with x a(3) show "x \<in> free_set m" by (auto simp: free_set_def free_run_def)
  qed
  show "free_set m' = free_set m - pages_of pg"
    using a by (auto simp: free_set_def page_free_set_run free_run_def pages_of_def pg_def)
  show "start mod PAGE_SIZE = 0" using a by simp
qed

text \<open>The memory of a process: valid, page by page its own, and none of it free.\<close>

definition owned_pages :: "Pages list \<Rightarrow> nat set" where
  "owned_pages pgs = (\<Union>pg \<in> set pgs. pages_of pg)"

fun pages_disjoint :: "Pages list \<Rightarrow> bool" where
  "pages_disjoint [] = True"
| "pages_disjoint (pg # pgs) \<longleftrightarrow> pages_of pg \<inter> owned_pages pgs = {} \<and> pages_disjoint pgs"

definition owner_invar :: "bitmap \<Rightarrow> Pages list \<Rightarrow> bool" where
  "owner_invar m pgs \<longleftrightarrow> (\<forall>pg \<in> set pgs. valid_pages pg) \<and> pages_disjoint pgs \<and>
     owned_pages pgs \<inter> free_set m = {}"

lemma owned_pages_Cons [simp]: "owned_pages (pg # pgs) = pages_of pg \<union> owned_pages pgs"
  by (simp add: owned_pages_def)

lemma free_pages_free_set:
  "\<forall>pg \<in> set pgs. valid_pages pg \<Longrightarrow>
     free_set (pageMap (free_pages pgs st)) = free_set (pageMap st) \<union> owned_pages pgs"
proof (induction pgs arbitrary: st)
  case (Cons pg pgs)
  then show ?case by (auto simp: free_pages_def owned_pages_def free_set_freePages)
qed (simp add: free_pages_def owned_pages_def)


section \<open>Reserving pages, for any cache\<close>

text \<open>
  What \<open>allocPages\<close> relies on: the pages the evictor holds are not free, and an eviction turns some of
  them, and no other page, into free ones.
\<close>

locale page_evictor =
  fixes evict :: "nat \<Rightarrow> 'z page_state_scheme \<Rightarrow> nat \<times> 'z page_state_scheme"
    and held :: "'z page_state_scheme \<Rightarrow> nat set"
    and ok :: "'z page_state_scheme \<Rightarrow> bool"
  assumes ok_held: "ok st \<Longrightarrow> held st \<inter> free_set (pageMap st) = {}"
    and ok_map: "ok st \<Longrightarrow> free_set m \<inter> held st = {} \<Longrightarrow> ok (st\<lparr>pageMap := m\<rparr>)"
    and ok_kalloc: "ok st \<Longrightarrow> ok (st\<lparr>pm_kalloc := k\<rparr>)"
    and held_map: "held (st\<lparr>pageMap := m\<rparr>) = held st"
    and held_kalloc: "held (st\<lparr>pm_kalloc := k\<rparr>) = held st"
    and evict_frees: "ok st \<Longrightarrow> evict n st = (k, st') \<Longrightarrow>
      ok st' \<and> held st' \<subseteq> held st \<and> free_set (pageMap st') = free_set (pageMap st) \<union> (held st - held st')"
begin

definition taken :: "nat \<Rightarrow> nat \<Rightarrow> 'z page_state_scheme \<Rightarrow> 'z page_state_scheme \<Rightarrow> bool" where
  "taken start n st st' \<longleftrightarrow> ok st' \<and> held st' \<subseteq> held st \<and>
     (if start = 0 then free_set (pageMap st') = free_set (pageMap st) \<union> (held st - held st')
      else valid_pages \<lparr>pg_start = start, pg_count = n\<rparr> \<and>
        pages_of \<lparr>pg_start = start, pg_count = n\<rparr> \<subseteq> free_set (pageMap st) \<union> (held st - held st') \<and>
        free_set (pageMap st') = free_set (pageMap st) \<union> (held st - held st') -
          pages_of \<lparr>pg_start = start, pg_count = n\<rparr>)"

lemma find_pages_taken:
  assumes "ok st" "0 < n" "find_pages (pageMap st) n = (a, m)"
  shows "taken a n st (st\<lparr>pageMap := m\<rparr>)"
proof -
  have none: "m = pageMap st" if "a = 0"
    using find_pages_cases [OF assms(2), of "pageMap st"] assms(3) that
    by (metis PAGE_SIZE_pos mult_is_0 neq0_conv fst_conv snd_conv)
  note some = free_set_find_pages [OF assms(3) _ assms(2)]
  have "free_set m \<inter> held st = {}"
    using ok_held [OF assms(1)] none some(3) by (cases "a = 0") auto
  with ok_map [OF assms(1)] some none show ?thesis
    by (auto simp: taken_def held_map)
qed

lemma allocPages_ok:
  assumes "ok st" "0 < n" "allocPages evict n st = (start, st')"
  shows "taken start n st st'"
proof -
  obtain a m where f: "find_pages (pageMap st) n = (a, m)" by fastforce
  note f1 = find_pages_taken [OF assms(1,2) f]
  show ?thesis
  proof (cases "a = 0")
    case False
    with f assms(3) f1 show ?thesis by (simp add: allocPages_def)
  next
    case True
    obtain k st1 where e: "evict n (st\<lparr>pageMap := m\<rparr>) = (k, st1)" by fastforce
    from evict_frees [OF _ e] f1 True have
      e1: "ok st1" "held st1 \<subseteq> held st" "free_set (pageMap st1) = free_set (pageMap st) \<union> (held st - held st1)"
      by (auto simp: taken_def held_map)
    obtain b m1 where g: "find_pages (pageMap st1) n = (b, m1)" by fastforce
    note f2 = find_pages_taken [OF e1(1) assms(2) g]
    show ?thesis
    proof (cases "n \<le> k")
      case True
      with f g e \<open>a = 0\<close> assms(3) have "start = b" "st' = st1\<lparr>pageMap := m1\<rparr>" by (simp_all add: allocPages_def)
      with f2 e1 show ?thesis by (auto simp: taken_def held_map split: if_splits)
    next
      case False
      with f e \<open>a = 0\<close> assms(3) have "start = 0" "st' = st1" by (simp_all add: allocPages_def)
      with e1 show ?thesis by (simp add: taken_def)
    qed
  qed
qed

text \<open>
  A process keeps its memory: what it reserved stays its own, disjoint from the free pages and from the
  evictor's, and a new reservation joins it.
\<close>

lemma reserve_pages_ok:
  assumes "ok st" "0 < n" "owner_invar (pageMap st) (reservedPages (p_mm owner))"
    and "owned_pages (reservedPages (p_mm owner)) \<inter> held st = {}"
    and "reserve_pages evict owner n st = Inr (res, owner', st')"
  shows "ok st' \<and> owner_invar (pageMap st') (reservedPages (p_mm owner')) \<and>
     owned_pages (reservedPages (p_mm owner')) \<inter> held st' = {} \<and>
     (free_set (pageMap st') \<union> held st' \<subseteq> free_set (pageMap st) \<union> held st) \<and>
     owned_pages (reservedPages (p_mm owner')) \<union> free_set (pageMap st') \<union> held st' =
       owned_pages (reservedPages (p_mm owner)) \<union> free_set (pageMap st) \<union> held st \<and>
     (case res of None \<Rightarrow> owner' = owner
      | Some pg \<Rightarrow> pg_count pg = n \<and> pages_of pg \<subseteq> free_set (pageMap st) \<union> held st \<and>
          owner' = owner\<lparr>p_mm := (p_mm owner)\<lparr>reservedPages := pg # reservedPages (p_mm owner)\<rparr>\<rparr>)"
proof -
  obtain start st1 where a: "allocPages evict n st = (start, st1)" by fastforce
  note t = allocPages_ok [OF assms(1,2) a]
  let ?pg = "\<lparr>pg_start = start, pg_count = n\<rparr>"
  show ?thesis
  proof (cases "start = 0")
    case True
    with a assms(5) have "res = None" "owner' = owner" "st' = st1" by (auto simp: reserve_pages_def)
    with True t assms(3,4) show ?thesis by (auto simp: taken_def owner_invar_def)
  next
    case False
    with a assms(5) have "res = Some ?pg" "st' = st1\<lparr>pm_kalloc := pm_kalloc st1 - 1\<rparr>"
      "owner' = owner\<lparr>p_mm := (p_mm owner)\<lparr>reservedPages := ?pg # reservedPages (p_mm owner)\<rparr>\<rparr>"
      by (auto simp: reserve_pages_def Let_def split: if_splits)
    moreover have "pages_of ?pg \<inter> owned_pages (reservedPages (p_mm owner)) = {}" "pages_of ?pg \<inter> held st1 = {}"
      using False t assms(3,4) ok_held [OF assms(1)]
      unfolding taken_def owner_invar_def by (simp_all, blast+)
    ultimately show ?thesis
      using False t assms(3,4) ok_kalloc by (auto simp: taken_def owner_invar_def held_kalloc)
  qed
qed

end

section \<open>Properties\<close>


lemma example_page_free: "1024 \<le> p \<Longrightarrow> page_free ((\<lambda>i. 0)(0 := 4)) p \<longleftrightarrow> p = 1026"
proof -
  let ?m = "(\<lambda>i. 0)(0 := 4) :: bitmap"
  assume p: "1024 \<le> p"
  have bit_4: "bit (4 :: u32) n \<longleftrightarrow> n = 2" for n
    using bit_push_bit_1 [of 2 n, where ?'a = 32] by simp
  have test: "bitmap_test ?m q = 1 \<longleftrightarrow> q = 2" for q
  proof (cases "q div 32 = 0")
    case True
    then have "q mod 32 = q" by simp
    with True bit_4 show ?thesis by (simp add: bitmap_test_bit)
  qed (auto simp: bitmap_test_bit)
  show ?thesis using p unfolding page_free_def test by (auto simp: UNUSABLE_PAGES_def)
qed

lemma example_map_free: "free_run ((\<lambda>i. 0)(0 := 4)) a 1 \<longleftrightarrow> a = 1026"
  using example_page_free [of a] by (auto simp: free_run_def ENTRIES_IN_MAP_eq UNUSABLE_PAGES_def)

lemma example_free_set: "free_set ((\<lambda>i. 0)(0 := 4)) = {1026}"
  using example_page_free by (auto simp: free_set_def UNUSABLE_PAGES_def)

text \<open>A reservation succeeds when a run of free pages and a kernel object are at hand.\<close>

lemma reserve_pages_succeeds:
  assumes "0 < pm_kalloc st" "0 < n" "free_run (pageMap st) a n"
  shows "\<exists>pg owner' st'. reserve_pages evict owner n st = Inr (Some pg, owner', st')"
proof -
  obtain b m where "find_pages (pageMap st) n = (b, m)" "b \<noteq> 0"
    using find_pages_cases [OF assms(2), of "pageMap st"] assms(3)
    by (metis PAGE_SIZE_pos(1) mult_is_0 neq0_conv)
  then show ?thesis using assms(1) by (simp add: reserve_pages_def Let_def allocPages_def)
qed


end
