(* ===== verification/Cache_List.thy ===== *)
theory Cache_List
  imports Kernel_Prelude
begin

text \<open>
  The doubly linked list of \<open>src/system/cache/cache.c\<close> (\<open>struct LRUList\<close>, \<open>cache_list_add\<close>,
  \<open>cache_list_remove\<close>): the chunks of the cache, the one used last first. The model has the pointer
  fields of the chunks only; the rest of a chunk is in theory \<open>Cache\<close>.
\<close>

section \<open>Definitions\<close>

record lru_links =
  l_next :: "nat \<Rightarrow> ptr"
  l_prev :: "nat \<Rightarrow> ptr"
  l_first :: ptr
  l_last :: ptr

definition cache_list_add :: "nat \<Rightarrow> lru_links \<Rightarrow> lru_links" where
  "cache_list_add chunk l =
     (let aux = l_first l;
          l1 = l\<lparr>l_first := Some chunk, l_next := (l_next l)(chunk := aux), l_prev := (l_prev l)(chunk := None)\<rparr>;
          l2 = (case aux of Some a \<Rightarrow> l1\<lparr>l_prev := (l_prev l1)(a := l_first l1)\<rparr> | None \<Rightarrow> l1)
      in if l_last l2 = None then l2\<lparr>l_last := l_first l2\<rparr> else l2)"

definition cache_list_remove :: "nat \<Rightarrow> lru_links \<Rightarrow> lru_links" where
  "cache_list_remove chunk l =
     (let nxt = l_next l chunk;
          previous = l_prev l chunk;
          l1 = l\<lparr>l_prev := (l_prev l)(chunk := None), l_next := (l_next l)(chunk := None)\<rparr>;
          l2 = (case previous of
                  Some p \<Rightarrow> l1\<lparr>l_next := (l_next l1)(p := nxt)\<rparr>
                | None \<Rightarrow> l1\<lparr>l_first := nxt\<rparr>)
      in case nxt of
           Some n \<Rightarrow> l2\<lparr>l_prev := (l_prev l2)(n := previous)\<rparr>
         | None \<Rightarrow> l2\<lparr>l_last := previous\<rparr>)"

section \<open>The list behind the links\<close>

text \<open>Both directions visit the same chunks.\<close>

definition lru_is :: "lru_links \<Rightarrow> nat list \<Rightarrow> bool" where
  "lru_is l xs \<longleftrightarrow> chain (l_next l) (l_first l) xs None \<and> chain (l_prev l) (l_last l) (rev xs) None"

lemma lru_is_distinct: "lru_is l xs \<Longrightarrow> distinct xs"
  by (auto simp: lru_is_def dest: chain_None_distinct)

lemma cache_list_add_lru:
  assumes "lru_is l xs" "c \<notin> set xs"
  shows "lru_is (cache_list_add c l) (c # xs)"
proof (cases xs)
  case Nil
  with assms show ?thesis by (simp add: lru_is_def cache_list_add_def)
next
  case (Cons a ys)
  have dist: "a \<notin> set ys" "c \<noteq> a" "c \<notin> set ys"
    using assms lru_is_distinct [OF assms(1)] Cons by auto
  from assms(1) Cons have
    "l_first l = Some a" "chain (l_next l) (l_next l a) ys None"
    "chain (l_prev l) (l_last l) (rev ys) (Some a)" "l_prev l a = None"
    by (auto simp: lru_is_def)
  moreover from this have "l_last l \<noteq> None" by (cases "rev ys") auto
  ultimately show ?thesis using dist Cons
    by (auto simp: lru_is_def cache_list_add_def Let_def)
qed

lemma cache_list_remove_lru:
  assumes "lru_is l (as @ c # bs)"
  shows "lru_is (cache_list_remove c l) (as @ bs)"
proof -
  have dist: "c \<notin> set as" "c \<notin> set bs" "set as \<inter> set bs = {}" "distinct as" "distinct bs"
    using lru_is_distinct [OF assms] by auto
  have nx: "chain (l_next l) (l_first l) as (Some c)" "chain (l_next l) (l_next l c) bs None"
    and pv: "chain (l_prev l) (l_last l) (rev bs) (Some c)" "chain (l_prev l) (l_prev l c) (rev as) None"
    using assms by (auto simp: lru_is_def)
  consider (as_bs) as' p n bs' where "as = as' @ [p]" "bs = n # bs'" | (as) as' p where "as = as' @ [p]" "bs = []"
    | (bs) n bs' where "as = []" "bs = n # bs'" | (none) "as = []" "bs = []"
    by (metis list.exhaust rev_exhaust)
  then show ?thesis
  proof cases
    case as_bs
    then show ?thesis using nx pv dist
      by (auto simp: lru_is_def cache_list_remove_def Let_def)
  qed (use nx pv dist in \<open>auto simp: lru_is_def cache_list_remove_def Let_def\<close>)
qed

section \<open>The interface the cache uses\<close>

text \<open>
  A list with addition at the front and removal of a member. A client that moves a member to the
  front keeps the members and makes it the first.
\<close>

locale lru_list =
  fixes add remove :: "nat \<Rightarrow> 'l \<Rightarrow> 'l" and repr :: "'l \<Rightarrow> nat list \<Rightarrow> bool"
  assumes add_ok: "repr l xs \<Longrightarrow> c \<notin> set xs \<Longrightarrow> repr (add c l) (c # xs)"
    and remove_ok: "repr l xs \<Longrightarrow> c \<in> set xs \<Longrightarrow> repr (remove c l) (remove1 c xs)"
    and repr_distinct: "repr l xs \<Longrightarrow> distinct xs"
begin

definition touch :: "nat \<Rightarrow> 'l \<Rightarrow> 'l" where
  "touch c l = add c (remove c l)"

lemma touch_ok:
  assumes "repr l xs" "c \<in> set xs"
  shows "repr (touch c l) (c # remove1 c xs)"
  using add_ok [OF remove_ok [OF assms]] repr_distinct [OF assms(1)] by (simp add: touch_def)

end

interpretation lru: lru_list cache_list_add cache_list_remove lru_is
proof
  fix l xs c
  assume "lru_is l xs" "c \<in> set xs"
  then show "lru_is (cache_list_remove c l) (remove1 c xs)"
    using cache_list_remove_lru lru_is_distinct split_list_first [of c xs]
    by (metis remove1_append remove1.simps(2) remove1_idem)
qed (auto intro: cache_list_add_lru lru_is_distinct)

end
