(* ===== verification/Cache.thy ===== *)
theory Cache
  imports Page_Allocator Cache_List
begin

text \<open>
  \<open>src/system/cache/cache.c\<close>: the write-back block cache between ext2 and the disk. A chunk caches
  one page, eight sectors. All transfers are whole sectors, so the contents of a chunk are a list of
  eight sectors. The disk behind \<open>ata_read\<close> and \<open>ata_write\<close> (\<open>src/drivers/ata.c\<close>, port I/O) is a
  function from sector numbers to contents. The LRU list is the list of theory \<open>Cache_List\<close>; \<open>clock\<close>
  is what \<open>_time(NULL)\<close> returns during the operation. A chunk's address is never reused, which only
  distinguishes chunks that are not in use any more.
\<close>

section \<open>Definitions\<close>

type_synonym sector = "u8 list"

record Chunk =
  initialSector :: nat
  ch_buffer :: nat
  ch_data :: "sector list"
  dirty :: bool
  accesses :: int
  firstWriteTime :: int
  lastAccessTime :: int
  ch_index :: nat

record cache_state = page_state +
  chunks :: "nat \<Rightarrow> Chunk"
  chunk_table :: "ptr list"
  cache_list :: "nat list"
  chunk_brk :: nat
  disk :: "nat \<Rightarrow> sector"
  clock :: int

definition TABLE_ENTRIES :: nat where "TABLE_ENTRIES = 8"

definition upd_chunk :: "nat \<Rightarrow> (Chunk \<Rightarrow> Chunk) \<Rightarrow> 'z cache_state_scheme \<Rightarrow> 'z cache_state_scheme" where
  "upd_chunk c f st = st\<lparr>chunks := (chunks st)(c := f (chunks st c))\<rparr>"

definition ata_read :: "'z cache_state_scheme \<Rightarrow> nat \<Rightarrow> nat \<Rightarrow> sector list" where
  "ata_read st sec count = map (disk st) [sec..<sec + count]"

definition ata_write :: "nat \<Rightarrow> sector list \<Rightarrow> 'z cache_state_scheme \<Rightarrow> 'z cache_state_scheme" where
  "ata_write sec data st =
     st\<lparr>disk := (\<lambda>s. if sec \<le> s \<and> s < sec + length data then data ! (s - sec) else disk st s)\<rparr>"

definition cache_init :: "'z cache_state_scheme \<Rightarrow> int \<times> 'z cache_state_scheme" where
  "cache_init st =
     (if pm_kalloc st = 0 then (- 1, st)
      else (0, st\<lparr>pm_kalloc := pm_kalloc st - 1, chunk_table := replicate TABLE_ENTRIES None\<rparr>))"

definition mark_access :: "nat \<Rightarrow> 'z cache_state_scheme \<Rightarrow> 'z cache_state_scheme" where
  "mark_access c st =
     (let st1 = upd_chunk c (\<lambda>x. x\<lparr>accesses := accesses x + 1, lastAccessTime := clock st\<rparr>) st
      in st1\<lparr>cache_list := c # remove1 c (cache_list st1)\<rparr>)"

definition release_chunk :: "nat \<Rightarrow> 'z cache_state_scheme \<Rightarrow> 'z cache_state_scheme" where
  "release_chunk i st =
     (case chunk_table st ! i of
        None \<Rightarrow> st
      | Some c \<Rightarrow>
          (let st1 = (if dirty (chunks st c)
                      then ata_write (initialSector (chunks st c)) (ch_data (chunks st c)) st else st)
           in st1\<lparr>cache_list := remove1 c (cache_list st1),
                  pageMap := freePages (pageMap st1) (ch_buffer (chunks st1 c)) 1,
                  pm_kalloc := Suc (pm_kalloc st1),
                  chunk_table := (chunk_table st1)[i := None]\<rparr>))"

text \<open>
  The loop of \<open>evict\<close> over the chunks from \<open>cache_list.last\<close> back. \<open>release_chunk\<close> unlinks the entry,
  which sets its \<open>prev\<close> to \<open>NULL\<close>, so that \<open>entry = entry->prev\<close> ends the loop after a release.
\<close>

fun evict_loop :: "int \<Rightarrow> bool \<Rightarrow> nat \<Rightarrow> nat list \<Rightarrow> nat \<Rightarrow> 'z cache_state_scheme \<Rightarrow> nat \<times> 'z cache_state_scheme" where
  "evict_loop now force minPages [] evicted st = (evicted, st)"
| "evict_loop now force minPages (entry # rest) evicted st =
     (if evicted < minPages
      then (if \<not> dirty (chunks st entry) \<and> (lastAccessTime (chunks st entry) < now \<or> force)
            then (evicted + 1, release_chunk (ch_index (chunks st entry)) st)
            else evict_loop now force minPages rest evicted st)
      else (evicted, st))"

definition evict :: "nat \<Rightarrow> bool \<Rightarrow> 'z cache_state_scheme \<Rightarrow> nat \<times> 'z cache_state_scheme" where
  "evict minPages force st = evict_loop (clock st) force minPages (rev (cache_list st)) 0 st"

definition sync_entry :: "bool \<Rightarrow> int \<Rightarrow> ptr \<Rightarrow> 'z cache_state_scheme \<Rightarrow> 'z cache_state_scheme" where
  "sync_entry force now entry st =
     (case entry of
        None \<Rightarrow> st
      | Some c \<Rightarrow>
          if dirty (chunks st c) \<and> (force \<or> firstWriteTime (chunks st c) < now)
          then upd_chunk c (\<lambda>x. x\<lparr>dirty := False\<rparr>)
                 (ata_write (initialSector (chunks st c)) (ch_data (chunks st c)) st)
          else st)"

definition cache_sync :: "bool \<Rightarrow> 'z cache_state_scheme \<Rightarrow> 'z cache_state_scheme" where
  "cache_sync force st = fold (sync_entry force (clock st)) (chunk_table st) st"

definition cache_evict :: "nat \<Rightarrow> 'z cache_state_scheme \<Rightarrow> nat \<times> 'z cache_state_scheme" where
  "cache_evict minPages st =
     (case evict minPages False st of
        (e1, st1) \<Rightarrow>
          if e1 < minPages
          then (case evict (minPages - e1) False (cache_sync True st1) of
                  (e2, st2) \<Rightarrow>
                    if e1 + e2 < minPages
                    then (case evict (minPages - (e1 + e2)) True st2 of (e3, st3) \<Rightarrow> (e1 + e2 + e3, st3))
                    else (e1 + e2, st2))
          else (e1, st1))"

text \<open>The first loop of \<open>find_chunk\<close>: a chunk found, or the first empty slot.\<close>

fun find_in_table :: "'z cache_state_scheme \<Rightarrow> nat \<Rightarrow> nat \<Rightarrow> ptr list \<Rightarrow> nat option \<Rightarrow> nat + nat option" where
  "find_in_table st sec i [] firstEmpty = Inr firstEmpty"
| "find_in_table st sec i (e # es) firstEmpty =
     (case e of
        Some c \<Rightarrow> if initialSector (chunks st c) = sec then Inl c
                  else find_in_table st sec (Suc i) es firstEmpty
      | None \<Rightarrow> find_in_table st sec (Suc i) es (if firstEmpty = None then Some i else firstEmpty))"

fun first_empty :: "nat \<Rightarrow> ptr list \<Rightarrow> nat option" where
  "first_empty i [] = None"
| "first_empty i (e # es) = (if e = None then Some i else first_empty (Suc i) es)"

definition load_chunk :: "nat \<Rightarrow> nat \<Rightarrow> 'z cache_state_scheme \<Rightarrow> (ptr \<times> 'z cache_state_scheme) result" where
  "load_chunk sec i st =
     (if pm_kalloc st = 0 then Inl NullDeref
      else (let entry = chunk_brk st;
                st1 = st\<lparr>pm_kalloc := pm_kalloc st - 1, chunk_brk := Suc (chunk_brk st)\<rparr>
            in case allocPages cache_evict 1 st1 of
                 (buf, st2) \<Rightarrow>
                   if buf = 0 then Inl NullDeref
                   else Inr (Some entry, st2\<lparr>
                     chunks := (chunks st2)(entry := \<lparr>initialSector = sec, ch_buffer = buf,
                       ch_data = ata_read st2 sec 8, dirty = False, accesses = 0, firstWriteTime = 0,
                       lastAccessTime = clock st2, ch_index = i\<rparr>),
                     chunk_table := (chunk_table st2)[i := Some entry],
                     cache_list := entry # cache_list st2\<rparr>)))"

text \<open>\<open>find_chunk\<close>: a first component \<open>None\<close> is the result \<open>NULL\<close>.\<close>

definition find_chunk :: "nat \<Rightarrow> 'z cache_state_scheme \<Rightarrow> (ptr \<times> 'z cache_state_scheme) result" where
  "find_chunk block st =
     (let sec = nat (un32 (int block * 8))
      in case find_in_table st sec 0 (chunk_table st) None of
           Inl c \<Rightarrow> Inr (Some c, st)
         | Inr (Some i) \<Rightarrow> load_chunk sec i st
         | Inr None \<Rightarrow>
             (case cache_evict 1 st of
                (evicted, st1) \<Rightarrow>
                  if evicted < 1 then Inr (None, st1)
                  else (case first_empty 0 (chunk_table st1) of
                          Some i \<Rightarrow> load_chunk sec i st1
                        | None \<Rightarrow> Inl OutOfBounds)))"

text \<open>The part of block \<open>block\<close> a transfer of \<open>count\<close> sectors from \<open>sec\<close> covers: its first sector and length.\<close>

definition block_part :: "nat \<Rightarrow> nat \<Rightarrow> nat \<Rightarrow> nat \<times> nat" where
  "block_part sec count block =
     (if block = sec div 8 then (let first = sec mod 8 in (first, if count + first > 8 then 8 - first else count))
      else if block = (sec + count) div 8 then (0, (sec + count) mod 8)
      else (0, 8))"

fun read_blocks :: "nat \<Rightarrow> nat \<Rightarrow> nat list \<Rightarrow> sector list \<Rightarrow> 'z cache_state_scheme \<Rightarrow>
    (sector list option \<times> 'z cache_state_scheme) result" where
  "read_blocks sec count [] buff st = Inr (Some buff, st)"
| "read_blocks sec count (block # blocks) buff st =
     rbind (find_chunk block st) (\<lambda>(c, st1).
       case c of
         None \<Rightarrow> Inr (None, st1)
       | Some c \<Rightarrow>
           let st2 = mark_access c st1;
               (first, n) = block_part sec count block
           in read_blocks sec count blocks (buff @ take n (drop first (ch_data (chunks st2 c)))) st2)"

text \<open>\<open>cache_read\<close>: the sectors copied to the buffer, or \<open>None\<close> for the result \<open>-1\<close>.\<close>

definition cache_read :: "nat \<Rightarrow> nat \<Rightarrow> 'z cache_state_scheme \<Rightarrow>
    (sector list option \<times> 'z cache_state_scheme) result" where
  "cache_read sec count st = read_blocks sec count [sec div 8..<Suc ((sec + count) div 8)] [] st"

definition write_part :: "nat \<Rightarrow> sector list \<Rightarrow> Chunk \<Rightarrow> Chunk" where
  "write_part first data x =
     x\<lparr>ch_data := take first (ch_data x) @ data @ drop (first + length data) (ch_data x)\<rparr>"

fun write_blocks :: "nat \<Rightarrow> nat \<Rightarrow> nat list \<Rightarrow> sector list \<Rightarrow> 'z cache_state_scheme \<Rightarrow>
    (int \<times> 'z cache_state_scheme) result" where
  "write_blocks sec count [] buff st = Inr (0, st)"
| "write_blocks sec count (block # blocks) buff st =
     rbind (find_chunk block st) (\<lambda>(c, st1).
       case c of
         None \<Rightarrow> Inr (- 1, st1)
       | Some c \<Rightarrow>
           let st2 = mark_access c st1;
               st3 = upd_chunk c (\<lambda>x. (if dirty x then x else x\<lparr>firstWriteTime := clock st2\<rparr>)\<lparr>dirty := True\<rparr>) st2;
               (first, n) = block_part sec count block
           in write_blocks sec count blocks (drop n buff) (upd_chunk c (write_part first (take n buff)) st3))"

definition cache_write :: "nat \<Rightarrow> nat \<Rightarrow> sector list \<Rightarrow> 'z cache_state_scheme \<Rightarrow>
    (int \<times> 'z cache_state_scheme) result" where
  "cache_write sec count buff st = write_blocks sec count [sec div 8..<Suc ((sec + count) div 8)] buff st"


section \<open>The cache and the disk as one store\<close>

definition buf_page :: "'z cache_state_scheme \<Rightarrow> nat \<Rightarrow> nat" where
  "buf_page st c = ch_buffer (chunks st c) div PAGE_SIZE"

definition held :: "'z cache_state_scheme \<Rightarrow> nat set" where
  "held st = buf_page st ` set (cache_list st)"

lemma buf_page_upd:
  "buf_page (st\<lparr>pageMap := m\<rparr>) = buf_page st" "buf_page (st\<lparr>pm_kalloc := k\<rparr>) = buf_page st"
  "buf_page (st\<lparr>chunk_brk := b\<rparr>) = buf_page st"
  by (auto simp: buf_page_def)

definition chunk_ok :: "'z cache_state_scheme \<Rightarrow> nat \<Rightarrow> bool" where
  "chunk_ok st c \<longleftrightarrow> (let x = chunks st c in
     ch_index x < 8 \<and> chunk_table st ! ch_index x = Some c \<and> c < chunk_brk st \<and>
     length (ch_data x) = 8 \<and> initialSector x mod 8 = 0 \<and>
     valid_pages \<lparr>pg_start = ch_buffer x, pg_count = 1\<rparr> \<and>
     (\<not> dirty x \<longrightarrow> ch_data x = map (disk st) [initialSector x..<initialSector x + 8]))"

definition cache_wf :: "'z cache_state_scheme \<Rightarrow> bool" where
  "cache_wf st \<longleftrightarrow> length (chunk_table st) = 8 \<and> distinct (cache_list st) \<and>
     (\<forall>c \<in> set (cache_list st). chunk_ok st c) \<and>
     (\<forall>i < 8. \<forall>c. chunk_table st ! i = Some c \<longrightarrow> c \<in> set (cache_list st) \<and> ch_index (chunks st c) = i) \<and>
     inj_on (\<lambda>c. initialSector (chunks st c)) (set (cache_list st)) \<and>
     inj_on (buf_page st) (set (cache_list st)) \<and> held st \<inter> free_set (pageMap st) = {}"

text \<open>The contents of sector \<open>s\<close> as a reader should see it.\<close>

definition view :: "'z cache_state_scheme \<Rightarrow> nat \<Rightarrow> sector" where
  "view st s =
     (case List.find (\<lambda>c. initialSector (chunks st c) = 8 * (s div 8)) (cache_list st) of
        Some c \<Rightarrow> ch_data (chunks st c) ! (s mod 8)
      | None \<Rightarrow> disk st s)"

lemma view_cached:
  assumes "inj_on (\<lambda>c. initialSector (chunks st c)) (set (cache_list st))" "c \<in> set (cache_list st)"
    "initialSector (chunks st c) = 8 * (s div 8)"
  shows "view st s = ch_data (chunks st c) ! (s mod 8)"
proof (cases "List.find (\<lambda>c. initialSector (chunks st c) = 8 * (s div 8)) (cache_list st)")
  case None
  with assms show ?thesis by (auto simp: find_None_iff)
next
  case (Some d)
  then have "d \<in> set (cache_list st)" "initialSector (chunks st d) = 8 * (s div 8)"
    by (auto simp: find_Some_iff)
  with assms have "d = c" by (auto simp: inj_on_def)
  with Some show ?thesis by (simp add: view_def)
qed

lemma view_uncached:
  "\<forall>c \<in> set (cache_list st). initialSector (chunks st c) \<noteq> 8 * (s div 8) \<Longrightarrow> view st s = disk st s"
  by (auto simp: view_def find_Some_iff split: option.splits)

lemma cache_wf_inj: "cache_wf st \<Longrightarrow> inj_on (\<lambda>c. initialSector (chunks st c)) (set (cache_list st))"
  by (simp add: cache_wf_def)

lemma view_eqI:
  assumes wf: "cache_wf st" "cache_wf st'"
    and both: "\<And>c. c \<in> set (cache_list st) \<Longrightarrow> c \<in> set (cache_list st') \<Longrightarrow>
      initialSector (chunks st' c) = initialSector (chunks st c) \<and> ch_data (chunks st' c) = ch_data (chunks st c)"
    and gone: "\<And>c j. c \<in> set (cache_list st) \<Longrightarrow> c \<notin> set (cache_list st') \<Longrightarrow> j < 8 \<Longrightarrow>
      (\<forall>d \<in> set (cache_list st') - set (cache_list st). initialSector (chunks st' d) \<noteq> initialSector (chunks st c)) \<and>
      disk st' (initialSector (chunks st c) + j) = ch_data (chunks st c) ! j"
    and fresh: "\<And>c j. c \<notin> set (cache_list st) \<Longrightarrow> c \<in> set (cache_list st') \<Longrightarrow> j < 8 \<Longrightarrow>
      ch_data (chunks st' c) ! j = disk st (initialSector (chunks st' c) + j) \<and>
      (\<forall>d \<in> set (cache_list st). initialSector (chunks st d) \<noteq> initialSector (chunks st' c))"
    and none: "\<And>s. \<forall>c \<in> set (cache_list st). initialSector (chunks st c) \<noteq> 8 * (s div 8) \<Longrightarrow> disk st' s = disk st s"
  shows "view st' = view st"
proof
  fix s :: nat
  have s: "8 * (s div 8) + s mod 8 = s" "s mod 8 < 8" by simp_all
  show "view st' s = view st s"
  proof (cases "\<exists>c \<in> set (cache_list st). initialSector (chunks st c) = 8 * (s div 8)")
    case True
    then obtain c where c: "c \<in> set (cache_list st)" "initialSector (chunks st c) = 8 * (s div 8)" by blast
    note vc = view_cached [OF cache_wf_inj [OF wf(1)] c]
    show ?thesis
    proof (cases "c \<in> set (cache_list st')")
      case True
      with vc c both [OF c(1) True] view_cached [OF cache_wf_inj [OF wf(2)] True, of s] show ?thesis by simp
    next
      case False
      note g = gone [OF c(1) False s(2)]
      have "initialSector (chunks st' d) \<noteq> 8 * (s div 8)" if d: "d \<in> set (cache_list st')" for d
      proof (cases "d \<in> set (cache_list st)")
        case True
        with both [OF True d] cache_wf_inj [OF wf(1)] c False d show ?thesis
          by (metis inj_onD)
      qed (use g c d in auto)
      then have "view st' s = disk st' s" by (intro view_uncached) blast
      with g vc c(2) s(1) show ?thesis by simp
    qed
  next
    case False
    then have v: "view st s = disk st s" by (intro view_uncached) blast
    show ?thesis
    proof (cases "\<exists>c \<in> set (cache_list st'). initialSector (chunks st' c) = 8 * (s div 8)")
      case True
      then obtain c where c: "c \<in> set (cache_list st')" "initialSector (chunks st' c) = 8 * (s div 8)" by blast
      then have "c \<notin> set (cache_list st)" using both False by metis
      from fresh [OF this c(1) s(2)] c v view_cached [OF cache_wf_inj [OF wf(2)] c] s(1)
      show ?thesis by simp
    next
      case F: False
      then have "view st' s = disk st' s" by (intro view_uncached) blast
      with v none False show ?thesis by metis
    qed
  qed
qed


text \<open>The cases of \<open>view_eqI\<close> the operations need: the list changes its order only, and loses a clean chunk.\<close>

lemma view_same_chunks:
  assumes "cache_wf st" "cache_wf st'" "set (cache_list st') = set (cache_list st)"
    and "\<And>c. c \<in> set (cache_list st) \<Longrightarrow>
      initialSector (chunks st' c) = initialSector (chunks st c) \<and> ch_data (chunks st' c) = ch_data (chunks st c)"
    and "\<And>s. \<forall>c \<in> set (cache_list st). initialSector (chunks st c) \<noteq> 8 * (s div 8) \<Longrightarrow> disk st' s = disk st s"
  shows "view st' = view st"
  by (rule view_eqI [OF assms(1,2)]) (use assms(3-5) in auto)

section \<open>Each operation keeps the view\<close>

lemma mark_access_wf:
  assumes "cache_wf st" "c \<in> set (cache_list st)"
  shows "cache_wf (mark_access c st)" and "view (mark_access c st) = view st"
    and "held (mark_access c st) = held st" "set (cache_list (mark_access c st)) = set (cache_list st)"
    "initialSector (chunks (mark_access c st) d) = initialSector (chunks st d)"
    "ch_data (chunks (mark_access c st) d) = ch_data (chunks st d)"
proof -
  have lst: "set (cache_list (mark_access c st)) = set (cache_list st)"
    "distinct (cache_list (mark_access c st))"
    using assms by (auto simp: mark_access_def Let_def upd_chunk_def cache_wf_def)
  have ch: "initialSector (chunks (mark_access c st) d) = initialSector (chunks st d)"
    "ch_data (chunks (mark_access c st) d) = ch_data (chunks st d)"
    "ch_buffer (chunks (mark_access c st) d) = ch_buffer (chunks st d)"
    "ch_index (chunks (mark_access c st) d) = ch_index (chunks st d)"
    "dirty (chunks (mark_access c st) d) = dirty (chunks st d)" for d
    by (simp_all add: mark_access_def Let_def upd_chunk_def)
  have oth: "chunk_table (mark_access c st) = chunk_table st" "chunk_brk (mark_access c st) = chunk_brk st"
    "disk (mark_access c st) = disk st" "pageMap (mark_access c st) = pageMap st"
    by (simp_all add: mark_access_def Let_def upd_chunk_def)
  have bp: "buf_page (mark_access c st) = buf_page st" by (auto simp: buf_page_def ch)
  show wf: "cache_wf (mark_access c st)"
    using assms(1) lst by (simp add: cache_wf_def chunk_ok_def Let_def ch oth bp held_def)
  show "view (mark_access c st) = view st"
    by (rule view_same_chunks [OF assms(1) wf lst(1)]) (simp_all add: ch oth)
  show "held (mark_access c st) = held st" "set (cache_list (mark_access c st)) = set (cache_list st)"
    "initialSector (chunks (mark_access c st) d) = initialSector (chunks st d)"
    "ch_data (chunks (mark_access c st) d) = ch_data (chunks st d)"
    by (simp_all add: held_def bp lst ch)
qed

lemma ata_write_disk:
  "disk (ata_write sec data st) s = (if sec \<le> s \<and> s < sec + length data then data ! (s - sec) else disk st s)"
  by (simp add: ata_write_def)

lemma sector_block: "i mod 8 = 0 \<Longrightarrow> i \<le> s \<Longrightarrow> s < i + 8 \<Longrightarrow> 8 * (s div 8) = (i::nat)"
proof -
  assume "i mod 8 = 0" "i \<le> s" "s < i + 8"
  then obtain k where "i = 8 * k" by auto
  with \<open>i \<le> s\<close> \<open>s < i + 8\<close> have "s div 8 = k" by (intro div_nat_eqI) auto
  with \<open>i = 8 * k\<close> show ?thesis by simp
qed

lemma sync_entry_wf:
  assumes "cache_wf st" "entry \<in> set (chunk_table st)" and st'_def: "st' = sync_entry force now entry st"
  shows "cache_wf st'" and "view st' = view st" and "held st' = held st" "chunk_table st' = chunk_table st"
    "pageMap st' = pageMap st"
proof -
  have "cache_wf st' \<and> view st' = view st \<and> held st' = held st \<and> chunk_table st' = chunk_table st \<and>
      pageMap st' = pageMap st"
  proof (cases "\<exists>c. entry = Some c \<and> dirty (chunks st c) \<and> (force \<or> firstWriteTime (chunks st c) < now)")
    case False
    then have "st' = st" by (auto simp: st'_def sync_entry_def split: option.splits)
    with assms(1) show ?thesis by simp
  next
    case True
    then obtain c where c: "entry = Some c" "dirty (chunks st c) \<and> (force \<or> firstWriteTime (chunks st c) < now)" by blast
    have in_list: "c \<in> set (cache_list st)"
      using assms(1,2) c(1) by (auto simp: cache_wf_def in_set_conv_nth)
    have ok: "chunk_ok st c" using assms(1) in_list by (simp add: cache_wf_def)
    have st': "st' = upd_chunk c (\<lambda>x. x\<lparr>dirty := False\<rparr>)
        (ata_write (initialSector (chunks st c)) (ch_data (chunks st c)) st)"
      using c by (simp add: st'_def sync_entry_def)
    have ch: "initialSector (chunks st' d) = initialSector (chunks st d)"
      "ch_data (chunks st' d) = ch_data (chunks st d)" "ch_buffer (chunks st' d) = ch_buffer (chunks st d)"
      "ch_index (chunks st' d) = ch_index (chunks st d)"
      "dirty (chunks st' d) = (d \<noteq> c \<and> dirty (chunks st d))" for d
      by (simp_all add: st' upd_chunk_def ata_write_def)
    have oth: "chunk_table st' = chunk_table st" "chunk_brk st' = chunk_brk st" "pageMap st' = pageMap st"
      "cache_list st' = cache_list st"
      by (simp_all add: st' upd_chunk_def ata_write_def)
    have dk: "disk st' s = (if initialSector (chunks st c) \<le> s \<and> s < initialSector (chunks st c) + 8
        then ch_data (chunks st c) ! (s - initialSector (chunks st c)) else disk st s)" for s
      using ok by (simp add: st' upd_chunk_def ata_write_disk chunk_ok_def Let_def)
    have bp: "buf_page st' = buf_page st" by (auto simp: buf_page_def ch)
    have clean: "ch_data (chunks st d) = map (disk st') [initialSector (chunks st d)..<initialSector (chunks st d) + 8]"
      if d: "d \<in> set (cache_list st)" "\<not> dirty (chunks st' d)" for d
    proof (cases "d = c")
      case True
      with ok show ?thesis by (intro nth_equalityI) (auto simp: chunk_ok_def Let_def dk)
    next
      case False
      with d assms(1) in_list have "initialSector (chunks st d) \<noteq> initialSector (chunks st c)"
        by (auto simp: cache_wf_def inj_on_def)
      moreover have okd: "chunk_ok st d" using assms(1) d by (simp add: cache_wf_def)
      ultimately have "disk st' s = disk st s"
        if "initialSector (chunks st d) \<le> s" "s < initialSector (chunks st d) + 8" for s
        using ok that sector_block [of "initialSector (chunks st d)" s] sector_block [of "initialSector (chunks st c)" s]
        by (auto simp: dk chunk_ok_def Let_def)
      with okd d False ch(5) show ?thesis by (auto simp: chunk_ok_def Let_def)
    qed
    have wf: "cache_wf st'"
      using assms(1) clean by (simp add: cache_wf_def chunk_ok_def Let_def ch(1-4) oth bp held_def)
    moreover have "view st' = view st"
      by (rule view_same_chunks [OF assms(1) wf])
        (use in_list ok sector_block [of "initialSector (chunks st c)"] in \<open>auto simp: oth ch dk chunk_ok_def Let_def\<close>)
    ultimately show ?thesis by (simp add: held_def bp oth)
  qed
  then show "cache_wf st'" "view st' = view st" "held st' = held st" "chunk_table st' = chunk_table st"
    "pageMap st' = pageMap st" by auto
qed


lemma cache_sync_wf:
  assumes "cache_wf st"
  shows "cache_wf (cache_sync force st) \<and> view (cache_sync force st) = view st \<and>
     held (cache_sync force st) = held st \<and> pageMap (cache_sync force st) = pageMap st"
proof -
  have "cache_wf (fold (sync_entry force now) es s) \<and> view (fold (sync_entry force now) es s) = view s \<and>
      held (fold (sync_entry force now) es s) = held s \<and> pageMap (fold (sync_entry force now) es s) = pageMap s"
    if "cache_wf s" "set es \<subseteq> set (chunk_table s)" for es now and s :: "'a cache_state_scheme"
    using that
  proof (induction es arbitrary: s)
    case (Cons e es)
    then have "e \<in> set (chunk_table s)" by simp
    note sy = sync_entry_wf [OF Cons.prems(1) this refl, of force now]
    with Cons.IH [of "sync_entry force now e s"] Cons.prems show ?case by simp
  qed simp
  from this [OF assms, of "chunk_table st" "clock st"] show ?thesis by (simp add: cache_sync_def)
qed

text \<open>What evictions and write-backs never touch.\<close>

definition same_frame :: "'z cache_state_scheme \<Rightarrow> 'z cache_state_scheme \<Rightarrow> bool" where
  "same_frame st st' \<longleftrightarrow> chunk_brk st' = chunk_brk st \<and> clock st' = clock st \<and>
     set (cache_list st') \<subseteq> set (cache_list st) \<and>
     (\<forall>c. initialSector (chunks st' c) = initialSector (chunks st c)) \<and>
     (\<forall>i. chunk_table st ! i = None \<longrightarrow> chunk_table st' ! i = None)"

lemma same_frame_refl: "same_frame st st"
  by (simp add: same_frame_def)

lemma same_frame_trans: "same_frame st st' \<Longrightarrow> same_frame st' st'' \<Longrightarrow> same_frame st st''"
  by (auto simp: same_frame_def)

lemma same_frame_sync_entry: "same_frame st (sync_entry force now e st)"
  by (auto simp: same_frame_def sync_entry_def upd_chunk_def ata_write_def split: option.splits)

lemma same_frame_cache_sync: "same_frame st (cache_sync force st)"
proof -
  have "same_frame s (fold (sync_entry force now) es s)" for es now and s :: "'a cache_state_scheme"
    by (induction es arbitrary: s)
      (auto simp: same_frame_refl intro: same_frame_trans same_frame_sync_entry)
  then show ?thesis by (simp add: cache_sync_def)
qed

lemma nth_upd_None: "xs ! j = None \<Longrightarrow> xs[i := None] ! j = None"
  by (cases "i < length xs"; cases "i = j") (auto simp: list_update_beyond not_less)

lemma same_frame_release: "same_frame st (release_chunk i st)"
  by (auto simp: same_frame_def release_chunk_def Let_def ata_write_def nth_upd_None
      dest: notin_set_remove1 set_mp [OF set_remove1_subset] split: option.splits)

text \<open>Releasing a clean chunk: its page becomes free, and no sector changes.\<close>

lemma release_chunk_clean:
  assumes "cache_wf st" "c \<in> set (cache_list st)" "\<not> dirty (chunks st c)"
    and st'_def: "st' = release_chunk (ch_index (chunks st c)) st"
  shows "cache_wf st'" and "view st' = view st" and "held st' = held st - {buf_page st c}"
    and "free_set (pageMap st') = free_set (pageMap st) \<union> {buf_page st c}"
proof -
  have ok: "chunk_ok st c" using assms(1,2) by (simp add: cache_wf_def)
  have st': "st' = st\<lparr>cache_list := remove1 c (cache_list st),
      pageMap := freePages (pageMap st) (ch_buffer (chunks st c)) 1, pm_kalloc := Suc (pm_kalloc st),
      chunk_table := (chunk_table st)[ch_index (chunks st c) := None]\<rparr>"
    using ok assms(3) by (simp add: st'_def release_chunk_def chunk_ok_def Let_def)
  have lst: "set (cache_list st') = set (cache_list st) - {c}" "distinct (cache_list st')"
    using assms(1) by (auto simp: st' cache_wf_def)
  have bp: "buf_page st' = buf_page st" by (auto simp: buf_page_def st')
  have inj: "inj_on (buf_page st) (set (cache_list st))" using assms(1) by (simp add: cache_wf_def)
  show held': "held st' = held st - {buf_page st c}"
    using inj assms(2) unfolding held_def bp lst(1) by (auto simp: inj_on_def)
  show free': "free_set (pageMap st') = free_set (pageMap st) \<union> {buf_page st c}"
    using ok free_set_freePages [of "\<lparr>pg_start = ch_buffer (chunks st c), pg_count = 1\<rparr>" "pageMap st"]
    by (auto simp: st' chunk_ok_def Let_def pages_of_def buf_page_def)
  have tab: "chunk_table st' ! i = (if i = ch_index (chunks st c) then None else chunk_table st ! i)" if "i < 8" for i
    using that assms(1) by (simp add: st' cache_wf_def nth_list_update)
  have ok': "chunk_ok st' d" if "d \<in> set (cache_list st')" for d
  proof -
    have d: "d \<in> set (cache_list st)" "d \<noteq> c" using that lst by auto
    then have okd: "chunk_ok st d" using assms(1) by (simp add: cache_wf_def)
    with ok d have "ch_index (chunks st d) \<noteq> ch_index (chunks st c)" by (auto simp: chunk_ok_def Let_def)
    moreover have "chunk_table st' ! ch_index (chunks st d) = chunk_table st ! ch_index (chunks st d)"
      using calculation okd by (subst tab) (auto simp: chunk_ok_def Let_def)
    ultimately show ?thesis using okd by (simp add: chunk_ok_def Let_def) (simp add: st')
  qed
  have tab_back: "d \<in> set (cache_list st') \<and> ch_index (chunks st' d) = i"
    if "i < 8" "chunk_table st' ! i = Some d" for i d
  proof -
    have "i \<noteq> ch_index (chunks st c)" "chunk_table st ! i = Some d" using that tab by (auto split: if_splits)
    then have "d \<in> set (cache_list st)" "ch_index (chunks st d) = i"
      using assms(1) that(1) by (auto simp: cache_wf_def)
    with \<open>i \<noteq> ch_index (chunks st c)\<close> lst show ?thesis by (auto simp: st')
  qed
  have "held st' \<inter> free_set (pageMap st') = {}"
    using assms(1) by (auto simp: held' free' cache_wf_def)
  moreover have "inj_on (\<lambda>c. initialSector (chunks st' c)) (set (cache_list st'))"
    "inj_on (buf_page st') (set (cache_list st'))"
    using assms(1) inj lst(1) unfolding bp by (auto simp: cache_wf_def st' intro: inj_on_diff)
  moreover have "length (chunk_table st') = 8" using assms(1) by (simp add: st' cache_wf_def)
  ultimately show wf: "cache_wf st'" using lst(2) ok' tab_back by (auto simp: cache_wf_def)
  show "view st' = view st"
  proof (rule view_eqI [OF assms(1) wf])
    fix d j assume d: "d \<in> set (cache_list st)" "d \<notin> set (cache_list st')" and j: "j < (8::nat)"
    then have "d = c" using lst by auto
    with ok assms(3) j lst show "(\<forall>e \<in> set (cache_list st') - set (cache_list st).
        initialSector (chunks st' e) \<noteq> initialSector (chunks st d)) \<and>
        disk st' (initialSector (chunks st d) + j) = ch_data (chunks st d) ! j"
      by (auto simp: chunk_ok_def Let_def st')
  qed (use lst in \<open>auto simp: st'\<close>)
qed

text \<open>What an eviction may do, in terms of the pages held and the sectors seen.\<close>

definition evicted_from :: "'z cache_state_scheme \<Rightarrow> 'z cache_state_scheme \<Rightarrow> bool" where
  "evicted_from st st' \<longleftrightarrow> same_frame st st' \<and> cache_wf st' \<and> view st' = view st \<and> held st' \<subseteq> held st \<and>
     free_set (pageMap st') = free_set (pageMap st) \<union> (held st - held st')"

lemma evicted_from_refl: "cache_wf st \<Longrightarrow> evicted_from st st"
  by (auto simp: evicted_from_def same_frame_refl)

lemma evicted_from_trans: "evicted_from st st' \<Longrightarrow> evicted_from st' st'' \<Longrightarrow> evicted_from st st''"
  by (auto simp: evicted_from_def intro: same_frame_trans)

lemma evicted_from_release:
  assumes "cache_wf st" "c \<in> set (cache_list st)" "\<not> dirty (chunks st c)"
  shows "evicted_from st (release_chunk (ch_index (chunks st c)) st)"
proof -
  have "buf_page st c \<in> held st" using assms(2) by (simp add: held_def)
  with release_chunk_clean [OF assms refl] show ?thesis by (auto simp: evicted_from_def same_frame_release)
qed

lemma evict_evicted:
  assumes "cache_wf st"
  shows "evicted_from st (snd (evict n force st))"
proof -
  have "evicted_from st (snd (evict_loop now force n es e st))" if "set es \<subseteq> set (cache_list st)" for now es e
    using that
  proof (induction es)
    case (Cons c es)
    with evicted_from_release [OF assms, of c] evicted_from_refl [OF assms] show ?case by auto
  qed (simp add: evicted_from_refl assms)
  then show ?thesis by (simp add: evict_def)
qed

lemma cache_evict_evicted:
  assumes "cache_wf st"
  shows "evicted_from st (snd (cache_evict n st))"
proof -
  obtain e1 st1 where 1: "evict n False st = (e1, st1)" by fastforce
  have ev1: "evicted_from st st1" using evict_evicted [OF assms, of n False] 1 by simp
  define s1 where "s1 = cache_sync True st1"
  have ev1': "evicted_from st s1"
    using ev1 cache_sync_wf [of st1 True] same_frame_cache_sync [of st1 True]
    by (auto simp: evicted_from_def s1_def intro: same_frame_trans)
  obtain e2 st2 where 2: "evict (n - e1) False s1 = (e2, st2)" by fastforce
  have ev2: "evicted_from st st2"
    using evict_evicted [of s1 "n - e1" False] 2 ev1' by (metis evicted_from_def evicted_from_trans snd_conv)
  obtain e3 st3 where 3: "evict (n - (e1 + e2)) True st2 = (e3, st3)" by fastforce
  have ev3: "evicted_from st st3"
    using evict_evicted [of st2 "n - (e1 + e2)" True] 3 ev2 by (metis evicted_from_def evicted_from_trans snd_conv)
  show ?thesis
    using 1 2 3 ev1 ev2 ev3 by (simp add: cache_evict_def s1_def)
qed

interpretation cache: page_evictor cache_evict held cache_wf
proof
  fix st st' :: "'a cache_state_scheme" and n k
  assume "cache_wf st" "cache_evict n st = (k, st')"
  with cache_evict_evicted [of st n] show "cache_wf st' \<and> held st' \<subseteq> held st \<and>
      free_set (pageMap st') = free_set (pageMap st) \<union> (held st - held st')"
    by (simp add: evicted_from_def)
qed (auto simp: cache_wf_def chunk_ok_def held_def buf_page_upd)


section \<open>Loading and finding a chunk\<close>

lemma view_upd: "view (st\<lparr>pageMap := m\<rparr>) = view st" "view (st\<lparr>pm_kalloc := k\<rparr>) = view st"
  "view (st\<lparr>chunk_brk := b\<rparr>) = view st"
  by (auto simp: view_def fun_eq_iff split: option.splits)

lemma cache_wf_brk: "cache_wf st \<Longrightarrow> cache_wf (st\<lparr>chunk_brk := Suc (chunk_brk st)\<rparr>)"
  by (simp add: cache_wf_def chunk_ok_def Let_def held_def buf_page_upd less_Suc_eq)

lemma allocPages_frame:
  assumes "cache_wf st" "allocPages cache_evict n st = (a, st')"
  shows "same_frame st st' \<and> view st' = view st"
proof -
  obtain a1 m where f: "find_pages (pageMap st) n = (a1, m)" by fastforce
  show ?thesis
  proof (cases "a1 = 0")
    case False
    with f assms(2) have "st' = st\<lparr>pageMap := m\<rparr>" by (simp add: allocPages_def)
    then show ?thesis by (simp add: view_upd same_frame_def)
  next
    case True
    with f have "m = pageMap st" by (auto simp: find_pages_def Let_def split: if_splits)
    obtain k s where e: "cache_evict n st = (k, s)" by fastforce
    have "evicted_from st s" using cache_evict_evicted [OF assms(1), of n] e by simp
    then have "same_frame st s" "view s = view st" by (auto simp: evicted_from_def)
    moreover obtain b m1 where "find_pages (pageMap s) n = (b, m1)" by fastforce
    ultimately show ?thesis
      using f True e assms(2) \<open>m = pageMap st\<close>
      by (auto simp: allocPages_def view_upd same_frame_def split: if_splits)
  qed
qed

lemma load_chunk_ok:
  assumes "cache_wf st" "i < 8" "chunk_table st ! i = None" "sec mod 8 = 0"
    and "\<forall>c \<in> set (cache_list st). initialSector (chunks st c) \<noteq> sec"
    and "load_chunk sec i st = Inr (r, st')"
  shows "\<exists>c. r = Some c \<and> cache_wf st' \<and> view st' = view st \<and> c \<in> set (cache_list st') \<and>
     initialSector (chunks st' c) = sec"
proof -
  define c where "c = chunk_brk st"
  define st1 where "st1 = st\<lparr>pm_kalloc := pm_kalloc st - 1, chunk_brk := Suc c\<rparr>"
  obtain buf st2 where al: "allocPages cache_evict 1 st1 = (buf, st2)" by fastforce
  have wf1: "cache_wf st1"
    using cache_wf_brk [OF cache.ok_kalloc [OF assms(1)]] by (simp add: st1_def c_def)
  have v1: "view st1 = view st" by (simp add: st1_def view_upd)
  note al_ok = cache.allocPages_ok [OF wf1 _ al, simplified cache.taken_def, simplified]
  note fr = allocPages_frame [OF wf1 al]
  from assms(6) have buf: "buf \<noteq> 0" and r: "r = Some c" and
    st': "st' = st2\<lparr>chunks := (chunks st2)(c := \<lparr>initialSector = sec, ch_buffer = buf,
        ch_data = ata_read st2 sec 8, dirty = False, accesses = 0, firstWriteTime = 0,
        lastAccessTime = clock st2, ch_index = i\<rparr>), chunk_table := (chunk_table st2)[i := Some c],
        cache_list := c # cache_list st2\<rparr>"
    using al by (auto simp: load_chunk_def Let_def c_def st1_def split: if_splits)
  have wf2: "cache_wf st2" using al_ok by (cases "buf = 0") auto
  have old: "d < c" if "d \<in> set (cache_list st2)" for d
  proof -
    have "d \<in> set (cache_list st)" using fr that by (auto simp: same_frame_def st1_def)
    then show ?thesis using assms(1) by (auto simp: cache_wf_def chunk_ok_def Let_def c_def)
  qed
  have sec_new: "initialSector (chunks st2 d) \<noteq> sec" if "d \<in> set (cache_list st2)" for d
    using fr that assms(5) by (auto simp: same_frame_def st1_def)
  have tab2: "chunk_table st2 ! i = None" using fr assms(3) by (auto simp: same_frame_def st1_def)
  have page: "buf div PAGE_SIZE \<notin> held st2" "buf div PAGE_SIZE \<notin> free_set (pageMap st2)"
    "valid_pages \<lparr>pg_start = buf, pg_count = 1\<rparr>"
    using al_ok buf cache.ok_held [OF wf1] by (auto simp: pages_of_def)
  have brk2: "chunk_brk st2 = Suc c" using fr by (simp add: same_frame_def st1_def)
  have bp: "buf_page st' d = (if d = c then buf div PAGE_SIZE else buf_page st2 d)" for d
    by (simp add: st' buf_page_def)
  have ok': "chunk_ok st' d" if "d \<in> set (cache_list st')" for d
  proof (cases "d = c")
    case True
    with page(3) assms(2,4) wf2 brk2 show ?thesis
      by (simp add: chunk_ok_def st' cache_wf_def ata_read_def)
  next
    case False
    with that have d: "d \<in> set (cache_list st2)" by (simp add: st')
    then have okd: "chunk_ok st2 d" using wf2 by (simp add: cache_wf_def)
    then have "ch_index (chunks st2 d) \<noteq> i" using tab2 by (auto simp: chunk_ok_def Let_def)
    with okd False show ?thesis by (simp add: chunk_ok_def st' Let_def)
  qed
  have tab': "d \<in> set (cache_list st') \<and> ch_index (chunks st' d) = j"
    if "j < 8" "chunk_table st' ! j = Some d" for j d
  proof (cases "j = i")
    case True
    with that wf2 assms(2) show ?thesis by (auto simp: st' cache_wf_def)
  next
    case False
    with that have "chunk_table st2 ! j = Some d" by (simp add: st')
    with wf2 that(1) old [of d] show ?thesis by (auto simp: st' cache_wf_def)
  qed
  have new: "c \<notin> set (cache_list st2)" using old by blast
  have inj_new: "inj_on f' (set (cache_list st'))"
    if "inj_on f (set (cache_list st2))" "f' c \<notin> f ` set (cache_list st2)" "\<And>d. d \<noteq> c \<Longrightarrow> f' d = f d"
    for f f' :: "nat \<Rightarrow> nat"
  proof -
    have "d \<noteq> c" if "d \<in> set (cache_list st2)" for d using that new by blast
    with that have eq: "f' d = f d" if "d \<in> set (cache_list st2)" for d using that by blast
    then have "inj_on f' (set (cache_list st2))" "f' ` set (cache_list st2) = f ` set (cache_list st2)"
      using that(1) by (auto cong: inj_on_cong image_cong)
    with that(2) new show ?thesis by (simp add: st')
  qed
  have "inj_on (\<lambda>d. initialSector (chunks st' d)) (set (cache_list st'))"
    by (rule inj_new [OF cache_wf_inj [OF wf2]]) (use sec_new in \<open>auto simp: st'\<close>)
  moreover have "inj_on (buf_page st') (set (cache_list st'))"
    by (rule inj_new [of "buf_page st2"]) (use wf2 page(1) in \<open>auto simp: bp cache_wf_def held_def\<close>)
  moreover have "buf_page st' ` set (cache_list st2) = buf_page st2 ` set (cache_list st2)"
    using new by (intro image_cong) (auto simp: bp)
  then have "held st' = insert (buf_page st' c) (held st2)"
    by (simp add: held_def) (simp add: st')
  then have "held st' \<inter> free_set (pageMap st') = {}"
    using wf2 page(2) by (simp add: bp cache_wf_def) (simp add: st')
  moreover have "distinct (cache_list st')" "length (chunk_table st') = 8"
    using wf2 old by (auto simp: st' cache_wf_def)
  ultimately have wf: "cache_wf st'" using ok' tab' by (auto simp: cache_wf_def)
  have "view st' = view st2"
  proof (rule view_eqI [OF wf2 wf])
    fix d j assume "d \<notin> set (cache_list st2)" "d \<in> set (cache_list st')" "j < (8::nat)"
    then have "d = c" by (simp add: st')
    with sec_new \<open>j < 8\<close> show "ch_data (chunks st' d) ! j = disk st2 (initialSector (chunks st' d) + j) \<and>
        (\<forall>e \<in> set (cache_list st2). initialSector (chunks st2 e) \<noteq> initialSector (chunks st' d))"
      by (simp add: st' ata_read_def)
  next
    fix d assume "d \<in> set (cache_list st2)"
    then show "initialSector (chunks st' d) = initialSector (chunks st2 d) \<and> ch_data (chunks st' d) = ch_data (chunks st2 d)"
      using old by (auto simp: st')
  qed (auto simp: st')
  with fr v1 wf r show ?thesis by (auto simp: st')
qed


lemma first_empty_Some: "first_empty i es = Some k \<Longrightarrow> i \<le> k \<and> k < i + length es \<and> es ! (k - i) = None"
proof (induction i es rule: first_empty.induct)
  case (2 i e es)
  show ?case
  proof (cases "e = None")
    case False
    with 2 have "Suc i \<le> k" "k < Suc i + length es" "es ! (k - Suc i) = None" by auto
    then show ?thesis by (auto simp: nth_Cons' Suc_diff_Suc)
  qed (use 2 in auto)
qed simp

lemma find_in_table_Inl:
  "find_in_table st sec i es fe = Inl c \<Longrightarrow> Some c \<in> set es \<and> initialSector (chunks st c) = sec"
  by (induction st sec i es fe rule: find_in_table.induct) (auto split: option.splits if_splits)

lemma find_in_table_Inr:
  "find_in_table st sec i es fe = Inr r \<Longrightarrow>
     (\<forall>c. Some c \<in> set es \<longrightarrow> initialSector (chunks st c) \<noteq> sec) \<and>
     r = (if fe \<noteq> None then fe else first_empty i es)"
  by (induction st sec i es fe rule: find_in_table.induct) (auto split: option.splits if_splits)

lemma in_table_iff: "cache_wf st \<Longrightarrow> Some c \<in> set (chunk_table st) \<longleftrightarrow> c \<in> set (cache_list st)"
proof
  assume wf: "cache_wf st"
  then have len: "length (chunk_table st) = 8" by (simp add: cache_wf_def)
  show "c \<in> set (cache_list st)" if "Some c \<in> set (chunk_table st)"
    using that wf len by (auto simp: cache_wf_def in_set_conv_nth)
  show "Some c \<in> set (chunk_table st)" if "c \<in> set (cache_list st)"
  proof -
    have "chunk_ok st c" using wf that by (simp add: cache_wf_def)
    then show ?thesis using len by (metis chunk_ok_def nth_mem)
  qed
qed

lemma find_chunk_ok:
  assumes "cache_wf st" "8 * block < 2 ^ 32" "find_chunk block st = Inr (r, st')"
  shows "cache_wf st' \<and> view st' = view st \<and>
     (case r of None \<Rightarrow> True | Some c \<Rightarrow> c \<in> set (cache_list st') \<and> initialSector (chunks st' c) = 8 * block)"
proof -
  have sec: "nat (un32 (int block * 8)) = 8 * block" using assms(2) by (subst un32_id) auto
  show ?thesis
  proof (cases "find_in_table st (8 * block) 0 (chunk_table st) None")
    case (Inl c)
    with find_in_table_Inl [OF Inl] in_table_iff [OF assms(1)] assms(1,3) sec show ?thesis
      by (auto simp: find_chunk_def)
  next
    case (Inr fe)
    note not_in = find_in_table_Inr [OF Inr]
    have fresh: "\<forall>c \<in> set (cache_list st). initialSector (chunks st c) \<noteq> 8 * block"
      using not_in in_table_iff [OF assms(1)] by auto
    show ?thesis
    proof (cases fe)
      case (Some i)
      with not_in have "first_empty 0 (chunk_table st) = Some i" by simp
      from first_empty_Some [OF this] assms(1) have i: "i < 8" "chunk_table st ! i = None"
        by (auto simp: cache_wf_def)
      from Some Inr assms(3) have "load_chunk (8 * block) i st = Inr (r, st')"
        by (simp add: find_chunk_def sec)
      from load_chunk_ok [OF assms(1) i _ fresh this] show ?thesis by auto
    next
      case None
      obtain k st1 where e: "cache_evict 1 st = (k, st1)" by fastforce
      have ev: "evicted_from st st1" using cache_evict_evicted [OF assms(1), of 1] e by simp
      then have wf1: "cache_wf st1" and v1: "view st1 = view st"
        and fresh1: "\<forall>c \<in> set (cache_list st1). initialSector (chunks st1 c) \<noteq> 8 * block"
        using fresh by (auto simp: evicted_from_def same_frame_def)
      show ?thesis
      proof (cases "k < 1")
        case True
        with Inr None e assms(3) wf1 v1 show ?thesis by (auto simp: find_chunk_def sec)
      next
        case False
        then obtain i where fe1: "first_empty 0 (chunk_table st1) = Some i"
          and load: "load_chunk (8 * block) i st1 = Inr (r, st')"
          using Inr None e assms(3) by (auto simp: find_chunk_def sec split: option.splits)
        from first_empty_Some [OF fe1] wf1 have i: "i < 8" "chunk_table st1 ! i = None"
          by (auto simp: cache_wf_def)
        from load_chunk_ok [OF wf1 i _ fresh1 load] v1 show ?thesis by auto
      qed
    qed
  qed
qed

section \<open>Transfers\<close>

text \<open>The sectors of one block a transfer covers are those between the transfer's bounds.\<close>

lemma start_block_arith:
  fixes sec count q r e m :: nat
  assumes "sec = 8 * q + r" "r < 8" "sec + count = 8 * e + m" "m < 8" "q \<le> e"
    and "n = (if count + r > 8 then 8 - r else count)"
  shows "r + n \<le> 8 \<and> 8 * q + r + n = (if q < e then 8 * Suc q else sec + count)"
  using assms by (cases "count + r > 8"; cases "q < e") auto

lemma block_part_bounds:
  assumes "sec div 8 \<le> b" "b \<le> (sec + count) div 8" "block_part sec count b = (first, n)"
  shows "8 * b + first = max sec (8 * b)" "first + n \<le> 8"
    "8 * b + first + n = (if b < (sec + count) div 8 then 8 * Suc b else sec + count)"
proof -
  have d: "sec = 8 * (sec div 8) + sec mod 8" "sec mod 8 < 8"
    "sec + count = 8 * ((sec + count) div 8) + (sec + count) mod 8" "(sec + count) mod 8 < 8"
    by simp_all
  have "8 * b + first = max sec (8 * b) \<and> first + n \<le> 8 \<and>
    8 * b + first + n = (if b < (sec + count) div 8 then 8 * Suc b else sec + count)"
  proof (cases "b = sec div 8")
    case True
    with assms(3) have "first = sec mod 8" "n = (if count + sec mod 8 > 8 then 8 - sec mod 8 else count)"
      by (auto simp: block_part_def Let_def)
    moreover have "max sec (8 * b) = sec" using True by simp
    moreover note start_block_arith [OF d(1,2,3,4)]
    ultimately show ?thesis using True d(1) assms(2) by simp
  next
    case False
    with assms have "first = 0" "n = (if b = (sec + count) div 8 then (sec + count) mod 8 else 8)"
      by (auto simp: block_part_def split: if_splits)
    moreover have "sec < 8 * b" using False assms(1) d by linarith
    ultimately show ?thesis using assms(2) d by auto
  qed
  then show "8 * b + first = max sec (8 * b)" "first + n \<le> 8"
    "8 * b + first + n = (if b < (sec + count) div 8 then 8 * Suc b else sec + count)" by auto
qed

lemma chunk_slice:
  assumes "cache_wf st" "c \<in> set (cache_list st)" "initialSector (chunks st c) = 8 * b" "first + n \<le> 8"
  shows "take n (drop first (ch_data (chunks st c))) = map (view st) [8 * b + first..<8 * b + first + n]"
proof (rule nth_equalityI)
  have len: "length (ch_data (chunks st c)) = 8" using assms(1,2) by (auto simp: cache_wf_def chunk_ok_def Let_def)
  then show "length (take n (drop first (ch_data (chunks st c)))) =
      length (map (view st) [8 * b + first..<8 * b + first + n])" using assms(4) by simp
  fix j assume "j < length (take n (drop first (ch_data (chunks st c))))"
  then have j: "j < n" "first + j < 8" using assms(4) by auto
  moreover have "(8 * b + first + j) div 8 = b" "(8 * b + first + j) mod 8 = first + j"
    using j by (auto simp: add.assoc)
  ultimately show "take n (drop first (ch_data (chunks st c))) ! j =
      map (view st) [8 * b + first..<8 * b + first + n] ! j"
    using len view_cached [OF cache_wf_inj [OF assms(1)] assms(2), of "8 * b + first + j"] assms(3)
    by (simp add: add.assoc)
qed

lemma read_blocks_correct:
  assumes "read_blocks sec count [b..<Suc e] buff st = Inr (Some out, st')"
    and "cache_wf st" "sec + count < 2 ^ 32" "sec div 8 \<le> b" "b \<le> e" "e = (sec + count) div 8"
  shows "out = buff @ map (view st) [max sec (8 * b)..<sec + count] \<and> cache_wf st' \<and> view st' = view st"
  using assms
proof (induction "Suc e - b" arbitrary: b buff st)
  case (Suc d)
  obtain first n where bp: "block_part sec count b = (first, n)" by fastforce
  note bounds = block_part_bounds [OF Suc.prems(4) _ bp]
  have up: "[b..<Suc e] = b # [Suc b..<Suc e]" using Suc.prems(5) by (simp add: upt_rec)
  from Suc.prems(1) obtain c st1 where fc: "find_chunk b st = Inr (Some c, st1)"
    and rest: "read_blocks sec count [Suc b..<Suc e]
        (buff @ take n (drop first (ch_data (chunks (mark_access c st1) c)))) (mark_access c st1) = Inr (Some out, st')"
    unfolding up by (auto simp: rbind_def bp Let_def split: sum.splits option.splits)
  have b32: "8 * b < 2 ^ 32" using Suc.prems(3,5,6) by linarith
  from find_chunk_ok [OF Suc.prems(2) b32 fc] have
    c: "cache_wf st1" "view st1 = view st" "c \<in> set (cache_list st1)" "initialSector (chunks st1 c) = 8 * b" by auto
  note ma = mark_access_wf [OF c(1,3)]
  have slice: "take n (drop first (ch_data (chunks (mark_access c st1) c))) =
      map (view st) [max sec (8 * b)..<8 * b + first + n]"
    using chunk_slice [OF c(1,3,4)] bounds Suc.prems(5,6) ma(6) c(2) by simp
  show ?case
  proof (cases "b = e")
    case True
    with rest slice bounds Suc.prems(6) ma c(2) show ?thesis by simp
  next
    case False
    then have lt: "Suc b \<le> e" using Suc.prems(5) by simp
    have "out = (buff @ map (view st) [max sec (8 * b)..<8 * Suc b]) @
        map (view (mark_access c st1)) [max sec (8 * Suc b)..<sec + count] \<and>
        cache_wf st' \<and> view st' = view (mark_access c st1)"
      using rest slice bounds(3) lt Suc.prems(6) Suc.prems(3,4) Suc.hyps(2) ma(1)
      by (intro Suc.hyps(1)) auto
    moreover have "max sec (8 * Suc b) = 8 * Suc b" "max sec (8 * b) \<le> 8 * Suc b" "8 * Suc b \<le> sec + count"
      using Suc.prems(4,6) lt by (auto simp: max_def)
    ultimately show ?thesis
      using ma(2) c(2) by (simp add: upt_split [of "max sec (8 * b)" "8 * Suc b" "sec + count"])
  qed
qed simp


text \<open>A change of the contents of one chunk that marks it dirty changes the sectors it covers.\<close>

lemma upd_chunk_dirty:
  assumes "cache_wf st" "c \<in> set (cache_list st)" and x: "x = chunks st c"
    and g: "initialSector (g x) = initialSector x" "ch_buffer (g x) = ch_buffer x"
      "ch_index (g x) = ch_index x" "length (ch_data (g x)) = 8" "dirty (g x)"
  shows "cache_wf (upd_chunk c g st)"
    and "view (upd_chunk c g st) s =
      (if 8 * (s div 8) = initialSector x then ch_data (g x) ! (s mod 8) else view st s)"
proof -
  let ?st' = "upd_chunk c g st"
  have ch: "chunks ?st' d = (if d = c then g x else chunks st d)" for d by (simp add: upd_chunk_def x)
  have oth: "cache_list ?st' = cache_list st" "chunk_table ?st' = chunk_table st" "chunk_brk ?st' = chunk_brk st"
    "disk ?st' = disk st" "pageMap ?st' = pageMap st"
    by (simp_all add: upd_chunk_def)
  have eqs: "initialSector (chunks ?st' d) = initialSector (chunks st d)"
    "ch_index (chunks ?st' d) = ch_index (chunks st d)" "buf_page ?st' d = buf_page st d" for d
    using g by (simp_all add: ch x buf_page_def)
  have bp: "buf_page ?st' = buf_page st" using eqs(3) by blast
  have ok': "chunk_ok ?st' d" if "d \<in> set (cache_list st)" for d
    using that assms(1) g by (auto simp: cache_wf_def chunk_ok_def Let_def ch oth x)
  then show wf: "cache_wf ?st'"
    using assms(1) by (simp add: cache_wf_def oth eqs bp held_def)
  show "view ?st' s = (if 8 * (s div 8) = initialSector x then ch_data (g x) ! (s mod 8) else view st s)"
  proof (cases "\<exists>d \<in> set (cache_list st). initialSector (chunks st d) = 8 * (s div 8)")
    case True
    then obtain d where d: "d \<in> set (cache_list st)" "initialSector (chunks st d) = 8 * (s div 8)" by blast
    then have "view ?st' s = ch_data (chunks ?st' d) ! (s mod 8)" "view st s = ch_data (chunks st d) ! (s mod 8)"
      using view_cached [OF cache_wf_inj [OF wf], of d s] view_cached [OF cache_wf_inj [OF assms(1)], of d s]
      by (simp_all add: oth eqs)
    moreover have "8 * (s div 8) = initialSector x \<longleftrightarrow> d = c"
      using d cache_wf_inj [OF assms(1)] assms(2) x by (metis inj_onD)
    ultimately show ?thesis by (simp add: ch)
  next
    case False
    then have "8 * (s div 8) \<noteq> initialSector x" using assms(2) x by metis
    moreover have "view ?st' s = disk st s" "view st s = disk st s"
      using view_uncached [of ?st' s] view_uncached [of st s] False by (auto simp: oth eqs)
    ultimately show ?thesis by simp
  qed
qed

lemma write_part_nth:
  assumes "length (ch_data x) = 8" "first + length data \<le> 8" "j < 8"
  shows "ch_data (write_part first data x) ! j =
     (if first \<le> j \<and> j < first + length data then data ! (j - first) else ch_data x ! j)"
    and "length (ch_data (write_part first data x)) = 8"
  using assms by (auto simp: write_part_def nth_append)

lemmas write_part_length = write_part_nth(2) [where j = 0, simplified]

text \<open>The contents after sectors from \<open>p\<close> on are replaced by \<open>data\<close>.\<close>

definition override :: "(nat \<Rightarrow> sector) \<Rightarrow> nat \<Rightarrow> sector list \<Rightarrow> nat \<Rightarrow> sector" where
  "override v p data s = (if p \<le> s \<and> s < p + length data then data ! (s - p) else v s)"

lemma override_append: "override (override v p as) (p + length as) bs = override v p (as @ bs)"
  by (auto simp: override_def fun_eq_iff nth_append)

lemma chunk_write:
  assumes "cache_wf st" "c \<in> set (cache_list st)" "initialSector (chunks st c) = 8 * b"
    "first + length data \<le> 8"
  defines "st1 \<equiv> mark_access c st"
  defines "g \<equiv> \<lambda>x. (if dirty x then x else x\<lparr>firstWriteTime := clock st1\<rparr>)\<lparr>dirty := True\<rparr>"
  defines "st' \<equiv> upd_chunk c (write_part first data) (upd_chunk c g st1)"
  shows "cache_wf st'" "view st' = override (view st) (8 * b + first) data"
proof -
  note ma = mark_access_wf [OF assms(1,2), folded st1_def]
  define h where "h = write_part first data \<circ> g"
  have st': "st' = upd_chunk c h st1" by (simp add: st'_def h_def upd_chunk_def)
  have c1: "c \<in> set (cache_list st1)" using ma(4) assms(2) by simp
  then have len: "length (ch_data (chunks st1 c)) = 8"
    using ma(1) by (auto simp: cache_wf_def chunk_ok_def Let_def)
  have g: "ch_data (g x) = ch_data x" "initialSector (g x) = initialSector x" "ch_buffer (g x) = ch_buffer x"
    "ch_index (g x) = ch_index x" "dirty (g x)" for x
    by (simp_all add: g_def)
  have h: "initialSector (h x) = initialSector x" "ch_buffer (h x) = ch_buffer x" "ch_index (h x) = ch_index x"
    "dirty (h x)" for x
    using g by (simp_all add: h_def write_part_def)
  have hd: "length (ch_data (h (chunks st1 c))) = 8"
    "\<And>j. j < 8 \<Longrightarrow> ch_data (h (chunks st1 c)) ! j =
      (if first \<le> j \<and> j < first + length data then data ! (j - first) else ch_data (chunks st1 c) ! j)"
    using write_part_nth(1) [of "g (chunks st1 c)" first data] write_part_length [of "g (chunks st1 c)" first data]
      len assms(4) g(1) by (simp_all add: h_def)
  note up = upd_chunk_dirty [OF ma(1) c1 refl, of h, OF h(1-3) hd(1) h(4)]
  show "cache_wf st'" using up(1) by (simp add: st')
  show "view st' = override (view st) (8 * b + first) data"
  proof
    fix s :: nat
    have s: "8 * (s div 8) + s mod 8 = s" "s mod 8 < 8" by simp_all
    have init: "initialSector (chunks st1 c) = 8 * b" using ma(5) assms(3) by simp
    show "view st' s = override (view st) (8 * b + first) data s"
    proof (cases "s div 8 = b")
      case True
      have "view st s = ch_data (chunks st1 c) ! (s mod 8)"
        using view_cached [OF cache_wf_inj [OF ma(1)] c1, of s] True init ma(2) by simp
      moreover have "8 * b + first \<le> s \<and> s < 8 * b + first + length data \<longleftrightarrow>
          first \<le> s mod 8 \<and> s mod 8 < first + length data" "s - (8 * b + first) = s mod 8 - first"
        using s True by linarith+
      ultimately show ?thesis
        using up(2) [of s] hd(2) [OF s(2)] init True by (simp add: st' override_def)
    next
      case False
      then have "\<not> (8 * b + first \<le> s \<and> s < 8 * b + first + length data)"
        using s assms(4) by linarith
      with False up(2) [of s] init ma(2) show ?thesis by (auto simp: st' override_def)
    qed
  qed
qed

lemma block_le: "b < n div 8 \<Longrightarrow> 8 * Suc b \<le> (n::nat)"
  using less_eq_div_iff_mult_less_eq [of 8 "Suc b" n] by simp

lemma write_blocks_correct:
  assumes "write_blocks sec count [b..<Suc e] buff st = Inr (0, st')"
    and "cache_wf st" "sec + count < 2 ^ 32" "sec div 8 \<le> b" "b \<le> e" "e = (sec + count) div 8"
    and "length buff = sec + count - max sec (8 * b)"
  shows "view st' = override (view st) (max sec (8 * b)) buff \<and> cache_wf st'"
  using assms
proof (induction "Suc e - b" arbitrary: b buff st)
  case (Suc d)
  obtain first n where bp: "block_part sec count b = (first, n)" by fastforce
  note bounds = block_part_bounds [OF Suc.prems(4) _ bp]
  have up: "[b..<Suc e] = b # [Suc b..<Suc e]" using Suc.prems(5) by (simp add: upt_rec)
  from Suc.prems(1) obtain c st1 st2 where fc: "find_chunk b st = Inr (Some c, st1)"
    and st2: "st2 = upd_chunk c (write_part first (take n buff)) (upd_chunk c (\<lambda>x. (if dirty x then x
        else x\<lparr>firstWriteTime := clock (mark_access c st1)\<rparr>)\<lparr>dirty := True\<rparr>) (mark_access c st1))"
    and rest: "write_blocks sec count [Suc b..<Suc e] (drop n buff) st2 = Inr (0, st')"
    unfolding up by (auto simp: rbind_def bp Let_def split: sum.splits option.splits)
  have b32: "8 * b < 2 ^ 32" using Suc.prems(3,5,6) by linarith
  from find_chunk_ok [OF Suc.prems(2) b32 fc] have
    c: "cache_wf st1" "view st1 = view st" "c \<in> set (cache_list st1)" "initialSector (chunks st1 c) = 8 * b" by auto
  have bd: "8 * b + first = max sec (8 * b)" "first + n \<le> 8"
    "8 * b + first + n = (if b < e then 8 * Suc b else sec + count)"
    using bounds Suc.prems(5,6) by auto
  have n: "n \<le> length buff"
  proof (cases "b < e")
    case True
    then have "8 * Suc b \<le> sec + count" using Suc.prems(6) block_le by simp
    with True bd Suc.prems(7) show ?thesis by simp
  qed (use bd Suc.prems(7) in simp)
  have "first + length (take n buff) \<le> 8" using bd(2) by simp
  from chunk_write [OF c(1,3,4) this, folded st2] have
    w: "cache_wf st2" "view st2 = override (view st) (max sec (8 * b)) (take n buff)" using bd(1) c(2) by simp_all
  show ?case
  proof (cases "b = e")
    case True
    with rest w n bd Suc.prems(7) show ?thesis by simp
  next
    case False
    then have lt: "b < e" "8 * Suc b \<le> sec + count"
      using Suc.prems(5,6) block_le [of b "sec + count"] by simp_all
    have m: "max sec (8 * Suc b) = 8 * Suc b" using Suc.prems(4) by (auto simp: max_def)
    have "view st' = override (view st2) (max sec (8 * Suc b)) (drop n buff) \<and> cache_wf st'"
    proof (rule Suc.hyps(1) [OF _ rest])
      show "d = Suc e - Suc b" using Suc.hyps(2) by simp
    qed (use w lt m bd Suc.prems(3,4,6,7) in simp_all)
    moreover have "max sec (8 * b) + length (take n buff) = 8 * Suc b" using n bd lt by simp
    ultimately show ?thesis
      using w(2) m override_append [of "view st" "max sec (8 * b)" "take n buff" "drop n buff"] by simp
  qed
qed simp


section \<open>Progress\<close>

text \<open>With an empty slot, a kernel object and a free page at hand, a block that is not cached can be loaded.\<close>

lemma load_chunk_succeeds:
  assumes "0 < pm_kalloc st" "free_run (pageMap st) a 1"
  shows "\<exists>c st'. load_chunk sec i st = Inr (Some c, st')"
proof -
  obtain b m where "find_pages (pageMap st) 1 = (b, m)" "b \<noteq> 0"
    using find_pages_cases [of 1 "pageMap st"] assms(2)
    by (metis PAGE_SIZE_pos(1) less_numeral_extra(1) mult_is_0 neq0_conv)
  then show ?thesis using assms(1) by (simp add: load_chunk_def Let_def allocPages_def)
qed

lemma find_chunk_loads:
  assumes "0 < pm_kalloc st" "free_run (pageMap st) a 1"
    "find_in_table st (nat (un32 (int block * 8))) 0 (chunk_table st) None = Inr (Some i)"
  shows "\<exists>c st'. find_chunk block st = Inr (Some c, st')"
  using load_chunk_succeeds [OF assms(1,2)] assms(3) by (simp add: find_chunk_def)

section \<open>An eviction frees one page at a time\<close>

lemma evict_at_most_one: "fst (evict n force st) \<le> 1"
proof -
  have "fst (evict_loop now force n es 0 st) \<le> 1" for now es
    by (induction es) auto
  then show ?thesis by (simp add: evict_def)
qed

section \<open>Properties\<close>

text \<open>A cache over a disk of empty sectors, with one free page at address \<open>1026 * PAGE_SIZE\<close>.\<close>

definition cache_example :: cache_state where
  "cache_example = \<lparr>pageMap = (\<lambda>i. 0)(0 := 4), pm_kalloc = 3,
     chunks = (\<lambda>c. \<lparr>initialSector = 0, ch_buffer = 0, ch_data = [], dirty = False, accesses = 0,
       firstWriteTime = 0, lastAccessTime = 0, ch_index = 0\<rparr>),
     chunk_table = replicate 8 None, cache_list = [], chunk_brk = 0, disk = (\<lambda>s. []), clock = 5\<rparr>"

lemma cache_example_wf: "cache_wf cache_example"
  by (auto simp: cache_wf_def cache_example_def held_def nth_replicate)

text \<open>
  C2. The cache and the disk behave as one store of sectors, whatever is loaded, evicted or written
  back on the way: a transfer that succeeds reads the current contents and changes no sector, a
  transfer to the disk replaces exactly the sectors it names, and a write-back changes nothing that a
  reader can see.
\<close>

theorem cache_coherent:
  assumes "cache_wf st" "sec + count < 2 ^ 32"
  shows "(cache_read sec count st = Inr (Some out, st1) \<longrightarrow>
       out = map (view st) [sec..<sec + count] \<and> view st1 = view st \<and> cache_wf st1) \<and>
     (cache_write sec count buff st = Inr (0, st2) \<and> length buff = count \<longrightarrow>
       view st2 = override (view st) sec buff \<and> cache_wf st2) \<and>
     view (cache_sync force st) = view st \<and> cache_wf (cache_sync force st)"
proof -
  have m: "max sec (8 * (sec div 8)) = sec" by simp
  have le: "sec div 8 \<le> (sec + count) div 8" by (simp add: div_le_mono)
  have rd: "out = map (view st) [sec..<sec + count] \<and> view st1 = view st \<and> cache_wf st1"
    if "cache_read sec count st = Inr (Some out, st1)"
    using read_blocks_correct [OF that [unfolded cache_read_def] assms order.refl le refl, unfolded m] by simp
  have wr: "view st2 = override (view st) sec buff \<and> cache_wf st2"
    if "cache_write sec count buff st = Inr (0, st2)" "length buff = count"
    using write_blocks_correct [OF that(1) [unfolded cache_write_def] assms order.refl le refl, unfolded m]
      that(2) by simp
  from rd wr cache_sync_wf [OF assms(1)] show ?thesis by blast
qed


theorem cache_coherent_witness:
  "\<exists>st. cache_write 3 2 [[1], [2]] cache_example = Inr (0, st) \<and> view st 4 = [2] \<and> view st 5 = []"
proof -
  have "\<exists>c st'. find_chunk 0 cache_example = Inr (Some c, st')"
    by (rule find_chunk_loads [where a = 1026 and i = 0])
      (simp_all add: cache_example_def example_map_free [simplified] eval_nat_numeral un32_def)
  then obtain st where w: "cache_write 3 2 [[1], [2]] cache_example = Inr (0, st)"
    by (auto simp: cache_write_def Let_def case_prod_beta)
  have "view st = override (view cache_example) 3 [[1], [2]]"
    using cache_coherent [OF cache_example_wf, of 3 2 undefined undefined "[[1], [2]]" st False] w by simp
  then have "view st 4 = [2]" "view st 5 = []"
    by (simp_all add: override_def view_def cache_example_def)
  with w show ?thesis by blast
qed

end
