(* ===== verification/Pagination.thy ===== *)
theory Pagination
  imports Cache
begin

text \<open>
  \<open>src/system/mm/pagination.c\<close> and the structures of \<open>src/system/mm/page.h\<close>: the two-level page
  tables of the processes. A directory or a table fills one page; \<open>page_tables\<close> holds the entries of
  the page with a given number. Addresses are 32-bit; the fields of an entry that are always zero are
  left out. The processor's \<open>cr3\<close> holds the address of the current directory.
\<close>

unbundle bit_operations_syntax

section \<open>Definitions\<close>

record PageEntry =
  present :: bool
  rw :: bool
  user :: bool
  pageAddress :: nat

record mm_state = cache_state +
  page_tables :: "nat \<Rightarrow> nat \<Rightarrow> PageEntry"
  identityDirectory :: nat
  cr3 :: nat

definition set_directory :: "nat \<Rightarrow> 'z mm_state_scheme \<Rightarrow> 'z mm_state_scheme" where
  "set_directory dir st = st\<lparr>cr3 := dir\<rparr>"

definition mm_pagination_set_kernel_directory :: "'z mm_state_scheme \<Rightarrow> 'z mm_state_scheme" where
  "mm_pagination_set_kernel_directory st = set_directory (identityDirectory st) st"

definition mm_pagination_set_process_directory ::
  "Process option \<Rightarrow> 'z mm_state_scheme \<Rightarrow> 'z mm_state_scheme" where
  "mm_pagination_set_process_directory p st =
     (case p of
        None \<Rightarrow> st
      | Some p \<Rightarrow> (case directory (p_mm p) of None \<Rightarrow> st | Some d \<Rightarrow> set_directory d st))"

text \<open>The address is a multiple of the page size: \<open>address >> 12\<close> in a field of 20 bits.\<close>

definition setup_directory_entry :: "bool \<Rightarrow> nat \<Rightarrow> PageEntry" where
  "setup_directory_entry pres address =
     \<lparr>present = pres, rw = True, user = True, pageAddress = address div 4096 mod 2 ^ 20\<rparr>"

definition setup_table_entry :: "bool \<Rightarrow> nat \<Rightarrow> bool \<Rightarrow> bool \<Rightarrow> PageEntry" where
  "setup_table_entry pres address usr w =
     \<lparr>present = pres, rw = w, user = usr, pageAddress = address div 4096 mod 2 ^ 20\<rparr>"

definition write_entry :: "nat \<Rightarrow> nat \<Rightarrow> PageEntry \<Rightarrow> 'z mm_state_scheme \<Rightarrow> 'z mm_state_scheme" where
  "write_entry page i e st =
     st\<lparr>page_tables := (page_tables st)(page := (page_tables st page)(i := e))\<rparr>"

definition clear_table :: "nat \<Rightarrow> 'z mm_state_scheme \<Rightarrow> 'z mm_state_scheme" where
  "clear_table page st = st\<lparr>page_tables := (page_tables st)(page :=
     (\<lambda>j. if j < 1024 then setup_table_entry False 0 False False else page_tables st page j))\<rparr>"

definition dir_index :: "nat \<Rightarrow> nat" where
  "dir_index address = address div 2 ^ 22 mod 1024"

definition table_index :: "nat \<Rightarrow> nat" where
  "table_index address = address div 2 ^ 12 mod 1024"

text \<open>
  One iteration of \<open>mm_pagination_map\<close>: the table of the directory entry is reserved and cleared when
  the entry is not present, then the table entry is written unless it is already present.
\<close>

definition ensure_table :: "nat \<Rightarrow> nat \<Rightarrow> Process \<times> 'z mm_state_scheme \<Rightarrow> (Process \<times> 'z mm_state_scheme) result" where
  "ensure_table dirPage di s =
     (case s of (owner, st) \<Rightarrow>
        if present (page_tables st dirPage di) then Inr (owner, st)
        else rbind (reserve_pages cache_evict owner 1 st) (\<lambda>(mem, owner1, st1).
          case mem of
            None \<Rightarrow> Inl AssertFail
          | Some pg \<Rightarrow>
              Inr (owner1, clear_table (pg_start pg div PAGE_SIZE)
                     (write_entry dirPage di (setup_directory_entry True (pg_start pg)) st1))))"

definition map_page :: "nat \<Rightarrow> nat \<Rightarrow> bool \<Rightarrow> bool \<Rightarrow> Process \<times> 'z mm_state_scheme \<Rightarrow>
    (Process \<times> 'z mm_state_scheme) result" where
  "map_page source destination usr w s =
     (case directory (p_mm (fst s)) of
        None \<Rightarrow> Inl NullDeref
      | Some d \<Rightarrow>
          (let dirPage = d div PAGE_SIZE
           in rbind (ensure_table dirPage (dir_index destination) s) (\<lambda>(owner, st).
             let tablePage = pageAddress (page_tables st dirPage (dir_index destination))
             in if present (page_tables st tablePage (table_index destination)) then Inr (owner, st)
                else Inr (owner, write_entry tablePage (table_index destination)
                       (setup_table_entry True source usr w) st))))"

fun map_pages :: "nat \<Rightarrow> nat \<Rightarrow> nat list \<Rightarrow> bool \<Rightarrow> bool \<Rightarrow> Process \<times> 'z mm_state_scheme \<Rightarrow>
    (Process \<times> 'z mm_state_scheme) result" where
  "map_pages start to [] usr w s = Inr s"
| "map_pages start to (i # is) usr w s =
     rbind (map_page ((start + i * 4096) mod 2 ^ 32) ((to + i * 4096) mod 2 ^ 32) usr w s) (map_pages start to is usr w)"

definition mm_pagination_map :: "Process \<times> 'z mm_state_scheme \<Rightarrow> nat \<Rightarrow> nat \<Rightarrow> nat \<Rightarrow> bool \<Rightarrow> bool \<Rightarrow>
    (Process \<times> 'z mm_state_scheme) result" where
  "mm_pagination_map s start to pages usr w = map_pages start to [0..<pages] usr w s"

definition mm_pagination_clear_directory :: "nat \<Rightarrow> 'z mm_state_scheme \<Rightarrow> 'z mm_state_scheme" where
  "mm_pagination_clear_directory dir st =
     (let page = dir div PAGE_SIZE
      in st\<lparr>page_tables := (page_tables st)
           (page := (\<lambda>j. if j < 1024 then setup_directory_entry False 0 else page_tables st page j))\<rparr>)"

text \<open>\<open>mm_translate_address\<close>: \<open>None\<close> is the result \<open>NULL\<close> for an address that is not mapped.\<close>

definition mm_translate_address :: "Process \<Rightarrow> 'z mm_state_scheme \<Rightarrow> nat \<Rightarrow> nat option" where
  "mm_translate_address owner st address =
     (case directory (p_mm owner) of
        None \<Rightarrow> Some address
      | Some d \<Rightarrow>
          (let dirEntry = page_tables st (d div PAGE_SIZE) (dir_index address)
           in if present dirEntry
              then (let e = page_tables st (pageAddress dirEntry) (table_index address)
                    in if present e then Some (pageAddress e * 4096 + address mod 4096) else None)
              else None))"

text \<open>\<open>mm_pagination_init\<close>: the directory that maps every address to itself, for the kernel.\<close>

fun init_tables :: "nat \<Rightarrow> nat \<Rightarrow> nat list \<Rightarrow> 'z mm_state_scheme \<Rightarrow> 'z mm_state_scheme" where
  "init_tables dirPage n [] st = st"
| "init_tables dirPage n (i # is) st =
     (case allocPages cache_evict 1 st of
        (table, st1) \<Rightarrow>
          (let st2 = write_entry dirPage i (setup_directory_entry True table) st1;
               tp = table div PAGE_SIZE
           in init_tables dirPage n is (st2\<lparr>page_tables := (page_tables st2)
                (tp := (\<lambda>j. if j < 1024 then setup_table_entry True ((1024 * i + j) * 4096) False True
                            else page_tables st2 tp j))\<rparr>)))"

definition mm_pagination_init :: "'z mm_state_scheme \<Rightarrow> 'z mm_state_scheme" where
  "mm_pagination_init st =
     (case allocPages cache_evict 1 st of
        (dir, st1) \<Rightarrow>
          mm_pagination_set_kernel_directory
            (init_tables (dir div PAGE_SIZE) 1024 [0..<1024] (st1\<lparr>identityDirectory := dir\<rparr>)))"

section \<open>What a mapping translates to\<close>

text \<open>
  The paging structures of a process: the directory lies in one of its pages, each present directory
  entry names a table page of its own, and no two entries share one.
\<close>

definition dir_page :: "Process \<Rightarrow> nat" where
  "dir_page p = the (directory (p_mm p)) div PAGE_SIZE"

definition paging_wf :: "Process \<Rightarrow> 'z mm_state_scheme \<Rightarrow> bool" where
  "paging_wf p st \<longleftrightarrow> (directory (p_mm p) \<noteq> None) \<and> dir_page p \<in> owned_pages (reservedPages (p_mm p)) \<and>
     (\<forall>i < 1024. present (page_tables st (dir_page p) i) \<longrightarrow>
        pageAddress (page_tables st (dir_page p) i) \<in> owned_pages (reservedPages (p_mm p)) \<and>
        pageAddress (page_tables st (dir_page p) i) \<noteq> dir_page p) \<and>
     inj_on (\<lambda>i. pageAddress (page_tables st (dir_page p) i)) {i. i < 1024 \<and> present (page_tables st (dir_page p) i)}"

definition mem_wf :: "Process \<Rightarrow> 'z mm_state_scheme \<Rightarrow> bool" where
  "mem_wf p st \<longleftrightarrow> free_set (pageMap st) \<union> held st \<subseteq> {..<MAPPABLE_PAGES} \<and> cache_wf st \<and> owner_invar (pageMap st) (reservedPages (p_mm p)) \<and>
     owned_pages (reservedPages (p_mm p)) \<inter> held st = {}"

lemma dir_index_less [simp]: "dir_index a < 1024" by (simp add: dir_index_def)
lemma table_index_less [simp]: "table_index a < 1024" by (simp add: table_index_def)

lemma translate_some:
  "directory (p_mm p) \<noteq> None \<Longrightarrow>
     mm_translate_address p st a =
       (let de = page_tables st (dir_page p) (dir_index a); te = page_tables st (pageAddress de) (table_index a)
        in if present de \<and> present te then Some (pageAddress te * 4096 + a mod 4096) else None)"
  by (auto simp: mm_translate_address_def dir_page_def Let_def split: option.splits)


text \<open>The cache and the page allocator never touch the page tables.\<close>

lemma page_tables_release [simp]: "page_tables (release_chunk i st) = page_tables st"
  by (simp add: release_chunk_def Let_def ata_write_def split: option.split)

lemma page_tables_evict_loop [simp]: "page_tables (snd (evict_loop now force n es e st)) = page_tables st"
  by (induction es) auto

lemma page_tables_evict [simp]: "page_tables (snd (evict n force st)) = page_tables st"
  by (simp add: evict_def)

lemma page_tables_sync [simp]: "page_tables (cache_sync force st) = page_tables st"
proof -
  have "page_tables (fold (sync_entry force now) es s) = page_tables s" for es now and s :: "'a mm_state_scheme"
    by (induction es arbitrary: s) (auto simp: sync_entry_def upd_chunk_def ata_write_def split: option.split)
  then show ?thesis by (simp add: cache_sync_def)
qed

lemma page_tables_cache_evict [simp]: "page_tables (snd (cache_evict n st)) = page_tables st"
  by (auto simp: cache_evict_def case_prod_beta Let_def)

lemma page_tables_allocPages [simp]: "page_tables (snd (allocPages cache_evict n st)) = page_tables st"
  using page_tables_cache_evict [of n "st\<lparr>pageMap := m\<rparr>" for m]
  by (auto simp: allocPages_def case_prod_beta split: if_splits)

lemma page_tables_reserve:
  "reserve_pages cache_evict owner n st = Inr (res, owner', st') \<Longrightarrow> page_tables st' = page_tables st"
  using page_tables_allocPages [of n st]
  by (auto simp: reserve_pages_def case_prod_beta Let_def split: if_splits)

text \<open>An entry of a page outside the cache's frame can be written without touching the rest.\<close>

lemma mem_wf_tables: "mem_wf p (st\<lparr>page_tables := t\<rparr>) = mem_wf p st"
  by (simp add: mem_wf_def cache_wf_def chunk_ok_def held_def buf_page_def fun_eq_iff
      cong: ball_cong) (simp add: inj_on_def buf_page_def)


lemma ensure_table_ok:
  assumes "mem_wf p st" "paging_wf p st" "di < 1024" "ensure_table (dir_page p) di (p, st) = Inr (p', st')"
  shows "mem_wf p' st' \<and> paging_wf p' st' \<and> directory (p_mm p') = directory (p_mm p) \<and>
     present (page_tables st' (dir_page p) di) \<and> (\<forall>a. mm_translate_address p' st' a = mm_translate_address p st a)"
proof (cases "present (page_tables st (dir_page p) di)")
  case True
  with assms show ?thesis by (simp add: ensure_table_def)
next
  case False
  let ?D = "dir_page p"
  obtain pg st1 where rp: "reserve_pages cache_evict p 1 st = Inr (Some pg, p', st1)"
    and st'_eq: "st' = clear_table (pg_start pg div PAGE_SIZE) (write_entry ?D di (setup_directory_entry True (pg_start pg)) st1)"
    using assms(4) False
    by (auto simp: ensure_table_def rbind_def split: sum.splits option.splits)
  note st' = st'_eq [unfolded clear_table_def write_entry_def]
  have inv: "cache_wf st" "owner_invar (pageMap st) (reservedPages (p_mm p))"
    "owned_pages (reservedPages (p_mm p)) \<inter> held st = {}" "free_set (pageMap st) \<union> held st \<subseteq> {..<MAPPABLE_PAGES}"
    using assms(1) by (auto simp: mem_wf_def)
  have one: "(0::nat) < 1" by simp
  note ok = cache.reserve_pages_ok [OF inv(1) one inv(2,3) rp]
  have tabs: "page_tables st1 = page_tables st" by (rule page_tables_reserve [OF rp])
  have p': "p' = p\<lparr>p_mm := (p_mm p)\<lparr>reservedPages := pg # reservedPages (p_mm p)\<rparr>\<rparr>"
    "pg_count pg = 1" "pages_of pg \<subseteq> free_set (pageMap st) \<union> held st"
    using ok by auto
  define tp where "tp = pg_start pg div PAGE_SIZE"
  have pgs: "pages_of pg = {tp}" using p'(2) by (auto simp: pages_of_def tp_def)
  have tp_new: "tp \<notin> owned_pages (reservedPages (p_mm p))" "tp < 2 ^ 20"
    using p'(3) inv(2-4) by (auto simp: pgs owner_invar_def MAPPABLE_PAGES_def)
  have mem1: "mem_wf p' st1" using ok inv(4) by (auto simp: mem_wf_def)
  have dir: "directory (p_mm p) \<noteq> None" "?D \<in> owned_pages (reservedPages (p_mm p))"
    using assms(2) by (auto simp: paging_wf_def)
  have D': "dir_page p' = ?D" "directory (p_mm p') = directory (p_mm p)"
    "owned_pages (reservedPages (p_mm p')) = insert tp (owned_pages (reservedPages (p_mm p)))"
    by (auto simp: p'(1) dir_page_def pgs)
  have tpD: "tp \<noteq> ?D" using tp_new dir by blast
  have ent: "page_tables st' ?D i = (if i = di then setup_directory_entry True (pg_start pg) else page_tables st ?D i)" for i
    using tpD by (simp add: st' tabs tp_def)
  have addr: "pageAddress (setup_directory_entry True (pg_start pg)) = tp"
    using tp_new(2) by (simp add: setup_directory_entry_def tp_def PAGE_SIZE_def)
  have tbl: "page_tables st' tp j = setup_table_entry False 0 False False" if "j < 1024" for j
    using that by (simp add: st' tp_def)
  have oth: "page_tables st' q = page_tables st q" if "q \<noteq> tp" "q \<noteq> ?D" for q
    using that by (simp add: st' tabs tp_def)
  have old: "pageAddress (page_tables st ?D i) \<noteq> tp \<and> pageAddress (page_tables st ?D i) \<noteq> ?D \<and>
      pageAddress (page_tables st ?D i) \<in> owned_pages (reservedPages (p_mm p))"
    if "i < 1024" "present (page_tables st ?D i)" for i
    using assms(2) that tp_new(1) by (auto simp: paging_wf_def)
  have pres: "present (setup_directory_entry True (pg_start pg))" by (simp add: setup_directory_entry_def)
  have "paging_wf p' st'"
    unfolding paging_wf_def D'(1-3)
  proof (intro conjI allI impI)
    show "inj_on (\<lambda>i. pageAddress (page_tables st' ?D i)) {i. i < 1024 \<and> present (page_tables st' ?D i)}"
    proof (rule inj_onI)
      fix i j assume ij: "i \<in> {i. i < 1024 \<and> present (page_tables st' ?D i)}"
        "j \<in> {i. i < 1024 \<and> present (page_tables st' ?D i)}"
        "pageAddress (page_tables st' ?D i) = pageAddress (page_tables st' ?D j)"
      then show "i = j"
        using old assms(2) by (cases "i = di"; cases "j = di") (auto simp: ent addr paging_wf_def inj_on_def)
    qed
  qed (use dir old tpD in \<open>auto simp: ent addr split: if_splits\<close>)
  moreover have "mem_wf p' st'" using mem1 by (simp add: st' mem_wf_tables)
  moreover have "mm_translate_address p' st' a = mm_translate_address p st a" for a
  proof (cases "dir_index a = di")
    case True
    with False dir(1) tbl [of "table_index a"] show ?thesis
      by (simp add: translate_some D' Let_def ent addr setup_table_entry_def)
  next
    case ne: False
    show ?thesis
    proof (cases "present (page_tables st ?D (dir_index a))")
      case True
      with old [of "dir_index a"] oth [of "pageAddress (page_tables st ?D (dir_index a))"]
      have "page_tables st' (pageAddress (page_tables st ?D (dir_index a))) =
          page_tables st (pageAddress (page_tables st ?D (dir_index a)))" by simp
      with ne dir(1) show ?thesis by (simp add: translate_some D' Let_def ent)
    qed (use ne dir(1) in \<open>simp add: translate_some D' Let_def ent\<close>)
  qed
  ultimately show ?thesis using D'(2) pres by (simp add: ent)
qed

definition same_page :: "nat \<Rightarrow> nat \<Rightarrow> bool" where
  "same_page a b \<longleftrightarrow> dir_index a = dir_index b \<and> table_index a = table_index b"

lemma map_page_ok:
  assumes "mem_wf p st" "paging_wf p st" "map_page source dest usr w (p, st) = Inr (p', st')"
  shows "mem_wf p' st' \<and> paging_wf p' st' \<and> directory (p_mm p') = directory (p_mm p) \<and>
     (\<forall>a. mm_translate_address p' st' a =
        (if same_page a dest \<and> mm_translate_address p st dest = None
         then Some (source div 4096 mod 2 ^ 20 * 4096 + a mod 4096) else mm_translate_address p st a))"
proof -
  obtain d where d: "directory (p_mm p) = Some d" "d div PAGE_SIZE = dir_page p"
    using assms(2) by (auto simp: paging_wf_def dir_page_def)
  obtain p1 st1 where e: "ensure_table (dir_page p) (dir_index dest) (p, st) = Inr (p1, st1)"
    by (rule rbind_InrE [OF assms(3) [unfolded map_page_def fst_conv d(1) option.case Let_def d(2)]])
      (metis surj_pair)
  let ?D = "dir_page p"
  have en: "mem_wf p1 st1" "paging_wf p1 st1" "directory (p_mm p1) = directory (p_mm p)"
    "present (page_tables st1 ?D (dir_index dest))"
    and tr1: "mm_translate_address p1 st1 a = mm_translate_address p st a" for a
    using ensure_table_ok [OF assms(1,2) dir_index_less e] by blast+
  have D1: "dir_page p1 = ?D" "directory (p_mm p1) \<noteq> None" using en(3) d by (simp_all add: dir_page_def)
  define tp where "tp = pageAddress (page_tables st1 ?D (dir_index dest))"
  have tpD: "tp \<noteq> ?D" using en(2,4) by (simp add: paging_wf_def tp_def D1)
  show ?thesis
  proof (cases "present (page_tables st1 tp (table_index dest))")
    case True
    then have "p' = p1" "st' = st1" using assms(3) d e by (auto simp: map_page_def Let_def tp_def)
    moreover have "mm_translate_address p st dest \<noteq> None"
      using True en(4) D1 tr1 [of dest, symmetric] by (simp add: translate_some Let_def tp_def)
    ultimately show ?thesis using en(1-3) tr1 by auto
  next
    case False
    then have p': "p' = p1" and st': "st' = write_entry tp (table_index dest) (setup_table_entry True source usr w) st1"
      using assms(3) d e by (auto simp: map_page_def Let_def tp_def)
    have none: "mm_translate_address p st dest = None"
      using False D1 tr1 [of dest, symmetric] by (simp add: translate_some Let_def tp_def)
    have entD: "page_tables st' ?D = page_tables st1 ?D" using tpD by (simp add: st' write_entry_def)
    have "paging_wf p' st'" using en(2) by (simp add: paging_wf_def p' D1 entD)
    moreover have "mem_wf p' st'" using en(1) by (simp add: st' p' write_entry_def mem_wf_tables)
    moreover have "mm_translate_address p' st' a =
        (if same_page a dest then Some (source div 4096 mod 2 ^ 20 * 4096 + a mod 4096) else mm_translate_address p1 st1 a)" for a
    proof (cases "present (page_tables st1 ?D (dir_index a)) \<and> pageAddress (page_tables st1 ?D (dir_index a)) = tp")
      case True
      then have "dir_index a = dir_index dest"
        using en(2,4) by (auto simp: paging_wf_def inj_on_def tp_def D1)
      with True D1(2) show ?thesis
        by (auto simp: translate_some D1 p' entD Let_def same_page_def)
          (auto simp: st' write_entry_def setup_table_entry_def split: if_splits)
    next
      case False
      then have "\<not> same_page a dest" using en(4) by (auto simp: same_page_def tp_def)
      with False D1(2) show ?thesis
        by (auto simp: translate_some D1 p' entD Let_def) (auto simp: st' write_entry_def)
    qed
    ultimately show ?thesis using en(3) none tr1 p' by simp
  qed
qed


lemma same_page_iff: "a < 2 ^ 32 \<Longrightarrow> b < 2 ^ 32 \<Longrightarrow> same_page a b \<longleftrightarrow> a div 4096 = b div 4096"
proof -
  assume "a < 2 ^ 32" "b < 2 ^ 32"
  then have lt: "a div 4096 < 1024 * 1024" "b div 4096 < 1024 * 1024" by (simp_all add: div_less_iff_less_mult)
  have "x div 2 ^ 22 = x div 4096 div 1024" for x :: nat by (simp add: div_mult2_eq [symmetric])
  then have "same_page a b \<longleftrightarrow> a div 4096 div 1024 = b div 4096 div 1024 \<and> a div 4096 mod 1024 = b div 4096 mod 1024"
    using lt by (simp add: same_page_def dir_index_def table_index_def less_mult_imp_div_less)
  also have "\<dots> \<longleftrightarrow> a div 4096 = b div 4096" by (metis div_mult_mod_eq)
  finally show ?thesis .
qed

lemma aligned_div_iff:
  assumes "d mod 4096 = 0"
  shows "a div 4096 = d div 4096 \<longleftrightarrow> d \<le> a \<and> a < d + (4096::nat)"
proof -
  obtain k where "d = 4096 * k" using assms by auto
  moreover have "a div 4096 = k \<longleftrightarrow> 4096 * k \<le> a \<and> a < 4096 * k + 4096"
    using mult_div_mod_eq [of 4096 a] mod_less_divisor [of 4096 a] div_nat_eqI [of 4096 k a] by auto
  ultimately show ?thesis by simp
qed

lemma translate_None_page:
  "directory (p_mm p) \<noteq> None \<Longrightarrow> same_page a b \<Longrightarrow>
     mm_translate_address p st a = None \<longleftrightarrow> mm_translate_address p st b = None"
  by (simp add: translate_some same_page_def Let_def)

lemma map_pages_append:
  "map_pages start to (is @ js) usr w s = rbind (map_pages start to is usr w s) (map_pages start to js usr w)"
proof (induction "is" arbitrary: s)
  case (Cons i "is")
  then show ?case by (cases "map_page ((start + i * 4096) mod 2 ^ 32) ((to + i * 4096) mod 2 ^ 32) usr w s") simp_all
qed simp

lemma mm_pagination_map_ok:
  assumes "mem_wf p st" "paging_wf p st" "mm_pagination_map (p, st) start to n usr w = Inr (p', st')"
    and "start mod 4096 = 0" "to mod 4096 = 0" "start + n * 4096 \<le> 2 ^ 32" "to + n * 4096 \<le> 2 ^ 32"
  shows "mem_wf p' st' \<and> paging_wf p' st' \<and> directory (p_mm p') = directory (p_mm p) \<and>
     (\<forall>a < 2 ^ 32. mm_translate_address p' st' a =
        (if to \<le> a \<and> a < to + n * 4096 \<and> mm_translate_address p st a = None
         then Some (start + (a - to)) else mm_translate_address p st a))"
  using assms(3,6,7)
proof (induction n arbitrary: p' st')
  case 0
  with assms(1,2) show ?case by (simp add: mm_pagination_map_def)
next
  case (Suc n)
  from Suc.prems(1) have "rbind (mm_pagination_map (p, st) start to n usr w)
      (map_pages start to [n] usr w) = Inr (p', st')"
    by (simp add: mm_pagination_map_def map_pages_append)
  then obtain x where "mm_pagination_map (p, st) start to n usr w = Inr x" "map_pages start to [n] usr w x = Inr (p', st')"
    by (rule rbind_InrE)
  moreover obtain p1 st1 where "x = (p1, st1)" by fastforce
  ultimately have m: "mm_pagination_map (p, st) start to n usr w = Inr (p1, st1)"
    and l: "map_page (start + n * 4096) (to + n * 4096) usr w (p1, st1) = Inr (p', st')"
    using Suc.prems(2,3) by (auto elim: rbind_InrE)
  have IH: "mem_wf p1 st1" "paging_wf p1 st1" "directory (p_mm p1) = directory (p_mm p)"
    and tr1: "\<And>a. a < 2 ^ 32 \<Longrightarrow> mm_translate_address p1 st1 a =
      (if to \<le> a \<and> a < to + n * 4096 \<and> mm_translate_address p st a = None
       then Some (start + (a - to)) else mm_translate_address p st a)"
    using Suc.IH [OF m] Suc.prems(2,3) by auto
  let ?d = "to + n * 4096"
  have mp: "mem_wf p' st'" "paging_wf p' st'" "directory (p_mm p') = directory (p_mm p1)"
    and tr2: "\<And>a. mm_translate_address p' st' a =
      (if same_page a ?d \<and> mm_translate_address p1 st1 ?d = None
       then Some ((start + n * 4096) div 4096 mod 2 ^ 20 * 4096 + a mod 4096) else mm_translate_address p1 st1 a)"
    using map_page_ok [OF IH(1,2) l] by blast+
  have "mm_translate_address p' st' a =
      (if to \<le> a \<and> a < to + Suc n * 4096 \<and> mm_translate_address p st a = None
       then Some (start + (a - to)) else mm_translate_address p st a)" if a: "a < 2 ^ 32" for a
  proof -
    have "?d < 2 ^ 32" using Suc.prems(3) by simp
    then have sp: "same_page a ?d \<longleftrightarrow> a div 4096 = ?d div 4096" by (rule same_page_iff [OF a])
    have d0: "?d mod 4096 = 0" using assms(5) by simp
    then have in_page: "same_page a ?d \<longleftrightarrow> ?d \<le> a \<and> a < ?d + 4096"
      unfolding sp by (rule aligned_div_iff)
    have fr: "mm_translate_address p1 st1 ?d = mm_translate_address p st ?d"
      using tr1 [OF \<open>?d < 2 ^ 32\<close>] by simp
    show ?thesis
    proof (cases "same_page a ?d")
      case True
      then have nn: "mm_translate_address p st ?d = None \<longleftrightarrow> mm_translate_address p st a = None"
        using assms(2) translate_None_page [of p a ?d st] by (simp add: paging_wf_def)
      have ad: "(start + n * 4096) div 4096 mod 2 ^ 20 * 4096 + a mod 4096 = start + (a - to)"
      proof -
        have "(start + n * 4096) div 4096 < 2 ^ 20" using Suc.prems(2) by (simp add: div_less_iff_less_mult)
        moreover have "(start + n * 4096) div 4096 * 4096 = start + n * 4096" using assms(4) by auto
        moreover have "a mod 4096 = a - ?d"
          using True sp d0 by (metis add.right_neutral div_mult_mod_eq minus_div_mult_eq_mod mult.commute)
        ultimately show ?thesis using True in_page by simp
      qed
      have r: "to \<le> a" "a < to + Suc n * 4096" "\<not> a < ?d" using True in_page by auto
      have "mm_translate_address p1 st1 a = mm_translate_address p st a"
        using tr1 [OF a] r(3) by simp
      with True r tr2 [of a, unfolded ad fr nn] show ?thesis by simp
    next
      case False
      then have "(to \<le> a \<and> a < to + Suc n * 4096) = (to \<le> a \<and> a < ?d)" using in_page by auto
      with False show ?thesis unfolding tr2 [of a] tr1 [OF a] by auto
    qed
  qed
  with mp IH(3) show ?case by simp
qed


section \<open>Properties\<close>

text \<open>
  C14. \<open>mm_pagination_map\<close> and \<open>mm_translate_address\<close> agree: after pages are mapped, an address of the
  new range that was not mapped before translates to the corresponding address of the source, every
  other address translates as before, and the process still owns its directory and its tables, each of
  them apart from the others.
\<close>

theorem pagination_map_translates:
  assumes "mem_wf p st" "paging_wf p st" "mm_pagination_map (p, st) start to n usr w = Inr (p', st')"
    and "start mod 4096 = 0" "to mod 4096 = 0" "start + n * 4096 \<le> 2 ^ 32" "to + n * 4096 \<le> 2 ^ 32"
  shows "mem_wf p' st' \<and> paging_wf p' st' \<and> directory (p_mm p') = directory (p_mm p) \<and>
     (\<forall>a < 2 ^ 32. mm_translate_address p' st' a =
        (if to \<le> a \<and> a < to + n * 4096 \<and> mm_translate_address p st a = None
         then Some (start + (a - to)) else mm_translate_address p st a))"
  using assms by (rule mm_pagination_map_ok)

text \<open>A process with an empty directory on page 1030, over a cache with one free page.\<close>

definition paging_example :: mm_state where
  "paging_example = cache_state.extend cache_example
     \<lparr>page_tables = (\<lambda>page i. setup_directory_entry False 0), identityDirectory = 0, cr3 = 0\<rparr>"

definition paging_process :: Process where
  "paging_process = zero_process\<lparr>p_mm := zero_memory\<lparr>directory := Some (1030 * 4096),
     reservedPages := [\<lparr>pg_start = 1030 * 4096, pg_count = 1\<rparr>]\<rparr>\<rparr>"


lemma paging_example_cache: "pageMap paging_example = (\<lambda>i. 0)(0 := 4)" "pm_kalloc paging_example = 3"
  "cache_list paging_example = []" "chunk_table paging_example = replicate 8 None"
  "page_tables paging_example = (\<lambda>page i. setup_directory_entry False 0)"
  by (simp_all add: paging_example_def cache_example_def cache_state.extend_def)

lemma paging_example_wf: "mem_wf paging_process paging_example" "paging_wf paging_process paging_example"
proof -
  have pgs: "reservedPages (p_mm paging_process) = [\<lparr>pg_start = 1030 * 4096, pg_count = 1\<rparr>]"
    "dir_page paging_process = 1030" "directory (p_mm paging_process) = Some (1030 * 4096)"
    by (simp_all add: paging_process_def dir_page_def PAGE_SIZE_def)
  have own: "owned_pages [\<lparr>pg_start = 1030 * 4096, pg_count = 1\<rparr>] = {1030}"
    by (auto simp: owned_pages_def pages_of_def PAGE_SIZE_def)
  show "mem_wf paging_process paging_example"
    by (auto simp: mem_wf_def pgs own cache_wf_def held_def paging_example_cache owner_invar_def
        example_free_set MAPPABLE_PAGES_def valid_pages_def UNUSABLE_PAGES_def ENTRIES_IN_MAP_eq
        PAGE_SIZE_def owned_pages_def pages_of_def nth_replicate)
  show "paging_wf paging_process paging_example"
    by (simp add: paging_wf_def pgs paging_example_cache setup_directory_entry_def pages_of_def PAGE_SIZE_def)
qed

theorem pagination_map_translates_witness:
  "\<exists>p' st'. mm_pagination_map (paging_process, paging_example) 0x400000 0x800000 1 True True = Inr (p', st') \<and>
     mm_translate_address p' st' 0x800009 = Some 0x400009"
proof -
  have d: "directory (p_mm paging_process) = Some (1030 * 4096)" "dir_page paging_process = 1030"
    by (simp_all add: paging_process_def dir_page_def PAGE_SIZE_def)
  have "free_run (pageMap paging_example) 1026 1" by (simp only: paging_example_cache example_map_free)
  then obtain pg p1 st1 where "reserve_pages cache_evict paging_process 1 paging_example = Inr (Some pg, p1, st1)"
    using reserve_pages_succeeds [of paging_example 1 1026 cache_evict paging_process]
    by (auto simp: paging_example_cache)
  then have "\<exists>p2 st2. map_page 0x400000 0x800000 True True (paging_process, paging_example) = Inr (p2, st2)"
    by (auto simp: map_page_def ensure_table_def d paging_example_cache setup_directory_entry_def Let_def)
  then obtain p' st' where m: "mm_pagination_map (paging_process, paging_example) 0x400000 0x800000 1 True True = Inr (p', st')"
    by (auto simp: mm_pagination_map_def)
  have "mm_translate_address paging_process paging_example 0x800009 = None"
    by (simp add: translate_some d Let_def paging_example_cache setup_directory_entry_def)
  with pagination_map_translates [OF paging_example_wf m] m show ?thesis by simp
qed

end
