(* ===== verification/C_String.thy ===== *)
theory C_String
  imports Kernel_Prelude
begin

text \<open>
  \<open>src/library/string.c\<close> and \<open>src/library/ctype.c\<close>. A C buffer is a list of characters, the whole
  object a pointer points to; an access outside the object is \<open>OutOfBounds\<close>. Pointers into a buffer are
  indices. Two pointer arguments of one call are distinct objects. \<open>char\<close> is signed on the target.
\<close>

section \<open>Definitions\<close>

abbreviation NUL :: char where "NUL \<equiv> CHR 0x00"

definition cget :: "string \<Rightarrow> nat \<Rightarrow> char result" where
  "cget s i = (if i < length s then Inr (s ! i) else Inl OutOfBounds)"

definition cput :: "string \<Rightarrow> nat \<Rightarrow> char \<Rightarrow> string result" where
  "cput s i c = (if i < length s then Inr (s[i := c]) else Inl OutOfBounds)"

text \<open>The value of a \<open>char\<close> promoted to \<open>int\<close>.\<close>

definition schar :: "char \<Rightarrow> int" where
  "schar c = (let v = int (of_char c) in if v < 128 then v else v - 256)"

lemma rbind_cong [fundef_cong]:
  "r = r' \<Longrightarrow> (\<And>x. r' = Inr x \<Longrightarrow> f x = g x) \<Longrightarrow> rbind r f = rbind r' g"
  by (cases r') auto

lemma cget_Inr: "cget s i = Inr c \<longleftrightarrow> i < length s \<and> s ! i = c"
  by (auto simp: cget_def)

lemma cput_Inr: "cput s i c = Inr s' \<longleftrightarrow> i < length s \<and> s' = s[i := c]"
  by (auto simp: cput_def)

function strlen_loop :: "string \<Rightarrow> nat \<Rightarrow> nat result" where
  "strlen_loop s i = rbind (cget s i) (\<lambda>c. if c \<noteq> NUL then strlen_loop s (Suc i) else Inr i)"
  by pat_completeness auto
termination by (relation "measure (\<lambda>(s, i). length s - i)") (auto simp: cget_Inr)

definition strlen :: "string option \<Rightarrow> nat result" where
  "strlen s = (case s of None \<Rightarrow> Inr 0 | Some s \<Rightarrow> strlen_loop s 0)"

function strcpy_loop :: "string \<Rightarrow> string \<Rightarrow> nat \<Rightarrow> string result" where
  "strcpy_loop s ct i = rbind (cget ct i) (\<lambda>c.
     if c \<noteq> NUL then rbind (cput s i c) (\<lambda>s'. strcpy_loop s' ct (Suc i)) else cput s i NUL)"
  by pat_completeness auto
termination by (relation "measure (\<lambda>(s, ct, i). length ct - i)") (auto simp: cget_Inr)

definition strcpy :: "string \<Rightarrow> string \<Rightarrow> string result" where
  "strcpy s ct = strcpy_loop s ct 0"

function strncpy_loop :: "string \<Rightarrow> string \<Rightarrow> nat \<Rightarrow> nat \<Rightarrow> string result" where
  "strncpy_loop s ct n i =
     (if i < n
      then rbind (cget ct i) (\<lambda>c.
        if c \<noteq> NUL then rbind (cput s i c) (\<lambda>s'. strncpy_loop s' ct n (Suc i)) else cput s i NUL)
      else cput s i NUL)"
  by pat_completeness auto
termination by (relation "measure (\<lambda>(s, ct, n, i). n - i)") auto

definition strncpy :: "string \<Rightarrow> string \<Rightarrow> nat \<Rightarrow> string result" where
  "strncpy s ct n = strncpy_loop s ct n 0"

function strcat_loop :: "string \<Rightarrow> string \<Rightarrow> nat \<Rightarrow> nat \<Rightarrow> string result" where
  "strcat_loop s ct i j = rbind (cget ct j) (\<lambda>c.
     if c \<noteq> NUL then rbind (cput s i c) (\<lambda>s'. strcat_loop s' ct (Suc i) (Suc j)) else cput s i NUL)"
  by pat_completeness auto
termination by (relation "measure (\<lambda>(s, ct, i, j). length ct - j)") (auto simp: cget_Inr)

definition strcat :: "string \<Rightarrow> string \<Rightarrow> string result" where
  "strcat s ct = rbind (strlen_loop s 0) (\<lambda>i. strcat_loop s ct i 0)"

function strncat_loop :: "string \<Rightarrow> string \<Rightarrow> nat \<Rightarrow> nat \<Rightarrow> nat \<Rightarrow> string result" where
  "strncat_loop s ct n i j = rbind (cget ct j) (\<lambda>c.
     if c \<noteq> NUL \<and> j < n then rbind (cput s i c) (\<lambda>s'. strncat_loop s' ct n (Suc i) (Suc j)) else cput s i NUL)"
  by pat_completeness auto
termination by (relation "measure (\<lambda>(s, ct, n, i, j). length ct - j)") (auto simp: cget_Inr)

definition strncat :: "string \<Rightarrow> string \<Rightarrow> nat \<Rightarrow> string result" where
  "strncat s ct n = rbind (strlen_loop s 0) (\<lambda>i. strncat_loop s ct n i 0)"

text \<open>\<open>strchr\<close> and \<open>strrchr\<close> return an index into the string, \<open>None\<close> for \<open>NULL\<close>.\<close>

function strchr_loop :: "string \<Rightarrow> char \<Rightarrow> nat \<Rightarrow> nat option result" where
  "strchr_loop cs c i = rbind (cget cs i) (\<lambda>x.
     if x \<noteq> c \<and> x \<noteq> NUL then strchr_loop cs c (Suc i) else Inr (if x = NUL then None else Some i))"
  by pat_completeness auto
termination by (relation "measure (\<lambda>(cs, c, i). length cs - i)") (auto simp: cget_Inr)

definition strchr :: "string \<Rightarrow> char \<Rightarrow> nat option result" where
  "strchr cs c = strchr_loop cs c 0"

function strrchr_loop :: "string \<Rightarrow> char \<Rightarrow> nat option \<Rightarrow> nat \<Rightarrow> nat option result" where
  "strrchr_loop cs c lst i = rbind (cget cs i) (\<lambda>x.
     if x \<noteq> NUL then strrchr_loop cs c (if x = c then Some i else lst) (Suc i) else Inr lst)"
  by pat_completeness auto
termination by (relation "measure (\<lambda>(cs, c, lst, i). length cs - i)") (auto simp: cget_Inr)

definition strrchr :: "string \<Rightarrow> char \<Rightarrow> nat option result" where
  "strrchr cs c = strrchr_loop cs c None 0"

function strncmp_loop :: "string \<Rightarrow> string \<Rightarrow> nat \<Rightarrow> nat \<Rightarrow> int result" where
  "strncmp_loop cs ct n i = rbind (cget cs i) (\<lambda>a. rbind (cget ct i) (\<lambda>b.
     if a = b \<and> a \<noteq> NUL \<and> i < n then strncmp_loop cs ct n (Suc i)
     else if i = n \<or> a = b then Inr 0
     else Inr (if schar a < schar b then - 1 else 1)))"
  by pat_completeness auto
termination by (relation "measure (\<lambda>(cs, ct, n, i). n - i)") auto

definition strncmp :: "string \<Rightarrow> string \<Rightarrow> nat \<Rightarrow> int result" where
  "strncmp cs ct n = strncmp_loop cs ct n 0"

definition INT_MAX :: nat where "INT_MAX = 4294967295"

definition strcmp :: "string \<Rightarrow> string \<Rightarrow> int result" where
  "strcmp cs ct = strncmp cs ct INT_MAX"

function memset_loop :: "string \<Rightarrow> char \<Rightarrow> nat \<Rightarrow> nat \<Rightarrow> string result" where
  "memset_loop s c n i = (if i < n then rbind (cput s i c) (\<lambda>s'. memset_loop s' c n (Suc i)) else Inr s)"
  by pat_completeness auto
termination by (relation "measure (\<lambda>(s, c, n, i). n - i)") auto

definition memset :: "string \<Rightarrow> char \<Rightarrow> nat \<Rightarrow> string result" where
  "memset s c n = memset_loop s c n 0"

function memcpy_loop :: "string \<Rightarrow> string \<Rightarrow> nat \<Rightarrow> nat \<Rightarrow> string result" where
  "memcpy_loop s ct n i =
     (if i < n then rbind (cget ct i) (\<lambda>c. rbind (cput s i c) (\<lambda>s'. memcpy_loop s' ct n (Suc i))) else Inr s)"
  by pat_completeness auto
termination by (relation "measure (\<lambda>(s, ct, n, i). n - i)") auto

definition memcpy :: "string \<Rightarrow> string \<Rightarrow> nat \<Rightarrow> string result" where
  "memcpy s ct n = memcpy_loop s ct n 0"

text \<open>\<open>memchr\<close> and \<open>memcmp\<close> look at the byte they stop at even when it is byte \<open>n\<close>.\<close>

function memchr_loop :: "string \<Rightarrow> char \<Rightarrow> nat \<Rightarrow> nat \<Rightarrow> nat option result" where
  "memchr_loop cs c n i =
     (if i < n then rbind (cget cs i) (\<lambda>x. if x \<noteq> c then memchr_loop cs c n (Suc i) else Inr (Some i))
      else rbind (cget cs i) (\<lambda>x. Inr (if x = c then Some i else None)))"
  by pat_completeness auto
termination by (relation "measure (\<lambda>(cs, c, n, i). n - i)") auto

definition memchr :: "string \<Rightarrow> char \<Rightarrow> nat \<Rightarrow> nat option result" where
  "memchr cs c n = memchr_loop cs c n 0"

function memcmp_loop :: "string \<Rightarrow> string \<Rightarrow> nat \<Rightarrow> nat \<Rightarrow> int result" where
  "memcmp_loop cs ct n i = rbind (cget cs i) (\<lambda>a. rbind (cget ct i) (\<lambda>b.
     if a = b \<and> i < n then memcmp_loop cs ct n (Suc i)
     else if a = b then Inr 0 else Inr (if schar a < schar b then - 1 else 1)))"
  by pat_completeness auto
termination by (relation "measure (\<lambda>(cs, ct, n, i). n - i)") auto

definition memcmp :: "string \<Rightarrow> string \<Rightarrow> nat \<Rightarrow> int result" where
  "memcmp cs ct n = memcmp_loop cs ct n 0"

text \<open>\<open>reverse\<close>: the loop fills \<open>buff\<close>, \<open>len\<close> counting down; then \<open>buff\<close> is copied back.\<close>

fun reverse_loop :: "string \<Rightarrow> nat \<Rightarrow> nat \<Rightarrow> string \<Rightarrow> string result" where
  "reverse_loop s 0 i buff = cput buff i NUL"
| "reverse_loop s (Suc len) i buff =
     rbind (cget s len) (\<lambda>c. rbind (cput buff i c) (\<lambda>buff'. reverse_loop s len (Suc i) buff'))"

definition reverse :: "string \<Rightarrow> string result" where
  "reverse s = rbind (strlen (Some s)) (\<lambda>n.
     rbind (reverse_loop s n 0 (replicate (n + 1) NUL)) (\<lambda>buff. strcpy s buff))"

definition isdigit :: "char \<Rightarrow> bool" where
  "isdigit c \<longleftrightarrow> schar c \<ge> 48 \<and> schar c \<le> 57"

definition isspace :: "char \<Rightarrow> bool" where
  "isspace c \<longleftrightarrow> c = CHR '' '' \<or> c = CHR 0x09 \<or> c = CHR 0x0A \<or> c = CHR 0x0D \<or> c = CHR 0x0B \<or> c = CHR 0x0C"

definition isupper :: "char \<Rightarrow> bool" where
  "isupper c \<longleftrightarrow> schar c \<ge> 65 \<and> schar c \<le> 90"

definition islower :: "char \<Rightarrow> bool" where
  "islower c \<longleftrightarrow> schar c \<ge> 97 \<and> schar c \<le> 122"

definition isalpha :: "char \<Rightarrow> bool" where
  "isalpha c \<longleftrightarrow> isupper c \<or> islower c"

definition isalnum :: "char \<Rightarrow> bool" where
  "isalnum c \<longleftrightarrow> isalpha c \<or> isdigit c"

text \<open>The loops over characters of a kind, from index \<open>i\<close>: the index of the first other one.\<close>

function skip_while :: "(char \<Rightarrow> bool) \<Rightarrow> string \<Rightarrow> nat \<Rightarrow> nat result" where
  "skip_while P s i = rbind (cget s i) (\<lambda>c. if P c then skip_while P s (Suc i) else Inr i)"
  by pat_completeness auto
termination by (relation "measure (\<lambda>(P, s, i). length s - i)") (auto simp: cget_Inr)

definition is_a_number :: "string \<Rightarrow> bool result" where
  "is_a_number str =
     rbind (skip_while (\<lambda>c. c = CHR '' '') str 0) (\<lambda>p. rbind (cget str p) (\<lambda>c.
       let q = (if c = CHR ''-'' then Suc p else p)
       in rbind (skip_while (\<lambda>c. c \<noteq> NUL \<and> isdigit c) str q) (\<lambda>i.
         rbind (cget str i) (\<lambda>c. Inr (c = NUL \<and> i \<noteq> q)))))"

declare strlen_loop.simps [simp del] strcpy_loop.simps [simp del] strncpy_loop.simps [simp del]
  strcat_loop.simps [simp del] strncat_loop.simps [simp del] strchr_loop.simps [simp del]
  strrchr_loop.simps [simp del] strncmp_loop.simps [simp del] memset_loop.simps [simp del]
  memcpy_loop.simps [simp del] memchr_loop.simps [simp del] memcmp_loop.simps [simp del]
  skip_while.simps [simp del]

section \<open>The string in a buffer\<close>

definition cstr :: "string \<Rightarrow> string" where
  "cstr s = takeWhile (\<lambda>c. c \<noteq> NUL) s"

definition terminated :: "string \<Rightarrow> bool" where
  "terminated s \<longleftrightarrow> NUL \<in> set s"

lemma cstr_append [simp]: "NUL \<notin> set t \<Longrightarrow> cstr (t @ NUL # rest) = t"
  unfolding cstr_def by (subst takeWhile_append2) auto

text \<open>A buffer that holds a string: the string, the terminator and other bytes.\<close>

lemma terminatedE:
  assumes "terminated s"
  obtains t rest where "s = t @ NUL # rest" "NUL \<notin> set t" "cstr s = t"
  using assms split_list_first [of NUL s] by (auto simp: terminated_def)

lemma terminated_append [simp]: "terminated (t @ NUL # rest)"
  by (simp add: terminated_def)

lemma cget_append_NUL [simp]: "cget (a @ c # b) (length a) = Inr c"
  by (simp add: cget_def)

text \<open>Scanning loops stop at the first character that fails the test.\<close>

lemma skip_while_stop:
  "\<forall>c \<in> set t. P c \<Longrightarrow> \<not> P x \<Longrightarrow> skip_while P (a @ t @ x # rest) (length a) = Inr (length a + length t)"
proof (induction t arbitrary: a)
  case Nil
  then show ?case by (subst skip_while.simps) simp
next
  case (Cons c t)
  from Cons.IH [of "a @ [c]"] Cons.prems show ?case by (subst skip_while.simps) simp
qed

lemma strlen_loop_stop:
  "NUL \<notin> set t \<Longrightarrow> strlen_loop (a @ t @ NUL # rest) (length a) = Inr (length a + length t)"
proof (induction t arbitrary: a)
  case Nil
  then show ?case by (subst strlen_loop.simps) simp
next
  case (Cons c t)
  from Cons.IH [of "a @ [c]"] Cons.prems show ?case by (subst strlen_loop.simps) auto
qed

lemma strlen_correct: "terminated s \<Longrightarrow> strlen (Some s) = Inr (length (cstr s))"
  using strlen_loop_stop [of "cstr s" "[]"] by (auto elim!: terminatedE simp: strlen_def)

lemma strlen_unterminated: "\<not> terminated s \<Longrightarrow> strlen (Some s) = Inl OutOfBounds"
proof -
  assume "\<not> terminated s"
  then have "strlen_loop s i = Inl OutOfBounds" for i
    by (induction s i rule: strlen_loop.induct)
      (subst strlen_loop.simps, auto simp: cget_def rbind_def terminated_def in_set_conv_nth)
  then show ?thesis by (simp add: strlen_def)
qed


section \<open>Copying\<close>

lemma cput_append [simp]: "cput (a @ c # b) (length a) x = Inr (a @ x # b)"
  by (simp add: cput_def)

text \<open>
  The copying loops: at positions \<open>length a\<close> of the target and \<open>length b\<close> of the source, with room for
  the characters \<open>t\<close> still to come and the terminator.
\<close>

lemma strcat_loop_copies:
  "NUL \<notin> set t \<Longrightarrow> length t < length w \<Longrightarrow>
     strcat_loop (a @ w) (b @ t @ NUL # rest) (length a) (length b) = Inr (a @ t @ NUL # drop (Suc (length t)) w)"
proof (induction t arbitrary: a b w)
  case Nil
  then obtain x w' where "w = x # w'" by (cases w) auto
  then show ?case by (subst strcat_loop.simps) simp
next
  case (Cons c t)
  then obtain x w' where "w = x # w'" by (cases w) auto
  with Cons.IH [of w' "a @ [c]" "b @ [c]"] Cons.prems show ?case by (subst strcat_loop.simps) auto
qed

lemma strcpy_loop_eq: "strcpy_loop s ct i = strcat_loop s ct i i"
  by (induction s ct i rule: strcpy_loop.induct)
    (subst strcpy_loop.simps, subst strcat_loop.simps, auto simp: rbind_def cget_def split: sum.splits)

lemma strncat_loop_copies:
  "NUL \<notin> set t \<Longrightarrow> m = min n (length b + length t) - length b \<Longrightarrow> length b \<le> n \<Longrightarrow> m < length w \<Longrightarrow>
     strncat_loop (a @ w) (b @ t @ NUL # rest) n (length a) (length b) = Inr (a @ take m t @ NUL # drop (Suc m) w)"
proof (induction t arbitrary: a b w m)
  case Nil
  then obtain x w' where "w = x # w'" by (cases w) auto
  with Nil show ?case by (subst strncat_loop.simps) simp
next
  case (Cons c t)
  then obtain x w' where w: "w = x # w'" by (cases w) auto
  show ?case
  proof (cases "length b < n")
    case True
    then have "m \<noteq> 0" using Cons.prems(2) by simp
    then obtain m' where m: "m = Suc m'" by (cases m) auto
    have "strncat_loop ((a @ [c]) @ w') ((b @ [c]) @ t @ NUL # rest) n (length (a @ [c])) (length (b @ [c])) =
        Inr ((a @ [c]) @ take m' t @ NUL # drop (Suc m') w')"
      by (rule Cons.IH) (use Cons.prems True m w in auto)
    moreover have "c \<noteq> NUL" using Cons.prems(1) by auto
    ultimately show ?thesis unfolding m w using True by (subst strncat_loop.simps) simp
  next
    case False
    with Cons.prems w cget_append_NUL [of b c "t @ NUL # rest"] show ?thesis
      by (subst strncat_loop.simps) auto
  qed
qed

lemma strncpy_loop_copies:
  "NUL \<notin> set t \<Longrightarrow> m = min n (length b + length t) - length b \<Longrightarrow> length b \<le> n \<Longrightarrow> m < length w \<Longrightarrow>
     length a = length b \<Longrightarrow>
     strncpy_loop (a @ w) (b @ t @ NUL # rest) n (length b) = Inr (a @ take m t @ NUL # drop (Suc m) w)"
proof (induction t arbitrary: a b w m)
  case Nil
  then obtain x w' where "w = x # w'" by (cases w) auto
  with Nil cput_append [of a x w' NUL] show ?case by (subst strncpy_loop.simps) auto
next
  case (Cons c t)
  then obtain x w' where w: "w = x # w'" by (cases w) auto
  show ?case
  proof (cases "length b < n")
    case True
    then have "m \<noteq> 0" using Cons.prems(2) by simp
    then obtain m' where m: "m = Suc m'" by (cases m) auto
    have "strncpy_loop ((a @ [c]) @ w') ((b @ [c]) @ t @ NUL # rest) n (length (b @ [c])) =
        Inr ((a @ [c]) @ take m' t @ NUL # drop (Suc m') w')"
      by (rule Cons.IH) (use Cons.prems True m w in auto)
    moreover have "c \<noteq> NUL" using Cons.prems(1) by auto
    moreover have "cput (a @ x # w') (length b) c = Inr (a @ c # w')"
      using cput_append [of a x w' c] Cons.prems(5) by simp
    ultimately show ?thesis unfolding m w using True by (subst strncpy_loop.simps) simp
  next
    case False
    with Cons.prems w cput_append [of a x w' NUL] show ?thesis by (subst strncpy_loop.simps) auto
  qed
qed

lemma strcpy_correct:
  assumes "terminated ct" "length (cstr ct) < length s"
  shows "strcpy s ct = Inr (cstr ct @ NUL # drop (Suc (length (cstr ct))) s)"
  using assms strcat_loop_copies [of "cstr ct" s "[]" "[]"]
  by (auto elim!: terminatedE simp: strcpy_def strcpy_loop_eq)

lemma strncpy_correct:
  assumes "terminated ct" "min n (length (cstr ct)) < length s"
  shows "strncpy s ct n = Inr (take n (cstr ct) @ NUL # drop (Suc (min n (length (cstr ct)))) s)"
proof -
  obtain t rest where t: "ct = t @ NUL # rest" "NUL \<notin> set t" "cstr ct = t" using assms(1) by (rule terminatedE)
  have "take (min n (length t)) t = take n t" by (simp add: min_def)
  with strncpy_loop_copies [of t "min n (length t)" n "[]" s "[]" rest] t assms(2) show ?thesis
    by (simp add: strncpy_def)
qed

lemma strcat_correct:
  assumes "terminated s" "terminated ct" "length (cstr s) + length (cstr ct) < length s"
  shows "strcat s ct = Inr (cstr s @ cstr ct @ NUL # drop (Suc (length (cstr s) + length (cstr ct))) s)"
proof -
  obtain u r where u: "s = u @ NUL # r" "NUL \<notin> set u" "cstr s = u" using assms(1) by (rule terminatedE)
  obtain t rest where t: "ct = t @ NUL # rest" "NUL \<notin> set t" "cstr ct = t" using assms(2) by (rule terminatedE)
  have "strlen_loop s 0 = Inr (length u)" using strlen_loop_stop [of u "[]" r] u by simp
  with strcat_loop_copies [of t "NUL # r" u "[]" rest] t u assms(3) show ?thesis
    by (simp add: strcat_def)
qed

lemma strncat_correct:
  assumes "terminated s" "terminated ct" "length (cstr s) + min n (length (cstr ct)) < length s"
  shows "strncat s ct n =
    Inr (cstr s @ take n (cstr ct) @ NUL # drop (Suc (length (cstr s) + min n (length (cstr ct)))) s)"
proof -
  obtain u r where u: "s = u @ NUL # r" "NUL \<notin> set u" "cstr s = u" using assms(1) by (rule terminatedE)
  obtain t rest where t: "ct = t @ NUL # rest" "NUL \<notin> set t" "cstr ct = t" using assms(2) by (rule terminatedE)
  have "strlen_loop s 0 = Inr (length u)" using strlen_loop_stop [of u "[]" r] u by simp
  moreover have "take (min n (length t)) t = take n t" by (simp add: min_def)
  ultimately show ?thesis
    using strncat_loop_copies [of t "min n (length t)" n "[]" "NUL # r" u rest] t u assms(3)
    by (simp add: strncat_def)
qed

section \<open>Comparing and searching\<close>

lemma schar_inj: "schar a = schar b \<longleftrightarrow> a = b"
proof
  assume eq: "schar a = schar b"
  have "of_char c < (256::nat)" for c by (rule nat_of_char_less_256)
  from this [of a] this [of b] eq have "of_char a = (of_char b :: nat)"
    unfolding schar_def Let_def by (simp only: split: if_splits)
  then show "a = b" by simp
qed simp

text \<open>\<open>strcmp\<close> as a function of the two strings.\<close>

fun str_order :: "string \<Rightarrow> string \<Rightarrow> int" where
  "str_order [] [] = 0"
| "str_order [] (b # bs) = (if 0 < schar b then - 1 else 1)"
| "str_order (a # as) [] = (if schar a < 0 then - 1 else 1)"
| "str_order (a # as) (b # bs) = (if a = b then str_order as bs else if schar a < schar b then - 1 else 1)"

lemma schar_NUL [simp]: "schar NUL = 0"
  by (simp add: schar_def)

lemma strncmp_loop_order:
  "NUL \<notin> set t \<Longrightarrow> NUL \<notin> set u \<Longrightarrow> length a = length b \<Longrightarrow> length b + length t < n \<Longrightarrow>
     strncmp_loop (a @ t @ NUL # r1) (b @ u @ NUL # r2) n (length b) = Inr (str_order t u)"
proof (induction t u arbitrary: a b rule: str_order.induct)
  case (4 x as y bs)
  have g: "cget (a @ (x # as) @ NUL # r1) (length b) = Inr x"
    using "4.prems"(3) cget_append_NUL [of a x "as @ NUL # r1"] by simp
  show ?case
  proof (cases "x = y")
    case True
    with "4.IH" [of "a @ [x]" "b @ [x]"] "4.prems" g show ?thesis
      by (subst strncmp_loop.simps) (auto simp: True)
  next
    case False
    with "4.prems" g show ?thesis by (subst strncmp_loop.simps) auto
  qed
next
  case 1
  with cget_append_NUL [of a NUL r1] show ?case by (subst strncmp_loop.simps) simp
next
  case (2 y bs)
  with cget_append_NUL [of a NUL r1] show ?case by (subst strncmp_loop.simps) auto
next
  case (3 x as)
  with cget_append_NUL [of a x "as @ NUL # r1"] show ?case by (subst strncmp_loop.simps) auto
qed

lemma str_order_0_iff: "NUL \<notin> set t \<Longrightarrow> NUL \<notin> set u \<Longrightarrow> str_order t u = 0 \<longleftrightarrow> t = u"
  by (induction t u rule: str_order.induct) auto

lemma str_order_swap: "NUL \<notin> set t \<Longrightarrow> NUL \<notin> set u \<Longrightarrow> str_order u t = - str_order t u"
proof (induction t u rule: str_order.induct)
  case (2 b bs)
  then have "schar b \<noteq> 0" using schar_inj [of b NUL] by auto
  then show ?case by auto
next
  case (3 a as)
  then have "schar a \<noteq> 0" using schar_inj [of a NUL] by auto
  then show ?case by auto
next
  case (4 a as b bs)
  then show ?case using schar_inj [of a b] by auto
qed simp

lemma strcmp_correct:
  assumes "terminated cs" "terminated ct" "length (cstr cs) < INT_MAX"
  shows "strcmp cs ct = Inr (str_order (cstr cs) (cstr ct))"
proof -
  obtain t r1 where t: "cs = t @ NUL # r1" "NUL \<notin> set t" "cstr cs = t" using assms(1) by (rule terminatedE)
  obtain u r2 where u: "ct = u @ NUL # r2" "NUL \<notin> set u" "cstr ct = u" using assms(2) by (rule terminatedE)
  with t strncmp_loop_order [of t u "[]" "[]" INT_MAX r1 r2] assms(3) show ?thesis
    by (simp add: strcmp_def strncmp_def)
qed


lemma strchr_loop_found:
  "NUL \<notin> set t \<Longrightarrow> c \<noteq> NUL \<Longrightarrow>
     strchr_loop (a @ t @ NUL # rest) c (length a) =
       Inr (if c \<in> set t then Some (length a + length (takeWhile (\<lambda>x. x \<noteq> c) t)) else None)"
proof (induction t arbitrary: a)
  case Nil
  then show ?case by (subst strchr_loop.simps) auto
next
  case (Cons x t)
  from Cons.IH [of "a @ [x]"] Cons.prems show ?case by (subst strchr_loop.simps) auto
qed

lemma strchr_correct:
  assumes "terminated cs" "c \<noteq> NUL"
  shows "strchr cs c = Inr (if c \<in> set (cstr cs) then Some (length (takeWhile (\<lambda>x. x \<noteq> c) (cstr cs))) else None)"
proof -
  obtain t r where t: "cs = t @ NUL # r" "NUL \<notin> set t" "cstr cs = t" using assms(1) by (rule terminatedE)
  with strchr_loop_found [of t c "[]" r] assms(2) show ?thesis by (simp add: strchr_def)
qed

section \<open>Memory\<close>

lemma memcpy_loop_copies:
  "length b = length a \<Longrightarrow> n = length a + length t \<Longrightarrow> length w = length t \<Longrightarrow>
     memcpy_loop (a @ w @ r1) (b @ t @ r2) n (length a) = Inr (a @ t @ r1)"
proof (induction t arbitrary: a b w)
  case Nil
  then show ?case by (subst memcpy_loop.simps) simp
next
  case (Cons c t)
  then obtain x w' where w: "w = x # w'" "length w' = length t" by (cases w) auto
  have "memcpy_loop ((a @ [c]) @ w' @ r1) ((b @ [c]) @ t @ r2) n (length (a @ [c])) = Inr ((a @ [c]) @ t @ r1)"
    by (rule Cons.IH) (use Cons.prems w in auto)
  moreover have "cget (b @ c # t @ r2) (length a) = Inr c"
    using cget_append_NUL [of b c "t @ r2"] Cons.prems(1) by simp
  ultimately show ?case using Cons.prems(2) w(1) by (subst memcpy_loop.simps) simp
qed

lemma memcpy_correct:
  assumes "n \<le> length s" "n \<le> length ct"
  shows "memcpy s ct n = Inr (take n ct @ drop n s)"
  using memcpy_loop_copies [of "[]" "[]" n "take n ct" "take n s" "drop n s" "drop n ct"] assms
  by (simp add: memcpy_def)

text \<open>\<open>memcmp\<close> reads and compares one byte more than asked: equal prefixes at the end of an object fault.\<close>

lemma memcmp_reads_past_end: "length cs = n \<Longrightarrow> memcmp cs cs n = Inl OutOfBounds"
proof -
  assume n: "length cs = n"
  have "memcmp_loop cs cs n i = Inl OutOfBounds" if "i \<le> n" for i
    using that
  proof (induction "n - i" arbitrary: i)
    case 0
    with n show ?case by (subst memcmp_loop.simps) (simp add: cget_def)
  next
    case (Suc d)
    then have "memcmp_loop cs cs n (Suc i) = Inl OutOfBounds" by simp
    with Suc n show ?case by (subst memcmp_loop.simps) (simp add: cget_def)
  qed
  then show ?thesis by (simp add: memcmp_def)
qed

section \<open>Reversing in place\<close>

lemma reverse_loop_fills:
  "k \<le> length t \<Longrightarrow> length q = Suc k \<Longrightarrow>
     reverse_loop (t @ rest) k (length p) (p @ q) = Inr (p @ rev (take k t) @ [NUL])"
proof (induction k arbitrary: p q)
  case 0
  then obtain x where "q = [x]" by (cases q) auto
  then show ?case by simp
next
  case (Suc k)
  then obtain x q' where q: "q = x # q'" "length q' = Suc k" by (cases q) auto
  have "reverse_loop (t @ rest) k (length (p @ [t ! k])) ((p @ [t ! k]) @ q') =
      Inr ((p @ [t ! k]) @ rev (take k t) @ [NUL])"
    by (rule Suc.IH) (use Suc.prems q in auto)
  moreover have "cget (t @ rest) k = Inr (t ! k)" using Suc.prems(1) by (simp add: cget_def nth_append)
  ultimately show ?case using Suc.prems(1) q by (simp add: take_Suc_conv_app_nth)
qed

lemma reverse_correct:
  assumes "terminated s"
  shows "reverse s = Inr (rev (cstr s) @ drop (length (cstr s)) s)"
proof -
  obtain t r where t: "s = t @ NUL # r" "NUL \<notin> set t" "cstr s = t" using assms by (rule terminatedE)
  have "reverse_loop s (length t) 0 (replicate (length t + 1) NUL) = Inr (rev t @ [NUL])"
    using reverse_loop_fills [of "length t" t "replicate (length t + 1) NUL" "NUL # r" "[]"] t(1) by simp
  moreover have "strcpy s (rev t @ [NUL]) = Inr (rev t @ NUL # r)"
    using strcpy_correct [of "rev t @ [NUL]" s] t by simp
  ultimately show ?thesis using t strlen_correct [OF assms] by (simp add: reverse_def)
qed

section \<open>Properties\<close>

text \<open>
  The string operations on terminated strings with enough room: \<open>strcpy\<close>, \<open>strncpy\<close>, \<open>strcat\<close> and
  \<open>strncat\<close> leave a terminated string with the copied or appended characters and do not touch the rest
  of the target, \<open>reverse\<close> reverses in place.
\<close>

theorem string_copies_correct:
  assumes "terminated s" "terminated ct"
  shows "(length (cstr ct) < length s \<longrightarrow>
       strcpy s ct = Inr (cstr ct @ NUL # drop (Suc (length (cstr ct))) s)) \<and>
     (min n (length (cstr ct)) < length s \<longrightarrow>
       strncpy s ct n = Inr (take n (cstr ct) @ NUL # drop (Suc (min n (length (cstr ct)))) s)) \<and>
     (length (cstr s) + length (cstr ct) < length s \<longrightarrow>
       strcat s ct = Inr (cstr s @ cstr ct @ NUL # drop (Suc (length (cstr s) + length (cstr ct))) s)) \<and>
     (length (cstr s) + min n (length (cstr ct)) < length s \<longrightarrow>
       strncat s ct n = Inr (cstr s @ take n (cstr ct) @ NUL #
         drop (Suc (length (cstr s) + min n (length (cstr ct)))) s)) \<and>
     reverse s = Inr (rev (cstr s) @ drop (length (cstr s)) s)"
  using assms by (auto intro: strcpy_correct strncpy_correct strcat_correct strncat_correct reverse_correct)

theorem string_copies_correct_witness:
  "strcat (''ab'' @ NUL # ''xyz'') (''c'' @ [NUL]) = Inr (''abc'' @ NUL # ''yz'')"
  using string_copies_correct [of "''ab'' @ NUL # ''xyz''" "''c'' @ [NUL]" 0]
  by (simp add: cstr_def terminated_def)

text \<open>
  \<open>strcmp\<close> is a total order on terminated strings: it returns a value that depends on the two
  strings only, zero exactly when they are equal, and changes its sign when they are swapped.
\<close>

theorem strcmp_order:
  assumes "terminated cs" "terminated ct" "length (cstr cs) < INT_MAX" "length (cstr ct) < INT_MAX"
  shows "\<exists>r. strcmp cs ct = Inr r \<and> strcmp ct cs = Inr (- r) \<and> r \<in> {- 1, 0, 1} \<and> (r = 0 \<longleftrightarrow> cstr cs = cstr ct)"
proof -
  have nul: "NUL \<notin> set (cstr cs)" "NUL \<notin> set (cstr ct)"
    by (auto simp: cstr_def dest: set_takeWhileD)
  have "str_order t u \<in> {- 1, 0, 1}" for t u by (induction t u rule: str_order.induct) auto
  from this [of "cstr cs" "cstr ct"] strcmp_correct [OF assms(1,2,3)] strcmp_correct [OF assms(2,1,4)] nul
    str_order_0_iff [OF nul] str_order_swap [OF nul] show ?thesis by simp
qed

theorem strcmp_order_witness:
  "\<exists>r. strcmp (''ls'' @ [NUL]) (''man'' @ [NUL]) = Inr r \<and> r \<noteq> 0"
  using strcmp_order [of "''ls'' @ [NUL]" "''man'' @ [NUL]"]
  by (auto simp: cstr_def terminated_def INT_MAX_def)

end
