(* ===== verification/Kernel_State.thy ===== *)
theory Kernel_State
  imports Scheduler Pagination C_String
begin

text \<open>
  The state the process and file code of the kernel shares: the scheduler's state, extended with the
  process table, the open inodes, the FIFOs and the terminals' wait lists, and the memory below it
  (\<open>kmem\<close>). Objects from \<open>kalloc\<close> are numbered in the order of allocation; \<open>pm_kalloc\<close> of \<open>kmem\<close> is
  the number of objects \<open>kalloc\<close> can still provide. \<open>now\<close> is what \<open>_time\<close> returns.

  \<open>scheduler_do\<close> gives up the processor and returns when the process runs again. An operation that
  calls it has an argument \<open>sw\<close>, the change the rest of the system makes to the state in between.
\<close>

unbundle bit_operations_syntax

section \<open>Definitions\<close>

record ext2_Inode =
  typesAndPermissions :: nat
  i_uid :: nat
  i_size :: nat
  i_lastAccess :: u32
  i_creationTime :: u32
  i_lastModification :: u32
  i_deletionTime :: u32
  i_gid :: nat
  i_hardLinks :: nat
  i_countDiskSectors :: nat
  i_flags :: nat
  i_operatingSystemValue :: nat
  i_directBlockPointers :: "nat list"
  i_singlyIndirectBlockPointer :: nat
  i_doublyIndirectBlockPointer :: nat
  i_triplyIndirectBlockPointer :: nat
  i_generationNumber :: nat
  i_reserved1 :: nat
  i_reserved2 :: nat
  i_blockAddressOfFragment :: nat
  i_operatingSystemValue2 :: "nat list"

definition INODE_TYPE :: "ext2_Inode \<Rightarrow> nat" where
  "INODE_TYPE d = drop_bit 12 (typesAndPermissions d AND 0xF000)"

definition INODE_PERMISSIONS :: "ext2_Inode \<Rightarrow> nat" where
  "INODE_PERMISSIONS d = typesAndPermissions d AND 0x0FFF"

definition INODE_FIFO :: nat where "INODE_FIFO = 1"
definition INODE_CHARDEV :: nat where "INODE_CHARDEV = 2"
definition INODE_DIR :: nat where "INODE_DIR = 4"
definition INODE_FILE :: nat where "INODE_FILE = 8"
definition INODE_LINK :: nat where "INODE_LINK = 10"

record fs_Inode =
  in_number :: nat
  in_data :: ext2_Inode
  in_refCount :: u32
  in_extra :: ptr

record FIFO =
  f_readers :: u32
  f_writers :: u32
  f_readWait :: "queue_entry list"
  f_writeWait :: "queue_entry list"
  f_buffer :: "string option"
  f_used :: nat
  f_size :: nat

text \<open>
  An entry of \<open>opsTable\<close>: which of the \<open>struct FileDescriptorOps\<close> of the sources is registered there;
  \<open>NoOps\<close> is the zero-initialised one, all of whose functions are \<open>NULL\<close>.
\<close>

datatype FileDescriptorOps = NoOps | FifoOps | TtyOps | DirOps | FileOps

record kernel = sched +
  processTable :: "ptr list"
  freeStructures :: ptr
  proc_brk :: nat
  last_pid :: int
  now :: u32
  inodes :: "nat \<Rightarrow> fs_Inode"
  inodeTable :: "ptr list"
  opsTable :: "FileDescriptorOps list"
  fifos :: "nat \<Rightarrow> FIFO"
  fifo_brk :: nat
  term_wait :: "ptr list list"
  ram :: "nat \<Rightarrow> u8"
  ticksSinceStart :: u32
  tickCounter :: int
  kmem :: mm_state

text \<open>\<open>kalloc\<close>: whether an object can be provided, and the count afterwards.\<close>

definition kalloc_object :: "'z kernel_scheme \<Rightarrow> bool \<times> 'z kernel_scheme" where
  "kalloc_object k =
     (if pm_kalloc (kmem k) = 0 then (False, k)
      else (True, k\<lparr>kmem := (kmem k)\<lparr>pm_kalloc := pm_kalloc (kmem k) - 1\<rparr>\<rparr>))"

definition kfree_object :: "'z kernel_scheme \<Rightarrow> 'z kernel_scheme" where
  "kfree_object k = k\<lparr>kmem := (kmem k)\<lparr>pm_kalloc := Suc (pm_kalloc (kmem k))\<rparr>\<rparr>"

definition upd_p :: "nat \<Rightarrow> (Process \<Rightarrow> Process) \<Rightarrow> 'z kernel_scheme \<Rightarrow> 'z kernel_scheme" where
  "upd_p a f k = k\<lparr>procs := upd_proc a f (procs k)\<rparr>"

definition upd_s :: "nat \<Rightarrow> (ProcessSchedule \<Rightarrow> ProcessSchedule) \<Rightarrow> 'z kernel_scheme \<Rightarrow> 'z kernel_scheme" where
  "upd_s a f k = k\<lparr>procs := upd_sched a f (procs k)\<rparr>"

text \<open>\<open>process_table_block\<close> and \<open>process_table_unblock\<close> of \<open>src/system/process/table.c\<close>.\<close>

definition process_table_block :: "nat \<Rightarrow> 'z kernel_scheme \<Rightarrow> 'z kernel_scheme" where
  "process_table_block p k = scheduler_block p (upd_s p (\<lambda>s. s\<lparr>status := StatusBlocked\<rparr>) k)"

definition process_table_unblock :: "nat \<Rightarrow> 'z kernel_scheme \<Rightarrow> 'z kernel_scheme" where
  "process_table_unblock p k = scheduler_unblock p (upd_s p (\<lambda>s. s\<lparr>status := StatusReady\<rparr>) k)"

section \<open>What an update leaves alone\<close>

lemmas kernel_upd_defs = upd_p_def upd_s_def process_table_block_def process_table_unblock_def
  scheduler_block_def scheduler_unblock_def

lemma upd_p_simps [simp]:
  "procs (upd_p a f k) = upd_proc a f (procs k)"
  "scheduler_queue (upd_p a f k) = scheduler_queue k" "scheduler_curr (upd_p a f k) = scheduler_curr k"
  "kmem (upd_p a f k) = kmem k" "fifos (upd_p a f k) = fifos k" "inodes (upd_p a f k) = inodes k"
  "processTable (upd_p a f k) = processTable k" "last_pid (upd_p a f k) = last_pid k"
  "ram (upd_p a f k) = ram k" "term_wait (upd_p a f k) = term_wait k"
  by (simp_all add: upd_p_def)

lemma upd_s_simps [simp]:
  "procs (upd_s a g k) = upd_sched a g (procs k)"
  "scheduler_queue (upd_s a g k) = scheduler_queue k" "scheduler_curr (upd_s a g k) = scheduler_curr k"
  "kmem (upd_s a g k) = kmem k" "fifos (upd_s a g k) = fifos k" "inodes (upd_s a g k) = inodes k"
  "processTable (upd_s a g k) = processTable k" "last_pid (upd_s a g k) = last_pid k"
  "ram (upd_s a g k) = ram k" "term_wait (upd_s a g k) = term_wait k"
  by (simp_all add: upd_s_def)

lemma process_table_block_simps [simp]:
  "procs (process_table_block p k) = upd_sched p (\<lambda>s. s\<lparr>status := StatusBlocked\<rparr>) (procs k)"
  "scheduler_queue (process_table_block p k) = queue_remove (pid_of (procs k)) (scheduler_queue k) p"
  "scheduler_curr (process_table_block p k) = scheduler_curr k"
  "kmem (process_table_block p k) = kmem k" "fifos (process_table_block p k) = fifos k"
  "inodes (process_table_block p k) = inodes k" "processTable (process_table_block p k) = processTable k"
  "last_pid (process_table_block p k) = last_pid k" "term_wait (process_table_block p k) = term_wait k"
  by (simp_all add: kernel_upd_defs pid_of_upd_sched del: upd_sched_apply)

lemma process_table_unblock_simps [simp]:
  "procs (process_table_unblock p k) = upd_sched p (\<lambda>s. s\<lparr>status := StatusReady\<rparr>) (procs k)"
  "scheduler_queue (process_table_unblock p k) =
     (if is_done (p_schedule (procs k p)) then scheduler_queue k else queue_push (scheduler_queue k) p)"
  "scheduler_curr (process_table_unblock p k) = scheduler_curr k"
  "kmem (process_table_unblock p k) = kmem k" "fifos (process_table_unblock p k) = fifos k"
  "inodes (process_table_unblock p k) = inodes k" "processTable (process_table_unblock p k) = processTable k"
  "last_pid (process_table_unblock p k) = last_pid k" "term_wait (process_table_unblock p k) = term_wait k"
  by (simp_all add: kernel_upd_defs)

section \<open>A small machine\<close>

text \<open>
  Process 0 runs, no process waits, and one page is free: an instance for the examples of the theories
  that follow.
\<close>

definition zero_inode :: ext2_Inode where
  "zero_inode = \<lparr>typesAndPermissions = 0, i_uid = 0, i_size = 0, i_lastAccess = 0, i_creationTime = 0,
     i_lastModification = 0, i_deletionTime = 0, i_gid = 0, i_hardLinks = 0, i_countDiskSectors = 0,
     i_flags = 0, i_operatingSystemValue = 0, i_directBlockPointers = replicate 12 0, i_singlyIndirectBlockPointer = 0,
     i_doublyIndirectBlockPointer = 0, i_triplyIndirectBlockPointer = 0,
     i_generationNumber = 0, i_reserved1 = 0, i_reserved2 = 0, i_blockAddressOfFragment = 0, i_operatingSystemValue2 = replicate 3 0\<rparr>"

definition zero_fifo :: FIFO where
  "zero_fifo = \<lparr>f_readers = 1, f_writers = 1, f_readWait = [], f_writeWait = [],
     f_buffer = Some [NUL, NUL, NUL, NUL], f_used = 0, f_size = 4\<rparr>"

definition small_kernel :: kernel where
  "small_kernel = \<lparr>procs = (\<lambda>a. zero_process\<lparr>p_pid := int a + 1, p_args := replicate 256 NUL,
       p_fdTable := replicate 10 \<lparr>fd_inode = None, fd_flags = 0, fd_offset = 0, fd_ops = 0\<rparr>\<rparr>),
     scheduler_queue = [(0, 1)], scheduler_curr = Some 0,
     scheduler_sleep_list = sleep_list_init 8, cycles = 0, prev_cycles = 0, curr_cycles = 0, ts_esp0 = 0,
     processTable = Some 0 # replicate 63 None, freeStructures = None, proc_brk = 1, last_pid = 1, now = 0,
     inodes = (\<lambda>i. \<lparr>in_number = i, in_data = zero_inode, in_refCount = 1, in_extra = Some 0\<rparr>),
     inodeTable = replicate 50 None, opsTable = replicate 16 NoOps, fifos = (\<lambda>a. zero_fifo), fifo_brk = 0,
     term_wait = replicate 5 (replicate 30 None), ram = (\<lambda>a. 0), ticksSinceStart = 0, tickCounter = 0,
     kmem = paging_example\<rparr>"

end
