(* ===== verification/Byte_Channel.thy ===== *)
theory Byte_Channel
  imports C_String
begin

text \<open>
  The contract of a buffered byte channel, which the FIFOs (\<open>src/system/fifo.c\<close>) and the keyboard
  buffer (\<open>src/drivers/tty/input.c\<close>) provide: \<open>put\<close> appends a prefix of the bytes it is given, \<open>get\<close>
  takes some of the oldest bytes away. Each call is one atomic step of the kernel; between two of them
  the rest of the system may change the state in any way that leaves the buffered bytes alone. The two
  drivers remove what was read with the same loop, which stands here too.
\<close>

section \<open>Definitions\<close>

datatype 's channel_op = Put string | Get nat | Other "'s \<Rightarrow> 's"

text \<open>The bytes accepted and the bytes delivered by a sequence of steps.\<close>

fun channel_run ::
  "(string \<Rightarrow> 's \<Rightarrow> (nat \<times> 's) result) \<Rightarrow> (nat \<Rightarrow> 's \<Rightarrow> (string \<times> 's) result) \<Rightarrow>
     's channel_op list \<Rightarrow> 's \<Rightarrow> (string \<times> string \<times> 's) result" where
  "channel_run put get [] s = Inr ([], [], s)"
| "channel_run put get (Put xs # ops) s =
     rbind (put xs s) (\<lambda>(n, s1).
       rbind (channel_run put get ops s1) (\<lambda>(wr, rd, s2). Inr (take n xs @ wr, rd, s2)))"
| "channel_run put get (Get n # ops) s =
     rbind (get n s) (\<lambda>(ys, s1).
       rbind (channel_run put get ops s1) (\<lambda>(wr, rd, s2). Inr (wr, ys @ rd, s2)))"
| "channel_run put get (Other f # ops) s = channel_run put get ops (f s)"

fun others :: "'s channel_op list \<Rightarrow> ('s \<Rightarrow> 's) list" where
  "others [] = []"
| "others (Other f # ops) = f # others ops"
| "others (_ # ops) = others ops"

text \<open>The loop that moves \<open>buf[i], ..., buf[used - 1]\<close> down by \<open>off\<close> places.\<close>

function shift_down :: "nat \<Rightarrow> nat \<Rightarrow> nat \<Rightarrow> string \<Rightarrow> string result" where
  "shift_down off used i buf =
     (if i < used
      then rbind (cget buf i) (\<lambda>c. rbind (cput buf (i - off) c) (shift_down off used (Suc i)))
      else Inr buf)"
  by pat_completeness auto
termination by (relation "measure (\<lambda>(off, used, i, buf). used - i)") auto

declare shift_down.simps [simp del]

section \<open>The contract\<close>

locale byte_channel =
  fixes put :: "string \<Rightarrow> 's \<Rightarrow> (nat \<times> 's) result"
    and get :: "nat \<Rightarrow> 's \<Rightarrow> (string \<times> 's) result"
    and content :: "'s \<Rightarrow> string"
    and invar :: "'s \<Rightarrow> bool"
  assumes put_appends: "invar s \<Longrightarrow> put xs s = Inr (n, s') \<Longrightarrow>
      invar s' \<and> n \<le> length xs \<and> content s' = content s @ take n xs"
    and get_takes: "invar s \<Longrightarrow> get n s = Inr (ys, s') \<Longrightarrow>
      invar s' \<and> length ys \<le> n \<and> content s = ys @ content s'"
begin

text \<open>No byte is lost, invented, duplicated or overtaken, whatever the interleaving.\<close>

lemma run_in_order:
  "channel_run put get ops s = Inr (wr, rd, s') \<Longrightarrow> invar s \<Longrightarrow>
   (\<forall>f \<in> set (others ops). \<forall>s. invar s \<longrightarrow> invar (f s) \<and> content (f s) = content s) \<Longrightarrow>
   invar s' \<and> content s @ wr = rd @ content s'"
proof (induction ops arbitrary: s wr rd)
  case (Cons op ops)
  show ?case
  proof (cases op)
    case (Put xs)
    with Cons.prems(1) obtain n s1 wr1 where *: "put xs s = Inr (n, s1)"
      "channel_run put get ops s1 = Inr (wr1, rd, s')" "wr = take n xs @ wr1"
      by (auto elim!: rbind_InrE)
    with put_appends [OF Cons.prems(2) *(1)] Cons.IH [OF *(2)] Cons.prems(3) Put show ?thesis by simp
  next
    case (Get n)
    with Cons.prems(1) obtain ys s1 rd1 where *: "get n s = Inr (ys, s1)"
      "channel_run put get ops s1 = Inr (wr, rd1, s')" "rd = ys @ rd1"
      by (auto elim!: rbind_InrE)
    with get_takes [OF Cons.prems(2) *(1)] Cons.IH [OF *(2)] Cons.prems(3) Get show ?thesis by simp
  next
    case (Other f)
    with Cons.IH [of "f s" wr rd] Cons.prems show ?thesis by simp
  qed
qed simp

end

section \<open>The copying loops\<close>

lemma memcpy_loop_Inr:
  "memcpy_loop s ct n i = Inr r \<Longrightarrow> i < n \<Longrightarrow> n \<le> length s \<and> n \<le> length ct"
proof (induction s ct n i arbitrary: r rule: memcpy_loop.induct)
  case (1 s ct n i)
  from 1(2,3) obtain c s' where *: "cget ct i = Inr c" "cput s i c = Inr s'" "memcpy_loop s' ct n (Suc i) = Inr r"
    by (subst (asm) memcpy_loop.simps) (auto elim!: rbind_InrE)
  then have "i < length ct" "i < length s" "length s' = length s"
    by (auto simp: cget_def cput_def split: if_splits)
  with 1(1) [OF 1(3) *(1,2) *(3)] 1(3) show ?case by (cases "Suc i < n") auto
qed

lemma memcpy_eq_Inr_iff:
  "memcpy s ct n = Inr r \<longleftrightarrow> n \<le> length s \<and> n \<le> length ct \<and> r = take n ct @ drop n s"
proof (cases "n = 0")
  case True
  then show ?thesis by (auto simp: memcpy_def memcpy_loop.simps [of _ _ 0])
next
  case False
  then show ?thesis using memcpy_loop_Inr [of s ct n 0 r] memcpy_correct [of n s ct] by (auto simp: memcpy_def)
qed

lemma shift_down_moves:
  "length w = off \<Longrightarrow> used = off + length a + length t \<Longrightarrow>
     shift_down off used (off + length a) (a @ w @ t @ rest) = Inr (a @ t @ drop (length t) (w @ t) @ rest)"
proof (induction t arbitrary: a w)
  case Nil
  then show ?case by (subst shift_down.simps) simp
next
  case (Cons c t)
  show ?case
  proof (cases w)
    case Nil
    with Cons.prems(1) have off: "off = 0" by simp
    have "shift_down off used (off + length (a @ [c])) ((a @ [c]) @ [] @ t @ rest) =
      Inr ((a @ [c]) @ t @ drop (length t) ([] @ t) @ rest)"
      by (rule Cons.IH) (use off Cons.prems(2) in auto)
    with Nil off Cons.prems(2) show ?thesis
      by (subst shift_down.simps) (simp add: cget_def cput_def list_update_append nth_append)
  next
    case (Cons x w')
    have "shift_down off used (off + length (a @ [c])) ((a @ [c]) @ (w' @ [c]) @ t @ rest) =
      Inr ((a @ [c]) @ t @ drop (length t) ((w' @ [c]) @ t) @ rest)"
      by (rule Cons.IH) (use Cons Cons.prems in auto)
    moreover have "cget (a @ w @ (c # t) @ rest) (off + length a) = Inr c"
      using Cons.prems(1) by (simp add: cget_def nth_append)
    moreover have "cput (a @ w @ (c # t) @ rest) (off + length a - off) c = Inr (a @ (c # w') @ (c # t) @ rest)"
      using Cons by (simp add: cput_def list_update_append)
    ultimately show ?thesis using Cons Cons.prems(2) by (subst shift_down.simps) simp
  qed
qed

lemma shift_down_correct:
  assumes "off \<le> used" "used \<le> length buf" "shift_down off used off buf = Inr buf'"
  shows "length buf' = length buf \<and> take (used - off) buf' = drop off (take used buf)"
proof -
  have "buf = [] @ take off buf @ drop off (take used buf) @ drop used buf"
    using assms(1,2) by (metis append_Nil append_assoc append_take_drop_id take_take min.absorb1)
  then have "shift_down off used off buf = Inr (drop off (take used buf) @
      drop (used - off) (take off buf @ drop off (take used buf)) @ drop used buf)"
    using shift_down_moves [of "take off buf" off used "[]" "drop off (take used buf)" "drop used buf"] assms(1,2)
    by simp
  with assms show ?thesis by auto
qed

end
