(* ===== verification/Fifo.thy ===== *)
theory Fifo
  imports Kernel_State Byte_Channel
begin

text \<open>
  \<open>src/system/fifo.c\<close>: named pipes. The state of a FIFO hangs off the \<open>extra\<close> pointer of its open
  inode. The two waiting loops may never end: they are partial functions whose value \<open>None\<close> means that
  the caller never comes back. \<open>fifo_put\<close> and \<open>fifo_get\<close> are the parts of \<open>fifo_write\<close> and
  \<open>fifo_read\<close> after the loop.
\<close>

unbundle bit_operations_syntax

section \<open>Definitions\<close>

definition FIFO_BUFFER_SIZE :: nat where "FIFO_BUFFER_SIZE = 1024"

definition O_RDONLY :: int where "O_RDONLY = 0"
definition O_WRONLY :: int where "O_WRONLY = 1"
definition O_RDWR :: int where "O_RDWR = 2"

datatype fifo_end = ReadWait | WriteWait

definition upd_fifo :: "nat \<Rightarrow> (FIFO \<Rightarrow> FIFO) \<Rightarrow> 'z kernel_scheme \<Rightarrow> 'z kernel_scheme" where
  "upd_fifo a g k = k\<lparr>fifos := (fifos k)(a := g (fifos k a))\<rparr>"

fun wait_queue :: "fifo_end \<Rightarrow> FIFO \<Rightarrow> queue_entry list" where
  "wait_queue ReadWait f = f_readWait f"
| "wait_queue WriteWait f = f_writeWait f"

fun set_wait_queue :: "fifo_end \<Rightarrow> queue_entry list \<Rightarrow> FIFO \<Rightarrow> FIFO" where
  "set_wait_queue ReadWait q f = f\<lparr>f_readWait := q\<rparr>"
| "set_wait_queue WriteWait q f = f\<lparr>f_writeWait := q\<rparr>"

lemma queue_pop_length: "(Some p, q') = queue_pop q \<Longrightarrow> length q = Suc (length q')"
  by (cases q) auto

text \<open>\<open>wake_all\<close> pops until the queue is empty; unblocking a process changes no queue of a FIFO.\<close>

function wake_queue :: "queue_entry list \<Rightarrow> 'z kernel_scheme \<Rightarrow> 'z kernel_scheme" where
  "wake_queue q k =
     (case queue_pop q of
        (None, q1) \<Rightarrow> k
      | (Some p, q1) \<Rightarrow> wake_queue q1 (process_table_unblock p k))"
  by pat_completeness auto
termination
  by (relation "measure (\<lambda>(q, k). length q)") (auto dest: queue_pop_length)

declare wake_queue.simps [simp del]

definition wake_all :: "fifo_end \<Rightarrow> nat \<Rightarrow> 'z kernel_scheme \<Rightarrow> 'z kernel_scheme" where
  "wake_all e a k =
     wake_queue (wait_queue e (fifos k a)) (upd_fifo a (set_wait_queue e []) k)"

text \<open>\<open>wait\<close>, for the current process.\<close>

definition fifo_wait :: "('z kernel_scheme \<Rightarrow> 'z kernel_scheme) \<Rightarrow> fifo_end \<Rightarrow> nat \<Rightarrow>
    'z kernel_scheme \<Rightarrow> 'z kernel_scheme result" where
  "fifo_wait sw e a k =
     (case scheduler_current k of
        None \<Rightarrow> Inl NullDeref
      | Some p \<Rightarrow>
          Inr (sw (process_table_block p (upd_s p (\<lambda>s. s\<lparr>ioWait := True\<rparr>)
            (upd_fifo a (\<lambda>f. set_wait_queue e (queue_push (wait_queue e f) p) f) k)))))"

definition new_fifo :: "nat \<Rightarrow> 'z kernel_scheme \<Rightarrow> (nat \<times> 'z kernel_scheme) result" where
  "new_fifo inode k =
     (case kalloc_object k of
        (False, k1) \<Rightarrow> Inl NullDeref
      | (True, k1) \<Rightarrow>
          (case kalloc_object k1 of (got, k2) \<Rightarrow>
             (let a = fifo_brk k2;
                  f = \<lparr>f_readers = 0, f_writers = 0, f_readWait = [], f_writeWait = [],
                       f_buffer = (if got then Some (replicate FIFO_BUFFER_SIZE NUL) else None),
                       f_used = 0, f_size = FIFO_BUFFER_SIZE\<rparr>
              in Inr (a, k2\<lparr>fifos := (fifos k2)(a := f), fifo_brk := Suc a,
                      inodes := (inodes k2)(inode := (inodes k2 inode)\<lparr>in_extra := Some a\<rparr>)\<rparr>))))"

text \<open>The part of \<open>fifo_open\<close> that counts the new end, and waits for the other one.\<close>

definition fifo_attach :: "('z kernel_scheme \<Rightarrow> 'z kernel_scheme) \<Rightarrow> int \<Rightarrow> nat \<Rightarrow>
    'z kernel_scheme \<Rightarrow> 'z kernel_scheme result" where
  "fifo_attach sw modeFlags a k =
     (if modeFlags = O_RDONLY
      then (let k1 = upd_fifo a (\<lambda>f. f\<lparr>f_readers := f_readers f + 1\<rparr>) k
            in if f_writers (fifos k1 a) = 0 then fifo_wait sw ReadWait a k1 else Inr k1)
      else if modeFlags = O_WRONLY
      then (let k1 = upd_fifo a (\<lambda>f. f\<lparr>f_writers := f_writers f + 1\<rparr>) k
            in if f_readers (fifos k1 a) = 0 then fifo_wait sw WriteWait a k1 else Inr k1)
      else Inr (upd_fifo a (\<lambda>f. f\<lparr>f_readers := f_readers f + 1, f_writers := f_writers f + 1\<rparr>) k))"

definition fifo_open :: "('z kernel_scheme \<Rightarrow> 'z kernel_scheme) \<Rightarrow> FileDescriptor \<Rightarrow>
    'z kernel_scheme \<Rightarrow> 'z kernel_scheme result" where
  "fifo_open sw fd k =
     (case fd_inode fd of
        None \<Rightarrow> Inl NullDeref
      | Some i \<Rightarrow>
          rbind (case in_extra (inodes k i) of Some a \<Rightarrow> Inr (a, k) | None \<Rightarrow> new_fifo i k) (\<lambda>(a, k1).
          rbind (fifo_attach sw (fd_flags fd AND 3) a k1) (\<lambda>k2.
            Inr (wake_all ReadWait a (wake_all WriteWait a k2)))))"

text \<open>The space left, a \<open>size_t\<close>.\<close>

definition fifo_room :: "FIFO \<Rightarrow> nat" where
  "fifo_room f = nat (un32 (int (f_size f) - int (f_used f)))"

text \<open>The waiting loop of \<open>fifo_write\<close>: whether the space is there, or no reader is left.\<close>

partial_function (option) fifo_write_loop ::
  "('z kernel_scheme \<Rightarrow> 'z kernel_scheme) \<Rightarrow> nat \<Rightarrow> nat \<Rightarrow> 'z kernel_scheme \<Rightarrow>
     (bool \<times> 'z kernel_scheme) result option" where
  "fifo_write_loop sw a len k =
     (if fifo_room (fifos k a) < len
      then if f_readers (fifos k a) = 0 then Some (Inr (False, k))
           else (case fifo_wait sw WriteWait a k of
                   Inl e \<Rightarrow> Some (Inl e)
                 | Inr k1 \<Rightarrow> fifo_write_loop sw a len k1)
      else Some (Inr (True, k)))"

definition clear_ioWait :: "'z kernel_scheme \<Rightarrow> 'z kernel_scheme result" where
  "clear_ioWait k =
     (case scheduler_current k of
        None \<Rightarrow> Inl NullDeref
      | Some p \<Rightarrow> Inr (upd_s p (\<lambda>s. s\<lparr>ioWait := False\<rparr>) k))"

definition fifo_put :: "nat \<Rightarrow> string \<Rightarrow> nat \<Rightarrow> 'z kernel_scheme \<Rightarrow> (nat \<times> 'z kernel_scheme) result" where
  "fifo_put a src len k =
     rbind (clear_ioWait k) (\<lambda>k1.
       let f = fifos k1 a
       in if f_readers f = 0 then Inr (0, k1)
          else (case f_buffer f of
                  None \<Rightarrow> Inl NullDeref
                | Some b \<Rightarrow>
                    rbind (memcpy (drop (f_used f) b) src len) (\<lambda>b'.
                      Inr (len, wake_all ReadWait a (upd_fifo a (\<lambda>f.
                        f\<lparr>f_buffer := Some (take (f_used f) b @ b'), f_used := f_used f + len\<rparr>) k1)))))"

definition fifo_of :: "FileDescriptor \<Rightarrow> 'z kernel_scheme \<Rightarrow> nat result" where
  "fifo_of fd k =
     (case fd_inode fd of
        None \<Rightarrow> Inl NullDeref
      | Some i \<Rightarrow> (case in_extra (inodes k i) of None \<Rightarrow> Inl NullDeref | Some a \<Rightarrow> Inr a))"

definition fifo_write :: "('z kernel_scheme \<Rightarrow> 'z kernel_scheme) \<Rightarrow> FileDescriptor \<Rightarrow> string \<Rightarrow> nat \<Rightarrow>
    'z kernel_scheme \<Rightarrow> (nat \<times> 'z kernel_scheme) result option" where
  "fifo_write sw fd src len k =
     (case fifo_of fd k of
        Inl e \<Rightarrow> Some (Inl e)
      | Inr a \<Rightarrow>
          (case fifo_write_loop sw a len k of
             None \<Rightarrow> None
           | Some r \<Rightarrow> Some (rbind r (\<lambda>(room, k1).
               if room then fifo_put a src len k1
               else rbind (clear_ioWait k1) (\<lambda>k2. Inr (0, k2))))))"

partial_function (option) fifo_read_loop ::
  "('z kernel_scheme \<Rightarrow> 'z kernel_scheme) \<Rightarrow> nat \<Rightarrow> 'z kernel_scheme \<Rightarrow>
     (bool \<times> 'z kernel_scheme) result option" where
  "fifo_read_loop sw a k =
     (if f_used (fifos k a) = 0
      then if f_writers (fifos k a) = 0 then Some (Inr (False, k))
           else (case fifo_wait sw ReadWait a k of
                   Inl e \<Rightarrow> Some (Inl e)
                 | Inr k1 \<Rightarrow> fifo_read_loop sw a k1)
      else Some (Inr (True, k)))"

text \<open>The end of \<open>fifo_read\<close>: the number of bytes, the caller's buffer \<open>dst\<close> and the state.\<close>

definition fifo_get :: "nat \<Rightarrow> string \<Rightarrow> nat \<Rightarrow> 'z kernel_scheme \<Rightarrow> (nat \<times> string \<times> 'z kernel_scheme) result" where
  "fifo_get a dst len k =
     rbind (clear_ioWait k) (\<lambda>k1.
       let f = fifos k1 a
       in if f_writers f = 0 then Inr (0, dst, k1)
          else (let length = (if len > f_used f then f_used f else len)
                in case f_buffer f of
                     None \<Rightarrow> Inl NullDeref
                   | Some b \<Rightarrow>
                       rbind (memcpy dst b length) (\<lambda>dst'.
                       rbind (shift_down length (f_used f) length b) (\<lambda>b'.
                         Inr (length, dst', wake_all WriteWait a (upd_fifo a (\<lambda>f.
                           f\<lparr>f_buffer := Some b', f_used := f_used f - length\<rparr>) k1))))))"

definition fifo_read :: "('z kernel_scheme \<Rightarrow> 'z kernel_scheme) \<Rightarrow> FileDescriptor \<Rightarrow> string \<Rightarrow> nat \<Rightarrow>
    'z kernel_scheme \<Rightarrow> (nat \<times> string \<times> 'z kernel_scheme) result option" where
  "fifo_read sw fd dst len k =
     (case fifo_of fd k of
        Inl e \<Rightarrow> Some (Inl e)
      | Inr a \<Rightarrow>
          (case fifo_read_loop sw a k of
             None \<Rightarrow> None
           | Some r \<Rightarrow> Some (rbind r (\<lambda>(some, k1).
               if some then fifo_get a dst len k1
               else rbind (clear_ioWait k1) (\<lambda>k2. Inr (0, dst, k2))))))"

definition fifo_close :: "FileDescriptor \<Rightarrow> 'z kernel_scheme \<Rightarrow> (int \<times> 'z kernel_scheme) result" where
  "fifo_close fd k =
     (case fd_inode fd of
        None \<Rightarrow> Inl NullDeref
      | Some i \<Rightarrow>
          (case in_extra (inodes k i) of
             None \<Rightarrow> Inr (0, k)
           | Some a \<Rightarrow>
               (let modeFlags = fd_flags fd AND 3;
                    k1 = (if modeFlags = O_RDONLY then upd_fifo a (\<lambda>f. f\<lparr>f_readers := f_readers f - 1\<rparr>) k
                          else if modeFlags = O_WRONLY then upd_fifo a (\<lambda>f. f\<lparr>f_writers := f_writers f - 1\<rparr>) k
                          else upd_fifo a (\<lambda>f. f\<lparr>f_readers := f_readers f - 1, f_writers := f_writers f - 1\<rparr>) k);
                    f = fifos k1 a
                in if f_readers f OR f_writers f = 0
                   then Inr (0, (kfree_object (if f_buffer f = None then k1 else kfree_object k1))
                          \<lparr>inodes := (inodes k1)(i := (inodes k1 i)\<lparr>in_extra := None\<rparr>)\<rparr>)
                   else Inr (0, wake_all ReadWait a (wake_all WriteWait a k1)))))"

section \<open>What waiting and waking change\<close>

lemma upd_fifo_simps [simp]:
  "fifos (upd_fifo a g k) b = (if b = a then g (fifos k a) else fifos k b)"
  "procs (upd_fifo a g k) = procs k" "scheduler_curr (upd_fifo a g k) = scheduler_curr k"
  "scheduler_queue (upd_fifo a g k) = scheduler_queue k" "inodes (upd_fifo a g k) = inodes k"
  "kmem (upd_fifo a g k) = kmem k"
  by (simp_all add: upd_fifo_def)

lemma wake_queue_simps [simp]:
  "wake_queue [] k = k"
  "wake_queue (e # q) k = wake_queue q (process_table_unblock (fst e) k)"
  by (simp_all add: wake_queue.simps [of "[]"] wake_queue.simps [of "e # q"])

lemma wake_queue_frame [simp]:
  "fifos (wake_queue q k) = fifos k" "inodes (wake_queue q k) = inodes k"
  "scheduler_curr (wake_queue q k) = scheduler_curr k" "kmem (wake_queue q k) = kmem k"
  by (induction q arbitrary: k) simp_all

lemma wake_all_fifos [simp]:
  "fifos (wake_all e a k) = (fifos k)(a := set_wait_queue e [] (fifos k a))"
  "inodes (wake_all e a k) = inodes k" "scheduler_curr (wake_all e a k) = scheduler_curr k"
  "kmem (wake_all e a k) = kmem k"
  by (auto simp: wake_all_def fun_eq_iff)

lemma set_wait_queue_simps [simp]:
  "f_readers (set_wait_queue e q f) = f_readers f" "f_writers (set_wait_queue e q f) = f_writers f"
  "f_buffer (set_wait_queue e q f) = f_buffer f" "f_used (set_wait_queue e q f) = f_used f"
  "f_size (set_wait_queue e q f) = f_size f" "wait_queue e (set_wait_queue e q f) = q"
  by (cases e; simp)+

text \<open>Every process that waits is made ready again, in the order in which it came.\<close>

lemma wake_queue_ready:
  assumes "\<forall>e \<in> set q. \<not> is_done (p_schedule (procs k (fst e)))"
  shows "scheduler_queue (wake_queue q k) = scheduler_queue k @ map (\<lambda>e. (fst e, 1)) q \<and>
     (\<forall>e \<in> set q. status_of (procs (wake_queue q k)) (fst e) = StatusReady)"
  using assms
proof (induction q arbitrary: k)
  case (Cons e q)
  let ?k = "process_table_unblock (fst e) k"
  have kept: "status_of (procs (wake_queue q k)) p = (if p \<in> fst ` set q then StatusReady else status_of (procs k) p)"
    for p and q and k :: "'a kernel_scheme"
    by (induction q arbitrary: k) auto
  from Cons.prems have "scheduler_queue ?k = scheduler_queue k @ [(fst e, 1)]" by (simp add: queue_push_def)
  with Cons.IH [of ?k] Cons.prems show ?case by (auto simp: kept)
qed simp

section \<open>A FIFO is a byte channel\<close>

definition fifo_ok :: "FIFO \<Rightarrow> bool" where
  "fifo_ok f \<longleftrightarrow> (\<exists>b. f_buffer f = Some b \<and> length b = f_size f) \<and> f_used f \<le> f_size f \<and> f_size f < 2 ^ 32"

definition fifo_content :: "FIFO \<Rightarrow> string" where
  "fifo_content f = take (f_used f) (the (f_buffer f))"

definition fifo_put_bytes :: "nat \<Rightarrow> string \<Rightarrow> 'z kernel_scheme \<Rightarrow> (nat \<times> 'z kernel_scheme) result" where
  "fifo_put_bytes a xs k = fifo_put a xs (length xs) k"

definition fifo_get_bytes :: "nat \<Rightarrow> nat \<Rightarrow> 'z kernel_scheme \<Rightarrow> (string \<times> 'z kernel_scheme) result" where
  "fifo_get_bytes a n k =
     rbind (fifo_get a (replicate n NUL) n k) (\<lambda>(m, dst, k'). Inr (take m dst, k'))"

lemma fifo_room_ok: "fifo_ok f \<Longrightarrow> fifo_room f = f_size f - f_used f"
  by (auto simp: fifo_ok_def fifo_room_def un32_def)

lemma fifo_put_ok:
  assumes ok: "fifo_ok (fifos k a)" and len: "len \<le> length src" and run: "fifo_put a src len k = Inr (n, k')"
  shows "fifo_ok (fifos k' a) \<and> n \<le> len \<and> fifo_content (fifos k' a) = fifo_content (fifos k a) @ take n src"
proof -
  let ?f = "fifos k a"
  obtain p where p: "scheduler_curr k = Some p"
    using run by (auto simp: fifo_put_def clear_ioWait_def scheduler_current_def split: option.splits)
  obtain b where b: "f_buffer ?f = Some b" "length b = f_size ?f" "f_used ?f \<le> f_size ?f" "f_size ?f < 2 ^ 32"
    using ok by (auto simp: fifo_ok_def)
  show ?thesis
  proof (cases "f_readers ?f = 0")
    case True
    with run p ok show ?thesis by (auto simp: fifo_put_def clear_ioWait_def scheduler_current_def)
  next
    case False
    with run p b obtain b' where b': "memcpy (drop (f_used ?f) b) src len = Inr b'" "n = len"
      "k' = wake_all ReadWait a (upd_fifo a (\<lambda>f. f\<lparr>f_buffer := Some (take (f_used f) b @ b'), f_used := f_used f + len\<rparr>)
              (upd_s p (\<lambda>s. s\<lparr>ioWait := False\<rparr>) k))"
      by (auto simp: fifo_put_def clear_ioWait_def scheduler_current_def Let_def elim!: rbind_InrE)
    then have "len \<le> f_size ?f - f_used ?f" "b' = take len src @ drop len (drop (f_used ?f) b)"
      using b by (auto simp: memcpy_eq_Inr_iff)
    with b b' len show ?thesis by (auto simp: fifo_ok_def fifo_content_def min_def)
  qed
qed

lemma fifo_get_ok:
  assumes ok: "fifo_ok (fifos k a)" and run: "fifo_get a dst len k = Inr (n, dst', k')"
  shows "fifo_ok (fifos k' a) \<and> n \<le> len \<and> n \<le> length dst \<and>
     (\<exists>ys. length ys = n \<and> dst' = ys @ drop n dst \<and> fifo_content (fifos k a) = ys @ fifo_content (fifos k' a))"
proof -
  let ?f = "fifos k a"
  obtain p where p: "scheduler_curr k = Some p"
    using run by (auto simp: fifo_get_def clear_ioWait_def scheduler_current_def split: option.splits)
  obtain b where b: "f_buffer ?f = Some b" "length b = f_size ?f" "f_used ?f \<le> f_size ?f" "f_size ?f < 2 ^ 32"
    using ok by (auto simp: fifo_ok_def)
  show ?thesis
  proof (cases "f_writers ?f = 0")
    case True
    with run p ok show ?thesis by (auto simp: fifo_get_def clear_ioWait_def scheduler_current_def)
  next
    case False
    define m where "m = (if len > f_used ?f then f_used ?f else len)"
    from False run p b obtain b' where b': "memcpy dst b m = Inr dst'" "shift_down m (f_used ?f) m b = Inr b'" "n = m"
      "k' = wake_all WriteWait a (upd_fifo a (\<lambda>f. f\<lparr>f_buffer := Some b', f_used := f_used f - m\<rparr>)
              (upd_s p (\<lambda>s. s\<lparr>ioWait := False\<rparr>) k))"
      by (auto simp: fifo_get_def clear_ioWait_def scheduler_current_def Let_def m_def cong: if_cong elim!: rbind_InrE)
    have m: "m \<le> f_used ?f" "m \<le> len" by (auto simp: m_def)
    from b'(1) have d: "m \<le> length dst" "dst' = take m b @ drop m dst" by (auto simp: memcpy_eq_Inr_iff)
    from shift_down_correct [OF m(1) _ b'(2)] b
    have s: "length b' = f_size ?f" "take (f_used ?f - m) b' = drop m (take (f_used ?f) b)" by auto
    have "take (f_used ?f) b = take m b @ drop m (take (f_used ?f) b)"
      using m(1) by (metis append_take_drop_id min.absorb1 take_take)
    with b b'(3,4) m d s show ?thesis
      by (auto simp: fifo_ok_def fifo_content_def intro!: exI [of _ "take m b"])
  qed
qed

interpretation fifo: byte_channel "fifo_put_bytes a" "fifo_get_bytes a" "\<lambda>k. fifo_content (fifos k a)"
  "\<lambda>k. fifo_ok (fifos k a)" for a
proof unfold_locales
  fix k :: "'a kernel_scheme" and xs n k' assume "fifo_ok (fifos k a)" "fifo_put_bytes a xs k = Inr (n, k')"
  then show "fifo_ok (fifos k' a) \<and> n \<le> length xs \<and> fifo_content (fifos k' a) = fifo_content (fifos k a) @ take n xs"
    using fifo_put_ok [of k a "length xs" xs n k'] by (simp add: fifo_put_bytes_def)
next
  fix k :: "'a kernel_scheme" and n ys k' assume "fifo_ok (fifos k a)" "fifo_get_bytes a n k = Inr (ys, k')"
  then obtain m dst where "fifo_get a (replicate n NUL) n k = Inr (m, dst, k')" "ys = take m dst"
    by (auto simp: fifo_get_bytes_def elim!: rbind_InrE)
  with fifo_get_ok [OF \<open>fifo_ok (fifos k a)\<close>] show
    "fifo_ok (fifos k' a) \<and> length ys \<le> n \<and> fifo_content (fifos k a) = ys @ fifo_content (fifos k' a)"
    by fastforce
qed

section \<open>Waiting\<close>

text \<open>A request larger than the buffer waits for as long as there are readers.\<close>

lemma fifo_write_loop_stuck:
  assumes inv: "\<And>k. I k \<Longrightarrow> fifo_room (fifos k a) < len \<and> f_readers (fifos k a) \<noteq> 0 \<and>
      (\<exists>k1. fifo_wait sw WriteWait a k = Inr k1 \<and> I k1)"
    and "I k"
  shows "fifo_write_loop sw a len k = None"
proof (cases "fifo_write_loop sw a len k")
  case (Some r)
  define R where "R = (\<lambda>sw' a' len' k (r :: (bool \<times> 'a kernel_scheme) result).
    sw' = sw \<and> a' = a \<and> len' = len \<longrightarrow> \<not> I k)"
  have "R sw a len k r"
  proof (rule fifo_write_loop.raw_induct [of R, OF _ Some])
    fix loop sw' a' len' k' r
    assume IH: "\<And>sw' a' len' k' r. loop sw' a' len' k' = Some r \<Longrightarrow> R sw' a' len' k' r"
      and eq: "(if fifo_room (fifos k' a') < len'
        then if f_readers (fifos k' a') = 0 then Some (Inr (False, k'))
             else (case fifo_wait sw' WriteWait a' k' of Inl e \<Rightarrow> Some (Inl e) | Inr k1 \<Rightarrow> loop sw' a' len' k1)
        else Some (Inr (True, k'))) = Some r"
    show "R sw' a' len' k' r"
      using inv [of k'] IH [of sw' a' len'] eq by (fastforce simp: R_def)
  qed
  then show ?thesis using \<open>I k\<close> by (simp add: R_def)
qed

section \<open>Properties\<close>

text \<open>
  C20. A FIFO neither loses, invents, duplicates nor reorders bytes: after any interleaving of the
  transfers of \<open>fifo_write\<close> and \<open>fifo_read\<close>, by any processes, with steps of the rest of the kernel that
  leave the buffered bytes alone, what was in the buffer followed by all bytes accepted is what was
  delivered followed by what is in the buffer, and the buffer stays within its bounds.
\<close>

theorem fifo_bytes_in_order:
  assumes "channel_run (fifo_put_bytes a) (fifo_get_bytes a) ops k = Inr (wr, rd, k')"
    and "fifo_ok (fifos k a)"
    and "\<forall>f \<in> set (others ops). \<forall>k. fifo_ok (fifos k a) \<longrightarrow>
      fifo_ok (fifos (f k) a) \<and> fifo_content (fifos (f k) a) = fifo_content (fifos k a)"
  shows "fifo_ok (fifos k' a) \<and> fifo_content (fifos k a) @ wr = rd @ fifo_content (fifos k' a)"
  using assms by (rule fifo.run_in_order)

lemma small_fifo: "fifo_ok (fifos small_kernel 0)" "fifo_content (fifos small_kernel 0) = []"
  by (simp_all add: fifo_ok_def fifo_content_def small_kernel_def zero_fifo_def)

theorem fifo_bytes_in_order_witness:
  "\<exists>k'. channel_run (fifo_put_bytes 0) (fifo_get_bytes 0)
      [Put ''abc'', Get 2, Other (\<lambda>k. k\<lparr>scheduler_curr := Some 1\<rparr>), Put ''d''] small_kernel = Inr (''abcd'', ''ab'', k') \<and>
     fifo_content (fifos k' 0) = ''cd''"
proof -
  have sd: "shift_down 2 3 2 b = rbind (cget b 2) (\<lambda>c. cput b 0 c)" for b
    by (subst shift_down.simps) (simp add: shift_down.simps [of _ _ 3] rbind_def split: sum.splits)
  note unfold = fifo_put_bytes_def fifo_get_bytes_def fifo_put_def fifo_get_def clear_ioWait_def
    scheduler_current_def Let_def memcpy_correct sd cget_def cput_def
  let ?f1 = "zero_fifo\<lparr>f_buffer := Some (''abc'' @ [NUL]), f_used := 3\<rparr>"
  let ?f2 = "zero_fifo\<lparr>f_buffer := Some (''cbc'' @ [NUL]), f_used := 1\<rparr>"
  have small: "scheduler_curr small_kernel = Some 0" "fifos small_kernel 0 = zero_fifo" by (simp_all add: small_kernel_def)
  obtain k1 where 1: "fifo_put_bytes 0 ''abc'' small_kernel = Inr (3, k1)" "fifos k1 0 = ?f1" "scheduler_curr k1 = Some 0"
    by (simp add: unfold small zero_fifo_def)
  obtain k2 where 2: "fifo_get_bytes 0 2 k1 = Inr (''ab'', k2)" "fifos k2 0 = ?f2" "scheduler_curr k2 = Some 0"
    by (simp add: unfold 1 zero_fifo_def)
  obtain k' where "fifo_put_bytes 0 ''d'' (k2\<lparr>scheduler_curr := Some 1\<rparr>) = Inr (1, k')"
    by (simp add: unfold 2 zero_fifo_def)
  with 1 2 have run: "channel_run (fifo_put_bytes 0) (fifo_get_bytes 0)
      [Put ''abc'', Get 2, Other (\<lambda>k. k\<lparr>scheduler_curr := Some 1\<rparr>), Put ''d''] small_kernel = Inr (''abcd'', ''ab'', k')"
    by simp
  from fifo_bytes_in_order [OF run small_fifo(1)] small_fifo(2) run show ?thesis by auto
qed

text \<open>
  No lost wake-up: when a transfer succeeds, every process that was waiting for it is ready and in
  the scheduler's queue, in the order in which they had come, and the wait queue is empty.
\<close>

theorem fifo_transfer_wakes:
  assumes "fifo_put a src len k = Inr (n, k')" "f_readers (fifos k a) \<noteq> 0"
    and "\<forall>e \<in> set (f_readWait (fifos k a)). \<not> is_done (p_schedule (procs k (fst e)))"
  shows "f_readWait (fifos k' a) = [] \<and>
     scheduler_queue k' = scheduler_queue k @ map (\<lambda>e. (fst e, 1)) (f_readWait (fifos k a)) \<and>
     (\<forall>e \<in> set (f_readWait (fifos k a)). status_of (procs k' ) (fst e) = StatusReady)"
proof -
  obtain p b b' where p: "scheduler_curr k = Some p" and k': "k' = wake_all ReadWait a (upd_fifo a
      (\<lambda>f. f\<lparr>f_buffer := Some (take (f_used f) b @ b'), f_used := f_used f + len\<rparr>) (upd_s p (\<lambda>s. s\<lparr>ioWait := False\<rparr>) k))"
    using assms(1,2) by (auto simp: fifo_put_def clear_ioWait_def scheduler_current_def Let_def
        split: option.splits elim!: rbind_InrE)
  define k1 where "k1 = upd_fifo a (set_wait_queue ReadWait []) (upd_fifo a
      (\<lambda>f. f\<lparr>f_buffer := Some (take (f_used f) b @ b'), f_used := f_used f + len\<rparr>) (upd_s p (\<lambda>s. s\<lparr>ioWait := False\<rparr>) k))"
  have "k' = wake_queue (f_readWait (fifos k a)) k1" by (simp add: k' wake_all_def k1_def)
  moreover have "\<forall>e \<in> set (f_readWait (fifos k a)). \<not> is_done (p_schedule (procs k1 (fst e)))"
    using assms(3) by (auto simp: k1_def)
  moreover have "scheduler_queue k1 = scheduler_queue k" "f_readWait (fifos k1 a) = []" by (simp_all add: k1_def)
  ultimately show ?thesis using wake_queue_ready [of "f_readWait (fifos k a)" k1] by simp
qed

theorem fifo_transfer_wakes_witness:
  "\<exists>k'. fifo_put 0 ''x'' 1 (small_kernel\<lparr>fifos := (\<lambda>a. zero_fifo\<lparr>f_readWait := [(3, 1)]\<rparr>)\<rparr>) = Inr (1, k') \<and>
     scheduler_queue k' = [(0, 1), (3, 1)]"
proof -
  let ?k = "small_kernel\<lparr>fifos := (\<lambda>a. zero_fifo\<lparr>f_readWait := [(3, 1)]\<rparr>)\<rparr>"
  obtain k' where "fifo_put 0 ''x'' 1 ?k = Inr (1, k')"
    by (simp add: fifo_put_def clear_ioWait_def scheduler_current_def small_kernel_def zero_fifo_def memcpy_correct)
  with fifo_transfer_wakes [of 0 "''x''" 1 ?k 1 k'] show ?thesis
    by (auto simp: small_kernel_def zero_fifo_def zero_process_def zero_schedule_def)
qed

text \<open>
  C27. A write of more bytes than the buffer can ever hold does not return while there is a reader: the
  loop of \<open>fifo_write\<close> waits for all the bytes to fit at once.
\<close>

theorem fifo_write_too_long_waits:
  fixes k :: "'z kernel_scheme"
  assumes "fifo_of fd k = Inr a" "fifo_ok (fifos k a)" "f_readers (fifos k a) \<noteq> 0" "scheduler_curr k \<noteq> None"
    and "f_size (fifos k a) < len"
    and "\<forall>k :: 'z kernel_scheme. fifo_ok (fifos k a) \<and> f_readers (fifos k a) \<noteq> 0 \<and> scheduler_curr k \<noteq> None \<longrightarrow>
      fifo_ok (fifos (sw k) a) \<and> f_readers (fifos (sw k) a) \<noteq> 0 \<and> scheduler_curr (sw k) \<noteq> None \<and>
      f_size (fifos (sw k) a) = f_size (fifos k a)"
  shows "fifo_write sw fd src len k = None"
proof -
  define I where "I = (\<lambda>k :: 'z kernel_scheme. fifo_ok (fifos k a) \<and> f_readers (fifos k a) \<noteq> 0 \<and> scheduler_curr k \<noteq> None \<and> f_size (fifos k a) < len)"
  have "fifo_write_loop sw a len k = None"
  proof (rule fifo_write_loop_stuck [of I])
    fix k assume k: "I k"
    then obtain p where p: "scheduler_curr k = Some p" by (auto simp: I_def)
    let ?k = "process_table_block p (upd_s p (\<lambda>s. s\<lparr>ioWait := True\<rparr>)
      (upd_fifo a (\<lambda>f. set_wait_queue WriteWait (queue_push (wait_queue WriteWait f) p) f) k))"
    have "fifo_wait sw WriteWait a k = Inr (sw ?k)" by (simp add: fifo_wait_def scheduler_current_def p)
    moreover have "fifo_ok (fifos ?k a)" using k by (simp add: I_def fifo_ok_def)
    with assms(6) [rule_format, of ?k] k p have "I (sw ?k)" by (simp add: I_def)
    ultimately show "fifo_room (fifos k a) < len \<and> f_readers (fifos k a) \<noteq> 0 \<and>
      (\<exists>k1. fifo_wait sw WriteWait a k = Inr k1 \<and> I k1)"
      using k fifo_room_ok [of "fifos k a"] by (auto simp: I_def)
  qed (use assms in \<open>simp add: I_def\<close>)
  with assms(1) show ?thesis by (simp add: fifo_write_def)
qed

theorem fifo_write_too_long_waits_witness:
  "fifo_write (\<lambda>k. k) \<lparr>fd_inode = Some 7, fd_flags = 1, fd_offset = 0, fd_ops = 1\<rparr> ''hello'' 5 small_kernel = None"
proof (rule fifo_write_too_long_waits [of _ _ 0])
  show "fifo_ok (fifos small_kernel 0)" by (rule small_fifo)
qed (simp_all add: fifo_of_def small_kernel_def zero_fifo_def)

end
