(* ===== verification/Process.thy ===== *)
theory Process
  imports Fifo
begin

text \<open>
  \<open>src/system/process/process.c\<close>: creating and ending a process, with the reference counting of file
  descriptors of \<open>src/system/fs/fs.c\<close> it uses. Addresses the linker or the assembly files provide are
  an argument \<open>img\<close>. The contents of the stacks are the bytes of \<open>ram\<close>. \<open>p_cwd\<close> is the working
  directory as a string; the memory allocator's set-up of a new heap (\<open>init_malloc\<close>) is left out, its
  context is the start of the heap.
\<close>

unbundle bit_operations_syntax

section \<open>File descriptors\<close>

definition fs_register_ops :: "nat \<Rightarrow> FileDescriptorOps \<Rightarrow> 'z kernel_scheme \<Rightarrow> 'z kernel_scheme" where
  "fs_register_ops fileType ops k = k\<lparr>opsTable := (opsTable k)[fileType := ops]\<rparr>"

definition free_inode :: "nat \<Rightarrow> 'z kernel_scheme \<Rightarrow> 'z kernel_scheme" where
  "free_inode i k = kfree_object (kfree_object k)"

definition upd_inode :: "nat \<Rightarrow> (fs_Inode \<Rightarrow> fs_Inode) \<Rightarrow> 'z kernel_scheme \<Rightarrow> 'z kernel_scheme" where
  "upd_inode i g k = k\<lparr>inodes := (inodes k)(i := g (inodes k i))\<rparr>"

text \<open>The first place of a pointer in a table.\<close>

fun find_ptr :: "ptr \<Rightarrow> ptr list \<Rightarrow> nat option" where
  "find_ptr p [] = None"
| "find_ptr p (x # xs) = (if x = p then Some 0 else map_option Suc (find_ptr p xs))"

definition fs_inode_close :: "nat \<Rightarrow> 'z kernel_scheme \<Rightarrow> 'z kernel_scheme" where
  "fs_inode_close i k =
     (let k1 = upd_inode i (\<lambda>n. n\<lparr>in_refCount := in_refCount n - 1\<rparr>) k
      in if in_refCount (inodes k1 i) = 0
         then (case find_ptr (Some i) (inodeTable k1) of
                 None \<Rightarrow> k1
               | Some j \<Rightarrow> (free_inode i k1)\<lparr>inodeTable := (inodeTable k1)[j := None]\<rparr>)
         else k1)"

definition fs_fd :: "('z kernel_scheme \<Rightarrow> 'z kernel_scheme) \<Rightarrow> nat \<Rightarrow> int \<Rightarrow> 'z kernel_scheme \<Rightarrow>
    (FileDescriptor \<times> 'z kernel_scheme) result" where
  "fs_fd sw i flags k =
     (let k1 = upd_inode i (\<lambda>n. n\<lparr>in_refCount := in_refCount n + 1\<rparr>) k;
          t = INODE_TYPE (in_data (inodes k1 i));
          fd = \<lparr>fd_inode = Some i, fd_flags = flags, fd_offset = 0, fd_ops = t\<rparr>
      in if opsTable k1 ! t = FifoOps then rbind (fifo_open sw fd k1) (\<lambda>k2. Inr (fd, k2))
         else Inr (fd, k1))"

definition fs_dup :: "('z kernel_scheme \<Rightarrow> 'z kernel_scheme) \<Rightarrow> FileDescriptor \<Rightarrow> 'z kernel_scheme \<Rightarrow>
    (FileDescriptor \<times> 'z kernel_scheme) result" where
  "fs_dup sw fd k = (case fd_inode fd of None \<Rightarrow> Inl NullDeref | Some i \<Rightarrow> fs_fd sw i (fd_flags fd) k)"

definition fs_fd_close :: "FileDescriptor \<Rightarrow> 'z kernel_scheme \<Rightarrow> (int \<times> FileDescriptor \<times> 'z kernel_scheme) result" where
  "fs_fd_close fd k =
     rbind (if opsTable k ! fd_ops fd = FifoOps then fifo_close fd k else Inr (0, k)) (\<lambda>(res, k1).
       case fd_inode fd of
         None \<Rightarrow> Inl NullDeref
       | Some i \<Rightarrow> Inr (res, fd\<lparr>fd_inode := None\<rparr>, fs_inode_close i k1))"

section \<open>The stack of a new process\<close>

record kernel_image =
  img_exit :: u32
  img_interruptEnd :: u32
  img_signalPIC :: u32
  img_idt :: nat
  img_gdt :: nat
  img_ts :: nat

definition ARGV_SIZE :: nat where "ARGV_SIZE = 256"
definition MAX_OPEN_FILES :: nat where "MAX_OPEN_FILES = 10"
definition KERNEL_STACK_PAGES :: nat where "KERNEL_STACK_PAGES = 10"
definition STACK_TOP_MAPPING :: nat where "STACK_TOP_MAPPING = 3 * 1024 * 1024 * 1024"
definition KERNEL_CODE_SEGMENT :: u32 where "KERNEL_CODE_SEGMENT = 0x08"
definition KERNEL_DATA_SEGMENT :: u32 where "KERNEL_DATA_SEGMENT = 0x10"
definition USER_CODE_SEGMENT :: u32 where "USER_CODE_SEGMENT = 0x18 OR 0x3"
definition USER_DATA_SEGMENT :: u32 where "USER_DATA_SEGMENT = 0x20 OR 0x3"

definition store8 :: "nat \<Rightarrow> u8 \<Rightarrow> (nat \<Rightarrow> u8) \<Rightarrow> nat \<Rightarrow> u8" where
  "store8 a v m = m(a := v)"

definition store32 :: "nat \<Rightarrow> u32 \<Rightarrow> (nat \<Rightarrow> u8) \<Rightarrow> nat \<Rightarrow> u8" where
  "store32 a v m = m(a := ucast v, a + 1 := ucast (drop_bit 8 v),
     a + 2 := ucast (drop_bit 16 v), a + 3 := ucast (drop_bit 24 v))"

text \<open>\<open>push\<close> on the stack pointer \<open>sp\<close>, and a sequence of pushes.\<close>

definition push :: "u32 \<Rightarrow> nat \<times> (nat \<Rightarrow> u8) \<Rightarrow> nat \<times> (nat \<Rightarrow> u8)" where
  "push val s = (case s of (sp, m) \<Rightarrow> (sp - 4, store32 (sp - 4) val m))"

definition push_words :: "u32 list \<Rightarrow> nat \<times> (nat \<Rightarrow> u8) \<Rightarrow> nat \<times> (nat \<Rightarrow> u8)" where
  "push_words vals s = fold push vals s"

fun store_bytes :: "nat \<Rightarrow> string \<Rightarrow> (nat \<Rightarrow> u8) \<Rightarrow> nat \<Rightarrow> u8" where
  "store_bytes a [] m = m"
| "store_bytes a (c # cs) m = store_bytes (Suc a) cs (store8 a (of_char c) m)"

definition upd_mm :: "nat \<Rightarrow> (ProcessMemory \<Rightarrow> ProcessMemory) \<Rightarrow> 'z kernel_scheme \<Rightarrow> 'z kernel_scheme" where
  "upd_mm a g k = upd_p a (\<lambda>p. p\<lparr>p_mm := g (p_mm p)\<rparr>) k"

definition build_frames :: "kernel_image \<Rightarrow> nat \<Rightarrow> u32 \<Rightarrow> bool \<Rightarrow> 'z kernel_scheme \<Rightarrow> 'z kernel_scheme" where
  "build_frames img a entryPoint kern k =
     (let p = procs k a; mm = p_mm p;
          codeSegment = (if kern then KERNEL_CODE_SEGMENT else USER_CODE_SEGMENT);
          dataSegment = (if kern then KERNEL_DATA_SEGMENT else USER_DATA_SEGMENT);
          (sp0, sp, m) =
            (if kern
             then (let e = esp0 mm - ARGV_SIZE; m1 = store_bytes e (p_args p) (ram k)
                   in case push_words [of_nat e, img_exit img, 0x202] (e, m1) of (s0, m2) \<Rightarrow> (s0, esp mm, m2))
             else (let e = esp mm - ARGV_SIZE; m1 = store_bytes e (p_args p) (ram k)
                   in case push_words [of_nat (STACK_TOP_MAPPING - ARGV_SIZE), img_exit img] (e, m1) of (s, m2) \<Rightarrow>
                        (case push_words [dataSegment, of_nat (STACK_TOP_MAPPING - 2 * 4 - ARGV_SIZE), 0x3202]
                                (esp0 mm, m2) of (s0, m3) \<Rightarrow> (s0, s, m3))));
          (sp0', m') = push_words [codeSegment, entryPoint, dataSegment, dataSegment, dataSegment, dataSegment,
                                 img_interruptEnd img, img_signalPIC img, 0] (sp0, m)
      in upd_mm a (\<lambda>mm. mm\<lparr>esp0 := sp0', esp := sp\<rparr>) (k\<lparr>ram := m'\<rparr>))"

section \<open>The memory of a new process\<close>

definition reserve_for :: "nat \<Rightarrow> nat \<Rightarrow> 'z kernel_scheme \<Rightarrow> (Pages \<times> 'z kernel_scheme) result" where
  "reserve_for a n k =
     rbind (reserve_pages cache_evict (procs k a) n (kmem k)) (\<lambda>(mem, p, m).
       case mem of
         None \<Rightarrow> Inl AssertFail
       | Some pg \<Rightarrow> Inr (pg, k\<lparr>procs := (procs k)(a := p), kmem := m\<rparr>))"

definition map_for :: "nat \<Rightarrow> nat \<Rightarrow> nat \<Rightarrow> nat \<Rightarrow> bool \<Rightarrow> bool \<Rightarrow> 'z kernel_scheme \<Rightarrow> 'z kernel_scheme result" where
  "map_for a start to pages usr w k =
     rbind (mm_pagination_map (procs k a, kmem k) start to pages usr w) (\<lambda>(p, m).
       Inr (k\<lparr>procs := (procs k)(a := p), kmem := m\<rparr>))"

definition setup_page_directory :: "kernel_image \<Rightarrow> nat \<Rightarrow> bool \<Rightarrow> 'z kernel_scheme \<Rightarrow> 'z kernel_scheme result" where
  "setup_page_directory img a kern k =
     (if kern then Inr (upd_mm a (\<lambda>mm. mm\<lparr>directory := None\<rparr>) k)
      else rbind (reserve_for a 1 k) (\<lambda>(pages, k1).
        let k2 = upd_mm a (\<lambda>mm. mm\<lparr>directory := Some (pg_start pages)\<rparr>)
                   (k1\<lparr>kmem := mm_pagination_clear_directory (pg_start pages) (kmem k1)\<rparr>)
        in rbind (map_for a 0 0 1024 True True k2) (\<lambda>k3.
           rbind (map_for a (img_idt img) (img_idt img) 1 False False k3) (\<lambda>k4.
           rbind (map_for a (img_gdt img) (img_gdt img) 1 False False k4) (\<lambda>k5.
           rbind (map_for a (img_ts img) (img_ts img) 1 False False k5) (\<lambda>k6.
             let mm = p_mm (procs k6 a);
                 kernelStackBottom = kernelStack mm - pagesInKernelStack mm * PAGE_SIZE
             in rbind (map_for a kernelStackBottom kernelStackBottom (pagesInKernelStack mm) False True k6) (\<lambda>k7.
                rbind (case mallocContext mm of
                         None \<Rightarrow> Inr k7
                       | Some c \<Rightarrow> map_for a c c (pagesInHeap mm) True True k7) (\<lambda>k8.
                  if esp mm \<noteq> 0
                  then map_for a (esp mm - pagesInStack mm * PAGE_SIZE)
                         (STACK_TOP_MAPPING - pagesInStack mm * PAGE_SIZE) (pagesInStack mm) True True k8
                  else Inr k8))))))))"

text \<open>\<open>mm_create_context\<close> returns the start of the heap.\<close>

definition mm_create_context :: "nat \<Rightarrow> nat" where
  "mm_create_context heap = heap"

definition create_memory :: "kernel_image \<Rightarrow> nat \<Rightarrow> bool \<Rightarrow> 'z kernel_scheme \<Rightarrow> 'z kernel_scheme result" where
  "create_memory img a kern k =
     (let k0 = upd_mm a (\<lambda>mm. mm\<lparr>reservedPages := [], pagesInKernelStack := KERNEL_STACK_PAGES\<rparr>) k
      in rbind (reserve_for a KERNEL_STACK_PAGES k0) (\<lambda>(mem, k1).
         let ks = pg_start mem + PAGE_SIZE * KERNEL_STACK_PAGES;
             k2 = upd_mm a (\<lambda>mm. mm\<lparr>esp0 := ks, kernelStack := ks\<rparr>) k1
         in rbind
              (if kern then Inr (upd_mm a (\<lambda>mm. mm\<lparr>pagesInHeap := 0, mallocContext := None\<rparr>) k2)
               else rbind (reserve_for a 256 (upd_mm a (\<lambda>mm. mm\<lparr>pagesInHeap := 256\<rparr>) k2)) (\<lambda>(heap, k3).
                 Inr (upd_mm a (\<lambda>mm. mm\<lparr>mallocContext := Some (mm_create_context (pg_start heap))\<rparr>) k3)))
              (\<lambda>k4. rbind
                (if \<not> kern
                 then rbind (reserve_for a 16 (upd_mm a (\<lambda>mm. mm\<lparr>pagesInStack := 16\<rparr>) k4)) (\<lambda>(stack, k5).
                   Inr (upd_mm a (\<lambda>mm. mm\<lparr>esp := pg_start stack + PAGE_SIZE * 16\<rparr>) k5))
                 else Inr (upd_mm a (\<lambda>mm. mm\<lparr>pagesInStack := 0, esp := 0\<rparr>) k4))
                (\<lambda>k6. rbind (setup_page_directory img a kern k6) (\<lambda>k7.
                   if \<not> kern
                   then rbind (reserve_for a 1 k7) (\<lambda>(ungetPage, k8).
                     rbind (map_for a (pg_start ungetPage) STACK_TOP_MAPPING 1 True True k8) (\<lambda>k9.
                       let files = (\<lambda>i m. store32 (pg_start ungetPage + 12 * i + 8) 0
                                     (store32 (pg_start ungetPage + 12 * i + 4) 0
                                       (store32 (pg_start ungetPage + 12 * i) (of_nat i) m)))
                       in Inr (k9\<lparr>ram := fold files [0..<3] (ram k9)\<rparr>)))
                   else Inr k7)))))"

section \<open>Creating and ending a process\<close>

definition init_process :: "nat \<Rightarrow> ptr \<Rightarrow> int \<Rightarrow> bool \<Rightarrow> 'z kernel_scheme \<Rightarrow> 'z kernel_scheme" where
  "init_process a parent terminal kern k =
     (let pid = s32 (last_pid k + 1); k1 = k\<lparr>last_pid := pid\<rparr>
      in upd_p a (\<lambda>p. p\<lparr>p_pid := pid, p_kernel := kern, p_terminal := terminal, p_active := False,
            p_parent := parent, p_firstChild := None, p_cycles := 0, p_curr_cycles := 0, p_prev_cycles := 0,
            p_timeStart := now k,
            p_uid := (case parent of None \<Rightarrow> 0 | Some q \<Rightarrow> p_uid (procs k q)),
            p_gid := (case parent of None \<Rightarrow> 0 | Some q \<Rightarrow> p_gid (procs k q))\<rparr>) k1)"

definition link_process :: "nat \<Rightarrow> ptr \<Rightarrow> 'z kernel_scheme \<Rightarrow> 'z kernel_scheme result" where
  "link_process a parent k =
     (let k0 = upd_p a (\<lambda>p. p\<lparr>p_prev := None\<rparr>) k
      in case parent of
           None \<Rightarrow>
             (case kalloc_object (upd_p a (\<lambda>p. p\<lparr>p_ppid := 0, p_next := None\<rparr>) k0) of
                (False, k1) \<Rightarrow> Inl NullDeref
              | (True, k1) \<Rightarrow> Inr (upd_p a (\<lambda>p. p\<lparr>p_cwd := ''/''\<rparr>) k1))
         | Some q \<Rightarrow>
             (let fc = p_firstChild (procs k0 q);
                  k1 = upd_p a (\<lambda>p. p\<lparr>p_ppid := p_pid (procs k0 q), p_next := fc\<rparr>) k0;
                  k2 = (case fc of None \<Rightarrow> k1 | Some c \<Rightarrow> upd_p c (\<lambda>p. p\<lparr>p_prev := Some a\<rparr>) k1);
                  k3 = upd_p q (\<lambda>p. p\<lparr>p_firstChild := Some a\<rparr>) k2
              in case kalloc_object k3 of
                   (False, k4) \<Rightarrow> Inl NullDeref
                 | (True, k4) \<Rightarrow> Inr (upd_p a (\<lambda>p. p\<lparr>p_cwd := p_cwd (procs k4 q)\<rparr>) k4)))"

function copy_args_loop :: "string \<Rightarrow> string \<Rightarrow> nat \<Rightarrow> string result" where
  "copy_args_loop args buf i =
     rbind (cget args i) (\<lambda>c.
       if c \<noteq> NUL \<and> i < ARGV_SIZE - 1
       then rbind (cput buf i c) (\<lambda>buf'. copy_args_loop args buf' (Suc i))
       else cput buf i NUL)"
  by pat_completeness auto
termination by (relation "measure (\<lambda>(args, buf, i). ARGV_SIZE - i)") auto

declare copy_args_loop.simps [simp del]

definition copy_args :: "string option \<Rightarrow> string \<Rightarrow> string result" where
  "copy_args args buf = (case args of None \<Rightarrow> cput buf 0 NUL | Some s \<Rightarrow> copy_args_loop s buf 0)"

definition init_schedule :: "ProcessSchedule \<Rightarrow> ProcessSchedule" where
  "init_schedule s = (set_priority 2 s)\<lparr>status := StatusReady, inWait := False, ioWait := False,
     asleep := False, is_done := False\<rparr>"

fun inherit_fds :: "('z kernel_scheme \<Rightarrow> 'z kernel_scheme) \<Rightarrow> nat \<Rightarrow> ptr \<Rightarrow> nat list \<Rightarrow> 'z kernel_scheme \<Rightarrow>
    'z kernel_scheme result" where
  "inherit_fds sw a parent [] k = Inr k"
| "inherit_fds sw a parent (i # is) k =
     rbind (case parent of
              None \<Rightarrow> Inr (((p_fdTable (procs k a)) ! i)\<lparr>fd_inode := None\<rparr>, k)
            | Some q \<Rightarrow>
                (let fd = p_fdTable (procs k q) ! i
                 in if fd_inode fd \<noteq> None then fs_dup sw fd k
                    else Inr (((p_fdTable (procs k a)) ! i)\<lparr>fd_inode := None\<rparr>, k)))
       (\<lambda>(fd, k1). inherit_fds sw a parent is (upd_p a (\<lambda>p. p\<lparr>p_fdTable := (p_fdTable p)[i := fd]\<rparr>) k1))"

definition createProcess :: "kernel_image \<Rightarrow> ('z kernel_scheme \<Rightarrow> 'z kernel_scheme) \<Rightarrow> nat \<Rightarrow> nat \<Rightarrow> ptr \<Rightarrow>
    string option \<Rightarrow> int \<Rightarrow> bool \<Rightarrow> 'z kernel_scheme \<Rightarrow> 'z kernel_scheme result" where
  "createProcess img sw a entryPoint parent args terminal kern k =
     rbind (link_process a parent (init_process a parent terminal kern k)) (\<lambda>k1.
     rbind (copy_args args (p_args (procs k1 a))) (\<lambda>argv.
     rbind (inherit_fds sw a parent [0..<MAX_OPEN_FILES]
              (upd_p a (\<lambda>p. p\<lparr>p_entryPoint := entryPoint, p_args := argv, p_schedule := init_schedule (p_schedule p)\<rparr>) k1)) (\<lambda>k2.
     rbind (create_memory img a kern k2) (\<lambda>k3.
       Inr (build_frames img a (of_nat entryPoint) kern k3)))))"

fun close_fds :: "nat \<Rightarrow> nat list \<Rightarrow> 'z kernel_scheme \<Rightarrow> 'z kernel_scheme result" where
  "close_fds a [] k = Inr k"
| "close_fds a (i # is) k =
     (let fd = p_fdTable (procs k a) ! i
      in if fd_inode fd \<noteq> None
         then rbind (fs_fd_close fd k) (\<lambda>(res, fd', k1).
                close_fds a is (upd_p a (\<lambda>p. p\<lparr>p_fdTable := (p_fdTable p)[i := fd']\<rparr>) k1))
         else close_fds a is k)"

definition exitProcess :: "nat \<Rightarrow> 'z kernel_scheme \<Rightarrow> 'z kernel_scheme result" where
  "exitProcess a k = close_fds a [0..<MAX_OPEN_FILES] (kfree_object k)"

definition destroyProcess :: "nat \<Rightarrow> 'z kernel_scheme \<Rightarrow> 'z kernel_scheme" where
  "destroyProcess a k =
     (let k1 = upd_p a (\<lambda>p. p\<lparr>p_pid := 0\<rparr>) k; pgs = reservedPages (p_mm (procs k1 a))
      in if pgs \<noteq> []
         then upd_mm a (\<lambda>mm. mm\<lparr>reservedPages := []\<rparr>) (k1\<lparr>kmem := free_pages pgs (kmem k1)\<rparr>)
         else k1)"

end
