(* ===== verification/Process_Memory.thy ===== *)
theory Process_Memory
  imports Process
begin

text \<open>
  The memory of a new process (\<open>createProcess\<close> of \<open>src/system/process/process.c\<close>): where its pages come
  from, what its page directory maps, that nothing leaks when it ends, and that creation succeeds when
  enough memory is free. Built on the ownership lemmas of \<open>Page_Allocator\<close> and the translation lemmas of
  \<open>Pagination\<close>.
\<close>

section \<open>Where the memory of a process comes from\<close>

text \<open>
  The pages a process has or could get: its own, the free ones and the cache's. Everything it does to
  its memory moves pages inside this pool, and it keeps what it has.
\<close>

definition pool :: "Process \<Rightarrow> 'z mm_state_scheme \<Rightarrow> nat set" where
  "pool p st = owned_pages (reservedPages (p_mm p)) \<union> free_set (pageMap st) \<union> held st"

definition grows :: "Process \<Rightarrow> 'z mm_state_scheme \<Rightarrow> Process \<Rightarrow> 'z mm_state_scheme \<Rightarrow> bool" where
  "grows p st p' st' \<longleftrightarrow> mem_wf p' st' \<and> pool p' st' = pool p st \<and>
     owned_pages (reservedPages (p_mm p)) \<subseteq> owned_pages (reservedPages (p_mm p')) \<and>
     (\<exists>r. p' = p\<lparr>p_mm := (p_mm p)\<lparr>reservedPages := r\<rparr>\<rparr>)"

lemma grows_refl: "mem_wf p st \<Longrightarrow> grows p st p st"
  by (auto simp: grows_def intro!: exI [of _ "reservedPages (p_mm p)"])

lemma grows_trans: "grows p st p1 st1 \<Longrightarrow> grows p1 st1 p2 st2 \<Longrightarrow> grows p st p2 st2"
  unfolding grows_def by auto

lemma pool_tables [simp]: "pool p (st\<lparr>page_tables := t\<rparr>) = pool p st"
  by (simp add: pool_def held_def buf_page_def)

lemma grows_tables: "grows p st p' st' \<Longrightarrow> grows p st p' (st'\<lparr>page_tables := t\<rparr>)"
  by (simp add: grows_def mem_wf_tables)

lemma grows_entries:
  "grows p st p' st' \<Longrightarrow> grows p st p' (write_entry q i e st')"
  "grows p st p' st' \<Longrightarrow> grows p st p' (clear_table q st')"
  "grows p st p' st' \<Longrightarrow> grows p st p' (mm_pagination_clear_directory d st')"
  by (simp_all add: write_entry_def clear_table_def mm_pagination_clear_directory_def grows_tables Let_def)

lemma reserve_pages_grows:
  assumes "mem_wf p st" "0 < n" "reserve_pages cache_evict p n st = Inr (Some pg, p', st')"
  shows "grows p st p' st' \<and> pages_of pg \<subseteq> owned_pages (reservedPages (p_mm p')) \<and> valid_pages pg \<and>
     pg_count pg = n \<and> pages_of pg \<inter> owned_pages (reservedPages (p_mm p)) = {}"
proof -
  have inv: "cache_wf st" "owner_invar (pageMap st) (reservedPages (p_mm p))"
    "owned_pages (reservedPages (p_mm p)) \<inter> held st = {}" "free_set (pageMap st) \<union> held st \<subseteq> {..<MAPPABLE_PAGES}"
    using assms(1) by (auto simp: mem_wf_def)
  note ok = cache.reserve_pages_ok [OF inv(1) assms(2) inv(2,3) assms(3)]
  have p': "p' = p\<lparr>p_mm := (p_mm p)\<lparr>reservedPages := pg # reservedPages (p_mm p)\<rparr>\<rparr>" using ok by simp
  with ok inv show ?thesis
    by (auto simp: grows_def pool_def mem_wf_def owner_invar_def)
qed

lemma reserve_pages_aligned:
  "reserve_pages ev p n st = Inr (Some pg, p', st') \<Longrightarrow> pg_start pg mod 4096 = 0"
proof -
  have fp: "fst (find_pages m n) mod 4096 = 0" for m
    by (simp add: find_pages_def PAGE_SIZE_def Let_def)
  have "fst (allocPages ev n st) mod 4096 = 0"
    using fp by (auto simp: allocPages_def case_prod_beta Let_def)
  then show "reserve_pages ev p n st = Inr (Some pg, p', st') \<Longrightarrow> pg_start pg mod 4096 = 0"
    by (auto simp: reserve_pages_def Let_def case_prod_beta split: if_splits)
qed

lemma map_page_grows:
  assumes "mem_wf p st" "map_page source dest usr w (p, st) = Inr (p', st')"
  shows "grows p st p' st'"
proof -
  obtain d where d: "directory (p_mm p) = Some d"
    using assms(2) by (auto simp: map_page_def split: option.splits)
  let ?pg = "\<lambda>st1. pageAddress (page_tables st1 (d div PAGE_SIZE) (dir_index dest))"
  obtain p1 st1 where e: "ensure_table (d div PAGE_SIZE) (dir_index dest) (p, st) = Inr (p1, st1)"
    and "(if present (page_tables st1 (?pg st1) (table_index dest)) then (p1, st1)
      else (p1, write_entry (?pg st1) (table_index dest) (setup_table_entry True source usr w) st1)) = (p', st')"
    using assms(2) d by (auto simp: map_page_def Let_def split: if_splits elim!: rbind_InrE)
  then have r: "p' = p1" "st' = st1 \<or> (\<exists>q i e. st' = write_entry q i e st1)"
    by (auto split: if_splits)
  have "grows p st p1 st1"
  proof (cases "present (page_tables st (d div PAGE_SIZE) (dir_index dest))")
    case True
    with e assms(1) show ?thesis by (auto simp: ensure_table_def grows_refl)
  next
    case False
    with e obtain pg st2 q q' i v where "reserve_pages cache_evict p 1 st = Inr (Some pg, p1, st2)"
      "st1 = clear_table q (write_entry q' i v st2)"
      by (auto simp: ensure_table_def split: option.splits elim!: rbind_InrE)
    with reserve_pages_grows [OF assms(1) zero_less_one] show ?thesis by (auto intro: grows_entries)
  qed
  with r show ?thesis by (auto intro: grows_entries)
qed

lemma mm_pagination_map_grows:
  assumes "mem_wf p st" "mm_pagination_map (p, st) start to n usr w = Inr (p', st')"
  shows "grows p st p' st'"
proof -
  have "map_pages start to is usr w (p, st) = Inr (p', st') \<Longrightarrow> mem_wf p st \<Longrightarrow> grows p st p' st'" for "is"
  proof (induction "is" arbitrary: p st)
    case (Cons i "is")
    then obtain p1 st1 where 1: "map_page ((start + i * 4096) mod 2 ^ 32) ((to + i * 4096) mod 2 ^ 32) usr w (p, st) = Inr (p1, st1)"
      "map_pages start to is usr w (p1, st1) = Inr (p', st')" by (auto elim!: rbind_InrE)
    have g: "grows p st p1 st1" by (rule map_page_grows [OF Cons.prems(2) 1(1)])
    with Cons.IH [OF 1(2)] show ?case by (auto simp: grows_def [of p st p1] intro: grows_trans [OF g])
  qed (simp add: grows_refl)
  then show ?thesis using assms by (simp add: mm_pagination_map_def)
qed

section \<open>The memory of a new process\<close>

abbreviation own :: "nat \<Rightarrow> 'z kernel_scheme \<Rightarrow> nat set" where
  "own a k \<equiv> owned_pages (reservedPages (p_mm (procs k a)))"

abbreviation tr :: "nat \<Rightarrow> 'z kernel_scheme \<Rightarrow> nat \<Rightarrow> nat option" where
  "tr a k x \<equiv> mm_translate_address (procs k a) (kmem k) x"

definition gains :: "nat \<Rightarrow> 'z kernel_scheme \<Rightarrow> 'z kernel_scheme \<Rightarrow> bool" where
  "gains a k k' \<longleftrightarrow> mem_wf (procs k' a) (kmem k') \<and> pool (procs k' a) (kmem k') = pool (procs k a) (kmem k) \<and>
     own a k \<subseteq> own a k'"

lemma gains_trans: "gains a k k1 \<Longrightarrow> gains a k1 k2 \<Longrightarrow> gains a k k2"
  unfolding gains_def by blast

lemma gains_mem: "gains a k k' \<Longrightarrow> mem_wf (procs k' a) (kmem k')"
  by (simp add: gains_def)

lemma upd_mm_simps [simp]:
  "kmem (upd_mm a g k) = kmem k" "p_mm (procs (upd_mm a g k) a) = g (p_mm (procs k a))"
  "ram (upd_mm a g k) = ram k"
  by (simp_all add: upd_mm_def)

text \<open>Only the page list of a process matters for the pages it has, and only its directory for translation.\<close>

lemma upd_mm_gains:
  assumes "mem_wf (procs k a) (kmem k)" "\<And>mm. reservedPages (g mm) = reservedPages mm"
  shows "gains a k (upd_mm a g k)"
proof -
  have "reservedPages (p_mm (procs (upd_mm a g k) a)) = reservedPages (p_mm (procs k a))" by (simp add: assms(2))
  with assms(1) show ?thesis by (simp add: gains_def pool_def mem_wf_def)
qed

lemma upd_mm_paging:
  assumes "\<And>mm. reservedPages (g mm) = reservedPages mm" "\<And>mm. directory (g mm) = directory mm"
  shows "tr a (upd_mm a g k) x = tr a k x"
    "paging_wf (procs (upd_mm a g k) a) (kmem k) = paging_wf (procs k a) (kmem k)"
  by (simp_all add: mm_translate_address_def paging_wf_def dir_page_def assms)

lemma reserve_for_ok:
  assumes "mem_wf (procs k a) (kmem k)" "0 < n" "reserve_for a n k = Inr (pg, k')"
  shows "gains a k k'" "pages_of pg \<subseteq> own a k'" "valid_pages pg" "pg_count pg = n"
    "\<exists>r. p_mm (procs k' a) = (p_mm (procs k a))\<lparr>reservedPages := r\<rparr>"
    "page_tables (kmem k') = page_tables (kmem k)" "pg_start pg mod 4096 = 0"
proof -
  obtain p m where r: "reserve_pages cache_evict (procs k a) n (kmem k) = Inr (Some pg, p, m)"
    "k' = k\<lparr>procs := (procs k)(a := p), kmem := m\<rparr>"
    using assms(3) by (auto simp: reserve_for_def split: option.splits elim!: rbind_InrE)
  note ok = reserve_pages_grows [OF assms(1,2) r(1)]
  show "gains a k k'" "pages_of pg \<subseteq> own a k'" "valid_pages pg" "pg_count pg = n"
    "\<exists>r. p_mm (procs k' a) = (p_mm (procs k a))\<lparr>reservedPages := r\<rparr>"
    using ok r(2) by (auto simp: grows_def gains_def)
  show "page_tables (kmem k') = page_tables (kmem k)"
    using page_tables_reserve [OF r(1)] r(2) by simp
  show "pg_start pg mod 4096 = 0" by (rule reserve_pages_aligned [OF r(1)])
qed

lemma map_for_gains:
  assumes "mem_wf (procs k a) (kmem k)" "map_for a start to n usr w k = Inr k'"
  shows "gains a k k'" "\<exists>r. p_mm (procs k' a) = (p_mm (procs k a))\<lparr>reservedPages := r\<rparr>"
proof -
  obtain p m where r: "mm_pagination_map (procs k a, kmem k) start to n usr w = Inr (p, m)"
    "k' = k\<lparr>procs := (procs k)(a := p), kmem := m\<rparr>"
    using assms(2) by (auto simp: map_for_def elim!: rbind_InrE)
  with mm_pagination_map_grows [OF assms(1) r(1)]
  show "gains a k k'" "\<exists>r. p_mm (procs k' a) = (p_mm (procs k a))\<lparr>reservedPages := r\<rparr>"
    by (auto simp: grows_def gains_def)
qed

lemma map_for_translates:
  assumes "mem_wf (procs k a) (kmem k)" "paging_wf (procs k a) (kmem k)" "map_for a start to n usr w k = Inr k'"
    and "start mod 4096 = 0" "to mod 4096 = 0" "start + n * 4096 \<le> 2 ^ 32" "to + n * 4096 \<le> 2 ^ 32"
  shows "paging_wf (procs k' a) (kmem k')"
    "\<And>x. x < 2 ^ 32 \<Longrightarrow> tr a k' x =
        (if to \<le> x \<and> x < to + n * 4096 \<and> tr a k x = None then Some (start + (x - to)) else tr a k x)"
proof -
  obtain p m where r: "mm_pagination_map (procs k a, kmem k) start to n usr w = Inr (p, m)"
    "k' = k\<lparr>procs := (procs k)(a := p), kmem := m\<rparr>"
    using assms(3) by (auto simp: map_for_def elim!: rbind_InrE)
  note ok = mm_pagination_map_ok [OF assms(1,2) r(1) assms(4-7)]
  from ok r(2) show "paging_wf (procs k' a) (kmem k')" by simp
  from ok r(2) show "\<And>x. x < 2 ^ 32 \<Longrightarrow> tr a k' x =
      (if to \<le> x \<and> x < to + n * 4096 \<and> tr a k x = None then Some (start + (x - to)) else tr a k x)" by simp
qed

text \<open>
  The window of virtual addresses of a new user stack, and what a mapping below it leaves there.
  \<open>low_pages\<close>: the machine's memory ends below the window, as do the kernel's descriptor tables.
\<close>

definition stack_window :: "nat set" where
  "stack_window = {STACK_TOP_MAPPING - 16 * 4096 ..< STACK_TOP_MAPPING}"

definition low_pages :: "kernel_image \<Rightarrow> nat set \<Rightarrow> bool" where
  "low_pages img S \<longleftrightarrow> S \<subseteq> {..< 3 * 2 ^ 18 - 16} \<and>
     (\<forall>t \<in> {img_idt img, img_gdt img, img_ts img}. t mod 4096 = 0 \<and> t + 4096 \<le> STACK_TOP_MAPPING - 16 * 4096)"

lemma low_region:
  assumes "low_pages img S" "pages_of pg \<subseteq> S" "pg_start pg mod 4096 = 0" "0 < pg_count pg"
  shows "pg_start pg + pg_count pg * 4096 \<le> STACK_TOP_MAPPING - 16 * 4096"
proof -
  have "pg_start pg div 4096 + pg_count pg - 1 \<in> pages_of pg"
    using assms(4) by (auto simp: pages_of_def PAGE_SIZE_def)
  with assms(1,2) have "pg_start pg div 4096 + pg_count pg - 1 < 3 * 2 ^ 18 - 16" by (auto simp: low_pages_def)
  with assms(4) have "pg_start pg div 4096 + pg_count pg \<le> 3 * 2 ^ 18 - 16" by linarith
  then have "(pg_start pg div 4096 + pg_count pg) * 4096 \<le> (3 * 2 ^ 18 - 16) * 4096" by (rule mult_le_mono1)
  moreover have "pg_start pg div 4096 * 4096 = pg_start pg" using assms(3) by auto
  ultimately show ?thesis by (simp add: STACK_TOP_MAPPING_def add_mult_distrib)
qed

text \<open>One step of the set-up of a directory: a region below the window is mapped.\<close>

definition dir_ready :: "nat \<Rightarrow> 'z kernel_scheme \<Rightarrow> bool" where
  "dir_ready a k \<longleftrightarrow> mem_wf (procs k a) (kmem k) \<and> paging_wf (procs k a) (kmem k) \<and> (\<forall>x \<in> stack_window. tr a k x = None)"

lemma map_for_below:
  assumes "dir_ready a k" "map_for a start start n usr w k = Inr k'"
    and "start mod 4096 = 0" "start + n * 4096 \<le> STACK_TOP_MAPPING - 16 * 4096"
  shows "dir_ready a k'" "gains a k k'" "\<exists>r. p_mm (procs k' a) = (p_mm (procs k a))\<lparr>reservedPages := r\<rparr>"
proof -
  have k: "mem_wf (procs k a) (kmem k)" "paging_wf (procs k a) (kmem k)" "\<forall>x \<in> stack_window. tr a k x = None"
    using assms(1) by (auto simp: dir_ready_def)
  have le: "start + n * 4096 \<le> 2 ^ 32" using assms(4) by (simp add: STACK_TOP_MAPPING_def)
  note g = map_for_gains [OF k(1) assms(2)] and t = map_for_translates [OF k(1,2) assms(2,3,3) le le]
  show "gains a k k'" "\<exists>r. p_mm (procs k' a) = (p_mm (procs k a))\<lparr>reservedPages := r\<rparr>" by (fact g)+
  have "tr a k' x = None" if "x \<in> stack_window" for x
  proof -
    have "x < 2 ^ 32" "\<not> x < start + n * 4096" using that assms(4) by (auto simp: stack_window_def STACK_TOP_MAPPING_def)
    with t(2) [of x] k(3) that show ?thesis by simp
  qed
  with t(1) gains_mem [OF g(1)] show "dir_ready a k'" by (auto simp: dir_ready_def)
qed

lemma new_directory_ready:
  assumes "mem_wf (procs k a) (kmem k)" "reserve_for a 1 k = Inr (pg, k1)"
    and "k2 = upd_mm a (\<lambda>mm. mm\<lparr>directory := Some (pg_start pg)\<rparr>)
               (k1\<lparr>kmem := mm_pagination_clear_directory (pg_start pg) (kmem k1)\<rparr>)"
  shows "dir_ready a k2 \<and> gains a k k2 \<and>
     (\<exists>r. p_mm (procs k2 a) = (p_mm (procs k a))\<lparr>reservedPages := r, directory := Some (pg_start pg)\<rparr>)"
proof -
  note r = reserve_for_ok [OF assms(1) zero_less_one assms(2)]
  let ?m = "mm_pagination_clear_directory (pg_start pg) (kmem k1)"
  have same: "mem_wf p ?m = mem_wf p (kmem k1)" "pool p ?m = pool p (kmem k1)" for p
    by (simp_all add: mm_pagination_clear_directory_def Let_def mem_wf_tables)
  have "mem_wf (procs k2 a) (kmem k2)" "own a k2 = own a k1" "pool (procs k2 a) (kmem k2) = pool (procs k1 a) (kmem k1)"
    using gains_mem [OF r(1)] same by (simp_all add: assms(3) pool_def mem_wf_def upd_mm_def)
  note base = this
  have dp: "dir_page (procs k2 a) = pg_start pg div PAGE_SIZE" "directory (p_mm (procs k2 a)) \<noteq> None"
    by (simp_all add: dir_page_def assms(3))
  have abs: "\<not> present (page_tables (kmem k2) (dir_page (procs k2 a)) i)" if "i < 1024" for i
    using that unfolding dp by (simp add: assms(3) mm_pagination_clear_directory_def Let_def setup_directory_entry_def)
  have "dir_page (procs k2 a) \<in> own a k2"
    using r(2,4) unfolding dp by (auto simp: assms(3) pages_of_def upd_mm_def)
  then have "paging_wf (procs k2 a) (kmem k2)"
    unfolding paging_wf_def using abs dp(2) by (auto intro!: inj_onI)
  moreover have "tr a k2 x = None" for x
    using abs dp(2) by (simp add: translate_some Let_def)
  moreover have "\<exists>r. p_mm (procs k2 a) = (p_mm (procs k a))\<lparr>reservedPages := r, directory := Some (pg_start pg)\<rparr>"
    using r(5) by (auto simp: assms(3))
  ultimately show ?thesis using r(1) base unfolding dir_ready_def gains_def by simp
qed

definition same_mm :: "nat \<Rightarrow> 'z kernel_scheme \<Rightarrow> 'z kernel_scheme \<Rightarrow> bool" where
  "same_mm a k k' \<longleftrightarrow> (\<exists>r. p_mm (procs k' a) = (p_mm (procs k a))\<lparr>reservedPages := r\<rparr>)"

lemma same_mm_trans: "same_mm a k k1 \<Longrightarrow> same_mm a k1 k2 \<Longrightarrow> same_mm a k k2"
  by (auto simp: same_mm_def)

lemma same_mm_fields:
  "same_mm a k k' \<Longrightarrow> kernelStack (p_mm (procs k' a)) = kernelStack (p_mm (procs k a)) \<and>
     pagesInKernelStack (p_mm (procs k' a)) = pagesInKernelStack (p_mm (procs k a)) \<and>
     mallocContext (p_mm (procs k' a)) = mallocContext (p_mm (procs k a)) \<and>
     pagesInHeap (p_mm (procs k' a)) = pagesInHeap (p_mm (procs k a)) \<and>
     esp (p_mm (procs k' a)) = esp (p_mm (procs k a)) \<and>
     pagesInStack (p_mm (procs k' a)) = pagesInStack (p_mm (procs k a)) \<and>
     directory (p_mm (procs k' a)) = directory (p_mm (procs k a))"
  by (auto simp: same_mm_def)

text \<open>The mapped state so far: the directory is ready and pages came only from the pool of \<open>k\<close>.\<close>

definition dir_step :: "nat \<Rightarrow> 'z kernel_scheme \<Rightarrow> 'z kernel_scheme \<Rightarrow> bool" where
  "dir_step a k k' \<longleftrightarrow> dir_ready a k' \<and> gains a k k' \<and> same_mm a k k'"

lemma map_for_step:
  assumes "dir_step a k k1" "map_for a start start n usr w k1 = Inr k2"
    and "start mod 4096 = 0" "start + n * 4096 \<le> STACK_TOP_MAPPING - 16 * 4096"
  shows "dir_step a k k2"
  using map_for_below [OF _ assms(2-4)] assms(1) gains_trans [of a k k1 k2] same_mm_trans [of a k k1 k2]
  by (simp add: dir_step_def same_mm_def)

definition has_region :: "nat \<Rightarrow> 'z kernel_scheme \<Rightarrow> nat \<Rightarrow> nat \<Rightarrow> bool" where
  "has_region a k start n \<longleftrightarrow> start mod 4096 = 0 \<and> 0 < n \<and>
     pages_of \<lparr>pg_start = start, pg_count = n\<rparr> \<subseteq> own a k"

lemma region_low:
  assumes "has_region a k start n" "low_pages img (pool (procs k a) (kmem k))"
  shows "start + n * 4096 \<le> STACK_TOP_MAPPING - 16 * 4096" "start mod 4096 = 0"
  using low_region [OF assms(2), of "\<lparr>pg_start = start, pg_count = n\<rparr>"] assms(1)
  by (auto simp: has_region_def pool_def)

lemma setup_user_directory:
  assumes mem: "mem_wf (procs k a) (kmem k)" and run: "setup_page_directory img a False k = Inr k'"
    and low: "low_pages img (pool (procs k a) (kmem k))"
    and ks: "kernelStack (p_mm (procs k a)) = ksb + pagesInKernelStack (p_mm (procs k a)) * 4096"
      "has_region a k ksb (pagesInKernelStack (p_mm (procs k a)))"
    and heap: "mallocContext (p_mm (procs k a)) = Some c" "has_region a k c (pagesInHeap (p_mm (procs k a)))"
    and stack: "esp (p_mm (procs k a)) = sb + 16 * 4096" "pagesInStack (p_mm (procs k a)) = 16" "has_region a k sb 16"
  shows "gains a k k' \<and> paging_wf (procs k' a) (kmem k') \<and>
     (\<forall>x \<in> stack_window. tr a k' x = Some (sb + (x - (STACK_TOP_MAPPING - 16 * 4096))))"
proof -
  obtain pg k1 k2 k3 k4 k5 k6 k7 k8 where c: "reserve_for a 1 k = Inr (pg, k1)"
    "k2 = upd_mm a (\<lambda>mm. mm\<lparr>directory := Some (pg_start pg)\<rparr>)
                   (k1\<lparr>kmem := mm_pagination_clear_directory (pg_start pg) (kmem k1)\<rparr>)"
    "map_for a 0 0 1024 True True k2 = Inr k3"
    "map_for a (img_idt img) (img_idt img) 1 False False k3 = Inr k4"
    "map_for a (img_gdt img) (img_gdt img) 1 False False k4 = Inr k5"
    "map_for a (img_ts img) (img_ts img) 1 False False k5 = Inr k6"
    "map_for a (kernelStack (p_mm (procs k6 a)) - pagesInKernelStack (p_mm (procs k6 a)) * PAGE_SIZE)
       (kernelStack (p_mm (procs k6 a)) - pagesInKernelStack (p_mm (procs k6 a)) * PAGE_SIZE)
       (pagesInKernelStack (p_mm (procs k6 a))) False True k6 = Inr k7"
    "(case mallocContext (p_mm (procs k6 a)) of None \<Rightarrow> Inr k7
      | Some c \<Rightarrow> map_for a c c (pagesInHeap (p_mm (procs k6 a))) True True k7) = Inr k8"
    "(if esp (p_mm (procs k6 a)) \<noteq> 0
      then map_for a (esp (p_mm (procs k6 a)) - pagesInStack (p_mm (procs k6 a)) * PAGE_SIZE)
        (STACK_TOP_MAPPING - pagesInStack (p_mm (procs k6 a)) * PAGE_SIZE) (pagesInStack (p_mm (procs k6 a))) True True k8
      else Inr k8) = Inr k'"
    using run by (auto simp: setup_page_directory_def Let_def elim!: rbind_InrE)
  from new_directory_ready [OF mem c(1,2)] obtain r where
    n: "dir_ready a k2" "gains a k k2" "p_mm (procs k2 a) = (p_mm (procs k a))\<lparr>reservedPages := r, directory := Some (pg_start pg)\<rparr>"
    by auto
  have img: "img_idt img mod 4096 = 0" "img_idt img + 1 * 4096 \<le> STACK_TOP_MAPPING - 16 * 4096"
    "img_gdt img mod 4096 = 0" "img_gdt img + 1 * 4096 \<le> STACK_TOP_MAPPING - 16 * 4096"
    "img_ts img mod 4096 = 0" "img_ts img + 1 * 4096 \<le> STACK_TOP_MAPPING - 16 * 4096"
    using low by (auto simp: low_pages_def)
  have "dir_step a k2 k2" using n(1) by (auto simp: dir_step_def dir_ready_def gains_def same_mm_def
        intro!: exI [of _ "reservedPages (p_mm (procs k2 a))"])
  then have "dir_step a k2 k3" using c(3) by (rule map_for_step) (simp_all add: STACK_TOP_MAPPING_def)
  then have "dir_step a k2 k4" using c(4) img(1,2) by (rule map_for_step)
  then have "dir_step a k2 k5" using c(5) img(3,4) by (rule map_for_step)
  then have s6: "dir_step a k2 k6" using c(6) img(5,6) by (rule map_for_step)
  then have mm6: "kernelStack (p_mm (procs k6 a)) = ksb + pagesInKernelStack (p_mm (procs k a)) * 4096"
    "pagesInKernelStack (p_mm (procs k6 a)) = pagesInKernelStack (p_mm (procs k a))"
    "mallocContext (p_mm (procs k6 a)) = Some c" "pagesInHeap (p_mm (procs k6 a)) = pagesInHeap (p_mm (procs k a))"
    "esp (p_mm (procs k6 a)) = sb + 16 * 4096" "pagesInStack (p_mm (procs k6 a)) = 16"
    using same_mm_fields [of a k2 k6] ks(1) heap(1) stack by (simp_all add: dir_step_def n(3))
  have m7: "map_for a ksb ksb (pagesInKernelStack (p_mm (procs k a))) False True k6 = Inr k7"
    and m8: "map_for a c c (pagesInHeap (p_mm (procs k a))) True True k7 = Inr k8"
    and m9: "map_for a sb (STACK_TOP_MAPPING - 16 * 4096) 16 True True k8 = Inr k'"
    using c(7-9) by (simp_all add: mm6 PAGE_SIZE_def)
  have "dir_step a k2 k7" using s6 m7 region_low(2,1) [OF ks(2) low] by (rule map_for_step)
  then have "dir_step a k2 k8" using m8 region_low(2,1) [OF heap(2) low] by (rule map_for_step)
  then have k8: "gains a k k8" "mem_wf (procs k8 a) (kmem k8)" "paging_wf (procs k8 a) (kmem k8)"
    "\<forall>x \<in> stack_window. tr a k8 x = None"
    using gains_trans [OF n(2)] by (auto simp: dir_step_def dir_ready_def)
  have al: "sb mod 4096 = 0" "(STACK_TOP_MAPPING - 16 * 4096) mod 4096 = 0" "sb + 16 * 4096 \<le> 2 ^ 32"
    "STACK_TOP_MAPPING - 16 * 4096 + 16 * 4096 \<le> 2 ^ 32"
    using region_low [OF stack(3) low] by (simp_all add: STACK_TOP_MAPPING_def)
  note t = map_for_translates [OF k8(2,3) m9 al]
  have "tr a k' x = Some (sb + (x - (STACK_TOP_MAPPING - 16 * 4096)))" if "x \<in> stack_window" for x
  proof -
    have "x < 2 ^ 32" "STACK_TOP_MAPPING - 16 * 4096 \<le> x" "x < STACK_TOP_MAPPING - 16 * 4096 + 16 * 4096"
      using that by (auto simp: stack_window_def STACK_TOP_MAPPING_def)
    with t(2) [of x] k8(4) that show ?thesis by simp
  qed
  with t(1) gains_trans [OF k8(1) map_for_gains(1) [OF k8(2) m9]] show ?thesis by blast
qed

lemma has_region_mono: "has_region a k start n \<Longrightarrow> gains a k k' \<Longrightarrow> has_region a k' start n"
  by (auto simp: has_region_def gains_def)

lemma reserve_for_region:
  assumes "mem_wf (procs k a) (kmem k)" "0 < n" "reserve_for a n k = Inr (pg, k')"
  shows "gains a k k'" "has_region a k' (pg_start pg) n" "same_mm a k k'"
  using reserve_for_ok [OF assms] assms(2) by (auto simp: has_region_def same_mm_def pages_of_def)

lemma reserve_for_paging:
  assumes "mem_wf (procs k a) (kmem k)" "0 < n" "reserve_for a n k = Inr (pg, k')" "paging_wf (procs k a) (kmem k)"
  shows "paging_wf (procs k' a) (kmem k')" "tr a k' x = tr a k x"
proof -
  note r = reserve_for_ok [OF assms(1-3)]
  have d: "directory (p_mm (procs k' a)) = directory (p_mm (procs k a))" using r(5) by auto
  then have dp: "dir_page (procs k' a) = dir_page (procs k a)" by (simp add: dir_page_def)
  have sub: "own a k \<subseteq> own a k'" using r(1) by (simp add: gains_def)
  show "paging_wf (procs k' a) (kmem k')"
    using assms(4) sub unfolding paging_wf_def d dp r(6) by blast
  show "tr a k' x = tr a k x" by (simp only: mm_translate_address_def d r(6))
qed

text \<open>The memory of a new user process.\<close>

lemma create_memory_user:
  assumes ok: "cache_wf (kmem k)" "free_set (pageMap (kmem k)) \<union> held (kmem k) \<subseteq> {..<MAPPABLE_PAGES}"
    and low: "low_pages img (free_set (pageMap (kmem k)) \<union> held (kmem k))"
    and run: "create_memory img a False k = Inr k'"
  shows "mem_wf (procs k' a) (kmem k') \<and> paging_wf (procs k' a) (kmem k') \<and>
     pool (procs k' a) (kmem k') = free_set (pageMap (kmem k)) \<union> held (kmem k) \<and>
     (\<forall>x \<in> stack_window. \<exists>f. tr a k' x = Some f \<and> f div 4096 \<in> own a k')"
proof -
  define k0 where "k0 = upd_mm a (\<lambda>mm. mm\<lparr>reservedPages := [], pagesInKernelStack := KERNEL_STACK_PAGES\<rparr>) k"
  obtain ks k1 k2 hp k3 k4 st k5 k6 k7 ug k8 k9 m where c: "reserve_for a KERNEL_STACK_PAGES k0 = Inr (ks, k1)"
    "k2 = upd_mm a (\<lambda>mm. mm\<lparr>pagesInHeap := 256\<rparr>) (upd_mm a (\<lambda>mm. mm\<lparr>esp0 := pg_start ks + PAGE_SIZE * KERNEL_STACK_PAGES,
        kernelStack := pg_start ks + PAGE_SIZE * KERNEL_STACK_PAGES\<rparr>) k1)"
    "reserve_for a 256 k2 = Inr (hp, k3)"
    "k4 = upd_mm a (\<lambda>mm. mm\<lparr>pagesInStack := 16\<rparr>) (upd_mm a (\<lambda>mm. mm\<lparr>mallocContext := Some (mm_create_context (pg_start hp))\<rparr>) k3)"
    "reserve_for a 16 k4 = Inr (st, k5)"
    "k6 = upd_mm a (\<lambda>mm. mm\<lparr>esp := pg_start st + PAGE_SIZE * 16\<rparr>) k5"
    "setup_page_directory img a False k6 = Inr k7" "reserve_for a 1 k7 = Inr (ug, k8)"
    "map_for a (pg_start ug) STACK_TOP_MAPPING 1 True True k8 = Inr k9" "k' = k9\<lparr>ram := m\<rparr>"
    using run by (auto simp: create_memory_def Let_def k0_def elim!: rbind_InrE)
  have KS: "0 < KERNEL_STACK_PAGES" by (simp add: KERNEL_STACK_PAGES_def)
  have m0: "mem_wf (procs k0 a) (kmem k0)" and p0: "pool (procs k0 a) (kmem k0) = free_set (pageMap (kmem k)) \<union> held (kmem k)"
    using ok by (simp_all add: k0_def mem_wf_def pool_def owner_invar_def owned_pages_def)
  note r1 = reserve_for_region [OF m0 KS c(1)]
  have u2: "gains a k1 k2" unfolding c(2)
    by (rule gains_trans; rule upd_mm_gains) (use gains_mem [OF r1(1)] in \<open>simp_all add: mem_wf_def\<close>)
  have sz: "0 < (256 :: nat)" "0 < (16 :: nat)" by simp_all
  note r3 = reserve_for_region [OF gains_mem [OF u2] sz(1) c(3)]
  have u4: "gains a k3 k4" unfolding c(4)
    by (rule gains_trans; rule upd_mm_gains) (use gains_mem [OF r3(1)] in \<open>simp_all add: mem_wf_def\<close>)
  note r5 = reserve_for_region [OF gains_mem [OF u4] sz(2) c(5)]
  have u6: "gains a k5 k6" unfolding c(6) by (rule upd_mm_gains) (use gains_mem [OF r5(1)] in simp_all)
  note g36 = gains_trans [OF u4 gains_trans [OF r5(1) u6]]
  note g16 = gains_trans [OF u2 gains_trans [OF r3(1) g36]]
  have g06: "gains a k0 k6" by (rule gains_trans [OF r1(1) g16])
  have mm: "p_mm (procs k6 a) = (p_mm (procs k5 a))\<lparr>esp := pg_start st + PAGE_SIZE * 16\<rparr>" by (simp add: c(6))
  have f5: "pagesInStack (p_mm (procs k5 a)) = 16" "mallocContext (p_mm (procs k5 a)) = Some (pg_start hp)"
    "pagesInHeap (p_mm (procs k5 a)) = pagesInHeap (p_mm (procs k3 a))"
    "kernelStack (p_mm (procs k5 a)) = kernelStack (p_mm (procs k3 a))"
    "pagesInKernelStack (p_mm (procs k5 a)) = pagesInKernelStack (p_mm (procs k3 a))"
    using same_mm_fields [OF r5(3)] by (simp_all add: c(4) mm_create_context_def)
  have f3: "pagesInHeap (p_mm (procs k3 a)) = 256" "kernelStack (p_mm (procs k3 a)) = pg_start ks + 10 * 4096"
    "pagesInKernelStack (p_mm (procs k3 a)) = 10"
    using same_mm_fields [OF r3(3)] same_mm_fields [OF r1(3)]
    by (simp_all add: c(2) k0_def KERNEL_STACK_PAGES_def PAGE_SIZE_def)
  have reg: "has_region a k6 (pg_start ks) 10" "has_region a k6 (pg_start hp) 256" "has_region a k6 (pg_start st) 16"
    using has_region_mono [OF r1(2) g16] has_region_mono [OF r3(2) g36] has_region_mono [OF r5(2) u6]
    by (simp_all add: KERNEL_STACK_PAGES_def)
  have low6: "low_pages img (pool (procs k6 a) (kmem k6))"
    using low g06 p0 by (auto simp: low_pages_def gains_def)
  have s: "gains a k6 k7 \<and> paging_wf (procs k7 a) (kmem k7) \<and>
     (\<forall>x \<in> stack_window. tr a k7 x = Some (pg_start st + (x - (STACK_TOP_MAPPING - 16 * 4096))))"
    by (rule setup_user_directory [OF gains_mem [OF g06] c(7) low6, of "pg_start ks" "pg_start hp" "pg_start st"])
      (use reg in \<open>simp_all add: mm f5 f3 PAGE_SIZE_def\<close>)
  have m7: "mem_wf (procs k7 a) (kmem k7)" using s gains_mem by blast
  note r8 = reserve_for_region [OF m7 zero_less_one c(8)] and p8 = reserve_for_paging [OF m7 zero_less_one c(8)]
  note m8 = gains_mem [OF r8(1)]
  have g09: "gains a k0 k9" "gains a k6 k9"
    using gains_trans [OF conjunct1 [OF s] gains_trans [OF r8(1) map_for_gains(1) [OF m8 c(9)]]] gains_trans [OF g06]
    by blast+
  have "low_pages img (pool (procs k8 a) (kmem k8))"
    using low6 s r8(1) by (auto simp: low_pages_def gains_def)
  note ug = region_low [OF r8(2) this]
  have al: "STACK_TOP_MAPPING mod 4096 = 0" "pg_start ug + 1 * 4096 \<le> 2 ^ 32" "STACK_TOP_MAPPING + 1 * 4096 \<le> 2 ^ 32"
    using ug(1) by (simp_all add: STACK_TOP_MAPPING_def)
  note t9 = map_for_translates [OF m8 p8(1) c(9) ug(2) al(1-3)]
  have "\<exists>f. tr a k9 x = Some f \<and> f div 4096 \<in> own a k9" if x: "x \<in> stack_window" for x
  proof -
    let ?o = "x - (STACK_TOP_MAPPING - 16 * 4096)"
    have "x < 2 ^ 32" "x < STACK_TOP_MAPPING" "?o < 16 * 4096" using x by (auto simp: stack_window_def STACK_TOP_MAPPING_def)
    then have "tr a k9 x = Some (pg_start st + ?o)" using t9(2) [of x] p8(2) [of x] s x by simp
    moreover have "(pg_start st + ?o) div 4096 = pg_start st div 4096 + ?o div 4096"
      using reg(3) by (auto simp: has_region_def)
    moreover have "?o div 4096 < 16" using \<open>?o < 16 * 4096\<close> by (simp add: less_mult_imp_div_less)
    ultimately have "(pg_start st + ?o) div 4096 \<in> own a k6"
      using reg(3) by (auto simp: has_region_def pages_of_def PAGE_SIZE_def subset_iff)
    with g09(2) \<open>tr a k9 x = Some (pg_start st + ?o)\<close> show ?thesis by (auto simp: gains_def)
  qed
  with c(10) g09(1) t9(1) p0 s p8(1) show ?thesis by (auto simp: gains_def)
qed

section \<open>Creation succeeds\<close>

text \<open>At least \<open>j\<close> consecutive free pages and kernel objects: each reservation uses up what it takes.\<close>

definition spare :: "'z page_state_scheme \<Rightarrow> nat \<Rightarrow> bool" where
  "spare st j \<longleftrightarrow> j \<le> pm_kalloc st \<and> (\<exists>b. free_run (pageMap st) b j)"

lemma spare_mono: "spare st j \<Longrightarrow> i \<le> j \<Longrightarrow> spare st i"
  unfolding spare_def free_run_def by (auto intro: order_trans)

lemma spare_reserve:
  assumes "spare st (n + j)" "0 < n"
  obtains pg p' st' where "reserve_pages ev p n st = Inr (Some pg, p', st')" "spare st' j"
    "p' = p\<lparr>p_mm := (p_mm p)\<lparr>reservedPages := pg # reservedPages (p_mm p)\<rparr>\<rparr>"
proof -
  obtain b where b: "free_run (pageMap st) b (n + j)" and ka: "n + j \<le> pm_kalloc st"
    using assms(1) by (auto simp: spare_def)
  have run: "free_run (pageMap st) b n" using b by (auto simp: free_run_def)
  obtain s m where fp: "find_pages (pageMap st) n = (s, m)" by fastforce
  obtain a where a: "s \<noteq> 0" "s = a * PAGE_SIZE" "a \<le> b" "free_set m = free_set (pageMap st) - {a ..< a + n}"
  proof (rule find_pages_cases [OF assms(2), of "pageMap st"])
    fix a assume f: "find_pages (pageMap st) n = (a * PAGE_SIZE, set_run setPage (pageMap st) a n)"
      "\<forall>b. free_run (pageMap st) b n \<longrightarrow> a \<le> b" "0 < a"
    have nz: "a * PAGE_SIZE \<noteq> 0" using f(3) by simp
    have "pages_of \<lparr>pg_start = a * PAGE_SIZE, pg_count = n\<rparr> = {a ..< a + n}" by (simp add: pages_of_def)
    with free_set_find_pages(3) [OF f(1) nz assms(2)] f fp run nz show thesis by (intro that) auto
  qed (use run in auto)
  have ev: "allocPages ev n st = (s, st\<lparr>pageMap := m\<rparr>)" using fp a(1) by (simp add: allocPages_def)
  let ?st = "st\<lparr>pageMap := m, pm_kalloc := pm_kalloc st - 1\<rparr>"
  have "page_free m (b + n + i)" if "i < j" for i
  proof -
    have "b + n + i \<in> free_set (pageMap st)" "b + n + i \<notin> {a ..< a + n}"
      using b a(3) that by (auto simp: free_run_def free_set_def add.assoc)
    then have "b + n + i \<in> free_set m" by (simp only: a(4) Diff_iff simp_thms)
    then show ?thesis by (simp add: free_set_def)
  qed
  then have "free_run m (b + n) j" using b by (auto simp: free_run_def)
  then have "spare ?st j" using ka assms(2) by (auto simp: spare_def)
  with ev a(1) ka assms(2) show ?thesis
    by (intro that) (auto simp: reserve_pages_def Let_def)
qed

lemma spare_tables [simp]: "spare (st\<lparr>page_tables := t\<rparr>) j = spare st j"
  by (simp add: spare_def)

lemma spare_entries [simp]:
  "spare (write_entry q i e st) j = spare st j" "spare (clear_table q st) j = spare st j"
  "spare (mm_pagination_clear_directory d st) j = spare st j"
  by (simp_all add: write_entry_def clear_table_def mm_pagination_clear_directory_def Let_def)

lemma spare_map_page:
  assumes "spare st (Suc j)" "directory (p_mm p) = Some d"
  obtains p' st' where "map_page source dest usr w (p, st) = Inr (p', st')" "spare st' j"
    "\<exists>r. p' = p\<lparr>p_mm := (p_mm p)\<lparr>reservedPages := r\<rparr>\<rparr>"
proof -
  let ?D = "d div PAGE_SIZE" and ?i = "dir_index dest"
  have "\<exists>p1 st1. ensure_table ?D ?i (p, st) = Inr (p1, st1) \<and> spare st1 j \<and>
      (\<exists>r. p1 = p\<lparr>p_mm := (p_mm p)\<lparr>reservedPages := r\<rparr>\<rparr>)"
  proof (cases "present (page_tables st ?D ?i)")
    case True
    then show ?thesis using spare_mono [OF assms(1), of j]
      by (auto simp: ensure_table_def intro!: exI [of _ "reservedPages (p_mm p)"])
  next
    case False
    have sp: "spare st (1 + j)" using assms(1) by simp
    obtain pg p1 st1 where "reserve_pages cache_evict p 1 st = Inr (Some pg, p1, st1)" "spare st1 j"
      "p1 = p\<lparr>p_mm := (p_mm p)\<lparr>reservedPages := pg # reservedPages (p_mm p)\<rparr>\<rparr>"
      by (rule spare_reserve [OF sp zero_less_one, where ev = cache_evict and p = p])
    with False show ?thesis by (auto simp: ensure_table_def)
  qed
  then obtain p1 st1 where e: "ensure_table ?D ?i (p, st) = Inr (p1, st1)" "spare st1 j"
    "\<exists>r. p1 = p\<lparr>p_mm := (p_mm p)\<lparr>reservedPages := r\<rparr>\<rparr>" by blast
  let ?t = "pageAddress (page_tables st1 ?D ?i)"
  have "map_page source dest usr w (p, st) = Inr (p1, if present (page_tables st1 ?t (table_index dest)) then st1
      else write_entry ?t (table_index dest) (setup_table_entry True source usr w) st1)"
    by (simp add: map_page_def assms(2) e(1) Let_def)
  then show ?thesis by (rule that) (use e(2,3) in auto)
qed

lemma spare_map:
  assumes "spare st (n + j)" "directory (p_mm p) = Some d"
  obtains p' st' where "mm_pagination_map (p, st) start to n usr w = Inr (p', st')" "spare st' j"
    "\<exists>r. p' = p\<lparr>p_mm := (p_mm p)\<lparr>reservedPages := r\<rparr>\<rparr>"
proof -
  have "\<exists>p' st'. map_pages start to is usr w (p, st) = Inr (p', st') \<and> spare st' j \<and>
      (\<exists>r. p' = p\<lparr>p_mm := (p_mm p)\<lparr>reservedPages := r\<rparr>\<rparr>)"
    if "spare st (length is + j)" "directory (p_mm p) = Some d" for "is" p and st :: "'a mm_state_scheme"
    using that
  proof (induction "is" arbitrary: p st)
    case Nil
    then show ?case by (auto intro!: exI [of _ "reservedPages (p_mm p)"])
  next
    case (Cons i "is")
    have "spare st (Suc (length is + j))" using Cons.prems(1) by simp
    then obtain p1 st1 where 1: "map_page ((start + i * 4096) mod 2 ^ 32) ((to + i * 4096) mod 2 ^ 32) usr w (p, st) = Inr (p1, st1)"
      "spare st1 (length is + j)" "\<exists>r. p1 = p\<lparr>p_mm := (p_mm p)\<lparr>reservedPages := r\<rparr>\<rparr>"
      using Cons.prems(2) by (rule spare_map_page)
    have d1: "directory (p_mm p1) = Some d" using 1(3) Cons.prems(2) by auto
    from Cons.IH [OF 1(2) d1] 1 show ?case by auto
  qed
  from this [of st "[0..<n]" p] assms that show ?thesis by (auto simp: mm_pagination_map_def)
qed

lemma reserve_for_succeeds:
  assumes "spare (kmem k) (n + j)" "0 < n"
  obtains pg k' where "reserve_for a n k = Inr (pg, k')" "spare (kmem k') j"
    "\<exists>r. p_mm (procs k' a) = (p_mm (procs k a))\<lparr>reservedPages := r\<rparr>"
proof -
  obtain pg p' m where "reserve_pages cache_evict (procs k a) n (kmem k) = Inr (Some pg, p', m)" "spare m j"
    "p' = (procs k a)\<lparr>p_mm := (p_mm (procs k a))\<lparr>reservedPages := pg # reservedPages (p_mm (procs k a))\<rparr>\<rparr>"
    by (rule spare_reserve [OF assms, where ev = cache_evict and p = "procs k a"])
  then show ?thesis
    by (intro that [of pg "k\<lparr>procs := (procs k)(a := p'), kmem := m\<rparr>"]) (auto simp: reserve_for_def)
qed

lemma map_for_succeeds:
  assumes "spare (kmem k) (n + j)" "directory (p_mm (procs k a)) = Some d"
  obtains k' where "map_for a start to n usr w k = Inr k'" "spare (kmem k') j"
    "\<exists>r. p_mm (procs k' a) = (p_mm (procs k a))\<lparr>reservedPages := r\<rparr>"
proof -
  obtain p' m where "mm_pagination_map (procs k a, kmem k) start to n usr w = Inr (p', m)" "spare m j"
    "\<exists>r. p' = (procs k a)\<lparr>p_mm := (p_mm (procs k a))\<lparr>reservedPages := r\<rparr>\<rparr>"
    by (rule spare_map [OF assms])
  then show ?thesis
    by (intro that [of "k\<lparr>procs := (procs k)(a := p'), kmem := m\<rparr>"]) (auto simp: map_for_def)
qed

lemma spare_upd_mm [simp]: "spare (kmem (upd_mm a g k)) j = spare (kmem k) j"
  by simp

lemma setup_page_directory_succeeds:
  assumes "spare (kmem k) (1028 + (pagesInKernelStack (p_mm (procs k a)) +
      ((case mallocContext (p_mm (procs k a)) of None \<Rightarrow> 0 | Some c \<Rightarrow> pagesInHeap (p_mm (procs k a))) +
      (pagesInStack (p_mm (procs k a)) + j))))"
  obtains k' where "setup_page_directory img a False k = Inr k'" "spare (kmem k') j"
    "\<exists>d. directory (p_mm (procs k' a)) = Some d"
proof -
  define mm where "mm = p_mm (procs k a)"
  define h where "h = (case mallocContext mm of None \<Rightarrow> 0 | Some c \<Rightarrow> pagesInHeap mm)"
  define f where "f = (\<lambda>p :: ProcessMemory. (kernelStack p, pagesInKernelStack p, mallocContext p, pagesInHeap p, esp p, pagesInStack p))"
  note a' = assms [folded mm_def, folded h_def]
  have s1: "spare (kmem k) (1 + (1024 + (1 + (1 + (1 + (pagesInKernelStack mm + (h + (pagesInStack mm + j))))))))"
    by (rule spare_mono [OF a']) simp
  obtain pg k1 where 1: "reserve_for a 1 k = Inr (pg, k1)" and s2: "spare (kmem k1) (1024 + (1 + (1 + (1 + (pagesInKernelStack mm + (h + (pagesInStack mm + j)))))))"
    and m1: "f (p_mm (procs k1 a)) = f mm"
    by (rule reserve_for_succeeds [OF s1 zero_less_one, of a]) (auto simp: mm_def f_def)
  define k2 where "k2 = upd_mm a (\<lambda>mm. mm\<lparr>directory := Some (pg_start pg)\<rparr>)
     (k1\<lparr>kmem := mm_pagination_clear_directory (pg_start pg) (kmem k1)\<rparr>)"
  have m2: "f (p_mm (procs k2 a)) = f mm" "directory (p_mm (procs k2 a)) = Some (pg_start pg)"
    using m1 by (simp_all add: k2_def f_def upd_mm_def)
  have s2': "spare (kmem k2) (1024 + (1 + (1 + (1 + (pagesInKernelStack mm + (h + (pagesInStack mm + j)))))))"
    using s2 by (simp add: k2_def)
  obtain k3 where 3: "map_for a 0 0 1024 True True k2 = Inr k3" and s3: "spare (kmem k3) (1 + (1 + (1 + (pagesInKernelStack mm + (h + (pagesInStack mm + j))))))"
    and m3: "f (p_mm (procs k3 a)) = f mm" "directory (p_mm (procs k3 a)) = Some (pg_start pg)"
    by (rule map_for_succeeds [OF s2' m2(2), of 0 0 True True]) (use m2 in \<open>auto simp: f_def\<close>)
  obtain k4 where 4: "map_for a (img_idt img) (img_idt img) 1 False False k3 = Inr k4"
    and s4: "spare (kmem k4) (1 + (1 + (pagesInKernelStack mm + (h + (pagesInStack mm + j)))))"
    and m4: "f (p_mm (procs k4 a)) = f mm" "directory (p_mm (procs k4 a)) = Some (pg_start pg)"
    by (rule map_for_succeeds [OF s3 m3(2), of "img_idt img" "img_idt img" False False]) (use m3 in \<open>auto simp: f_def\<close>)
  obtain k5 where 5: "map_for a (img_gdt img) (img_gdt img) 1 False False k4 = Inr k5"
    and s5: "spare (kmem k5) (1 + (pagesInKernelStack mm + (h + (pagesInStack mm + j))))"
    and m5: "f (p_mm (procs k5 a)) = f mm" "directory (p_mm (procs k5 a)) = Some (pg_start pg)"
    by (rule map_for_succeeds [OF s4 m4(2), of "img_gdt img" "img_gdt img" False False]) (use m4 in \<open>auto simp: f_def\<close>)
  obtain k6 where 6: "map_for a (img_ts img) (img_ts img) 1 False False k5 = Inr k6"
    and s6: "spare (kmem k6) (pagesInKernelStack mm + (h + (pagesInStack mm + j)))"
    and m6: "f (p_mm (procs k6 a)) = f mm" "directory (p_mm (procs k6 a)) = Some (pg_start pg)"
    by (rule map_for_succeeds [OF s5 m5(2), of "img_ts img" "img_ts img" False False]) (use m5 in \<open>auto simp: f_def\<close>)
  let ?kb = "kernelStack mm - pagesInKernelStack mm * PAGE_SIZE"
  obtain k7 where 7: "map_for a ?kb ?kb (pagesInKernelStack mm) False True k6 = Inr k7"
    and s7: "spare (kmem k7) (h + (pagesInStack mm + j))" and m7: "directory (p_mm (procs k7 a)) = Some (pg_start pg)"
    by (rule map_for_succeeds [OF s6 m6(2), of ?kb ?kb False True]) (use m6 in \<open>auto simp: f_def\<close>)
  obtain k8 where 8: "(case mallocContext mm of None \<Rightarrow> Inr k7 | Some c \<Rightarrow> map_for a c c (pagesInHeap mm) True True k7) = Inr k8"
    and s8: "spare (kmem k8) (pagesInStack mm + j)" and m8: "directory (p_mm (procs k8 a)) = Some (pg_start pg)"
  proof (cases "mallocContext mm")
    case None
    then show thesis using that [of k7] s7 m7 by (simp add: h_def)
  next
    case (Some c)
    then have "spare (kmem k7) (pagesInHeap mm + (pagesInStack mm + j))" using s7 by (simp add: h_def)
    from map_for_succeeds [OF this m7, of c c True True]
    obtain x where x: "map_for a c c (pagesInHeap mm) True True k7 = Inr x" "spare (kmem x) (pagesInStack mm + j)"
      "\<exists>r. p_mm (procs x a) = (p_mm (procs k7 a))\<lparr>reservedPages := r\<rparr>" by blast
    have "directory (p_mm (procs x a)) = Some (pg_start pg)" using x(3) m7 by auto
    then show thesis using that [of x] x(1,2) Some by simp
  qed
  let ?sb = "esp mm - pagesInStack mm * PAGE_SIZE" and ?top = "STACK_TOP_MAPPING - pagesInStack mm * PAGE_SIZE"
  obtain k9 where 9: "(if esp mm \<noteq> 0 then map_for a ?sb ?top (pagesInStack mm) True True k8 else Inr k8) = Inr k9"
    and s9: "spare (kmem k9) j" and m9: "directory (p_mm (procs k9 a)) = Some (pg_start pg)"
  proof (cases "esp mm = 0")
    case True
    then show thesis using that [of k8] spare_mono [OF s8, of j] m8 by simp
  next
    case False
    from map_for_succeeds [OF s8 m8, of ?sb ?top True True]
    obtain x where x: "map_for a ?sb ?top (pagesInStack mm) True True k8 = Inr x" "spare (kmem x) j"
      "\<exists>r. p_mm (procs x a) = (p_mm (procs k8 a))\<lparr>reservedPages := r\<rparr>" by blast
    have "directory (p_mm (procs x a)) = Some (pg_start pg)" using x(3) m8 by auto
    then show thesis using that [of x] x(1,2) False by simp
  qed
  have "setup_page_directory img a False k = Inr k9"
    using 1 3 4 5 6 7 8 9 m6(1) by (simp add: setup_page_directory_def Let_def k2_def [symmetric] f_def cong: if_cong option.case_cong)
  with s9 m9 show ?thesis by (intro that) auto
qed

lemma create_memory_succeeds:
  assumes "spare (kmem k) 1600"
  shows "\<exists>k'. create_memory img a False k = Inr k'"
proof -
  define k0 where "k0 = upd_mm a (\<lambda>mm. mm\<lparr>reservedPages := [], pagesInKernelStack := KERNEL_STACK_PAGES\<rparr>) k"
  have s0: "spare (kmem k0) (KERNEL_STACK_PAGES + 1590)" using assms by (simp add: k0_def KERNEL_STACK_PAGES_def)
  have pos: "0 < KERNEL_STACK_PAGES" "0 < (256 :: nat)" "0 < (16 :: nat)" by (simp_all add: KERNEL_STACK_PAGES_def)
  obtain ks k1 where 1: "reserve_for a KERNEL_STACK_PAGES k0 = Inr (ks, k1)" "spare (kmem k1) 1590"
    "pagesInKernelStack (p_mm (procs k1 a)) = KERNEL_STACK_PAGES"
    by (rule reserve_for_succeeds [OF s0 pos(1), of a]) (auto simp: k0_def)
  define k2 where "k2 = upd_mm a (\<lambda>mm. mm\<lparr>pagesInHeap := 256\<rparr>) (upd_mm a (\<lambda>mm. mm\<lparr>esp0 := pg_start ks + PAGE_SIZE * KERNEL_STACK_PAGES,
        kernelStack := pg_start ks + PAGE_SIZE * KERNEL_STACK_PAGES\<rparr>) k1)"
  have s2: "spare (kmem k2) (256 + 1334)" using 1(2) by (simp add: k2_def)
  obtain hp k3 where 3: "reserve_for a 256 k2 = Inr (hp, k3)" "spare (kmem k3) 1334"
    "pagesInKernelStack (p_mm (procs k3 a)) = KERNEL_STACK_PAGES" "pagesInHeap (p_mm (procs k3 a)) = 256"
    by (rule reserve_for_succeeds [OF s2 pos(2), of a]) (auto simp: k2_def 1(3))
  define k4 where "k4 = upd_mm a (\<lambda>mm. mm\<lparr>pagesInStack := 16\<rparr>) (upd_mm a (\<lambda>mm. mm\<lparr>mallocContext := Some (mm_create_context (pg_start hp))\<rparr>) k3)"
  have s4: "spare (kmem k4) (16 + 1318)" using 3(2) by (simp add: k4_def)
  obtain st k5 where 5: "reserve_for a 16 k4 = Inr (st, k5)" "spare (kmem k5) 1318"
    "pagesInKernelStack (p_mm (procs k5 a)) = KERNEL_STACK_PAGES" "pagesInHeap (p_mm (procs k5 a)) = 256"
    "mallocContext (p_mm (procs k5 a)) = Some (pg_start hp)" "pagesInStack (p_mm (procs k5 a)) = 16"
    by (rule reserve_for_succeeds [OF s4 pos(3), of a]) (auto simp: k4_def 3 mm_create_context_def)
  define k6 where "k6 = upd_mm a (\<lambda>mm. mm\<lparr>esp := pg_start st + PAGE_SIZE * 16\<rparr>) k5"
  have mm6: "pagesInKernelStack (p_mm (procs k6 a)) = 10" "pagesInHeap (p_mm (procs k6 a)) = 256"
    "mallocContext (p_mm (procs k6 a)) = Some (pg_start hp)" "pagesInStack (p_mm (procs k6 a)) = 16"
    using 5(3-6) by (simp_all add: k6_def KERNEL_STACK_PAGES_def)
  have s6: "spare (kmem k6) (1028 + (pagesInKernelStack (p_mm (procs k6 a)) +
      ((case mallocContext (p_mm (procs k6 a)) of None \<Rightarrow> 0 | Some c \<Rightarrow> pagesInHeap (p_mm (procs k6 a))) +
      (pagesInStack (p_mm (procs k6 a)) + (1 + (1 + 0))))))"
    unfolding mm6 by (rule spare_mono [of _ 1318]) (simp_all add: k6_def 5(2))
  obtain k7 d where 7: "setup_page_directory img a False k6 = Inr k7" "spare (kmem k7) (1 + (1 + 0))"
    "directory (p_mm (procs k7 a)) = Some d"
    using setup_page_directory_succeeds [OF s6, of img] by blast
  obtain ug k8 where 8: "reserve_for a 1 k7 = Inr (ug, k8)" "spare (kmem k8) (1 + 0)" "directory (p_mm (procs k8 a)) = Some d"
    by (rule reserve_for_succeeds [OF 7(2) zero_less_one, of a]) (auto simp: 7(3))
  obtain k9 where 9: "map_for a (pg_start ug) STACK_TOP_MAPPING 1 True True k8 = Inr k9"
    using map_for_succeeds [OF 8(2,3), of "pg_start ug" STACK_TOP_MAPPING True True] by blast
  show ?thesis
    using 1(1) 3(1) 5(1) 7(1) 8(1) 9
    by (simp add: create_memory_def Let_def k0_def [symmetric] k2_def [symmetric] k4_def [symmetric] k6_def [symmetric])
qed

section \<open>Creating and destroying\<close>

text \<open>Before its memory is set up, creating a process takes kernel objects only.\<close>

definition same_pages :: "mm_state \<Rightarrow> mm_state \<Rightarrow> bool" where
  "same_pages m m' \<longleftrightarrow> (\<exists>n. m' = m\<lparr>pm_kalloc := n\<rparr>)"

lemma same_pages_refl [simp]: "same_pages m m"
  by (auto simp: same_pages_def intro!: exI [of _ "pm_kalloc m"])

lemma same_pages_trans: "same_pages m m1 \<Longrightarrow> same_pages m1 m2 \<Longrightarrow> same_pages m m2"
  by (auto simp: same_pages_def)

lemma same_pages_facts:
  "same_pages m m' \<Longrightarrow> cache_wf m' = cache_wf m \<and> pageMap m' = pageMap m \<and> held m' = held m"
proof -
  assume "same_pages m m'"
  then obtain n where m': "m' = m\<lparr>pm_kalloc := n\<rparr>" by (auto simp: same_pages_def)
  then have "m = m'\<lparr>pm_kalloc := pm_kalloc m\<rparr>" by simp
  with m' show ?thesis using cache.ok_kalloc [where st = m and k = n] cache.ok_kalloc [where st = m' and k = "pm_kalloc m"]
      cache.held_kalloc [where st = m and k = n] by auto
qed

lemma same_pages_kalloc: "kalloc_object k = (b, k') \<Longrightarrow> same_pages (kmem k) (kmem k')"
  by (auto simp: kalloc_object_def split: if_splits) (auto simp: same_pages_def)

lemma same_pages_fs_dup:
  fixes k :: "'z kernel_scheme"
  assumes sw: "\<forall>k. same_pages (kmem k) (kmem (sw k))" and run: "fs_dup sw fd k = Inr (fd', k')"
  shows "same_pages (kmem k) (kmem k')"
proof -
  have wait: "fifo_wait sw e a k1 = Inr k2 \<Longrightarrow> same_pages (kmem k1) (kmem k2)" for e a k1 k2
    using sw [rule_format] by (auto simp: fifo_wait_def split: option.splits)
      (metis process_table_block_simps(4) upd_s_simps(4) upd_fifo_simps(6))
  have new: "new_fifo i k1 = Inr (a, k2) \<Longrightarrow> same_pages (kmem k1) (kmem k2)" for i a and k1 k2 :: "'z kernel_scheme"
    by (auto simp: new_fifo_def Let_def split: prod.splits bool.splits)
      (meson same_pages_kalloc same_pages_trans)
  have opn: "fifo_open sw fd k1 = Inr k2 \<Longrightarrow> same_pages (kmem k1) (kmem k2)" for fd k1 k2
  proof -
    assume "fifo_open sw fd k1 = Inr k2"
    then obtain i where "rbind (case in_extra (inodes k1 i) of Some a \<Rightarrow> Inr (a, k1) | None \<Rightarrow> new_fifo i k1) (\<lambda>(a, k1).
        rbind (fifo_attach sw (fd_flags fd AND 3) a k1) (\<lambda>k2. Inr (wake_all ReadWait a (wake_all WriteWait a k2)))) = Inr k2"
      by (auto simp: fifo_open_def split: option.splits)
    then obtain a k3 k5 where 3: "(case in_extra (inodes k1 i) of Some a \<Rightarrow> Inr (a, k1) | None \<Rightarrow> new_fifo i k1) = Inr (a, k3)"
      and 5: "fifo_attach sw (fd_flags fd AND 3) a k3 = Inr k5" and 2: "k2 = wake_all ReadWait a (wake_all WriteWait a k5)"
      by (elim rbind_InrE) (auto elim: rbind_InrE)
    have "same_pages (kmem k1) (kmem k3)" using 3 new by (auto split: option.splits)
    moreover have "same_pages (kmem k3) (kmem k5)"
      using 5 by (auto simp: fifo_attach_def Let_def split: if_splits dest!: wait)
    ultimately show ?thesis using 2 same_pages_trans by auto
  qed
  show ?thesis
    using run opn [of _ "upd_inode i (\<lambda>n. n\<lparr>in_refCount := in_refCount n + 1\<rparr>) k" for i]
    by (auto simp: fs_dup_def fs_fd_def Let_def upd_inode_def split: option.splits if_splits elim!: rbind_InrE)
qed

lemma same_pages_inherit:
  assumes sw: "\<forall>k. same_pages (kmem k) (kmem (sw k))"
  shows "inherit_fds sw a parent is k = Inr k' \<Longrightarrow> same_pages (kmem k) (kmem k')"
proof (induction "is" arbitrary: k)
  case (Cons i "is")
  let ?keep = "((p_fdTable (procs k a)) ! i)\<lparr>fd_inode := None\<rparr>"
  obtain fd k1 where 1: "(case parent of None \<Rightarrow> Inr (?keep, k)
      | Some q \<Rightarrow> (let fd = p_fdTable (procs k q) ! i in if fd_inode fd \<noteq> None then fs_dup sw fd k else Inr (?keep, k))) = Inr (fd, k1)"
    and 2: "inherit_fds sw a parent is (upd_p a (\<lambda>p. p\<lparr>p_fdTable := (p_fdTable p)[i := fd]\<rparr>) k1) = Inr k'"
    using Cons.prems by (auto elim!: rbind_InrE)
  have "same_pages (kmem k) (kmem k1)"
    using 1 by (auto simp: Let_def split: option.splits if_splits dest: same_pages_fs_dup [OF sw])
  with Cons.IH [OF 2] same_pages_trans show ?case by simp
qed simp

lemma same_pages_link: "link_process a parent k = Inr k' \<Longrightarrow> same_pages (kmem k) (kmem k')"
  by (auto simp: link_process_def Let_def split: option.splits prod.splits bool.splits dest!: same_pages_kalloc)

lemma build_frames_mm:
  "\<exists>sp0 sp m. build_frames img a entry kern k = upd_mm a (\<lambda>mm. mm\<lparr>esp0 := sp0, esp := sp\<rparr>) (k\<lparr>ram := m\<rparr>)"
  unfolding build_frames_def Let_def by (auto split: prod.splits)

lemma createProcess_memory:
  fixes k :: "'z kernel_scheme"
  assumes ok: "cache_wf (kmem k)" "free_set (pageMap (kmem k)) \<union> held (kmem k) \<subseteq> {..<MAPPABLE_PAGES}"
    and low: "low_pages img (free_set (pageMap (kmem k)) \<union> held (kmem k))"
    and sw: "\<forall>k. same_pages (kmem k) (kmem (sw k))"
    and run: "createProcess img sw a entryPoint parent args terminal False k = Inr k'"
  shows "mem_wf (procs k' a) (kmem k') \<and> paging_wf (procs k' a) (kmem k') \<and>
     pool (procs k' a) (kmem k') = free_set (pageMap (kmem k)) \<union> held (kmem k) \<and>
     (\<forall>x \<in> stack_window. \<exists>f. tr a k' x = Some f \<and> f div 4096 \<in> own a k')"
proof -
  obtain k1 argv k2 k3 where 1: "link_process a parent (init_process a parent terminal False k) = Inr k1"
    and 2: "inherit_fds sw a parent [0..<MAX_OPEN_FILES] (upd_p a (\<lambda>p. p\<lparr>p_entryPoint := entryPoint, p_args := argv,
        p_schedule := init_schedule (p_schedule p)\<rparr>) k1) = Inr k2"
    and 3: "create_memory img a False k2 = Inr k3" and k': "k' = build_frames img a (of_nat entryPoint) False k3"
    using run by (auto simp: createProcess_def elim!: rbind_InrE)
  have "same_pages (kmem k) (kmem k2)"
    using same_pages_link [OF 1] same_pages_inherit [OF sw 2] same_pages_trans
    by (fastforce simp: init_process_def Let_def)
  from same_pages_facts [OF this] ok low have ok2: "cache_wf (kmem k2)"
    "free_set (pageMap (kmem k2)) \<union> held (kmem k2) \<subseteq> {..<MAPPABLE_PAGES}"
    "low_pages img (free_set (pageMap (kmem k2)) \<union> held (kmem k2))" and
    eq: "free_set (pageMap (kmem k2)) \<union> held (kmem k2) = free_set (pageMap (kmem k)) \<union> held (kmem k)" by simp_all
  obtain sp0 sp m where f: "k' = upd_mm a (\<lambda>mm. mm\<lparr>esp0 := sp0, esp := sp\<rparr>) (k3\<lparr>ram := m\<rparr>)"
    using build_frames_mm k' by metis
  have same: "own a k' = own a k3" "kmem k' = kmem k3" "mem_wf (procs k' a) (kmem k') = mem_wf (procs k3 a) (kmem k3)"
    "pool (procs k' a) (kmem k') = pool (procs k3 a) (kmem k3)"
    by (simp_all add: f mem_wf_def pool_def)
  have "tr a k' x = tr a k3 x" "paging_wf (procs k' a) (kmem k') = paging_wf (procs k3 a) (kmem k3)" for x
    using upd_mm_paging [of "\<lambda>mm. mm\<lparr>esp0 := sp0, esp := sp\<rparr>" a "k3\<lparr>ram := m\<rparr>"] by (simp_all add: f)
  with create_memory_user [OF ok2 3] show ?thesis unfolding same(1,3,4) eq by simp
qed

lemma createProcess_returns:
  assumes "spare (kmem k) 1601" "length (p_args (procs k a)) = ARGV_SIZE"
  shows "\<exists>k'. createProcess img sw a entryPoint None None terminal False k = Inr k'"
proof -
  let ?k0 = "init_process a None terminal False k"
  have ka: "0 < pm_kalloc (kmem k)" using assms(1) by (auto simp: spare_def)
  then obtain k1 where 1: "link_process a None ?k0 = Inr k1" "kmem k1 = (kmem k)\<lparr>pm_kalloc := pm_kalloc (kmem k) - 1\<rparr>"
    "p_args (procs k1 a) = p_args (procs k a)"
    by (auto simp: link_process_def init_process_def kalloc_object_def Let_def)
  obtain argv where 2: "copy_args None (p_args (procs k1 a)) = Inr argv"
    using 1(3) assms(2) by (auto simp: copy_args_def cput_def ARGV_SIZE_def)
  let ?k1 = "upd_p a (\<lambda>p. p\<lparr>p_entryPoint := entryPoint, p_args := argv, p_schedule := init_schedule (p_schedule p)\<rparr>) k1"
  have inh: "\<exists>k2. inherit_fds sw a None is k = Inr k2 \<and> kmem k2 = kmem k" for "is" and k :: "'a kernel_scheme"
  proof (induction "is" arbitrary: k)
    case (Cons i "is")
    from Cons.IH [of "upd_p a (\<lambda>p. p\<lparr>p_fdTable := (p_fdTable p)[i := ((p_fdTable (procs k a)) ! i)\<lparr>fd_inode := None\<rparr>]\<rparr>) k"]
    show ?case by simp
  qed simp
  then obtain k2 where 3: "inherit_fds sw a None [0..<MAX_OPEN_FILES] ?k1 = Inr k2" "kmem k2 = kmem ?k1" by blast
  have "spare (kmem k2) 1600"
    using spare_mono [OF assms(1), of 1600] assms(1) by (auto simp: spare_def 3 1(2))
  then obtain k3 where "create_memory img a False k2 = Inr k3" using create_memory_succeeds by blast
  with 1(1) 2 3(1) show ?thesis by (simp add: createProcess_def)
qed

lemma destroyProcess_memory:
  assumes "mem_wf (procs k a) (kmem k)"
  shows "free_set (pageMap (kmem (destroyProcess a k))) = free_set (pageMap (kmem k)) \<union> own a k \<and>
     held (kmem (destroyProcess a k)) = held (kmem k) \<and> reservedPages (p_mm (procs (destroyProcess a k) a)) = []"
proof -
  let ?pgs = "reservedPages (p_mm (procs k a))"
  have v: "\<forall>pg \<in> set ?pgs. valid_pages pg" using assms by (simp add: mem_wf_def owner_invar_def)
  have h: "held (free_pages pgs st) = held st" for pgs and st :: "mm_state"
    by (induction pgs arbitrary: st) (simp_all add: free_pages_def cache.held_map cache.held_kalloc)
  show ?thesis
    using free_pages_free_set [OF v, of "kmem k"] h [of ?pgs "kmem k"]
    by (auto simp: destroyProcess_def Let_def upd_mm_def owned_pages_def)
qed

section \<open>Properties\<close>

text \<open>
  C1. Memory isolation. A new user process gets pages that were free or lent to the disk cache: none of
  the pages of a set \<open>X\<close> that holds neither (the pages of the other processes, say) becomes its own,
  free, or the cache's. Every address of its initial stack translates to a page of its own.
\<close>

theorem createProcess_isolated:
  fixes k :: "'z kernel_scheme"
  assumes "cache_wf (kmem k)" "free_set (pageMap (kmem k)) \<union> held (kmem k) \<subseteq> {..<MAPPABLE_PAGES}"
    and "low_pages img (free_set (pageMap (kmem k)) \<union> held (kmem k))"
    and "\<forall>k. same_pages (kmem k) (kmem (sw k))"
    and "X \<inter> (free_set (pageMap (kmem k)) \<union> held (kmem k)) = {}"
    and "createProcess img sw a entryPoint parent args terminal False k = Inr k'"
  shows "X \<inter> own a k' = {} \<and> X \<inter> (free_set (pageMap (kmem k')) \<union> held (kmem k')) = {} \<and>
     own a k' \<inter> (free_set (pageMap (kmem k')) \<union> held (kmem k')) = {} \<and>
     (\<forall>x \<in> stack_window. \<exists>f. mm_translate_address (procs k' a) (kmem k') x = Some f \<and> f div 4096 \<in> own a k')"
  using createProcess_memory [OF assms(1-4,6)] assms(5) by (auto simp: pool_def mem_wf_def owner_invar_def)

text \<open>A machine with 1632 free pages from page 1024 on, and nothing else in its page map.\<close>

definition roomy_kernel :: kernel where
  "roomy_kernel = small_kernel\<lparr>kmem := paging_example\<lparr>pageMap := (\<lambda>i. if i < 51 then NOT 0 else 0), pm_kalloc := 1700\<rparr>\<rparr>"

definition plain_image :: kernel_image where
  "plain_image = \<lparr>img_exit = 0, img_interruptEnd = 0, img_signalPIC = 0, img_idt = 0x1000, img_gdt = 0x2000, img_ts = 0x3000\<rparr>"

lemma roomy_free_set: "free_set (pageMap (kmem roomy_kernel)) = {1024 ..< 2656}"
proof -
  have "(p - 1024) div 32 < 51 \<longleftrightarrow> p < 2656" if "1024 \<le> p" for p :: nat
    using that by (simp add: div_less_iff_less_mult less_diff_conv2)
  then show ?thesis
    by (auto simp: free_set_def page_free_def bitmap_test_bit roomy_kernel_def UNUSABLE_PAGES_def bit_not_iff split: if_splits)
qed

lemma roomy_kernel_ok: "cache_wf (kmem roomy_kernel)" "held (kmem roomy_kernel) = {}"
  "free_set (pageMap (kmem roomy_kernel)) \<union> held (kmem roomy_kernel) \<subseteq> {..<MAPPABLE_PAGES}"
  "low_pages plain_image (free_set (pageMap (kmem roomy_kernel)) \<union> held (kmem roomy_kernel))"
  "spare (kmem roomy_kernel) 1601" "length (p_args (procs roomy_kernel 1)) = ARGV_SIZE"
proof -
  show h: "held (kmem roomy_kernel) = {}" by (simp add: roomy_kernel_def held_def paging_example_cache)
  show "cache_wf (kmem roomy_kernel)"
    by (simp add: cache_wf_def roomy_kernel_def paging_example_cache held_def nth_replicate)
  show "free_set (pageMap (kmem roomy_kernel)) \<union> held (kmem roomy_kernel) \<subseteq> {..<MAPPABLE_PAGES}"
    unfolding h roomy_free_set by (auto simp: MAPPABLE_PAGES_def)
  show "low_pages plain_image (free_set (pageMap (kmem roomy_kernel)) \<union> held (kmem roomy_kernel))"
    unfolding h roomy_free_set by (auto simp: low_pages_def plain_image_def STACK_TOP_MAPPING_def)
  have "page_free (pageMap (kmem roomy_kernel)) (1024 + j)" if "j < 1601" for j
  proof -
    have "1024 + j \<in> free_set (pageMap (kmem roomy_kernel))" unfolding roomy_free_set using that by simp
    then show ?thesis by (simp add: free_set_def)
  qed
  then have "free_run (pageMap (kmem roomy_kernel)) 1024 1601"
    by (simp add: free_run_def UNUSABLE_PAGES_def ENTRIES_IN_MAP_eq)
  then show "spare (kmem roomy_kernel) 1601" by (auto simp: spare_def roomy_kernel_def)
  show "length (p_args (procs roomy_kernel 1)) = ARGV_SIZE"
    by (simp add: roomy_kernel_def small_kernel_def ARGV_SIZE_def)
qed

text \<open>
  C22. No page leaks: destroying a user process right after its creation makes the free pages and the
  cache's pages together exactly what they were before.
\<close>

theorem create_destroy_no_leak:
  fixes k :: "'z kernel_scheme"
  assumes "cache_wf (kmem k)" "free_set (pageMap (kmem k)) \<union> held (kmem k) \<subseteq> {..<MAPPABLE_PAGES}"
    and "low_pages img (free_set (pageMap (kmem k)) \<union> held (kmem k))"
    and "\<forall>k. same_pages (kmem k) (kmem (sw k))"
    and "createProcess img sw a entryPoint parent args terminal False k = Inr k'"
  shows "free_set (pageMap (kmem (destroyProcess a k'))) \<union> held (kmem (destroyProcess a k')) =
     free_set (pageMap (kmem k)) \<union> held (kmem k)"
  using createProcess_memory [OF assms] destroyProcess_memory [of k' a] by (auto simp: pool_def)

text \<open>
  With 1601 consecutive free pages and as many kernel objects at hand, the first user process (one
  without parent or arguments) can be created: none of the assertions of \<open>createProcess\<close> fails.
\<close>

theorem createProcess_succeeds:
  assumes "spare (kmem k) 1601" "length (p_args (procs k a)) = ARGV_SIZE"
  shows "\<exists>k'. createProcess img sw a entryPoint None None terminal False k = Inr k'"
  using assms by (rule createProcess_returns)

lemma roomy_create: "\<exists>k'. createProcess plain_image (\<lambda>k. k) 1 0x500000 None None 0 False roomy_kernel = Inr k'"
proof -
  let ?k = roomy_kernel
  have "spare (kmem ?k) 1601" "length (p_args (procs ?k 1)) = ARGV_SIZE" by (fact roomy_kernel_ok)+
  then show ?thesis by (rule createProcess_returns)
qed

theorem createProcess_succeeds_witness:
  "\<exists>k'. createProcess plain_image (\<lambda>k. k) 1 0x500000 None None 0 False roomy_kernel = Inr k'"
  using createProcess_succeeds [OF roomy_kernel_ok(5,6)] by blast

theorem createProcess_isolated_witness:
  "\<exists>k'. createProcess plain_image (\<lambda>k. k) 1 0x500000 None None 0 False roomy_kernel = Inr k' \<and>
     {3000, 3001} \<inter> own 1 k' = {} \<and>
     (\<exists>f. mm_translate_address (procs k' 1) (kmem k') 0xBFFFFFF0 = Some f \<and> f div 4096 \<in> own 1 k')"
proof -
  obtain k' where run: "createProcess plain_image (\<lambda>k. k) 1 0x500000 None None 0 False roomy_kernel = Inr k'"
    using roomy_create by blast
  have "{3000, 3001} \<inter> (free_set (pageMap (kmem roomy_kernel)) \<union> held (kmem roomy_kernel)) = {}"
    unfolding roomy_free_set roomy_kernel_ok(2) by simp
  from createProcess_isolated [OF roomy_kernel_ok(1,3,4) _ this run] run show ?thesis
    by (auto simp: stack_window_def STACK_TOP_MAPPING_def)
qed

theorem create_destroy_no_leak_witness:
  "\<exists>k'. createProcess plain_image (\<lambda>k. k) 1 0x500000 None None 0 False roomy_kernel = Inr k' \<and>
     free_set (pageMap (kmem (destroyProcess 1 k'))) \<union> held (kmem (destroyProcess 1 k')) = {1024 ..< 2656}"
proof -
  obtain k' where run: "createProcess plain_image (\<lambda>k. k) 1 0x500000 None None 0 False roomy_kernel = Inr k'"
    using roomy_create by blast
  from create_destroy_no_leak [OF roomy_kernel_ok(1,3,4) _ run] run show ?thesis
    by (auto simp: roomy_free_set roomy_kernel_ok(2))
qed

end
