(* ===== verification/Process_Table.thy ===== *)
theory Process_Table
  imports Process_Memory
begin

text \<open>
  \<open>src/system/process/table.c\<close>, the system calls of \<open>src/system/call/process.c\<close> and
  \<open>src/system/call/processPersona.c\<close>, the growth of stacks (\<open>src/system/mm/stack.c\<close>), the timer tick
  (\<open>src/system/tick.c\<close>), and \<open>tty_detach_process\<close> of \<open>src/drivers/tty/input.c\<close>, which the end of a
  process calls. Loops along the \<open>next\<close> pointers of processes need not end; when one does not, the
  operation's value is \<open>Inl Hang\<close>, or \<open>None\<close> where it may also wait for ever.
\<close>

unbundle bit_operations_syntax

section \<open>The table\<close>

definition PTABLE_SIZE :: nat where "PTABLE_SIZE = 64"
definition NO_TERMINAL :: int where "NO_TERMINAL = -1"

text \<open>The structure for a new process: a recycled one, or one from \<open>kalloc\<close>.\<close>

definition alloc_process :: "'z kernel_scheme \<Rightarrow> (nat \<times> 'z kernel_scheme) result" where
  "alloc_process k =
     (case freeStructures k of
        None \<Rightarrow>
          (case kalloc_object k of
             (False, k1) \<Rightarrow> Inl NullDeref
           | (True, k1) \<Rightarrow> Inr (proc_brk k1, k1\<lparr>proc_brk := Suc (proc_brk k1)\<rparr>))
      | Some p \<Rightarrow> Inr (p, k\<lparr>freeStructures := p_next (procs k p)\<rparr>))"

definition process_table_new :: "kernel_image \<Rightarrow> ('z kernel_scheme \<Rightarrow> 'z kernel_scheme) \<Rightarrow> nat \<Rightarrow> string option \<Rightarrow>
    ptr \<Rightarrow> bool \<Rightarrow> int \<Rightarrow> bool \<Rightarrow> 'z kernel_scheme \<Rightarrow> (ptr \<times> 'z kernel_scheme) result" where
  "process_table_new img sw entryPoint args parent kern terminal active k =
     (case find_ptr None (processTable k) of
        None \<Rightarrow> Inr (None, k)
      | Some i \<Rightarrow>
          rbind (alloc_process k) (\<lambda>(p, k1).
          rbind (createProcess img sw p entryPoint parent args terminal kern
                   (k1\<lparr>processTable := (processTable k1)[i := Some p]\<rparr>)) (\<lambda>k2.
            let k3 = upd_p p (\<lambda>x. x\<lparr>p_active := active\<rparr>) k2;
                k4 = (case parent of
                        Some q \<Rightarrow> if active then upd_p q (\<lambda>x. x\<lparr>p_active := False\<rparr>) k3 else k3
                      | None \<Rightarrow> k3)
            in Inr (Some p, scheduler_add p k4))))"

definition process_table_remove :: "nat \<Rightarrow> 'z kernel_scheme \<Rightarrow> 'z kernel_scheme" where
  "process_table_remove p k =
     (let k1 = (case find_ptr (Some p) (processTable k) of
                  None \<Rightarrow> k
                | Some i \<Rightarrow> k\<lparr>processTable := (processTable k)[i := None]\<rparr>);
          k2 = destroyProcess p k1
      in (upd_p p (\<lambda>x. x\<lparr>p_next := freeStructures k2\<rparr>) k2)\<lparr>freeStructures := Some p\<rparr>)"

text \<open>\<open>tty_detach_process\<close>: the process leaves the wait list of its terminal.\<close>

definition tty_detach_process :: "nat \<Rightarrow> 'z kernel_scheme \<Rightarrow> 'z kernel_scheme" where
  "tty_detach_process p k =
     (let t = p_terminal (procs k p)
      in if t = NO_TERMINAL \<or> \<not> ioWait (p_schedule (procs k p)) then k
         else k\<lparr>term_wait := (term_wait k)[nat t := map (\<lambda>w. if w = Some p then None else w) (term_wait k ! nat t)]\<rparr>)"

text \<open>The \<open>do\<close> loop of \<open>process_table_exit\<close>: the children get the parent \<open>idle\<close>; the last of them is returned.\<close>

partial_function (option) adopt_loop :: "nat \<Rightarrow> nat \<Rightarrow> 'z kernel_scheme \<Rightarrow> (nat \<times> 'z kernel_scheme) option" where
  "adopt_loop idle c k =
     (let k1 = upd_p c (\<lambda>x. x\<lparr>p_parent := Some idle, p_ppid := pid_of (procs k) idle\<rparr>) k
      in case p_next (procs k1 c) of
           None \<Rightarrow> Some (c, k1)
         | Some c' \<Rightarrow> adopt_loop idle c' k1)"

definition adopt_children :: "nat \<Rightarrow> 'z kernel_scheme \<Rightarrow> 'z kernel_scheme result" where
  "adopt_children p k =
     (case p_firstChild (procs k p) of
        None \<Rightarrow> Inr k
      | Some c \<Rightarrow>
          (case processTable k ! 0 of
             None \<Rightarrow> Inl NullDeref
           | Some idle \<Rightarrow>
               (case adopt_loop idle c k of
                  None \<Rightarrow> Inl Hang
                | Some (l, k1) \<Rightarrow>
                    (let k2 = upd_p l (\<lambda>x. x\<lparr>p_next := p_firstChild (procs k1 idle)\<rparr>) k1
                     in case p_firstChild (procs k2 idle) of
                          None \<Rightarrow> Inl NullDeref
                        | Some f \<Rightarrow>
                            (let k3 = upd_p f (\<lambda>x. x\<lparr>p_prev := Some l\<rparr>) k2
                             in Inr (upd_p idle (\<lambda>x. x\<lparr>p_firstChild := p_firstChild (procs k3 p)\<rparr>) k3))))))"

definition process_table_exit :: "nat \<Rightarrow> 'z kernel_scheme \<Rightarrow> 'z kernel_scheme result" where
  "process_table_exit p k =
     rbind (adopt_children p (upd_s p (\<lambda>s. s\<lparr>is_done := True\<rparr>) k)) (\<lambda>k1.
       let k2 = tty_detach_process p (scheduler_remove p k1)
       in case p_parent (procs k2 p) of
            Some q \<Rightarrow>
              (let k3 = (if p_active (procs k2 p)
                         then (let k' = upd_p q (\<lambda>x. x\<lparr>p_active := True\<rparr>) k2
                               in if ioWait (p_schedule (procs k' q)) then process_table_unblock q k' else k')
                         else k2)
               in rbind (exitProcess p k3) (\<lambda>k4.
                    case p_parent (procs k4 p) of
                      None \<Rightarrow> Inl NullDeref
                    | Some q' \<Rightarrow>
                        Inr (if inWait (p_schedule (procs k4 q')) then process_table_unblock q' k4 else k4)))
          | None \<Rightarrow> rbind (exitProcess p k2) (\<lambda>k3. Inr (process_table_remove p k3)))"

partial_function (option) waitable_loop :: "process_store \<Rightarrow> ptr \<Rightarrow> ptr option" where
  "waitable_loop P c =
     (case c of
        None \<Rightarrow> Some None
      | Some a \<Rightarrow> if is_done (p_schedule (P a)) then Some (Some a) else waitable_loop P (p_next (P a)))"

definition waitable_child :: "nat \<Rightarrow> 'z kernel_scheme \<Rightarrow> ptr result" where
  "waitable_child p k =
     (case waitable_loop (procs k) (p_firstChild (procs k p)) of None \<Rightarrow> Inl Hang | Some c \<Rightarrow> Inr c)"

partial_function (option) wait_loop :: "('z kernel_scheme \<Rightarrow> 'z kernel_scheme) \<Rightarrow> nat \<Rightarrow> 'z kernel_scheme \<Rightarrow>
    (nat \<times> 'z kernel_scheme) result option" where
  "wait_loop sw p k =
     (case waitable_child p k of
        Inl e \<Rightarrow> Some (Inl e)
      | Inr (Some c) \<Rightarrow> Some (Inr (c, k))
      | Inr None \<Rightarrow> wait_loop sw p (sw (process_table_block p (upd_s p (\<lambda>s. s\<lparr>inWait := True\<rparr>) k))))"

text \<open>What \<open>process_table_wait\<close> does with the child it found.\<close>

definition reap_child :: "nat \<Rightarrow> nat \<Rightarrow> 'z kernel_scheme \<Rightarrow> int \<times> 'z kernel_scheme" where
  "reap_child p c k =
     (let k1 = upd_s p (\<lambda>s. s\<lparr>inWait := False\<rparr>) k;
          k2 = (case p_prev (procs k1 c) of
                  None \<Rightarrow> upd_p p (\<lambda>x. x\<lparr>p_firstChild := p_next (procs k1 c)\<rparr>) k1
                | Some b \<Rightarrow> upd_p b (\<lambda>x. x\<lparr>p_next := p_next (procs k1 c)\<rparr>) k1)
      in (pid_of (procs k2) c, process_table_remove c k2))"

definition process_table_wait :: "('z kernel_scheme \<Rightarrow> 'z kernel_scheme) \<Rightarrow> nat \<Rightarrow> 'z kernel_scheme \<Rightarrow>
    (int \<times> 'z kernel_scheme) result option" where
  "process_table_wait sw p k =
     (if p_firstChild (procs k p) \<noteq> None
      then (case wait_loop sw p k of
              None \<Rightarrow> None
            | Some r \<Rightarrow> Some (rbind r (\<lambda>(c, k1). Inr (reap_child p c k1))))
      else Some (Inr (-1, k)))"

fun find_pid :: "process_store \<Rightarrow> int \<Rightarrow> ptr list \<Rightarrow> ptr" where
  "find_pid P pid [] = None"
| "find_pid P pid (x # xs) =
     (case x of
        Some c \<Rightarrow> if pid_of P c = pid then Some c else find_pid P pid xs
      | None \<Rightarrow> find_pid P pid xs)"

definition process_table_get :: "int \<Rightarrow> 'z kernel_scheme \<Rightarrow> ptr" where
  "process_table_get pid k = find_pid (procs k) pid (processTable k)"

text \<open>
  \<open>process_table_kill\<close> calls itself on every child: \<open>kill_children\<close> is its loop, with the recursive
  call unfolded into the loop over the grandchildren and \<open>process_table_exit\<close>.
\<close>

partial_function (option) kill_children :: "ptr \<Rightarrow> 'z kernel_scheme \<Rightarrow> 'z kernel_scheme result option" where
  "kill_children c k =
     (case c of
        None \<Rightarrow> Some (Inr k)
      | Some a \<Rightarrow>
          (let nxt = p_next (procs k a)
           in Option.bind (kill_children (p_firstChild (procs k a)) k) (\<lambda>r.
                case r of
                  Inl e \<Rightarrow> Some (Inl e)
                | Inr k1 \<Rightarrow>
                    (case process_table_exit a k1 of
                       Inl e \<Rightarrow> Some (Inl e)
                     | Inr k2 \<Rightarrow> kill_children nxt (process_table_remove a k2)))))"

definition process_table_kill :: "nat \<Rightarrow> 'z kernel_scheme \<Rightarrow> 'z kernel_scheme result" where
  "process_table_kill p k =
     (case kill_children (p_firstChild (procs k p)) k of
        None \<Rightarrow> Inl Hang
      | Some r \<Rightarrow> rbind r (process_table_exit p))"

definition process_table_reset_cycles :: "'z kernel_scheme \<Rightarrow> 'z kernel_scheme" where
  "process_table_reset_cycles k =
     fold (\<lambda>e k. case e of
             None \<Rightarrow> k
           | Some p \<Rightarrow> upd_p p (\<lambda>x. x\<lparr>p_prev_cycles := p_curr_cycles x, p_curr_cycles := 0\<rparr>) k)
       (processTable k) k"

fun nth_used :: "nat \<Rightarrow> ptr list \<Rightarrow> ptr" where
  "nth_used n [] = None"
| "nth_used n (None # xs) = nth_used n xs"
| "nth_used n (Some c # xs) = (if n = 0 then Some c else nth_used (n - 1) xs)"

definition process_table_entry :: "nat \<Rightarrow> 'z kernel_scheme \<Rightarrow> ptr" where
  "process_table_entry number k = nth_used number (processTable k)"

section \<open>System calls\<close>

definition with_current :: "'z kernel_scheme \<Rightarrow> (nat \<Rightarrow> 'b result) \<Rightarrow> 'b result" where
  "with_current k f = (case scheduler_current k of None \<Rightarrow> Inl NullDeref | Some p \<Rightarrow> f p)"

definition sys_getpid :: "'z kernel_scheme \<Rightarrow> int result" where
  "sys_getpid k = with_current k (\<lambda>p. Inr (p_pid (procs k p)))"

definition sys_getppid :: "'z kernel_scheme \<Rightarrow> int result" where
  "sys_getppid k = with_current k (\<lambda>p. Inr (p_ppid (procs k p)))"

definition sys_run :: "kernel_image \<Rightarrow> ('z kernel_scheme \<Rightarrow> 'z kernel_scheme) \<Rightarrow> nat \<Rightarrow> string option \<Rightarrow> bool \<Rightarrow>
    'z kernel_scheme \<Rightarrow> (int \<times> 'z kernel_scheme) result" where
  "sys_run img sw entryPoint args active k =
     with_current k (\<lambda>parent.
       rbind (process_table_new img sw entryPoint args (Some parent) False (p_terminal (procs k parent)) active k)
         (\<lambda>(p, k1). case p of None \<Rightarrow> Inl NullDeref | Some p \<Rightarrow> Inr (p_pid (procs k1 p), k1)))"

definition sys_exit :: "'z kernel_scheme \<Rightarrow> 'z kernel_scheme result" where
  "sys_exit k = with_current k (\<lambda>p. process_table_exit p k)"

definition sys_wait :: "('z kernel_scheme \<Rightarrow> 'z kernel_scheme) \<Rightarrow> 'z kernel_scheme \<Rightarrow> (int \<times> 'z kernel_scheme) result option" where
  "sys_wait sw k = (case scheduler_current k of None \<Rightarrow> Some (Inl NullDeref) | Some p \<Rightarrow> process_table_wait sw p k)"

definition sys_kill :: "int \<Rightarrow> 'z kernel_scheme \<Rightarrow> 'z kernel_scheme result" where
  "sys_kill pid k = (case process_table_get pid k of None \<Rightarrow> Inr k | Some d \<Rightarrow> process_table_kill d k)"

definition sys_sleep :: "int \<Rightarrow> 'z kernel_scheme \<Rightarrow> 'z kernel_scheme result" where
  "sys_sleep seconds k = with_current k (\<lambda>p. scheduler_sleep p seconds k)"

definition sys_nice :: "int \<Rightarrow> 'z kernel_scheme \<Rightarrow> (int \<times> 'z kernel_scheme) result" where
  "sys_nice prio k =
     with_current k (\<lambda>p. let k1 = upd_s p (set_priority prio) k in Inr (int (priority_of (procs k1) p), k1))"

definition INVALID_PRIORITY :: int where "INVALID_PRIORITY = -1"

definition sys_renice :: "int \<Rightarrow> int \<Rightarrow> 'z kernel_scheme \<Rightarrow> int \<times> 'z kernel_scheme" where
  "sys_renice pid prio k =
     (case process_table_get pid k of
        None \<Rightarrow> (INVALID_PRIORITY, k)
      | Some p \<Rightarrow> (let k1 = upd_s p (set_priority prio) k in (int (priority_of (procs k1) p), k1)))"

definition sys_setProcessPersona :: "int \<Rightarrow> int \<Rightarrow> int \<Rightarrow> 'z kernel_scheme \<Rightarrow> 'z kernel_scheme" where
  "sys_setProcessPersona pid uid gid k =
     (case process_table_get pid k of
        None \<Rightarrow> k
      | Some p \<Rightarrow> upd_p p (\<lambda>x. x\<lparr>p_uid := uid, p_gid := gid\<rparr>) k)"

text \<open>\<open>None\<close>: the caller's variables are left as they are.\<close>

definition sys_getProcessPersona :: "int \<Rightarrow> 'z kernel_scheme \<Rightarrow> (int \<times> int) option" where
  "sys_getProcessPersona pid k =
     map_option (\<lambda>p. (p_uid (procs k p), p_gid (procs k p))) (process_table_get pid k)"

definition sys_stacksize :: "'z kernel_scheme \<Rightarrow> nat result" where
  "sys_stacksize k = with_current k (\<lambda>p. Inr (pagesInStack (p_mm (procs k p)) * PAGE_SIZE))"

section \<open>Stack growth and the timer\<close>

definition PAGES_PER_INCREMENT :: nat where "PAGES_PER_INCREMENT = 4"
definition MAX_PAGES_IN_STACK :: nat where "MAX_PAGES_IN_STACK = 256"

text \<open>\<open>to\<close> is the faulting address, read from \<open>cr2\<close>. Messages to the terminal are left out.\<close>

definition page_fault_handler :: "u32 \<Rightarrow> nat \<Rightarrow> 'z kernel_scheme \<Rightarrow> 'z kernel_scheme result" where
  "page_fault_handler errCode to k =
     with_current k (\<lambda>p.
       if errCode AND 1 = 1 then process_table_kill p k
       else
         (let mm = p_mm (procs k p);
              lst = nat (un32 (int STACK_TOP_MAPPING - int (pagesInStack mm * PAGE_SIZE)))
          in if lst < to \<or> lst > nat (un32 (int to + int (PAGES_PER_INCREMENT * PAGE_SIZE))) then process_table_kill p k
             else if pagesInStack mm + PAGES_PER_INCREMENT > MAX_PAGES_IN_STACK then process_table_kill p k
             else
               rbind (reserve_pages cache_evict (procs k p) PAGES_PER_INCREMENT (kmem k)) (\<lambda>(newPages, x, m).
                 let k1 = k\<lparr>procs := (procs k)(p := x), kmem := m\<rparr>
                 in case newPages of
                      None \<Rightarrow> process_table_kill p k1
                    | Some pg \<Rightarrow>
                        rbind (map_for p (pg_start pg)
                                 (nat (un32 (int lst - int (PAGES_PER_INCREMENT * PAGE_SIZE)))) PAGES_PER_INCREMENT True True k1)
                          (\<lambda>k2. Inr (upd_mm p (\<lambda>mm. mm\<lparr>pagesInStack := pagesInStack mm + PAGES_PER_INCREMENT\<rparr>) k2)))))"

definition TICKS_SAMPLE_SIZE :: int where "TICKS_SAMPLE_SIZE = 10"

definition timerTick :: "'z kernel_scheme \<Rightarrow> 'z kernel_scheme" where
  "timerTick k =
     (let k1 = scheduler_tick (k\<lparr>ticksSinceStart := ticksSinceStart k + 1\<rparr>);
          k2 = k1\<lparr>tickCounter := tickCounter k1 + 1\<rparr>
      in if tickCounter k2 > TICKS_SAMPLE_SIZE
         then scheduler_restart_sample ((process_table_reset_cycles k2)\<lparr>tickCounter := 0\<rparr>)
         else k2)"

definition sys_getTicksSinceStart :: "'z kernel_scheme \<Rightarrow> u32" where
  "sys_getTicksSinceStart k = ticksSinceStart k"

section \<open>What creating a process leaves alone\<close>

text \<open>What the table depends on: its entries, the recycled structures, and the pids and links of all processes.\<close>

definition tview :: "'z kernel_scheme \<Rightarrow> ptr list \<times> int \<times> ptr \<times> nat \<times> (nat \<Rightarrow> int) \<times> (nat \<Rightarrow> ptr)" where
  "tview k = (processTable k, last_pid k, freeStructures k, proc_brk k,
     (\<lambda>x. p_pid (procs k x)), (\<lambda>x. p_next (procs k x)))"

lemma tview_simps [simp]:
  "(\<And>x. p_pid (f x) = p_pid x \<and> p_next (f x) = p_next x) \<Longrightarrow> tview (upd_p a f k) = tview k"
  "tview (upd_s a g k) = tview k" "tview (upd_mm a h k) = tview k"
  "tview (upd_fifo b u k) = tview k" "tview (process_table_block p k) = tview k"
  "tview (process_table_unblock p k) = tview k" "tview (k\<lparr>ram := m\<rparr>) = tview k"
  "tview (scheduler_add p k) = tview k" "tview (k\<lparr>kmem := mm\<rparr>) = tview k"
  by (auto simp: tview_def kernel_upd_defs upd_mm_def upd_fifo_def scheduler_add_def fun_eq_iff)

lemma tview_wake_queue [simp]: "tview (wake_queue q k) = tview k"
  by (induction q arbitrary: k) simp_all

lemma tview_wake_all [simp]: "tview (wake_all e a k) = tview k"
  by (simp add: wake_all_def)

lemma tview_kalloc: "kalloc_object k = (b, k') \<Longrightarrow> tview k' = tview k"
  by (auto simp: kalloc_object_def split: if_splits)

lemma tview_new_fifo: "new_fifo i k = Inr (a, k') \<Longrightarrow> tview k' = tview k"
  by (auto simp: new_fifo_def Let_def split: prod.splits bool.splits dest!: tview_kalloc) (auto simp: tview_def)

lemma tview_fifo_open:
  fixes k :: "'z kernel_scheme"
  assumes sw: "\<forall>k :: 'z kernel_scheme. tview (sw k) = tview k" and run: "fifo_open sw fd k = Inr k'"
  shows "tview k' = tview k"
proof -
  have wait: "fifo_wait sw e a k1 = Inr k2 \<Longrightarrow> tview k2 = tview k1" for e a k1 k2
    using sw by (auto simp: fifo_wait_def split: option.splits)
  obtain i where "rbind (case in_extra (inodes k i) of Some a \<Rightarrow> Inr (a, k) | None \<Rightarrow> new_fifo i k) (\<lambda>(a, k1).
        rbind (fifo_attach sw (fd_flags fd AND 3) a k1) (\<lambda>k2. Inr (wake_all ReadWait a (wake_all WriteWait a k2)))) = Inr k'"
    using run by (auto simp: fifo_open_def split: option.splits)
  then obtain a k3 k5 where 3: "(case in_extra (inodes k i) of Some a \<Rightarrow> Inr (a, k) | None \<Rightarrow> new_fifo i k) = Inr (a, k3)"
    and 5: "fifo_attach sw (fd_flags fd AND 3) a k3 = Inr k5" and 2: "k' = wake_all ReadWait a (wake_all WriteWait a k5)"
    by (elim rbind_InrE) (auto elim: rbind_InrE)
  have "tview k3 = tview k" using 3 tview_new_fifo by (auto split: option.splits)
  moreover have "tview k5 = tview k3"
    using 5 by (auto simp: fifo_attach_def Let_def split: if_splits dest!: wait)
  ultimately show ?thesis using 2 by simp
qed

lemma tview_fs_dup:
  fixes k :: "'z kernel_scheme"
  assumes sw: "\<forall>k :: 'z kernel_scheme. tview (sw k) = tview k" and run: "fs_dup sw fd k = Inr (fd', k')"
  shows "tview k' = tview k"
proof -
  have u: "tview (upd_inode i g k) = tview k" for i g by (simp add: upd_inode_def tview_def)
  show ?thesis
    using run by (auto simp: fs_dup_def fs_fd_def Let_def u split: option.splits if_splits elim!: rbind_InrE
        dest: tview_fifo_open [OF sw])
qed

lemma tview_inherit:
  fixes k :: "'z kernel_scheme"
  assumes sw: "\<forall>k :: 'z kernel_scheme. tview (sw k) = tview k"
  shows "inherit_fds sw a parent is k = Inr k' \<Longrightarrow> tview k' = tview k"
proof (induction "is" arbitrary: k)
  case (Cons i "is")
  let ?keep = "((p_fdTable (procs k a)) ! i)\<lparr>fd_inode := None\<rparr>"
  obtain fd k1 where 1: "(case parent of None \<Rightarrow> Inr (?keep, k)
      | Some q \<Rightarrow> (let fd = p_fdTable (procs k q) ! i in if fd_inode fd \<noteq> None then fs_dup sw fd k else Inr (?keep, k))) = Inr (fd, k1)"
    and 2: "inherit_fds sw a parent is (upd_p a (\<lambda>p. p\<lparr>p_fdTable := (p_fdTable p)[i := fd]\<rparr>) k1) = Inr k'"
    using Cons.prems by (auto elim!: rbind_InrE)
  have "tview k1 = tview k"
    using 1 by (auto simp: Let_def split: option.splits if_splits dest: tview_fs_dup [OF sw])
  with Cons.IH [OF 2] show ?case by simp
qed simp

lemma reserve_pages_keeps:
  "reserve_pages ev p n st = Inr (pg, p', st') \<Longrightarrow> p_pid p' = p_pid p \<and> p_next p' = p_next p"
  by (auto simp: reserve_pages_def Let_def case_prod_beta split: if_splits)

lemma tview_reserve: "reserve_for a n k = Inr (pg, k') \<Longrightarrow> tview k' = tview k"
  by (auto simp: reserve_for_def tview_def fun_eq_iff split: option.splits elim!: rbind_InrE dest!: reserve_pages_keeps)

lemma map_page_keeps:
  "map_page s d usr w (p, st) = Inr (p', st') \<Longrightarrow> p_pid p' = p_pid p \<and> p_next p' = p_next p"
  by (auto simp: map_page_def ensure_table_def Let_def split: option.splits if_splits elim!: rbind_InrE dest!: reserve_pages_keeps)

lemma tview_map: "map_for a start to n usr w k = Inr k' \<Longrightarrow> tview k' = tview k"
proof -
  have "map_pages start to is usr w (p, st) = Inr (p', st') \<Longrightarrow> p_pid p' = p_pid p \<and> p_next p' = p_next p"
    for "is" p p' and st st' :: mm_state
    by (induction "is" arbitrary: p st) (fastforce elim!: rbind_InrE dest!: map_page_keeps)+
  then show "map_for a start to n usr w k = Inr k' \<Longrightarrow> tview k' = tview k"
    by (fastforce simp: map_for_def mm_pagination_map_def tview_def fun_eq_iff elim!: rbind_InrE)
qed

lemma tview_create_memory: "create_memory img a kern k = Inr k' \<Longrightarrow> tview k' = tview k"
proof -
  have dir: "setup_page_directory img a kern k = Inr k' \<Longrightarrow> tview k' = tview k" for k k' :: "'a kernel_scheme"
    by (auto simp: setup_page_directory_def Let_def split: option.splits if_splits elim!: rbind_InrE
        dest!: tview_map tview_reserve)
  show "create_memory img a kern k = Inr k' \<Longrightarrow> tview k' = tview k"
    by (auto simp: create_memory_def Let_def split: if_splits elim!: rbind_InrE dest!: tview_map tview_reserve dir)
qed

text \<open>A new process gets the next pid; no other process changes its pid or its successor.\<close>

lemma createProcess_table:
  fixes k :: "'z kernel_scheme"
  assumes sw: "\<forall>k :: 'z kernel_scheme. tview (sw k) = tview k"
    and run: "createProcess img sw a entryPoint parent args terminal kern k = Inr k'"
  shows "processTable k' = processTable k \<and> freeStructures k' = freeStructures k \<and> proc_brk k' = proc_brk k \<and>
     last_pid k' = s32 (last_pid k + 1) \<and> p_pid (procs k' a) = s32 (last_pid k + 1) \<and>
     (\<forall>x. x \<noteq> a \<longrightarrow> p_pid (procs k' x) = p_pid (procs k x) \<and> p_next (procs k' x) = p_next (procs k x))"
proof -
  obtain k1 argv k2 k3 where 1: "link_process a parent (init_process a parent terminal kern k) = Inr k1"
    and 2: "inherit_fds sw a parent [0..<MAX_OPEN_FILES] (upd_p a (\<lambda>p. p\<lparr>p_entryPoint := entryPoint, p_args := argv,
        p_schedule := init_schedule (p_schedule p)\<rparr>) k1) = Inr k2"
    and 3: "create_memory img a kern k2 = Inr k3" and k': "k' = build_frames img a (of_nat entryPoint) kern k3"
    using run by (auto simp: createProcess_def elim!: rbind_InrE)
  have "tview k' = tview k3" using build_frames_mm [of img a "of_nat entryPoint" kern k3] k' by auto
  with tview_create_memory [OF 3] tview_inherit [OF sw 2] have t: "tview k' = tview k1" by simp
  have "processTable k1 = processTable k \<and> freeStructures k1 = freeStructures k \<and> proc_brk k1 = proc_brk k \<and>
     last_pid k1 = s32 (last_pid k + 1) \<and> p_pid (procs k1 a) = s32 (last_pid k + 1) \<and>
     (\<forall>x. x \<noteq> a \<longrightarrow> p_pid (procs k1 x) = p_pid (procs k x) \<and> p_next (procs k1 x) = p_next (procs k x))"
    using 1 by (auto simp: link_process_def init_process_def kalloc_object_def Let_def upd_p_def
        split: option.splits if_splits)
  with t show ?thesis by (simp add: tview_def fun_eq_iff)
qed

section \<open>The table's invariant\<close>

lemma find_ptr_Some: "find_ptr p xs = Some i \<Longrightarrow> i < length xs \<and> xs ! i = p \<and> (\<forall>j < i. xs ! j \<noteq> p)"
proof (induction xs arbitrary: i)
  case (Cons x xs)
  then show ?case by (cases i) (auto split: if_splits simp: nth_Cons split: nat.splits)
qed simp

lemma find_ptr_None: "find_ptr p xs = None \<longleftrightarrow> p \<notin> set xs"
  by (induction xs) auto

definition used :: "'z kernel_scheme \<Rightarrow> nat set" where
  "used k = {p. Some p \<in> set (processTable k)}"

definition table_wf :: "'z kernel_scheme \<Rightarrow> bool" where
  "table_wf k \<longleftrightarrow> length (processTable k) = PTABLE_SIZE \<and> distinct (filter (\<lambda>e. e \<noteq> None) (processTable k)) \<and>
     inj_on (pid_of (procs k)) (used k) \<and> 0 \<le> last_pid k \<and>
     (\<forall>p \<in> used k. 0 < pid_of (procs k) p \<and> pid_of (procs k) p \<le> last_pid k \<and> p < proc_brk k) \<and>
     (\<exists>fs. chain (\<lambda>x. p_next (procs k x)) (freeStructures k) fs None \<and> set fs \<inter> used k = {} \<and> (\<forall>x \<in> set fs. x < proc_brk k))"

lemma find_pid_Some: "find_pid P pid xs = Some p \<Longrightarrow> Some p \<in> set xs \<and> pid_of P p = pid"
  by (induction xs) (auto split: option.splits if_splits)

lemma find_pid_None: "find_pid P pid xs = None \<longleftrightarrow> (\<forall>p. Some p \<in> set xs \<longrightarrow> pid_of P p \<noteq> pid)"
  by (induction xs) (auto split: option.splits if_splits)

lemma process_table_get_used:
  assumes "table_wf k" "p \<in> used k"
  shows "process_table_get (pid_of (procs k) p) k = Some p"
proof (cases "process_table_get (pid_of (procs k) p) k")
  case None
  with assms(2) show ?thesis by (auto simp: process_table_get_def find_pid_None used_def)
next
  case (Some q)
  then have "q \<in> used k" "pid_of (procs k) q = pid_of (procs k) p"
    by (auto simp: process_table_get_def used_def dest: find_pid_Some)
  with assms Some show ?thesis by (auto simp: table_wf_def dest: inj_onD)
qed

lemma filter_update_None:
  assumes "i < length xs" "xs ! i = None" "Some p \<notin> set xs" "distinct (filter (\<lambda>e. e \<noteq> None) xs)"
  shows "distinct (filter (\<lambda>e. e \<noteq> None) (xs[i := Some p]))" "set (xs[i := Some p]) - {None} = insert (Some p) (set xs - {None})"
proof -
  have xs: "xs = take i xs @ None # drop (Suc i) xs" using id_take_nth_drop [OF assms(1)] assms(2) by simp
  have "filter (\<lambda>e. e \<noteq> None) xs = filter (\<lambda>e. e \<noteq> None) (take i xs) @ filter (\<lambda>e. e \<noteq> None) (drop (Suc i) xs)"
    by (subst xs) simp
  with assms(3,4) show "distinct (filter (\<lambda>e. e \<noteq> None) (xs[i := Some p]))"
    using assms(1) by (auto simp: upd_conv_take_nth_drop dest: in_set_takeD in_set_dropD)
  have "set xs - {None} = set (take i xs) \<union> set (drop (Suc i) xs) - {None}" by (subst xs) auto
  then show "set (xs[i := Some p]) - {None} = insert (Some p) (set xs - {None})"
    using assms(1) by (auto simp: upd_conv_take_nth_drop)
qed

lemma alloc_process_fresh:
  assumes "table_wf k" "alloc_process k = Inr (p, k')"
  shows "p \<notin> used k \<and> p < proc_brk k' \<and> proc_brk k \<le> proc_brk k' \<and> procs k' = procs k \<and> processTable k' = processTable k \<and>
     last_pid k' = last_pid k \<and> scheduler_queue k' = scheduler_queue k \<and>
     (\<exists>fs. chain (\<lambda>x. p_next (procs k x)) (freeStructures k') fs None \<and> set fs \<inter> used k = {} \<and> p \<notin> set fs \<and>
        (\<forall>x \<in> set fs. x < proc_brk k))"
proof -
  obtain fs where fs: "chain (\<lambda>x. p_next (procs k x)) (freeStructures k) fs None" "set fs \<inter> used k = {}"
    "\<forall>x \<in> set fs. x < proc_brk k" using assms(1) by (auto simp: table_wf_def)
  show ?thesis
  proof (cases "freeStructures k")
    case None
    with fs(1) have "fs = []" by simp
    moreover have "proc_brk k \<notin> used k" using assms(1) by (auto simp: table_wf_def)
    ultimately show ?thesis
      using None assms(2) by (auto simp: alloc_process_def kalloc_object_def split: if_splits)
  next
    case (Some a)
    with fs(1) obtain gs where gs: "fs = a # gs" "chain (\<lambda>x. p_next (procs k x)) (p_next (procs k a)) gs None"
      by (cases fs) auto
    have "a \<notin> set gs" using chain_tail_fresh [of "\<lambda>x. p_next (procs k x)" a gs] gs(2) by simp
    with Some assms(2) gs fs(2,3) show ?thesis by (auto simp: alloc_process_def)
  qed
qed

lemma process_table_new_ok:
  fixes k :: "'z kernel_scheme"
  assumes wf: "table_wf k" and pid: "last_pid k < 2 ^ 31 - 1"
    and sw: "\<forall>k :: 'z kernel_scheme. tview (sw k) = tview k"
    and run: "process_table_new img sw entryPoint args parent kern terminal active k = Inr (Some p, k')"
  shows "table_wf k' \<and> used k' = insert p (used k) \<and> p \<notin> used k \<and> pid_of (procs k') p = last_pid k + 1 \<and>
     (\<forall>q \<in> used k. pid_of (procs k') q = pid_of (procs k) q)"
proof -
  obtain i k1 k2 where i: "find_ptr None (processTable k) = Some i" and 1: "alloc_process k = Inr (p, k1)"
    and 2: "createProcess img sw p entryPoint parent args terminal kern
      (k1\<lparr>processTable := (processTable k1)[i := Some p]\<rparr>) = Inr k2" and t: "tview k' = tview k2"
    using run by (fastforce simp: process_table_new_def Let_def split: option.splits if_splits elim!: rbind_InrE)
  note al = alloc_process_fresh [OF wf 1] and cr = createProcess_table [OF sw 2]
  have k': "processTable k' = (processTable k)[i := Some p]" "last_pid k' = last_pid k + 1" "proc_brk k' = proc_brk k1"
    "freeStructures k' = freeStructures k1" "pid_of (procs k') p = last_pid k + 1"
    "\<And>x. x \<noteq> p \<Longrightarrow> pid_of (procs k') x = pid_of (procs k) x"
    "\<And>x. x \<noteq> p \<Longrightarrow> p_next (procs k' x) = p_next (procs k x)"
    using cr al t wf pid s32_id [of "last_pid k + 1"] by (auto simp: tview_def fun_eq_iff table_wf_def)
  have ix: "i < length (processTable k)" "processTable k ! i = None" using find_ptr_Some [OF i] by auto
  have np: "Some p \<notin> set (processTable k)" using al by (auto simp: used_def)
  have dist: "distinct (filter (\<lambda>e. e \<noteq> None) (processTable k))" using wf by (simp add: table_wf_def)
  note fu = filter_update_None [OF ix np dist]
  have used: "used k' = insert p (used k)"
    using fu(2) unfolding used_def k'(1) by blast
  obtain fs where fs: "chain (\<lambda>x. p_next (procs k x)) (freeStructures k1) fs None" "set fs \<inter> used k = {}" "p \<notin> set fs"
    "\<forall>x \<in> set fs. x < proc_brk k" using al by blast
  have "chain (\<lambda>x. p_next (procs k' x)) (freeStructures k') fs None"
  proof (subst chain_cong [of fs _ "\<lambda>x. p_next (procs k x)"])
    show "p_next (procs k' n) = p_next (procs k n)" if "n \<in> set fs" for n
      by (rule k'(7)) (use that fs(3) in auto)
  qed (simp add: k'(4) fs(1))
  moreover have same: "pid_of (procs k') q = pid_of (procs k) q" if "q \<in> used k" for q
    by (rule k'(6)) (use that al in auto)
  moreover have "inj_on (pid_of (procs k')) (used k')"
  proof -
    have lt: "pid_of (procs k') q < last_pid k + 1" if "q \<in> used k" for q
      using that wf same by (auto simp: table_wf_def)
    have "inj_on (pid_of (procs k')) (used k)"
      using inj_on_cong [of "used k" "pid_of (procs k')" "pid_of (procs k)"] same wf by (simp add: table_wf_def)
    moreover have "last_pid k + 1 \<notin> pid_of (procs k') ` (used k - {p})" using lt by fastforce
    ultimately show ?thesis unfolding used by (simp add: inj_on_insert k'(5))
  qed
  moreover have "0 < pid_of (procs k') q \<and> pid_of (procs k') q \<le> last_pid k' \<and> q < proc_brk k'" if "q \<in> used k'" for q
    using that wf al k'(2,3,5,6) unfolding used by (cases "q = p") (auto simp: table_wf_def intro: order_trans less_le_trans)
  moreover have "set fs \<inter> used k' = {}" "\<forall>x \<in> set fs. x < proc_brk k'"
    using fs al unfolding used k'(3) by (auto intro: less_le_trans)
  moreover have "length (processTable k') = PTABLE_SIZE" "0 \<le> last_pid k'" "distinct (filter (\<lambda>e. e \<noteq> None) (processTable k'))"
    using wf fu(1) by (simp_all add: k'(1,2) table_wf_def)
  ultimately have "table_wf k'" unfolding table_wf_def by blast
  with used al k'(5) same show ?thesis by auto
qed

lemma process_table_new_None:
  "process_table_new img sw entryPoint args parent kern terminal active k = Inr (None, k') \<longleftrightarrow>
     k' = k \<and> None \<notin> set (processTable k)"
proof (cases "find_ptr None (processTable k)")
  case None
  then show ?thesis by (auto simp: process_table_new_def find_ptr_None [symmetric])
next
  case (Some i)
  then have "None \<in> set (processTable k)" by (auto dest!: find_ptr_Some simp: in_set_conv_nth)
  with Some show ?thesis by (auto simp: process_table_new_def Let_def elim!: rbind_InrE)
qed

lemma destroyProcess_keeps [simp]:
  "processTable (destroyProcess p k) = processTable k" "freeStructures (destroyProcess p k) = freeStructures k"
  "proc_brk (destroyProcess p k) = proc_brk k" "last_pid (destroyProcess p k) = last_pid k"
  "p_next (procs (destroyProcess p k) x) = p_next (procs k x)"
  "pid_of (procs (destroyProcess p k)) x = (if x = p then 0 else pid_of (procs k) x)"
  by (auto simp: destroyProcess_def Let_def upd_mm_def upd_p_def)

lemma process_table_remove_ok:
  assumes wf: "table_wf k" and p: "p \<in> used k"
  shows "table_wf (process_table_remove p k) \<and> used (process_table_remove p k) = used k - {p} \<and>
     freeStructures (process_table_remove p k) = Some p \<and>
     (\<forall>q. q \<noteq> p \<longrightarrow> pid_of (procs (process_table_remove p k)) q = pid_of (procs k) q)"
proof -
  obtain i where i: "find_ptr (Some p) (processTable k) = Some i"
    using p by (cases "find_ptr (Some p) (processTable k)") (auto simp: find_ptr_None used_def)
  note ix = find_ptr_Some [OF i]
  let ?k = "process_table_remove p k" and ?t = "processTable k"
  have k': "processTable ?k = ?t[i := None]" "last_pid ?k = last_pid k" "proc_brk ?k = proc_brk k" "freeStructures ?k = Some p"
    "pid_of (procs ?k) x = (if x = p then 0 else pid_of (procs k) x)"
    "p_next (procs ?k x) = (if x = p then freeStructures k else p_next (procs k x))" for x
    by (auto simp: process_table_remove_def i Let_def upd_p_def)
  have t: "?t = take i ?t @ Some p # drop (Suc i) ?t" using id_take_nth_drop [of i ?t] ix by simp
  have f: "filter (\<lambda>e. e \<noteq> None) ?t = filter (\<lambda>e. e \<noteq> None) (take i ?t) @ Some p # filter (\<lambda>e. e \<noteq> None) (drop (Suc i) ?t)"
    by (subst t) simp
  have d: "distinct (filter (\<lambda>e. e \<noteq> None) ?t)" using wf by (simp add: table_wf_def)
  have np: "Some p \<notin> set (take i ?t)" "Some p \<notin> set (drop (Suc i) ?t)"
    using d unfolding f by auto
  have dist: "distinct (filter (\<lambda>e. e \<noteq> None) (?t[i := None]))"
    using d ix unfolding f by (simp add: upd_conv_take_nth_drop)
  have "set ?t = insert (Some p) (set (take i ?t) \<union> set (drop (Suc i) ?t))" by (subst t) auto
  then have used: "used ?k = used k - {p}"
    using ix np unfolding used_def k'(1) by (auto simp: upd_conv_take_nth_drop)
  obtain fs where fs: "chain (\<lambda>x. p_next (procs k x)) (freeStructures k) fs None" "set fs \<inter> used k = {}"
    "\<forall>x \<in> set fs. x < proc_brk k" using wf by (auto simp: table_wf_def)
  have "p \<notin> set fs" using fs(2) p by auto
  then have "chain (\<lambda>x. if x = p then freeStructures k else p_next (procs k x)) (freeStructures k) fs None"
    using fs(1) by (subst chain_cong [of fs _ "\<lambda>x. p_next (procs k x)"]) auto
  then have "chain (\<lambda>x. p_next (procs ?k x)) (freeStructures ?k) (p # fs) None" by (simp add: k'(4,6))
  moreover have "inj_on (pid_of (procs ?k)) (used ?k)"
    using wf unfolding used k'(5) by (auto simp: table_wf_def inj_on_def)
  moreover have "set (p # fs) \<inter> used ?k = {}" "\<forall>x \<in> set (p # fs). x < proc_brk ?k"
    using fs(2,3) p wf unfolding used k'(3) by (auto simp: table_wf_def)
  moreover have "length (processTable ?k) = PTABLE_SIZE" "0 \<le> last_pid ?k" "distinct (filter (\<lambda>e. e \<noteq> None) (processTable ?k))"
    "\<forall>q \<in> used ?k. 0 < pid_of (procs ?k) q \<and> pid_of (procs ?k) q \<le> last_pid ?k \<and> q < proc_brk ?k"
    using wf dist unfolding used k'(1-3,5) by (simp_all add: table_wf_def)
  ultimately have "table_wf ?k" unfolding table_wf_def by blast
  with used k'(4,5) show ?thesis by auto
qed

section \<open>Children\<close>

abbreviation nxt :: "'z kernel_scheme \<Rightarrow> nat \<Rightarrow> ptr" where
  "nxt k \<equiv> (\<lambda>x. p_next (procs k x))"

text \<open>The loop of \<open>process_table_exit\<close> visits the whole list of children and ends at the last of them.\<close>

lemma adopt_loop_chain:
  assumes "chain (nxt k) (Some c) cs None" "idle \<notin> set cs"
  shows "\<exists>P. adopt_loop idle c k = Some (last cs, k\<lparr>procs := P\<rparr>) \<and>
     (\<forall>x. P x = (if x \<in> set cs then (procs k x)\<lparr>p_parent := Some idle, p_ppid := pid_of (procs k) idle\<rparr> else procs k x))"
  using assms
proof (induction cs arbitrary: c k)
  case (Cons a cs)
  let ?k = "upd_p a (\<lambda>x. x\<lparr>p_parent := Some idle, p_ppid := pid_of (procs k) idle\<rparr>) k"
  have a: "a = c" "chain (nxt k) (p_next (procs k a)) cs None" "idle \<noteq> a" "idle \<notin> set cs" using Cons.prems by auto
  have fresh: "a \<notin> set cs" using chain_tail_fresh [of "nxt k" a cs] a(2) by simp
  have nx: "nxt ?k = nxt k" by (simp add: fun_eq_iff)
  show ?case
  proof (cases "p_next (procs k a)")
    case None
    then have "cs = []" using a(2) by simp
    with None a show ?thesis
      by (subst adopt_loop.simps) (auto simp: Let_def upd_p_def)
  next
    case (Some b)
    then have ne: "cs \<noteq> []" using a(2) by auto
    from Cons.IH [of ?k b] Some a(2,4) nx obtain P where
      P: "adopt_loop idle b ?k = Some (last cs, ?k\<lparr>procs := P\<rparr>)"
      "\<forall>x. P x = (if x \<in> set cs then (procs ?k x)\<lparr>p_parent := Some idle, p_ppid := pid_of (procs ?k) idle\<rparr> else procs ?k x)"
      by auto
    have "adopt_loop idle c k = Some (last (a # cs), k\<lparr>procs := P\<rparr>)"
      using Some P(1) ne a(1) by (subst adopt_loop.simps) (simp add: Let_def upd_p_def)
    with P(2) fresh a(3) show ?thesis by auto
  qed
qed simp

lemma adopt_children_ok:
  assumes c: "p_firstChild (procs k p) = Some c" "chain (nxt k) (Some c) cs None"
    and idle: "processTable k ! 0 = Some idle" "p_firstChild (procs k idle) = Some f" "chain (nxt k) (Some f) fs None"
    and disj: "set cs \<inter> set fs = {}" "idle \<notin> set cs" "p \<noteq> idle"
  shows "\<exists>P. adopt_children p k = Inr (k\<lparr>procs := P\<rparr>) \<and>
     p_firstChild (P idle) = Some c \<and> chain (\<lambda>x. p_next (P x)) (Some c) (cs @ fs) None \<and> p_prev (P f) = Some (last cs) \<and>
     (\<forall>x \<in> set cs. p_parent (P x) = Some idle \<and> p_ppid (P x) = pid_of (procs k) idle) \<and>
     (\<forall>x. x \<notin> set cs \<longrightarrow> p_parent (P x) = p_parent (procs k x)) \<and>
     (\<forall>x. p_fdTable (P x) = p_fdTable (procs k x) \<and> p_schedule (P x) = p_schedule (procs k x) \<and>
        p_pid (P x) = p_pid (procs k x))"
proof -
  from adopt_loop_chain [OF c(2) disj(2)] obtain P1 where
    P1: "adopt_loop idle c k = Some (last cs, k\<lparr>procs := P1\<rparr>)"
    "\<forall>x. P1 x = (if x \<in> set cs then (procs k x)\<lparr>p_parent := Some idle, p_ppid := pid_of (procs k) idle\<rparr> else procs k x)"
    by blast
  define l where "l = last cs"
  obtain as where cs: "cs = as @ [l]" using c(2) by (cases cs rule: rev_cases) (auto simp: l_def)
  have fne: "f \<in> set fs" using idle(3) by (cases fs) auto
  have lf: "l \<noteq> f" "f \<notin> set cs" using disj(1) fne cs by auto
  define P where "P = P1(l := (P1 l)\<lparr>p_next := Some f\<rparr>, f := (P1 f)\<lparr>p_prev := Some l\<rparr>)"
  define P' where "P' = P(idle := (P idle)\<lparr>p_firstChild := p_firstChild (P p)\<rparr>)"
  have keep: "p_firstChild (P x) = p_firstChild (procs k x)" "p_fdTable (P x) = p_fdTable (procs k x)"
    "p_schedule (P x) = p_schedule (procs k x)" "p_pid (P x) = p_pid (procs k x)"
    "p_parent (P x) = (if x \<in> set cs then Some idle else p_parent (procs k x))" for x
    using P1(2) by (auto simp: P_def)
  have fi: "p_firstChild (P1 idle) = Some f" using idle(2) P1(2) by simp
  let ?k2 = "upd_p l (\<lambda>x. x\<lparr>p_next := Some f\<rparr>) (k\<lparr>procs := P1\<rparr>)"
  have k2: "p_firstChild (procs ?k2 idle) = Some f" using fi by auto
  have k3: "upd_p f (\<lambda>x. x\<lparr>p_prev := Some l\<rparr>) ?k2 = k\<lparr>procs := P\<rparr>"
    using lf(1) by (simp add: upd_p_def upd_proc_def P_def)
  have run: "adopt_children p k = Inr (k\<lparr>procs := P'\<rparr>)"
    unfolding adopt_children_def c(1) idle(1) option.case P1(1) prod.case l_def [symmetric]
    by (simp add: fi k2 k3 Let_def del: upd_p_simps) (simp add: upd_p_def upd_proc_def P'_def)
  have nP: "p_next (P' x) = (if x = l then Some f else p_next (procs k x))" for x
    using P1(2) lf by (auto simp: P'_def P_def)
  have dist: "distinct cs" using chain_None_distinct [OF c(2)] .
  have "chain (\<lambda>x. p_next (P' x)) (Some c) (cs @ fs) None"
  proof -
    have "chain (nxt k) (Some c) as (Some l)" using c(2) cs by auto
    moreover have "l \<notin> set as" "l \<notin> set fs" using dist cs disj(1) by auto
    moreover have "(\<lambda>x. p_next (P' x)) = (nxt k)(l := Some f)" by (auto simp: nP)
    ultimately show ?thesis using cs idle(3) by auto
  qed
  moreover have "p_firstChild (P' idle) = Some c" using keep(1) c(1) by (simp add: P'_def)
  moreover have "p_prev (P' f) = Some l" using lf by (auto simp: P'_def P_def)
  moreover have "p_ppid (P' x) = pid_of (procs k) idle" if "x \<in> set cs" for x
    using P1(2) that disj(2) lf by (auto simp: P'_def P_def)
  moreover have "p_parent (P' x) = (if x \<in> set cs then Some idle else p_parent (procs k x))" "p_fdTable (P' x) = p_fdTable (procs k x)"
    "p_schedule (P' x) = p_schedule (procs k x)" "p_pid (P' x) = p_pid (procs k x)" for x
    using keep by (auto simp: P'_def)
  ultimately show ?thesis using run l_def by (intro exI [of _ P']) auto
qed

text \<open>The rest of \<open>process_table_exit\<close> leaves the links between processes alone.\<close>

definition family :: "'z kernel_scheme \<Rightarrow> nat \<Rightarrow> ptr \<times> ptr \<times> ptr \<times> int" where
  "family k = (\<lambda>x. (p_next (procs k x), p_firstChild (procs k x), p_parent (procs k x), p_ppid (procs k x)))"

lemma family_simps [simp]:
  "(\<And>x. p_next (g x) = p_next x \<and> p_firstChild (g x) = p_firstChild x \<and> p_parent (g x) = p_parent x \<and> p_ppid (g x) = p_ppid x)
     \<Longrightarrow> family (upd_p a g k) = family k"
  "family (upd_s a h k) = family k" "family (process_table_unblock p k) = family k"
  "family (upd_fifo b u k) = family k" "family (kfree_object k) = family k"
  "family (scheduler_remove p k) = family k" "family (tty_detach_process p k) = family k"
  by (auto simp: family_def kernel_upd_defs upd_fifo_def kfree_object_def scheduler_remove_def tty_detach_process_def
      Let_def fun_eq_iff split: option.splits)

lemma family_wake_all [simp]: "family (wake_all e a k) = family k"
proof -
  have "family (wake_queue q k) = family k" for q and k :: "'a kernel_scheme"
    by (induction q arbitrary: k) simp_all
  then show ?thesis by (simp add: wake_all_def)
qed

lemma family_update [simp]: "family (k\<lparr>inodes := i\<rparr>) = family k" "family (k\<lparr>inodeTable := t\<rparr>) = family k"
  by (simp_all add: family_def)

lemma family_fd_close: "fs_fd_close fd k = Inr (r, fd', k') \<Longrightarrow> family k' = family k"
  by (auto simp: fs_fd_close_def fifo_close_def fs_inode_close_def upd_inode_def free_inode_def Let_def
      split: option.splits if_splits elim!: rbind_InrE)

lemma family_exitProcess: "exitProcess a k = Inr k' \<Longrightarrow> family k' = family k"
proof -
  have "close_fds a is k = Inr k' \<Longrightarrow> family k' = family k" for "is" and k :: "'a kernel_scheme"
    by (induction "is" arbitrary: k) (auto simp: Let_def split: if_splits elim!: rbind_InrE dest!: family_fd_close)
  then show "exitProcess a k = Inr k' \<Longrightarrow> family k' = family k" by (fastforce simp: exitProcess_def)
qed

lemma process_table_exit_family:
  assumes "process_table_exit p k = Inr k'" "adopt_children p (upd_s p (\<lambda>s. s\<lparr>is_done := True\<rparr>) k) = Inr k1"
    "p_parent (procs k1 p) \<noteq> None"
  shows "family k' = family k1"
proof -
  let ?k2 = "tty_detach_process p (scheduler_remove p k1)"
  have f2: "family ?k2 = family k1" by simp
  then have "p_parent (procs ?k2 p) = p_parent (procs k1 p)" by (auto simp: family_def fun_eq_iff)
  then obtain q where q: "p_parent (procs ?k2 p) = Some q" using assms(3) by auto
  let ?k3 = "if p_active (procs ?k2 p)
     then (let k' = upd_p q (\<lambda>x. x\<lparr>p_active := True\<rparr>) ?k2
           in if ioWait (p_schedule (procs k' q)) then process_table_unblock q k' else k') else ?k2"
  have f3: "family ?k3 = family k1" using f2 by (simp add: Let_def)
  from assms(1,2) q obtain k4 where e: "exitProcess p ?k3 = Inr k4"
    and k': "(case p_parent (procs k4 p) of None \<Rightarrow> Inl NullDeref
      | Some q' \<Rightarrow> Inr (if inWait (p_schedule (procs k4 q')) then process_table_unblock q' k4 else k4)) = Inr k'"
    by (auto simp: process_table_exit_def Let_def elim!: rbind_InrE)
  have "family k' = family k4" using k' by (auto split: option.splits)
  then show ?thesis using family_exitProcess [OF e] f3 by simp
qed

lemma close_fds_none:
  "\<forall>i \<in> set is. fd_inode (p_fdTable (procs k a) ! i) = None \<Longrightarrow> close_fds a is k = Inr k"
  by (induction "is") (auto simp: Let_def)

lemma exitProcess_no_fds:
  "\<forall>i < MAX_OPEN_FILES. fd_inode (p_fdTable (procs k a) ! i) = None \<Longrightarrow> exitProcess a k = Inr (kfree_object k)"
  unfolding exitProcess_def by (subst close_fds_none) (auto simp: kfree_object_def)

lemma process_table_exit_no_fds:
  assumes "adopt_children p (upd_s p (\<lambda>s. s\<lparr>is_done := True\<rparr>) k) = Inr k1" "p_parent (procs k1 p) = Some q"
    "\<forall>i < MAX_OPEN_FILES. fd_inode (p_fdTable (procs k1 p) ! i) = None"
  shows "\<exists>k'. process_table_exit p k = Inr k'"
proof -
  define k2 where "k2 = tty_detach_process p (scheduler_remove p k1)"
  have procs2: "procs k2 = procs k1"
    by (simp add: k2_def tty_detach_process_def scheduler_remove_def Let_def split: option.splits)
  define k3 where "k3 = (if p_active (procs k2 p)
     then (let k' = upd_p q (\<lambda>x. x\<lparr>p_active := True\<rparr>) k2
           in if ioWait (p_schedule (procs k' q)) then process_table_unblock q k' else k') else k2)"
  have keep: "p_fdTable (procs k3 x) = p_fdTable (procs k1 x)" "p_parent (procs k3 x) = p_parent (procs k1 x)" for x
    by (auto simp: k3_def procs2 Let_def)
  then have "exitProcess p k3 = Inr (kfree_object k3)" using assms(3) by (intro exitProcess_no_fds) simp
  moreover have "p_parent (procs (kfree_object k3) p) = Some q" using keep(2) assms(2) by (simp add: kfree_object_def)
  moreover have "process_table_exit p k = rbind (exitProcess p k3) (\<lambda>k4. case p_parent (procs k4 p) of None \<Rightarrow> Inl NullDeref
      | Some q' \<Rightarrow> Inr (if inWait (p_schedule (procs k4 q')) then process_table_unblock q' k4 else k4))"
    using assms(1,2) by (simp add: process_table_exit_def k2_def [symmetric] procs2 k3_def Let_def)
  ultimately show ?thesis by simp
qed

section \<open>Properties\<close>


text \<open>
  When all 64 entries of the table are taken, \<open>process_table_new\<close> changes nothing and returns
  \<open>NULL\<close>, and the system call \<open>_run\<close> dereferences that \<open>NULL\<close>.
\<close>

theorem sys_run_full_table:
  assumes "None \<notin> set (processTable k)" "scheduler_current k = Some parent"
  shows "process_table_new img sw entryPoint args (Some parent) False t active k = Inr (None, k) \<and>
     sys_run img sw entryPoint args active k = Inl NullDeref"
  using assms by (simp add: sys_run_def with_current_def process_table_new_None [THEN iffD2])

theorem sys_run_full_table_witness:
  "sys_run plain_image (\<lambda>k. k) 0x500000 None True (small_kernel\<lparr>processTable := map Some [0..<64]\<rparr>) = Inl NullDeref"
  using sys_run_full_table [of "small_kernel\<lparr>processTable := map Some [0..<64]\<rparr>" 0 plain_image "\<lambda>k. k" "0x500000" None 0 True]
  by (simp add: small_kernel_def scheduler_current_def)

text \<open>
  Orphans are adopted: when a process with children exits, its whole list of children is put in front
  of the list of children of the process in the first entry of the table, and each of them gets it as
  parent.
\<close>

theorem exit_adopts_children:
  assumes "process_table_exit p k = Inr k'"
    and "p_firstChild (procs k p) = Some c" "chain (nxt k) (Some c) cs None"
    and "processTable k ! 0 = Some idle" "p_firstChild (procs k idle) = Some f" "chain (nxt k) (Some f) fs None"
    and "set cs \<inter> set fs = {}" "idle \<notin> set cs" "p \<noteq> idle" "p \<notin> set cs" "p_parent (procs k p) \<noteq> None"
  shows "p_firstChild (procs k' idle) = Some c \<and> chain (nxt k') (Some c) (cs @ fs) None \<and>
     (\<forall>x \<in> set cs. p_parent (procs k' x) = Some idle \<and> p_ppid (procs k' x) = pid_of (procs k) idle)"
proof -
  let ?k = "upd_s p (\<lambda>s. s\<lparr>is_done := True\<rparr>) k"
  have same: "nxt ?k = nxt k" "p_firstChild (procs ?k x) = p_firstChild (procs k x)" "pid_of (procs ?k) x = pid_of (procs k) x"
    "p_parent (procs ?k x) = p_parent (procs k x)" for x
    by (auto simp: fun_eq_iff)
  have c: "p_firstChild (procs ?k p) = Some c" "chain (nxt ?k) (Some c) cs None" "processTable ?k ! 0 = Some idle"
    "p_firstChild (procs ?k idle) = Some f" "chain (nxt ?k) (Some f) fs None"
    using assms(2-6) by (simp_all only: same upd_s_simps(7))
  from adopt_children_ok [OF c assms(7-9)] obtain P where P: "adopt_children p ?k = Inr (?k\<lparr>procs := P\<rparr>)"
    "p_firstChild (P idle) = Some c" "chain (\<lambda>x. p_next (P x)) (Some c) (cs @ fs) None"
    "\<forall>x \<in> set cs. p_parent (P x) = Some idle \<and> p_ppid (P x) = pid_of (procs ?k) idle"
    "\<forall>x. x \<notin> set cs \<longrightarrow> p_parent (P x) = p_parent (procs ?k x)" by blast
  have "p_parent (P p) \<noteq> None" using P(5) assms(10,11) same(4) [of p] by simp
  then have "family k' = family (?k\<lparr>procs := P\<rparr>)" using process_table_exit_family [OF assms(1) P(1)] by simp
  then have "p_next (procs k' x) = p_next (P x)" "p_firstChild (procs k' x) = p_firstChild (P x)"
    "p_parent (procs k' x) = p_parent (P x)" "p_ppid (procs k' x) = p_ppid (P x)" for x
    by (auto simp: family_def fun_eq_iff)
  with P(2-4) same(3) [of idle] show ?thesis by simp
qed

text \<open>Process 1, a child of process 0, has the children 2 and 3; process 5 is another child of process 0.\<close>

definition orphan_kernel :: kernel where
  "orphan_kernel = small_kernel\<lparr>procs := (procs small_kernel)(
      0 := (procs small_kernel 0)\<lparr>p_firstChild := Some 5\<rparr>,
      1 := (procs small_kernel 1)\<lparr>p_parent := Some 0, p_firstChild := Some 2\<rparr>,
      2 := (procs small_kernel 2)\<lparr>p_parent := Some 1, p_next := Some 3\<rparr>,
      3 := (procs small_kernel 3)\<lparr>p_parent := Some 1, p_prev := Some 2\<rparr>)\<rparr>"

theorem exit_adopts_children_witness:
  "\<exists>k'. process_table_exit 1 orphan_kernel = Inr k' \<and> p_firstChild (procs k' 0) = Some 2 \<and>
     chain (nxt k') (Some 2) [2, 3, 5] None \<and> p_parent (procs k' 3) = Some 0"
proof -
  let ?k = "upd_s 1 (\<lambda>s. s\<lparr>is_done := True\<rparr>) orphan_kernel"
  note simps = orphan_kernel_def small_kernel_def zero_process_def
  have "\<exists>P. adopt_children 1 ?k = Inr (?k\<lparr>procs := P\<rparr>) \<and> p_parent (P 1) = Some 0 \<and> p_fdTable (P 1) = p_fdTable (procs ?k 1)"
    using adopt_children_ok [of ?k 1 2 "[2, 3]" 0 5 "[5]"] by (auto simp: simps)
  then obtain P where P: "adopt_children 1 ?k = Inr (?k\<lparr>procs := P\<rparr>)" "p_parent (P 1) = Some 0"
    "p_fdTable (P 1) = p_fdTable (procs ?k 1)" by blast
  from process_table_exit_no_fds [OF P(1), of 0] P(2,3) obtain k' where run: "process_table_exit 1 orphan_kernel = Inr k'"
    by (auto simp: simps MAX_OPEN_FILES_def)
  from exit_adopts_children [OF run, of 2 "[2, 3]" 0 5 "[5]"] run show ?thesis by (simp add: simps)
qed

text \<open>
  C34. \<open>process_table_wait\<close> does not correct the \<open>prev\<close> pointer of the sibling after the child it removes.
  After waiting for two finished children in a row, the parent's list still starts with the second
  child, whose structure has been put up for reuse.
\<close>

theorem wait_leaves_dangling_child:
  assumes kids: "p_firstChild (procs k p) = Some c1" "p_next (procs k c1) = Some c2" "p_next (procs k c2) = None"
      "p_prev (procs k c1) = None" "p_prev (procs k c2) = Some c1"
    and fin: "is_done (p_schedule (procs k c1))" "is_done (p_schedule (procs k c2))"
    and ne: "p \<noteq> c1" "p \<noteq> c2" "c1 \<noteq> c2"
  shows "\<exists>k1 k2. process_table_wait sw p k = Some (Inr (pid_of (procs k) c1, k1)) \<and>
     process_table_wait sw p k1 = Some (Inr (pid_of (procs k) c2, k2)) \<and>
     p_firstChild (procs k2 p) = Some c2 \<and> freeStructures k2 = Some c2"
proof -
  have w: "wait_loop sw p k = Some (Inr (c, k))"
    if "p_firstChild (procs k p) = Some c" "is_done (p_schedule (procs k c))" for c and k :: "'a kernel_scheme"
    using that by (subst wait_loop.simps) (simp add: waitable_child_def waitable_loop.simps [of _ "Some c"])
  define k1 where "k1 = snd (reap_child p c1 k)"
  define k2 where "k2 = snd (reap_child p c2 k1)"
  have destroy: "p_firstChild (procs (destroyProcess c k) x) = p_firstChild (procs k x)"
    "p_prev (procs (destroyProcess c k) x) = p_prev (procs k x)" "p_schedule (procs (destroyProcess c k) x) = p_schedule (procs k x)"
    for c x and k :: "'a kernel_scheme"
    by (auto simp: destroyProcess_def Let_def upd_mm_def upd_p_def)
  have r1: "reap_child p c1 k = (pid_of (procs k) c1, k1)" using kids ne by (simp add: reap_child_def k1_def Let_def)
  have k1: "p_firstChild (procs k1 p) = Some c2" "p_prev (procs k1 c2) = Some c1" "is_done (p_schedule (procs k1 c2))"
    "pid_of (procs k1) c2 = pid_of (procs k) c2"
    using kids fin ne
    by (simp_all add: k1_def reap_child_def process_table_remove_def Let_def destroy split: option.split)
  have r2: "reap_child p c2 k1 = (pid_of (procs k) c2, k2)" using k1 ne by (simp add: reap_child_def k2_def Let_def)
  have k2: "p_firstChild (procs k2 p) = Some c2" "freeStructures k2 = Some c2"
    using k1 ne by (simp_all add: k2_def reap_child_def process_table_remove_def Let_def destroy split: option.split)
  show ?thesis
    using w [OF kids(1) fin(1)] w [OF k1(1,3)] r1 r2 k1(1) kids(1) k2
    by (intro exI [of _ k1] exI [of _ k2]) (simp add: process_table_wait_def)
qed

definition zombies_kernel :: kernel where
  "zombies_kernel = small_kernel\<lparr>procs := (procs small_kernel)(
      0 := (procs small_kernel 0)\<lparr>p_firstChild := Some 2\<rparr>,
      2 := (procs small_kernel 2)\<lparr>p_next := Some 3, p_schedule := zero_schedule\<lparr>is_done := True\<rparr>\<rparr>,
      3 := (procs small_kernel 3)\<lparr>p_prev := Some 2, p_schedule := zero_schedule\<lparr>is_done := True\<rparr>\<rparr>)\<rparr>"

theorem wait_leaves_dangling_child_witness:
  "\<exists>k1 k2. process_table_wait (\<lambda>k. k) 0 zombies_kernel = Some (Inr (3, k1)) \<and>
     process_table_wait (\<lambda>k. k) 0 k1 = Some (Inr (4, k2)) \<and> p_firstChild (procs k2 0) = Some 3 \<and> freeStructures k2 = Some 3"
proof -
  note simps = zombies_kernel_def small_kernel_def zero_process_def
  have "pid_of (procs zombies_kernel) 2 = 3" "pid_of (procs zombies_kernel) 3 = 4" by (simp_all add: simps)
  with wait_leaves_dangling_child [of zombies_kernel 0 2 3 "\<lambda>k. k"] show ?thesis
    by (simp add: simps)
qed


text \<open>The running process has an empty page directory on page 2700 and a stack of 16 pages.\<close>

definition stack_kernel :: kernel where
  "stack_kernel = roomy_kernel\<lparr>procs := (procs roomy_kernel)(0 := (procs roomy_kernel 0)\<lparr>p_mm :=
     zero_memory\<lparr>directory := Some (2700 * 4096), reservedPages := [\<lparr>pg_start = 2700 * 4096, pg_count = 1\<rparr>], pagesInStack := 16\<rparr>\<rparr>)\<rparr>"

lemma stack_kernel_ok:
  "mem_wf (procs stack_kernel 0) (kmem stack_kernel)" "paging_wf (procs stack_kernel 0) (kmem stack_kernel)"
  "scheduler_current stack_kernel = Some 0" "pagesInStack (p_mm (procs stack_kernel 0)) = 16"
  "pool (procs stack_kernel 0) (kmem stack_kernel) = insert 2700 {1024 ..< 2656}"
  "mm_translate_address (procs stack_kernel 0) (kmem stack_kernel) x = None"
  "directory (p_mm (procs stack_kernel 0)) = Some (2700 * 4096)"
proof -
  have m: "p_mm (procs stack_kernel 0) = zero_memory\<lparr>directory := Some (2700 * 4096),
      reservedPages := [\<lparr>pg_start = 2700 * 4096, pg_count = 1\<rparr>], pagesInStack := 16\<rparr>" "kmem stack_kernel = kmem roomy_kernel"
    by (simp_all add: stack_kernel_def)
  have tabs: "page_tables (kmem roomy_kernel) = (\<lambda>page i. setup_directory_entry False 0)"
    by (simp add: roomy_kernel_def paging_example_cache)
  have own: "own 0 stack_kernel = {2700}" by (auto simp: m owned_pages_def pages_of_def PAGE_SIZE_def)
  show "pool (procs stack_kernel 0) (kmem stack_kernel) = insert 2700 {1024 ..< 2656}"
    unfolding pool_def own m(2) roomy_free_set roomy_kernel_ok(2) by simp
  show "mem_wf (procs stack_kernel 0) (kmem stack_kernel)"
    using roomy_kernel_ok(1-3) own
    by (simp add: mem_wf_def m owner_invar_def roomy_free_set valid_pages_def UNUSABLE_PAGES_def PAGE_SIZE_def ENTRIES_IN_MAP_eq
        owned_pages_def pages_of_def)
  show "paging_wf (procs stack_kernel 0) (kmem stack_kernel)"
    by (simp add: paging_wf_def m tabs setup_directory_entry_def dir_page_def owned_pages_def pages_of_def PAGE_SIZE_def)
  show "mm_translate_address (procs stack_kernel 0) (kmem stack_kernel) x = None"
    by (simp add: translate_some m tabs setup_directory_entry_def Let_def)
qed (simp_all add: stack_kernel_def roomy_kernel_def small_kernel_def scheduler_current_def)


lemma small_table_wf: "table_wf roomy_kernel"
  by (auto simp: table_wf_def used_def roomy_kernel_def small_kernel_def PTABLE_SIZE_def inj_on_def)


end
