(* ===== verification/Tty_Output.thy ===== *)
theory Tty_Output
  imports Kernel_Prelude "HOL-Library.Char_ord"
begin

text \<open>
  \<open>src/drivers/tty/output.c\<close>, \<open>src/drivers/video.c\<close> and the structures of \<open>src/drivers/tty/status.h\<close>:
  the terminal emulator that turns the bytes written to a terminal into the contents of its screen
  buffer and, for the active terminal, of the video memory. A write outside the screen buffer or the
  control buffer is the fault \<open>OutOfBounds\<close>; \<open>writableBuffer\<close> is the index of its first byte in
  \<open>videoBuffer\<close>. The wait list of a terminal is in the kernel state (\<open>term_wait\<close>); its field \<open>number\<close> is
  never used. \<open>vcursor\<close> is the position last sent to the video hardware.
\<close>

unbundle bit_operations_syntax

section \<open>Definitions\<close>

definition LINE_WIDTH :: int where "LINE_WIDTH = 80"
definition TOTAL_ROWS :: int where "TOTAL_ROWS = 25"
definition BUFFER_ROWS :: int where "BUFFER_ROWS = 3 * 25"
definition CONTROL_BUFFER_LEN :: nat where "CONTROL_BUFFER_LEN = 40"
definition VIDEO_BUFFER_SIZE :: int where "VIDEO_BUFFER_SIZE = 2 * 80 * (75 + 1)"
definition ESCAPE_CODE :: char where "ESCAPE_CODE = CHR 0x1B"
definition CSI :: char where "CSI = CHR ''[''"
definition BLINK_ATTR :: u8 where "BLINK_ATTR = 0x80"

record ScreenStatus =
  cursorPosition :: int
  escaped :: bool
  csi :: bool
  attribute :: u8
  controlBuffer :: string
  controlBufferPos :: nat
  visibleLine :: int
  lastLine :: int
  videoBuffer :: "int \<Rightarrow> u8"
  writableBuffer :: int

record Terminal =
  t_active :: bool
  t_canon :: u8
  t_echo :: u8
  screen :: ScreenStatus

record display =
  vmem :: "int \<Rightarrow> u8"
  vcursor :: int

type_synonym tv = "Terminal \<times> display"

definition video_flip_buffer :: "(int \<Rightarrow> u8) \<Rightarrow> int \<Rightarrow> display \<Rightarrow> display" where
  "video_flip_buffer buf off d =
     d\<lparr>vmem := fold (\<lambda>i m. m(i := buf (off + i))) [0..2 * LINE_WIDTH * TOTAL_ROWS - 1] (vmem d)\<rparr>"

definition video_update_cursor :: "int \<Rightarrow> display \<Rightarrow> display" where
  "video_update_cursor pos d = d\<lparr>vcursor := pos AND 0xFFFF\<rparr>"

definition video_set_char :: "int \<Rightarrow> u8 \<Rightarrow> u8 \<Rightarrow> display \<Rightarrow> display" where
  "video_set_char pos val attr d =
     d\<lparr>vmem := (vmem d)(2 * pos := val, 2 * pos + 1 := attr)\<rparr>"

definition upd_screen :: "(ScreenStatus \<Rightarrow> ScreenStatus) \<Rightarrow> tv \<Rightarrow> tv" where
  "upd_screen f s = ((fst s)\<lparr>screen := f (screen (fst s))\<rparr>, snd s)"

abbreviation scr :: "tv \<Rightarrow> ScreenStatus" where
  "scr s \<equiv> screen (fst s)"

definition set_cursor :: "int \<Rightarrow> tv \<Rightarrow> tv" where
  "set_cursor c s = upd_screen (\<lambda>x. x\<lparr>cursorPosition := c\<rparr>) s"

definition is_visible :: "Terminal \<Rightarrow> int \<Rightarrow> bool" where
  "is_visible term pos =
     (let bufferLine = pos sdiv LINE_WIDTH + (BUFFER_ROWS - TOTAL_ROWS); v = visibleLine (screen term)
      in bufferLine \<ge> v \<and> bufferLine < v + TOTAL_ROWS)"

definition change_character :: "int \<Rightarrow> u8 \<Rightarrow> u8 \<Rightarrow> tv \<Rightarrow> tv" where
  "change_character pos val attr s =
     (if t_active (fst s) \<and> is_visible (fst s) pos then (fst s, video_set_char pos val attr (snd s)) else s)"

definition flip_buffer :: "tv \<Rightarrow> tv" where
  "flip_buffer s =
     (if t_active (fst s)
      then (fst s, video_flip_buffer (videoBuffer (scr s)) (2 * visibleLine (scr s) * LINE_WIDTH) (snd s)) else s)"

definition update_cursor :: "tv \<Rightarrow> tv" where
  "update_cursor s =
     (if t_active (fst s)
      then (fst s, video_update_cursor
             (if is_visible (fst s) (cursorPosition (scr s)) then cursorPosition (scr s) else TOTAL_ROWS * LINE_WIDTH + 1) (snd s))
      else s)"

definition tty_screen_scroll :: "int \<Rightarrow> tv \<Rightarrow> tv" where
  "tty_screen_scroll line s =
     (let s1 = upd_screen (\<lambda>x.
            let v = visibleLine x + line
            in x\<lparr>visibleLine := (if v < lastLine x then lastLine x
                                 else if v > BUFFER_ROWS - TOTAL_ROWS then BUFFER_ROWS - TOTAL_ROWS else v)\<rparr>) s
      in update_cursor (flip_buffer s1))"

definition tty_screen_change :: "tv \<Rightarrow> tv" where
  "tty_screen_change s = update_cursor (flip_buffer s)"

definition setAttribute :: "u8 \<Rightarrow> u8 \<Rightarrow> bool \<Rightarrow> tv \<Rightarrow> tv" where
  "setAttribute bg fg blink s =
     (let a = (fg AND 0xF) OR push_bit 4 (bg AND 0xF)
      in upd_screen (\<lambda>x. x\<lparr>attribute := (if blink then a OR BLINK_ATTR else a)\<rparr>) s)"

definition setForeground :: "u8 \<Rightarrow> tv \<Rightarrow> tv" where
  "setForeground color s =
     (let a = attribute (scr s) in setAttribute (drop_bit 4 a AND 0x7) color (a AND BLINK_ATTR \<noteq> 0) s)"

definition setBackground :: "u8 \<Rightarrow> tv \<Rightarrow> tv" where
  "setBackground color s =
     (let a = attribute (scr s) in setAttribute color (a AND 0xF) (a AND BLINK_ATTR \<noteq> 0) s)"

definition setBlink :: "bool \<Rightarrow> tv \<Rightarrow> tv" where
  "setBlink blink s =
     (let a = attribute (scr s) in setAttribute (drop_bit 4 a AND 0x7) (a AND 0xF) blink s)"

text \<open>The two bytes of position \<open>pos\<close> of the writable part of the buffer.\<close>

definition put_cell :: "int \<Rightarrow> u8 \<Rightarrow> u8 \<Rightarrow> tv \<Rightarrow> tv result" where
  "put_cell pos val attr s =
     (let i = writableBuffer (scr s) + 2 * pos
      in if 0 \<le> i \<and> i + 1 < VIDEO_BUFFER_SIZE
         then Inr (upd_screen (\<lambda>x. x\<lparr>videoBuffer := (videoBuffer x)(i := val, i + 1 := attr)\<rparr>) s)
         else Inl OutOfBounds)"

definition setCharacter :: "char \<Rightarrow> tv \<Rightarrow> tv result" where
  "setCharacter c s =
     (let pos = cursorPosition (scr s); attr = attribute (scr s)
      in rbind (put_cell pos (of_char c) attr s) (\<lambda>s1.
           Inr (set_cursor (pos + 1) (change_character pos (of_char c) attr s1))))"

definition scrollLine :: "int \<Rightarrow> tv \<Rightarrow> tv" where
  "scrollLine delta s =
     (let d = (if delta > BUFFER_ROWS then BUFFER_ROWS else if delta < 1 then 1 else delta);
          off = d * 2 * LINE_WIDTH;
          moved = (\<lambda>b. fold (\<lambda>j b. b(j := b (j + off))) [0..2 * LINE_WIDTH * BUFFER_ROWS - off - 1] b);
          cleared = (\<lambda>a b. fold (\<lambda>i b. b(2 * i := of_char CHR '' '', 2 * i + 1 := a))
                       [LINE_WIDTH * (BUFFER_ROWS - d)..LINE_WIDTH * BUFFER_ROWS - 1] b)
      in flip_buffer (upd_screen (\<lambda>x. x\<lparr>lastLine := (if lastLine x - d < 0 then 0 else lastLine x - d),
             videoBuffer := cleared (attribute x) (moved (videoBuffer x))\<rparr>) s))"

function setBlank :: "int \<Rightarrow> int \<Rightarrow> tv \<Rightarrow> tv result" where
  "setBlank start stop s =
     (if start < stop
      then rbind (put_cell start (of_char CHR '' '') (attribute (scr s))
                    (change_character start (of_char CHR '' '') (attribute (scr s)) s)) (setBlank (start + 1) stop)
      else Inr s)"
  by pat_completeness auto
termination by (relation "measure (\<lambda>(start, stop, s). nat (stop - start))") auto

declare setBlank.simps [simp del]

definition eraseLine :: "int \<Rightarrow> tv \<Rightarrow> tv result" where
  "eraseLine type s =
     (let cur = cursorPosition (scr s); line = cur sdiv LINE_WIDTH
      in if type = 2 then setBlank (line * LINE_WIDTH) ((line + 1) * LINE_WIDTH) s
         else if type = 1 then setBlank (line * LINE_WIDTH) cur s
         else setBlank (cur + 1) ((line + 1) * LINE_WIDTH) s)"

definition clearScreen :: "int \<Rightarrow> tv \<Rightarrow> tv result" where
  "clearScreen type s =
     (let cur = cursorPosition (scr s)
      in if type = 2 then setBlank 0 (TOTAL_ROWS * LINE_WIDTH) s
         else if type = 1 then setBlank 0 (LINE_WIDTH * (cur sdiv LINE_WIDTH)) s
         else setBlank ((1 + cur sdiv LINE_WIDTH) * LINE_WIDTH) (TOTAL_ROWS * LINE_WIDTH) s)"

text \<open>The numbers of a control sequence: digits are accumulated in an \<open>int\<close>.\<close>

definition number :: "string \<Rightarrow> int" where
  "number cs = fold (\<lambda>c t. s32 (t * 10 + (of_char c - 48))) cs 0"

definition parseControlBuffer :: "int \<Rightarrow> ScreenStatus \<Rightarrow> int \<times> int" where
  "parseControlBuffer def x =
     (if controlBufferPos x = 0 then (def, def)
      else (let cs = take (controlBufferPos x) (controlBuffer x);
                as = takeWhile (\<lambda>c. c \<noteq> CHR '';'') cs
            in if length as = controlBufferPos x then (number as, def)
               else (number as, number (drop (Suc (length as)) cs))))"

definition endControlSequence :: "tv \<Rightarrow> tv" where
  "endControlSequence s = upd_screen (\<lambda>x. x\<lparr>escaped := False, csi := False, controlBufferPos := 0\<rparr>) s"

definition store_control :: "char \<Rightarrow> tv \<Rightarrow> tv result" where
  "store_control c s =
     (if controlBufferPos (scr s) < CONTROL_BUFFER_LEN
      then Inr (upd_screen (\<lambda>x. x\<lparr>controlBuffer := (controlBuffer x)[controlBufferPos x := c],
                                  controlBufferPos := Suc (controlBufferPos x)\<rparr>) s)
      else Inl OutOfBounds)"

definition changeColor :: "int \<Rightarrow> tv \<Rightarrow> tv" where
  "changeColor mod1 s =
     (let fg = attribute (scr s) AND 0xF
      in if mod1 = 1 then (if fg \<noteq> 0 \<and> fg \<noteq> 6 \<and> fg < 8 then setForeground (fg + 8) s else s)
         else if mod1 = 22 then (if fg \<ge> 9 \<and> fg \<noteq> 0xE then setForeground (fg - 8) s else s)
         else if mod1 = 37 then setBackground 7 s
         else if mod1 = 36 then setBackground 3 s
         else if mod1 = 35 then setBackground 5 s
         else if mod1 = 34 then setBackground 1 s
         else if mod1 = 32 then setBackground 2 s
         else if mod1 = 31 then setBackground 4 s
         else if mod1 = 39 \<or> mod1 = 30 then setBackground 0 s
         else if mod1 = 49 \<or> mod1 = 47 then setForeground 7 s
         else if mod1 = 46 then setForeground 3 s
         else if mod1 = 45 then setForeground 5 s
         else if mod1 = 44 then setForeground 1 s
         else if mod1 = 43 then setForeground 0xE s
         else if mod1 = 42 then setForeground 2 s
         else if mod1 = 41 then setForeground 4 s
         else if mod1 = 40 then setForeground 0 s
         else if mod1 = 25 then setBlink False s
         else if mod1 = 5 then setBlink True s
         else if mod1 = 0 then setBackground 7 (setForeground 0 (setBlink False s))
         else s)"

text \<open>The \<open>while\<close> loop of the sequence \<open>z\<close>, which prints the control buffer.\<close>

fun put_string :: "string \<Rightarrow> tv \<Rightarrow> tv result" where
  "put_string [] s = Inr s"
| "put_string (c # cs) s = rbind (setCharacter c s) (put_string cs)"

definition handleControlSequence :: "char \<Rightarrow> tv \<Rightarrow> tv result" where
  "handleControlSequence ch s =
     (let cur = cursorPosition (scr s); (a, b) = parseControlBuffer 1 (scr s); (a0, b0) = parseControlBuffer 0 (scr s);
          col = cur smod LINE_WIDTH; go = (\<lambda>c. Inr (endControlSequence (set_cursor (s32 c) s)))
      in if ch = CHR ''A'' then (if cur < s32 (LINE_WIDTH * a) then go col else go (cur - s32 (LINE_WIDTH * a)))
         else if ch = CHR ''B'' then
           (if s32 (cur + s32 (a * LINE_WIDTH)) < LINE_WIDTH * TOTAL_ROWS then go (cur + s32 (a * LINE_WIDTH))
            else go ((TOTAL_ROWS - 1) * LINE_WIDTH + col))
         else if ch = CHR ''C'' then (if s32 (col + a) \<ge> LINE_WIDTH then go (cur + (LINE_WIDTH - col)) else go (cur + a))
         else if ch = CHR ''D'' then (if col < a then go (cur - col) else go (cur - a))
         else if ch = CHR ''E'' then
           (if cur \<ge> LINE_WIDTH * (TOTAL_ROWS - 1) then go (cur - col)
            else if s32 (cur sdiv LINE_WIDTH + a) \<ge> TOTAL_ROWS then go ((TOTAL_ROWS - 1) * LINE_WIDTH)
            else go (cur + s32 (s32 (LINE_WIDTH * a) - col)))
         else if ch = CHR ''F'' then
           (let c = s32 (cur - s32 (s32 (LINE_WIDTH * a) + col)) in if c < 0 then go 0 else go c)
         else if ch = CHR ''G'' then
           (let m = (if a < 1 then 1 else a) in go (cur + ((m - 1) smod LINE_WIDTH - col)))
         else if ch = CHR ''H'' then
           (let m = (if a < 1 then 1 else a); n = (if b < 1 then 1 else b)
            in go (LINE_WIDTH * ((m - 1) smod TOTAL_ROWS) + (n - 1) smod LINE_WIDTH))
         else if ch = CHR '';'' then store_control CHR '';'' s
         else if ch = CHR ''J'' then rbind (clearScreen a0 s) (\<lambda>s1. Inr (endControlSequence s1))
         else if ch = CHR ''K'' then rbind (eraseLine a0 s) (\<lambda>s1. Inr (endControlSequence s1))
         else if ch = CHR ''d'' then
           (let m = (if a < 1 then 1 else a) in go ((m - 1) smod TOTAL_ROWS + col))
         else if ch = CHR ''z'' then
           rbind (put_string (take (controlBufferPos (scr s)) (controlBuffer (scr s))) (set_cursor ((TOTAL_ROWS - 1) * LINE_WIDTH) s))
             (\<lambda>s1. Inr (endControlSequence (set_cursor cur s1)))
         else if ch = CHR ''m'' then Inr (endControlSequence (changeColor a0 s))
         else Inr (endControlSequence s))"

text \<open>The body of the loop of \<open>tty_write_to_screen\<close>: a byte outside an escape sequence, and any byte.\<close>

definition tab_end :: "int \<Rightarrow> int" where
  "tab_end cur = (if cur smod LINE_WIDTH + 4 \<ge> LINE_WIDTH then (cur sdiv LINE_WIDTH + 1) - 1 else cur + 4)"

text \<open>The adjustment after each plain byte: a cursor past the last row scrolls the screen by a line.\<close>

definition settle :: "tv \<Rightarrow> tv" where
  "settle s = (let p = cursorPosition (scr s)
     in if p \<ge> LINE_WIDTH * TOTAL_ROWS
        then (let s2 = scrollLine 1 s in set_cursor (cursorPosition (scr s2) - LINE_WIDTH) s2)
        else if p < 0 then set_cursor 0 s else s)"

definition write_plain :: "char \<Rightarrow> tv \<Rightarrow> tv result" where
  "write_plain c s =
     (let cur = cursorPosition (scr s)
      in rbind
           (if c = CHR 0x0A then Inr (set_cursor (LINE_WIDTH * (cur sdiv LINE_WIDTH + 1)) s)
            else if c = CHR 0x0D then Inr (set_cursor (cur - cur smod LINE_WIDTH) s)
            else if c = CHR 0x09 then put_string (replicate (nat (tab_end cur - cur)) CHR '' '') s
            else if c = CHR 0x0B then Inr (set_cursor (cur + LINE_WIDTH) s)
            else if c = CHR 0x08 then
              (if cur > 0 then rbind (setCharacter CHR '' '' (set_cursor (cur - 1) s)) (\<lambda>s1. Inr (set_cursor (cursorPosition (scr s1) - 1) s1))
               else Inr s)
            else setCharacter c s)
           (\<lambda>s1. Inr (settle s1)))"

definition write_byte :: "char \<Rightarrow> tv \<Rightarrow> tv result" where
  "write_byte c s =
     (if \<not> escaped (scr s)
      then if c \<noteq> ESCAPE_CODE then write_plain c s else Inr (upd_screen (\<lambda>x. x\<lparr>escaped := True\<rparr>) s)
      else if csi (scr s)
      then if of_char c \<ge> (48 :: int) \<and> of_char c \<le> (57 :: int) then store_control c s else handleControlSequence c s
      else if c = CSI then Inr (upd_screen (\<lambda>x. x\<lparr>csi := True\<rparr>) s)
      else Inr (endControlSequence s))"

fun write_bytes :: "string \<Rightarrow> tv \<Rightarrow> tv result" where
  "write_bytes [] s = Inr s"
| "write_bytes (c # cs) s = rbind (write_byte c s) (write_bytes cs)"

definition tty_write_to_screen :: "string \<Rightarrow> tv \<Rightarrow> (nat \<times> tv) result" where
  "tty_write_to_screen str s = rbind (write_bytes str s) (\<lambda>s1. Inr (length str, update_cursor s1))"

definition init_screen :: "tv \<Rightarrow> tv result" where
  "init_screen s =
     (let s1 = upd_screen (\<lambda>x. x\<lparr>cursorPosition := 0, escaped := False, csi := False,
                 lastLine := BUFFER_ROWS - TOTAL_ROWS, visibleLine := BUFFER_ROWS - TOTAL_ROWS,
                 writableBuffer := 2 * LINE_WIDTH * (BUFFER_ROWS - TOTAL_ROWS)\<rparr>) s;
          s2 = upd_screen (\<lambda>x. x\<lparr>controlBufferPos := 0\<rparr>) (setAttribute 0 7 False s1)
      in clearScreen 2 s2)"

section \<open>Screen facts\<close>

lemmas screen_dims = LINE_WIDTH_def TOTAL_ROWS_def BUFFER_ROWS_def VIDEO_BUFFER_SIZE_def CONTROL_BUFFER_LEN_def

lemma sdiv_nonneg: "0 \<le> a \<Longrightarrow> 0 \<le> b \<Longrightarrow> (a::int) sdiv b = a div b"
  by (cases "a = 0"; cases "b = 0") (simp_all add: signed_divide_int_def sgn_if)

lemma smod_nonneg: "0 \<le> a \<Longrightarrow> 0 \<le> b \<Longrightarrow> (a::int) smod b = a mod b"
  by (cases "a = 0") (simp_all add: signed_modulo_int_def)

lemma upto_snoc: "(m::int) \<le> n \<Longrightarrow> [m..n] = [m..n - 1] @ [n]"
  by (rule upto_rec2)

lemma fold_copy:
  "fold (\<lambda>i m. m(i := buf (off + i))) [0..int k - 1] m = (\<lambda>i. if 0 \<le> i \<and> i < int k then buf (off + i) else m i)"
proof (induction k)
  case (Suc k)
  have "[0..int (Suc k) - 1] = [0..int k - 1] @ [int k]" using upto_snoc [of 0 "int k"] by simp
  with Suc show ?case by (simp add: fun_eq_iff)
qed (auto simp: fun_eq_iff)

lemma fold_shift:
  assumes "0 < off"
  shows "fold (\<lambda>j b. b(j := b (j + off))) [0..int k - 1] b = (\<lambda>i. if 0 \<le> i \<and> i < int k then b (i + off) else b i)"
proof (induction k)
  case (Suc k)
  have "[0..int (Suc k) - 1] = [0..int k - 1] @ [int k]" using upto_snoc [of 0 "int k"] by simp
  with Suc assms show ?case by (simp add: fun_eq_iff)
qed (auto simp: fun_eq_iff)

lemma fold_blank:
  "fold (\<lambda>i b. b(2 * i := v, 2 * i + 1 := a)) [m..m + int k - 1] b =
     (\<lambda>i. if 2 * m \<le> i \<and> i < 2 * (m + int k) then (if even i then v else a) else b i)"
proof (induction k)
  case (Suc k)
  have "[m..m + int (Suc k) - 1] = [m..m + int k - 1] @ [m + int k]"
    using upto_snoc [of m "m + int k"] by (simp add: algebra_simps)
  with Suc show ?case by (auto simp: fun_eq_iff elim!: evenE oddE)
qed (auto simp: fun_eq_iff)

lemma vmem_flip:
  "vmem (video_flip_buffer buf off d) = (\<lambda>i. if 0 \<le> i \<and> i < 4000 then buf (off + i) else vmem d i)"
  using fold_copy [of buf off 4000 "vmem d"] by (simp add: video_flip_buffer_def screen_dims)

lemma vcursor_flip [simp]: "vcursor (video_flip_buffer buf off d) = vcursor d"
  by (simp add: video_flip_buffer_def)

lemma scr_upd [simp]:
  "screen (fst (upd_screen f s)) = f (scr s)" "t_active (fst (upd_screen f s)) = t_active (fst s)"
  "snd (upd_screen f s) = snd s"
  by (simp_all add: upd_screen_def)

lemma fst_display_ops [simp]:
  "fst (change_character p v a s) = fst s" "fst (flip_buffer s) = fst s" "fst (update_cursor s) = fst s"
  by (simp_all add: change_character_def flip_buffer_def update_cursor_def)

lemma set_cursor_simps [simp]:
  "scr (set_cursor c s) = (scr s)\<lparr>cursorPosition := c\<rparr>" "t_active (fst (set_cursor c s)) = t_active (fst s)"
  "snd (set_cursor c s) = snd s"
  by (simp_all add: set_cursor_def)

lemma set_cursor_twice: "set_cursor a (set_cursor b s) = set_cursor a s"
  by (simp add: set_cursor_def upd_screen_def)

text \<open>
  The scrolled screen: every line moves up one, the last one becomes blank, and the oldest line of the
  history is lost. Bytes past the last row of the buffer stay.
\<close>

definition scrolled :: "u8 \<Rightarrow> (int \<Rightarrow> u8) \<Rightarrow> int \<Rightarrow> u8" where
  "scrolled attr buf i =
     (if 0 \<le> i \<and> i < 11840 then buf (i + 160)
      else if 11840 \<le> i \<and> i < 12000 then (if even i then of_char CHR '' '' else attr) else buf i)"

lemma scrollLine_eq:
  "scrollLine 1 s = flip_buffer (upd_screen (\<lambda>x. x\<lparr>lastLine := max 0 (lastLine x - 1),
     videoBuffer := scrolled (attribute x) (videoBuffer x)\<rparr>) s)"
proof -
  have eq: "fold (\<lambda>i b. b(2 * i := of_char CHR '' '', 2 * i + 1 := a)) [80 * (3 * 25 - 1)..80 * (3 * 25) - 1]
          (fold (\<lambda>j b. b(j := b (j + 1 * 2 * 80))) [0..2 * 80 * (3 * 25) - 1 * 2 * 80 - 1] b) = scrolled a b" for a b
  proof -
    have bl: "fold (\<lambda>i b. b(2 * i := v, 2 * i + 1 := a)) [80 * (3 * 25 - 1)..80 * (3 * 25) - 1] b =
        (\<lambda>i. if 11840 \<le> i \<and> i < 12000 then (if even i then v else a) else b i)" for v b
      using fold_blank [of v a "80 * (3 * 25 - 1)" 80 b] by (simp del: upto_rec_numeral)
    have sh: "fold (\<lambda>j b. b(j := b (j + 1 * 2 * 80))) [0..2 * 80 * (3 * 25) - 1 * 2 * 80 - 1] b =
        (\<lambda>i. if 0 \<le> i \<and> i < 11840 then b (i + 160) else b i)" for b :: "int \<Rightarrow> u8"
      using fold_shift [of 160 11840 b] by (simp del: upto_rec_numeral)
    show ?thesis unfolding bl sh by (auto simp: scrolled_def fun_eq_iff)
  qed
  have last: "(if l - 1 < 0 then 0 else l - 1) = max 0 (l - 1)" for l :: int by simp
  have one: "(if (1::int) > 3 * 25 then 3 * 25 else if (1::int) < 1 then 1 else 1) = 1" by simp
  show ?thesis unfolding scrollLine_def Let_def screen_dims one eq last ..
qed

section \<open>The screen invariant\<close>

text \<open>
  The cursor is a position of the screen, the writable part is the last 25 rows of the buffer, and the
  visible part lies between the oldest line and the end of the buffer. An active terminal that is not
  scrolled back is shown as it is: the video memory holds the writable part of its buffer.
\<close>

definition screen_ok :: "ScreenStatus \<Rightarrow> bool" where
  "screen_ok x \<longleftrightarrow> 0 \<le> cursorPosition x \<and> cursorPosition x < LINE_WIDTH * TOTAL_ROWS
     \<and> writableBuffer x = 2 * LINE_WIDTH * (BUFFER_ROWS - TOTAL_ROWS)
     \<and> 0 \<le> lastLine x \<and> lastLine x \<le> visibleLine x \<and> visibleLine x \<le> BUFFER_ROWS - TOTAL_ROWS
     \<and> length (controlBuffer x) = CONTROL_BUFFER_LEN \<and> controlBufferPos x \<le> CONTROL_BUFFER_LEN
     \<and> (\<forall>c \<in> set (take (controlBufferPos x) (controlBuffer x)). 48 \<le> (of_char c :: int) \<and> (of_char c :: int) \<le> 59)"

definition shown :: "tv \<Rightarrow> bool" where
  "shown s \<longleftrightarrow> t_active (fst s) \<longrightarrow> visibleLine (scr s) = BUFFER_ROWS - TOTAL_ROWS \<longrightarrow>
     (\<forall>i. 0 \<le> i \<longrightarrow> i < 4000 \<longrightarrow> vmem (snd s) i = videoBuffer (scr s) (8000 + i))"

lemma screen_ok_bounds:
  assumes "screen_ok x"
  shows "0 \<le> cursorPosition x" "cursorPosition x < 2000" "writableBuffer x = 8000" "0 \<le> lastLine x"
    "lastLine x \<le> visibleLine x" "visibleLine x \<le> 50"
  using assms by (simp_all add: screen_ok_def screen_dims)

lemma screen_ok_cursor [simp]:
  "screen_ok x \<Longrightarrow> 0 \<le> c \<Longrightarrow> c < 2000 \<Longrightarrow> screen_ok (x\<lparr>cursorPosition := c\<rparr>)"
  by (simp add: screen_ok_def screen_dims)

lemma screen_ok_buffer [simp]: "screen_ok (x\<lparr>videoBuffer := b\<rparr>) = screen_ok x"
  by (simp add: screen_ok_def)

lemma screen_ok_attribute [simp]: "screen_ok (x\<lparr>attribute := a\<rparr>) = screen_ok x"
  by (simp add: screen_ok_def)

lemma screen_ok_end [simp]:
  "screen_ok x \<Longrightarrow> screen_ok (x\<lparr>escaped := e, csi := f, controlBufferPos := 0\<rparr>)"
  by (simp add: screen_ok_def)

lemma screen_ok_lastLine [simp]:
  "screen_ok x \<Longrightarrow> 0 \<le> l \<Longrightarrow> l \<le> lastLine x \<Longrightarrow> screen_ok (x\<lparr>lastLine := l\<rparr>)"
  by (simp add: screen_ok_def)

lemma screen_ok_near:
  "screen_ok (x\<lparr>cursorPosition := 0\<rparr>) \<Longrightarrow> 0 \<le> cursorPosition x \<Longrightarrow> cursorPosition x < 2000 \<Longrightarrow> screen_ok x"
  by (simp add: screen_ok_def screen_dims)

lemma screen_ok_any [simp]: "screen_ok x \<Longrightarrow> screen_ok (x\<lparr>cursorPosition := 0\<rparr>)"
  by (simp add: screen_ok_def screen_dims)

subsection \<open>Writing cells\<close>

text \<open>A cell of the writable part, written in the buffer and on the display.\<close>

definition draw :: "int \<Rightarrow> u8 \<Rightarrow> u8 \<Rightarrow> tv \<Rightarrow> tv" where
  "draw p v a s = change_character p v a
     (upd_screen (\<lambda>x. x\<lparr>videoBuffer := (videoBuffer x)(8000 + 2 * p := v, 8000 + 2 * p + 1 := a)\<rparr>) s)"

lemma put_cell_eq:
  assumes "writableBuffer (scr s) = 8000" "0 \<le> p" "p < 2080"
  shows "put_cell p v a s =
    Inr (upd_screen (\<lambda>x. x\<lparr>videoBuffer := (videoBuffer x)(8000 + 2 * p := v, 8000 + 2 * p + 1 := a)\<rparr>) s)"
  using assms by (simp add: put_cell_def screen_dims)

lemma put_cell_after_change:
  assumes "writableBuffer (scr s) = 8000" "0 \<le> p" "p < 2080"
  shows "put_cell p v a (change_character p v a s) = Inr (draw p v a s)"
  using assms put_cell_eq [of "change_character p v a s" p v a]
  by (simp add: draw_def change_character_def upd_screen_def is_visible_def Let_def)

lemma setCharacter_eq:
  assumes "writableBuffer (scr s) = 8000" "0 \<le> cursorPosition (scr s)" "cursorPosition (scr s) < 2080"
  shows "setCharacter c s = Inr (set_cursor (cursorPosition (scr s) + 1)
    (draw (cursorPosition (scr s)) (of_char c) (attribute (scr s)) s))"
  using assms by (simp add: setCharacter_def put_cell_eq draw_def Let_def)

lemma scr_draw [simp]:
  "scr (draw p v a s) = (scr s)\<lparr>videoBuffer := (videoBuffer (scr s))(8000 + 2 * p := v, 8000 + 2 * p + 1 := a)\<rparr>"
  "t_active (fst (draw p v a s)) = t_active (fst s)"
  by (simp_all add: draw_def)

lemma shown_draw: "shown s \<Longrightarrow> 0 \<le> p \<Longrightarrow> shown (draw p v a s)"
  by (auto simp: shown_def draw_def change_character_def video_set_char_def is_visible_def sdiv_nonneg screen_dims)

lemma shown_set_cursor [simp]: "shown (set_cursor c s) = shown s"
  by (simp add: shown_def)

lemma shown_flip: "visibleLine (scr s) = BUFFER_ROWS - TOTAL_ROWS \<or> shown s \<Longrightarrow> shown (flip_buffer s)"
  by (auto simp: shown_def flip_buffer_def vmem_flip screen_dims)

lemma shown_update_cursor [simp]: "shown (update_cursor s) = shown s"
  by (simp add: shown_def update_cursor_def video_update_cursor_def)

lemma put_string_draws:
  assumes "writableBuffer (scr s) = 8000" "0 \<le> cursorPosition (scr s)"
    "cursorPosition (scr s) + int (length cs) \<le> 2080"
  shows "\<exists>s'. put_string cs s = Inr s' \<and> (shown s \<longrightarrow> shown s') \<and> t_active (fst s') = t_active (fst s)
    \<and> (\<exists>b. scr s' = (scr s)\<lparr>cursorPosition := cursorPosition (scr s) + int (length cs), videoBuffer := b\<rparr>
      \<and> (\<forall>i < length cs. b (8000 + 2 * (cursorPosition (scr s) + int i)) = of_char (cs ! i)
                       \<and> b (8000 + 2 * (cursorPosition (scr s) + int i) + 1) = attribute (scr s))
      \<and> (\<forall>j. j < 8000 + 2 * cursorPosition (scr s) \<or> 8000 + 2 * (cursorPosition (scr s) + int (length cs)) \<le> j
             \<longrightarrow> b j = videoBuffer (scr s) j))"
  using assms
proof (induction cs arbitrary: s)
  case Nil
  show ?case by (intro exI [of _ s]) (auto intro: exI [of _ "videoBuffer (scr s)"])
next
  case (Cons c cs)
  let ?p = "cursorPosition (scr s)"
  let ?s1 = "set_cursor (?p + 1) (draw ?p (of_char c) (attribute (scr s)) s)"
  have step: "setCharacter c s = Inr ?s1" using Cons.prems by (intro setCharacter_eq) auto
  from Cons.IH [of ?s1] Cons.prems obtain s' b where ih: "put_string cs ?s1 = Inr s'" "shown ?s1 \<longrightarrow> shown s'"
      "t_active (fst s') = t_active (fst s)"
      "scr s' = (scr ?s1)\<lparr>cursorPosition := ?p + 1 + int (length cs), videoBuffer := b\<rparr>"
      "\<forall>i < length cs. b (8000 + 2 * (?p + 1 + int i)) = of_char (cs ! i) \<and> b (8000 + 2 * (?p + 1 + int i) + 1) = attribute (scr s)"
      "\<forall>j. j < 8000 + 2 * (?p + 1) \<or> 8000 + 2 * (?p + 1 + int (length cs)) \<le> j \<longrightarrow> b j = videoBuffer (scr ?s1) j"
    by auto
  have cells: "b (8000 + 2 * (?p + int i)) = of_char ((c # cs) ! i) \<and> b (8000 + 2 * (?p + int i) + 1) = attribute (scr s)"
    if "i < length (c # cs)" for i
  proof (cases i)
    case 0 with ih(6) show ?thesis by simp
  next
    case (Suc m) with that ih(5) show ?thesis by (simp add: algebra_simps)
  qed
  have "scr s' = (scr s)\<lparr>cursorPosition := ?p + int (length (c # cs)), videoBuffer := b\<rparr>"
    using ih(4) by simp
  moreover have "shown s \<longrightarrow> shown s'" using ih(2) Cons.prems by (simp add: shown_draw)
  moreover have "b j = videoBuffer (scr s) j"
    if "j < 8000 + 2 * ?p \<or> 8000 + 2 * (?p + int (length (c # cs))) \<le> j" for j
    using ih(6) that by (auto simp: algebra_simps)
  ultimately show ?case using step ih(1,3) cells by (intro exI [of _ s']) auto
qed

lemma setBlank_draws:
  assumes "writableBuffer (scr s) = 8000" "0 \<le> start" "stop \<le> 2080"
  shows "\<exists>s'. setBlank start stop s = Inr s' \<and> (shown s \<longrightarrow> shown s') \<and> t_active (fst s') = t_active (fst s)
    \<and> (\<exists>b. scr s' = (scr s)\<lparr>videoBuffer := b\<rparr>
      \<and> (\<forall>i. b i = (if 8000 + 2 * start \<le> i \<and> i < 8000 + 2 * stop
                     then (if even i then of_char CHR '' '' else attribute (scr s)) else videoBuffer (scr s) i)))"
  using assms
proof (induction start stop s rule: setBlank.induct)
  case (1 start stop s)
  show ?case
  proof (cases "start < stop")
    case False
    then show ?thesis by (intro exI [of _ s]) (auto simp: setBlank.simps [of start] intro!: exI [of _ "videoBuffer (scr s)"])
  next
    case True
    let ?s1 = "draw start (of_char CHR '' '') (attribute (scr s)) s"
    have step: "setBlank start stop s = setBlank (start + 1) stop ?s1"
      using True "1.prems" by (simp add: setBlank.simps [of start] put_cell_after_change)
    from "1.IH" [OF True, of ?s1] "1.prems" obtain s' b where ih: "setBlank (start + 1) stop ?s1 = Inr s'"
        "shown ?s1 \<longrightarrow> shown s'" "t_active (fst s') = t_active (fst s)" "scr s' = (scr ?s1)\<lparr>videoBuffer := b\<rparr>"
        "\<And>i. b i = (if 8000 + 2 * (start + 1) \<le> i \<and> i < 8000 + 2 * stop
           then (if even i then of_char CHR '' '' else attribute (scr s)) else videoBuffer (scr ?s1) i)"
      by auto
    have "b i = (if 8000 + 2 * start \<le> i \<and> i < 8000 + 2 * stop
        then (if even i then of_char CHR '' '' else attribute (scr s)) else videoBuffer (scr s) i)" for i
    proof -
      consider "i = 8000 + 2 * start" | "i = 8000 + 2 * start + 1" | "i < 8000 + 2 * start" | "8000 + 2 * (start + 1) \<le> i"
        by fastforce
      then show ?thesis using True ih(5) [of i] by cases simp_all
    qed
    then show ?thesis using step ih(1-4) "1.prems"
      by (intro exI [of _ s']) (auto simp: shown_draw intro!: exI [of _ b])
  qed
qed

subsection \<open>Plain text\<close>

lemma settle_ok:
  assumes "screen_ok ((scr s)\<lparr>cursorPosition := 0\<rparr>)" "0 \<le> cursorPosition (scr s)" "cursorPosition (scr s) < 2080"
  shows "screen_ok (scr (settle s))" "escaped (scr (settle s)) = escaped (scr s)" "shown s \<Longrightarrow> shown (settle s)"
proof -
  have low: "0 \<le> lastLine (scr s)" using assms(1) by (simp add: screen_ok_def)
  have "screen_ok ((scr s)\<lparr>lastLine := max 0 (lastLine (scr s) - 1), videoBuffer := b, cursorPosition := c\<rparr>)"
    if "0 \<le> c" "c < 2000" for b c
    using assms(1) that low by (simp add: screen_ok_def screen_dims)
  then show "screen_ok (scr (settle s))"
    using assms by (auto simp: settle_def scrollLine_eq Let_def screen_dims intro: screen_ok_near)
  show "escaped (scr (settle s)) = escaped (scr s)" by (simp add: settle_def scrollLine_eq Let_def)
  show "shown (settle s)" if "shown s"
  proof (cases "visibleLine (scr s) = BUFFER_ROWS - TOTAL_ROWS")
    case True
    then show ?thesis using that by (auto simp: settle_def scrollLine_eq Let_def intro: shown_flip)
  next
    case False
    then show ?thesis by (simp add: shown_def settle_def scrollLine_eq Let_def)
  qed
qed

lemma tab_end_le: "0 \<le> cur \<Longrightarrow> cur < 2000 \<Longrightarrow> cur + int (nat (tab_end cur - cur)) \<le> 2004"
  by (auto simp: tab_end_def sdiv_nonneg smod_nonneg screen_dims)

lemma write_plain_ok:
  assumes "screen_ok (scr s)"
  shows "\<exists>s'. write_plain c s = Inr s' \<and> screen_ok (scr s') \<and> escaped (scr s') = escaped (scr s) \<and> (shown s \<longrightarrow> shown s')"
proof -
  let ?p = "cursorPosition (scr s)"
  note b = screen_ok_bounds [OF assms]
  have move: ?thesis if "write_plain c s = Inr (settle (set_cursor q s))" "0 \<le> q" "q < 2080" for q
    using that settle_ok [of "set_cursor q s"] assms by simp
  have dm: "?p sdiv 80 = ?p div 80" "?p smod 80 = ?p mod 80" using b by (simp_all add: sdiv_nonneg smod_nonneg)
  have print: ?thesis if ws: "write_plain c s = rbind (put_string cs s) (\<lambda>s1. Inr (settle s1))"
    and n: "?p + int (length cs) < 2080" for cs
  proof -
    from put_string_draws [of s cs] b n obtain s1 d where s1: "put_string cs s = Inr s1" "shown s \<longrightarrow> shown s1"
      "scr s1 = (scr s)\<lparr>cursorPosition := ?p + int (length cs), videoBuffer := d\<rparr>" by auto
    then show ?thesis using ws settle_ok [of s1] assms b n by simp
  qed
  consider "c = CHR 0x0A" | "c = CHR 0x0D" | "c = CHR 0x09" | "c = CHR 0x0B" | "c = CHR 0x08"
    | "c \<noteq> CHR 0x0A" "c \<noteq> CHR 0x0D" "c \<noteq> CHR 0x09" "c \<noteq> CHR 0x0B" "c \<noteq> CHR 0x08" by blast
  then show ?thesis
  proof cases
    case 1
    then show ?thesis using b by (intro move [of "80 * (?p div 80 + 1)"]) (simp_all add: write_plain_def Let_def screen_dims dm)
  next
    case 2
    then show ?thesis using b zmod_le_nonneg_dividend [of ?p 80] by (intro move [of "?p - ?p mod 80"]) (simp_all add: write_plain_def Let_def screen_dims dm)
  next
    case 3
    then show ?thesis using b tab_end_le [of ?p]
      by (intro print [of "replicate (nat (tab_end ?p - ?p)) CHR '' ''"]) (simp_all add: write_plain_def Let_def)
  next
    case 4
    then show ?thesis using b by (intro move [of "?p + 80"]) (simp_all add: write_plain_def Let_def screen_dims)
  next
    case 5
    show ?thesis
    proof (cases "?p > 0")
      case True
      let ?s1 = "set_cursor (?p - 1) (draw (?p - 1) (of_char CHR '' '') (attribute (scr s)) (set_cursor (?p - 1) s))"
      have "write_plain c s = Inr (settle ?s1)"
        using True 5 b by (simp add: write_plain_def Let_def setCharacter_eq set_cursor_twice)
      moreover have "shown s \<longrightarrow> shown ?s1" using True by (auto intro: shown_draw)
      ultimately show ?thesis using True b assms settle_ok [of ?s1] by simp
    next
      case False
      then show ?thesis using 5 b assms settle_ok [of s] by (simp add: write_plain_def Let_def)
    qed
  next
    case 6
    then show ?thesis using b by (intro print [of "[c]"]) (auto simp: write_plain_def Let_def rbind_def split: sum.splits)
  qed
qed

lemma tty_write_plain_ok:
  assumes "screen_ok (scr s)" "\<not> escaped (scr s)" "ESCAPE_CODE \<notin> set str"
  shows "\<exists>s'. tty_write_to_screen str s = Inr (length str, s') \<and> screen_ok (scr s') \<and> \<not> escaped (scr s')
    \<and> (shown s \<longrightarrow> shown s')"
proof -
  have "\<exists>s'. write_bytes str s = Inr s' \<and> screen_ok (scr s') \<and> \<not> escaped (scr s') \<and> (shown s \<longrightarrow> shown s')"
    using assms
  proof (induction str arbitrary: s)
    case (Cons c cs)
    from write_plain_ok [OF Cons.prems(1), of c] obtain s1 where s1: "write_plain c s = Inr s1" "screen_ok (scr s1)"
      "\<not> escaped (scr s1)" "shown s \<longrightarrow> shown s1" using Cons.prems by auto
    with Cons.IH [of s1] Cons.prems show ?case by (auto simp: write_byte_def)
  qed auto
  then show ?thesis by (force simp: tty_write_to_screen_def)
qed

text \<open>Text without escape codes never leaves the terminal's buffers: written to a well-formed terminal it is
  consumed whole, whatever the bytes, the terminal stays well-formed, and an active terminal that is not scrolled
  back remains shown on the display exactly as its buffer has it.\<close>

theorem tty_write_plain_safe:
  assumes "screen_ok (scr s)" "\<not> escaped (scr s)" "ESCAPE_CODE \<notin> set str"
  shows "\<exists>s'. tty_write_to_screen str s = Inr (length str, s') \<and> screen_ok (scr s') \<and> \<not> escaped (scr s')
    \<and> (shown s \<longrightarrow> shown s')"
  using assms by (rule tty_write_plain_ok)

subsection \<open>Control sequences\<close>

definition control_chars :: "string \<Rightarrow> bool" where
  "control_chars cs \<longleftrightarrow> (\<forall>c \<in> set cs. 48 \<le> (of_char c :: int) \<and> (of_char c :: int) \<le> 59)"

lemma number_bounds:
  "control_chars cs \<Longrightarrow> length cs \<le> 7 \<Longrightarrow> 0 \<le> number cs \<and> 9 * number cs \<le> 11 * (10 ^ length cs - 1)"
proof (induction cs rule: rev_induct)
  case (snoc c cs)
  then have ih: "0 \<le> number cs" "9 * number cs \<le> 11 * (10 ^ length cs - 1)" and c: "48 \<le> (of_char c :: int)" "(of_char c :: int) \<le> 59"
    and len: "length cs \<le> 6" by (auto simp: control_chars_def)
  have "(10::int) ^ length cs \<le> 10 ^ 6" using len by (rule power_increasing) simp
  then have "number (cs @ [c]) = number cs * 10 + (of_char c - 48)"
    using ih c unfolding number_def by (simp add: s32_id)
  then show ?case using ih c by simp
qed (simp add: number_def)

lemma number_le:
  assumes "control_chars cs" "length cs \<le> 7"
  shows "0 \<le> number cs" "number cs \<le> 20000000"
proof -
  have "(10::int) ^ length cs \<le> 10 ^ 7" using assms(2) by (rule power_increasing) simp
  then show "0 \<le> number cs" "number cs \<le> 20000000" using number_bounds [OF assms] by auto
qed

lemma control_chars_mono: "control_chars cs \<Longrightarrow> set ds \<subseteq> set cs \<Longrightarrow> control_chars ds"
  by (auto simp: control_chars_def)

lemma parseControlBuffer_le:
  assumes "screen_ok x" "controlBufferPos x \<le> 7" "parseControlBuffer def x = (a, b)" "def = 0 \<or> def = 1"
  shows "0 \<le> a" "a \<le> 20000000" "0 \<le> b" "b \<le> 20000000"
proof -
  let ?cs = "take (controlBufferPos x) (controlBuffer x)"
  let ?as = "takeWhile (\<lambda>c. c \<noteq> CHR '';'') ?cs" and ?bs = "drop (Suc (length (takeWhile (\<lambda>c. c \<noteq> CHR '';'') ?cs))) ?cs"
  have cc: "control_chars ?cs" "length ?cs \<le> 7" using assms(1,2) by (simp_all add: screen_ok_def control_chars_def)
  have as: "control_chars ?as" by (rule control_chars_mono [OF cc(1)]) (auto dest: set_takeWhileD)
  have asl: "length ?as \<le> 7" using length_takeWhile_le cc(2) by (rule le_trans)
  have bs: "control_chars ?bs" "length ?bs \<le> 7"
    using control_chars_mono [OF cc(1) set_drop_subset] cc(2) by simp_all
  show "0 \<le> a" "a \<le> 20000000" "0 \<le> b" "b \<le> 20000000"
    using number_le [OF as asl] number_le [OF bs] assms(3,4)
    by (auto simp: parseControlBuffer_def Let_def split: if_splits)
qed

lemma scr_endControl [simp]:
  "scr (endControlSequence s) = (scr s)\<lparr>escaped := False, csi := False, controlBufferPos := 0\<rparr>"
  "shown (endControlSequence s) = shown s"
  by (simp_all add: endControlSequence_def shown_def)

lemma setAttribute_screen [simp]:
  "screen_ok (scr (setAttribute bg fg bl s)) = screen_ok (scr s)" "shown (setAttribute bg fg bl s) = shown s"
  by (simp_all add: setAttribute_def shown_def Let_def)

lemma setForeground_screen [simp]:
  "screen_ok (scr (setForeground c s)) = screen_ok (scr s)" "shown (setForeground c s) = shown s"
  by (simp_all add: setForeground_def Let_def)

lemma setBackground_screen [simp]:
  "screen_ok (scr (setBackground c s)) = screen_ok (scr s)" "shown (setBackground c s) = shown s"
  by (simp_all add: setBackground_def Let_def)

lemma setBlink_screen [simp]:
  "screen_ok (scr (setBlink b s)) = screen_ok (scr s)" "shown (setBlink b s) = shown s"
  by (simp_all add: setBlink_def Let_def)

lemma changeColor_screen [simp]:
  "screen_ok (scr (changeColor m s)) = screen_ok (scr s)" "shown (changeColor m s) = shown s"
  by (simp_all add: changeColor_def Let_def)

text \<open>A step that does not fault and keeps the screen well-formed and shown.\<close>

definition stays :: "tv \<Rightarrow> tv result \<Rightarrow> bool" where
  "stays s r \<longleftrightarrow> (\<exists>s'. r = Inr s' \<and> screen_ok (scr s') \<and> (shown s \<longrightarrow> shown s'))"

lemma stays_Inr: "stays s (Inr s') \<longleftrightarrow> screen_ok (scr s') \<and> (shown s \<longrightarrow> shown s')"
  by (simp add: stays_def)

lemma stays_end: "stays s r \<Longrightarrow> stays s (rbind r (\<lambda>s1. Inr (endControlSequence s1)))"
  unfolding stays_def by (elim exE conjE) simp

lemma stays_go:
  assumes "screen_ok (scr s)" "0 \<le> c" "c < 2000"
  shows "stays s (Inr (endControlSequence (set_cursor (s32 c) s)))" "stays s (Inr (endControlSequence (set_cursor c s)))"
  using assms by (simp_all add: stays_Inr s32_id)

lemma blank_ok:
  assumes "screen_ok (scr s)" "0 \<le> start" "stop \<le> 2000"
  shows "stays s (setBlank start stop s)"
  using setBlank_draws [of s start stop] assms screen_ok_bounds [OF assms(1)] by (auto simp: stays_def)

lemma eraseLine_ok: "screen_ok (scr s) \<Longrightarrow> stays s (eraseLine t s)"
  using screen_ok_bounds [of "scr s"]
  unfolding eraseLine_def Let_def screen_dims by (auto simp: sdiv_nonneg intro!: blank_ok)

lemma clearScreen_ok: "screen_ok (scr s) \<Longrightarrow> stays s (clearScreen t s)"
  using screen_ok_bounds [of "scr s"]
  unfolding clearScreen_def Let_def screen_dims by (auto simp: sdiv_nonneg intro!: blank_ok)

lemma print_bottom_ok:
  assumes "screen_ok (scr s)"
  shows "stays s (rbind (put_string (take (controlBufferPos (scr s)) (controlBuffer (scr s))) (set_cursor ((TOTAL_ROWS - 1) * LINE_WIDTH) s))
    (\<lambda>s1. Inr (endControlSequence (set_cursor (cursorPosition (scr s)) s1))))"
proof -
  let ?cs = "take (controlBufferPos (scr s)) (controlBuffer (scr s))" and ?s0 = "set_cursor ((TOTAL_ROWS - 1) * LINE_WIDTH) s"
  have "length ?cs \<le> 40" using assms by (simp add: screen_ok_def screen_dims)
  with put_string_draws [of ?s0 ?cs] screen_ok_bounds [OF assms] obtain s' b where
    "put_string ?cs ?s0 = Inr s'" "shown s \<longrightarrow> shown s'" "scr s' = (scr ?s0)\<lparr>cursorPosition := 1920 + int (length ?cs), videoBuffer := b\<rparr>"
    by (auto simp: screen_dims)
  then show ?thesis using assms screen_ok_bounds [OF assms] by (simp add: stays_Inr)
qed

lemma store_control_ok:
  assumes "screen_ok (scr s)" "controlBufferPos (scr s) < 40" "48 \<le> (of_char c :: int)" "(of_char c :: int) \<le> 59"
  shows "stays s (store_control c s)"
proof -
  let ?x = "scr s"
  have "take (Suc (controlBufferPos ?x)) ((controlBuffer ?x)[controlBufferPos ?x := c]) = take (controlBufferPos ?x) (controlBuffer ?x) @ [c]"
    using assms by (simp add: take_Suc_conv_app_nth screen_ok_def screen_dims)
  then show ?thesis using assms
    by (auto simp: store_control_def stays_Inr screen_ok_def screen_dims shown_def)
qed

lemma handleControlSequence_ok:
  assumes "screen_ok (scr s)" "controlBufferPos (scr s) \<le> 7" "ch \<noteq> CHR ''C''"
  shows "stays s (handleControlSequence ch s)"
proof -
  let ?p = "cursorPosition (scr s)"
  note b = screen_ok_bounds [OF assms(1)]
  obtain a m where am: "parseControlBuffer 1 (scr s) = (a, m)" by force
  obtain a0 m0 where am0: "parseControlBuffer 0 (scr s) = (a0, m0)" by force
  note ab = parseControlBuffer_le [OF assms(1,2) am]
  have w: "s32 (80 * a) = 80 * a" "s32 (a * 80) = 80 * a" "s32 (?p + 80 * a) = ?p + 80 * a" "s32 (80 * a - ?p mod 80) = 80 * a - ?p mod 80"
    "s32 (80 * a + ?p mod 80) = 80 * a + ?p mod 80" "s32 (?p - (80 * a + ?p mod 80)) = ?p - (80 * a + ?p mod 80)"
    "s32 (?p div 80 + a) = ?p div 80 + a"
    using ab b by (simp_all add: s32_id)
  have dm: "?p sdiv 80 = ?p div 80" "?p smod 80 = ?p mod 80" using b by (simp_all add: sdiv_nonneg smod_nonneg)
  have le: "?p mod 80 \<le> ?p" using b by (simp add: zmod_le_nonneg_dividend)
  have row: "?p div 80 * 80 + ?p mod 80 = ?p" by simp
  have "?p div 80 \<le> 24" using b by simp
  then have top: "?p - ?p mod 80 \<le> 1920" using row by linarith
  have bottom: "?p - ?p mod 80 + x mod 80 < 2000" "0 \<le> ?p - ?p mod 80 + x mod 80" for x
    using top le pos_mod_bound [of 80 x] pos_mod_sign [of 80 x] by linarith+
  have jump: "(x - 1) smod n = (x - 1) mod n" if "1 \<le> x" "0 \<le> n" for x n :: int using that by (simp add: smod_nonneg)
  note unf = handleControlSequence_def am am0 Let_def screen_dims dm w prod.case
  note go = stays_go(1) [OF assms(1)] and go2 = stays_go(2) [OF assms(1)]
  consider "ch = CHR ''A''" | "ch = CHR ''B''" | "ch = CHR ''D''" | "ch = CHR ''E''" | "ch = CHR ''F''" | "ch = CHR ''G''" | "ch = CHR ''H''"
    | "ch = CHR '';''" | "ch = CHR ''J''" | "ch = CHR ''K''" | "ch = CHR ''d''" | "ch = CHR ''z''" | "ch = CHR ''m''"
    | "ch \<notin> set ''ABCDEFGH;JKdzm''" using assms(3) by auto
  then show ?thesis
  proof cases
    case 1
    then show ?thesis using b ab le by (auto simp: unf intro!: go)
  next
    case 2
    then show ?thesis using b ab go2 by (auto simp: unf intro!: go)
  next
    case 3
    then show ?thesis using b ab le by (auto simp: unf intro!: go)
  next
    case 4
    then show ?thesis using b ab le row by (auto simp: unf intro!: go)
  next
    case 5
    then show ?thesis using b ab le go2 by (auto simp: unf intro!: go)
  next
    case 6
    then show ?thesis using b ab jump bottom [of "a - 1"] bottom [of 0] by (auto simp: unf intro!: go)
  next
    case 7
    then show ?thesis using b ab jump by (auto simp: unf intro!: go)
  next
    case 8
    then show ?thesis using store_control_ok [OF assms(1)] assms(2) by (simp add: unf)
  next
    case 9
    then show ?thesis using stays_end [OF clearScreen_ok [OF assms(1)]] by (simp add: unf)
  next
    case 10
    then show ?thesis using stays_end [OF eraseLine_ok [OF assms(1)]] by (simp add: unf)
  next
    case 11
    then show ?thesis using b ab jump by (auto simp: unf intro!: go)
  next
    case 12
    then show ?thesis using print_bottom_ok [OF assms(1)] by (simp add: unf)
  next
    case 13
    then show ?thesis using assms(1) by (simp add: unf stays_Inr)
  next
    case 14
    then show ?thesis using assms(1) by (simp add: unf stays_Inr)
  qed
qed


text \<open>A printable string that ends before the last position of the screen is drawn where the cursor is: each cell holds
  its character with the current attribute, every other cell of the buffer is as before, and the cursor has
  advanced by the length of the string.\<close>

theorem tty_write_prints:
  assumes "screen_ok (scr s)" "\<not> escaped (scr s)" "\<forall>c \<in> set str. c \<notin> {CHR 0x0A, CHR 0x0D, CHR 0x09, CHR 0x0B, CHR 0x08, ESCAPE_CODE}"
    "cursorPosition (scr s) + int (length str) < LINE_WIDTH * TOTAL_ROWS"
  shows "\<exists>s' b. tty_write_to_screen str s = Inr (length str, s')
    \<and> scr s' = (scr s)\<lparr>cursorPosition := cursorPosition (scr s) + int (length str), videoBuffer := b\<rparr>
    \<and> (\<forall>i < length str. b (8000 + 2 * (cursorPosition (scr s) + int i)) = of_char (str ! i)
          \<and> b (8000 + 2 * (cursorPosition (scr s) + int i) + 1) = attribute (scr s))
    \<and> (\<forall>j. j < 8000 + 2 * cursorPosition (scr s) \<or> 8000 + 2 * (cursorPosition (scr s) + int (length str)) \<le> j
             \<longrightarrow> b j = videoBuffer (scr s) j)"
proof -
  have "write_bytes str s = put_string str s" using assms
  proof (induction str arbitrary: s)
    case (Cons c cs)
    let ?p = "cursorPosition (scr s)"
    let ?s1 = "set_cursor (?p + 1) (draw ?p (of_char c) (attribute (scr s)) s)"
    note b = screen_ok_bounds [OF Cons.prems(1)]
    have len: "?p + 1 + int (length cs) < 2000" using Cons.prems(4) by (simp add: screen_dims)
    have step: "setCharacter c s = Inr ?s1" using b by (intro setCharacter_eq) auto
    have "settle ?s1 = ?s1" using b len by (simp add: settle_def screen_dims)
    then have "write_byte c s = Inr ?s1" using Cons.prems step by (simp add: write_byte_def write_plain_def Let_def)
    moreover have "write_bytes cs ?s1 = put_string cs ?s1"
      using Cons.prems b len by (intro Cons.IH) (auto simp: screen_dims)
    ultimately show ?case using step by simp
  qed simp
  moreover obtain s' b where "put_string str s = Inr s'"
      "scr s' = (scr s)\<lparr>cursorPosition := cursorPosition (scr s) + int (length str), videoBuffer := b\<rparr>"
      "\<forall>i < length str. b (8000 + 2 * (cursorPosition (scr s) + int i)) = of_char (str ! i)
          \<and> b (8000 + 2 * (cursorPosition (scr s) + int i) + 1) = attribute (scr s)"
      "\<forall>j. j < 8000 + 2 * cursorPosition (scr s) \<or> 8000 + 2 * (cursorPosition (scr s) + int (length str)) \<le> j
             \<longrightarrow> b j = videoBuffer (scr s) j"
    using put_string_draws [of s str] screen_ok_bounds [OF assms(1)] assms(4) by (force simp: screen_dims)
  ultimately show ?thesis
    by (intro exI [of _ "update_cursor s'"] exI [of _ b]) (simp add: tty_write_to_screen_def)
qed

text \<open>A line feed on the last row scrolls: every row of the buffer, the history included, moves up by one, the last row
  becomes blank in the current colour, and the cursor is at its start.\<close>

theorem tty_newline_scrolls:
  assumes "screen_ok (scr s)" "\<not> escaped (scr s)" "LINE_WIDTH * (TOTAL_ROWS - 1) \<le> cursorPosition (scr s)"
  shows "\<exists>s'. tty_write_to_screen [CHR 0x0A] s = Inr (1, s')
    \<and> scr s' = (scr s)\<lparr>cursorPosition := LINE_WIDTH * (TOTAL_ROWS - 1), lastLine := max 0 (lastLine (scr s) - 1),
        videoBuffer := scrolled (attribute (scr s)) (videoBuffer (scr s))\<rparr>"
proof -
  note b = screen_ok_bounds [OF assms(1)]
  have "cursorPosition (scr s) div 80 = 24" using b assms(3) by (simp add: screen_dims)
  then have eq: "cursorPosition (scr s) sdiv 80 = 24" using b by (simp add: sdiv_nonneg)
  have "write_byte (CHR 0x0A) s = Inr (settle (set_cursor 2000 s))"
    using assms(2) eq by (simp add: write_byte_def write_plain_def ESCAPE_CODE_def Let_def screen_dims)
  then show ?thesis by (simp add: tty_write_to_screen_def settle_def scrollLine_eq Let_def screen_dims)
qed

text \<open>Scrolling the view by any number of lines keeps it between the oldest line of the history and the end of the
  buffer, changes nothing else of the terminal, and shows on an active terminal the 25 rows from the new first line.\<close>

theorem tty_screen_scroll_view:
  assumes "screen_ok (scr s)"
  shows "screen_ok (scr (tty_screen_scroll line s))
    \<and> scr (tty_screen_scroll line s) = (scr s)\<lparr>visibleLine := max (lastLine (scr s)) (min 50 (visibleLine (scr s) + line))\<rparr>
    \<and> (t_active (fst s) \<longrightarrow> (\<forall>i. 0 \<le> i \<longrightarrow> i < 4000 \<longrightarrow> vmem (snd (tty_screen_scroll line s)) i =
           videoBuffer (scr s) (2 * LINE_WIDTH * visibleLine (scr (tty_screen_scroll line s)) + i)))"
proof (intro conjI)
  note b = screen_ok_bounds [OF assms]
  show eq: "scr (tty_screen_scroll line s) = (scr s)\<lparr>visibleLine := max (lastLine (scr s)) (min 50 (visibleLine (scr s) + line))\<rparr>"
    using b by (auto simp: tty_screen_scroll_def Let_def screen_dims)
  show "screen_ok (scr (tty_screen_scroll line s))"
    using assms b unfolding eq by (simp add: screen_ok_def screen_dims)
  show "t_active (fst s) \<longrightarrow> (\<forall>i. 0 \<le> i \<longrightarrow> i < 4000 \<longrightarrow> vmem (snd (tty_screen_scroll line s)) i =
           videoBuffer (scr s) (2 * LINE_WIDTH * visibleLine (scr (tty_screen_scroll line s)) + i))"
    by (auto simp: tty_screen_scroll_def Let_def flip_buffer_def update_cursor_def video_update_cursor_def vmem_flip
        screen_dims algebra_simps)
qed

text \<open>While the view is scrolled back, a character written at a visible position lands on the wrong row of the display:
  the display cell it changes is the one that shows row \<open>visibleLine + row\<close> of the buffer, whose contents are not
  what was written.\<close>

theorem scrolled_back_write_misplaced:
  assumes "screen_ok (scr s)" "\<not> escaped (scr s)" "t_active (fst s)" "visibleLine (scr s) < BUFFER_ROWS - TOTAL_ROWS"
    "is_visible (fst s) (cursorPosition (scr s))" "c \<notin> {CHR 0x0A, CHR 0x0D, CHR 0x09, CHR 0x0B, CHR 0x08, ESCAPE_CODE}"
    "cursorPosition (scr s) < 1999"
  shows "\<exists>s'. tty_write_to_screen [c] s = Inr (1, s')
    \<and> vmem (snd s') (2 * cursorPosition (scr s)) = of_char c
    \<and> videoBuffer (scr s') (2 * LINE_WIDTH * visibleLine (scr s) + 2 * cursorPosition (scr s)) =
        videoBuffer (scr s) (2 * LINE_WIDTH * visibleLine (scr s) + 2 * cursorPosition (scr s))"
proof -
  let ?p = "cursorPosition (scr s)"
  let ?s1 = "set_cursor (?p + 1) (draw ?p (of_char c) (attribute (scr s)) s)"
  note b = screen_ok_bounds [OF assms(1)]
  have "setCharacter c s = Inr ?s1" using b by (intro setCharacter_eq) auto
  moreover have "settle ?s1 = ?s1" using b assms(7) by (simp add: settle_def screen_dims)
  ultimately have "tty_write_to_screen [c] s = Inr (1, update_cursor ?s1)"
    using assms(2,6) by (simp add: tty_write_to_screen_def write_byte_def write_plain_def Let_def)
  moreover have "160 * visibleLine (scr s) + 2 * ?p \<noteq> 8000 + 2 * ?p" "160 * visibleLine (scr s) + 2 * ?p \<noteq> 8000 + 2 * ?p + 1"
    using assms(4) by (simp_all add: screen_dims)
  moreover have "vmem (snd ?s1) (2 * ?p) = of_char c"
    using assms(3,5) by (simp add: draw_def change_character_def video_set_char_def is_visible_def)
  ultimately show ?thesis
    by (intro exI [of _ "update_cursor ?s1"])
      (simp add: screen_dims update_cursor_def video_update_cursor_def)
qed

subsection \<open>Whole control sequences\<close>

definition control_arg :: "char \<Rightarrow> bool" where
  "control_arg c \<longleftrightarrow> c = CHR '';'' \<or> 48 \<le> (of_char c :: int) \<and> (of_char c :: int) \<le> 57"

definition idle :: "tv \<Rightarrow> bool" where
  "idle s \<longleftrightarrow> \<not> escaped (scr s) \<and> \<not> csi (scr s) \<and> controlBufferPos (scr s) = 0 \<and> length (controlBuffer (scr s)) = CONTROL_BUFFER_LEN"

lemma handle_semicolon: "handleControlSequence CHR '';'' s = store_control CHR '';'' s"
  by (simp add: handleControlSequence_def Let_def split_def)

lemma write_byte_control_arg:
  "escaped (scr s) \<Longrightarrow> csi (scr s) \<Longrightarrow> control_arg c \<Longrightarrow> write_byte c s = store_control c s"
  using handle_semicolon [of s] by (auto simp: write_byte_def control_arg_def)

text \<open>The state of the parser when it has read the introducer and the arguments \<open>ds\<close>.\<close>

definition with_args :: "string \<Rightarrow> tv \<Rightarrow> tv" where
  "with_args ds s = upd_screen (\<lambda>x. x\<lparr>escaped := True, csi := True,
     controlBuffer := ds @ drop (length ds) (controlBuffer x), controlBufferPos := length ds\<rparr>) s"

lemma store_control_with_args:
  assumes "length (ds @ [c]) \<le> CONTROL_BUFFER_LEN" "length (controlBuffer (scr s)) = CONTROL_BUFFER_LEN"
  shows "store_control c (with_args ds s) = Inr (with_args (ds @ [c]) s)"
proof -
  have "drop (length ds) (controlBuffer (scr s)) = controlBuffer (scr s) ! length ds # drop (Suc (length ds)) (controlBuffer (scr s))"
    using assms by (simp add: Cons_nth_drop_Suc)
  then show ?thesis using assms by (simp add: store_control_def with_args_def upd_screen_def list_update_append)
qed

lemma write_args:
  assumes "length (controlBuffer (scr s)) = CONTROL_BUFFER_LEN" "length (ds @ es) \<le> CONTROL_BUFFER_LEN" "\<forall>c \<in> set es. control_arg c"
  shows "write_bytes (es @ rest) (with_args ds s) = write_bytes rest (with_args (ds @ es) s)"
  using assms
proof (induction es arbitrary: ds)
  case (Cons e es)
  have "write_byte e (with_args ds s) = Inr (with_args (ds @ [e]) s)"
    using Cons.prems by (simp add: write_byte_control_arg store_control_with_args [symmetric] with_args_def [of ds s])
  with Cons.IH [of "ds @ [e]"] Cons.prems show ?case by simp
qed simp

lemma write_control_sequence:
  assumes "idle s" "length es \<le> CONTROL_BUFFER_LEN" "\<forall>c \<in> set es. control_arg c" "\<not> control_arg ch"
  shows "write_bytes (ESCAPE_CODE # CSI # es @ ch # rest) s = rbind (handleControlSequence ch (with_args es s)) (write_bytes rest)"
proof -
  have "(scr s)\<lparr>escaped := True, csi := True, controlBufferPos := 0\<rparr> = (scr s)\<lparr>escaped := True, csi := True\<rparr>"
    using assms(1) by (cases "scr s") (simp add: idle_def)
  then have "with_args [] s = upd_screen (\<lambda>x. x\<lparr>csi := True\<rparr>) (upd_screen (\<lambda>x. x\<lparr>escaped := True\<rparr>) s)"
    by (simp add: with_args_def upd_screen_def)
  then have "write_bytes (ESCAPE_CODE # CSI # es @ ch # rest) s = write_bytes (es @ ch # rest) (with_args [] s)"
    using assms(1) by (simp add: idle_def write_byte_def)
  also have "\<dots> = write_bytes (ch # rest) (with_args es s)"
    using write_args [of s "[]" es] assms by (simp add: idle_def)
  also have "\<dots> = rbind (handleControlSequence ch (with_args es s)) (write_bytes rest)"
    using assms(4) by (auto simp: write_byte_def with_args_def control_arg_def)
  finally show ?thesis .
qed

lemma parse_with_args:
  assumes "es \<noteq> []"
  shows "parseControlBuffer d (scr (with_args es s)) =
    (let as = takeWhile (\<lambda>c. c \<noteq> CHR '';'') es
     in (number as, if length as = length es then d else number (drop (Suc (length as)) es)))"
  using assms by (simp add: parseControlBuffer_def with_args_def Let_def)

lemma parse_no_args: "parseControlBuffer d (scr (with_args [] s)) = (d, d)"
  by (simp add: parseControlBuffer_def with_args_def)

lemma cursor_with_args [simp]: "cursorPosition (scr (with_args es s)) = cursorPosition (scr s)"
  by (simp add: with_args_def)

text \<open>A sequence that only moves the cursor.\<close>

definition moved_to :: "int \<Rightarrow> string \<Rightarrow> tv \<Rightarrow> tv" where
  "moved_to p es s = endControlSequence (set_cursor p (with_args es s))"

lemma moved_to_simps:
  "length es \<le> CONTROL_BUFFER_LEN \<Longrightarrow> idle s \<Longrightarrow> idle (moved_to p es s)" "cursorPosition (scr (moved_to p es s)) = p"
  "writableBuffer (scr (moved_to p es s)) = writableBuffer (scr s)"
  by (simp_all add: moved_to_def idle_def with_args_def)

text \<open>C36. Cursor-right can leave the screen: on any well-formed terminal the sequences \<open>ESC[25;1H ESC[80C ESC[80G ESC[C\<close>
  put the cursor at position 2080, and the next character is written past the end of the terminal's buffer.\<close>

theorem cursor_right_overflow:
  assumes "screen_ok (scr s)" "idle s"
  shows "tty_write_to_screen (concat [ESCAPE_CODE # CSI # ''25;1H'', ESCAPE_CODE # CSI # ''80C'', ESCAPE_CODE # CSI # ''80G'',
    ESCAPE_CODE # CSI # ''C'', ''x'']) s = Inl OutOfBounds"
proof -
  let ?s1 = "moved_to 1920 ''25;1'' s"
  let ?s2 = "moved_to 2000 ''80'' ?s1" let ?s3 = "moved_to 2079 ''80'' ?s2" let ?s4 = "moved_to 2080 [] ?s3"
  note idles = moved_to_simps(1) CONTROL_BUFFER_LEN_def assms(2)
  have n: "number ''25'' = 25" "number ''1'' = 1" "number ''80'' = 80" by (simp_all add: number_def s32_id)
  have h1: "write_bytes (ESCAPE_CODE # CSI # ''25;1H'' @ rest) s = write_bytes rest ?s1" for rest
    using write_control_sequence [of s "''25;1''" "CHR ''H''" rest] assms(2)
    by (simp add: control_arg_def CONTROL_BUFFER_LEN_def handleControlSequence_def parse_with_args n Let_def moved_to_def smod_nonneg s32_id LINE_WIDTH_def TOTAL_ROWS_def)
  have h2: "write_bytes (ESCAPE_CODE # CSI # ''80C'' @ rest) ?s1 = write_bytes rest ?s2" for rest
    using write_control_sequence [of ?s1 "''80''" "CHR ''C''" rest] idles
    by (simp add: control_arg_def handleControlSequence_def parse_with_args n Let_def moved_to_def [of 2000] moved_to_simps(2) smod_nonneg s32_id LINE_WIDTH_def TOTAL_ROWS_def)
  have h3: "write_bytes (ESCAPE_CODE # CSI # ''80G'' @ rest) ?s2 = write_bytes rest ?s3" for rest
    using write_control_sequence [of ?s2 "''80''" "CHR ''G''" rest] idles
    by (simp add: control_arg_def handleControlSequence_def parse_with_args n Let_def moved_to_def [of 2079] moved_to_simps(2) smod_nonneg s32_id LINE_WIDTH_def TOTAL_ROWS_def)
  have h4: "write_bytes (ESCAPE_CODE # CSI # ''C'' @ rest) ?s3 = write_bytes rest ?s4" for rest
    using write_control_sequence [of ?s3 "[]" "CHR ''C''" rest] idles
    by (simp add: control_arg_def handleControlSequence_def parse_no_args Let_def moved_to_def [of 2080] moved_to_simps(2) smod_nonneg s32_id LINE_WIDTH_def TOTAL_ROWS_def)
  have "\<not> escaped (scr ?s4)" using idles by (simp add: moved_to_def)
  then have "write_bytes ''x'' ?s4 = Inl OutOfBounds"
    using screen_ok_bounds(3) [OF assms(1)]
    by (simp add: write_byte_def ESCAPE_CODE_def write_plain_def setCharacter_def put_cell_def Let_def moved_to_simps(2,3) VIDEO_BUFFER_SIZE_def)
  then show ?thesis using h1 h2 h3 h4 by (simp add: tty_write_to_screen_def)
qed

subsection \<open>Initialisation\<close>

text \<open>\<open>tty_screen_init\<close> gives every terminal a well-formed screen, whatever was in its memory: the cursor at the
  origin, no sequence pending, white on black, and the 25 rows blank.\<close>

theorem init_screen_ok:
  assumes "length (controlBuffer (scr s)) = CONTROL_BUFFER_LEN"
  shows "\<exists>s'. init_screen s = Inr s' \<and> screen_ok (scr s') \<and> idle s' \<and> cursorPosition (scr s') = 0 \<and> attribute (scr s') = 7
    \<and> (\<forall>p. 0 \<le> p \<longrightarrow> p < LINE_WIDTH * TOTAL_ROWS \<longrightarrow>
          videoBuffer (scr s') (8000 + 2 * p) = of_char CHR '' '' \<and> videoBuffer (scr s') (8000 + 2 * p + 1) = 7)"
proof -
  define s2 where "s2 = upd_screen (\<lambda>x. x\<lparr>controlBufferPos := 0\<rparr>) (setAttribute 0 7 False
     (upd_screen (\<lambda>x. x\<lparr>cursorPosition := 0, escaped := False, csi := False, lastLine := BUFFER_ROWS - TOTAL_ROWS,
        visibleLine := BUFFER_ROWS - TOTAL_ROWS, writableBuffer := 2 * LINE_WIDTH * (BUFFER_ROWS - TOTAL_ROWS)\<rparr>) s))"
  have x: "scr s2 = (scr s)\<lparr>cursorPosition := 0, escaped := False, csi := False, attribute := 7,
      controlBufferPos := 0, visibleLine := 50, lastLine := 50, writableBuffer := 8000\<rparr>"
    by (simp add: s2_def setAttribute_def Let_def screen_dims)
  have ok: "screen_ok (scr s2)" "idle s2" "attribute (scr s2) = 7" "cursorPosition (scr s2) = 0"
    using assms by (simp_all add: x screen_ok_def idle_def screen_dims)
  obtain s' b where s': "setBlank 0 2000 s2 = Inr s'" "scr s' = (scr s2)\<lparr>videoBuffer := b\<rparr>"
    "\<forall>i. b i = (if 8000 + 2 * 0 \<le> i \<and> i < 8000 + 2 * 2000
                     then (if even i then of_char CHR '' '' else attribute (scr s2)) else videoBuffer (scr s2) i)"
    using setBlank_draws [of s2 0 2000] screen_ok_bounds(3) [OF ok(1)] by auto
  have "init_screen s = setBlank 0 2000 s2" by (simp add: init_screen_def s2_def Let_def clearScreen_def screen_dims)
  moreover have "screen_ok (scr s')" "idle s'" using ok s'(2) by (simp_all add: idle_def)
  ultimately show ?thesis using s' ok by (intro exI [of _ s']) (simp add: screen_dims)
qed

section \<open>The terminal structure under output\<close>

text \<open>Output changes the screen of a terminal and the display, not the rest of the terminal.\<close>

definition same_term :: "tv \<Rightarrow> tv \<Rightarrow> bool" where
  "same_term s s' \<longleftrightarrow> (\<exists>x. fst s' = (fst s)\<lparr>screen := x\<rparr>)"

lemma same_term_refl [simp]: "same_term s s"
  unfolding same_term_def by (rule exI [of _ "scr s"]) simp

lemma same_term_trans: "same_term s t \<Longrightarrow> same_term t u \<Longrightarrow> same_term s u"
  by (auto simp: same_term_def)

lemma same_term_upd [simp]:
  "same_term s (upd_screen f t) = same_term s t" "same_term s (set_cursor c t) = same_term s t"
  "same_term s (change_character p v a t) = same_term s t" "same_term s (flip_buffer t) = same_term s t"
  "same_term s (update_cursor t) = same_term s t" "same_term s (endControlSequence t) = same_term s t"
  "same_term s (setAttribute bg fg bl t) = same_term s t"
proof -
  have u: "same_term s (upd_screen f t) = same_term s t" for f t
    by (auto simp: same_term_def upd_screen_def) (metis Terminal.surjective Terminal.update_convs(4))
  show "same_term s (upd_screen f t) = same_term s t" "same_term s (set_cursor c t) = same_term s t"
    "same_term s (endControlSequence t) = same_term s t" "same_term s (setAttribute bg fg bl t) = same_term s t"
    by (simp_all add: u set_cursor_def endControlSequence_def setAttribute_def Let_def)
  show "same_term s (change_character p v a t) = same_term s t" "same_term s (flip_buffer t) = same_term s t"
    "same_term s (update_cursor t) = same_term s t" by (simp_all add: same_term_def)
qed

lemma same_term_color [simp]: "same_term s (changeColor m t) = same_term s t"
  by (simp add: changeColor_def setForeground_def setBackground_def setBlink_def Let_def)

lemma same_term_scroll [simp]: "same_term s (scrollLine n t) = same_term s t"
  by (simp add: scrollLine_def Let_def)

lemma same_term_settle [simp]: "same_term s (settle t) = same_term s t"
  by (simp add: settle_def Let_def)

lemma same_term_put_cell: "put_cell p v a t = Inr t' \<Longrightarrow> same_term s t' = same_term s t"
  by (auto simp: put_cell_def Let_def split: if_splits)

lemma same_term_setCharacter: "setCharacter c t = Inr t' \<Longrightarrow> same_term s t' = same_term s t"
  by (auto simp: setCharacter_def Let_def same_term_put_cell elim!: rbind_InrE)

lemma same_term_put_string: "put_string cs t = Inr t' \<Longrightarrow> same_term s t' = same_term s t"
proof (induction cs arbitrary: t)
  case (Cons c cs)
  then show ?case by (metis put_string.simps(2) rbind_InrE same_term_setCharacter)
qed simp

lemma same_term_setBlank: "setBlank a b t = Inr t' \<Longrightarrow> same_term s t' = same_term s t"
proof (induction a b t rule: setBlank.induct)
  case (1 a b t)
  show ?case
  proof (cases "a < b")
    case True
    with "1.prems" obtain t1 where *: "put_cell a (of_char CHR '' '') (attribute (scr t))
        (change_character a (of_char CHR '' '') (attribute (scr t)) t) = Inr t1" "setBlank (a + 1) b t1 = Inr t'"
      by (subst (asm) setBlank.simps) (auto elim!: rbind_InrE)
    then show ?thesis using "1.IH" [OF True *(2)] same_term_put_cell [OF *(1), of s] by simp
  next
    case False
    with "1.prems" show ?thesis by (subst (asm) setBlank.simps) simp
  qed
qed

lemma same_term_clear:
  "clearScreen m t = Inr t' \<Longrightarrow> same_term s t' = same_term s t" "eraseLine m t = Inr t' \<Longrightarrow> same_term s t' = same_term s t"
  by (auto simp: clearScreen_def eraseLine_def Let_def same_term_setBlank split: if_splits)

lemma same_term_store: "store_control c t = Inr t' \<Longrightarrow> same_term s t' = same_term s t"
  by (auto simp: store_control_def split: if_splits)

lemma same_term_handle:
  assumes "handleControlSequence c t = Inr t'"
  shows "same_term s t' = same_term s t"
proof -
  obtain a b a0 b0 where p: "parseControlBuffer 1 (scr t) = (a, b)" "parseControlBuffer 0 (scr t) = (a0, b0)" by force
  have clear: "same_term s t' = same_term s t" if "rbind (clearScreen m t) (\<lambda>s1. Inr (endControlSequence s1)) = Inr t'" for m
    using that by (auto simp: same_term_clear elim!: rbind_InrE)
  have erase: "same_term s t' = same_term s t" if "rbind (eraseLine m t) (\<lambda>s1. Inr (endControlSequence s1)) = Inr t'" for m
    using that by (auto simp: same_term_clear elim!: rbind_InrE)
  have print: "same_term s t' = same_term s t"
    if "rbind (put_string cs (set_cursor q t)) (\<lambda>s1. Inr (endControlSequence (set_cursor q' s1))) = Inr t'" for cs q q'
    using that by (auto simp: same_term_put_string elim!: rbind_InrE)
  show ?thesis using assms clear erase print same_term_store [of c t t' s]
    by (auto simp: handleControlSequence_def p Let_def split: if_splits)
qed

lemma same_term_write_plain: "write_plain c t = Inr t' \<Longrightarrow> same_term s t' = same_term s t"
proof -
  have bsp: "same_term s t1 = same_term s t"
    if "rbind (setCharacter c (set_cursor p t)) (\<lambda>s1. Inr (set_cursor (cursorPosition (scr s1) - 1) s1)) = Inr t1" for c p t1
    using that by (elim rbind_InrE) (drule same_term_setCharacter [where s = s], auto)
  assume "write_plain c t = Inr t'"
  then show ?thesis
    by (auto simp: write_plain_def Let_def same_term_put_string same_term_setCharacter bsp split: if_splits elim!: rbind_InrE [where f = "\<lambda>s1. Inr (settle s1)"])
qed

lemma same_term_write_byte: "write_byte c t = Inr t' \<Longrightarrow> same_term s t' = same_term s t"
  by (auto simp: write_byte_def same_term_write_plain same_term_handle same_term_store split: if_splits)

lemma same_term_write_bytes: "write_bytes cs t = Inr t' \<Longrightarrow> same_term s t' = same_term s t"
proof (induction cs arbitrary: t)
  case (Cons c cs)
  then show ?case by (metis write_bytes.simps(2) rbind_InrE same_term_write_byte)
qed simp

lemma same_term_write: "tty_write_to_screen cs t = Inr (n, t') \<Longrightarrow> same_term t t' \<and> n = length cs"
  by (auto simp: tty_write_to_screen_def same_term_write_bytes elim!: rbind_InrE)


section \<open>Examples\<close>

text \<open>An active terminal, with the cursor, the first visible line and the parser's escape flag given.\<close>

definition example_tv :: "int \<Rightarrow> int \<Rightarrow> bool \<Rightarrow> tv" where
  "example_tv p v e = (\<lparr>t_active = True, t_canon = 1, t_echo = 1, screen =
      \<lparr>cursorPosition = p, escaped = e, csi = e, attribute = 7, controlBuffer = replicate 40 (CHR 0x00), controlBufferPos = 0,
       visibleLine = v, lastLine = 49, videoBuffer = (\<lambda>i. 0), writableBuffer = 8000\<rparr>\<rparr>, \<lparr>vmem = (\<lambda>i. 0), vcursor = 0\<rparr>)"

lemma example_tv_ok [simp]:
  "0 \<le> p \<Longrightarrow> p < 2000 \<Longrightarrow> 49 \<le> v \<Longrightarrow> v \<le> 50 \<Longrightarrow> screen_ok (scr (example_tv p v e))"
  "escaped (scr (example_tv p v e)) = e" "csi (scr (example_tv p v e)) = e" "cursorPosition (scr (example_tv p v e)) = p"
  "visibleLine (scr (example_tv p v e)) = v" "t_active (fst (example_tv p v e))" "controlBufferPos (scr (example_tv p v e)) = 0"
  "length (controlBuffer (scr (example_tv p v e))) = 40"
  by (simp_all add: example_tv_def screen_ok_def screen_dims)

theorem tty_write_plain_safe_witness:
  "\<exists>s'. tty_write_to_screen ''hi'' (example_tv 1999 50 False) = Inr (2, s') \<and> screen_ok (scr s')"
  using tty_write_plain_safe [of "example_tv 1999 50 False" "''hi''"] by (force simp: ESCAPE_CODE_def)


theorem tty_write_prints_witness: "\<exists>s' b. tty_write_to_screen ''hi'' (example_tv 5 50 False) = Inr (2, s')
    \<and> scr s' = (scr (example_tv 5 50 False))\<lparr>cursorPosition := 7, videoBuffer := b\<rparr> \<and> b 8010 = of_char CHR ''h''"
  using tty_write_prints [of "example_tv 5 50 False" "''hi''"] by (force simp: ESCAPE_CODE_def screen_dims)

theorem tty_newline_scrolls_witness: "\<exists>s'. tty_write_to_screen [CHR 0x0A] (example_tv 1930 50 False) = Inr (1, s')
    \<and> cursorPosition (scr s') = 1920 \<and> lastLine (scr s') = 48"
proof -
  have "lastLine (scr (example_tv 1930 50 False)) = 49" by (simp add: example_tv_def)
  then show ?thesis using tty_newline_scrolls [of "example_tv 1930 50 False"] by (force simp: screen_dims)
qed

theorem tty_screen_scroll_view_witness: "visibleLine (scr (tty_screen_scroll (- 12) (example_tv 0 50 False))) = 49"
proof -
  have "lastLine (scr (example_tv 0 50 False)) = 49" by (simp add: example_tv_def)
  then show ?thesis using tty_screen_scroll_view [of "example_tv 0 50 False" "- 12"] by simp
qed

theorem scrolled_back_write_misplaced_witness: "\<exists>s'. tty_write_to_screen ''x'' (example_tv 0 49 False) = Inr (1, s')
    \<and> vmem (snd s') 0 = of_char CHR ''x''"
proof -
  have "is_visible (fst (example_tv 0 49 False)) 0" by (simp add: is_visible_def screen_dims sdiv_nonneg)
  then show ?thesis using scrolled_back_write_misplaced [of "example_tv 0 49 False" "CHR ''x''"]
    by (force simp: ESCAPE_CODE_def screen_dims)
qed

theorem cursor_right_overflow_witness: "\<exists>str. tty_write_to_screen str (example_tv 0 50 False) = Inl OutOfBounds"
  using cursor_right_overflow [of "example_tv 0 50 False"] by (auto simp: idle_def CONTROL_BUFFER_LEN_def)

theorem init_screen_ok_witness: "\<exists>s'. init_screen (example_tv 5 50 True) = Inr s' \<and> screen_ok (scr s')"
  using init_screen_ok [of "example_tv 5 50 True"] by (force simp: CONTROL_BUFFER_LEN_def)

end
