(* ===== verification/Tty_Input.thy ===== *)
theory Tty_Input
  imports Process_Table Tty_Output Byte_Channel
begin

text \<open>
  \<open>src/drivers/tty/tty.c\<close>, \<open>src/drivers/tty/input.c\<close> and \<open>src/drivers/keyboard.c\<close>: the five terminals,
  the ring buffer between the keyboard interrupt and the terminal process, the translation of scan
  codes, the line discipline and the reading of input. The kernel state is extended with the terminals,
  the display, the modifier keys and the two buffers. \<open>reboot\<close> ends in \<open>halt\<close> with interrupts disabled,
  so that control never comes back: \<open>Inl Hang\<close>. \<open>kb_leds\<close> is the last byte sent to the keyboard.
\<close>

unbundle bit_operations_syntax

section \<open>Definitions\<close>

subsection \<open>Terminals\<close>

definition NUM_TERMINALS :: nat where "NUM_TERMINALS = 5"
definition WAIT_LEN :: nat where "WAIT_LEN = 30"
definition KB_BUFFER_SIZE :: nat where "KB_BUFFER_SIZE = 4000"
definition INPUT_BUFFER_SIZE :: nat where "INPUT_BUFFER_SIZE = 4000"

record ModifierStatus =
  kb_ctrl :: bool
  kb_alt :: bool
  kb_shift :: bool
  kb_caps :: bool
  kb_scroll :: bool
  kb_num :: bool

record tty_kernel = kernel +
  terminals :: "Terminal list"
  activeTerminal :: nat
  disp :: display
  kbStatus :: ModifierStatus
  kb_escaped :: bool
  inputBuffer :: string
  bufferEnd :: nat
  kb_buffer :: "u8 list"
  bufferPos :: nat
  bufferStart :: nat
  kb_consumer :: ptr
  kb_leds :: u8

text \<open>The terminals are named by their index; \<open>tty_terminal\<close> has no check of its argument.\<close>

definition tty_active :: "'z tty_kernel_scheme \<Rightarrow> nat" where
  "tty_active k = activeTerminal k"

definition tty_terminal :: "int \<Rightarrow> 'z tty_kernel_scheme \<Rightarrow> nat result" where
  "tty_terminal n k =
     (if n = NO_TERMINAL then Inr (tty_active k)
      else if 0 \<le> n \<and> nat n < length (terminals k) then Inr (nat n) else Inl OutOfBounds)"

definition tty_current :: "'z tty_kernel_scheme \<Rightarrow> nat result" where
  "tty_current k =
     (case scheduler_current k of
        None \<Rightarrow> tty_terminal 0 k
      | Some p \<Rightarrow> if p_terminal (procs k p) = NO_TERMINAL then tty_terminal 0 k
                  else tty_terminal (p_terminal (procs k p)) k)"

text \<open>An operation of the screen, on terminal \<open>i\<close> and the display.\<close>

definition on_terminal :: "nat \<Rightarrow> (tv \<Rightarrow> ('a \<times> tv) result) \<Rightarrow> 'z tty_kernel_scheme \<Rightarrow> ('a \<times> 'z tty_kernel_scheme) result" where
  "on_terminal i f k =
     (if i < length (terminals k)
      then rbind (f (terminals k ! i, disp k)) (\<lambda>(r, t, d). Inr (r, k\<lparr>terminals := (terminals k)[i := t], disp := d\<rparr>))
      else Inl OutOfBounds)"

definition tty_write :: "string \<Rightarrow> 'z tty_kernel_scheme \<Rightarrow> (nat \<times> 'z tty_kernel_scheme) result" where
  "tty_write buf k = rbind (tty_current k) (\<lambda>i. on_terminal i (tty_write_to_screen buf) k)"

definition tty_write_active :: "string \<Rightarrow> 'z tty_kernel_scheme \<Rightarrow> (nat \<times> 'z tty_kernel_scheme) result" where
  "tty_write_active buf k = on_terminal (tty_active k) (tty_write_to_screen buf) k"

definition tty_write_to_terminal :: "int \<Rightarrow> string \<Rightarrow> 'z tty_kernel_scheme \<Rightarrow> (nat \<times> 'z tty_kernel_scheme) result" where
  "tty_write_to_terminal n buf k = rbind (tty_terminal n k) (\<lambda>i. on_terminal i (tty_write_to_screen buf) k)"

text \<open>The loop of \<open>tty_screen_init\<close> runs from the last terminal to the first.\<close>

fun tty_screen_init :: "nat \<Rightarrow> 'z tty_kernel_scheme \<Rightarrow> 'z tty_kernel_scheme result" where
  "tty_screen_init 0 k = Inr k"
| "tty_screen_init (Suc i) k =
     rbind (on_terminal i (\<lambda>s. rbind (init_screen s) (\<lambda>s1. Inr ((), s1))) k) (\<lambda>(_, k1). tty_screen_init i k1)"

definition set_active :: "nat \<Rightarrow> bool \<Rightarrow> 'z tty_kernel_scheme \<Rightarrow> 'z tty_kernel_scheme" where
  "set_active i b k = k\<lparr>terminals := (terminals k)[i := (terminals k ! i)\<lparr>t_active := b\<rparr>]\<rparr>"

definition tty_early_init :: "'z tty_kernel_scheme \<Rightarrow> 'z tty_kernel_scheme result" where
  "tty_early_init k =
     rbind (tty_screen_init NUM_TERMINALS k) (\<lambda>k1.
     rbind (tty_write (ESCAPE_CODE # ''[1;1H'' @ ESCAPE_CODE # ''[2J'') (set_active (activeTerminal k1) True k1)) (\<lambda>(_, k2).
       Inr k2))"

definition tty_change :: "nat \<Rightarrow> 'z tty_kernel_scheme \<Rightarrow> 'z tty_kernel_scheme result" where
  "tty_change a k =
     (let k1 = set_active (activeTerminal k) False k;
          k2 = set_active a True (k1\<lparr>activeTerminal := a\<rparr>)
      in rbind (on_terminal (tty_active k2) (\<lambda>s. Inr ((), tty_screen_change s)) k2) (\<lambda>(_, k3). Inr k3))"

subsection \<open>The keyboard buffer\<close>

definition keyboard_consumer :: "ptr \<Rightarrow> 'z tty_kernel_scheme \<Rightarrow> 'z tty_kernel_scheme" where
  "keyboard_consumer p k = k\<lparr>kb_consumer := p\<rparr>"

definition keyboard_leds :: "bool \<Rightarrow> bool \<Rightarrow> bool \<Rightarrow> 'z tty_kernel_scheme \<Rightarrow> 'z tty_kernel_scheme" where
  "keyboard_leds caps num scroll k =
     k\<lparr>kb_leds := (if caps then 4 else 0) OR (if num then 2 else 0) OR (if scroll then 1 else 0)\<rparr>"

definition keyboard_read :: "u8 \<Rightarrow> 'z tty_kernel_scheme \<Rightarrow> 'z tty_kernel_scheme result" where
  "keyboard_read scanCode k =
     (let k1 = k\<lparr>kb_buffer := (kb_buffer k)[bufferPos k := scanCode],
                 bufferPos := (if Suc (bufferPos k) = KB_BUFFER_SIZE then 0 else Suc (bufferPos k))\<rparr>
      in case kb_consumer k1 of
           None \<Rightarrow> Inl NullDeref
         | Some p \<Rightarrow> Inr (if ioWait (p_schedule (procs k1 p)) then process_table_unblock p k1 else k1))"

partial_function (option) keyboard_wait :: "('z tty_kernel_scheme \<Rightarrow> 'z tty_kernel_scheme) \<Rightarrow> nat \<Rightarrow>
    'z tty_kernel_scheme \<Rightarrow> 'z tty_kernel_scheme option" where
  "keyboard_wait sw p k =
     (if bufferPos k = bufferStart k
      then keyboard_wait sw p (sw (process_table_block p (upd_s p (\<lambda>s. s\<lparr>ioWait := True\<rparr>) k)))
      else Some k)"

definition keyboard_take :: "nat \<Rightarrow> 'z tty_kernel_scheme \<Rightarrow> u8 \<times> 'z tty_kernel_scheme" where
  "keyboard_take p k =
     (kb_buffer k ! bufferStart k,
      (upd_s p (\<lambda>s. s\<lparr>ioWait := False\<rparr>) k)
        \<lparr>bufferStart := (if Suc (bufferStart k) = KB_BUFFER_SIZE then 0 else Suc (bufferStart k))\<rparr>)"

definition keyboard_get_code :: "('z tty_kernel_scheme \<Rightarrow> 'z tty_kernel_scheme) \<Rightarrow>
    'z tty_kernel_scheme \<Rightarrow> (u8 \<times> 'z tty_kernel_scheme) result option" where
  "keyboard_get_code sw k =
     (if scheduler_current k \<noteq> kb_consumer k then Some (Inr (0, k))
      else case kb_consumer k of
             None \<Rightarrow> Some (Inl NullDeref)
           | Some p \<Rightarrow> map_option (\<lambda>k1. Inr (keyboard_take p k1)) (keyboard_wait sw p k))"

subsection \<open>The line discipline\<close>

fun wake_slot :: "process_store \<Rightarrow> ptr list \<Rightarrow> (nat \<times> ptr list) option" where
  "wake_slot P [] = None"
| "wake_slot P (None # ws) = map_option (\<lambda>(p, ws'). (p, None # ws')) (wake_slot P ws)"
| "wake_slot P (Some q # ws) =
     (if p_active (P q) then Some (q, None # ws)
      else map_option (\<lambda>(p, ws'). (p, Some q # ws')) (wake_slot P ws))"

definition wake_up :: "'z tty_kernel_scheme \<Rightarrow> 'z tty_kernel_scheme" where
  "wake_up k =
     (let a = tty_active k
      in case wake_slot (procs k) (term_wait k ! a) of
           None \<Rightarrow> k
         | Some (p, ws) \<Rightarrow> process_table_unblock p (k\<lparr>term_wait := (term_wait k)[a := ws]\<rparr>))"

fun wait_slot :: "nat \<Rightarrow> ptr list \<Rightarrow> ptr list option" where
  "wait_slot p [] = None"
| "wait_slot p (None # ws) = Some (Some p # ws)"
| "wait_slot p (Some q # ws) = map_option (\<lambda>ws'. Some q # ws') (wait_slot p ws)"

definition wait_for_input :: "('z tty_kernel_scheme \<Rightarrow> 'z tty_kernel_scheme) \<Rightarrow> nat \<Rightarrow>
    'z tty_kernel_scheme \<Rightarrow> 'z tty_kernel_scheme result" where
  "wait_for_input sw p k =
     rbind (tty_terminal (p_terminal (procs k p)) k) (\<lambda>i.
       case wait_slot p (term_wait k ! i) of
         None \<Rightarrow> Inr k
       | Some ws \<Rightarrow> Inr (sw (process_table_block p (upd_s p (\<lambda>s. s\<lparr>ioWait := True\<rparr>)
                      (k\<lparr>term_wait := (term_wait k)[i := ws]\<rparr>)))))"

text \<open>The loop of \<open>addInput\<close>: the number of characters taken, the buffer and its end.\<close>

fun add_chars :: "bool \<Rightarrow> string \<Rightarrow> string \<Rightarrow> nat \<Rightarrow> nat \<times> string \<times> nat" where
  "add_chars canon [] buf e = (0, buf, e)"
| "add_chars canon (c # cs) buf e =
     (if e < INPUT_BUFFER_SIZE
      then (let (i, r) = (if canon \<and> c = CHR 0x08 then add_chars canon cs buf (if e > 0 then e - 1 else e)
                          else add_chars canon cs (buf[e := c]) (Suc e))
            in (Suc i, r))
      else (0, buf, e))"

definition echo_input :: "string \<Rightarrow> nat \<Rightarrow> 'z tty_kernel_scheme \<Rightarrow> 'z tty_kernel_scheme result" where
  "echo_input str i k =
     (case str of
        [] \<Rightarrow> Inl OutOfBounds
      | c # cs \<Rightarrow>
          if c = CHR 0x1B
          then rbind (tty_write_active ''^['' k) (\<lambda>(_, k1).
                 if i > 1 then rbind (tty_write_active (take (i - 1) cs) k1) (\<lambda>(_, k2). Inr k2) else Inr k1)
          else rbind (tty_write_active (take i str) k) (\<lambda>(_, k1). Inr k1))"

text \<open>\<open>addInput\<close>, with the number of characters it has taken.\<close>

definition addInput :: "string \<Rightarrow> 'z tty_kernel_scheme \<Rightarrow> (nat \<times> 'z tty_kernel_scheme) result" where
  "addInput str k =
     (let (i, buf, e) = add_chars (t_canon (terminals k ! tty_active k) \<noteq> 0) str (inputBuffer k) (bufferEnd k);
          k1 = k\<lparr>inputBuffer := buf, bufferEnd := e\<rparr>
      in rbind (if t_echo (terminals k1 ! tty_active k1) \<noteq> 0 then echo_input str i k1 else Inr k1) (\<lambda>k2.
           Inr (i, wake_up k2)))"

subsection \<open>Scan codes\<close>

definition normalCodeTable :: string where
  "normalCodeTable = [CHR 0x00, CHR 0x1B] @ ''1234567890-='' @ [CHR 0x08, CHR 0x09] @ ''qwertyuiop[]'' @ [CHR 0x0A, CHR 0x00] @
     ''asdfghjkl;'' @ [CHR 0x27, CHR 0x60, CHR 0x00, CHR 0x00] @ ''zxcvbnm,./'' @ [CHR 0x00, CHR 0x00, CHR 0x00] @ '' ''"

definition shiftCodeTable :: string where
  "shiftCodeTable = [CHR 0x00, CHR 0x1B] @ ''!@#$%^&*()_+'' @ [CHR 0x08, CHR 0x09] @ ''QWERTYUIOP{}'' @ [CHR 0x0A, CHR 0x00] @
     ''ASDFGHJKL:'' @ [CHR 0x22, CHR ''~'', CHR 0x00, CHR 0x00] @ ''ZXCVBNM<>?'' @ [CHR 0x00, CHR 0x00, CHR 0x00] @ '' ''"

definition altCodeTable :: string where
  "altCodeTable = normalCodeTable"

definition set_leds :: "'z tty_kernel_scheme \<Rightarrow> 'z tty_kernel_scheme" where
  "set_leds k = keyboard_leds (kb_caps (kbStatus k)) (kb_num (kbStatus k)) (kb_scroll (kbStatus k)) k"

definition tty_keyboard_init :: "'z tty_kernel_scheme \<Rightarrow> 'z tty_kernel_scheme" where
  "tty_keyboard_init k = set_leds (keyboard_consumer (scheduler_current k) k)"

definition upd_kb :: "(ModifierStatus \<Rightarrow> ModifierStatus) \<Rightarrow> 'z tty_kernel_scheme \<Rightarrow> 'z tty_kernel_scheme" where
  "upd_kb f k = k\<lparr>kbStatus := f (kbStatus k)\<rparr>"

definition input_key :: "string \<Rightarrow> 'z tty_kernel_scheme \<Rightarrow> 'z tty_kernel_scheme result" where
  "input_key str k = rbind (addInput str k) (\<lambda>(_, k1). Inr k1)"

definition special_key :: "int \<Rightarrow> bool \<Rightarrow> 'z tty_kernel_scheme \<Rightarrow> 'z tty_kernel_scheme result" where
  "special_key makeCode isBreak k =
     (let arrow = (\<lambda>c. if \<not> isBreak \<and> (kb_escaped k \<or> \<not> kb_num (kbStatus k)) then input_key (CHR 0x1B # CHR ''['' # [c]) k else Inr k);
          toggle = (\<lambda>f. Inr (if isBreak then k else set_leds (upd_kb f k)));
          scroll = (\<lambda>n. if \<not> isBreak \<and> kb_escaped k
                        then rbind (on_terminal (tty_active k) (\<lambda>s. Inr ((), tty_screen_scroll n s)) k) (\<lambda>(_, k1). Inr k1) else Inr k)
      in if makeCode = 0x1D then Inr (upd_kb (\<lambda>s. s\<lparr>kb_ctrl := \<not> isBreak\<rparr>) k)
         else if makeCode = 0x2A \<or> makeCode = 0x36 then Inr (upd_kb (\<lambda>s. s\<lparr>kb_shift := \<not> isBreak\<rparr>) k)
         else if makeCode = 0x38 then Inr (upd_kb (\<lambda>s. s\<lparr>kb_alt := \<not> isBreak\<rparr>) k)
         else if makeCode = 0x53 then
           (if kb_alt (kbStatus k) \<and> kb_ctrl (kbStatus k) \<and> kb_escaped k then Inl Hang else Inr k)
         else if makeCode = 0x3A then toggle (\<lambda>s. s\<lparr>kb_caps := \<not> kb_caps s\<rparr>)
         else if makeCode = 0x45 then toggle (\<lambda>s. s\<lparr>kb_num := \<not> kb_num s\<rparr>)
         else if makeCode = 0x46 then toggle (\<lambda>s. s\<lparr>kb_scroll := \<not> kb_scroll s\<rparr>)
         else if makeCode = 0x48 then arrow CHR ''A''
         else if makeCode = 0x50 then arrow CHR ''B''
         else if makeCode = 0x4D then arrow CHR ''C''
         else if makeCode = 0x4B then arrow CHR ''D''
         else if makeCode = 0x47 then arrow CHR ''H''
         else if makeCode = 0x4F then arrow CHR ''F''
         else if makeCode = 0x49 then scroll ((- TOTAL_ROWS) sdiv 2)
         else if makeCode = 0x51 then scroll (TOTAL_ROWS sdiv 2)
         else if 0x3B \<le> makeCode \<and> makeCode \<le> 0x44
         then if makeCode - 0x3B < int NUM_TERMINALS then tty_change (nat (makeCode - 0x3B)) k else Inr k
         else Inr k)"

definition handle_scancode :: "u8 \<Rightarrow> 'z tty_kernel_scheme \<Rightarrow> 'z tty_kernel_scheme result" where
  "handle_scancode scanCode k =
     (if scanCode = 0xE0 then Inr (k\<lparr>kb_escaped := True\<rparr>)
      else (let isBreak = scanCode \<ge> 0x80;
                makeCode = uint scanCode - (if isBreak then 0x80 else 0);
                codeTable = (if kb_shift (kbStatus k) \<or> kb_caps (kbStatus k) then shiftCodeTable
                             else if kb_alt (kbStatus k) then altCodeTable else normalCodeTable)
            in rbind
                 (if kb_escaped k \<or> makeCode > 0x39 \<or> codeTable ! nat makeCode = CHR 0x00
                  then special_key makeCode isBreak k
                  else if bufferEnd k < INPUT_BUFFER_SIZE \<and> \<not> isBreak then input_key [codeTable ! nat makeCode] k
                  else Inr k)
                 (\<lambda>k1. Inr (k1\<lparr>kb_escaped := False\<rparr>))))"

definition process_scancode :: "('z tty_kernel_scheme \<Rightarrow> 'z tty_kernel_scheme) \<Rightarrow>
    'z tty_kernel_scheme \<Rightarrow> 'z tty_kernel_scheme result option" where
  "process_scancode sw k =
     map_option (\<lambda>r. rbind r (\<lambda>(c, k1). handle_scancode c k1)) (keyboard_get_code sw k)"

subsection \<open>Reading\<close>

text \<open>The first loop of \<open>tty_read\<close> waits for the caller to be active.\<close>

partial_function (option) wait_active :: "('z tty_kernel_scheme \<Rightarrow> 'z tty_kernel_scheme) \<Rightarrow> nat \<Rightarrow>
    'z tty_kernel_scheme \<Rightarrow> 'z tty_kernel_scheme result option" where
  "wait_active sw p k =
     (if p_active (procs k p) then Some (Inr k)
      else case wait_for_input sw p k of Inl e \<Rightarrow> Some (Inl e) | Inr k1 \<Rightarrow> wait_active sw p k1)"

definition line_end :: "'z tty_kernel_scheme \<Rightarrow> nat" where
  "line_end k = length (takeWhile (\<lambda>c. c \<noteq> CHR 0x0A) (take (bufferEnd k) (inputBuffer k)))"

partial_function (option) wait_line :: "('z tty_kernel_scheme \<Rightarrow> 'z tty_kernel_scheme) \<Rightarrow> nat \<Rightarrow>
    'z tty_kernel_scheme \<Rightarrow> 'z tty_kernel_scheme result option" where
  "wait_line sw p k =
     (if line_end k = bufferEnd k
      then case wait_for_input sw p k of Inl e \<Rightarrow> Some (Inl e) | Inr k1 \<Rightarrow> wait_line sw p k1
      else Some (Inr k))"

partial_function (option) wait_count :: "('z tty_kernel_scheme \<Rightarrow> 'z tty_kernel_scheme) \<Rightarrow> nat \<Rightarrow> int \<Rightarrow>
    'z tty_kernel_scheme \<Rightarrow> 'z tty_kernel_scheme result option" where
  "wait_count sw p c k =
     (if int (bufferEnd k) < c
      then case wait_for_input sw p k of Inl e \<Rightarrow> Some (Inl e) | Inr k1 \<Rightarrow> wait_count sw p c k1
      else Some (Inr k))"

text \<open>The end of \<open>tty_read\<close>: \<open>c\<close> bytes are copied out and removed. A negative \<open>c\<close> reads before the buffer.\<close>

definition input_take :: "nat \<Rightarrow> int \<Rightarrow> 'z tty_kernel_scheme \<Rightarrow> (string \<times> 'z tty_kernel_scheme) result" where
  "input_take p c k =
     (if c < 0 then Inl OutOfBounds
      else (let n = nat c
            in rbind (shift_down n (bufferEnd k) n (inputBuffer k)) (\<lambda>buf.
                 Inr (take n (inputBuffer k),
                   (upd_s p (\<lambda>s. s\<lparr>ioWait := False\<rparr>) k)\<lparr>inputBuffer := buf, bufferEnd := bufferEnd k - n\<rparr>))))"

text \<open>\<open>tty_read\<close>: the bytes stored at the start of the caller's buffer.\<close>

definition tty_read :: "('z tty_kernel_scheme \<Rightarrow> 'z tty_kernel_scheme) \<Rightarrow> nat \<Rightarrow>
    'z tty_kernel_scheme \<Rightarrow> (string \<times> 'z tty_kernel_scheme) result option" where
  "tty_read sw count k =
     (case scheduler_current k of
        None \<Rightarrow> Some (Inl NullDeref)
      | Some p \<Rightarrow>
          if p_terminal (procs k p) = NO_TERMINAL then Some (Inr ([], k))
          else Option.bind (wait_active sw p k) (\<lambda>r1.
            case rbind r1 (\<lambda>k1. rbind (tty_current k1) (\<lambda>i. Inr (t_canon (terminals k1 ! i) \<noteq> 0, k1))) of
              Inl e \<Rightarrow> Some (Inl e)
            | Inr (canon, k1) \<Rightarrow>
                if canon
                then map_option (\<lambda>r2. rbind r2 (\<lambda>k2.
                       input_take p (let c = s32 (int count); i = int (line_end k2) + 1 in if c > i then i else c) k2)) (wait_line sw p k1)
                else map_option (\<lambda>r2. rbind r2 (input_take p (s32 (int count)))) (wait_count sw p (s32 (int count)) k1)))"

definition TCGETS :: int where "TCGETS = 0x5401"
definition TCSETS :: int where "TCSETS = 0x5402"

text \<open>\<open>ioctlKeyboard\<close>: the result, the contents of \<open>*argp\<close> and the state.\<close>

definition ioctlKeyboard :: "int \<Rightarrow> u8 \<times> u8 \<Rightarrow> 'z tty_kernel_scheme \<Rightarrow> (int \<times> (u8 \<times> u8) \<times> 'z tty_kernel_scheme) result" where
  "ioctlKeyboard cmd argp k =
     (if cmd = TCGETS then rbind (tty_current k) (\<lambda>i. Inr (0, (t_canon (terminals k ! i), t_echo (terminals k ! i)), k))
      else if cmd = TCSETS then rbind (tty_current k) (\<lambda>i.
        Inr (0, argp, k\<lparr>terminals := (terminals k)[i := (terminals k ! i)\<lparr>t_canon := fst argp, t_echo := snd argp\<rparr>]\<rparr>))
      else Inr (-1, argp, k))"

section \<open>The line being typed\<close>

definition typed :: "'z tty_kernel_scheme \<Rightarrow> string" where
  "typed k = take (bufferEnd k) (inputBuffer k)"

text \<open>The reference for the line discipline: in canonical mode a backspace takes the last character away.\<close>

definition line_edit :: "bool \<Rightarrow> char \<Rightarrow> string \<Rightarrow> string" where
  "line_edit canon c l = (if canon \<and> c = CHR 0x08 then butlast l else l @ [c])"

lemma length_line_edit: "length (fold (line_edit canon) cs l) \<le> length l + length cs"
proof (induction cs arbitrary: l)
  case (Cons c cs)
  have "length (line_edit canon c l) \<le> Suc (length l)" by (auto simp: line_edit_def)
  with Cons [of "line_edit canon c l"] show ?case by simp
qed simp

lemma add_chars_edits:
  assumes "length buf = INPUT_BUFFER_SIZE" "e + length cs \<le> INPUT_BUFFER_SIZE"
  shows "\<exists>buf'. add_chars canon cs buf e = (length cs, buf', length (fold (line_edit canon) cs (take e buf)))
    \<and> length buf' = INPUT_BUFFER_SIZE
    \<and> take (length (fold (line_edit canon) cs (take e buf))) buf' = fold (line_edit canon) cs (take e buf)"
  using assms
proof (induction cs arbitrary: buf e)
  case (Cons c cs)
  have lt: "e < INPUT_BUFFER_SIZE" using Cons.prems by simp
  show ?case
  proof (cases "canon \<and> c = CHR 0x08")
    case True
    define e1 where "e1 = (if e > 0 then e - 1 else e)"
    have edit: "line_edit canon c (take e buf) = take e1 buf"
      using True Cons.prems by (simp add: line_edit_def e1_def butlast_take)
    have "e1 + length cs \<le> INPUT_BUFFER_SIZE" using Cons.prems(2) by (auto simp: e1_def)
    from Cons.IH [OF Cons.prems(1) this] obtain buf' where
      "add_chars canon cs buf e1 = (length cs, buf', length (fold (line_edit canon) cs (take e1 buf)))"
      "length buf' = INPUT_BUFFER_SIZE" "take (length (fold (line_edit canon) cs (take e1 buf))) buf' = fold (line_edit canon) cs (take e1 buf)"
      by blast
    moreover have "add_chars canon (c # cs) buf e = (let (i, r) = add_chars canon cs buf e1 in (Suc i, r))"
      using True lt by (simp add: e1_def)
    ultimately show ?thesis using edit by simp
  next
    case False
    have "line_edit canon c (take e buf) = take (Suc e) (buf[e := c])"
      using False Cons.prems by (auto simp: line_edit_def take_Suc_conv_app_nth)
    with Cons.IH [of "buf[e := c]" "Suc e"] Cons.prems False lt show ?thesis by (auto simp: Let_def)
  qed
qed auto

lemma add_chars_full: "e = INPUT_BUFFER_SIZE \<Longrightarrow> add_chars canon cs buf e = (0, buf, e)"
  by (cases cs) auto

lemma add_chars_raw:
  assumes "length buf = INPUT_BUFFER_SIZE" "add_chars False cs buf e = (n, buf', e')" "e \<le> INPUT_BUFFER_SIZE"
  shows "n \<le> length cs \<and> e' = e + n \<and> e' \<le> INPUT_BUFFER_SIZE \<and> length buf' = INPUT_BUFFER_SIZE \<and> take e' buf' = take e buf @ take n cs"
  using assms
proof (induction cs arbitrary: buf e n)
  case (Cons c cs)
  show ?case
  proof (cases "e < INPUT_BUFFER_SIZE")
    case True
    with Cons.prems obtain m where m: "add_chars False cs (buf[e := c]) (Suc e) = (m, buf', e')" "n = Suc m"
      by (auto simp: Let_def split: prod.splits)
    have "take (Suc e) (buf[e := c]) = take e buf @ [c]" using True Cons.prems by (simp add: take_Suc_conv_app_nth)
    with Cons.IH [OF _ m(1)] Cons.prems(1) True m(2) show ?thesis by auto
  next
    case False with Cons.prems show ?thesis by simp
  qed
qed simp

subsection \<open>What output leaves alone\<close>

text \<open>A kernel state that differs in the screens and the display only.\<close>

definition screens_only :: "'z tty_kernel_scheme \<Rightarrow> 'z tty_kernel_scheme \<Rightarrow> bool" where
  "screens_only k k' \<longleftrightarrow> (\<exists>ts d. k' = k\<lparr>terminals := ts, disp := d\<rparr> \<and> length ts = length (terminals k)
     \<and> (\<forall>i < length ts. \<exists>x. ts ! i = (terminals k ! i)\<lparr>screen := x\<rparr>))"

lemma screens_only_refl [simp]: "screens_only k k"
proof -
  have "k = k\<lparr>terminals := terminals k, disp := disp k\<rparr>" by simp
  moreover have "\<exists>x. terminals k ! i = (terminals k ! i)\<lparr>screen := x\<rparr>" for i by (rule exI [of _ "screen (terminals k ! i)"]) simp
  ultimately show ?thesis unfolding screens_only_def by blast
qed

lemma screens_only_trans: "screens_only k l \<Longrightarrow> screens_only l m \<Longrightarrow> screens_only k m"
proof -
  assume "screens_only k l" "screens_only l m"
  then obtain ts d us e where l: "l = k\<lparr>terminals := ts, disp := d\<rparr>" "length ts = length (terminals k)"
      "\<forall>i < length ts. \<exists>x. ts ! i = (terminals k ! i)\<lparr>screen := x\<rparr>"
    and m: "m = l\<lparr>terminals := us, disp := e\<rparr>" "length us = length (terminals l)" "\<forall>i < length us. \<exists>x. us ! i = (terminals l ! i)\<lparr>screen := x\<rparr>"
    unfolding screens_only_def by blast
  have "\<exists>x. us ! i = (terminals k ! i)\<lparr>screen := x\<rparr>" if "i < length us" for i
    using l m that by fastforce
  with l m show ?thesis unfolding screens_only_def by (intro exI [of _ us] exI [of _ e]) simp
qed

lemma screens_only_simps:
  assumes "screens_only k k'"
  shows "inputBuffer k' = inputBuffer k" "bufferEnd k' = bufferEnd k" "activeTerminal k' = activeTerminal k"
    "length (terminals k') = length (terminals k)" "term_wait k' = term_wait k" "procs k' = procs k"
    "i < length (terminals k) \<Longrightarrow> t_canon (terminals k' ! i) = t_canon (terminals k ! i)"
    "kbStatus k' = kbStatus k"
  using assms by (auto simp: screens_only_def)

lemma on_terminal_screens:
  assumes "on_terminal i f k = Inr (r, k')" "\<And>s r s'. f s = Inr (r, s') \<Longrightarrow> same_term s s'"
  shows "screens_only k k'"
proof -
  from assms(1) obtain t d where *: "i < length (terminals k)" "f (terminals k ! i, disp k) = Inr (r, t, d)"
    "k' = k\<lparr>terminals := (terminals k)[i := t], disp := d\<rparr>"
    by (auto simp: on_terminal_def split: if_splits elim!: rbind_InrE)
  from assms(2) [OF *(2)] obtain x where "t = (terminals k ! i)\<lparr>screen := x\<rparr>" by (auto simp: same_term_def)
  then have "\<exists>x. (terminals k)[i := t] ! j = (terminals k ! j)\<lparr>screen := x\<rparr>" if "j < length (terminals k)" for j
    using that by (cases "j = i") (auto intro: exI [of _ "screen (terminals k ! j)"])
  with * show ?thesis unfolding screens_only_def by (intro exI [of _ "(terminals k)[i := t]"] exI [of _ d]) simp
qed

lemma tty_write_active_screens: "tty_write_active cs k = Inr (n, k') \<Longrightarrow> screens_only k k'"
  unfolding tty_write_active_def by (erule on_terminal_screens) (simp add: same_term_write)

lemma echo_input_screens:
  assumes "echo_input str i k = Inr k'"
  shows "screens_only k k'"
proof (cases str)
  case (Cons c cs)
  have "screens_only k k'" if "rbind (tty_write_active ys k1) (\<lambda>(_, k1). Inr k1) = Inr k'" "screens_only k k1" for ys k1
    using that by (auto elim!: rbind_InrE intro: screens_only_trans dest!: tty_write_active_screens)
  then show ?thesis using assms Cons
    by (auto simp: echo_input_def split: if_splits elim!: rbind_InrE dest!: tty_write_active_screens intro: screens_only_trans)
qed (use assms in \<open>simp add: echo_input_def\<close>)

lemma wake_up_simps [simp]:
  "inputBuffer (wake_up k) = inputBuffer k" "bufferEnd (wake_up k) = bufferEnd k" "terminals (wake_up k) = terminals k"
  "activeTerminal (wake_up k) = activeTerminal k" "disp (wake_up k) = disp k" "kbStatus (wake_up k) = kbStatus k"
  by (simp_all add: wake_up_def kernel_upd_defs Let_def split: option.splits prod.splits)

lemma addInput_frame:
  assumes "addInput str k = Inr (n, k')" "tty_active k < length (terminals k)"
  obtains buf e where "add_chars (t_canon (terminals k ! tty_active k) \<noteq> 0) str (inputBuffer k) (bufferEnd k) = (n, buf, e)"
    "inputBuffer k' = buf" "bufferEnd k' = e" "activeTerminal k' = activeTerminal k" "length (terminals k') = length (terminals k)"
    "t_canon (terminals k' ! tty_active k) = t_canon (terminals k ! tty_active k)"
proof -
  obtain buf e where a: "add_chars (t_canon (terminals k ! tty_active k) \<noteq> 0) str (inputBuffer k) (bufferEnd k) = (n, buf, e)"
    using assms(1) by (auto simp: addInput_def Let_def split: prod.splits elim!: rbind_InrE)
  let ?k1 = "k\<lparr>inputBuffer := buf, bufferEnd := e\<rparr>"
  from assms(1) a obtain k2 where k2: "(if t_echo (terminals k ! tty_active ?k1) \<noteq> 0 then echo_input str n ?k1 else Inr ?k1) = Inr k2"
    "k' = wake_up k2" by (auto simp: addInput_def Let_def elim!: rbind_InrE)
  have s: "screens_only ?k1 k2" using k2(1) echo_input_screens [of str n ?k1 k2] by (auto split: if_splits)
  show thesis by (rule that [OF a]) (use screens_only_simps [OF s] k2(2) assms(2) in simp_all)
qed


section \<open>Typing\<close>

text \<open>
  A machine whose terminals are in order: the active terminal exists, its screen is well-formed and in the middle of
  no sequence, and the input buffer has its size.
\<close>

definition tty_ok :: "'z tty_kernel_scheme \<Rightarrow> bool" where
  "tty_ok k \<longleftrightarrow> activeTerminal k < length (terminals k) \<and> screen_ok (screen (terminals k ! activeTerminal k))
     \<and> \<not> escaped (screen (terminals k ! activeTerminal k))
     \<and> length (inputBuffer k) = INPUT_BUFFER_SIZE \<and> bufferEnd k \<le> INPUT_BUFFER_SIZE"

lemma tty_write_active_plain:
  assumes "tty_ok k" "ESCAPE_CODE \<notin> set str"
  shows "\<exists>k'. tty_write_active str k = Inr (length str, k') \<and> tty_ok k' \<and> screens_only k k'"
proof -
  let ?i = "activeTerminal k"
  from tty_write_plain_ok [of "(terminals k ! ?i, disp k)" str] assms obtain t d where
    *: "tty_write_to_screen str (terminals k ! ?i, disp k) = Inr (length str, t, d)" "screen_ok (screen t)" "\<not> escaped (screen t)"
    by (auto simp: tty_ok_def)
  let ?k' = "k\<lparr>terminals := (terminals k)[?i := t], disp := d\<rparr>"
  have "tty_write_active str k = Inr (length str, ?k')"
    using * assms by (simp add: tty_write_active_def on_terminal_def tty_active_def tty_ok_def)
  moreover have "tty_ok ?k'" using * assms by (simp add: tty_ok_def)
  ultimately show ?thesis using tty_write_active_screens by blast
qed

lemma tty_ok_input: "tty_ok k \<Longrightarrow> length buf = INPUT_BUFFER_SIZE \<Longrightarrow> e \<le> INPUT_BUFFER_SIZE \<Longrightarrow> tty_ok (k\<lparr>inputBuffer := buf, bufferEnd := e\<rparr>)"
  by (simp add: tty_ok_def)

lemma echo_input_ok:
  assumes "tty_ok k" "str \<noteq> []" "ESCAPE_CODE \<notin> set (tl str)"
  shows "\<exists>k'. echo_input str i k = Inr k' \<and> tty_ok k'"
proof -
  obtain c cs where str: "str = c # cs" using assms(2) by (cases str) auto
  have cs: "ESCAPE_CODE \<notin> set (take n cs)" for n using assms(3) str set_take_subset [of n cs] by auto
  show ?thesis
  proof (cases "c = CHR 0x1B")
    case True
    obtain k1 where k1: "tty_write_active ''^['' k = Inr (2, k1)" "tty_ok k1"
      using tty_write_active_plain [OF assms(1), of "''^[''"] by (auto simp: ESCAPE_CODE_def)
    obtain k2 where "tty_write_active (take (i - 1) cs) k1 = Inr (length (take (i - 1) cs), k2)" "tty_ok k2"
      using tty_write_active_plain [OF k1(2) cs] by blast
    with k1 True str show ?thesis by (auto simp: echo_input_def)
  next
    case False
    then have "ESCAPE_CODE \<notin> set (take i str)"
      using cs str assms(3) by (auto simp: ESCAPE_CODE_def dest: in_set_takeD)
    from tty_write_active_plain [OF assms(1) this] False str show ?thesis by (auto simp: echo_input_def)
  qed
qed

lemma tty_ok_wake_up [simp]: "tty_ok (wake_up k) = tty_ok k"
  by (simp add: tty_ok_def)

text \<open>C18. The line discipline is the reference one: the characters of a key, when there is room for them, are all taken,
  the line typed so far changes by \<open>line_edit\<close> for each of them (a backspace in canonical mode takes the last
  character away), the echo never leaves the screen, and the terminals stay in order.\<close>

theorem addInput_edits_line:
  assumes "tty_ok k" "str \<noteq> []" "ESCAPE_CODE \<notin> set (tl str)" "bufferEnd k + length str \<le> INPUT_BUFFER_SIZE"
  shows "\<exists>k'. addInput str k = Inr (length str, k') \<and> tty_ok k'
    \<and> typed k' = fold (line_edit (t_canon (terminals k ! activeTerminal k) \<noteq> 0)) str (typed k)"
proof -
  let ?canon = "t_canon (terminals k ! activeTerminal k) \<noteq> 0"
  let ?l = "fold (line_edit ?canon) str (typed k)"
  have buf: "length (inputBuffer k) = INPUT_BUFFER_SIZE" using assms(1) by (simp add: tty_ok_def)
  from add_chars_edits [OF buf assms(4), of ?canon] obtain buf' where
    a: "add_chars ?canon str (inputBuffer k) (bufferEnd k) = (length str, buf', length ?l)" "length buf' = INPUT_BUFFER_SIZE"
      "take (length ?l) buf' = ?l" by (auto simp: typed_def)
  have "length ?l \<le> INPUT_BUFFER_SIZE"
    using length_line_edit [of ?canon str "typed k"] assms(4) buf by (simp add: typed_def)
  then have ok: "tty_ok (k\<lparr>inputBuffer := buf', bufferEnd := length ?l\<rparr>)" using tty_ok_input [OF assms(1) a(2)] by blast
  let ?k1 = "k\<lparr>inputBuffer := buf', bufferEnd := length ?l\<rparr>"
  obtain k3 where k3: "echo_input str (length str) ?k1 = Inr k3" "tty_ok k3"
    using echo_input_ok [OF ok assms(2,3)] by blast
  have t3: "typed k3 = ?l" using screens_only_simps(1,2) [OF echo_input_screens [OF k3(1)]] a(3) by (simp add: typed_def)
  have t1: "typed ?k1 = ?l" using a(3) by (simp add: typed_def)
  let ?echo = "t_echo (terminals k ! activeTerminal k) \<noteq> 0"
  let ?k2 = "if ?echo then k3 else ?k1"
  have "addInput str k = Inr (length str, wake_up ?k2)" using a(1) k3(1) by (simp add: addInput_def tty_active_def Let_def)
  moreover have "tty_ok (wake_up ?k2)" using ok k3(2) by simp
  moreover have "typed (wake_up ?k2) = ?l" using t1 t3 by (simp add: typed_def)
  ultimately show ?thesis by blast
qed

section \<open>Reading\<close>

lemma input_take_ok:
  assumes "length (inputBuffer k) = INPUT_BUFFER_SIZE" "bufferEnd k \<le> INPUT_BUFFER_SIZE" "n \<le> bufferEnd k"
  shows "\<exists>k'. input_take p (int n) k = Inr (take n (typed k), k') \<and> typed k' = drop n (typed k)
    \<and> length (inputBuffer k') = INPUT_BUFFER_SIZE \<and> bufferEnd k' = bufferEnd k - n \<and> terminals k' = terminals k
    \<and> activeTerminal k' = activeTerminal k"
proof -
  have "inputBuffer k = [] @ take n (inputBuffer k) @ drop n (take (bufferEnd k) (inputBuffer k)) @ drop (bufferEnd k) (inputBuffer k)"
    using assms(3) by (metis append_Nil append_assoc append_take_drop_id take_take min.absorb1)
  then obtain buf where buf: "shift_down n (bufferEnd k) n (inputBuffer k) = Inr buf"
    using shift_down_moves [of "take n (inputBuffer k)" n "bufferEnd k" "[]" "drop n (take (bufferEnd k) (inputBuffer k))" "drop (bufferEnd k) (inputBuffer k)"] assms
    by auto
  have "length buf = length (inputBuffer k) \<and> take (bufferEnd k - n) buf = drop n (take (bufferEnd k) (inputBuffer k))"
    using shift_down_correct [OF assms(3) _ buf] assms by simp
  then show ?thesis using buf assms
    by (simp add: input_take_def typed_def upd_s_def)
qed

lemma line_end_eq:
  assumes "typed k = l @ CHR 0x0A # rest" "CHR 0x0A \<notin> set l"
  shows "line_end k = length l"
proof -
  have "takeWhile (\<lambda>c. c \<noteq> CHR 0x0A) (l @ CHR 0x0A # rest) = l"
    using assms(2) by (subst takeWhile_append2) auto
  then show ?thesis using assms(1) by (simp add: line_end_def typed_def)
qed

text \<open>C19. In canonical mode a read of the foreground process takes from the oldest line, and from it only: when a whole
  line has been typed it returns at once with as much of the line, its line feed included, as was asked for, and
  exactly these characters are removed.\<close>

theorem tty_read_line:
  assumes "tty_ok k" "scheduler_current k = Some p" "p_active (procs k p)" "p_terminal (procs k p) = int i" "i < length (terminals k)"
    "t_canon (terminals k ! i) \<noteq> 0" "typed k = l @ CHR 0x0A # rest" "CHR 0x0A \<notin> set l" "count < 2 ^ 31"
  shows "\<exists>k'. tty_read sw count k = Some (Inr (take count (l @ [CHR 0x0A]), k')) \<and> typed k' = drop (min count (Suc (length l))) (typed k)
    \<and> tty_ok k'"
proof -
  have le: "line_end k = length l" by (rule line_end_eq [OF assms(7,8)])
  have ty: "bufferEnd k = length (typed k)" using assms(1) by (simp add: typed_def tty_ok_def)
  then have be: "Suc (length l) \<le> bufferEnd k" "line_end k \<noteq> bufferEnd k" using le assms(7) by simp_all
  let ?n = "min count (Suc (length l))"
  have cur: "tty_current k = Inr i" using assms(2,4,5) by (simp add: tty_current_def tty_terminal_def NO_TERMINAL_def)
  have c: "s32 (int count) = int count" using assms(9) by (simp add: s32_id)
  have amount: "(let c = s32 (int count); i = int (line_end k) + 1 in if c > i then i else c) = int ?n"
    using le c by (auto simp: Let_def min_def)
  have "tty_read sw count k = Some (input_take p (int ?n) k)"
    using assms(2,3,4,6) cur be(2) amount
    by (simp add: tty_read_def wait_active.simps [of sw p k] wait_line.simps [of sw p k] NO_TERMINAL_def)
  moreover obtain k' where "input_take p (int ?n) k = Inr (take ?n (typed k), k')" "typed k' = drop ?n (typed k)"
      "length (inputBuffer k') = INPUT_BUFFER_SIZE" "bufferEnd k' = bufferEnd k - ?n" "terminals k' = terminals k" "activeTerminal k' = activeTerminal k"
    using input_take_ok [of k ?n p] assms(1) le_trans [OF min.cobounded2 be(1)] unfolding tty_ok_def by blast
  moreover have "take ?n (typed k) = take count (l @ [CHR 0x0A])"
  proof -
    have t: "typed k = (l @ [CHR 0x0A]) @ rest" using assms(7) by simp
    have "take ?n (typed k) = take ?n (l @ [CHR 0x0A])" unfolding t take_append by simp
    also have "\<dots> = take count (l @ [CHR 0x0A])" by (simp add: min_def)
    finally show ?thesis .
  qed
  moreover have "tty_ok k'" using calculation assms(1) by (auto simp: tty_ok_def intro: le_trans [OF diff_le_self])
  ultimately show ?thesis by auto
qed

subsection \<open>Raw mode\<close>

text \<open>
  With the terminal in raw mode, the input buffer is a byte channel between the keys and the readers: \<open>raw_get\<close> is
  the read that finds its bytes in the buffer (one that does not waits, and is no step).
\<close>

definition raw_get :: "nat \<Rightarrow> nat \<Rightarrow> 'z tty_kernel_scheme \<Rightarrow> (string \<times> 'z tty_kernel_scheme) result" where
  "raw_get p n k = (if bufferEnd k < n then Inl Hang else input_take p (int n) k)"

definition raw_ok :: "'z tty_kernel_scheme \<Rightarrow> bool" where
  "raw_ok k \<longleftrightarrow> activeTerminal k < length (terminals k) \<and> t_canon (terminals k ! activeTerminal k) = 0
     \<and> length (inputBuffer k) = INPUT_BUFFER_SIZE \<and> bufferEnd k \<le> INPUT_BUFFER_SIZE"

lemma raw_put_appends:
  assumes "raw_ok k" "addInput xs k = Inr (n, k')"
  shows "raw_ok k' \<and> n \<le> length xs \<and> typed k' = typed k @ take n xs"
proof -
  have a: "tty_active k < length (terminals k)" "t_canon (terminals k ! tty_active k) = 0" using assms(1) by (simp_all add: raw_ok_def tty_active_def)
  show ?thesis
  proof (rule addInput_frame [OF assms(2) a(1)])
    fix buf e
    assume *: "add_chars (t_canon (terminals k ! tty_active k) \<noteq> 0) xs (inputBuffer k) (bufferEnd k) = (n, buf, e)"
      "inputBuffer k' = buf" "bufferEnd k' = e" "activeTerminal k' = activeTerminal k" "length (terminals k') = length (terminals k)"
      "t_canon (terminals k' ! tty_active k) = t_canon (terminals k ! tty_active k)"
    from *(1) a(2) have "add_chars False xs (inputBuffer k) (bufferEnd k) = (n, buf, e)" by simp
    from add_chars_raw [OF _ this] assms(1) * a show ?thesis by (auto simp: raw_ok_def typed_def tty_active_def)
  qed
qed

lemma raw_get_takes:
  assumes "raw_ok k" "raw_get p n k = Inr (ys, k')"
  shows "raw_ok k' \<and> length ys \<le> n \<and> typed k = ys @ typed k'"
proof -
  have n: "n \<le> bufferEnd k" using assms(2) by (auto simp: raw_get_def split: if_splits)
  from input_take_ok [of k n p] n assms show ?thesis by (auto simp: raw_get_def raw_ok_def split: if_splits)
qed

interpretation keyboard: byte_channel addInput "raw_get p" typed raw_ok
  by unfold_locales (use raw_put_appends raw_get_takes in blast)+

text \<open>In raw mode the keyboard buffer neither loses, invents, duplicates nor reorders bytes: after any interleaving of
  keys, reads and other activity that leaves the buffer alone, the bytes read followed by those still buffered are
  the bytes buffered at the start followed by those accepted.\<close>

theorem keyboard_bytes_in_order:
  assumes "channel_run addInput (raw_get p) ops k = Inr (wr, rd, k')" "raw_ok k"
    "\<forall>f \<in> set (others ops). \<forall>k. raw_ok k \<longrightarrow> raw_ok (f k) \<and> typed (f k) = typed k"
  shows "typed k @ wr = rd @ typed k'"
  using keyboard.run_in_order [OF assms] by simp

section \<open>The scan code ring\<close>

text \<open>The scan codes not yet fetched, oldest first.\<close>

definition ring_ok :: "'z tty_kernel_scheme \<Rightarrow> bool" where
  "ring_ok k \<longleftrightarrow> length (kb_buffer k) = KB_BUFFER_SIZE \<and> bufferPos k < KB_BUFFER_SIZE \<and> bufferStart k < KB_BUFFER_SIZE"

definition pending :: "'z tty_kernel_scheme \<Rightarrow> u8 list" where
  "pending k = (if bufferStart k \<le> bufferPos k then drop (bufferStart k) (take (bufferPos k) (kb_buffer k))
     else drop (bufferStart k) (kb_buffer k) @ take (bufferPos k) (kb_buffer k))"

lemma length_pending:
  "ring_ok k \<Longrightarrow> length (pending k) = (if bufferStart k \<le> bufferPos k then bufferPos k - bufferStart k
     else KB_BUFFER_SIZE - bufferStart k + bufferPos k)"
  by (auto simp: ring_ok_def pending_def)

definition ring_push :: "u8 \<Rightarrow> 'z tty_kernel_scheme \<Rightarrow> 'z tty_kernel_scheme" where
  "ring_push c k = k\<lparr>kb_buffer := (kb_buffer k)[bufferPos k := c],
                 bufferPos := (if Suc (bufferPos k) = KB_BUFFER_SIZE then 0 else Suc (bufferPos k))\<rparr>"

lemma ring_push_ok: "ring_ok k \<Longrightarrow> ring_ok (ring_push c k)"
  by (auto simp: ring_ok_def ring_push_def)

lemma ring_push_pending:
  assumes "ring_ok k"
  shows "pending (ring_push c k) = (if length (pending k) < KB_BUFFER_SIZE - 1 then pending k @ [c] else [])"
proof (cases "bufferStart k \<le> bufferPos k")
  case True
  have len: "length (pending k) = bufferPos k - bufferStart k" using True length_pending [OF assms] by simp
  have app: "take (Suc (bufferPos k)) ((kb_buffer k)[bufferPos k := c]) = take (bufferPos k) (kb_buffer k) @ [c]"
    using assms by (simp add: ring_ok_def take_Suc_conv_app_nth)
  show ?thesis
  proof (cases "Suc (bufferPos k) = KB_BUFFER_SIZE")
    case end': True
    have all: "take (bufferPos k) (kb_buffer k) @ [c] = (kb_buffer k)[bufferPos k := c]"
      using app assms end' by (simp add: ring_ok_def)
    show ?thesis
    proof (cases "bufferStart k = 0")
      case True
      then show ?thesis using len end' by (simp add: pending_def ring_push_def)
    next
      case False
      have "drop (bufferStart k) ((kb_buffer k)[bufferPos k := c]) = drop (bufferStart k) (take (bufferPos k) (kb_buffer k)) @ [c]"
        using all [symmetric] True assms by (simp add: ring_ok_def)
      then show ?thesis using False len end' True by (auto simp: pending_def ring_push_def)
    qed
  next
    case False
    then show ?thesis using True len app assms by (auto simp: pending_def ring_push_def ring_ok_def)
  qed
next
  case False
  have len: "length (pending k) = KB_BUFFER_SIZE - bufferStart k + bufferPos k" using False length_pending [OF assms] by simp
  have app: "take (Suc (bufferPos k)) ((kb_buffer k)[bufferPos k := c]) = take (bufferPos k) (kb_buffer k) @ [c]"
    using assms by (simp add: ring_ok_def take_Suc_conv_app_nth)
  have "Suc (bufferPos k) < KB_BUFFER_SIZE" using False assms by (simp add: ring_ok_def)
  then show ?thesis using False len app assms
    by (cases "Suc (bufferPos k) = bufferStart k") (auto simp: pending_def ring_push_def ring_ok_def)
qed

text \<open>The interrupt handler queues the scan code behind those already there and readies the terminal process, as long
  as fewer than 3999 are waiting; with 3999 waiting the ring is taken for empty and every one of them is lost,
  the new one included.\<close>

theorem keyboard_read_queues:
  assumes "ring_ok k" "kb_consumer k = Some p"
  shows "\<exists>k'. keyboard_read c k = Inr k' \<and> ring_ok k'
    \<and> pending k' = (if length (pending k) < KB_BUFFER_SIZE - 1 then pending k @ [c] else [])
    \<and> (ioWait (p_schedule (procs k p)) \<and> \<not> is_done (p_schedule (procs k p)) \<longrightarrow>
         status_of (procs k') p = StatusReady \<and> scheduler_queue k' = queue_push (scheduler_queue k) p)"
proof -
  have eq: "keyboard_read c k = Inr (if ioWait (p_schedule (procs k p)) then process_table_unblock p (ring_push c k) else ring_push c k)"
    using assms(2) by (simp add: keyboard_read_def ring_push_def Let_def)
  have un: "ring_ok (process_table_unblock p x) = ring_ok x" "pending (process_table_unblock p x) = pending x" for x :: "'a tty_kernel_scheme"
    by (simp_all add: ring_ok_def pending_def kernel_upd_defs)
  have pr: "procs (ring_push c k) = procs k" "scheduler_queue (ring_push c k) = scheduler_queue k" by (simp_all add: ring_push_def)
  show ?thesis unfolding eq using ring_push_ok [OF assms(1)] ring_push_pending [OF assms(1)]
    by (simp add: un pr)
qed

text \<open>The terminal process fetches the oldest scan code without waiting when there is one, and only that one is removed.\<close>

theorem keyboard_get_code_oldest:
  assumes "ring_ok k" "pending k = c # cs" "scheduler_current k = Some p" "kb_consumer k = Some p"
  shows "\<exists>k'. keyboard_get_code sw k = Some (Inr (c, k')) \<and> ring_ok k' \<and> pending k' = cs"
proof -
  have ne: "bufferPos k \<noteq> bufferStart k" using assms(1,2) length_pending [OF assms(1)] by auto
  let ?k' = "snd (keyboard_take p k)"
  have "keyboard_get_code sw k = Some (Inr (keyboard_take p k))"
    using ne assms(3,4) by (simp add: keyboard_get_code_def keyboard_wait.simps [of sw p k])
  moreover have "kb_buffer k ! bufferStart k = c"
  proof (cases "bufferStart k \<le> bufferPos k")
    case True
    have "pending k ! 0 = kb_buffer k ! bufferStart k" using True ne assms(1) by (simp add: pending_def ring_ok_def)
    then show ?thesis using assms(2) by simp
  next
    case False
    have "pending k ! 0 = kb_buffer k ! bufferStart k" using False assms(1) by (simp add: pending_def ring_ok_def nth_append)
    then show ?thesis using assms(2) by simp
  qed
  moreover have "ring_ok ?k'" using assms(1) by (simp add: keyboard_take_def ring_ok_def upd_s_def)
  moreover have "pending ?k' = tl (pending k)"
  proof (cases "Suc (bufferStart k) = KB_BUFFER_SIZE")
    case True
    then have "drop (bufferStart k) (kb_buffer k) = [kb_buffer k ! bufferStart k]"
      using Cons_nth_drop_Suc [of "bufferStart k" "kb_buffer k"] assms(1) by (simp add: ring_ok_def)
    then show ?thesis using True ne assms(1)
      by (auto simp: keyboard_take_def pending_def upd_s_def ring_ok_def)
  next
    case False
    then show ?thesis using ne assms(1)
      by (auto simp: keyboard_take_def pending_def upd_s_def ring_ok_def drop_Suc tl_drop[symmetric] tl_append split: list.splits)
  qed
  ultimately show ?thesis using assms(2) by (intro exI [of _ ?k']) (simp add: keyboard_take_def)
qed

section \<open>Switching terminals\<close>

definition one_active :: "'z tty_kernel_scheme \<Rightarrow> bool" where
  "one_active k \<longleftrightarrow> activeTerminal k < length (terminals k) \<and> (\<forall>i < length (terminals k). t_active (terminals k ! i) = (i = activeTerminal k))"

text \<open>Switching to another terminal keeps exactly one terminal active, leaves every screen as it was, and puts on the
  display the 25 rows that the new active terminal shows.\<close>

theorem tty_change_shows:
  assumes "one_active k" "a < length (terminals k)"
  shows "\<exists>k'. tty_change a k = Inr k' \<and> one_active k' \<and> activeTerminal k' = a
    \<and> (\<forall>i < length (terminals k). screen (terminals k' ! i) = screen (terminals k ! i))
    \<and> (\<forall>i. 0 \<le> i \<longrightarrow> i < 4000 \<longrightarrow> vmem (disp k') i =
         videoBuffer (screen (terminals k ! a)) (2 * visibleLine (screen (terminals k ! a)) * LINE_WIDTH + i))"
proof -
  let ?k2 = "set_active a True ((set_active (activeTerminal k) False k)\<lparr>activeTerminal := a\<rparr>)"
  have ts: "terminals ?k2 = (terminals k)[activeTerminal k := (terminals k ! activeTerminal k)\<lparr>t_active := False\<rparr>,
      a := ((terminals k)[activeTerminal k := (terminals k ! activeTerminal k)\<lparr>t_active := False\<rparr>] ! a)\<lparr>t_active := True\<rparr>]"
    by (simp add: set_active_def)
  have scr: "screen (terminals ?k2 ! i) = screen (terminals k ! i)" if "i < length (terminals k)" for i
    unfolding ts using that assms by (cases "i = a"; cases "i = activeTerminal k") (simp_all add: nth_list_update)
  have act: "t_active (terminals ?k2 ! i) = (i = a)" if "i < length (terminals k)" for i
    using that assms by (auto simp: ts nth_list_update one_active_def)
  have len: "length (terminals ?k2) = length (terminals k)" "activeTerminal ?k2 = a" by (simp_all add: set_active_def)
  let ?s = "tty_screen_change (terminals ?k2 ! a, disp ?k2)"
  let ?k' = "?k2\<lparr>terminals := (terminals ?k2)[a := fst ?s], disp := snd ?s\<rparr>"
  have same: "(terminals ?k2)[a := fst ?s] = terminals ?k2" by (simp add: tty_screen_change_def)
  have "tty_change a k = Inr ?k'"
    using assms(2) len by (simp add: tty_change_def on_terminal_def tty_active_def Let_def split_def)
  moreover have "one_active ?k'" using act len assms(2) unfolding one_active_def by (simp only: same) simp
  moreover have "vmem (disp ?k') i = videoBuffer (screen (terminals k ! a)) (2 * visibleLine (screen (terminals k ! a)) * LINE_WIDTH + i)"
    if "0 \<le> i" "i < 4000" for i
    using that act [OF assms(2)] scr [OF assms(2)]
    by (simp add: tty_screen_change_def update_cursor_def flip_buffer_def video_update_cursor_def vmem_flip)
  moreover have "screen (terminals ?k' ! i) = screen (terminals k ! i)" if "i < length (terminals k)" for i
    using scr [OF that] by (simp add: same)
  ultimately show ?thesis using len(2) by (intro exI [of _ ?k']) simp
qed

section \<open>A full buffer\<close>

text \<open>The input of a run of keys.\<close>

fun handle_scancodes :: "u8 list \<Rightarrow> 'z tty_kernel_scheme \<Rightarrow> 'z tty_kernel_scheme result" where
  "handle_scancodes [] k = Inr k"
| "handle_scancodes (c # cs) k = rbind (handle_scancode c k) (handle_scancodes cs)"

definition full :: "string \<Rightarrow> 'z tty_kernel_scheme \<Rightarrow> bool" where
  "full buf k \<longleftrightarrow> bufferEnd k = INPUT_BUFFER_SIZE \<and> inputBuffer k = buf \<and> length (terminals k) = NUM_TERMINALS
     \<and> activeTerminal k < NUM_TERMINALS"

lemma full_key:
  assumes "full buf k" "input_key str k = Inr k'"
  shows "full buf k'"
proof -
  from assms(2) obtain n where n: "addInput str k = Inr (n, k')" by (auto simp: input_key_def elim!: rbind_InrE)
  have a: "tty_active k < length (terminals k)" using assms(1) by (simp add: full_def tty_active_def)
  show ?thesis
    by (rule addInput_frame [OF n a]) (use assms(1) in \<open>auto simp: full_def add_chars_full\<close>)
qed

lemma full_terminal:
  assumes "full buf k" "rbind (on_terminal i f k) (\<lambda>(_, k1). Inr k1) = Inr k'"
  shows "full buf k'"
  using assms by (auto simp: full_def on_terminal_def split: if_splits elim!: rbind_InrE)

lemma full_upd [simp]:
  "full buf (upd_kb f k) = full buf k" "full buf (set_leds k) = full buf k" "full buf (k\<lparr>kb_escaped := b\<rparr>) = full buf k"
  "full buf (set_active i b k) = full buf k"
  by (simp_all add: full_def upd_kb_def set_leds_def keyboard_leds_def set_active_def)

lemma full_change:
  assumes "full buf k" "i < NUM_TERMINALS" "tty_change i k = Inr k'"
  shows "full buf k'"
proof -
  have "full buf (set_active i True ((set_active (activeTerminal k) False k)\<lparr>activeTerminal := i\<rparr>))"
    using assms(1,2) by (simp add: full_def set_active_def)
  then show ?thesis using full_terminal assms(3) by (fastforce simp: tty_change_def Let_def)
qed

lemma full_special:
  assumes "full buf k" "special_key m b k = Inr k'"
  shows "full buf k'"
proof -
  have arrow: "full buf k'" if "(if \<not> b \<and> (kb_escaped k \<or> \<not> kb_num (kbStatus k)) then input_key str k else Inr k) = Inr k'" for str
    using that full_key [OF assms(1)] assms(1) by (auto split: if_splits)
  have scroll: "full buf k'" if "(if \<not> b \<and> kb_escaped k then rbind (on_terminal i f k) (\<lambda>(_, k1). Inr k1) else Inr k) = Inr k'" for i f
    using that full_terminal [OF assms(1)] assms(1) by (auto split: if_splits)
  have change: "full buf k'" if "(if m - 0x3B < int NUM_TERMINALS then tty_change (nat (m - 0x3B)) k else Inr k) = Inr k'" "0x3B \<le> m"
    using that full_change [OF assms(1), of "nat (m - 0x3B)"] assms(1) by (auto split: if_splits)
  show ?thesis
    using assms arrow scroll change unfolding special_key_def Let_def
    by (simp split: if_split_asm) (auto split: if_splits)
qed

lemma full_scancode:
  assumes "full buf k" "handle_scancode c k = Inr k'"
  shows "full buf k'"
  using assms full_special [OF assms(1)] full_key [OF assms(1)]
  by (auto simp: handle_scancode_def Let_def split: if_splits elim!: rbind_InrE)


section \<open>Examples\<close>

text \<open>Process 0 runs in the foreground of terminal 0, whose mode is given; \<open>l\<close> has been typed.\<close>

definition example_tty :: "u8 \<Rightarrow> string \<Rightarrow> tty_kernel" where
  "example_tty canon l = kernel.extend (small_kernel\<lparr>procs := (\<lambda>a. zero_process\<lparr>p_active := True\<rparr>)\<rparr>)
     (tty_kernel.fields (replicate 5 ((fst (example_tv 0 50 False))\<lparr>t_canon := canon\<rparr>)) 0 (snd (example_tv 0 50 False))
        \<lparr>kb_ctrl = False, kb_alt = False, kb_shift = False, kb_caps = False, kb_scroll = False, kb_num = False\<rparr> False
        (l @ replicate (4000 - length l) (CHR 0x00)) (length l) (replicate 4000 7) 2 0 (Some 0) 0)"

lemma example_tty_simps:
  "terminals (example_tty canon l) = replicate 5 ((fst (example_tv 0 50 False))\<lparr>t_canon := canon\<rparr>)"
  "activeTerminal (example_tty canon l) = 0" "bufferEnd (example_tty canon l) = length l"
  "inputBuffer (example_tty canon l) = l @ replicate (4000 - length l) (CHR 0x00)"
  "scheduler_current (example_tty canon l) = Some 0" "procs (example_tty canon l) = (\<lambda>a. zero_process\<lparr>p_active := True\<rparr>)"
  "kb_consumer (example_tty canon l) = Some 0" "kb_buffer (example_tty canon l) = replicate 4000 7"
  "bufferPos (example_tty canon l) = 2" "bufferStart (example_tty canon l) = 0"
  by (simp_all add: example_tty_def kernel.defs tty_kernel.defs small_kernel_def scheduler_current_def)

lemma example_tty_typed: "typed (example_tty canon l) = l"
  by (simp add: typed_def example_tty_simps)

lemma example_tty_ok: "length l \<le> 4000 \<Longrightarrow> tty_ok (example_tty canon l)"
  by (simp add: tty_ok_def example_tty_simps INPUT_BUFFER_SIZE_def)

theorem addInput_edits_line_witness:
  "\<exists>k'. addInput [CHR 0x08] (example_tty 1 ''ab'') = Inr (1, k') \<and> typed k' = ''a''"
  using addInput_edits_line [of "example_tty 1 ''ab''" "[CHR 0x08]"] example_tty_ok [of "''ab''" 1]
  by (auto simp: example_tty_simps example_tty_typed line_edit_def INPUT_BUFFER_SIZE_def)

theorem tty_read_line_witness:
  "\<exists>k'. tty_read (\<lambda>k. k) 10 (example_tty 1 (''hi'' @ CHR 0x0A # ''x'')) = Some (Inr (''hi'' @ [CHR 0x0A], k')) \<and> typed k' = ''x''"
  using tty_read_line [of "example_tty 1 (''hi'' @ CHR 0x0A # ''x'')" 0 0 "''hi''" "''x''" 10 "\<lambda>k. k"] example_tty_ok [of "''hi'' @ CHR 0x0A # ''x''" 1]
  by (auto simp: example_tty_simps example_tty_typed zero_process_def)

theorem keyboard_bytes_in_order_witness:
  "\<exists>k'. channel_run addInput (raw_get 0) [Get 1, Get 2] (example_tty 0 ''abc'') = Inr ([], ''abc'', k') \<and> typed k' = []"
proof -
  let ?k = "example_tty 0 ''abc''"
  have ok: "raw_ok ?k" by (simp add: raw_ok_def example_tty_simps INPUT_BUFFER_SIZE_def)
  obtain k1 where k1: "raw_get 0 1 ?k = Inr (''a'', k1)" "typed k1 = ''bc''" "length (inputBuffer k1) = INPUT_BUFFER_SIZE" "bufferEnd k1 = 2"
    using input_take_ok [of ?k 1 0] by (auto simp: raw_get_def example_tty_simps example_tty_typed INPUT_BUFFER_SIZE_def)
  obtain k2 where k2: "raw_get 0 2 k1 = Inr (''bc'', k2)"
    using input_take_ok [of k1 2 0] k1 by (auto simp: raw_get_def INPUT_BUFFER_SIZE_def)
  have run: "channel_run addInput (raw_get 0) [Get 1, Get 2] ?k = Inr ([], ''abc'', k2)" using k1 k2 by simp
  from keyboard_bytes_in_order [OF run ok] run show ?thesis by (auto simp: example_tty_typed)
qed

theorem tty_change_shows_witness:
  "\<exists>k'. tty_change 3 (set_active 4 False (set_active 3 False (set_active 2 False (set_active 1 False (example_tty 1 []))))) = Inr k' \<and> one_active k'"
proof -
  let ?k = "set_active 4 False (set_active 3 False (set_active 2 False (set_active 1 False (example_tty 1 []))))"
  have "one_active ?k" by (auto simp: one_active_def set_active_def example_tty_simps example_tv_def numeral_eq_Suc less_Suc_eq)
  moreover have "length (terminals ?k) = 5" by (simp add: set_active_def example_tty_simps)
  ultimately show ?thesis using tty_change_shows [of ?k 3] by auto
qed

lemma example_ring: "ring_ok (example_tty c l)" "pending (example_tty c l) = [7, 7]"
  by (simp_all add: ring_ok_def pending_def example_tty_simps KB_BUFFER_SIZE_def numeral_2_eq_2)

theorem keyboard_read_queues_witness: "\<exists>k'. keyboard_read 9 (example_tty 0 []) = Inr k' \<and> pending k' = [7, 7, 9]"
  using keyboard_read_queues [of "example_tty 0 []" 0 9] by (force simp: example_ring example_tty_simps KB_BUFFER_SIZE_def)

theorem keyboard_get_code_oldest_witness: "\<exists>k'. keyboard_get_code (\<lambda>k. k) (example_tty 0 []) = Some (Inr (7, k')) \<and> pending k' = [7]"
  using keyboard_get_code_oldest [of "example_tty 0 []" 7 "[7]" 0 "\<lambda>k. k"] by (force simp: example_ring example_tty_simps)


end
