(* ===== verification/Stdlib.thy ===== *)
theory Stdlib
  imports C_String
begin

text \<open>
  \<open>src/library/stdlib.c\<close> and \<open>src/library/div64.h\<close>: conversions between numbers and strings, the
  random number generator, and the 64-bit divisions. \<open>int\<close> values wrap at 32 bits; the C operators
  \<open>/\<close> and \<open>%\<close> on \<open>int\<close> are \<open>sdiv\<close> and \<open>smod\<close>.
\<close>

unbundle bit_operations_syntax

section \<open>Definitions\<close>

function atoi_loop :: "string \<Rightarrow> nat \<Rightarrow> int \<Rightarrow> int result" where
  "atoi_loop s i ans = rbind (cget s i) (\<lambda>c.
     if isdigit c then atoi_loop s (Suc i) (s32 (s32 (s32 (ans * 10) + schar c) - 48)) else Inr ans)"
  by pat_completeness auto
termination by (relation "measure (\<lambda>(s, i, ans). length s - i)") (auto simp: cget_Inr)

definition atoi :: "string \<Rightarrow> int result" where
  "atoi s = rbind (skip_while isspace s 0) (\<lambda>i. rbind (cget s i) (\<lambda>c.
     rbind (if c = CHR ''-'' then skip_while isspace s (Suc i) else Inr i) (\<lambda>j.
     rbind (atoi_loop s j 0) (\<lambda>ans. Inr (if c = CHR ''-'' then s32 (- 1 * ans) else ans)))))"

text \<open>An \<open>int\<close> stored into a \<open>char\<close>.\<close>

definition to_char :: "int \<Rightarrow> char" where
  "to_char v = char_of (nat (v mod 256))"

function itoa_loop :: "string \<Rightarrow> int \<Rightarrow> nat \<Rightarrow> (string \<times> nat) result" where
  "itoa_loop s n i = rbind (cput s i (to_char (n smod 10 + 48))) (\<lambda>s'.
     let n' = n sdiv 10 in if n' > 0 then itoa_loop s' n' (Suc i) else Inr (s', Suc i))"
  by pat_completeness auto
termination
  by (relation "measure (\<lambda>(s, n, i). nat n)") (auto simp: signed_divide_int_def sgn_if split: if_splits)

text \<open>\<open>itoa\<close>: the buffer and the length returned.\<close>

definition itoa :: "string \<Rightarrow> int \<Rightarrow> (string \<times> nat) result" where
  "itoa s n =
     (let neg = n < 0; m = (if neg then s32 (n * - 1) else n)
      in rbind (itoa_loop s m 0) (\<lambda>(s1, i).
         rbind (if neg then rbind (cput s1 i (CHR ''-'')) (\<lambda>s2. Inr (s2, Suc i)) else Inr (s1, i)) (\<lambda>(s2, j).
         rbind (cput s2 j NUL) (\<lambda>s3. rbind (reverse s3) (\<lambda>s4. Inr (s4, j))))))"

text \<open>\<open>rand\<close>: the new seed and the number; \<open>size_t\<close> and \<open>unsigned long\<close> have 32 bits.\<close>

definition rand :: "u32 \<Rightarrow> u32 \<times> u32" where
  "rand randSeed =
     (let seed = (1103515245 * randSeed + 12345) mod push_bit 30 1 in (seed, drop_bit 2 seed))"

definition srand :: "u32 \<Rightarrow> u32" where
  "srand seed = seed"

function atou_loop :: "string \<Rightarrow> nat \<Rightarrow> u32 \<Rightarrow> u32 result" where
  "atou_loop s i ans = rbind (cget s i) (\<lambda>c.
     if isdigit c then atou_loop s (Suc i) (ans * 10 + of_int (schar c) - 48) else Inr ans)"
  by pat_completeness auto
termination by (relation "measure (\<lambda>(s, i, ans). length s - i)") (auto simp: cget_Inr)

definition atou :: "string \<Rightarrow> u32 result" where
  "atou s = rbind (skip_while isspace s 0) (\<lambda>i. atou_loop s i 0)"

function utoa_loop :: "string \<Rightarrow> u32 \<Rightarrow> nat \<Rightarrow> (string \<times> nat) result" where
  "utoa_loop s n i = rbind (cput s i (to_char (uint (n mod 10) + 48))) (\<lambda>s'.
     let n' = n div 10 in if n' > 0 then utoa_loop s' n' (Suc i) else Inr (s', Suc i))"
  by pat_completeness auto
termination
proof (relation "measure (\<lambda>(s, n, i). unat n)", goal_cases)
  case (2 s n i x xa)
  then have "0 < unat (n div 10)" by (simp add: word_less_nat_alt)
  then show ?case using 2 by (simp add: unat_div)
qed simp

definition utoa :: "string \<Rightarrow> u32 \<Rightarrow> (string \<times> nat) result" where
  "utoa s n = rbind (utoa_loop s n 0) (\<lambda>(s1, i).
     rbind (cput s1 i NUL) (\<lambda>s2. rbind (reverse s2) (\<lambda>s3. Inr (s3, i))))"

text \<open>\<open>parseoct\<close>: the loop runs from the last character to the first.\<close>

fun parseoct_loop :: "string \<Rightarrow> nat \<Rightarrow> int \<Rightarrow> int \<Rightarrow> int result" where
  "parseoct_loop s 0 ans base = Inr ans"
| "parseoct_loop s (Suc i) ans base = rbind (cget s i) (\<lambda>c.
     if \<not> isdigit c \<or> schar c - 48 > 7 then Inr (- 1)
     else parseoct_loop s i (s32 (ans + s32 ((schar c - 48) * base))) (s32 (base * 8)))"

definition parseoct :: "string \<Rightarrow> int result" where
  "parseoct s = rbind (strlen (Some s)) (\<lambda>len. parseoct_loop s len 0 1)"

text \<open>\<open>uint64_div32\<close> and \<open>uint64_mod32\<close>: long division in base 65536.\<close>

definition div32_parts :: "u64 \<Rightarrow> u32 \<Rightarrow> u64 \<times> u32" where
  "div32_parts dividend divisor =
     (let low = 0xFFFF AND ucast dividend;
          mid_low = 0xFFFF AND ucast (drop_bit 16 dividend);
          mid_high = 0xFFFF AND ucast (drop_bit 32 dividend);
          high = ucast (drop_bit 48 dividend) :: u32;
          q1 = ucast (high div divisor) :: u64;
          mid_high1 = mid_high + push_bit 16 (high mod divisor);
          q2 = push_bit 16 q1 + ucast (mid_high1 div divisor);
          mid_low1 = mid_low + push_bit 16 (mid_high1 mod divisor);
          q3 = push_bit 16 q2 + ucast (mid_low1 div divisor);
          low1 = low + push_bit 16 (mid_low1 mod divisor)
      in (push_bit 16 q3 + ucast (low1 div divisor), low1 mod divisor))"

definition uint64_div32 :: "u64 \<Rightarrow> u32 \<Rightarrow> u32" where
  "uint64_div32 dividend divisor = ucast (fst (div32_parts dividend divisor))"

definition uint64_mod32 :: "u64 \<Rightarrow> u32 \<Rightarrow> u32" where
  "uint64_mod32 dividend divisor = snd (div32_parts dividend divisor)"

text \<open>
  \<open>uint64_div64\<close> and \<open>uint64_mod64\<close>: the first loop doubles \<open>shift\<close> until it reaches the dividend or
  the doubling overflows; the second halves it again. \<open>None\<close> when the second loop does not end.
\<close>

partial_function (option) grow_shift :: "u64 \<Rightarrow> u64 \<Rightarrow> u64 \<Rightarrow> u64 option" where
  "grow_shift dividend shift aux =
     (if shift < dividend
      then (let aux1 = push_bit 1 aux
            in if aux1 > shift then grow_shift dividend aux1 aux1 else Some shift)
      else Some shift)"

partial_function (option) long_div :: "u64 \<Rightarrow> u64 \<Rightarrow> u64 \<Rightarrow> u64 \<Rightarrow> (u64 \<times> u64) option" where
  "long_div divisor shift aux dividend =
     (if shift \<ge> divisor
      then (if shift \<le> dividend
            then long_div divisor (drop_bit 1 shift) (push_bit 1 aux + 1) (dividend - shift)
            else long_div divisor (drop_bit 1 shift) (push_bit 1 aux) dividend)
      else Some (aux, dividend))"

definition uint64_div64 :: "u64 \<Rightarrow> u64 \<Rightarrow> u64 option" where
  "uint64_div64 dividend divisor =
     (case grow_shift dividend divisor divisor of
        None \<Rightarrow> None
      | Some shift \<Rightarrow> map_option fst (long_div divisor shift 0 dividend))"

definition uint64_mod64 :: "u64 \<Rightarrow> u64 \<Rightarrow> u64 option" where
  "uint64_mod64 dividend divisor =
     (case grow_shift dividend divisor divisor of
        None \<Rightarrow> None
      | Some shift \<Rightarrow> map_option snd (long_div divisor shift 0 dividend))"

declare atoi_loop.simps [simp del] itoa_loop.simps [simp del] atou_loop.simps [simp del] utoa_loop.simps [simp del]


section \<open>Decimal notation\<close>

definition digit :: "nat \<Rightarrow> char" where
  "digit k = char_of (48 + k)"

function dec :: "nat \<Rightarrow> string" where
  "dec n = (if n < 10 then [digit n] else dec (n div 10) @ [digit (n mod 10)])"
  by pat_completeness auto
termination by (relation "measure id") auto

declare dec.simps [simp del]

lemma schar_digit: "k < 10 \<Longrightarrow> schar (digit k) = 48 + int k"
  by (simp add: schar_def digit_def)

lemma digit_props: "k < 10 \<Longrightarrow> isdigit (digit k)" "k < 10 \<Longrightarrow> digit k \<noteq> NUL" "k < 10 \<Longrightarrow> \<not> isspace (digit k)"
  "k < 10 \<Longrightarrow> digit k \<noteq> CHR ''-''"
proof -
  assume k: "k < 10"
  then show "isdigit (digit k)" by (simp add: isdigit_def schar_digit)
  have "schar (digit k) \<noteq> schar c" if "schar c < 48" for c using that k by (simp add: schar_digit)
  then have ne: "digit k \<noteq> c" if "schar c < 48" for c using that by metis
  show "digit k \<noteq> NUL" "digit k \<noteq> CHR ''-''" "\<not> isspace (digit k)"
    by (auto simp: isspace_def schar_def intro!: ne)
qed

lemma dec_digits: "c \<in> set (dec n) \<Longrightarrow> \<exists>k < 10. c = digit k"
proof (induction n rule: dec.induct)
  case (1 n)
  show ?case
  proof (cases "n < 10 \<or> c = digit (n mod 10)")
    case True
    with 1 show ?thesis by (subst (asm) (2) dec.simps) (auto intro: exI [of _ "n mod 10"] split: if_splits)
  next
    case False
    with 1 show ?thesis by (subst (asm) (2) dec.simps) auto
  qed
qed

lemma dec_not_Nil: "dec n \<noteq> []"
  by (subst dec.simps) simp

definition dec_val :: "int \<Rightarrow> string \<Rightarrow> int" where
  "dec_val v ds = foldl (\<lambda>v c. v * 10 + (schar c - 48)) v ds"

lemma dec_val_dec: "dec_val 0 (dec n) = int n"
proof (induction n rule: dec.induct)
  case (1 n)
  then show ?case
    by (subst dec.simps) (auto simp: dec_val_def schar_digit of_nat_div of_nat_mod)
qed

lemma dec_val_mono:
  "0 \<le> v \<Longrightarrow> \<forall>c \<in> set ds. isdigit c \<Longrightarrow> v \<le> dec_val v ds"
proof (induction ds arbitrary: v)
  case (Cons c ds)
  then have "v * 10 + (schar c - 48) \<le> dec_val (v * 10 + (schar c - 48)) ds"
    by (intro Cons.IH) (auto simp: isdigit_def)
  moreover have "v \<le> v * 10 + (schar c - 48)" using Cons.prems by (auto simp: isdigit_def)
  ultimately show ?case by (simp add: dec_val_def)
qed (simp add: dec_val_def)

text \<open>Reading digits: the value of the digits read so far, as long as it fits.\<close>

lemma atoi_loop_digits:
  "\<forall>c \<in> set ds. isdigit c \<Longrightarrow> \<not> isdigit x \<Longrightarrow> 0 \<le> v \<Longrightarrow> dec_val v ds < 2 ^ 31 \<Longrightarrow>
     atoi_loop (a @ ds @ x # rest) (length a) v = Inr (dec_val v ds)"
proof (induction ds arbitrary: a v)
  case Nil
  then show ?case by (subst atoi_loop.simps) (simp add: dec_val_def)
next
  case (Cons c ds)
  define v' where "v' = v * 10 + (schar c - 48)"
  have v': "0 \<le> v'" using Cons.prems by (auto simp: v'_def isdigit_def)
  have "v' \<le> dec_val v' ds" using Cons.prems v' by (intro dec_val_mono) auto
  moreover have dv: "dec_val v' ds = dec_val v (c # ds)" by (simp add: dec_val_def v'_def)
  ultimately have "s32 v' = v'" using Cons.prems(4) v' by (intro s32_id) auto
  then have step: "s32 (s32 (s32 (v * 10) + schar c) - 48) = v'"
    unfolding v'_def by (metis s32_simps add_diff_eq)
  have "atoi_loop ((a @ [c]) @ ds @ x # rest) (length (a @ [c])) v' = Inr (dec_val v' ds)"
    by (rule Cons.IH) (use Cons.prems v' dv in auto)
  with step Cons.prems dv show ?case by (subst atoi_loop.simps) simp
qed

lemma atou_loop_digits:
  "\<forall>c \<in> set ds. isdigit c \<Longrightarrow> \<not> isdigit x \<Longrightarrow>
     atou_loop (a @ ds @ x # rest) (length a) (of_int v) = Inr (of_int (dec_val v ds))"
proof (induction ds arbitrary: a v)
  case Nil
  then show ?case by (subst atou_loop.simps) (simp add: dec_val_def)
next
  case (Cons c ds)
  have "atou_loop ((a @ [c]) @ ds @ x # rest) (length (a @ [c])) (of_int (v * 10 + (schar c - 48))) =
      Inr (of_int (dec_val (v * 10 + (schar c - 48)) ds))"
    by (rule Cons.IH) (use Cons.prems in auto)
  with Cons.prems show ?case by (subst atou_loop.simps) (simp add: dec_val_def algebra_simps)
qed

text \<open>Writing digits, the last one first.\<close>

lemma to_char_digit: "0 \<le> v \<Longrightarrow> v < 10 \<Longrightarrow> to_char (v + 48) = digit (nat v)"
  by (simp add: to_char_def digit_def nat_add_distrib add.commute)

lemma itoa_loop_digits:
  "length (dec n) \<le> length w \<Longrightarrow>
     itoa_loop (a @ w) (int n) (length a) =
       Inr (a @ rev (dec n) @ drop (length (dec n)) w, length a + length (dec n))"
proof (induction n arbitrary: a w rule: dec.induct)
  case (1 n)
  then obtain x w' where w: "w = x # w'" using dec_not_Nil [of n] by (cases w) auto
  have dig: "to_char (int n smod 10 + 48) = digit (n mod 10)"
  proof -
    have "int n smod 10 = int n mod 10" by (rule smod_mod_positive) simp_all
    then have "int n smod 10 = int (n mod 10)" by (simp only: of_nat_mod of_nat_numeral)
    then show ?thesis using to_char_digit [of "int (n mod 10)"] by simp
  qed
  have d10: "int n sdiv 10 = int (n div 10)" 
    by (cases "n = 0") (simp_all add: signed_divide_int_def of_nat_div)
  show ?case
  proof (cases "n < 10")
    case True
    with w dig show ?thesis by (subst itoa_loop.simps) (simp add: Let_def d10 dec.simps)
  next
    case False
    then have dn: "dec n = dec (n div 10) @ [digit (n mod 10)]" by (simp add: dec.simps [of n])
    have "itoa_loop ((a @ [digit (n mod 10)]) @ w') (int (n div 10)) (length (a @ [digit (n mod 10)])) =
        Inr ((a @ [digit (n mod 10)]) @ rev (dec (n div 10)) @ drop (length (dec (n div 10))) w',
          length (a @ [digit (n mod 10)]) + length (dec (n div 10)))"
      using "1.prems" w by (intro "1.IH" [OF False]) (simp add: dn)
    moreover have "n div 10 > 0" using False by (simp add: div_greater_zero_iff)
    ultimately show ?thesis using w dig dn by (subst itoa_loop.simps) (simp add: Let_def d10)
  qed
qed

lemma utoa_loop_digits:
  "length (dec (unat n)) \<le> length w \<Longrightarrow>
     utoa_loop (a @ w) n (length a) =
       Inr (a @ rev (dec (unat n)) @ drop (length (dec (unat n))) w, length a + length (dec (unat n)))"
proof (induction "unat n" arbitrary: n a w rule: dec.induct)
  case (1 n)
  then obtain x w' where w: "w = x # w'" using dec_not_Nil [of "unat n"] by (cases w) auto
  have um: "unat (n mod 10) = unat n mod 10" and ud: "unat (n div 10) = unat n div 10"
    by (simp_all add: unat_mod unat_div)
  have dig: "to_char (uint (n mod 10) + 48) = digit (unat n mod 10)"
  proof -
    have "uint (n mod 10) = int (unat n mod 10)" using um by (metis uint_nat)
    then show ?thesis by (subst to_char_digit) auto
  qed
  have pos: "n div 10 > 0 \<longleftrightarrow> \<not> unat n < 10"
    unfolding word_less_nat_alt ud by (simp add: div_greater_zero_iff not_less)
  show ?case
  proof (cases "unat n < 10")
    case True
    with w dig pos show ?thesis by (subst utoa_loop.simps) (simp add: Let_def dec.simps)
  next
    case False
    then have dn: "dec (unat n) = dec (unat (n div 10)) @ [digit (unat n mod 10)]"
      by (simp add: dec.simps [of "unat n"] ud)
    have "utoa_loop ((a @ [digit (unat n mod 10)]) @ w') (n div 10) (length (a @ [digit (unat n mod 10)])) =
        Inr ((a @ [digit (unat n mod 10)]) @ rev (dec (unat (n div 10))) @ drop (length (dec (unat (n div 10)))) w',
          length (a @ [digit (unat n mod 10)]) + length (dec (unat (n div 10))))"
      using "1.prems" w by (intro "1.hyps" [OF False]) (simp_all add: dn ud)
    with False w dig dn pos show ?thesis by (subst utoa_loop.simps) (simp add: Let_def)
  qed
qed


lemma dec_no_NUL: "NUL \<notin> set (dec n)"
  using dec_digits [of NUL n] digit_props(2) by metis

lemma dec_isdigit: "\<forall>c \<in> set (dec n). isdigit c"
  using dec_digits [of _ n] digit_props(1) by metis

lemma dec_hd: "\<exists>k ds. k < 10 \<and> dec n = digit k # ds"
  using dec_not_Nil [of n] dec_digits [of _ n] by (cases "dec n") auto

definition int_str :: "int \<Rightarrow> string" where
  "int_str n = (if n < 0 then CHR ''-'' # dec (nat (- n)) else dec (nat n))"

lemma int_str_no_NUL: "NUL \<notin> set (int_str n)"
  by (simp add: int_str_def dec_no_NUL)

lemma itoa_correct:
  assumes "- (2 ^ 31) < n" "n < 2 ^ 31" "length (int_str n) < length s"
  shows "itoa s n = Inr (int_str n @ NUL # drop (Suc (length (int_str n))) s, length (int_str n))"
proof -
  define m where "m = nat (abs n)"
  have m: "(if n < 0 then s32 (n * - 1) else n) = int m" using assms(1,2) by (auto simp: m_def s32_id)
  have len: "length (dec m) \<le> length s" "n < 0 \<Longrightarrow> Suc (length (dec m)) < length s" "length (dec m) < length s"
    using assms(3) by (auto simp: int_str_def m_def split: if_splits)
  have loop: "itoa_loop s (int m) 0 = Inr (rev (dec m) @ drop (length (dec m)) s, length (dec m))"
    using itoa_loop_digits [OF len(1), of "[]"] by simp
  have rev_ok: "reverse (t @ NUL # r) = Inr (rev t @ NUL # r)" if "NUL \<notin> set t" for t r
    using that reverse_correct [of "t @ NUL # r"] by simp
  have pt: "cput (t @ drop (length t) s) (length t) c = Inr ((t @ [c]) @ drop (Suc (length t)) s)"
    if "length t < length s" for t c
    using that cput_append [of t "s ! length t" "drop (Suc (length t)) s" c] by (simp add: Cons_nth_drop_Suc)
  show ?thesis
  proof (cases "n < 0")
    case True
    have 1: "cput (rev (dec m) @ drop (length (dec m)) s) (length (dec m)) (CHR ''-'') =
        Inr ((rev (dec m) @ ''-'') @ drop (Suc (length (dec m))) s)"
      using pt [of "rev (dec m)"] len by simp
    have 2: "cput ((rev (dec m) @ ''-'') @ drop (Suc (length (dec m))) s) (Suc (length (dec m))) NUL =
        Inr ((rev (dec m) @ ''-'') @ NUL # drop (Suc (Suc (length (dec m)))) s)"
      using pt [of "rev (dec m) @ ''-''" NUL] len(2) [OF True] by simp
    show ?thesis
      using True m loop 1 2 rev_ok [of "rev (dec m) @ ''-''"] dec_no_NUL [of m]
      by (simp add: itoa_def int_str_def m_def)
  next
    case False
    have 1: "cput (rev (dec m) @ drop (length (dec m)) s) (length (dec m)) NUL =
        Inr (rev (dec m) @ NUL # drop (Suc (length (dec m))) s)"
      using pt [of "rev (dec m)" NUL] len by simp
    show ?thesis
      using False m loop 1 rev_ok [of "rev (dec m)"] dec_no_NUL [of m]
      by (simp add: itoa_def int_str_def m_def)
  qed
qed

lemma not_digit_NUL: "\<not> isdigit NUL" by (simp add: isdigit_def)

lemma atoi_int_str:
  assumes "- (2 ^ 31) < n" "n < 2 ^ 31"
  shows "atoi (int_str n @ NUL # rest) = Inr n"
proof -
  obtain k ds where k: "k < 10" "dec (nat (abs n)) = digit k # ds" using dec_hd by blast
  have skip: "skip_while isspace (a @ dec (nat (abs n)) @ NUL # rest) (length a) = Inr (length a)" for a
    using skip_while_stop [of "[]" isspace "digit k" a "ds @ NUL # rest"] k digit_props(3) [OF k(1)] by simp
  have loop: "atoi_loop (a @ dec (nat (abs n)) @ NUL # rest) (length a) 0 = Inr (abs n)" for a
    using atoi_loop_digits [OF dec_isdigit not_digit_NUL, of 0 "nat (abs n)" a rest] assms
    by (simp add: dec_val_dec)
  show ?thesis
  proof (cases "n < 0")
    case True
    then have e: "int_str n @ NUL # rest = ''-'' @ dec (nat (abs n)) @ NUL # rest" by (simp add: int_str_def)
    have "skip_while isspace (''-'' @ dec (nat (abs n)) @ NUL # rest) 0 = Inr 0"
      by (subst skip_while.simps) (simp add: cget_def isspace_def)
    moreover have "s32 n = n" using assms by (intro s32_id) auto
    ultimately show ?thesis unfolding e
      using skip [of "''-''"] loop [of "''-''"] True by (simp add: atoi_def cget_def)
  next
    case False
    then have e: "int_str n @ NUL # rest = dec (nat (abs n)) @ NUL # rest" by (simp add: int_str_def)
    have "cget (dec (nat (abs n)) @ NUL # rest) 0 = Inr (digit k)" using k by (simp add: cget_def)
    then show ?thesis unfolding e
      using skip [of "[]"] loop [of "[]"] False digit_props(4) [OF k(1)] by (simp add: atoi_def)
  qed
qed

lemma utoa_correct:
  assumes "length (dec (unat n)) < length s"
  shows "utoa s n = Inr (dec (unat n) @ NUL # drop (Suc (length (dec (unat n)))) s, length (dec (unat n)))"
proof -
  let ?d = "dec (unat n)"
  have "utoa_loop s n 0 = Inr (rev ?d @ drop (length ?d) s, length ?d)"
    using utoa_loop_digits [of n s "[]"] assms by simp
  moreover have "cput (rev ?d @ drop (length ?d) s) (length ?d) NUL = Inr (rev ?d @ NUL # drop (Suc (length ?d)) s)"
    using assms cput_append [of "rev ?d" "s ! length ?d" "drop (Suc (length ?d)) s" NUL] by (simp add: Cons_nth_drop_Suc)
  moreover have "reverse (rev ?d @ NUL # drop (Suc (length ?d)) s) = Inr (?d @ NUL # drop (Suc (length ?d)) s)"
    using reverse_correct [of "rev ?d @ NUL # drop (Suc (length ?d)) s"] dec_no_NUL [of "unat n"] by simp
  ultimately show ?thesis by (simp add: utoa_def)
qed

lemma atou_dec: "atou (dec (unat n) @ NUL # rest) = Inr n"
proof -
  obtain k ds where k: "k < 10" "dec (unat n) = digit k # ds" using dec_hd by blast
  have "skip_while isspace (dec (unat n) @ NUL # rest) 0 = Inr 0"
    using skip_while_stop [of "[]" isspace "digit k" "[]" "ds @ NUL # rest"] k digit_props(3) [OF k(1)] by simp
  with atou_loop_digits [of "dec (unat n)" NUL "[]" rest 0, OF dec_isdigit not_digit_NUL] show ?thesis
    by (simp add: atou_def dec_val_dec)
qed


section \<open>64-bit division\<close>

lemma unat_less_64: "unat (w::u64) < 2 ^ 64"
  using unsigned_less [of w] by simp

lemma grow_shift_spec:
  assumes "0 < unat divisor" "unat shift = unat divisor * 2 ^ k"
  shows "\<exists>shift' k'. grow_shift dividend shift shift = Some shift' \<and> unat shift' = unat divisor * 2 ^ k' \<and>
     unat dividend < 2 * unat shift'"
  using assms
proof (induction "unat dividend - unat shift" arbitrary: shift k rule: less_induct)
  case less
  have pos: "0 < unat shift" using less.prems by simp
  show ?case
  proof (cases "shift < dividend")
    case False
    then have "unat dividend \<le> unat shift" by (simp add: word_less_nat_alt)
    then have "unat dividend < 2 * unat shift" using pos by linarith
    moreover have "grow_shift dividend shift shift = Some shift" using False by (subst grow_shift.simps) simp
    ultimately show ?thesis using less.prems(2) by blast
  next
    case True
    have dbl: "unat (push_bit 1 shift) = 2 * unat shift mod 2 ^ 64"
      by (simp add: push_bit_eq_mult unat_word_ariths mult.commute)
    show ?thesis
    proof (cases "2 * unat shift < 2 ^ 64")
      case fits: True
      then have d2: "unat (push_bit 1 shift) = 2 * unat shift" unfolding dbl by simp
      have gt: "push_bit 1 shift > shift" unfolding word_less_nat_alt d2 using pos by simp
      have "\<exists>shift' k'. grow_shift dividend (push_bit 1 shift) (push_bit 1 shift) = Some shift' \<and>
          unat shift' = unat divisor * 2 ^ k' \<and> unat dividend < 2 * unat shift'"
        by (rule less.hyps [where k = "Suc k"])
          (use less.prems True pos in \<open>auto simp only: d2 word_less_nat_alt power_Suc mult.assoc mult.left_commute\<close>)
      moreover have "grow_shift dividend shift shift = grow_shift dividend (push_bit 1 shift) (push_bit 1 shift)"
        unfolding grow_shift.simps [of dividend shift shift] Let_def using True gt by (simp only: if_True)
      ultimately show ?thesis by simp
    next
      case False
      have lt: "unat shift < 2 ^ 64" by (rule unat_less_64)
      with False have d2: "unat (push_bit 1 shift) = 2 * unat shift - 2 ^ 64"
        unfolding dbl by (simp add: mod_if)
      have gt: "\<not> push_bit 1 shift > shift" unfolding word_less_nat_alt d2 using lt False by simp
      have "grow_shift dividend shift shift = Some shift"
        unfolding grow_shift.simps [of dividend shift shift] Let_def using True gt by (simp only: if_True if_False)
      moreover have "unat dividend < 2 ^ 64" by (rule unat_less_64)
      then have "unat dividend < 2 * unat shift" using False by simp
      ultimately show ?thesis using less.prems(2) by blast
    qed
  qed
qed

lemma long_div_step:
  assumes "divisor \<le> shift" "0 < unat shift" "unat r < 2 * unat shift"
    and "D = unat aux * (2 * unat shift) + unat r" "D < 2 ^ 64"
  obtains aux' r' where "long_div divisor shift aux r = long_div divisor (drop_bit 1 shift) aux' r'"
    "unat r' < unat shift" "D = unat aux' * unat shift + unat r'"
proof -
  have "2 * unat aux * 1 \<le> 2 * unat aux * unat shift" using assms(2) by (intro mult_le_mono2) simp
  also have "\<dots> \<le> D" using assms(4) by simp
  finally have "2 * unat aux < 2 ^ 64" using assms(5) by simp
  then have dbl: "unat (push_bit 1 aux) = 2 * unat aux" by (simp add: push_bit_eq_mult unat_word_ariths mult.commute)
  show ?thesis
  proof (cases "shift \<le> r")
    case True
    then have le: "unat shift \<le> unat r" by (simp add: word_le_nat_alt)
    have "(2 * unat aux + 1) * 1 \<le> (2 * unat aux + 1) * unat shift" using assms(2) by (intro mult_le_mono2) simp
    also have "\<dots> \<le> D" using assms(4) le by (simp add: algebra_simps)
    finally have "unat (push_bit 1 aux + 1) = 2 * unat aux + 1"
      using assms(5) by (simp add: unat_word_ariths dbl)
    moreover have "unat (r - shift) = unat r - unat shift" using True by (rule unat_sub)
    moreover have "long_div divisor shift aux r = long_div divisor (drop_bit 1 shift) (push_bit 1 aux + 1) (r - shift)"
      using assms(1) True by (subst long_div.simps) simp
    ultimately show ?thesis using that [of "push_bit 1 aux + 1" "r - shift"] assms(3,4) le
      by (simp add: algebra_simps)
  next
    case False
    then have "unat r < unat shift" by (simp add: word_le_nat_alt)
    moreover have "long_div divisor shift aux r = long_div divisor (drop_bit 1 shift) (push_bit 1 aux) r"
      using assms(1) False by (subst long_div.simps) simp
    ultimately show ?thesis using that [of "push_bit 1 aux" r] assms(4) dbl by simp
  qed
qed

lemma unat_drop_bit_1: "unat (drop_bit 1 w) = unat (w::u64) div 2"
  by (simp add: drop_bit_eq_div unat_div)

lemmas unat_drop_bit_Suc_0 = unat_drop_bit_1 [simplified]

lemma long_div_spec:
  assumes "0 < unat divisor" "unat shift = unat divisor * 2 ^ k" "unat r < 2 * unat shift"
    and "D = unat aux * (2 * unat shift) + unat r" "D < 2 ^ 64"
  shows "\<exists>q m. long_div divisor shift aux r = Some (q, m) \<and> unat q = D div unat divisor \<and> unat m = D mod unat divisor"
  using assms
proof (induction k arbitrary: shift aux r)
  case (0 shift aux r)
  then have "shift = divisor" by (simp add: word_unat_eq_iff)
  with 0 obtain aux' r' where st: "long_div divisor shift aux r = long_div divisor (drop_bit 1 divisor) aux' r'"
    "unat r' < unat divisor" "D = unat aux' * unat divisor + unat r'"
    using long_div_step [of divisor shift r D aux] by auto
  have "\<not> drop_bit 1 divisor \<ge> divisor" using 0(1) by (simp add: word_le_nat_alt unat_drop_bit_Suc_0)
  then have "long_div divisor (drop_bit 1 divisor) aux' r' = Some (aux', r')" by (subst long_div.simps) simp
  with st show ?case by (auto simp: div_mult_self3)
next
  case (Suc k shift aux r)
  have "divisor \<le> shift" using Suc.prems(1,2) by (simp add: word_le_nat_alt)
  with Suc.prems obtain aux' r' where st: "long_div divisor shift aux r = long_div divisor (drop_bit 1 shift) aux' r'"
    "unat r' < unat shift" "D = unat aux' * unat shift + unat r'"
    using long_div_step [of divisor shift r D aux] by auto
  have half: "unat (drop_bit 1 shift) = unat divisor * 2 ^ k" "2 * unat (drop_bit 1 shift) = unat shift"
    using Suc.prems(2) by (simp_all add: unat_drop_bit_Suc_0)
  have "\<exists>q m. long_div divisor (drop_bit 1 shift) aux' r' = Some (q, m) \<and>
      unat q = D div unat divisor \<and> unat m = D mod unat divisor"
    by (rule Suc.IH) (use Suc.prems st half in auto)
  with st(1) show ?case by simp
qed

lemma div64_correct:
  assumes "divisor \<noteq> 0"
  shows "uint64_div64 dividend divisor = Some (dividend div divisor) \<and>
     uint64_mod64 dividend divisor = Some (dividend mod divisor)"
proof -
  have pos: "0 < unat divisor" using assms by (simp add: unat_gt_0)
  have "unat divisor = unat divisor * 2 ^ 0" by simp
  from grow_shift_spec [OF pos this, of dividend] obtain shift k where
    g: "grow_shift dividend divisor divisor = Some shift"
      "unat shift = unat divisor * 2 ^ k" "unat dividend < 2 * unat shift" by blast
  have "unat dividend < 2 ^ 64" by (rule unat_less_64)
  with long_div_spec [OF pos g(2,3), of "unat dividend" 0] obtain q m where
    "long_div divisor shift 0 dividend = Some (q, m)" "unat q = unat dividend div unat divisor"
    "unat m = unat dividend mod unat divisor" by auto
  with g show ?thesis
    by (simp add: uint64_div64_def uint64_mod64_def word_unat_eq_iff unat_div unat_mod)
qed

text \<open>With divisor zero the second loop never ends.\<close>

lemma long_div_returns_nonzero: "long_div divisor shift aux r = Some y \<Longrightarrow> divisor \<noteq> 0"
proof -
  assume "long_div divisor shift aux r = Some y"
  then have "(\<lambda>x y. fst x \<noteq> 0) (divisor, shift, aux, r) y"
    by (rule long_div.raw_induct [rotated]) (auto split: if_splits)
  then show ?thesis by simp
qed

lemma div64_zero: "uint64_div64 dividend 0 = None"
proof (cases "grow_shift dividend 0 0")
  case (Some shift)
  have "long_div 0 shift 0 dividend = None"
    using long_div_returns_nonzero [of 0 shift 0 dividend] by (cases "long_div 0 shift 0 dividend") auto
  with Some show ?thesis by (simp add: uint64_div64_def)
qed (simp add: uint64_div64_def)

section \<open>Properties\<close>

text \<open>
  Printing and reading numbers are inverse: for every \<open>int\<close> but the smallest, \<open>itoa\<close> writes the
  decimal notation, terminated and without touching the rest of the buffer, returns its length, and
  \<open>atoi\<close> reads the number back; the same for \<open>utoa\<close> and \<open>atou\<close> and every \<open>unsigned int\<close>.
\<close>

theorem itoa_atoi_roundtrip:
  assumes "- (2 ^ 31) < n" "n < 2 ^ 31" "length (int_str n) < length s" "length (dec (unat u)) < length s"
  shows "(\<exists>s'. itoa s n = Inr (s', length (int_str n)) \<and> cstr s' = int_str n \<and> length s' = length s \<and> atoi s' = Inr n) \<and>
     (\<exists>s'. utoa s u = Inr (s', length (dec (unat u))) \<and> cstr s' = dec (unat u) \<and> length s' = length s \<and> atou s' = Inr u)"
  using itoa_correct [OF assms(1-3)] atoi_int_str [OF assms(1,2)] utoa_correct [OF assms(4)] atou_dec [of u]
    int_str_no_NUL [of n] dec_no_NUL [of "unat u"] assms(3,4)
  by auto

theorem itoa_atoi_roundtrip_witness:
  "\<exists>s'. itoa (replicate 12 NUL) (- 42) = Inr (s', 3) \<and> cstr s' = ''-42'' \<and> atoi s' = Inr (- 42)"
proof -
  have d: "int_str (- 42) = ''-42''" 
    by (simp add: int_str_def dec.simps digit_def char_of_eq_iff take_bit_eq_mod)
  have "length (dec (unat (7 :: u32))) < 12" by (simp add: dec.simps)
  with itoa_atoi_roundtrip [of "- 42" "replicate 12 NUL" 7] d show ?thesis by auto
qed

text \<open>
  The 64-bit division and remainder by shifts terminate and are exact for every non-zero divisor;
  for divisor zero the division does not terminate.
\<close>

theorem uint64_div64_correct:
  "(divisor \<noteq> 0 \<longrightarrow> uint64_div64 dividend divisor = Some (dividend div divisor) \<and>
     uint64_mod64 dividend divisor = Some (dividend mod divisor)) \<and>
   uint64_div64 dividend 0 = None"
  using div64_correct div64_zero by blast

theorem uint64_div64_correct_witness: "uint64_div64 1000000 7 = Some 142857 \<and> uint64_mod64 1000000 7 = Some 1"
  using uint64_div64_correct [of 7 1000000] by simp

end
