(* ===== verification/Malloc.thy ===== *)
theory Malloc
  imports Kernel_Prelude
begin

text \<open>
  \<open>src/system/malloc/malloc.c\<close>: the heap allocator of the kernel and of the processes. Memory is a function
  from addresses to bytes, and every field of the allocator is at its place in it: the headers, footers and
  list pointers of the chunks, and the context with the heads of the 89 bins. A pointer is an address, with
  \<open>0\<close> for \<open>NULL\<close>. A failed assertion is \<open>Inl AssertFail\<close>; the loops along the list pointers need not end,
  and when one does not, the operation is \<open>Inl Hang\<close>. \<open>ext\<close> is the function \<open>external_alloc\<close> points to.
\<close>

unbundle bit_operations_syntax

section \<open>Definitions\<close>

type_synonym memory = "nat \<Rightarrow> u8"

record heap =
  hmem :: memory
  hcontext :: nat

text \<open>The 32-bit values, stored with the lowest byte first.\<close>

definition load32 :: "memory \<Rightarrow> nat \<Rightarrow> nat" where
  "load32 m a = unat (m a) + 256 * (unat (m (a + 1)) + 256 * (unat (m (a + 2)) + 256 * unat (m (a + 3))))"

definition store32 :: "nat \<Rightarrow> nat \<Rightarrow> memory \<Rightarrow> memory" where
  "store32 a v m = m(a := of_nat v, a + 1 := of_nat (v div 256), a + 2 := of_nat (v div 65536), a + 3 := of_nat (v div 16777216))"

definition sub32 :: "nat \<Rightarrow> nat \<Rightarrow> nat" where
  "sub32 a b = nat ((int a - int b) mod 2 ^ 32)"

definition add32 :: "nat \<Rightarrow> nat \<Rightarrow> nat" where
  "add32 a b = (a + b) mod 2 ^ 32"

text \<open>The fields of a chunk: status and size share the first word; the footer is its last word.\<close>

definition h_status :: "memory \<Rightarrow> nat \<Rightarrow> nat" where "h_status m h = load32 m h mod 2"
definition h_size :: "memory \<Rightarrow> nat \<Rightarrow> nat" where "h_size m h = load32 m h div 2"
definition h_next :: "memory \<Rightarrow> nat \<Rightarrow> nat" where "h_next m h = load32 m (h + 4)"
definition h_prev :: "memory \<Rightarrow> nat \<Rightarrow> nat" where "h_prev m h = load32 m (h + 8)"

definition set_status :: "nat \<Rightarrow> nat \<Rightarrow> memory \<Rightarrow> memory" where
  "set_status h v m = store32 h (2 * h_size m h + v mod 2) m"
definition set_size :: "nat \<Rightarrow> nat \<Rightarrow> memory \<Rightarrow> memory" where
  "set_size h v m = store32 h (2 * (v mod 2 ^ 31) + h_status m h) m"
definition set_next :: "nat \<Rightarrow> nat \<Rightarrow> memory \<Rightarrow> memory" where "set_next h v = store32 (h + 4) v"
definition set_prev :: "nat \<Rightarrow> nat \<Rightarrow> memory \<Rightarrow> memory" where "set_prev h v = store32 (h + 8) v"

definition upd_mem :: "(memory \<Rightarrow> memory) \<Rightarrow> 'z heap_scheme \<Rightarrow> 'z heap_scheme" where
  "upd_mem f h = h\<lparr>hmem := f (hmem h)\<rparr>"

definition FREE_STATUS :: nat where "FREE_STATUS = 0"
definition INUSE_STATUS :: nat where "INUSE_STATUS = 1"
definition MIN_FREE_CHUNK_SIZE :: nat where "MIN_FREE_CHUNK_SIZE = 16"
definition MIN_INUSE_CHUNK_SIZE :: nat where "MIN_INUSE_CHUNK_SIZE = 8"
definition MAX_SMALL_REQUEST :: nat where "MAX_SMALL_REQUEST = 256"

definition bin_sizes :: "nat list" where
  "bin_sizes =
    [8, 16, 24, 32, 40, 48, 56, 64, 72, 80,
     88, 96, 104, 112, 120, 128, 136, 144, 152, 160,
     168, 176, 184, 192, 200, 208, 216, 224, 232, 240,
     248, 256, 264, 272, 280, 288, 296, 304, 312, 320,
     328, 336, 344, 352, 360, 368, 376, 384, 392, 400,
     408, 416, 424, 432, 440, 448, 456, 464, 472, 480,
     488, 496, 504, 512, 576, 640, 768, 1024, 2048, 4096,
     0x2000, 0x4000, 0x8000, 0x10000, 0x20000, 0x40000,
     0x80000, 0x100000, 0x200000, 0x400000, 0x800000, 0x1000000,
     0x2000000, 0x4000000, 0x8000000, 0x10000000, 0x20000000, 0x40000000,
     0x80000000]"

definition BIN_NUMBER :: nat where "BIN_NUMBER = 89"

text \<open>The fields of the context: \<open>free_memory\<close>, \<open>last_chunk_size\<close>, \<open>external_alloc\<close>, \<open>last_chunk\<close>, \<open>bins\<close>.\<close>

definition CONTEXT_SIZE :: nat where "CONTEXT_SIZE = 16 + 12 * BIN_NUMBER"
definition free_memory_at :: "nat \<Rightarrow> nat" where "free_memory_at c = c"
definition last_chunk_size_at :: "nat \<Rightarrow> nat" where "last_chunk_size_at c = c + 4"
definition external_alloc_at :: "nat \<Rightarrow> nat" where "external_alloc_at c = c + 8"
definition last_chunk_at :: "nat \<Rightarrow> nat" where "last_chunk_at c = c + 12"
definition bin_at :: "nat \<Rightarrow> nat \<Rightarrow> nat" where "bin_at c i = c + 16 + 12 * i"

definition hload :: "(nat \<Rightarrow> nat) \<Rightarrow> 'z heap_scheme \<Rightarrow> nat" where
  "hload f h = load32 (hmem h) (f (hcontext h))"

definition hstore :: "(nat \<Rightarrow> nat) \<Rightarrow> nat \<Rightarrow> 'z heap_scheme \<Rightarrow> 'z heap_scheme" where
  "hstore f v h = upd_mem (store32 (f (hcontext h)) v) h"

text \<open>The binary search; \<open>min_bin < max_bin\<close> throughout.\<close>

function bin_search :: "nat \<Rightarrow> nat \<Rightarrow> nat \<Rightarrow> nat" where
  "bin_search sz min_bin max_bin =
     (if min_bin + 1 < max_bin
      then (let curr_bin = (min_bin + max_bin) div 2
            in if bin_sizes ! curr_bin \<le> sz then bin_search sz curr_bin max_bin
               else bin_search sz min_bin curr_bin)
      else min_bin)"
  by pat_completeness auto
termination by (relation "measure (\<lambda>(sz, lo, hi). hi - lo)") (auto simp: Let_def)

declare bin_search.simps [simp del]

definition find_bin :: "nat \<Rightarrow> 'z heap_scheme \<Rightarrow> nat result" where
  "find_bin sz h =
     (if sz < bin_sizes ! (BIN_NUMBER - 1) then Inr (bin_search sz 0 BIN_NUMBER) else Inl AssertFail)"

partial_function (option) scan_bin :: "(nat \<Rightarrow> bool) \<Rightarrow> memory \<Rightarrow> nat \<Rightarrow> nat \<Rightarrow> nat option" where
  "scan_bin small m bin chunk =
     (if h_next m chunk \<noteq> bin \<and> small (h_size m (h_next m chunk)) then scan_bin small m bin (h_next m chunk)
      else Some (h_next m chunk))"

definition or_hang :: "'a option \<Rightarrow> 'a result" where
  "or_hang x = (case x of None \<Rightarrow> Inl Hang | Some y \<Rightarrow> Inr y)"

definition find_chunk :: "nat \<Rightarrow> nat \<Rightarrow> 'z heap_scheme \<Rightarrow> nat result" where
  "find_chunk bin sz h = or_hang (scan_bin (\<lambda>s. s < sz) (hmem h) bin bin)"

definition find_upper_chunk :: "nat \<Rightarrow> nat \<Rightarrow> 'z heap_scheme \<Rightarrow> nat result" where
  "find_upper_chunk bin sz h = or_hang (scan_bin (\<lambda>s. s \<le> sz) (hmem h) bin bin)"

definition insert_before :: "nat \<Rightarrow> nat \<Rightarrow> memory \<Rightarrow> memory" where
  "insert_before header nx m =
     (let m1 = set_next header nx m;
          m2 = set_prev header (h_prev m1 (h_next m1 header)) m1;
          m3 = set_prev (h_next m2 header) header m2
      in set_next (h_prev m3 header) header m3)"

definition add_free_chunk :: "nat \<Rightarrow> nat \<Rightarrow> 'z heap_scheme \<Rightarrow> 'z heap_scheme result" where
  "add_free_chunk memory sz h =
     (if sz \<ge> MIN_FREE_CHUNK_SIZE
      then (let h1 = upd_mem (set_size memory sz) (upd_mem (set_status memory FREE_STATUS) h)
            in rbind (find_bin sz h1) (\<lambda>i.
               rbind (find_upper_chunk (bin_at (hcontext h1) i) sz h1) (\<lambda>nx.
                 Inr (upd_mem (store32 (memory + sz - 4) sz) (upd_mem (insert_before memory nx) h1)))))
      else Inl AssertFail)"

text \<open>The two assignments that take a chunk out of its list.\<close>

definition unlink :: "nat \<Rightarrow> memory \<Rightarrow> memory" where
  "unlink c m =
     (let m1 = set_next (h_prev m c) (h_next m c) m
      in set_prev (h_next m1 c) (h_prev m1 c) m1)"

definition split_chunk :: "nat \<Rightarrow> nat \<Rightarrow> 'z heap_scheme \<Rightarrow> (nat \<times> 'z heap_scheme) result" where
  "split_chunk header size0 h =
     (let left0 = sub32 (h_size (hmem h) header) size0;
          small = left0 < MIN_FREE_CHUNK_SIZE;
          sz = (if small then size0 + left0 else size0);
          left_size = (if small then 0 else left0)
      in rbind (if small then Inr h
                else (let h1 = hstore last_chunk_at (header + sz) h
                      in add_free_chunk (hload last_chunk_at h1) left_size h1)) (\<lambda>h2.
         let h3 = upd_mem (\<lambda>m. store32 (header + sz - 4) sz
                    (set_prev header 0 (set_next header 0 (set_size header sz (set_status header INUSE_STATUS m))))) h2;
             h4 = hstore free_memory_at (sub32 (hload free_memory_at h3) sz) h3
         in Inr (header + 4, hstore last_chunk_size_at left_size h4)))"

definition put_bound :: "nat \<Rightarrow> memory \<Rightarrow> memory" where
  "put_bound b m = store32 (b + 4) 8 (set_size b 8 (set_status b INUSE_STATUS m))"

definition add_malloc_buffer :: "nat \<Rightarrow> nat \<Rightarrow> 'z heap_scheme \<Rightarrow> 'z heap_scheme result" where
  "add_malloc_buffer memory sz h =
     (if sz < 2 * 8 + MIN_FREE_CHUNK_SIZE then Inr h
      else (let h1 = upd_mem (put_bound memory) h;
                h2 = upd_mem (put_bound (memory + sz - 8)) h1;
                sz' = sz - 2 * 8
            in rbind (add_free_chunk (memory + 8) sz' h2) (\<lambda>h3.
                 Inr (hstore free_memory_at (add32 (hload free_memory_at h3) sz') h3))))"

text \<open>The loop of \<open>init_malloc\<close> over the bins; the status bit of a bin is what the memory had.\<close>

fun init_bins :: "nat \<Rightarrow> nat list \<Rightarrow> memory \<Rightarrow> memory" where
  "init_bins c [] m = m"
| "init_bins c (i # is) m =
     init_bins c is (set_prev (bin_at c i) (bin_at c i) (set_next (bin_at c i) (bin_at c i) (set_size (bin_at c i) 12 m)))"

definition init_malloc :: "nat \<Rightarrow> nat \<Rightarrow> 'z heap_scheme \<Rightarrow> 'z heap_scheme result" where
  "init_malloc memory sz h =
     (if sz \<ge> CONTEXT_SIZE
      then (let h1 = hstore external_alloc_at 0 (hstore last_chunk_size_at 0 (hstore free_memory_at 0 (h\<lparr>hcontext := memory\<rparr>)));
                h2 = upd_mem (init_bins memory [0..<BIN_NUMBER]) h1
            in add_malloc_buffer (memory + CONTEXT_SIZE) (sz - CONTEXT_SIZE) h2)
      else Inl AssertFail)"

text \<open>The first bin from \<open>i\<close> on that is not empty. The test of bin \<open>i\<close> comes before that of its number.\<close>

function nonempty_bin :: "nat \<Rightarrow> 'z heap_scheme \<Rightarrow> nat option" where
  "nonempty_bin i h =
     (if h_next (hmem h) (bin_at (hcontext h) i) = bin_at (hcontext h) i
      then if Suc i \<ge> BIN_NUMBER then None else nonempty_bin (Suc i) h
      else Some i)"
  by pat_completeness auto
termination by (relation "measure (\<lambda>(i, h). BIN_NUMBER - i)") auto

declare nonempty_bin.simps [simp del]

text \<open>The search for a chunk; \<open>None\<close> stands for a call of \<open>out_of_memory\<close>.\<close>

definition choose_chunk :: "nat \<Rightarrow> 'z heap_scheme \<Rightarrow> nat option result" where
  "choose_chunk sz h =
     rbind (find_bin sz h) (\<lambda>i0.
       case nonempty_bin i0 h of
         None \<Rightarrow> Inr None
       | Some i \<Rightarrow>
           (let bin = bin_at (hcontext h) i
            in rbind (find_chunk bin sz h) (\<lambda>chunk.
                 if chunk \<noteq> bin then Inr (Some chunk)
                 else (case nonempty_bin (Suc i) h of
                         None \<Rightarrow> Inr None
                       | Some j \<Rightarrow> Inr (Some (h_next (hmem h) (bin_at (hcontext h) j)))))))"

definition take_chunk :: "nat \<Rightarrow> nat \<Rightarrow> 'z heap_scheme \<Rightarrow> (nat \<times> 'z heap_scheme) result" where
  "take_chunk sz chunk0 h =
     (let chunk = (if sz < h_size (hmem h) chunk0 \<and> sz \<le> hload last_chunk_size_at h \<and> sz \<le> MAX_SMALL_REQUEST
                   then hload last_chunk_at h else chunk0)
      in split_chunk chunk sz (upd_mem (unlink chunk) h))"

definition request_size :: "nat \<Rightarrow> nat" where
  "request_size n = (let sz = add32 n MIN_INUSE_CHUNK_SIZE
                     in if sz < MIN_FREE_CHUNK_SIZE then MIN_FREE_CHUNK_SIZE else sz)"

text \<open>
  \<open>malloc\<close> and \<open>out_of_memory\<close> call each other: \<open>oom_buffer\<close> is the part of \<open>out_of_memory\<close> before it does,
  which gives the state with the new buffer, or \<open>None\<close> when no memory can be had.
\<close>

definition oom_buffer :: "(nat \<Rightarrow> 'z heap_scheme \<Rightarrow> nat \<times> nat \<times> 'z heap_scheme) \<Rightarrow> nat \<Rightarrow>
    'z heap_scheme \<Rightarrow> (bool \<times> 'z heap_scheme) result" where
  "oom_buffer ext sz h =
     (if hload external_alloc_at h = 0 then Inr (False, h)
      else (let total_size = add32 sz (2 * MIN_INUSE_CHUNK_SIZE)
            in case ext total_size h of
                 (new_memory, new_size, h1) \<Rightarrow>
                   if new_memory = 0 \<or> new_size < total_size then Inr (False, h1)
                   else rbind (add_malloc_buffer new_memory new_size h1) (\<lambda>h2. Inr (True, h2))))"

partial_function (option) malloc :: "(nat \<Rightarrow> 'z heap_scheme \<Rightarrow> nat \<times> nat \<times> 'z heap_scheme) \<Rightarrow> nat \<Rightarrow>
    'z heap_scheme \<Rightarrow> (nat \<times> 'z heap_scheme) result option" where
  "malloc ext n h =
     (let sz = request_size n
      in case (if sz > hload free_memory_at h then Inr None else choose_chunk sz h) of
           Inl e \<Rightarrow> Some (Inl e)
         | Inr (Some chunk) \<Rightarrow> Some (take_chunk sz chunk h)
         | Inr None \<Rightarrow>
             (case oom_buffer ext sz h of
                Inl e \<Rightarrow> Some (Inl e)
              | Inr (got, h1) \<Rightarrow>
                  if got then malloc ext (sub32 sz MIN_INUSE_CHUNK_SIZE) h1 else Some (Inr (0, h1))))"

definition mem_set :: "nat \<Rightarrow> u8 \<Rightarrow> nat \<Rightarrow> memory \<Rightarrow> memory" where
  "mem_set a v n m = fold (\<lambda>i m. m(a + i := v)) [0..<n] m"

definition mem_copy :: "nat \<Rightarrow> nat \<Rightarrow> nat \<Rightarrow> memory \<Rightarrow> memory" where
  "mem_copy d s n m = fold (\<lambda>i m. m(d + i := m (s + i))) [0..<n] m"

definition calloc :: "(nat \<Rightarrow> 'z heap_scheme \<Rightarrow> nat \<times> nat \<times> 'z heap_scheme) \<Rightarrow> nat \<Rightarrow> nat \<Rightarrow>
    'z heap_scheme \<Rightarrow> (nat \<times> 'z heap_scheme) result option" where
  "calloc ext count sz h =
     (let total_size = (count * sz) mod 2 ^ 32
      in map_option (\<lambda>r. rbind r (\<lambda>(memory, h1).
           Inr (memory, if memory \<noteq> 0 then upd_mem (mem_set memory 0 total_size) h1 else h1))) (malloc ext total_size h))"

definition join_previous :: "nat \<Rightarrow> nat \<Rightarrow> 'z heap_scheme \<Rightarrow> (nat \<times> nat \<times> 'z heap_scheme) result" where
  "join_previous header sz h =
     (let m = hmem h; fsize = load32 m (header - 4); c = header - fsize
      in if h_status m c = FREE_STATUS
         then if h_size m c = fsize
              then (let h1 = upd_mem (unlink c) h in Inr (c, sz + h_size (hmem h1) c, h1))
              else Inl AssertFail
         else Inr (header, sz, h))"

definition join_next :: "nat \<Rightarrow> nat \<Rightarrow> 'z heap_scheme \<Rightarrow> (nat \<times> 'z heap_scheme) result" where
  "join_next c sz h =
     (let m = hmem h
      in if h_status m c = FREE_STATUS
         then if h_size m c = load32 m (c - 4 + h_size m c)
              then (let h1 = upd_mem (unlink c) h
                    in Inr (sz + h_size (hmem h1) c,
                         if hload last_chunk_at h1 = c then hstore last_chunk_size_at 0 h1 else h1))
              else Inl AssertFail
         else Inr (sz, h))"

definition free :: "nat \<Rightarrow> 'z heap_scheme \<Rightarrow> 'z heap_scheme result" where
  "free memory h =
     (if memory = 0 then Inr h
      else (let header = memory - 4; m = hmem h; sz = h_size m header
            in if \<not> (header + sz \<le> hcontext h \<or> header \<ge> hcontext h + CONTEXT_SIZE) then Inl AssertFail
               else if h_status m header \<noteq> INUSE_STATUS then Inl AssertFail
               else if sz \<noteq> load32 m (header + sz - 4) then Inl AssertFail
               else (let h1 = hstore free_memory_at (add32 (hload free_memory_at h) sz) h
                     in rbind (join_previous header sz h1) (\<lambda>(header', sz', h2).
                        rbind (join_next (header + sz) sz' h2) (\<lambda>(sz'', h3).
                          add_free_chunk header' sz'' h3)))))"

definition shrink :: "nat \<Rightarrow> nat \<Rightarrow> 'z heap_scheme \<Rightarrow> 'z heap_scheme result" where
  "shrink header sz h =
     (let hs = h_size (hmem h) header; left_size = hs - sz
      in if left_size < MIN_FREE_CHUNK_SIZE then Inr h
         else (let h1 = upd_mem (\<lambda>m.
                    let m1 = set_size header sz m;
                        m2 = set_size (header + sz) left_size (set_status (header + sz) INUSE_STATUS m1);
                        m3 = store32 (header + hs - 4) left_size m2
                    in store32 (header + sz - 4) sz m3) h
               in free (header + sz + 4) h1))"

definition absorb_next :: "nat \<Rightarrow> nat \<Rightarrow> 'z heap_scheme \<Rightarrow> 'z heap_scheme" where
  "absorb_next header nxt h =
     (let hs = h_size (hmem h) header; ns = h_size (hmem h) nxt;
          h1 = upd_mem (\<lambda>m.
                 let m1 = set_size header (hs + ns) m;
                     m2 = store32 (header + hs - 4 + ns) (h_size m1 header) m1;
                     m3 = set_prev (h_next m2 nxt) (h_prev m2 nxt) m2;
                     m4 = set_next (h_prev m3 nxt) (h_next m3 nxt) m3
                 in set_prev nxt 0 (set_next nxt 0 m4)) h;
          h2 = hstore free_memory_at (sub32 (hload free_memory_at h1) (h_size (hmem h1) nxt)) h1
      in hstore last_chunk_size_at 0 h2)"

definition realloc :: "(nat \<Rightarrow> 'z heap_scheme \<Rightarrow> nat \<times> nat \<times> 'z heap_scheme) \<Rightarrow> nat \<Rightarrow> nat \<Rightarrow>
    'z heap_scheme \<Rightarrow> (nat \<times> 'z heap_scheme) result option" where
  "realloc ext memory n h =
     (if memory = 0 then malloc ext n h
      else (let header = memory - 4; m = hmem h; hs = h_size m header; sz = add32 n MIN_INUSE_CHUNK_SIZE; nxt = header + hs
            in if h_status m header \<noteq> INUSE_STATUS then Some (Inl AssertFail)
               else if hs \<noteq> load32 m (header + hs - 4) then Some (Inl AssertFail)
               else if sz \<le> hs then Some (rbind (shrink header sz h) (\<lambda>h1. Inr (memory, h1)))
               else if h_status m nxt = FREE_STATUS \<and> add32 (h_size m nxt) hs < sz
               then Some (Inr (memory, absorb_next header nxt h))
               else (let sz' = sub32 sz MIN_INUSE_CHUNK_SIZE
                     in Option.bind (malloc ext sz' h) (\<lambda>r.
                          Some (rbind r (\<lambda>(new_memory, h1).
                            if new_memory \<noteq> 0
                            then rbind (free memory (upd_mem (mem_copy new_memory memory sz') h1)) (\<lambda>h2. Inr (new_memory, h2))
                            else Inr (new_memory, h1)))))))"

text \<open>The walk of \<open>check_malloc\<close> along one bin: the amount of memory left to account for, or the first error.\<close>

partial_function (option) check_blocks :: "memory \<Rightarrow> nat \<Rightarrow> nat \<Rightarrow> nat \<Rightarrow> nat \<Rightarrow> (nat + nat) option" where
  "check_blocks m bin lst block left =
     (if block = bin then Some (Inr left)
      else if h_status m block \<noteq> FREE_STATUS \<or> h_prev m block \<noteq> lst then Some (Inl block)
      else if h_size m block \<noteq> load32 m (block + h_size m block - 4) then Some (Inl (block + h_size m block - 4))
      else check_blocks m bin block (h_next m block) (sub32 left (h_size m block)))"

fun check_bins :: "nat list \<Rightarrow> nat \<Rightarrow> 'z heap_scheme \<Rightarrow> nat result" where
  "check_bins [] left h = Inr (if left \<noteq> 0 then hcontext h else 0)"
| "check_bins (i # is) left h =
     (let bin = bin_at (hcontext h) i; m = hmem h
      in if h_status m bin \<noteq> FREE_STATUS \<or> h_size m bin \<noteq> 12 then Inr bin
         else rbind (or_hang (check_blocks m bin bin (h_next m bin) left)) (\<lambda>r.
           case r of Inl err \<Rightarrow> Inr err | Inr left' \<Rightarrow> check_bins is left' h))"

definition check_malloc :: "'z heap_scheme \<Rightarrow> nat result" where
  "check_malloc h = check_bins [0..<BIN_NUMBER] (hload free_memory_at h) h"

definition get_malloc_context :: "'z heap_scheme \<Rightarrow> nat" where
  "get_malloc_context h = hcontext h"

definition set_malloc_context :: "nat \<Rightarrow> 'z heap_scheme \<Rightarrow> 'z heap_scheme" where
  "set_malloc_context c h = h\<lparr>hcontext := c\<rparr>"

definition set_external_alloc :: "nat \<Rightarrow> 'z heap_scheme \<Rightarrow> 'z heap_scheme" where
  "set_external_alloc f h = hstore external_alloc_at f h"

end
