(* ===== verification/Malloc_Heap.thy ===== *)
theory Malloc_Heap
  imports Malloc
begin

text \<open>
  The layout invariant of the heap (\<open>core\<close>): the address space as a list of adjoining pieces, with the tags of each
  piece in memory, and the bins as rings of the free chunks of their sizes. The lemmas show what taking a chunk out of
  its bin, putting one into a bin, tagging a chunk and writing the scalar fields of the context do to it.
\<close>

section \<open>Memory\<close>

lemma load32_bound: "load32 m a < 2 ^ 32"
proof -
  have b: "unat (m x) \<le> 255" for x proof -
    have "unat (m x) < 2 ^ LENGTH(8)" by (rule unsigned_less)
    then show ?thesis by simp
  qed
  show ?thesis using b [of a] b [of "a + 1"] b [of "a + 2"] b [of "a + 3"] unfolding load32_def by simp
qed

lemma bytes_of_word: "(v::nat) < 2 ^ 32 \<Longrightarrow> v mod 256 + 256 * (v div 256 mod 256 + 256 * (v div 65536 mod 256 + 256 * (v div 16777216 mod 256))) = v"
proof -
  assume v: "v < 2 ^ 32"
  have "v div 65536 = v div 256 div 256" "v div 16777216 = v div 256 div 256 div 256" by (simp_all add: div_mult2_eq [symmetric])
  moreover have "v div 256 div 256 div 256 < 256" using v by (simp add: div_mult2_eq [symmetric])
  ultimately show ?thesis by (metis mod_less mod_mult_div_eq add.commute mult.commute div_mult_mod_eq)
qed

lemma load_store_same [simp]: "v < 2 ^ 32 \<Longrightarrow> load32 (store32 a v m) a = v"
proof -
  have n: "a \<noteq> a + 1" "a \<noteq> a + 2" "a \<noteq> a + 3" "a + 1 \<noteq> a + 2" "a + 1 \<noteq> a + 3" "a + 2 \<noteq> a + 3" by simp_all
  assume "v < 2 ^ 32"
  then show ?thesis using bytes_of_word [of v] n
    unfolding load32_def store32_def by (simp only: fun_upd_apply if_False if_True simp_thms unat_of_nat) (simp add: take_bit_eq_mod)
qed

lemma store32_apply: "x < a \<or> a + 4 \<le> x \<Longrightarrow> store32 a v m x = m x"
proof -
  assume "x < a \<or> a + 4 \<le> x"
  then have "x \<noteq> a" "x \<noteq> a + 1" "x \<noteq> a + 2" "x \<noteq> a + 3" by linarith+
  then show ?thesis by (simp add: store32_def)
qed

lemma load32_cong: "(\<And>i. i < 4 \<Longrightarrow> m (a + i) = m' (a + i)) \<Longrightarrow> load32 m a = load32 m' a"
proof -
  assume e: "\<And>i. i < 4 \<Longrightarrow> m (a + i) = m' (a + i)"
  have "m a = m' a" "m (a + 1) = m' (a + 1)" "m (a + 2) = m' (a + 2)" "m (a + 3) = m' (a + 3)"
    using e [of 0] e [of 1] e [of 2] e [of 3] by simp_all
  then show ?thesis by (simp only: load32_def)
qed

lemma load_store_other: "a + 4 \<le> b \<or> b + 4 \<le> a \<Longrightarrow> load32 (store32 a v m) b = load32 m b"
  by (intro load32_cong store32_apply) auto

lemma sub32_eq: "b \<le> a \<Longrightarrow> a < 2 ^ 32 \<Longrightarrow> sub32 a b = a - b"
proof -
  assume *: "b \<le> a" "a < 2 ^ 32"
  then have "(int a - int b) mod 2 ^ 32 = int a - int b" by (intro mod_pos_pos_trivial) auto
  with * show ?thesis unfolding sub32_def by linarith
qed

section \<open>Linked lists\<close>

text \<open>\<open>links nx pv p xs q\<close>: from the node \<open>p\<close> the list goes through the nodes \<open>xs\<close> to the node \<open>q\<close>, and back.\<close>

primrec links :: "(nat \<Rightarrow> nat) \<Rightarrow> (nat \<Rightarrow> nat) \<Rightarrow> nat \<Rightarrow> nat list \<Rightarrow> nat \<Rightarrow> bool" where
  "links nx pv p [] q \<longleftrightarrow> nx p = q \<and> pv q = p"
| "links nx pv p (x # xs) q \<longleftrightarrow> nx p = x \<and> pv x = p \<and> links nx pv x xs q"

lemma links_append: "links nx pv p (as @ x # bs) q \<longleftrightarrow> links nx pv p as x \<and> links nx pv x bs q"
  by (induction as arbitrary: p) auto

lemma links_cong:
  assumes "\<And>x. x \<in> insert p (set xs) \<Longrightarrow> nx x = nx' x" "\<And>x. x \<in> insert q (set xs) \<Longrightarrow> pv x = pv' x"
  shows "links nx pv p xs q = links nx' pv' p xs q"
  using assms by (induction xs arbitrary: p) auto

lemma links_first: "links nx pv p xs q \<Longrightarrow> nx p = (case xs of [] \<Rightarrow> q | x # _ \<Rightarrow> x)"
  by (cases xs) auto

lemma links_last: "links nx pv p xs q \<Longrightarrow> pv q = last (p # xs)"
  by (induction xs arbitrary: p) auto

lemma links_upd_next: "x \<notin> insert p (set xs) \<Longrightarrow> links (nx(x := y)) pv p xs q = links nx pv p xs q"
  by (rule links_cong) auto

lemma links_upd_prev: "x \<notin> insert q (set xs) \<Longrightarrow> links nx (pv(x := y)) p xs q = links nx pv p xs q"
  by (rule links_cong) auto

text \<open>Replacing the end of a segment.\<close>

lemma links_retarget:
  assumes "links nx pv p xs q" "distinct (p # xs)" "q' \<notin> set xs"
  shows "links (nx(last (p # xs) := q')) (pv(q' := last (p # xs))) p xs q'"
  using assms
proof (induction xs arbitrary: p)
  case (Cons x xs)
  have "last (p # x # xs) = last (x # xs)" by simp
  moreover have "last (x # xs) \<noteq> p" using Cons.prems(2) by (metis distinct.simps(2) last_in_set list.discI)
  ultimately show ?case using Cons by auto
qed simp

lemma links_resource:
  assumes "links nx pv p xs q" "distinct (xs @ [q])" "p' \<notin> set xs"
  shows "links (nx(p' := hd (xs @ [q]))) (pv(hd (xs @ [q]) := p')) p' xs q"
proof (cases xs)
  case (Cons x ys)
  have "links nx pv x ys q" using assms(1) Cons by simp
  then have "links (nx(p' := x)) (pv(x := p')) x ys q"
    using links_upd_next [of p' x ys nx x] links_upd_prev [of x q ys nx pv p'] assms(2,3) Cons by (metis distinct.simps(2) distinct_append insert_iff list.simps(15) set_append Un_iff list.set_intros(1) append_Cons)
  with Cons show ?thesis by simp
qed simp

text \<open>Taking a node out of a ring, and putting one in.\<close>

lemma ring_remove:
  assumes "links nx pv h (as @ x # bs) h" "distinct (h # as @ x # bs)"
  shows "links (nx(last (h # as) := hd (bs @ [h]))) (pv(hd (bs @ [h]) := last (h # as))) h (as @ bs) h"
proof -
  let ?p = "last (h # as)" and ?n = "hd (bs @ [h])"
  have l: "links nx pv h as x" "links nx pv x bs h" using assms(1) by (simp_all add: links_append)
  have p: "?p \<in> insert h (set as)" using last_in_set [of "h # as"] by auto
  have n: "?n \<in> insert h (set bs)" by (cases bs) auto
  have "links (nx(?p := ?n)) (pv(?n := ?p)) h as ?n"
    by (rule links_retarget [OF l(1)]) (use assms(2) n in auto)
  moreover have "links (nx(?p := ?n)) (pv(?n := ?p)) n bs' h" if "bs = n # bs'" for n bs'
  proof -
    have "links nx pv n bs' h" using l(2) that by simp
    moreover have "?p \<notin> insert n (set bs')" "?n \<notin> insert h (set bs')" using assms(2) p that by auto
    ultimately show ?thesis by (simp add: links_upd_next links_upd_prev)
  qed
  ultimately show ?thesis by (cases bs) (simp_all add: links_append)
qed

lemma ring_insert:
  assumes "links nx pv h (as @ bs) h" "distinct (h # as @ bs)" "x \<notin> set (h # as @ bs)"
  shows "links (nx(x := hd (bs @ [h]), last (h # as) := x)) (pv(x := last (h # as), hd (bs @ [h]) := x)) h (as @ x # bs) h"
proof -
  let ?p = "last (h # as)" and ?n = "hd (bs @ [h])"
  let ?nx = "nx(x := ?n, ?p := x)" and ?pv = "pv(x := ?p, ?n := x)"
  have p: "?p \<in> insert h (set as)" using last_in_set [of "h # as"] by auto
  have n: "?n \<in> insert h (set bs)" by (cases bs) auto
  have l: "links nx pv h as ?n" using assms(1) by (cases bs) (auto simp: links_append)
  have 1: "links ?nx ?pv h as x"
  proof -
    have "links (nx(?p := x)) (pv(x := ?p)) h as x" by (rule links_retarget [OF l]) (use assms in auto)
    moreover have "links ?nx ?pv h as x = links (nx(?p := x)) (pv(x := ?p)) h as x"
      by (rule links_cong) (use assms n in auto)
    ultimately show ?thesis by simp
  qed
  have 2: "links ?nx ?pv x bs h"
  proof (cases bs)
    case Nil
    then show ?thesis using assms p n by auto
  next
    case (Cons b bs')
    have "links nx pv b bs' h" using assms(1) Cons by (simp add: links_append)
    moreover have "links ?nx ?pv b bs' h = links nx pv b bs' h"
      by (rule links_cong) (use assms p Cons in auto)
    ultimately show ?thesis using Cons assms p by auto
  qed
  from 1 2 show ?thesis by (simp add: links_append)
qed

lemma links_pv_hd: "links nx pv h (as @ bs) h \<Longrightarrow> pv (hd (bs @ [h])) = last (h # as)"
  using links_last [of nx pv h as "hd (bs @ [h])"] by (cases bs) (auto simp: links_append dest: links_last)

section \<open>The layout of the memory\<close>

text \<open>
  The address space as a list of adjoining pieces: chunks that are free (in a bin) or used, the bounds of the
  buffers, gaps that do not belong to the allocator, and loose chunks, which an operation is working on.
\<close>

datatype kind = Free | Used | Bound | Gap | Loose

type_synonym layout = "(nat \<times> kind) list"

primrec chunks :: "nat \<Rightarrow> layout \<Rightarrow> (nat \<times> nat \<times> kind) set" where
  "chunks a [] = {}"
| "chunks a (x # L) = insert (a, fst x, snd x) (chunks (a + fst x) L)"

definition extent :: "layout \<Rightarrow> nat" where
  "extent L = sum_list (map fst L)"

lemma extent_simps [simp]: "extent [] = 0" "extent (x # L) = fst x + extent L" "extent (A @ B) = extent A + extent B"
  by (simp_all add: extent_def)

lemma chunks_append [simp]: "chunks a (A @ B) = chunks a A \<union> chunks (a + extent A) B"
  by (induction A arbitrary: a) (auto simp: add.assoc)

lemma chunks_range: "(b, s, k) \<in> chunks a L \<Longrightarrow> a \<le> b \<and> b + s \<le> a + extent L"
  by (induction L arbitrary: a) force+

lemma chunks_disjoint:
  "(b, s, k) \<in> chunks a L \<Longrightarrow> (c, t, l) \<in> chunks a L \<Longrightarrow> b + s \<le> c \<or> c + t \<le> b \<or> (b, s, k) = (c, t, l)"
proof (induction L arbitrary: a)
  case (Cons x L)
  then show ?case using chunks_range [of b s k "a + fst x" L] chunks_range [of c t l "a + fst x" L] by auto
qed simp

definition tag_ok :: "memory \<Rightarrow> nat \<Rightarrow> nat \<Rightarrow> kind \<Rightarrow> bool" where
  "tag_ok m a s k = (case k of
     Free \<Rightarrow> 16 \<le> s \<and> s < 2 ^ 31 \<and> load32 m a = 2 * s \<and> load32 m (a + s - 4) = s
   | Used \<Rightarrow> 16 \<le> s \<and> s < 2 ^ 31 \<and> load32 m a = 2 * s + 1 \<and> load32 m (a + s - 4) = s
   | Bound \<Rightarrow> s = 8 \<and> load32 m a = 17 \<and> load32 m (a + 4) = 8
   | _ \<Rightarrow> True)"

definition bin_index :: "nat \<Rightarrow> nat" where
  "bin_index s = bin_search s 0 BIN_NUMBER"

abbreviation ring :: "memory \<Rightarrow> nat \<Rightarrow> nat list \<Rightarrow> bool" where
  "ring m h xs \<equiv> links (h_next m) (h_prev m) h xs h"

definition core :: "nat \<Rightarrow> layout \<Rightarrow> (nat \<Rightarrow> nat list) \<Rightarrow> memory \<Rightarrow> bool" where
  "core c L bl m \<longleftrightarrow> (\<forall>(a, s, k) \<in> chunks 0 L. tag_ok m a s k) \<and> (\<forall>x \<in> set L. 0 < fst x) \<and> extent L \<le> 2 ^ 32
     \<and> (\<exists>a s. (a, s, Gap) \<in> chunks 0 L \<and> a \<le> c \<and> c + CONTEXT_SIZE \<le> a + s)
     \<and> (\<forall>i < BIN_NUMBER. ring m (bin_at c i) (bl i) \<and> distinct (bl i)
          \<and> set (bl i) = {a. \<exists>s. (a, s, Free) \<in> chunks 0 L \<and> bin_index s = i})"

definition node :: "nat \<Rightarrow> layout \<Rightarrow> nat \<Rightarrow> bool" where
  "node c L x \<longleftrightarrow> (\<exists>i < BIN_NUMBER. x = bin_at c i) \<or> (\<exists>s. (x, s, Free) \<in> chunks 0 L)"

lemma coreD:
  assumes "core c L bl m"
  shows "(a, s, k) \<in> chunks 0 L \<Longrightarrow> tag_ok m a s k" "(t, l) \<in> set L \<Longrightarrow> 0 < t" "extent L \<le> 2 ^ 32"
    "\<exists>a s. (a, s, Gap) \<in> chunks 0 L \<and> a \<le> c \<and> c + CONTEXT_SIZE \<le> a + s"
    "i < BIN_NUMBER \<Longrightarrow> ring m (bin_at c i) (bl i)" "i < BIN_NUMBER \<Longrightarrow> distinct (bl i)"
    "i < BIN_NUMBER \<Longrightarrow> set (bl i) = {a. \<exists>s. (a, s, Free) \<in> chunks 0 L \<and> bin_index s = i}"
  using assms unfolding core_def by (fastforce, fastforce, blast+)

lemma bin_range: "i < BIN_NUMBER \<Longrightarrow> c + 16 \<le> bin_at c i \<and> bin_at c i + 12 \<le> c + CONTEXT_SIZE"
  by (simp add: bin_at_def BIN_NUMBER_def CONTEXT_SIZE_def)

text \<open>The first twelve bytes of a node lie in the gap of the context, or in the node's chunk.\<close>

lemma node_piece:
  assumes "core c L bl m" "node c L x"
  obtains a s k where "(a, s, k) \<in> chunks 0 L" "a \<le> x" "x + 12 \<le> a + s"
    "k = Gap \<and> c + 16 \<le> x \<and> x + 12 \<le> c + CONTEXT_SIZE \<or> k = Free \<and> a = x \<and> 16 \<le> s"
proof (cases "\<exists>i < BIN_NUMBER. x = bin_at c i")
  case True
  then obtain i where i: "i < BIN_NUMBER" "x = bin_at c i" by blast
  obtain a s where "(a, s, Gap) \<in> chunks 0 L" "a \<le> c" "c + CONTEXT_SIZE \<le> a + s" using coreD(4) [OF assms(1)] by blast
  with bin_range [OF i(1), of c] i(2) show thesis by (intro that [of a s Gap]) auto
next
  case False
  with assms(2) obtain s where s: "(x, s, Free) \<in> chunks 0 L" unfolding node_def by blast
  with coreD(1) [OF assms(1) s] show thesis by (intro that [of x s Free]) (auto simp: tag_ok_def)
qed

lemma node_less:
  assumes "core c L bl m" "node c L x"
  shows "x + 12 \<le> 2 ^ 32"
proof -
  obtain a s k where "(a, s, k) \<in> chunks 0 L" "x + 12 \<le> a + s" using node_piece [OF assms] by metis
  then show ?thesis using chunks_range [of a s k 0 L] coreD(3) [OF assms(1)] by auto
qed

lemma node_sep:
  assumes "core c L bl m" "node c L x" "node c L y" "x \<noteq> y"
  shows "x + 12 \<le> y \<or> y + 12 \<le> x"
proof (cases "\<exists>i < BIN_NUMBER. x = bin_at c i")
  case True
  then obtain i where i: "i < BIN_NUMBER" "x = bin_at c i" by blast
  show ?thesis
  proof (cases "\<exists>j < BIN_NUMBER. y = bin_at c j")
    case True
    then obtain j where "y = bin_at c j" by blast
    with i assms(4) show ?thesis unfolding bin_at_def by (cases "i < j") auto
  next
    case False
    with assms(3) obtain t where t: "(y, t, Free) \<in> chunks 0 L" unfolding node_def by blast
    obtain a s where g: "(a, s, Gap) \<in> chunks 0 L" "a \<le> c" "c + CONTEXT_SIZE \<le> a + s" using coreD(4) [OF assms(1)] by blast
    have "16 \<le> t" using coreD(1) [OF assms(1) t] by (simp add: tag_ok_def)
    with chunks_disjoint [OF g(1) t] bin_range [OF i(1), of c] g i(2) show ?thesis by auto
  qed
next
  case False
  with assms(2) obtain s where s: "(x, s, Free) \<in> chunks 0 L" unfolding node_def by blast
  have s16: "16 \<le> s" using coreD(1) [OF assms(1) s] by (simp add: tag_ok_def)
  obtain b t k where y: "(b, t, k) \<in> chunks 0 L" "b \<le> y" "y + 12 \<le> b + t"
      "k = Gap \<and> c + 16 \<le> y \<and> y + 12 \<le> c + CONTEXT_SIZE \<or> k = Free \<and> b = y \<and> 16 \<le> t"
    using node_piece [OF assms(1,3)] by metis
  from chunks_disjoint [OF s y(1)] y s16 assms(4) show ?thesis by auto
qed

subsection \<open>Stores\<close>

text \<open>The fields of another node, and of the same one, after a store to a link field.\<close>

lemma node_fields:
  assumes "core c L bl m" "node c L x" "node c L y" "v < 2 ^ 32"
  shows "h_next (set_next y v m') x = (if x = y then v else h_next m' x)" "h_prev (set_next y v m') x = h_prev m' x"
    "h_prev (set_prev y v m') x = (if x = y then v else h_prev m' x)" "h_next (set_prev y v m') x = h_next m' x"
  using node_sep [OF assms(1-3)] assms(4)
  by (cases "x = y"; auto simp: h_next_def h_prev_def set_next_def set_prev_def load_store_other)+

text \<open>Two pieces of memory agree on everything the invariant reads but the links.\<close>

definition same_tags :: "layout \<Rightarrow> memory \<Rightarrow> memory \<Rightarrow> bool" where
  "same_tags L m m' \<longleftrightarrow> (\<forall>(a, s, k) \<in> chunks 0 L. tag_ok m a s k \<longrightarrow> tag_ok m' a s k)"

text \<open>Used chunks, bounds and gaps keep every byte, but for the heads of the bins.\<close>

definition kept :: "nat \<Rightarrow> layout \<Rightarrow> memory \<Rightarrow> memory \<Rightarrow> bool" where
  "kept c L m m' \<longleftrightarrow> (\<forall>a s k x. (a, s, k) \<in> chunks 0 L \<longrightarrow> k = Used \<or> k = Bound \<or> k = Gap \<longrightarrow> a \<le> x \<longrightarrow> x < a + s \<longrightarrow>
     x < c + 16 \<or> c + CONTEXT_SIZE \<le> x \<longrightarrow> m' x = m x)"

lemma same_tags_refl [simp]: "same_tags L m m" by (simp add: same_tags_def)
lemma kept_refl [simp]: "kept c L m m" by (simp add: kept_def)

lemma same_tags_trans: "same_tags L m m1 \<Longrightarrow> same_tags L m1 m2 \<Longrightarrow> same_tags L m m2"
  unfolding same_tags_def by blast

lemma kept_trans: "kept c L m m1 \<Longrightarrow> kept c L m1 m2 \<Longrightarrow> kept c L m m2"
  unfolding kept_def by metis

lemma tag_store_outside:
  assumes "tag_ok m a s k" "x + 4 \<le> a \<or> a + s \<le> x"
  shows "tag_ok (store32 x v m) a s k"
  using assms by (cases k) (auto simp: tag_ok_def load_store_other)

lemma node_store:
  assumes "core c L bl m" "node c L x" "d = 4 \<or> d = 8"
  shows "same_tags L m' (store32 (x + d) v m')" "kept c L m' (store32 (x + d) v m')"
proof -
  obtain a s k where p: "(a, s, k) \<in> chunks 0 L" "a \<le> x" "x + 12 \<le> a + s"
      "k = Gap \<and> c + 16 \<le> x \<and> x + 12 \<le> c + CONTEXT_SIZE \<or> k = Free \<and> a = x \<and> 16 \<le> s"
    using node_piece [OF assms(1,2)] by metis
  have out: "x + d + 4 \<le> b \<or> b + t \<le> x + d" if "(b, t, l) \<in> chunks 0 L" "(b, t, l) \<noteq> (a, s, k)" for b t l
    using chunks_disjoint [OF p(1) that(1)] that(2) p(2,3) assms(3) by auto
  have "tag_ok (store32 (x + d) v m') b t l" if "(b, t, l) \<in> chunks 0 L" "tag_ok m' b t l" for b t l
  proof (cases "(b, t, l) = (a, s, k)")
    case True
    with p(4) that(2) assms(3) show ?thesis by (auto simp: tag_ok_def load_store_other)
  next
    case False
    with out [OF that(1)] tag_store_outside [OF that(2)] show ?thesis by simp
  qed
  then show "same_tags L m' (store32 (x + d) v m')" unfolding same_tags_def by blast
  have "store32 (x + d) v m' y = m' y"
    if y: "(b, t, l) \<in> chunks 0 L" "l = Used \<or> l = Bound \<or> l = Gap" "b \<le> y" "y < b + t" "y < c + 16 \<or> c + CONTEXT_SIZE \<le> y" for b t l y
  proof (cases "k = Gap")
    case True
    with p(4) assms(3) y(5) show ?thesis by (intro store32_apply) auto
  next
    case False
    with p(4) y(2) have "(b, t, l) \<noteq> (a, s, k)" by auto
    with out [OF y(1)] y(3,4) show ?thesis by (intro store32_apply) auto
  qed
  then show "kept c L m' (store32 (x + d) v m')" unfolding kept_def by blast
qed

lemma node_set:
  assumes "core c L bl m" "node c L x"
  shows "same_tags L m' (set_next x v m')" "kept c L m' (set_next x v m')"
    "same_tags L m' (set_prev x v m')" "kept c L m' (set_prev x v m')"
  using node_store [OF assms, of 4] node_store [OF assms, of 8] by (auto simp: set_next_def set_prev_def)

lemma core_change:
  assumes "core c L bl m" "same_tags L m m'"
    and "\<And>i. i < BIN_NUMBER \<Longrightarrow> ring m' (bin_at c i) (bl i)"
  shows "core c L bl m'"
proof -
  have "\<forall>(a, s, k) \<in> chunks 0 L. tag_ok m' a s k"
    using coreD(1) [OF assms(1)] assms(2) unfolding same_tags_def by blast
  then show ?thesis using assms(1,3) unfolding core_def by blast
qed

lemma ring_nodes:
  assumes "core c L bl m" "i < BIN_NUMBER"
  shows "node c L (bin_at c i)" "x \<in> set (bl i) \<Longrightarrow> node c L x" "bin_at c i \<notin> set (bl i)"
proof -
  show "node c L (bin_at c i)" using assms(2) by (auto simp: node_def)
  show "x \<in> set (bl i) \<Longrightarrow> node c L x" using coreD(7) [OF assms] by (auto simp: node_def)
  show "bin_at c i \<notin> set (bl i)"
  proof
    assume "bin_at c i \<in> set (bl i)"
    then obtain s where s: "(bin_at c i, s, Free) \<in> chunks 0 L" using coreD(7) [OF assms] by auto
    obtain a t where g: "(a, t, Gap) \<in> chunks 0 L" "a \<le> c" "c + CONTEXT_SIZE \<le> a + t" using coreD(4) [OF assms(1)] by blast
    have "16 \<le> s" using coreD(1) [OF assms(1) s] by (simp add: tag_ok_def)
    with chunks_disjoint [OF g(1) s] bin_range [OF assms(2), of c] g show False by auto
  qed
qed

lemma rings_disjoint:
  assumes "core c L bl m" "i < BIN_NUMBER" "j < BIN_NUMBER" "i \<noteq> j"
  shows "insert (bin_at c i) (set (bl i)) \<inter> insert (bin_at c j) (set (bl j)) = {}"
proof -
  have 1: "set (bl i) \<inter> set (bl j) = {}"
  proof -
    have "s = t" if "(a, s, Free) \<in> chunks 0 L" "(a, t, Free) \<in> chunks 0 L" for a s t
      using chunks_disjoint [OF that] coreD(1) [OF assms(1) that(1)] coreD(1) [OF assms(1) that(2)] by (auto simp: tag_ok_def)
    then show ?thesis using coreD(7) [OF assms(1,2)] coreD(7) [OF assms(1,3)] assms(4) by auto
  qed
  have 2: "bin_at c k \<notin> set (bl l)" if k: "k < BIN_NUMBER" and l: "l < BIN_NUMBER" for k l
  proof
    assume "bin_at c k \<in> set (bl l)"
    then obtain s where s: "(bin_at c k, s, Free) \<in> chunks 0 L" using coreD(7) [OF assms(1) l] by auto
    then have "bin_at c k \<in> set (bl (bin_index s))" if "bin_index s < BIN_NUMBER" using coreD(7) [OF assms(1) that] by auto
    obtain a t where g: "(a, t, Gap) \<in> chunks 0 L" "a \<le> c" "c + CONTEXT_SIZE \<le> a + t" using coreD(4) [OF assms(1)] by blast
    have "16 \<le> s" using coreD(1) [OF assms(1) s] by (simp add: tag_ok_def)
    with chunks_disjoint [OF g(1) s] bin_range [OF k, of c] g show False by auto
  qed
  have "bin_at c i \<noteq> bin_at c j" using assms(4) by (simp add: bin_at_def)
  with 1 2 assms(2,3) show ?thesis by blast
qed

text \<open>The relabelling of one piece of the layout.\<close>

lemma core_relabel:
  assumes "core c (A @ (s, k) # B) bl m" "k \<noteq> Gap" "tag_ok m (extent A) s k'" "k' \<noteq> Gap"
    and "\<And>i. i < BIN_NUMBER \<Longrightarrow> ring m (bin_at c i) (bl' i) \<and> distinct (bl' i)
          \<and> set (bl' i) = {a. \<exists>t. (a, t, Free) \<in> chunks 0 (A @ (s, k') # B) \<and> bin_index t = i}"
  shows "core c (A @ (s, k') # B) bl' m"
proof -
  have "\<forall>(a, s, k) \<in> chunks 0 (A @ (s, k') # B). tag_ok m a s k"
    using coreD(1) [OF assms(1)] assms(3) by auto
  moreover have "\<forall>x \<in> set (A @ (s, k') # B). 0 < fst x" using coreD(2) [OF assms(1)] by fastforce
  moreover have "extent (A @ (s, k') # B) \<le> 2 ^ 32" using coreD(3) [OF assms(1)] by simp
  moreover have "\<exists>a t. (a, t, Gap) \<in> chunks 0 (A @ (s, k') # B) \<and> a \<le> c \<and> c + CONTEXT_SIZE \<le> a + t"
    using coreD(4) [OF assms(1)] assms(2) by auto
  ultimately show ?thesis unfolding core_def using assms(5) by blast
qed

lemma other_frees:
  assumes "core c (A @ (s, k) # B) bl m" "(extent A, t, Free) \<in> chunks 0 (A @ (s, k) # B)"
  shows "t = s \<and> k = Free"
proof -
  have "(extent A, s, k) \<in> chunks 0 (A @ (s, k) # B)" by simp
  from chunks_disjoint [OF assms(2) this] coreD(2) [OF assms(1), of s k] coreD(1) [OF assms(1,2)]
  show ?thesis by (auto simp: tag_ok_def)
qed

lemma frees_relabel:
  "core c (A @ (s, k) # B) bl m \<Longrightarrow> k' \<noteq> Free \<Longrightarrow> (a, t, Free) \<in> chunks 0 (A @ (s, k') # B) \<longleftrightarrow>
     (a, t, Free) \<in> chunks 0 (A @ (s, k) # B) \<and> a \<noteq> extent A"
proof -
  assume c: "core c (A @ (s, k) # B) bl m" and k': "k' \<noteq> Free"
  have s: "0 < s" using coreD(2) [OF c, of s k] by fastforce
  have "a \<noteq> extent A" if "(a, t, Free) \<in> chunks 0 A"
  proof -
    have "16 \<le> t" using coreD(1) [OF c, of a t Free] that by (simp add: tag_ok_def)
    then show ?thesis using chunks_range [OF that] by auto
  qed
  moreover have "a \<noteq> extent A" if "(a, t, Free) \<in> chunks (extent A + s) B" using chunks_range [OF that] s by auto
  ultimately show ?thesis using k' by auto
qed

subsection \<open>Taking a chunk out of its bin\<close>

lemma unlink_ok:
  assumes c: "core c (A @ (s, Free) # B) bl m" and i: "bin_index s < BIN_NUMBER"
  shows "core c (A @ (s, Loose) # B) (bl(bin_index s := remove1 (extent A) (bl (bin_index s)))) (unlink (extent A) m)"
    and "kept c (A @ (s, Free) # B) m (unlink (extent A) m)" and "same_tags (A @ (s, Free) # B) m (unlink (extent A) m)"
proof -
  let ?L = "A @ (s, Free) # B" and ?a = "extent A" and ?i = "bin_index s"
  let ?h = "bin_at c ?i"
  have a: "?a \<in> set (bl ?i)" using coreD(7) [OF c i] by auto
  then obtain as bs where sp: "bl ?i = as @ ?a # bs" by (auto dest: split_list)
  let ?p = "last (?h # as)" and ?n = "hd (bs @ [?h])"
  have dist: "distinct (?h # as @ ?a # bs)" using coreD(6) [OF c i] ring_nodes(3) [OF c i] sp by simp
  have ring: "ring m ?h (as @ ?a # bs)" using coreD(5) [OF c i] sp by simp
  have p: "?p \<in> insert ?h (set (bl ?i))" "?p \<noteq> ?a" using last_in_set [of "?h # as"] sp dist by auto
  have n: "?n \<in> insert ?h (set (bl ?i))" "?n \<noteq> ?a" using sp dist by (cases bs; auto)+
  have nd: "node c ?L ?a" "node c ?L ?p" "node c ?L ?n"
  proof -
    have "node c ?L x" if "x \<in> insert ?h (set (bl ?i))" for x using ring_nodes(1,2) [OF c i] that by blast
    with a p(1) n(1) show "node c ?L ?a" "node c ?L ?p" "node c ?L ?n" by blast+
  qed
  have lt: "?p < 2 ^ 32" "?n < 2 ^ 32" using node_less [OF c nd(2)] node_less [OF c nd(3)] by auto
  have an: "h_next m ?a = ?n" "h_prev m ?a = ?p"
    using ring by (auto simp: links_append dest: links_last) (cases bs; auto dest: links_first simp: links_append)
  let ?m1 = "set_next ?p ?n m"
  have m1: "h_next ?m1 ?a = ?n" "h_prev ?m1 ?a = ?p"
    using node_fields(1,2) [OF c nd(1,2) lt(2), of m] an p(2) by auto
  have eq: "unlink ?a m = set_prev ?n ?p ?m1" unfolding unlink_def Let_def by (simp only: an m1)
  have tags: "same_tags ?L m (unlink ?a m)" unfolding eq
    using node_set(1) [OF c nd(2)] node_set(3) [OF c nd(3)] by (rule same_tags_trans)
  then show "same_tags ?L m (unlink ?a m)" .
  show "kept c ?L m (unlink ?a m)" unfolding eq
    using node_set(2) [OF c nd(2)] node_set(4) [OF c nd(3)] by (rule kept_trans)
  have fields: "h_next (unlink ?a m) x = ((h_next m)(?p := ?n)) x" "h_prev (unlink ?a m) x = ((h_prev m)(?n := ?p)) x" if "node c ?L x" for x
    unfolding eq using node_fields [OF c that nd(2) lt(2)] node_fields [OF c that nd(3) lt(1)] by auto
  have rings: "ring (unlink ?a m) (bin_at c j) (if j = ?i then as @ bs else bl j)" if j: "j < BIN_NUMBER" for j
  proof -
    let ?xs = "if j = ?i then as @ bs else bl j"
    have "\<And>x. x \<in> insert (bin_at c j) (set ?xs) \<Longrightarrow> node c ?L x" using ring_nodes [OF c j] ring_nodes [OF c i] sp by (auto split: if_splits)
    then have "ring (unlink ?a m) (bin_at c j) ?xs = links ((h_next m)(?p := ?n)) ((h_prev m)(?n := ?p)) (bin_at c j) ?xs (bin_at c j)"
      using fields by (intro links_cong) auto
    moreover have "links ((h_next m)(?p := ?n)) ((h_prev m)(?n := ?p)) (bin_at c j) ?xs (bin_at c j)"
    proof (cases "j = ?i")
      case True
      with ring_remove [OF ring dist] show ?thesis by simp
    next
      case False
      from rings_disjoint [OF c j i False] p(1) n(1)
      have "?p \<notin> insert (bin_at c j) (set (bl j))" "?n \<notin> insert (bin_at c j) (set (bl j))" by blast+
      with False coreD(5) [OF c j] show ?thesis by (simp add: links_upd_next links_upd_prev)
    qed
    ultimately show ?thesis by simp
  qed
  have rm: "remove1 ?a (bl ?i) = as @ bs" using sp dist by (simp add: remove1_append)
  have tags': "core c ?L bl m \<Longrightarrow> \<forall>(a, s, k) \<in> chunks 0 ?L. tag_ok (unlink ?a m) a s k"
    using tags coreD(1) [OF c] unfolding same_tags_def by blast
  have sets: "set (if j = ?i then as @ bs else bl j) = {a. \<exists>t. (a, t, Free) \<in> chunks 0 (A @ (s, Loose) # B) \<and> bin_index t = j}"
    if j: "j < BIN_NUMBER" for j
  proof -
    have "{a. \<exists>t. (a, t, Free) \<in> chunks 0 (A @ (s, Loose) # B) \<and> bin_index t = j} = set (bl j) - {?a}"
      using frees_relabel [OF c, of Loose] coreD(7) [OF c j] by auto
    moreover have "set (if j = ?i then as @ bs else bl j) = set (bl j) - {?a}"
    proof (cases "j = ?i")
      case True then show ?thesis using sp dist by auto
    next
      case False
      have "?a \<notin> set (bl j)" using rings_disjoint [OF c j i False] a by blast
      with False show ?thesis by simp
    qed
    ultimately show ?thesis by simp
  qed
  show "core c (A @ (s, Loose) # B) (bl(?i := remove1 ?a (bl ?i))) (unlink ?a m)"
    unfolding rm
  proof -
    have "\<forall>(a, s, k) \<in> chunks 0 (A @ (s, Loose) # B). tag_ok (unlink ?a m) a s k"
      using tags' [OF c] by (auto simp: tag_ok_def [of _ _ _ Loose])
    moreover have "\<forall>x \<in> set (A @ (s, Loose) # B). 0 < fst x" using coreD(2) [OF c] by fastforce
    moreover have "extent (A @ (s, Loose) # B) \<le> 2 ^ 32" using coreD(3) [OF c] by simp
    moreover have "\<exists>a t. (a, t, Gap) \<in> chunks 0 (A @ (s, Loose) # B) \<and> a \<le> c \<and> c + CONTEXT_SIZE \<le> a + t"
      using coreD(4) [OF c] by auto
    moreover have "distinct (if j = ?i then as @ bs else bl j)" if "j < BIN_NUMBER" for j
      using coreD(6) [OF c that] dist by auto
    ultimately show "core c (A @ (s, Loose) # B) (bl(?i := as @ bs)) (unlink ?a m)"
      unfolding core_def fun_upd_def using rings sets by blast
  qed
qed

subsection \<open>Working on a loose chunk\<close>

lemma loose_apart:
  assumes "core c (A @ (s, Loose) # B) bl m" "(b, t, l) \<in> chunks 0 (A @ (s, Loose) # B)" "l \<noteq> Loose"
  shows "extent A + s \<le> b \<or> b + t \<le> extent A"
proof -
  have "(extent A, s, Loose) \<in> chunks 0 (A @ (s, Loose) # B)" by simp
  from chunks_disjoint [OF this assms(2)] assms(3) show ?thesis by auto
qed

lemma loose_node:
  assumes "core c (A @ (s, Loose) # B) bl m" "node c (A @ (s, Loose) # B) x"
  shows "extent A + s \<le> x \<or> x + 12 \<le> extent A"
proof -
  obtain a t k where p: "(a, t, k) \<in> chunks 0 (A @ (s, Loose) # B)" "a \<le> x" "x + 12 \<le> a + t" "k \<noteq> Loose"
    using node_piece [OF assms] by (metis kind.distinct(7,19))
  from loose_apart [OF assms(1) p(1,4)] p(2,3) show ?thesis by auto
qed

text \<open>A store inside a loose chunk changes nothing the invariant depends on.\<close>

lemma loose_store:
  assumes c: "core c (A @ (s, Loose) # B) bl m" and x: "extent A \<le> x" "x + 4 \<le> extent A + s"
  shows "core c (A @ (s, Loose) # B) bl (store32 x v m)" "kept c (A @ (s, Loose) # B) m (store32 x v m)"
proof -
  let ?L = "A @ (s, Loose) # B"
  have "tag_ok (store32 x v m) a t k" if "(a, t, k) \<in> chunks 0 ?L" "tag_ok m a t k" for a t k
  proof (cases "k = Loose")
    case False
    from loose_apart [OF c that(1) False] x tag_store_outside [OF that(2)] show ?thesis by auto
  qed (simp add: tag_ok_def)
  then have "same_tags ?L m (store32 x v m)" unfolding same_tags_def by blast
  moreover have "ring (store32 x v m) (bin_at c i) (bl i)" if i: "i < BIN_NUMBER" for i
  proof -
    have "h_next (store32 x v m) y = h_next m y" "h_prev (store32 x v m) y = h_prev m y" if "node c ?L y" for y
      using loose_node [OF c that] x by (auto simp: h_next_def h_prev_def load_store_other)
    then have "ring (store32 x v m) (bin_at c i) (bl i) = ring m (bin_at c i) (bl i)"
      using ring_nodes [OF c i] by (intro links_cong) auto
    with coreD(5) [OF c i] show ?thesis by simp
  qed
  ultimately show "core c ?L bl (store32 x v m)" by (rule core_change [OF c])
  have "store32 x v m y = m y" if "(b, t, l) \<in> chunks 0 ?L" "l = Used \<or> l = Bound \<or> l = Gap" "b \<le> y" "y < b + t" for b t l y
    using loose_apart [OF c that(1)] that(2-4) x by (intro store32_apply) auto
  then show "kept c ?L m (store32 x v m)" unfolding kept_def by blast
qed

lemma core_use:
  assumes "core c (A @ (s, Loose) # B) bl m" "tag_ok m (extent A) s k" "k \<noteq> Gap" "k \<noteq> Free"
  shows "core c (A @ (s, k) # B) bl m"
proof (rule core_relabel [OF assms(1) _ assms(2,3)])
  fix i assume i: "i < BIN_NUMBER"
  have "(a, t, Free) \<in> chunks 0 (A @ (s, k) # B) \<longleftrightarrow> (a, t, Free) \<in> chunks 0 (A @ (s, Loose) # B)" for a t using assms(4) by auto
  then show "ring m (bin_at c i) (bl i) \<and> distinct (bl i) \<and> set (bl i) = {a. \<exists>t. (a, t, Free) \<in> chunks 0 (A @ (s, k) # B) \<and> bin_index t = i}"
    using coreD(5,6,7) [OF assms(1) i] by simp
qed simp

lemma core_loosen:
  assumes "core c (A @ (s, k) # B) bl m" "k = Used \<or> k = Bound"
  shows "core c (A @ (s, Loose) # B) bl m"
proof (rule core_relabel [OF assms(1)])
  fix i assume i: "i < BIN_NUMBER"
  have "(a, t, Free) \<in> chunks 0 (A @ (s, Loose) # B) \<longleftrightarrow> (a, t, Free) \<in> chunks 0 (A @ (s, k) # B)" for a t using assms(2) by auto
  then show "ring m (bin_at c i) (bl i) \<and> distinct (bl i) \<and> set (bl i) = {a. \<exists>t. (a, t, Free) \<in> chunks 0 (A @ (s, Loose) # B) \<and> bin_index t = i}"
    using coreD(5,6,7) [OF assms(1) i] by simp
qed (use assms(2) in \<open>auto simp: tag_ok_def\<close>)

text \<open>Loose chunks can be joined and cut.\<close>

lemma core_join:
  assumes "0 < s" "0 < t"
  shows "core c (A @ (s, Loose) # (t, Loose) # B) bl m = core c (A @ (s + t, Loose) # B) bl m"
proof -
  let ?L = "A @ (s, Loose) # (t, Loose) # B" and ?L' = "A @ (s + t, Loose) # B"
  have mem: "(a, u, k) \<in> chunks 0 ?L \<longleftrightarrow> (a, u, k) \<in> chunks 0 ?L'" if "k \<noteq> Loose" for a u k
    using that by (auto simp: add.assoc)
  have "(\<forall>(a, u, k) \<in> chunks 0 ?L. tag_ok m a u k) = (\<forall>(a, u, k) \<in> chunks 0 ?L'. tag_ok m a u k)"
    using mem by (auto simp: tag_ok_def [of _ _ _ Loose] add.assoc)
  moreover have "(\<forall>x \<in> set ?L. 0 < fst x) = (\<forall>x \<in> set ?L'. 0 < fst x)" "extent ?L = extent ?L'" using assms by auto
  ultimately show ?thesis unfolding core_def using mem [of Gap] mem [of Free] by (simp add: add.assoc)
qed

subsection \<open>Bins\<close>

lemma bin_search_range: "lo < hi \<Longrightarrow> lo \<le> bin_search s lo hi \<and> bin_search s lo hi < hi"
proof (induction s lo hi rule: bin_search.induct)
  case (1 s lo hi)
  show ?case
  proof (cases "lo + 1 < hi")
    case True
    let ?mid = "(lo + hi) div 2"
    have mid: "lo < ?mid" "?mid < hi" using True by auto
    show ?thesis
      using "1.IH" [OF True refl] mid True by (subst bin_search.simps) (auto simp: Let_def bin_search.simps [of s lo hi])
  next
    case False
    with 1 show ?thesis by (subst bin_search.simps, subst bin_search.simps) simp
  qed
qed

lemma bin_index_less [simp]: "bin_index s < BIN_NUMBER"
  using bin_search_range [of 0 BIN_NUMBER s] by (simp add: bin_index_def BIN_NUMBER_def)

lemma bin_sizes_last: "bin_sizes ! (BIN_NUMBER - 1) = 2 ^ 31"
  by (simp add: bin_sizes_def BIN_NUMBER_def)

lemma find_bin_eq: "s < 2 ^ 31 \<Longrightarrow> find_bin s h = Inr (bin_index s)"
  unfolding find_bin_def bin_sizes_last bin_index_def by simp

lemma scan_bin_links:
  assumes "links (h_next m) pv p xs q" "q \<notin> set xs"
  shows "scan_bin small m q p = Some (hd (dropWhile (\<lambda>x. small (h_size m x)) xs @ [q]))"
  using assms
proof (induction xs arbitrary: p)
  case Nil
  then show ?case by (subst scan_bin.simps) simp
next
  case (Cons x xs)
  then show ?case by (subst scan_bin.simps) auto
qed

subsection \<open>Putting a chunk into its bin\<close>

lemma set_header:
  assumes "s < 2 ^ 31" "v = 0 \<or> v = 1"
  shows "set_size a s (set_status a v m) = store32 a (2 * s + v) (set_status a v m)"
proof -
  have "load32 m a div 2 < 2 ^ 31" using load32_bound [of m a] by auto
  then have "2 * h_size m a + v < 2 ^ 32" using assms(2) unfolding h_size_def by auto
  then have "h_status (set_status a v m) a = v"
    using assms(2) by (auto simp: h_status_def set_status_def)
  then show ?thesis using assms(1) by (simp add: set_size_def)
qed

lemma loose_tag:
  assumes c: "core c (A @ (s, Loose) # B) bl m" and s: "16 \<le> s" "s < 2 ^ 31" "v = 0 \<or> v = 1"
  defines "m' \<equiv> set_size (extent A) s (set_status (extent A) v m)"
  shows "core c (A @ (s, Loose) # B) bl m'" "kept c (A @ (s, Loose) # B) m m'" "load32 m' (extent A) = 2 * s + v"
    "\<And>x. extent A + 4 \<le> x \<Longrightarrow> load32 m' x = load32 m x"
proof -
  let ?a = "extent A" and ?L = "A @ (s, Loose) # B"
  let ?m1 = "set_status ?a v m"
  have m1: "core c ?L bl ?m1" "kept c ?L m ?m1"
    using loose_store [OF c, of ?a] s(1) unfolding set_status_def by auto
  have eq: "m' = store32 ?a (2 * s + v) ?m1" unfolding m'_def by (rule set_header [OF s(2,3)])
  show "core c ?L bl m'" "kept c ?L m m'"
    using loose_store [OF m1(1), of ?a "2 * s + v"] kept_trans [OF m1(2)] s(1) unfolding eq by auto
  show "load32 m' ?a = 2 * s + v" using s(2,3) unfolding eq by auto
  show "load32 m' x = load32 m x" if "?a + 4 \<le> x" for x
    using that unfolding eq set_status_def by (simp add: load_store_other)
qed

lemma insert_before_eq:
  assumes "h_next (set_next x y m) x = y" "h_prev (set_next x y m) y = p"
    "h_next (set_prev x p (set_next x y m)) x = y"
    "h_prev (set_prev y x (set_prev x p (set_next x y m))) x = p"
  shows "insert_before x y m = set_next p x (set_prev y x (set_prev x p (set_next x y m)))"
  unfolding insert_before_def Let_def by (simp only: assms)

lemma loose_fields:
  assumes "core c (A @ (s, Loose) # B) bl m" "16 \<le> s" "node c (A @ (s, Loose) # B) y" "v < 2 ^ 32"
  shows "h_next (set_next y v m') (extent A) = h_next m' (extent A)" "h_prev (set_next y v m') (extent A) = h_prev m' (extent A)"
    "h_next (set_prev y v m') (extent A) = h_next m' (extent A)" "h_prev (set_prev y v m') (extent A) = h_prev m' (extent A)"
    "h_next (set_next (extent A) v m') y = h_next m' y" "h_prev (set_next (extent A) v m') y = h_prev m' y"
    "h_next (set_prev (extent A) v m') y = h_next m' y" "h_prev (set_prev (extent A) v m') y = h_prev m' y"
    "h_next (set_next (extent A) v m') (extent A) = v" "h_prev (set_next (extent A) v m') (extent A) = h_prev m' (extent A)"
    "h_next (set_prev (extent A) v m') (extent A) = h_next m' (extent A)" "h_prev (set_prev (extent A) v m') (extent A) = v"
  using loose_node [OF assms(1,3)] assms(2,4)
  by (auto simp: h_next_def h_prev_def set_next_def set_prev_def load_store_other)

lemma insert_chunk_ok:
  assumes c: "core c (A @ (s, Loose) # B) bl m" and s: "16 \<le> s" "s < 2 ^ 31"
    and sp: "bl (bin_index s) = as @ bs" and tag: "load32 m (extent A) = 2 * s"
  defines "y \<equiv> hd (bs @ [bin_at c (bin_index s)])"
  defines "m' \<equiv> store32 (extent A + s - 4) s (insert_before (extent A) y m)"
  shows "core c (A @ (s, Free) # B) (bl(bin_index s := as @ extent A # bs)) m'" "kept c (A @ (s, Loose) # B) m m'"
proof -
  let ?a = "extent A" and ?L = "A @ (s, Loose) # B" and ?i = "bin_index s" and ?L' = "A @ (s, Free) # B"
  let ?h = "bin_at c ?i"
  define p where "p = last (?h # as)"
  have nodes: "node c ?L x" if "x \<in> insert ?h (set (bl ?i))" for x
    using ring_nodes(1,2) [OF c, of ?i] that by auto
  have y: "y \<in> insert ?h (set (bl ?i))" unfolding y_def sp by (cases bs) auto
  have pin: "p \<in> insert ?h (set (bl ?i))" unfolding sp p_def using last_in_set [of "?h # as"] by auto
  note ny = nodes [OF y] and np = nodes [OF pin]
  have dist: "distinct (?h # as @ bs)" using coreD(6) [OF c, of ?i] ring_nodes(3) [OF c, of ?i] sp by simp
  have ring: "ring m ?h (as @ bs)" using coreD(5) [OF c, of ?i] sp by simp
  have py: "h_prev m y = p" unfolding y_def p_def by (rule links_pv_hd [OF ring])
  have lt: "y < 2 ^ 32" "p < 2 ^ 32" "?a < 2 ^ 32"
    using node_less [OF c ny] node_less [OF c np] coreD(3) [OF c] s(1) by auto
  note fy = loose_fields [OF c s(1) ny] and fp = loose_fields [OF c s(1) np]
  have eq: "insert_before ?a y m = set_next p ?a (set_prev y ?a (set_prev ?a p (set_next ?a y m)))"
    by (rule insert_before_eq) (use py fy lt in simp_all)
  let ?m1 = "set_next ?a y m" let ?m2 = "set_prev ?a p ?m1" let ?m3 = "set_prev y ?a ?m2" let ?m4 = "set_next p ?a ?m3"
  have c2: "core c ?L bl ?m2" "kept c ?L m ?m2"
  proof -
    have c1: "core c ?L bl ?m1" "kept c ?L m ?m1" using loose_store [OF c, of "?a + 4" y] s(1) by (auto simp: set_next_def)
    show "core c ?L bl ?m2" "kept c ?L m ?m2"
      using loose_store [OF c1(1), of "?a + 8" p] kept_trans [OF c1(2)] s(1) by (auto simp: set_prev_def)
  qed
  have tags4: "same_tags ?L ?m2 ?m4" "kept c ?L ?m2 ?m4"
    using same_tags_trans [OF node_set(3) [OF c ny] node_set(1) [OF c np]] kept_trans [OF node_set(4) [OF c ny] node_set(2) [OF c np]]
    by blast+
  have m': "m' = store32 (?a + s - 4) s ?m4" by (simp only: m'_def eq)
  have node4: "h_next m' x = ((h_next m)(?a := y, p := ?a)) x" "h_prev m' x = ((h_prev m)(?a := p, y := ?a)) x"
    if x: "x = ?a \<or> node c ?L x" for x
  proof -
    have apart: "x = ?a \<or> ?a + s \<le> x \<or> x + 12 \<le> ?a" "node c ?L x \<Longrightarrow> x \<noteq> ?a" using x loose_node [OF c, of x] s(1) by auto
    have last: "h_next m' x = h_next ?m4 x" "h_prev m' x = h_prev ?m4 x"
      using apart(1) s(1) unfolding m' h_next_def h_prev_def by (auto simp: load_store_other)
    have ap: "?a \<noteq> p" "?a \<noteq> y" using loose_node [OF c np] loose_node [OF c ny] s(1) by auto
    show "h_next m' x = ((h_next m)(?a := y, p := ?a)) x" "h_prev m' x = ((h_prev m)(?a := p, y := ?a)) x"
    proof (atomize (full), cases "x = ?a")
      case True
      then show "h_next m' x = ((h_next m)(?a := y, p := ?a)) x \<and> h_prev m' x = ((h_prev m)(?a := p, y := ?a)) x"
        using last fy fp lt ap by simp
    next
      case False
      with x have nx: "node c ?L x" by simp
      note fx = loose_fields [OF c s(1) nx]
      show "h_next m' x = ((h_next m)(?a := y, p := ?a)) x \<and> h_prev m' x = ((h_prev m)(?a := p, y := ?a)) x"
        unfolding last fun_upd_def using False lt
        by (simp only: fx node_fields [OF c nx np] node_fields [OF c nx ny] if_False refl simp_thms)
    qed
  qed
  have rings: "ring m' (bin_at c j) (if j = ?i then as @ ?a # bs else bl j)" if j: "j < BIN_NUMBER" for j
  proof -
    let ?xs = "if j = ?i then as @ ?a # bs else bl j"
    have "x = ?a \<or> node c ?L x" if "x \<in> insert (bin_at c j) (set ?xs)" for x
      using that ring_nodes(1,2) [OF c j] nodes sp by (auto split: if_splits)
    then have "ring m' (bin_at c j) ?xs = links ((h_next m)(?a := y, p := ?a)) ((h_prev m)(?a := p, y := ?a)) (bin_at c j) ?xs (bin_at c j)"
      using node4 by (intro links_cong) auto
    moreover have "links ((h_next m)(?a := y, p := ?a)) ((h_prev m)(?a := p, y := ?a)) (bin_at c j) ?xs (bin_at c j)"
    proof (cases "j = ?i")
      case True
      have "?a \<notin> set (?h # as @ bs)" using loose_node [OF c nodes] s(1) sp by fastforce
      from ring_insert [OF ring dist this] True show ?thesis by (simp add: y_def p_def)
    next
      case False
      from rings_disjoint [OF c j _ False] pin y
      have "p \<notin> insert (bin_at c j) (set (bl j))" "y \<notin> insert (bin_at c j) (set (bl j))" by auto
      moreover have "?a \<notin> insert (bin_at c j) (set (bl j))" using loose_node [OF c] ring_nodes(1,2) [OF c j] s(1) by fastforce
      ultimately show ?thesis using False coreD(5) [OF c j] by (simp add: links_upd_next links_upd_prev)
    qed
    ultimately show ?thesis by simp
  qed
  show kept: "kept c ?L m m'"
  proof -
    have "store32 (?a + s - 4) s ?m4 x = ?m4 x" if "(b, t, l) \<in> chunks 0 ?L" "l = Used \<or> l = Bound \<or> l = Gap" "b \<le> x" "x < b + t" for b t l x
      using loose_apart [OF c that(1)] that(2-4) s(1) by (intro store32_apply) auto
    then have "kept c ?L ?m4 m'" unfolding m' kept_def by blast
    then show ?thesis using c2(2) tags4(2) kept_trans by blast
  qed
  have tags: "tag_ok m' b t k" if "(b, t, k) \<in> chunks 0 ?L" for b t k
  proof (cases "k = Loose")
    case False
    have "tag_ok ?m4 b t k" using coreD(1) [OF c2(1) that] tags4(1) that unfolding same_tags_def by blast
    then show ?thesis unfolding m' using loose_apart [OF c that False] s(1) by (intro tag_store_outside) auto
  qed (simp add: tag_ok_def)
  have a4: "load32 ?m4 ?a = 2 * s"
  proof -
    have "load32 ?m2 ?a = 2 * s" using tag by (simp add: set_prev_def set_next_def load_store_other)
    then show ?thesis using loose_node [OF c np] loose_node [OF c ny] s(1) by (auto simp: set_prev_def set_next_def load_store_other)
  qed
  have "tag_ok m' ?a s Free" using a4 s unfolding m' tag_ok_def by (auto simp: load_store_other)
  then have "\<forall>(b, t, k) \<in> chunks 0 ?L'. tag_ok m' b t k" using tags by auto
  moreover have "\<forall>x \<in> set ?L'. 0 < fst x" using coreD(2) [OF c] by fastforce
  moreover have "extent ?L' \<le> 2 ^ 32" using coreD(3) [OF c] by simp
  moreover have "\<exists>b t. (b, t, Gap) \<in> chunks 0 ?L' \<and> b \<le> c \<and> c + CONTEXT_SIZE \<le> b + t" using coreD(4) [OF c] by auto
  moreover have "distinct (if j = ?i then as @ ?a # bs else bl j)
      \<and> set (if j = ?i then as @ ?a # bs else bl j) = {b. \<exists>t. (b, t, Free) \<in> chunks 0 ?L' \<and> bin_index t = j}" if j: "j < BIN_NUMBER" for j
  proof -
    have "(b, t, Free) \<in> chunks 0 ?L' \<longleftrightarrow> (b, t, Free) \<in> chunks 0 ?L \<or> b = ?a \<and> t = s" for b t by auto
    moreover have "?a \<notin> set (bl ?i)" using loose_node [OF c nodes] s(1) by fastforce
    ultimately show ?thesis using coreD(6,7) [OF c j] sp by auto
  qed
  ultimately show "core c ?L' (bl(?i := as @ ?a # bs)) m'"
    unfolding core_def fun_upd_def using rings by blast
qed

text \<open>An update of the memory that keeps the rest of the heap record.\<close>

lemma upd_mem_simps [simp]:
  "hmem (upd_mem f h) = f (hmem h)" "hcontext (upd_mem f h) = hcontext h" "upd_mem g (upd_mem f h) = upd_mem (\<lambda>m. g (f m)) h"
  by (simp_all add: upd_mem_def)

lemma add_free_chunk_ok:
  fixes h :: "'z heap_scheme"
  assumes c: "core (hcontext h) (A @ (s, Loose) # B) bl (hmem h)" and s: "16 \<le> s" "s < 2 ^ 31"
  shows "\<exists>m' bl'. add_free_chunk (extent A) s h = Inr (h\<lparr>hmem := m'\<rparr>)
    \<and> core (hcontext h) (A @ (s, Free) # B) bl' m' \<and> kept (hcontext h) (A @ (s, Loose) # B) (hmem h) m'"
proof -
  let ?a = "extent A" and ?c = "hcontext h" and ?i = "bin_index s"
  define m1 where "m1 = set_size ?a s (set_status ?a FREE_STATUS (hmem h))"
  have m1: "core ?c (A @ (s, Loose) # B) bl m1" "kept ?c (A @ (s, Loose) # B) (hmem h) m1" "load32 m1 ?a = 2 * s"
    using loose_tag [OF c s, of 0] by (simp_all add: m1_def FREE_STATUS_def)
  let ?P = "\<lambda>x. h_size m1 x \<le> s"
  let ?as = "takeWhile ?P (bl ?i)" and ?bs = "dropWhile ?P (bl ?i)"
  let ?y = "hd (?bs @ [bin_at ?c ?i])"
  have ring: "ring m1 (bin_at ?c ?i) (bl ?i)" "bin_at ?c ?i \<notin> set (bl ?i)"
    using coreD(5) [OF m1(1)] ring_nodes(3) [OF m1(1)] by simp_all
  have "find_upper_chunk (bin_at ?c ?i) s (h\<lparr>hmem := m1\<rparr>) = Inr ?y"
    using scan_bin_links [OF ring, of "\<lambda>t. t \<le> s"] by (simp add: find_upper_chunk_def or_hang_def)
  then have "add_free_chunk ?a s h = Inr (h\<lparr>hmem := store32 (?a + s - 4) s (insert_before ?a ?y m1)\<rparr>)"
    using s by (simp add: find_bin_eq add_free_chunk_def MIN_FREE_CHUNK_SIZE_def Let_def upd_mem_def m1_def [symmetric])
  moreover note insert_chunk_ok [OF m1(1) s, of ?as ?bs, simplified m1(3)]
  ultimately show ?thesis using kept_trans [OF m1(2)] by (metis takeWhile_dropWhile_id)
qed

text \<open>The scalar fields of the context are in a gap, before the bins.\<close>

lemma context_store:
  assumes c: "core c L bl m" and x: "c \<le> x" "x + 4 \<le> c + 16"
  shows "core c L bl (store32 x v m)"
proof -
  obtain a s where g: "(a, s, Gap) \<in> chunks 0 L" "a \<le> c" "c + CONTEXT_SIZE \<le> a + s" using coreD(4) [OF c] by blast
  have out: "x + 4 \<le> b \<or> b + t \<le> x" if "(b, t, k) \<in> chunks 0 L" "k \<noteq> Gap" for b t k
    using chunks_disjoint [OF g(1) that(1)] that(2) g x by (auto simp: CONTEXT_SIZE_def)
  have "tag_ok (store32 x v m) b t k" if "(b, t, k) \<in> chunks 0 L" "tag_ok m b t k" for b t k
    using out [OF that(1)] tag_store_outside [OF that(2)] that by (cases "k = Gap") (auto simp: tag_ok_def)
  then have "same_tags L m (store32 x v m)" unfolding same_tags_def by blast
  moreover have "ring (store32 x v m) (bin_at c i) (bl i)" if i: "i < BIN_NUMBER" for i
  proof -
    have "h_next (store32 x v m) y = h_next m y \<and> h_prev (store32 x v m) y = h_prev m y" if y: "node c L y" for y
    proof -
      obtain b t k where p: "(b, t, k) \<in> chunks 0 L" "b \<le> y" "y + 12 \<le> b + t"
        "k = Gap \<and> c + 16 \<le> y \<and> y + 12 \<le> c + CONTEXT_SIZE \<or> k = Free \<and> b = y \<and> 16 \<le> t" using node_piece [OF c y] by metis
      then have "x + 4 \<le> y + 4 \<or> y + 12 \<le> x" using x out [OF p(1)] by auto
      then show ?thesis by (auto simp: h_next_def h_prev_def load_store_other)
    qed
    then have "ring (store32 x v m) (bin_at c i) (bl i) = ring m (bin_at c i) (bl i)"
      using ring_nodes [OF c i] by (intro links_cong) auto
    with coreD(5) [OF c i] show ?thesis by simp
  qed
  ultimately show ?thesis by (rule core_change [OF c])
qed

lemma context_load:
  assumes "core c L bl m" "kept c L m m'" "c \<le> x" "x + 4 \<le> c + 16"
  shows "load32 m' x = load32 m x"
proof -
  obtain a s where g: "(a, s, Gap) \<in> chunks 0 L" "a \<le> c" "c + CONTEXT_SIZE \<le> a + s" using coreD(4) [OF assms(1)] by blast
  have "m' (x + i) = m (x + i)" if "i < 4" for i
  proof -
    have "a \<le> x + i" "x + i < a + s" "x + i < c + 16" using assms(3,4) g that by (auto simp: CONTEXT_SIZE_def)
    with assms(2) g(1) show ?thesis unfolding kept_def by blast
  qed
  then show ?thesis by (intro load32_cong) simp
qed

lemma bin_search_mono:
  "lo < hi \<Longrightarrow> s \<le> t \<Longrightarrow> bin_search s lo hi \<le> bin_search t lo hi"
proof (induction s lo hi rule: bin_search.induct)
  case (1 s lo hi)
  let ?mid = "(lo + hi) div 2"
  show ?case
  proof (cases "lo + 1 < hi")
    case True
    have mid: "lo < ?mid" "?mid < hi" using True by auto
    consider "bin_sizes ! ?mid \<le> s" | "s < bin_sizes ! ?mid" "bin_sizes ! ?mid \<le> t" | "t < bin_sizes ! ?mid" by linarith
    then show ?thesis
    proof cases
      case 1
      then show ?thesis using "1.IH"(1) [OF True refl 1] True mid "1.prems"
        by (simp add: bin_search.simps [of s lo hi] bin_search.simps [of t lo hi] Let_def)
    next
      case 2
      then show ?thesis using bin_search_range [OF mid(1), of s] bin_search_range [OF mid(2), of t] True
        by (simp add: bin_search.simps [of s lo hi] bin_search.simps [of t lo hi] Let_def)
    next
      case 3
      then show ?thesis using "1.IH"(2) [OF True refl] True mid "1.prems"
        by (simp add: bin_search.simps [of s lo hi] bin_search.simps [of t lo hi] Let_def)
    qed
  next
    case False
    then show ?thesis by (simp add: bin_search.simps [of _ lo hi])
  qed
qed

lemma bin_search_le: "lo < hi \<Longrightarrow> bin_search s lo hi \<noteq> lo \<Longrightarrow> bin_sizes ! bin_search s lo hi \<le> s"
proof (induction s lo hi rule: bin_search.induct)
  case (1 s lo hi)
  let ?mid = "(lo + hi) div 2"
  show ?case
  proof (cases "lo + 1 < hi")
    case True
    have mid: "lo < ?mid" "?mid < hi" using True by auto
    show ?thesis
    proof (cases "bin_sizes ! ?mid \<le> s")
      case le: True
      have eq: "bin_search s lo hi = bin_search s ?mid hi" using True le by (simp add: bin_search.simps [of s lo hi] Let_def)
      show ?thesis using "1.IH"(1) [OF True refl le mid(2)] le unfolding eq by (cases "bin_search s ?mid hi = ?mid") auto
    next
      case gt: False
      have eq: "bin_search s lo hi = bin_search s lo ?mid" using True gt by (simp add: bin_search.simps [of s lo hi] Let_def)
      show ?thesis using "1.IH"(2) [OF True refl gt mid(1)] "1.prems"(2) unfolding eq by simp
    qed
  next
    case False
    then show ?thesis using "1.prems"(2) by (simp add: bin_search.simps [of s lo hi])
  qed
qed

lemma bin_index_mono: "bin_index s < bin_index t \<Longrightarrow> s < t"
  using bin_search_mono [of 0 BIN_NUMBER t s] unfolding bin_index_def by (fastforce simp: BIN_NUMBER_def)

lemma bin_index_last: "s < 2 ^ 31 \<Longrightarrow> bin_index s \<noteq> BIN_NUMBER - 1"
  using bin_search_le [of 0 BIN_NUMBER s] bin_sizes_last unfolding bin_index_def by (fastforce simp: BIN_NUMBER_def)

section \<open>Allocation\<close>

lemma chunk_tag:
  assumes "core c L bl m" "(a, s, Free) \<in> chunks 0 L"
  shows "h_size m a = s" "h_status m a = FREE_STATUS" "16 \<le> s" "s < 2 ^ 31" "a < 2 ^ 32"
  using coreD(1) [OF assms] chunks_range [OF assms(2)] coreD(3) [OF assms(1)]
  by (auto simp: tag_ok_def h_size_def h_status_def FREE_STATUS_def)

lemma bin_empty:
  assumes "core c L bl m" "i < BIN_NUMBER"
  shows "h_next m (bin_at c i) = bin_at c i \<longleftrightarrow> bl i = []" "bl i \<noteq> [] \<Longrightarrow> h_next m (bin_at c i) = hd (bl i)"
  using links_first [OF coreD(5) [OF assms]] ring_nodes(3) [OF assms] by (cases "bl i"; auto)+

lemma nonempty_bin_ok:
  assumes "core (hcontext h) L bl (hmem h)" "i < BIN_NUMBER"
  shows "case nonempty_bin i h of None \<Rightarrow> (\<forall>k. i \<le> k \<longrightarrow> k < BIN_NUMBER \<longrightarrow> bl k = [])
    | Some j \<Rightarrow> i \<le> j \<and> j < BIN_NUMBER \<and> bl j \<noteq> [] \<and> (\<forall>k. i \<le> k \<longrightarrow> k < j \<longrightarrow> bl k = [])"
  using assms(2)
proof (induction "BIN_NUMBER - i" arbitrary: i)
  case (Suc d)
  note e = bin_empty [OF assms(1) Suc.prems]
  show ?case
  proof (cases "bl i = []")
    case False
    then show ?thesis using e Suc.prems by (simp add: nonempty_bin.simps [of i])
  next
    case empty: True
    show ?thesis
    proof (cases "Suc i < BIN_NUMBER")
      case True
      then have eq: "nonempty_bin i h = nonempty_bin (Suc i) h" using e empty by (simp add: nonempty_bin.simps [of i])
      have split: "i \<le> k \<longleftrightarrow> k = i \<or> Suc i \<le> k" for k by auto
      have "d = BIN_NUMBER - Suc i" using Suc.hyps(2) by simp
      from Suc.hyps(1) [OF this True] show ?thesis unfolding eq using empty Suc.prems
        by (auto split: option.splits) (metis Suc_leI le_neq_implies_less)+
    next
      case False
      have "bl k = []" if "i \<le> k" "k < BIN_NUMBER" for k
      proof -
        have "k = i" using that False by simp
        with empty show ?thesis by simp
      qed
      then show ?thesis using e empty False by (simp add: nonempty_bin.simps [of i])
    qed
  qed
qed simp

lemma choose_chunk_ok:
  assumes c: "core (hcontext h) L bl (hmem h)" and r: "r < 2 ^ 31"
  shows "\<exists>x. choose_chunk r h = Inr x \<and> (case x of None \<Rightarrow> \<forall>a s. (a, s, Free) \<in> chunks 0 L \<longrightarrow> s < r
    | Some a \<Rightarrow> \<exists>s. (a, s, Free) \<in> chunks 0 L \<and> r \<le> s)"
proof -
  let ?c = "hcontext h" and ?m = "hmem h" and ?i0 = "bin_index r"
  have free: "(a, s, Free) \<in> chunks 0 L \<Longrightarrow> a \<in> set (bl (bin_index s))" for a s using coreD(7) [OF c, of "bin_index s"] by auto
  have low: "s < r" if "(a, s, Free) \<in> chunks 0 L" "bin_index s < ?i0" for a s using bin_index_mono [OF that(2)] .
  note nb = nonempty_bin_ok [OF c]
  show ?thesis
  proof (cases "nonempty_bin ?i0 h")
    case None
    have "s < r" if "(a, s, Free) \<in> chunks 0 L" for a s
      using nb [of ?i0] None free [OF that] low [OF that] bin_index_less [of s] by (fastforce simp: not_less)
    then show ?thesis using None r by (simp add: choose_chunk_def find_bin_eq)
  next
    case (Some i)
    then have i: "?i0 \<le> i" "i < BIN_NUMBER" "bl i \<noteq> []" "\<And>k. ?i0 \<le> k \<Longrightarrow> k < i \<Longrightarrow> bl k = []"
      using nb [of ?i0] by auto
    let ?y = "hd (dropWhile (\<lambda>x. h_size ?m x < r) (bl i) @ [bin_at ?c i])"
    have fc: "find_chunk (bin_at ?c i) r h = Inr ?y"
      using scan_bin_links [OF coreD(5) [OF c i(2)] ring_nodes(3) [OF c i(2)], of "\<lambda>t. t < r"] by (simp add: find_chunk_def or_hang_def)
    have bi: "a \<in> set (bl i) \<longleftrightarrow> (\<exists>s. (a, s, Free) \<in> chunks 0 L \<and> bin_index s = i)" for a using coreD(7) [OF c i(2)] by auto
    show ?thesis
    proof (cases "\<forall>x \<in> set (bl i). h_size ?m x < r")
      case True
      then have y: "?y = bin_at ?c i" by (simp add: dropWhile_eq_Nil_conv [THEN iffD2])
      have small: "s < r" if "(a, s, Free) \<in> chunks 0 L" "bin_index s \<le> i" for a s
      proof -
        consider "bin_index s < ?i0" | "?i0 \<le> bin_index s" "bin_index s < i" | "bin_index s = i" using \<open>bin_index s \<le> i\<close> by linarith
        then show ?thesis using low [OF that(1)] i(4) free [OF that(1)] True chunk_tag(1) [OF c that(1)] by cases auto
      qed
      have "i \<noteq> BIN_NUMBER - 1"
        using bi i(3) chunk_tag(4) [OF c] bin_index_last by (metis hd_in_set)
      with i(2) have i': "Suc i < BIN_NUMBER" by (simp add: BIN_NUMBER_def)
      show ?thesis
      proof (cases "nonempty_bin (Suc i) h")
        case None
        have "s < r" if "(a, s, Free) \<in> chunks 0 L" for a s
          using nb [OF i'] None free [OF that] small [OF that] bin_index_less [of s] by (fastforce simp: not_less Suc_le_eq)
        then show ?thesis using None Some r y fc by (simp add: choose_chunk_def find_bin_eq Let_def)
      next
        case (Some j)
        then have j: "Suc i \<le> j" "j < BIN_NUMBER" "bl j \<noteq> []" using nb [OF i'] by auto
        then have "hd (bl j) \<in> set (bl j)" by simp
        then obtain s where s: "(hd (bl j), s, Free) \<in> chunks 0 L" "bin_index s = j" using coreD(7) [OF c j(2)] by auto
        have "r < s" using bin_index_mono [of r s] s(2) i(1) j(1) by simp
        with s(1) Some \<open>nonempty_bin ?i0 h = Some i\<close> r y fc bin_empty(2) [OF c j(2,3)] show ?thesis
          by (auto simp: choose_chunk_def find_bin_eq Let_def)
      qed
    next
      case False
      then have ne: "dropWhile (\<lambda>x. h_size ?m x < r) (bl i) \<noteq> []" by (simp add: dropWhile_eq_Nil_conv)
      then have y: "?y \<in> set (bl i)" "r \<le> h_size ?m ?y"
        using set_dropWhileD [OF hd_in_set [OF ne]] hd_dropWhile [OF ne] by (auto simp: not_less)
      then obtain s where s: "(?y, s, Free) \<in> chunks 0 L" using bi by auto
      moreover have "?y \<noteq> bin_at ?c i" using y(1) ring_nodes(3) [OF c i(2)] by auto
      moreover have "r \<le> s" using chunk_tag(1) [OF c s] y(2) by simp
      ultimately show ?thesis using Some r fc by (auto simp: choose_chunk_def find_bin_eq Let_def)
    qed
  qed
qed

text \<open>The layout after an allocation of \<open>r\<close> bytes from a free chunk of \<open>s\<close> bytes, which may take it whole.\<close>

definition split_layout :: "layout \<Rightarrow> nat \<Rightarrow> nat \<Rightarrow> layout \<Rightarrow> layout" where
  "split_layout A r s B = (if s - r < MIN_FREE_CHUNK_SIZE then A @ (s, Used) # B else A @ (r, Used) # (s - r, Free) # B)"

lemma kept_context_store:
  assumes "c \<le> x" "x + 4 \<le> c + 16"
  shows "\<And>y. y < c \<or> c + 16 \<le> y \<Longrightarrow> store32 x v m y = m y"
  using assms by (intro store32_apply) auto

text \<open>Bytes outside the context of the used chunks and the gaps.\<close>

definition payload_same :: "nat \<Rightarrow> layout \<Rightarrow> memory \<Rightarrow> memory \<Rightarrow> bool" where
  "payload_same c L m m' \<longleftrightarrow> (\<forall>a s k x. (a, s, k) \<in> chunks 0 L \<longrightarrow> k = Used \<or> k = Bound \<or> k = Gap \<longrightarrow> a \<le> x \<longrightarrow> x < a + s \<longrightarrow>
     x < c \<or> c + CONTEXT_SIZE \<le> x \<longrightarrow> m' x = m x)"

lemma kept_payload: "kept c L m m' \<Longrightarrow> payload_same c L m m'"
  unfolding kept_def payload_same_def by (metis trans_less_add1)

lemma payload_trans: "payload_same c L m m1 \<Longrightarrow> payload_same c L m1 m2 \<Longrightarrow> payload_same c L m m2"
  unfolding payload_same_def by metis

lemma payload_context_store: "c \<le> x \<Longrightarrow> x + 4 \<le> c + 16 \<Longrightarrow> payload_same c L m (store32 x v m)"
  unfolding payload_same_def by (auto intro!: store32_apply simp: CONTEXT_SIZE_def)

lemma payload_mono: "payload_same c L m m' \<Longrightarrow> (\<And>a s k. (a, s, k) \<in> chunks 0 L' \<Longrightarrow> k = Used \<or> k = Bound \<or> k = Gap \<Longrightarrow> (a, s, k) \<in> chunks 0 L)
   \<Longrightarrow> payload_same c L' m m'"
  unfolding payload_same_def by blast

lemma hstore_simps [simp]: "hcontext (hstore f v h) = hcontext h" "hmem (hstore f v h) = store32 (f (hcontext h)) v (hmem h)"
  by (simp_all add: hstore_def)

lemmas context_fields = free_memory_at_def last_chunk_size_at_def external_alloc_at_def last_chunk_at_def

text \<open>Writing the tags of a used chunk.\<close>

definition mark_used :: "nat \<Rightarrow> nat \<Rightarrow> memory \<Rightarrow> memory" where
  "mark_used a s m = store32 (a + s - 4) s (set_prev a 0 (set_next a 0 (set_size a s (set_status a INUSE_STATUS m))))"

lemma mark_used_ok:
  assumes c: "core c (A @ (s, Loose) # B) bl m" and s: "16 \<le> s" "s < 2 ^ 31"
  shows "core c (A @ (s, Used) # B) bl (mark_used (extent A) s m)" "kept c (A @ (s, Loose) # B) m (mark_used (extent A) s m)"
proof -
  let ?a = "extent A" and ?L = "A @ (s, Loose) # B"
  let ?m1 = "set_size ?a s (set_status ?a INUSE_STATUS m)" let ?m2 = "set_next ?a 0 ?m1" let ?m3 = "set_prev ?a 0 ?m2"
  have c1: "core c ?L bl ?m1" "kept c ?L m ?m1" "load32 ?m1 ?a = 2 * s + 1" using loose_tag(1-3) [OF c s, of 1] by (simp_all add: INUSE_STATUS_def)
  have c2: "core c ?L bl ?m2" "kept c ?L m ?m2"
    using loose_store [OF c1(1), of "?a + 4" 0] kept_trans [OF c1(2)] s(1) by (auto simp: set_next_def)
  have c3: "core c ?L bl ?m3" "kept c ?L m ?m3"
    using loose_store [OF c2(1), of "?a + 8" 0] kept_trans [OF c2(2)] s(1) by (auto simp: set_prev_def)
  have c4: "core c ?L bl (mark_used ?a s m)" "kept c ?L m (mark_used ?a s m)"
    using loose_store [OF c3(1), of "?a + s - 4" s] kept_trans [OF c3(2)] s(1) by (auto simp: mark_used_def)
  have "tag_ok (mark_used ?a s m) ?a s Used"
    using c1(3) s by (auto simp: tag_ok_def mark_used_def set_prev_def set_next_def load_store_other)
  then show "core c (A @ (s, Used) # B) bl (mark_used ?a s m)" by (intro core_use [OF c4(1)]) auto
  show "kept c ?L m (mark_used ?a s m)" by (rule c4(2))
qed

lemma kept_relabel: "kept c (A @ (s, Loose) # B) m m' \<Longrightarrow> k = Free \<or> k = Loose \<Longrightarrow> kept c (A @ (s, k) # B) m m'"
  unfolding kept_def by auto

text \<open>The end of \<open>split_chunk\<close>: the accounts, after the tags.\<close>

definition account :: "nat \<Rightarrow> nat \<Rightarrow> nat \<Rightarrow> memory \<Rightarrow> memory" where
  "account c used left m =
     store32 (c + 4) left (store32 c (sub32 (load32 m c) used) m)"

lemma sub32_bound: "sub32 a b < 2 ^ 32"
proof -
  have "(int a - int b) mod 2 ^ 32 < 2 ^ 32" by (rule pos_mod_bound) simp
  then show ?thesis unfolding sub32_def by (simp add: nat_less_iff)
qed

lemma account_ok:
  assumes "core c L bl m" "left < 2 ^ 32"
  shows "core c L bl (account c used left m)" "payload_same c L m (account c used left m)"
    "load32 (account c used left m) c = sub32 (load32 m c) used" "load32 (account c used left m) (c + 4) = left"
    "load32 (account c used left m) (c + 8) = load32 m (c + 8)" "load32 (account c used left m) (c + 12) = load32 m (c + 12)"
proof -
  let ?m1 = "store32 c (sub32 (load32 m c) used) m"
  have 1: "core c L bl ?m1" "payload_same c L m ?m1" using context_store [OF assms(1), of c] payload_context_store [of c c] by simp_all
  show "core c L bl (account c used left m)" "payload_same c L m (account c used left m)"
    using context_store [OF 1(1), of "c + 4"] payload_trans [OF 1(2) payload_context_store, of "c + 4"] by (simp_all add: account_def)
  show "load32 (account c used left m) c = sub32 (load32 m c) used" "load32 (account c used left m) (c + 4) = left"
    "load32 (account c used left m) (c + 8) = load32 m (c + 8)" "load32 (account c used left m) (c + 12) = load32 m (c + 12)"
    using assms(2) sub32_bound by (simp_all add: account_def load_store_other)
qed

lemma split_chunk_ok:
  fixes h :: "'z heap_scheme"
  assumes c: "core (hcontext h) (A @ (s, Loose) # B) bl (hmem h)" and hs: "h_size (hmem h) (extent A) = s"
    and s: "16 \<le> r" "r \<le> s" "s < 2 ^ 31"
  shows "\<exists>m' bl'. split_chunk (extent A) r h = Inr (extent A + 4, h\<lparr>hmem := m'\<rparr>)
    \<and> core (hcontext h) (split_layout A r s B) bl' m' \<and> payload_same (hcontext h) (A @ (s, Loose) # B) (hmem h) m'
    \<and> load32 m' (hcontext h) = sub32 (hload free_memory_at h) (if s - r < 16 then s else r)
    \<and> load32 m' (hcontext h + 4) = (if s - r < 16 then 0 else s - r)
    \<and> load32 m' (hcontext h + 8) = hload external_alloc_at h
    \<and> (\<not> s - r < 16 \<longrightarrow> load32 m' (hcontext h + 12) = extent A + r)"
proof -
  let ?c = "hcontext h" and ?a = "extent A" and ?m = "hmem h"
  have left: "sub32 s r = s - r" using s by (intro sub32_eq) auto
  show ?thesis
  proof (cases "s - r < 16")
    case True
    let ?m1 = "mark_used ?a s ?m"
    have u: "core ?c (A @ (s, Used) # B) bl ?m1" "kept ?c (A @ (s, Loose) # B) ?m ?m1" using mark_used_ok [OF c] s by simp_all
    have eq: "split_chunk ?a r h = Inr (?a + 4, h\<lparr>hmem := account ?c s 0 ?m1\<rparr>)"
      using True s(2)
      by (simp add: split_chunk_def hs left MIN_FREE_CHUNK_SIZE_def Let_def upd_mem_def hstore_def hload_def account_def mark_used_def context_fields)
    have same: "load32 ?m1 x = load32 ?m x" if "?c \<le> x" "x + 4 \<le> ?c + 16" for x using context_load [OF c u(2) that] .
    note a = account_ok [OF u(1), of 0 s]
    have "payload_same ?c (A @ (s, Loose) # B) ?m (account ?c s 0 ?m1)"
      by (rule payload_trans [OF kept_payload [OF u(2)]], rule payload_mono [OF a(2)]) auto
    then show ?thesis using True eq a same [of ?c] same [of "?c + 8"]
      by (intro exI [of _ "account ?c s 0 ?m1"] exI [of _ bl]) (simp add: split_layout_def MIN_FREE_CHUNK_SIZE_def hload_def context_fields)
  next
    case False
    let ?t = "s - r" and ?L = "A @ (s, Loose) # B"
    let ?L1 = "(A @ [(r, Loose)]) @ (?t, Loose) # B"
    let ?L2 = "A @ (r, Loose) # (?t, Free) # B"
    define h1 where "h1 = hstore last_chunk_at (?a + r) h"
    have h1: "hcontext h1 = ?c" "hmem h1 = store32 (?c + 12) (?a + r) ?m" by (simp_all add: h1_def context_fields)
    have lt: "?a + r < 2 ^ 32" using coreD(3) [OF c] False by simp
    have t: "16 \<le> ?t" "?t < 2 ^ 31" using False s by simp_all
    have "core ?c ?L1 bl ?m" using c core_join [of r ?t ?c A B bl ?m] False s by simp
    then have c1: "core (hcontext h1) ?L1 bl (hmem h1)" unfolding h1 by (rule context_store) simp_all
    obtain m2 bl2 where m2: "add_free_chunk (?a + r) ?t h1 = Inr (h1\<lparr>hmem := m2\<rparr>)"
      "core ?c ((A @ [(r, Loose)]) @ (?t, Free) # B) bl2 m2" "kept ?c ?L1 (hmem h1) m2"
      using add_free_chunk_ok [OF c1 t] h1(1) by auto
    have c2: "core ?c ?L2 bl2 m2" using m2(2) by simp
    let ?m3 = "mark_used ?a r m2"
    have u: "core ?c (A @ (r, Used) # (?t, Free) # B) bl2 ?m3" "kept ?c ?L2 m2 ?m3" using mark_used_ok [OF c2] s by simp_all
    have hl: "hload last_chunk_at h1 = ?a + r" using lt by (simp add: hload_def h1 context_fields)
    have h1m: "h1\<lparr>hmem := m2\<rparr> = h\<lparr>hmem := m2\<rparr>" by (simp add: h1_def hstore_def upd_mem_def)
    have eq: "split_chunk ?a r h = Inr (?a + 4, h\<lparr>hmem := account ?c r ?t ?m3\<rparr>)"
      using False
      by (simp add: split_chunk_def hs left MIN_FREE_CHUNK_SIZE_def Let_def h1_def [symmetric] hl m2(1) h1m)
        (simp add: upd_mem_def hstore_def hload_def account_def mark_used_def context_fields)
    have same: "load32 ?m3 x = load32 (hmem h1) x" if "?c \<le> x" "x + 4 \<le> ?c + 16" for x
      using context_load [OF c2 u(2) that] context_load [OF c1 [unfolded h1(1)] m2(3) that] by simp
    have t32: "?t < 2 ^ 32" using s by simp
    note a = account_ok [OF u(1) t32, of r]
    have pay: "payload_same ?c ?L ?m (account ?c r ?t ?m3)"
    proof -
      have 0: "payload_same ?c ?L ?m (hmem h1)" unfolding h1 by (rule payload_context_store) simp_all
      have 1: "payload_same ?c ?L (hmem h1) m2" by (rule payload_mono [OF kept_payload [OF m2(3)]]) (use False s in \<open>auto simp: add.assoc\<close>)
      have 2: "payload_same ?c ?L m2 ?m3" by (rule payload_mono [OF kept_payload [OF u(2)]]) (use False s in \<open>auto simp: add.assoc\<close>)
      have 3: "payload_same ?c ?L ?m3 (account ?c r ?t ?m3)" by (rule payload_mono [OF a(2)]) (use False s in \<open>auto simp: add.assoc\<close>)
      from 0 1 2 3 payload_trans show ?thesis by blast
    qed
    have "load32 (hmem h1) ?c = hload free_memory_at h" "load32 (hmem h1) (?c + 8) = hload external_alloc_at h"
      "load32 (hmem h1) (?c + 12) = ?a + r"
      using lt by (simp_all add: h1 hload_def context_fields load_store_other)
    then show ?thesis using False eq a same [of ?c] same [of "?c + 8"] same [of "?c + 12"] pay
      by (intro exI [of _ "account ?c r ?t ?m3"] exI [of _ bl2]) (simp add: split_layout_def MIN_FREE_CHUNK_SIZE_def)
  qed
qed

end
