(* ===== verification/Malloc_Ops.thy ===== *)
theory Malloc_Ops
  imports Malloc_Heap
begin

text \<open>
  What the operations of \<open>src/system/malloc/malloc.c\<close> do to the layout of the heap: the invariant of the
  allocator, that \<open>init_malloc\<close> establishes it, and that \<open>malloc\<close> and \<open>free\<close> keep it.
\<close>

section \<open>The invariant\<close>

definition free_total :: "layout \<Rightarrow> nat" where
  "free_total L = sum_list (map (\<lambda>x. if snd x = Free then fst x else 0) L)"

definition managed :: "layout \<Rightarrow> nat" where
  "managed L = sum_list (map (\<lambda>x. if snd x = Free \<or> snd x = Used then fst x else 0) L)"

text \<open>
  Chunks only touch chunks and bounds, so that the words before and after a chunk are tags; two free chunks
  never touch.
\<close>

definition adjoin :: "kind \<Rightarrow> kind \<Rightarrow> bool" where
  "adjoin k l \<longleftrightarrow> k \<noteq> Loose \<and> l \<noteq> Loose \<and> (k = Gap \<longrightarrow> l = Gap \<or> l = Bound) \<and> (l = Gap \<longrightarrow> k = Gap \<or> k = Bound)
     \<and> \<not> (k = Free \<and> l = Free)"

definition shape :: "layout \<Rightarrow> bool" where
  "shape L \<longleftrightarrow> successively adjoin (Gap # map snd L @ [Gap])"

text \<open>The chunk the next small request is cut from, when there is one.\<close>

definition last_ok :: "'z heap_scheme \<Rightarrow> layout \<Rightarrow> bool" where
  "last_ok h L \<longleftrightarrow> hload last_chunk_size_at h = 0 \<or>
     (\<exists>s. hload last_chunk_size_at h \<le> s \<and> (hload last_chunk_at h, s, Free) \<in> chunks 0 L)"

definition heap_inv :: "'z heap_scheme \<Rightarrow> layout \<Rightarrow> bool" where
  "heap_inv h L \<longleftrightarrow> (\<exists>bl. core (hcontext h) L bl (hmem h)) \<and> hload free_memory_at h = free_total L
     \<and> last_ok h L \<and> shape L \<and> managed L < 2 ^ 31"

lemma totals_simps [simp]:
  "free_total [] = 0" "free_total (x # L) = (if snd x = Free then fst x else 0) + free_total L"
  "free_total (A @ B) = free_total A + free_total B"
  "managed [] = 0" "managed (x # L) = (if snd x = Free \<or> snd x = Used then fst x else 0) + managed L"
  "managed (A @ B) = managed A + managed B"
  by (simp_all add: free_total_def managed_def)

lemma free_le_managed: "free_total L \<le> managed L"
  by (induction L) auto

lemma chunks_split:
  assumes "(a, s, k) \<in> chunks 0 L"
  obtains A B where "L = A @ (s, k) # B" "a = extent A"
proof -
  have "(a, s, k) \<in> chunks b L \<Longrightarrow> \<exists>A B. L = A @ (s, k) # B \<and> a = b + extent A" for b
  proof (induction L arbitrary: b)
    case (Cons x L)
    show ?case
    proof (cases "(a, s, k) = (b, fst x, snd x)")
      case True
      then have "x # L = [] @ (s, k) # L \<and> a = b + extent []" by (cases x) simp
      then show ?thesis by blast
    next
      case False
      then have "(a, s, k) \<in> chunks (b + fst x) L" using Cons.prems by auto
      then obtain A B where "L = A @ (s, k) # B" "a = b + fst x + extent A" using Cons.IH by blast
      then have "x # L = (x # A) @ (s, k) # B \<and> a = b + extent (x # A)" by simp
      then show ?thesis by blast
    qed
  qed simp
  from this [of 0] assms that show thesis by auto
qed

lemma shape_split:
  "shape (A @ (s, k) # B) \<longleftrightarrow> successively adjoin (Gap # map snd A) \<and> adjoin (last (Gap # map snd A)) k
     \<and> adjoin k (hd (map snd B @ [Gap])) \<and> successively adjoin (map snd B @ [Gap])"
  by (auto simp: shape_def successively_Cons successively_append_iff)

lemma shape_split_layout: "shape (A @ (s, Free) # B) \<Longrightarrow> shape (split_layout A r s B)"
  unfolding split_layout_def shape_split by (auto simp: adjoin_def successively_Cons shape_split)

lemma totals_split_layout:
  assumes "r \<le> s"
  shows "free_total (split_layout A r s B) = free_total (A @ (s, Free) # B) - (if s - r < 16 then s else r)"
    "managed (split_layout A r s B) = managed (A @ (s, Free) # B)"
  using assms by (auto simp: split_layout_def MIN_FREE_CHUNK_SIZE_def)

section \<open>Allocation\<close>

lemma request_size_eq: "n + 8 < 2 ^ 32 \<Longrightarrow> request_size n = max 16 (n + 8)"
  by (simp add: request_size_def add32_def MIN_INUSE_CHUNK_SIZE_def MIN_FREE_CHUNK_SIZE_def)

lemma unlink_size:
  assumes "core c (A @ (s, Free) # B) bl m"
  shows "h_size (unlink (extent A) m) (extent A) = s"
proof -
  have p: "(extent A, s, Free) \<in> chunks 0 (A @ (s, Free) # B)" by simp
  then have "tag_ok (unlink (extent A) m) (extent A) s Free"
    using coreD(1) [OF assms p] unlink_ok(3) [OF assms] unfolding same_tags_def by fastforce
  then show ?thesis by (simp add: tag_ok_def h_size_def)
qed

lemma carve_ok:
  fixes h :: "'z heap_scheme"
  assumes inv: "heap_inv h (A @ (s, Free) # B)" and r: "16 \<le> r" "r \<le> s"
  shows "\<exists>h'. split_chunk (extent A) r (upd_mem (unlink (extent A)) h) = Inr (extent A + 4, h')
    \<and> heap_inv h' (split_layout A r s B) \<and> payload_same (hcontext h) (A @ (s, Free) # B) (hmem h) (hmem h')
    \<and> hcontext h' = hcontext h \<and> hload external_alloc_at h' = hload external_alloc_at h"
proof -
  let ?c = "hcontext h" and ?a = "extent A" and ?L = "A @ (s, Free) # B"
  obtain bl where c: "core ?c ?L bl (hmem h)" using inv by (auto simp: heap_inv_def)
  have s: "s < 2 ^ 31" "s \<le> free_total ?L" "free_total ?L < 2 ^ 31"
    using inv free_le_managed [of ?L] by (auto simp: heap_inv_def)
  let ?h1 = "upd_mem (unlink ?a) h"
  note u = unlink_ok [OF c bin_index_less] and us = unlink_size [OF c]
  have same: "hload f ?h1 = hload f h" if "?c \<le> f ?c" "f ?c + 4 \<le> ?c + 16" for f
    using context_load [OF c u(2) that] by (simp add: hload_def)
  have fields: "hload free_memory_at ?h1 = hload free_memory_at h" "hload external_alloc_at ?h1 = hload external_alloc_at h"
    by (rule same; simp add: context_fields)+
  have "core (hcontext ?h1) (A @ (s, Loose) # B) (bl(bin_index s := remove1 ?a (bl (bin_index s)))) (hmem ?h1)"
    "h_size (hmem ?h1) ?a = s" using u(1) us by simp_all
  from split_chunk_ok [OF this r s(1)] obtain m' bl' where m':
    "split_chunk ?a r ?h1 = Inr (?a + 4, ?h1\<lparr>hmem := m'\<rparr>)" "core ?c (split_layout A r s B) bl' m'"
    "payload_same ?c (A @ (s, Loose) # B) (unlink ?a (hmem h)) m'"
    "load32 m' ?c = sub32 (hload free_memory_at h) (if s - r < 16 then s else r)"
    "load32 m' (?c + 4) = (if s - r < 16 then 0 else s - r)" "load32 m' (?c + 8) = hload external_alloc_at h"
    "\<not> s - r < 16 \<longrightarrow> load32 m' (?c + 12) = ?a + r"
    unfolding fields by auto
  let ?h' = "?h1\<lparr>hmem := m'\<rparr>"
  have "sub32 (free_total ?L) (if s - r < 16 then s else r) = free_total (split_layout A r s B)"
    using s r totals_split_layout(1) [OF r(2), of A B] by (subst sub32_eq) auto
  then have "hload free_memory_at ?h' = free_total (split_layout A r s B)"
    using m'(4) inv by (simp add: hload_def heap_inv_def context_fields)
  moreover have "last_ok ?h' (split_layout A r s B)"
    using m'(5,7) by (auto simp: last_ok_def hload_def context_fields split_layout_def MIN_FREE_CHUNK_SIZE_def)
  moreover have "shape (split_layout A r s B)" "managed (split_layout A r s B) < 2 ^ 31"
    using inv shape_split_layout [of A s B r] totals_split_layout(2) [OF r(2), of A B] by (auto simp: heap_inv_def)
  ultimately have "heap_inv ?h' (split_layout A r s B)" using m'(2) by (auto simp: heap_inv_def)
  moreover have "payload_same ?c ?L (hmem h) m'"
    using payload_trans [OF kept_payload [OF u(2)] payload_mono [OF m'(3)]] by auto
  ultimately show ?thesis using m'(1,6) by (auto simp: hload_def context_fields)
qed

lemma take_chunk_ok:
  fixes h :: "'z heap_scheme"
  assumes inv: "heap_inv h L" and r: "16 \<le> r" and a: "(a, s, Free) \<in> chunks 0 L" "r \<le> s"
  shows "\<exists>A t B h'. L = A @ (t, Free) # B \<and> r \<le> t \<and> take_chunk r a h = Inr (extent A + 4, h')
    \<and> heap_inv h' (split_layout A r t B) \<and> payload_same (hcontext h) L (hmem h) (hmem h')
    \<and> hcontext h' = hcontext h \<and> hload external_alloc_at h' = hload external_alloc_at h"
proof -
  let ?small = "r < h_size (hmem h) a \<and> r \<le> hload last_chunk_size_at h \<and> r \<le> MAX_SMALL_REQUEST"
  define b where "b = (if ?small then hload last_chunk_at h else a)"
  have eq: "take_chunk r a h = split_chunk b r (upd_mem (unlink b) h)" by (simp add: take_chunk_def b_def Let_def)
  obtain t where t: "(b, t, Free) \<in> chunks 0 L" "r \<le> t"
  proof (cases ?small)
    case True
    then show thesis using that inv r by (auto simp: heap_inv_def last_ok_def b_def)
  next
    case False
    then have "b = a" unfolding b_def by (simp only: if_False)
    then show thesis using that a by simp
  qed
  obtain A B where "L = A @ (t, Free) # B" "b = extent A" by (rule chunks_split [OF t(1)])
  note AB = this
  have "heap_inv h (A @ (t, Free) # B)" using inv AB(1) by simp
  from carve_ok [OF this r t(2)] show ?thesis unfolding eq AB(2) using AB(1) t(2) by (intro exI [of _ A] exI [of _ t] exI [of _ B]) simp
qed

lemma malloc_no_memory:
  assumes "hload external_alloc_at h = 0" "request_size n > hload free_memory_at h \<or> choose_chunk (request_size n) h = Inr None"
  shows "malloc ext n h = Some (Inr (0, h))"
  using assms by (subst malloc.simps) (auto simp: oom_buffer_def Let_def)

lemma malloc_chosen:
  assumes "request_size n \<le> hload free_memory_at h" "choose_chunk (request_size n) h = Inr (Some a)"
  shows "malloc ext n h = Some (take_chunk (request_size n) a h)"
  using assms by (subst malloc.simps) simp

lemma free_chunk_le: "(a, s, Free) \<in> chunks b L \<Longrightarrow> s \<le> free_total L"
  by (induction L arbitrary: b) fastforce+

lemma malloc_ok:
  fixes h :: "'z heap_scheme"
  assumes inv: "heap_inv h L" and n: "n + 8 < 2 ^ 32" and ext: "hload external_alloc_at h = 0"
  shows "malloc ext n h = Some (Inr (0, h)) \<and> (\<forall>a s. (a, s, Free) \<in> chunks 0 L \<longrightarrow> s < max 16 (n + 8))
    \<or> (\<exists>A s B h'. L = A @ (s, Free) # B \<and> max 16 (n + 8) \<le> s \<and> malloc ext n h = Some (Inr (extent A + 4, h'))
        \<and> heap_inv h' (split_layout A (max 16 (n + 8)) s B) \<and> payload_same (hcontext h) L (hmem h) (hmem h')
        \<and> hcontext h' = hcontext h \<and> hload external_alloc_at h' = 0)"
proof -
  let ?r = "max 16 (n + 8)"
  note r = request_size_eq [OF n]
  obtain bl where c: "core (hcontext h) L bl (hmem h)" using inv by (auto simp: heap_inv_def)
  have f: "hload free_memory_at h = free_total L" "free_total L < 2 ^ 31"
    using inv free_le_managed [of L] by (auto simp: heap_inv_def)
  show ?thesis
  proof (cases "?r > free_total L")
    case True
    have "s < ?r" if "(a, s, Free) \<in> chunks 0 L" for a s using free_chunk_le [OF that] True by simp
    then show ?thesis using malloc_no_memory [OF ext] r f True by metis
  next
    case False
    then have "?r < 2 ^ 31" using f by simp
    then obtain x where x: "choose_chunk ?r h = Inr x" "case x of None \<Rightarrow> \<forall>a s. (a, s, Free) \<in> chunks 0 L \<longrightarrow> s < ?r
      | Some a \<Rightarrow> \<exists>s. (a, s, Free) \<in> chunks 0 L \<and> ?r \<le> s" using choose_chunk_ok [OF c] by blast
    show ?thesis
    proof (cases x)
      case None
      then show ?thesis using malloc_no_memory [OF ext] r x by auto
    next
      case (Some a)
      then obtain s where "(a, s, Free) \<in> chunks 0 L" "?r \<le> s" using x(2) by auto
      from take_chunk_ok [OF inv _ this] malloc_chosen [of n h a ext] r Some x(1) f(1) False ext show ?thesis by auto
    qed
  qed
qed

section \<open>Release\<close>

text \<open>The pieces before and after the chunk that is freed, when they are free and join it.\<close>

definition left_free :: "layout \<Rightarrow> bool" where "left_free A \<longleftrightarrow> A \<noteq> [] \<and> snd (last A) = Free"
definition left_rest :: "layout \<Rightarrow> layout" where "left_rest A = (if left_free A then butlast A else A)"
definition left_gain :: "layout \<Rightarrow> nat" where "left_gain A = (if left_free A then fst (last A) else 0)"
definition right_free :: "layout \<Rightarrow> bool" where "right_free B \<longleftrightarrow> B \<noteq> [] \<and> snd (hd B) = Free"
definition right_rest :: "layout \<Rightarrow> layout" where "right_rest B = (if right_free B then tl B else B)"
definition right_gain :: "layout \<Rightarrow> nat" where "right_gain B = (if right_free B then fst (hd B) else 0)"

definition free_layout :: "layout \<Rightarrow> nat \<Rightarrow> layout \<Rightarrow> layout" where
  "free_layout A s B = left_rest A @ (s + left_gain A + right_gain B, Free) # right_rest B"

lemmas left_defs = left_free_def left_rest_def left_gain_def
lemmas right_defs = right_free_def right_rest_def right_gain_def

definition tagged :: "kind \<Rightarrow> bool" where "tagged k \<longleftrightarrow> k = Free \<or> k = Used \<or> k = Bound"

lemma tagged_chunk:
  assumes "core c L bl m" "(a, s, k) \<in> chunks 0 L" "tagged k"
  shows "h_size m a = s" "h_status m a = (if k = Free then FREE_STATUS else INUSE_STATUS)" "load32 m (a + s - 4) = s" "8 \<le> s"
  using coreD(1) [OF assms(1,2)] assms(3)
  by (auto simp: tagged_def tag_ok_def h_size_def h_status_def FREE_STATUS_def INUSE_STATUS_def add.commute)

lemma join_previous_ok:
  fixes h :: "'z heap_scheme"
  assumes c: "core (hcontext h) (A @ (s, Loose) # B) bl (hmem h)" and A: "A \<noteq> []" "tagged (snd (last A))" and s: "0 < s"
  shows "\<exists>m' bl'. join_previous (extent A) s h = Inr (extent (left_rest A), s + left_gain A, h\<lparr>hmem := m'\<rparr>)
    \<and> core (hcontext h) (left_rest A @ (s + left_gain A, Loose) # B) bl' m' \<and> kept (hcontext h) (A @ (s, Loose) # B) (hmem h) m'"
proof -
  obtain A' t k where sp: "A = A' @ [(t, k)]" using A(1) by (metis prod.exhaust rev_exhaust)
  have k: "tagged k" and e: "extent A = extent A' + t" using A(2) sp by simp_all
  have p: "(extent A', t, k) \<in> chunks 0 (A @ (s, Loose) # B)" using sp by simp
  note tag = tagged_chunk [OF c p k]
  show ?thesis
  proof (cases "k = Free")
    case True
    have c': "core (hcontext h) (A' @ (t, Free) # (s, Loose) # B) bl (hmem h)" using c sp True by simp
    note u = unlink_ok [OF c' bin_index_less] and us = unlink_size [OF c']
    have "join_previous (extent A) s h = Inr (extent A', s + t, h\<lparr>hmem := unlink (extent A') (hmem h)\<rparr>)"
      using tag us True by (simp add: join_previous_def Let_def e upd_mem_def)
    moreover have "core (hcontext h) (A' @ (s + t, Loose) # B) (bl(bin_index t := remove1 (extent A') (bl (bin_index t)))) (unlink (extent A') (hmem h))"
      using u(1) core_join [of t s "hcontext h" A' B] s tag(4) by (simp add: add.commute)
    ultimately show ?thesis using u(2) sp True by (auto simp: left_defs)
  next
    case False
    then have "join_previous (extent A) s h = Inr (extent A, s, h)"
      using tag by (simp add: join_previous_def Let_def e INUSE_STATUS_def FREE_STATUS_def)
    moreover have "h = h\<lparr>hmem := hmem h\<rparr>" by simp
    ultimately show ?thesis using c sp False by (auto simp: left_defs intro!: exI [of _ "hmem h"] exI [of _ bl])
  qed
qed

lemma join_next_ok:
  fixes h :: "'z heap_scheme"
  assumes c: "core (hcontext h) (A @ (s, Loose) # B) bl (hmem h)" and B: "B \<noteq> []" "tagged (snd (hd B))" and s: "4 \<le> s"
  shows "\<exists>m' bl'. join_next (extent A + s) s h = Inr (s + right_gain B, h\<lparr>hmem := m'\<rparr>)
    \<and> core (hcontext h) (A @ (s + right_gain B, Loose) # right_rest B) bl' m' \<and> payload_same (hcontext h) (A @ (s, Loose) # B) (hmem h) m'
    \<and> load32 m' (hcontext h) = hload free_memory_at h
    \<and> load32 m' (hcontext h + 4) = (if right_free B \<and> hload last_chunk_at h = extent A + s then 0 else hload last_chunk_size_at h)
    \<and> load32 m' (hcontext h + 8) = hload external_alloc_at h \<and> load32 m' (hcontext h + 12) = hload last_chunk_at h"
proof -
  let ?c = "hcontext h" and ?a = "extent A + s"
  obtain B' t k where sp: "B = (t, k) # B'" using B(1) by (metis prod.exhaust neq_Nil_conv)
  have k: "tagged k" using B(2) sp by simp
  have p: "(?a, t, k) \<in> chunks 0 (A @ (s, Loose) # B)" using sp by simp
  note tag = tagged_chunk [OF c p k]
  have foot: "?a - 4 + t = ?a + t - 4" using s by simp
  show ?thesis
  proof (cases "k = Free")
    case True
    let ?A1 = "A @ [(s, Loose)]"
    let ?m1 = "unlink ?a (hmem h)"
    let ?m2 = "if hload last_chunk_at h = ?a then store32 (?c + 4) 0 ?m1 else ?m1"
    have c': "core ?c (?A1 @ (t, Free) # B') bl (hmem h)" using c sp True by simp
    have e: "extent ?A1 = ?a" by simp
    note u = unlink_ok [OF c' bin_index_less, unfolded e] and us = unlink_size [OF c', unfolded e]
    have same: "load32 ?m1 x = load32 (hmem h) x" if "?c \<le> x" "x + 4 \<le> ?c + 16" for x using context_load [OF c' u(2) that] .
    have c1: "core ?c (A @ (s + t, Loose) # B') (bl(bin_index t := remove1 ?a (bl (bin_index t)))) ?m1"
      using u(1) core_join [of s t ?c A B'] s tag(4) by simp
    have "join_next ?a s h = Inr (s + t, h\<lparr>hmem := ?m2\<rparr>)"
      using tag us True same [of "?c + 12"] foot
      by (simp add: join_next_def Let_def upd_mem_def hload_def hstore_def context_fields)
    moreover have "core ?c (A @ (s + t, Loose) # B') (bl(bin_index t := remove1 ?a (bl (bin_index t)))) ?m2"
      using c1 context_store [OF c1, of "?c + 4" 0] by simp
    moreover have "payload_same ?c (A @ (s, Loose) # B) (hmem h) ?m2"
      using kept_payload [OF u(2)] payload_trans [OF kept_payload [OF u(2)] payload_context_store [of ?c "?c + 4" _ _ 0]] sp True by simp
    ultimately show ?thesis using sp True same [of ?c] same [of "?c + 4"] same [of "?c + 8"] same [of "?c + 12"]
      by (intro exI [of _ ?m2]) (auto simp: right_defs hload_def context_fields load_store_other)
  next
    case False
    then have "join_next ?a s h = Inr (s, h)"
      using tag by (simp add: join_next_def Let_def INUSE_STATUS_def FREE_STATUS_def)
    moreover have "h = h\<lparr>hmem := hmem h\<rparr>" by simp
    ultimately show ?thesis using c sp False kept_payload [OF kept_refl]
      by (auto simp: right_defs hload_def context_fields intro!: exI [of _ "hmem h"] exI [of _ bl])
  qed
qed

lemma shape_around:
  assumes "shape (A @ (s, Used) # B)"
  shows "A \<noteq> []" "tagged (snd (last A))" "B \<noteq> []" "tagged (snd (hd B))"
proof -
  have a: "adjoin (last (Gap # map snd A)) Used" "adjoin Used (hd (map snd B @ [Gap]))"
    using assms unfolding shape_split by auto
  show ne: "A \<noteq> []" "B \<noteq> []" using a by (auto simp: adjoin_def)
  then show "tagged (snd (last A))" "tagged (snd (hd B))"
    using a by (cases "snd (last A)"; cases "snd (hd B)"; auto simp: adjoin_def tagged_def last_map hd_map hd_append)+
qed

lemma shape_free_layout:
  assumes "shape (A @ (s, Used) # B)"
  shows "shape (free_layout A s B)"
proof -
  note ar = shape_around [OF assms]
  obtain A' t k where A: "A = A' @ [(t, k)]" using ar(1) by (metis prod.exhaust rev_exhaust)
  obtain B' u l where B: "B = (u, l) # B'" using ar(3) by (metis prod.exhaust neq_Nil_conv)
  have adj: "x = Free \<or> adjoin x Free \<and> adjoin Free x" if "tagged x" for x using that by (auto simp: tagged_def adjoin_def)
  have sh: "successively adjoin (Gap # map snd A')" "adjoin (last (Gap # map snd A')) k"
    "adjoin l (hd (map snd B' @ [Gap]))" "successively adjoin (map snd B' @ [Gap])"
    using assms unfolding A B shape_split by (auto simp: successively_Cons successively_append_iff hd_append split: if_splits)
  have "shape (left_rest A @ (v, Free) # right_rest B)" for v
    using adj [of k] adj [of l] ar(2,4) sh A B
    by (auto simp: shape_split left_defs right_defs successively_Cons successively_append_iff hd_append split: if_splits)
  then show ?thesis by (simp add: free_layout_def)
qed

lemma rest_chunks:
  assumes "(a, t, k) \<in> chunks 0 (A @ (s, Loose) # B)" "k \<noteq> Free" "k \<noteq> Loose"
  shows "(a, t, k) \<in> chunks 0 (left_rest A @ (s + left_gain A, Loose) # B)"
    "(a, t, k) \<in> chunks 0 (left_rest A @ (s + left_gain A + right_gain B, Loose) # right_rest B)"
proof -
  have e: "extent (left_rest A) + (s + left_gain A + x) = extent A + s + x" for x
    by (cases A rule: rev_cases) (auto simp: left_defs)
  have A: "(a, t, k) \<in> chunks 0 A \<Longrightarrow> (a, t, k) \<in> chunks 0 (left_rest A)"
    using assms(2) by (cases A rule: rev_cases) (auto simp: left_defs)
  have B: "(a, t, k) \<in> chunks (extent A + s) B \<Longrightarrow> (a, t, k) \<in> chunks (extent A + s + right_gain B) (right_rest B)"
    using assms(2) by (cases B) (auto simp: right_defs)
  show "(a, t, k) \<in> chunks 0 (left_rest A @ (s + left_gain A, Loose) # B)"
    "(a, t, k) \<in> chunks 0 (left_rest A @ (s + left_gain A + right_gain B, Loose) # right_rest B)"
    using assms(1,3) A B arg_cong [OF e [of 0], of "\<lambda>z. chunks z B"] arg_cong [OF e [of "right_gain B"], of "\<lambda>z. chunks z (right_rest B)"]
    by auto
qed

lemma totals_free_layout:
  "free_total (free_layout A s B) = free_total (A @ (s, Used) # B) + s" "managed (free_layout A s B) = managed (A @ (s, Used) # B)"
proof -
  have A: "free_total (left_rest A) + left_gain A = free_total A" "managed (left_rest A) + left_gain A = managed A"
    by (cases A rule: rev_cases; auto simp: left_defs)+
  have B: "free_total (right_rest B) + right_gain B = free_total B" "managed (right_rest B) + right_gain B = managed B"
    by (cases B; auto simp: right_defs)+
  show "free_total (free_layout A s B) = free_total (A @ (s, Used) # B) + s" "managed (free_layout A s B) = managed (A @ (s, Used) # B)"
    using A B by (simp_all add: free_layout_def)
qed

lemma extent_left_rest: "extent (left_rest A) + left_gain A = extent A"
  by (cases A rule: rev_cases) (auto simp: left_defs)

lemma last_free_layout:
  assumes "(x, t, Free) \<in> chunks 0 (A @ (s, Used) # B)" "\<not> (right_free B \<and> x = extent A + s)"
  shows "\<exists>u \<ge> t. (x, u, Free) \<in> chunks 0 (free_layout A s B)"
proof -
  note e = extent_left_rest [of A]
  consider "(x, t, Free) \<in> chunks 0 A" | "(x, t, Free) \<in> chunks (extent A + s) B" using assms(1) by auto
  then show ?thesis
  proof cases
    case 1
    show ?thesis
    proof (cases "(x, t, Free) \<in> chunks 0 (left_rest A)")
      case True
      then show ?thesis unfolding free_layout_def by auto
    next
      case False
      then have "left_gain A = t" "extent (left_rest A) = x" using 1 by (cases A rule: rev_cases; auto simp: left_defs split: if_splits)+
      then show ?thesis unfolding free_layout_def by (auto intro!: exI [of _ "s + left_gain A + right_gain B"])
    qed
  next
    case 2
    then have "(x, t, Free) \<in> chunks (extent A + s + right_gain B) (right_rest B)"
      using assms(2) by (cases B) (auto simp: right_defs)
    moreover have "chunks (extent (left_rest A) + (s + left_gain A + right_gain B)) (right_rest B) = chunks (extent A + s + right_gain B) (right_rest B)"
      unfolding e [symmetric] by (simp add: ac_simps)
    ultimately show ?thesis unfolding free_layout_def by auto
  qed
qed

lemma free_ok:
  fixes h :: "'z heap_scheme"
  assumes inv: "heap_inv h (A @ (s, Used) # B)"
  shows "\<exists>h'. free (extent A + 4) h = Inr h' \<and> heap_inv h' (free_layout A s B)
    \<and> payload_same (hcontext h) (A @ (s, Loose) # B) (hmem h) (hmem h')
    \<and> hcontext h' = hcontext h \<and> hload external_alloc_at h' = hload external_alloc_at h"
proof -
  let ?c = "hcontext h" and ?a = "extent A" and ?L = "A @ (s, Used) # B" and ?M = "A @ (s, Loose) # B"
  obtain bl where c: "core ?c ?L bl (hmem h)" using inv by (auto simp: heap_inv_def)
  have sh: "shape ?L" "managed ?L < 2 ^ 31" "hload free_memory_at h = free_total ?L" using inv by (auto simp: heap_inv_def)
  have p: "(?a, s, Used) \<in> chunks 0 ?L" by simp
  have tag: "h_size (hmem h) ?a = s" "h_status (hmem h) ?a = INUSE_STATUS" "load32 (hmem h) (?a + s - 4) = s" "16 \<le> s"
    using tagged_chunk [OF c p] coreD(1) [OF c p] by (simp_all add: tagged_def tag_ok_def)
  have out: "?a + s \<le> ?c \<or> ?c + CONTEXT_SIZE \<le> ?a"
  proof -
    obtain g t where g: "(g, t, Gap) \<in> chunks 0 ?L" "g \<le> ?c" "?c + CONTEXT_SIZE \<le> g + t" using coreD(4) [OF c] by blast
    then show ?thesis using chunks_disjoint [OF g(1) p] by auto
  qed
  define h1 where "h1 = hstore free_memory_at (add32 (hload free_memory_at h) s) h"
  have h1: "hcontext h1 = ?c" "hmem h1 = store32 ?c (free_total ?L + s) (hmem h)"
    using sh totals_free_layout [of A s B] free_le_managed [of "free_layout A s B"] by (simp_all add: h1_def free_memory_at_def add32_def)
  have c1: "core (hcontext h1) ?M bl (hmem h1)"
    unfolding h1 using core_loosen [OF c] by (intro context_store) auto
  have ft: "free_total ?L + s < 2 ^ 32"
    using sh(2) totals_free_layout [of A s B] free_le_managed [of "free_layout A s B"] by simp
  note ar = shape_around [OF sh(1)]
  let ?s1 = "s + left_gain A"
  let ?s2 = "?s1 + right_gain B"
  obtain m2 bl2 where m2: "join_previous ?a s h1 = Inr (extent (left_rest A), ?s1, h1\<lparr>hmem := m2\<rparr>)"
    "core ?c (left_rest A @ (?s1, Loose) # B) bl2 m2" "kept ?c ?M (hmem h1) m2"
    using join_previous_ok [OF c1 ar(1,2)] tag(4) unfolding h1(1) by auto
  define h2 where "h2 = h1\<lparr>hmem := m2\<rparr>"
  have h2: "hcontext h2 = ?c" "hmem h2 = m2" by (simp_all add: h2_def h1)
  have "core (hcontext h2) (left_rest A @ (?s1, Loose) # B) bl2 (hmem h2)" using m2(2) h2 by simp
  from join_next_ok [OF this ar(3,4)] obtain m3 bl3 where m3:
    "join_next (extent (left_rest A) + ?s1) ?s1 h2 = Inr (?s2, h2\<lparr>hmem := m3\<rparr>)"
    "core ?c (left_rest A @ (?s2, Loose) # right_rest B) bl3 m3" "payload_same ?c (left_rest A @ (?s1, Loose) # B) m2 m3"
    "load32 m3 ?c = hload free_memory_at h2"
    "load32 m3 (?c + 4) = (if right_free B \<and> hload last_chunk_at h2 = extent (left_rest A) + ?s1 then 0 else hload last_chunk_size_at h2)"
    "load32 m3 (?c + 8) = hload external_alloc_at h2" "load32 m3 (?c + 12) = hload last_chunk_at h2"
    using tag(4) unfolding h2 by auto
  define h3 where "h3 = h2\<lparr>hmem := m3\<rparr>"
  have h3: "hcontext h3 = ?c" "hmem h3 = m3" by (simp_all add: h3_def h2)
  have s2: "16 \<le> ?s2" "?s2 < 2 ^ 31"
    using tag(4) sh(2) totals_free_layout(2) [of A s B] by (simp_all add: free_layout_def)
  have "core (hcontext h3) (left_rest A @ (?s2, Loose) # right_rest B) bl3 (hmem h3)" using m3(2) h3 by simp
  from add_free_chunk_ok [OF this s2] obtain m4 bl4 where m4:
    "add_free_chunk (extent (left_rest A)) ?s2 h3 = Inr (h3\<lparr>hmem := m4\<rparr>)"
    "core ?c (free_layout A s B) bl4 m4" "kept ?c (left_rest A @ (?s2, Loose) # right_rest B) m3 m4"
    unfolding h3 free_layout_def by auto
  let ?h4 = "h3\<lparr>hmem := m4\<rparr>"
  have e: "extent (left_rest A) + ?s1 = ?a + s" using extent_left_rest [of A] by simp
  have eq: "free (?a + 4) h = Inr ?h4"
    using m2(1) m3(1) m4(1) tag out unfolding e by (simp add: free_def Let_def h1_def [symmetric] h2_def [symmetric] h3_def [symmetric])
  have same: "load32 m4 x = load32 m3 x" "load32 m2 x = load32 (hmem h1) x" if "?c \<le> x" "x + 4 \<le> ?c + 16" for x
    using context_load [OF m3(2) m4(3) that] context_load [OF c1 [unfolded h1(1)] m2(3) that] by simp_all
  have fields: "hload free_memory_at ?h4 = free_total ?L + s" "hload external_alloc_at ?h4 = hload external_alloc_at h"
    "hload last_chunk_at ?h4 = hload last_chunk_at h"
    "hload last_chunk_size_at ?h4 = (if right_free B \<and> hload last_chunk_at h = ?a + s then 0 else hload last_chunk_size_at h)"
    using same [of ?c] same [of "?c + 4"] same [of "?c + 8"] same [of "?c + 12"] m3(4-7) ft unfolding e
    by (simp_all add: hload_def context_fields h1 h2 h3 load_store_other)
  have "last_ok ?h4 (free_layout A s B)"
  proof (cases "right_free B \<and> hload last_chunk_at h = ?a + s \<or> hload last_chunk_size_at h = 0")
    case True
    then show ?thesis unfolding last_ok_def fields by auto
  next
    case False
    have "last_ok h ?L" using inv unfolding heap_inv_def by (elim conjE)
    moreover have "hload last_chunk_size_at h \<noteq> 0" using False by simp
    ultimately obtain t where t: "hload last_chunk_size_at h \<le> t" "(hload last_chunk_at h, t, Free) \<in> chunks 0 ?L"
      unfolding last_ok_def by blast
    have "\<exists>u \<ge> t. (hload last_chunk_at h, u, Free) \<in> chunks 0 (free_layout A s B)"
      by (rule last_free_layout [OF t(2)]) (use False in simp)
    then obtain u where "t \<le> u" "(hload last_chunk_at h, u, Free) \<in> chunks 0 (free_layout A s B)" by blast
    moreover have "hload last_chunk_size_at ?h4 = hload last_chunk_size_at h" using False fields(4) by simp
    ultimately show ?thesis using t(1) unfolding last_ok_def fields(3) by (intro disjI2 exI [of _ u]) simp
  qed
  then have "heap_inv ?h4 (free_layout A s B)"
    using m4(2) fields(1) shape_free_layout [OF sh(1)] totals_free_layout [of A s B] sh(2) h3(1) by (auto simp: heap_inv_def)
  moreover have "payload_same ?c ?M (hmem h) m4"
  proof -
    have 1: "payload_same ?c ?M (hmem h) (hmem h1)" unfolding h1 by (rule payload_context_store) simp_all
    have 2: "payload_same ?c ?M (hmem h1) m2" by (rule kept_payload [OF m2(3)])
    have 3: "payload_same ?c ?M m2 m3" by (rule payload_mono [OF m3(3)]) (rule rest_chunks(1); auto)
    have 4: "payload_same ?c ?M m3 m4" by (rule payload_mono [OF kept_payload [OF m4(3)]]) (rule rest_chunks(2); auto)
    show ?thesis by (rule payload_trans [OF payload_trans [OF payload_trans [OF 1 2] 3] 4])
  qed
  ultimately show ?thesis using eq fields(2) h3(1) by (intro exI [of _ ?h4]) simp
qed


section \<open>New memory\<close>

lemma put_bound_ok:
  assumes c: "core c (A @ (8, Loose) # B) bl m"
  shows "core c (A @ (8, Bound) # B) bl (put_bound (extent A) m)" "kept c (A @ (8, Loose) # B) m (put_bound (extent A) m)"
proof -
  let ?a = "extent A" and ?L = "A @ (8, Loose) # B"
  let ?m1 = "set_status ?a INUSE_STATUS m"
  let ?m2 = "store32 ?a 17 ?m1"
  have eq: "put_bound ?a m = store32 (?a + 4) 8 ?m2"
    using set_header [of 8 1 ?a m] by (simp add: put_bound_def INUSE_STATUS_def)
  have 1: "core c ?L bl ?m1" "kept c ?L m ?m1" using loose_store [OF c, of ?a] by (simp_all add: set_status_def)
  have 2: "core c ?L bl ?m2" "kept c ?L m ?m2" using loose_store [OF 1(1), of ?a 17] kept_trans [OF 1(2)] by simp_all
  have 3: "core c ?L bl (put_bound ?a m)" "kept c ?L m (put_bound ?a m)"
    using loose_store [OF 2(1), of "?a + 4" 8] kept_trans [OF 2(2)] by (simp_all add: eq)
  have "tag_ok (put_bound ?a m) ?a 8 Bound" by (simp add: tag_ok_def eq load_store_other)
  then show "core c (A @ (8, Bound) # B) bl (put_bound ?a m)" by (intro core_use [OF 3(1)]) auto
  show "kept c ?L m (put_bound ?a m)" by (rule 3(2))
qed

text \<open>A new buffer is two bounds around one free chunk.\<close>

definition buffer_layout :: "nat \<Rightarrow> layout" where
  "buffer_layout s = [(8, Bound), (s - 16, Free), (8, Bound)]"

lemma add_malloc_buffer_ok:
  fixes h :: "'z heap_scheme"
  assumes c: "core (hcontext h) (A @ (s, Loose) # B) bl (hmem h)" and s: "32 \<le> s" "s - 16 < 2 ^ 31"
    and f: "hload free_memory_at h + s < 2 ^ 32"
  shows "\<exists>m' bl'. add_malloc_buffer (extent A) s h = Inr (h\<lparr>hmem := m'\<rparr>)
    \<and> core (hcontext h) (A @ buffer_layout s @ B) bl' m' \<and> payload_same (hcontext h) (A @ (s, Loose) # B) (hmem h) m'
    \<and> load32 m' (hcontext h) = hload free_memory_at h + (s - 16) \<and> load32 m' (hcontext h + 4) = hload last_chunk_size_at h
    \<and> load32 m' (hcontext h + 8) = hload external_alloc_at h \<and> load32 m' (hcontext h + 12) = hload last_chunk_at h"
proof -
  let ?c = "hcontext h" and ?a = "extent A" and ?t = "s - 16"
  let ?M = "A @ (s, Loose) # B"
  let ?L1 = "A @ (8, Loose) # (?t, Loose) # (8, Loose) # B" and ?L2 = "(A @ [(8, Bound), (?t, Loose)]) @ (8, Loose) # B"
    and ?L3 = "(A @ [(8, Bound)]) @ (?t, Loose) # (8, Bound) # B"
  have "core ?c (A @ (8, Loose) # (s - 8, Loose) # B) bl (hmem h)" using core_join [of 8 "s - 8" ?c A B] s c by simp
  then have c1: "core ?c ?L1 bl (hmem h)"
    using core_join [of ?t 8 ?c "A @ [(8, Loose)]" B] s by simp
  let ?m1 = "put_bound ?a (hmem h)" let ?m2 = "put_bound (?a + s - 8) ?m1"
  note p1 = put_bound_ok [OF c1]
  have c2: "core ?c ?L2 bl ?m1" using p1(1) by simp
  have e2: "extent (A @ [(8, Bound), (?t, Loose)]) = ?a + s - 8" using s by simp
  note p2 = put_bound_ok [OF c2, unfolded e2]
  define h2 where "h2 = h\<lparr>hmem := ?m2\<rparr>"
  have h2: "hcontext h2 = ?c" "hmem h2 = ?m2" by (simp_all add: h2_def)
  have c3: "core (hcontext h2) ?L3 bl (hmem h2)" using p2(1) by (simp add: h2)
  have t: "16 \<le> ?t" "?t < 2 ^ 31" using s by simp_all
  obtain m3 bl3 where m3: "add_free_chunk (?a + 8) ?t h2 = Inr (h2\<lparr>hmem := m3\<rparr>)" "core ?c (A @ buffer_layout s @ B) bl3 m3" "kept ?c ?L3 ?m2 m3"
    using add_free_chunk_ok [OF c3 t] by (auto simp: h2 buffer_layout_def)
  have same: "load32 m3 x = load32 (hmem h) x" if "?c \<le> x" "x + 4 \<le> ?c + 16" for x
    using context_load [OF c1 p1(2) that] context_load [OF c2 p2(2) that] context_load [OF c3 [unfolded h2] m3(3) that] by simp
  let ?m4 = "store32 ?c (add32 (load32 m3 ?c) ?t) m3"
  have sum: "add32 (load32 m3 ?c) ?t = hload free_memory_at h + ?t"
    using same [of ?c] f by (simp add: hload_def add32_def context_fields)
  have "add_malloc_buffer ?a s h = Inr (h\<lparr>hmem := ?m4\<rparr>)"
    using s m3(1) by (simp add: add_malloc_buffer_def MIN_FREE_CHUNK_SIZE_def Let_def upd_mem_def h2_def hstore_def hload_def context_fields)
  moreover have "core ?c (A @ buffer_layout s @ B) bl3 ?m4" by (rule context_store [OF m3(2)]) simp_all
  moreover have "payload_same ?c ?M (hmem h) ?m4"
  proof -
    have 1: "payload_same ?c ?M (hmem h) ?m1" by (rule payload_mono [OF kept_payload [OF p1(2)]]) (use s in \<open>auto simp: add.assoc\<close>)
    have 2: "payload_same ?c ?M ?m1 ?m2" by (rule payload_mono [OF kept_payload [OF p2(2)]]) (use s in \<open>auto simp: add.assoc\<close>)
    have 3: "payload_same ?c ?M ?m2 m3" by (rule payload_mono [OF kept_payload [OF m3(3)]]) (use s in \<open>auto simp: add.assoc\<close>)
    have 4: "payload_same ?c ?M m3 ?m4" by (rule payload_context_store) simp_all
    show ?thesis by (rule payload_trans [OF payload_trans [OF payload_trans [OF 1 2] 3] 4])
  qed
  moreover have "load32 ?m4 ?c = hload free_memory_at h + ?t" using f unfolding sum by simp
  moreover have "load32 ?m4 (?c + 4) = hload last_chunk_size_at h" "load32 ?m4 (?c + 8) = hload external_alloc_at h"
    "load32 ?m4 (?c + 12) = hload last_chunk_at h"
    using same [of "?c + 4"] same [of "?c + 8"] same [of "?c + 12"] by (simp_all add: load_store_other hload_def context_fields)
  ultimately show ?thesis by blast
qed

lemma init_bins_append: "init_bins c (is @ js) m = init_bins c js (init_bins c is m)"
  by (induction "is" arbitrary: m) simp_all

lemma init_bins_ok:
  assumes "c + CONTEXT_SIZE \<le> 2 ^ 32" "n \<le> BIN_NUMBER"
  shows "(\<forall>i < n. ring (init_bins c [0..<n] m) (bin_at c i) []) \<and> (\<forall>x. x + 4 \<le> c + 16 \<longrightarrow> load32 (init_bins c [0..<n] m) x = load32 m x)"
  using assms(2)
proof (induction n)
  case (Suc n)
  let ?b = "bin_at c n"
  let ?m = "init_bins c [0..<n] m"
  let ?m' = "set_prev ?b ?b (set_next ?b ?b (set_size ?b 12 ?m))"
  have eq: "init_bins c [0..<Suc n] m = ?m'" by (simp add: init_bins_append)
  have b: "?b + 12 \<le> 2 ^ 32" "c + 16 \<le> ?b" using bin_range [of n c] assms(1) Suc.prems by simp_all
  have "ring ?m' (bin_at c i) []" if i: "i < Suc n" for i
  proof (cases "i = n")
    case True
    then show ?thesis using b by (simp add: set_prev_def set_next_def h_next_def h_prev_def load_store_other)
  next
    case False
    then have "bin_at c i + 12 \<le> ?b" using i by (simp add: bin_at_def)
    with False i Suc show ?thesis
      by (simp add: set_prev_def set_next_def set_size_def h_next_def h_prev_def load_store_other)
  qed
  moreover have "load32 ?m' x = load32 m x" if "x + 4 \<le> c + 16" for x
    using that Suc b by (simp add: set_prev_def set_next_def set_size_def load_store_other)
  ultimately show ?case unfolding eq by blast
qed simp

lemma init_bins_ring:
  assumes "c + CONTEXT_SIZE \<le> 2 ^ 32"
  shows "i < BIN_NUMBER \<Longrightarrow> ring (init_bins c [0..<BIN_NUMBER] m) (bin_at c i) []"
    "x + 4 \<le> c + 16 \<Longrightarrow> load32 (init_bins c [0..<BIN_NUMBER] m) x = load32 m x"
  using init_bins_ok [OF assms order_refl] by blast+

definition init_layout :: "nat \<Rightarrow> nat \<Rightarrow> layout" where
  "init_layout memory sz = (memory + CONTEXT_SIZE, Gap) # buffer_layout (sz - CONTEXT_SIZE)"

lemma init_malloc_ok:
  assumes "CONTEXT_SIZE + 32 \<le> sz" "sz - CONTEXT_SIZE < 2 ^ 31" "memory + sz \<le> 2 ^ 32"
  shows "\<exists>h'. init_malloc memory sz h = Inr h' \<and> heap_inv h' (init_layout memory sz) \<and> hcontext h' = memory
    \<and> hload external_alloc_at h' = 0"
proof -
  let ?s = "sz - CONTEXT_SIZE" and ?A = "[(memory + CONTEXT_SIZE, Gap)]"
  let ?h1 = "hstore external_alloc_at 0 (hstore last_chunk_size_at 0 (hstore free_memory_at 0 (h\<lparr>hcontext := memory\<rparr>)))"
  let ?h2 = "upd_mem (init_bins memory [0..<BIN_NUMBER]) ?h1"
  have le: "memory + CONTEXT_SIZE \<le> 2 ^ 32" "16 \<le> CONTEXT_SIZE" using assms by (simp_all add: CONTEXT_SIZE_def)
  have cx: "hcontext ?h2 = memory" by simp
  have "core memory (?A @ [(?s, Loose)]) (\<lambda>_. []) (hmem ?h2)"
    unfolding core_def using assms le(2) init_bins_ring(1) [OF le(1)]
    by (auto simp: tag_ok_def)
  then have c: "core (hcontext ?h2) (?A @ (?s, Loose) # []) (\<lambda>_. []) (hmem ?h2)" unfolding cx .
  have fields: "hload free_memory_at ?h2 = 0" "hload last_chunk_size_at ?h2 = 0" "hload external_alloc_at ?h2 = 0"
    using init_bins_ring(2) [OF le(1)] by (simp_all add: hload_def context_fields load_store_other)
  have s: "32 \<le> ?s" "?s - 16 < 2 ^ 31" "hload free_memory_at ?h2 + ?s < 2 ^ 32" using assms fields(1) by simp_all
  obtain m' bl' where m': "add_malloc_buffer (extent ?A) ?s ?h2 = Inr (?h2\<lparr>hmem := m'\<rparr>)"
    "core memory (?A @ buffer_layout ?s @ []) bl' m'" "load32 m' memory = hload free_memory_at ?h2 + (?s - 16)"
    "load32 m' (memory + 4) = hload last_chunk_size_at ?h2" "load32 m' (memory + 8) = hload external_alloc_at ?h2"
    using add_malloc_buffer_ok [OF c s] unfolding cx by blast
  have "init_malloc memory sz h = Inr (?h2\<lparr>hmem := m'\<rparr>)" using assms(1) m'(1) by (simp add: init_malloc_def Let_def)
  moreover have "heap_inv (?h2\<lparr>hmem := m'\<rparr>) (init_layout memory sz)"
    using m'(2-4) assms(1,2) unfolding fields heap_inv_def
    by (auto simp: init_layout_def buffer_layout_def last_ok_def hload_def context_fields shape_def adjoin_def)
  moreover have "hload external_alloc_at (?h2\<lparr>hmem := m'\<rparr>) = 0" using m'(5) fields(3) by (simp add: hload_def context_fields)
  ultimately show ?thesis by auto
qed

end
