(* ===== verification/Malloc_Spec.thy ===== *)
theory Malloc_Spec
  imports Malloc_Ops
begin

text \<open>
  What a client of \<open>src/system/malloc/malloc.c\<close> relies on: writing inside a chunk is harmless, \<open>calloc\<close> gives
  zeros, \<open>realloc\<close> keeps the contents when it shrinks or moves a chunk, and what \<open>malloc\<close> takes, \<open>free\<close> gives back.
\<close>

section \<open>Writing into a chunk\<close>

lemma heap_inv_payload:
  assumes inv: "heap_inv h L" and p: "(a, s, Used) \<in> chunks 0 L"
    and same: "\<And>x. x < a + 4 \<or> a + s \<le> x + 4 \<Longrightarrow> m' x = hmem h x"
  shows "heap_inv (h\<lparr>hmem := m'\<rparr>) L" "\<And>f. hcontext h \<le> f (hcontext h) \<Longrightarrow> f (hcontext h) + 4 \<le> hcontext h + 16 \<Longrightarrow> hload f (h\<lparr>hmem := m'\<rparr>) = hload f h"
proof -
  let ?c = "hcontext h" and ?m = "hmem h"
  obtain bl where c: "core ?c L bl ?m" using inv by (auto simp: heap_inv_def)
  have s: "16 \<le> s" using coreD(1) [OF c p] by (simp add: tag_ok_def)
  have ld: "load32 m' x = load32 ?m x" if "x + 4 \<le> a + 4 \<or> a + s \<le> x + 4" for x
    using that by (intro load32_cong same) auto
  have apart: "b + t \<le> a \<or> a + s \<le> b \<or> (b, t, k) = (a, s, Used)" if "(b, t, k) \<in> chunks 0 L" for b t k
    using chunks_disjoint [OF p that] by auto
  have "tag_ok m' b t k" if q: "(b, t, k) \<in> chunks 0 L" and tag: "tag_ok ?m b t k" for b t k
  proof (cases "k = Gap \<or> k = Loose")
    case False
    then have "8 \<le> t" using tag by (auto simp: tag_ok_def split: kind.splits)
    then have "load32 m' b = load32 ?m b" "load32 m' (b + t - 4) = load32 ?m (b + t - 4)"
      using apart [OF q] by (auto intro!: ld)
    then show ?thesis using tag by (cases k) (auto simp: tag_ok_def add.commute)
  qed (auto simp: tag_ok_def)
  then have st: "same_tags L ?m m'" unfolding same_tags_def by blast
  have "ring m' (bin_at ?c i) (bl i)" if i: "i < BIN_NUMBER" for i
  proof -
    have "h_next m' x = h_next ?m x \<and> h_prev m' x = h_prev ?m x" if nd: "node ?c L x" for x
    proof -
      obtain b t k where q: "(b, t, k) \<in> chunks 0 L" "b \<le> x" "x + 12 \<le> b + t" "k \<noteq> Used"
        using node_piece [OF c nd] by (metis kind.distinct(1,11))
      have "x + 12 \<le> a \<or> a + s \<le> x" using apart [OF q(1)] q(2-4) by auto
      then show ?thesis by (auto simp: h_next_def h_prev_def intro!: ld)
    qed
    then have "ring m' (bin_at ?c i) (bl i) = ring ?m (bin_at ?c i) (bl i)"
      using ring_nodes [OF c i] by (intro links_cong) auto
    with coreD(5) [OF c i] show ?thesis by simp
  qed
  from core_change [OF c st this] have c': "core ?c L bl m'" .
  obtain g t where g: "(g, t, Gap) \<in> chunks 0 L" "g \<le> ?c" "?c + CONTEXT_SIZE \<le> g + t" using coreD(4) [OF c] by blast
  have out: "?c + CONTEXT_SIZE \<le> a \<or> a + s \<le> ?c" using apart [OF g(1)] g by auto
  show f: "hload f (h\<lparr>hmem := m'\<rparr>) = hload f h" if "?c \<le> f ?c" "f ?c + 4 \<le> ?c + 16" for f
    unfolding hload_def using out that ld [of "f ?c"] by (auto simp: CONTEXT_SIZE_def)
  have "hload free_memory_at (h\<lparr>hmem := m'\<rparr>) = hload free_memory_at h" "hload last_chunk_size_at (h\<lparr>hmem := m'\<rparr>) = hload last_chunk_size_at h"
    "hload last_chunk_at (h\<lparr>hmem := m'\<rparr>) = hload last_chunk_at h" by (rule f; simp add: context_fields)+
  then show "heap_inv (h\<lparr>hmem := m'\<rparr>) L" using inv c' unfolding heap_inv_def last_ok_def by auto
qed

lemma mem_set_apply: "mem_set a v n m x = (if a \<le> x \<and> x < a + n then v else m x)"
proof -
  have "fold (\<lambda>i m. m(a + i := v)) [0..<n] m x = (if a \<le> x \<and> x < a + n then v else m x)"
    by (induction n) auto
  then show ?thesis by (simp add: mem_set_def)
qed

lemma mem_copy_apply:
  assumes "d + n \<le> b \<or> b + k \<le> d"
  shows "x < d \<or> d + n \<le> x \<Longrightarrow> mem_copy d b n m x = m x" "i < n \<Longrightarrow> i < k \<Longrightarrow> mem_copy d b n m (d + i) = m (b + i)"
proof -
  have "(\<forall>x. x < d \<or> d + j \<le> x \<longrightarrow> mem_copy d b j m x = m x) \<and> (\<forall>i < min j k. mem_copy d b j m (d + i) = m (b + i))"
    if "j \<le> n" for j using that
  proof (induction j)
    case (Suc j)
    have eq: "mem_copy d b (Suc j) m = (mem_copy d b j m)(d + j := mem_copy d b j m (b + j))" by (simp add: mem_copy_def)
    have "mem_copy d b j m (b + j) = m (b + j)" if "j < k" using Suc that assms by auto
    with Suc show ?case unfolding eq by (auto simp: less_Suc_eq)
  qed (simp add: mem_copy_def)
  from this [of n] show "x < d \<or> d + n \<le> x \<Longrightarrow> mem_copy d b n m x = m x" "i < n \<Longrightarrow> i < k \<Longrightarrow> mem_copy d b n m (d + i) = m (b + i)" by auto
qed

section \<open>Giving back\<close>

lemma free_split_layout:
  assumes "shape (A @ (s, Free) # B)" "r \<le> s"
  shows "\<exists>t B'. split_layout A r s B = A @ (t, Used) # B' \<and> r \<le> t \<and> free_layout A t B' = A @ (s, Free) # B"
proof -
  have a: "adjoin (last (Gap # map snd A)) Free" "adjoin Free (hd (map snd B @ [Gap]))" using assms(1) unfolding shape_split by auto
  have A: "\<not> left_free A" using a(1) by (auto simp: left_free_def adjoin_def last_map split: if_splits)
  have B: "\<not> right_free B" using a(2) by (cases B) (auto simp: right_free_def adjoin_def)
  show ?thesis
  proof (cases "s - r < 16")
    case True
    have "free_layout A s B = A @ (s, Free) # B" using A B by (simp add: free_layout_def left_rest_def left_gain_def right_rest_def right_gain_def)
    then show ?thesis using True assms(2) by (auto simp: split_layout_def MIN_FREE_CHUNK_SIZE_def)
  next
    case False
    have "free_layout A r ((s - r, Free) # B) = A @ (s, Free) # B"
      using A assms(2) by (simp add: free_layout_def left_rest_def left_gain_def right_defs)
    then show ?thesis using False by (auto simp: split_layout_def MIN_FREE_CHUNK_SIZE_def)
  qed
qed

lemma roundtrip_ok:
  assumes inv: "heap_inv h L" and n: "n + 8 < 2 ^ 32" and ext: "hload external_alloc_at h = 0"
    and m: "malloc ext n h = Some (Inr (p, h'))"
  shows "\<exists>h''. free p h' = Inr h'' \<and> heap_inv h'' L"
proof (cases "p = 0")
  case True
  then show ?thesis using malloc_ok [OF inv n ext, of ext] m inv by (auto simp: free_def)
next
  case False
  then obtain A s B where A: "L = A @ (s, Free) # B" "max 16 (n + 8) \<le> s" "p = extent A + 4" "heap_inv h' (split_layout A (max 16 (n + 8)) s B)"
    using malloc_ok [OF inv n ext, of ext] m by auto
  have "shape (A @ (s, Free) # B)" using inv A(1) by (auto simp: heap_inv_def)
  then obtain t B' where "split_layout A (max 16 (n + 8)) s B = A @ (t, Used) # B'" "free_layout A t B' = L"
    using free_split_layout [OF _ A(2)] A(1) by blast
  then show ?thesis using free_ok [of h' A t B'] A(3,4) by auto
qed

section \<open>calloc\<close>

lemma calloc_ok:
  assumes inv: "heap_inv h L" and n: "k * n + 8 < 2 ^ 32" and ext: "hload external_alloc_at h = 0"
  shows "calloc ext k n h = Some (Inr (0, h)) \<and> (\<forall>a s. (a, s, Free) \<in> chunks 0 L \<longrightarrow> s < max 16 (k * n + 8))
    \<or> (\<exists>A s B h'. L = A @ (s, Free) # B \<and> max 16 (k * n + 8) \<le> s \<and> calloc ext k n h = Some (Inr (extent A + 4, h'))
        \<and> heap_inv h' (split_layout A (max 16 (k * n + 8)) s B) \<and> (\<forall>i < k * n. hmem h' (extent A + 4 + i) = 0)
        \<and> payload_same (hcontext h) L (hmem h) (hmem h'))"
proof -
  let ?r = "max 16 (k * n + 8)"
  have md: "k * n mod 2 ^ 32 = k * n" using n by simp
  have eq: "calloc ext k n h = map_option (\<lambda>r. rbind r (\<lambda>(memory, h1).
           Inr (memory, if memory \<noteq> 0 then upd_mem (mem_set memory 0 (k * n)) h1 else h1))) (malloc ext (k * n) h)"
    unfolding calloc_def md Let_def ..
  from malloc_ok [OF inv n ext, of ext] show ?thesis
  proof (elim disjE exE conjE)
    assume "malloc ext (k * n) h = Some (Inr (0, h))" "\<forall>a s. (a, s, Free) \<in> chunks 0 L \<longrightarrow> s < ?r"
    then show ?thesis unfolding eq by auto
  next
    fix A s B h'
    assume L: "L = A @ (s, Free) # B" "?r \<le> s" and m: "malloc ext (k * n) h = Some (Inr (extent A + 4, h'))"
      and inv': "heap_inv h' (split_layout A ?r s B)" and pay: "payload_same (hcontext h) L (hmem h) (hmem h')"
    let ?m = "mem_set (extent A + 4) 0 (k * n) (hmem h')"
    have sh: "shape (A @ (s, Free) # B)" using inv L(1) by (auto simp: heap_inv_def)
    obtain t B' where t: "split_layout A ?r s B = A @ (t, Used) # B'" "?r \<le> t" using free_split_layout [OF sh L(2)] by blast
    then have p: "(extent A, t, Used) \<in> chunks 0 (split_layout A ?r s B)" by simp
    have "heap_inv (h'\<lparr>hmem := ?m\<rparr>) (split_layout A ?r s B)"
      using t(2) by (intro heap_inv_payload(1) [OF inv' p]) (auto simp: mem_set_apply)
    moreover have "calloc ext k n h = Some (Inr (extent A + 4, h'\<lparr>hmem := ?m\<rparr>))" unfolding eq m by (simp add: upd_mem_def)
    moreover have "payload_same (hcontext h) L (hmem h') ?m"
    proof -
      have q: "(extent A, s, Free) \<in> chunks 0 L" using L(1) by simp
      have "?m x = hmem h' x" if "(b, u, l) \<in> chunks 0 L" "l \<noteq> Free" "b \<le> x" "x < b + u" for b u l x
        using chunks_disjoint [OF q that(1)] that(2-4) L(2) by (auto simp: mem_set_apply)
      then show ?thesis unfolding payload_same_def by auto
    qed
    ultimately show ?thesis using L payload_trans [OF pay]
      by (intro disjI2 exI [of _ A] exI [of _ s] exI [of _ B] exI [of _ "h'\<lparr>hmem := ?m\<rparr>"]) (simp add: mem_set_apply)
  qed
qed


section \<open>realloc\<close>

lemma used_chunk:
  assumes "heap_inv h (A @ (s, Used) # B)"
  shows "h_size (hmem h) (extent A) = s" "h_status (hmem h) (extent A) = INUSE_STATUS" "load32 (hmem h) (extent A) = 2 * s + 1"
    "load32 (hmem h) (extent A + s - 4) = s" "16 \<le> s" "s < 2 ^ 31"
    "extent A + s \<le> hcontext h \<or> hcontext h + CONTEXT_SIZE \<le> extent A"
proof -
  obtain bl where c: "core (hcontext h) (A @ (s, Used) # B) bl (hmem h)" using assms by (auto simp: heap_inv_def)
  have p: "(extent A, s, Used) \<in> chunks 0 (A @ (s, Used) # B)" by simp
  show "h_size (hmem h) (extent A) = s" "h_status (hmem h) (extent A) = INUSE_STATUS" "load32 (hmem h) (extent A) = 2 * s + 1"
    "load32 (hmem h) (extent A + s - 4) = s" "16 \<le> s" "s < 2 ^ 31"
    using coreD(1) [OF c p] by (auto simp: tag_ok_def h_size_def h_status_def INUSE_STATUS_def)
  obtain g t where g: "(g, t, Gap) \<in> chunks 0 (A @ (s, Used) # B)" "g \<le> hcontext h" "hcontext h + CONTEXT_SIZE \<le> g + t"
    using coreD(4) [OF c] by blast
  then show "extent A + s \<le> hcontext h \<or> hcontext h + CONTEXT_SIZE \<le> extent A" using chunks_disjoint [OF g(1) p] by auto
qed

lemma payload_byte:
  "payload_same c L m m' \<Longrightarrow> (a, s, k) \<in> chunks 0 L \<Longrightarrow> k = Used \<or> k = Bound \<or> k = Gap \<Longrightarrow> a \<le> x \<Longrightarrow> x < a + s \<Longrightarrow>
     x < c \<or> c + CONTEXT_SIZE \<le> x \<Longrightarrow> m' x = m x"
  unfolding payload_same_def by blast

text \<open>Cutting a chunk in use in two.\<close>

lemma cut_used:
  fixes h :: "'z heap_scheme"
  assumes inv: "heap_inv h (A @ (s, Used) # B)" and r: "16 \<le> r" "16 \<le> t" "r + t = s"
  defines "m' \<equiv> store32 (extent A + r - 4) r (store32 (extent A + s - 4) t
    (set_size (extent A + r) t (set_status (extent A + r) INUSE_STATUS (set_size (extent A) r (hmem h)))))"
  shows "heap_inv (h\<lparr>hmem := m'\<rparr>) (A @ (r, Used) # (t, Used) # B)"
    "payload_same (hcontext h) (A @ (s, Loose) # B) (hmem h) m'"
    "\<And>x. extent A + 4 \<le> x \<Longrightarrow> x < extent A + r - 4 \<Longrightarrow> m' x = hmem h x"
    "hload external_alloc_at (h\<lparr>hmem := m'\<rparr>) = hload external_alloc_at h"
proof -
  let ?c = "hcontext h" and ?a = "extent A" and ?M = "A @ (s, Loose) # B"
  note u = used_chunk [OF inv]
  obtain bl where c0: "core ?c (A @ (s, Used) # B) bl (hmem h)" using inv by (auto simp: heap_inv_def)
  have c: "core ?c ?M bl (hmem h)" using core_loosen [OF c0] by simp
  let ?m1 = "store32 ?a (2 * r + 1) (hmem h)" let ?m2 = "set_status (?a + r) 1 ?m1"
  let ?m3 = "store32 (?a + r) (2 * t + 1) ?m2" let ?m4 = "store32 (?a + s - 4) t ?m3"
  have eq: "m' = store32 (?a + r - 4) r ?m4"
    using u(2) r u(6) set_header [of t 1 "?a + r"] by (simp add: m'_def set_size_def [of ?a] INUSE_STATUS_def)
  have 1: "core ?c ?M bl ?m1" "kept ?c ?M (hmem h) ?m1" using loose_store [OF c, of ?a] u(5) by simp_all
  have 2: "core ?c ?M bl ?m2" "kept ?c ?M (hmem h) ?m2"
    using loose_store [OF 1(1), of "?a + r"] kept_trans [OF 1(2)] r by (auto simp: set_status_def)
  have 3: "core ?c ?M bl ?m3" "kept ?c ?M (hmem h) ?m3"
    using loose_store [OF 2(1), of "?a + r" "2 * t + 1"] kept_trans [OF 2(2)] r by auto
  have 4: "core ?c ?M bl ?m4" "kept ?c ?M (hmem h) ?m4"
    using loose_store [OF 3(1), of "?a + s - 4" t] kept_trans [OF 3(2)] r by auto
  have 5: "core ?c ?M bl m'" "kept ?c ?M (hmem h) m'"
    using loose_store [OF 4(1), of "?a + r - 4" r] kept_trans [OF 4(2)] r unfolding eq by auto
  have t1: "tag_ok m' ?a r Used" using r u(6) unfolding eq by (auto simp: tag_ok_def load_store_other set_status_def)
  have "?a + r - 4 + 4 \<le> ?a + s - 4" using r by simp
  then have "load32 m' (?a + s - 4) = t" unfolding eq using load_store_other [of "?a + r - 4" "?a + s - 4"] r u(6) by simp
  then have t2: "tag_ok m' (?a + r) t Used" using r u(6) unfolding eq by (auto simp: tag_ok_def load_store_other add.assoc)
  have "core ?c (A @ (r, Loose) # (t, Loose) # B) bl m'" using 5(1) core_join [of r t ?c A B] r by simp
  from core_use [OF this t1] have "core ?c ((A @ [(r, Used)]) @ (t, Loose) # B) bl m'" by simp
  from core_use [OF this] t2 have c': "core ?c (A @ (r, Used) # (t, Used) # B) bl m'" by simp
  have same: "hload f (h\<lparr>hmem := m'\<rparr>) = hload f h" if "?c \<le> f ?c" "f ?c + 4 \<le> ?c + 16" for f
    using context_load [OF c 5(2) that] by (simp add: hload_def)
  have fields: "hload free_memory_at (h\<lparr>hmem := m'\<rparr>) = hload free_memory_at h" "hload last_chunk_size_at (h\<lparr>hmem := m'\<rparr>) = hload last_chunk_size_at h"
    "hload last_chunk_at (h\<lparr>hmem := m'\<rparr>) = hload last_chunk_at h" "hload external_alloc_at (h\<lparr>hmem := m'\<rparr>) = hload external_alloc_at h"
    by (rule same; simp add: context_fields)+
  have sh: "shape (A @ (s, Used) # B)" using inv by (simp add: heap_inv_def)
  have "shape (A @ (r, Used) # (t, Used) # B)"
    using sh unfolding shape_split by (auto simp: successively_Cons adjoin_def)
  moreover have "(x, v, Free) \<in> chunks 0 (A @ (r, Used) # (t, Used) # B) \<longleftrightarrow> (x, v, Free) \<in> chunks 0 (A @ (s, Used) # B)" for x v
    using r(3) by (auto simp: add.assoc)
  ultimately show "heap_inv (h\<lparr>hmem := m'\<rparr>) (A @ (r, Used) # (t, Used) # B)"
    using inv c' r(3) unfolding heap_inv_def last_ok_def fields by auto
  show "payload_same ?c ?M (hmem h) m'" by (rule kept_payload [OF 5(2)])
  show "m' x = hmem h x" if "?a + 4 \<le> x" "x < ?a + r - 4" for x
  proof -
    have "x < ?a + s - 4" "x < ?a + r" using that r by linarith+
    with that show ?thesis unfolding eq set_status_def by (simp add: store32_apply)
  qed
  show "hload external_alloc_at (h\<lparr>hmem := m'\<rparr>) = hload external_alloc_at h" by (rule fields(4))
qed

lemma realloc_shrink_ok:
  fixes h :: "'z heap_scheme"
  assumes inv: "heap_inv h (A @ (s, Used) # B)" and n: "8 \<le> n" "n + 8 \<le> s"
  shows "\<exists>h'. realloc ext (extent A + 4) n h = Some (Inr (extent A + 4, h'))
    \<and> heap_inv h' (if s - (n + 8) < 16 then A @ (s, Used) # B else free_layout (A @ [(n + 8, Used)]) (s - (n + 8)) B)
    \<and> (\<forall>i < n. hmem h' (extent A + 4 + i) = hmem h (extent A + 4 + i))"
proof -
  let ?a = "extent A" and ?r = "n + 8" and ?t = "s - (n + 8)"
  note u = used_chunk [OF inv]
  have eq: "realloc ext (?a + 4) n h = Some (rbind (shrink ?a ?r h) (\<lambda>h1. Inr (?a + 4, h1)))"
    using u n by (simp add: realloc_def Let_def add32_def MIN_INUSE_CHUNK_SIZE_def)
  show ?thesis
  proof (cases "?t < 16")
    case True
    then show ?thesis using eq u inv by (intro exI [of _ h]) (simp add: shrink_def MIN_FREE_CHUNK_SIZE_def)
  next
    case False
    have r: "16 \<le> ?r" "16 \<le> ?t" "?r + ?t = s" using False n by simp_all
    note cut = cut_used [OF inv r]
    define h1 where "h1 = h\<lparr>hmem := store32 (?a + ?r - 4) ?r (store32 (?a + s - 4) ?t
      (set_size (?a + ?r) ?t (set_status (?a + ?r) INUSE_STATUS (set_size ?a ?r (hmem h)))))\<rparr>"
    have "heap_inv h1 ((A @ [(?r, Used)]) @ (?t, Used) # B)" using cut(1) by (simp add: h1_def)
    from free_ok [OF this] obtain h2 where h2: "free (?a + ?r + 4) h1 = Inr h2" "heap_inv h2 (free_layout (A @ [(?r, Used)]) ?t B)"
      "payload_same (hcontext h) ((A @ [(?r, Used)]) @ (?t, Loose) # B) (hmem h1) (hmem h2)" by (auto simp: h1_def)
    have "shrink ?a ?r h = Inr h2" using u r h2(1)
      by (simp add: shrink_def MIN_FREE_CHUNK_SIZE_def Let_def upd_mem_def h1_def)
    moreover have "hmem h2 (?a + 4 + i) = hmem h (?a + 4 + i)" if "i < n" for i
    proof -
      have "hmem h1 (?a + 4 + i) = hmem h (?a + 4 + i)" using cut(3) [of "?a + 4 + i"] that by (simp add: h1_def)
      moreover have "hmem h2 (?a + 4 + i) = hmem h1 (?a + 4 + i)"
        using h2(3) u(7) that r unfolding payload_same_def by (auto 4 0)
      ultimately show ?thesis by simp
    qed
    ultimately show ?thesis using eq h2(2) False by auto
  qed
qed


text \<open>When the chunk is too small and the next one is no help, the contents move to a new chunk.\<close>

lemma realloc_move_ok:
  fixes h :: "'z heap_scheme"
  assumes inv: "heap_inv h (A @ (s, Used) # B)" and n: "s < n + 8" "n + 8 < 2 ^ 32"
    and nx: "\<not> right_free B \<or> n + 8 \<le> s + right_gain B" and ext: "hload external_alloc_at h = 0"
  shows "realloc ext (extent A + 4) n h = Some (Inr (0, h))
    \<or> (\<exists>q t h' L'. realloc ext (extent A + 4) n h = Some (Inr (q + 4, h')) \<and> heap_inv h' L' \<and> (q, t, Used) \<in> chunks 0 L'
        \<and> n + 8 \<le> t \<and> (\<forall>i < s - 8. hmem h' (q + 4 + i) = hmem h (extent A + 4 + i)))"
proof -
  let ?a = "extent A" and ?L = "A @ (s, Used) # B" and ?r = "max 16 (n + 8)"
  note u = used_chunk [OF inv]
  have p: "(?a, s, Used) \<in> chunks 0 ?L" by simp
  obtain bl where c: "core (hcontext h) ?L bl (hmem h)" using inv by (auto simp: heap_inv_def)
  have sh: "shape ?L" using inv by (simp add: heap_inv_def)
  obtain t k B' where B: "B = (t, k) # B'" "tagged k" using shape_around(3,4) [OF sh] by (metis prod.exhaust neq_Nil_conv list.sel(1) snd_conv)
  have "(?a + s, t, k) \<in> chunks 0 ?L" using B(1) by simp
  note tag = tagged_chunk [OF c this B(2)]
  have big: "\<not> (h_status (hmem h) (?a + s) = FREE_STATUS \<and> add32 (h_size (hmem h) (?a + s)) s < n + 8)"
  proof (cases "k = Free")
    case True
    then have "s + t < 2 ^ 31" using inv B(1) by (simp add: heap_inv_def)
    then show ?thesis using True nx B(1) tag(1) by (simp add: right_defs add32_def)
  next
    case False
    then show ?thesis using tag(2) by (simp add: FREE_STATUS_def INUSE_STATUS_def)
  qed
  have sz: "sub32 (n + 8) 8 = n" using n by (simp add: sub32_eq)
  have eq: "realloc ext (?a + 4) n h = Option.bind (malloc ext n h) (\<lambda>r. Some (rbind r (\<lambda>(new_memory, h1).
      if new_memory \<noteq> 0 then rbind (free (?a + 4) (upd_mem (mem_copy new_memory (?a + 4) n) h1)) (\<lambda>h2. Inr (new_memory, h2))
      else Inr (new_memory, h1))))"
    using u n big by (auto simp: realloc_def Let_def add32_def MIN_INUSE_CHUNK_SIZE_def sz)
  from malloc_ok [OF inv n(2) ext, of ext] show ?thesis
  proof (elim disjE exE conjE)
    assume "malloc ext n h = Some (Inr (0, h))"
    then show ?thesis unfolding eq by simp
  next
    fix A2 s2 B2 h'
    assume L: "?L = A2 @ (s2, Free) # B2" "?r \<le> s2" and m: "malloc ext n h = Some (Inr (extent A2 + 4, h'))"
      and inv': "heap_inv h' (split_layout A2 ?r s2 B2)" and pay: "payload_same (hcontext h) ?L (hmem h) (hmem h')"
      and cx: "hcontext h' = hcontext h"
    let ?q = "extent A2"
    obtain t2 B3 where t2: "split_layout A2 ?r s2 B2 = A2 @ (t2, Used) # B3" "?r \<le> t2" using free_split_layout [of A2 s2 B2 ?r] sh L by metis
    then have q: "(?q, t2, Used) \<in> chunks 0 (split_layout A2 ?r s2 B2)" by simp
    have "(?a, s, Used) \<in> chunks 0 A2 \<or> (?a, s, Used) \<in> chunks (?q + s2) B2" using p unfolding L(1) by auto
    then have p': "(?a, s, Used) \<in> chunks 0 (split_layout A2 ?r s2 B2)" using L(2) by (auto simp: split_layout_def add.assoc)
    have "(?q, s2, Free) \<in> chunks 0 ?L" unfolding L(1) by simp
    from chunks_disjoint [OF this p] have "?q + s2 \<le> ?a \<or> ?a + s \<le> ?q" by auto
    moreover from chunks_disjoint [OF q p'] have "?q + t2 \<le> ?a \<or> ?a + s \<le> ?q \<or> ?q = ?a" by auto
    ultimately have dis: "?q + t2 \<le> ?a \<or> ?a + s \<le> ?q" using u(5) L(2) by auto
    define m2 where "m2 = mem_copy (?q + 4) (?a + 4) n (hmem h')"
    have d: "?q + 4 + n \<le> ?a + 4 \<or> ?a + 4 + (s - 8) \<le> ?q + 4" using dis t2(2) u(5) by auto
    have inv2: "heap_inv (h'\<lparr>hmem := m2\<rparr>) (split_layout A2 ?r s2 B2)"
      using t2(2) by (intro heap_inv_payload(1) [OF inv' q]) (auto simp: m2_def mem_copy_apply(1) [OF d])
    obtain A3 B4 where A3: "split_layout A2 ?r s2 B2 = A3 @ (s, Used) # B4" "?a = extent A3" by (rule chunks_split [OF p'])
    from free_ok [OF inv2 [unfolded A3(1)]] obtain h2 where h2: "free (?a + 4) (h'\<lparr>hmem := m2\<rparr>) = Inr h2"
      "heap_inv h2 (free_layout A3 s B4)" "payload_same (hcontext h) (A3 @ (s, Loose) # B4) m2 (hmem h2)" using A3(2) cx by auto
    have q3: "(?q, t2, Used) \<in> chunks 0 (A3 @ (s, Loose) # B4)" using q dis u(5) t2(2) unfolding A3(1) A3(2) by auto
    have "(?q, t2, Used) \<in> chunks 0 (free_layout A3 s B4)" using rest_chunks(2) [OF q3] by (auto simp: free_layout_def)
    moreover have "realloc ext (?a + 4) n h = Some (Inr (?q + 4, h2))" using h2(1) unfolding eq m by (simp add: upd_mem_def m2_def)
    moreover have "hmem h2 (?q + 4 + i) = hmem h (?a + 4 + i)" if i: "i < s - 8" for i
    proof -
      have 1: "hmem h' (?a + 4 + i) = hmem h (?a + 4 + i)"
        using pay p u(7) i unfolding payload_same_def by (auto 4 0)
      have 2: "m2 (?q + 4 + i) = hmem h' (?a + 4 + i)" unfolding m2_def using mem_copy_apply(2) [OF d, of i] i n(1) by simp
      have ctx: "?q + t2 \<le> hcontext h \<or> hcontext h + CONTEXT_SIZE \<le> ?q" using used_chunk(7) [OF inv' [unfolded t2(1)]] cx by simp
      have in_q: "?q \<le> ?q + 4 + i" "?q + 4 + i < ?q + t2" using i t2(2) n(1) by auto
      have "hmem h2 (?q + 4 + i) = m2 (?q + 4 + i)"
        using payload_byte [OF h2(3) q3 _ in_q] ctx in_q by auto
      with 1 2 show ?thesis by simp
    qed
    ultimately show ?thesis using h2(2) t2(2) by (intro disjI2 exI [of _ ?q] exI [of _ t2] exI [of _ h2] exI [of _ "free_layout A3 s B4"]) simp
  qed
qed


text \<open>
  The test for room in the next chunk has its sense inverted: the two chunks are joined, and the request answered with
  them, exactly when together they are too small.
\<close>

lemma node_used_apart:
  assumes "core c L bl m" "node c L x" "(a, s, Used) \<in> chunks 0 L"
  shows "x + 12 \<le> a \<or> a + s \<le> x"
proof -
  obtain b t k where q: "(b, t, k) \<in> chunks 0 L" "b \<le> x" "x + 12 \<le> b + t" "k \<noteq> Used"
    using node_piece [OF assms(1,2)] by (metis kind.distinct(1,11))
  show ?thesis using chunks_disjoint [OF q(1) assms(3)] q(2-4) by auto
qed

lemma free_links:
  assumes c: "core c L bl m" and q: "(b, t, Free) \<in> chunks 0 L"
  shows "node c L (h_next m b)" "node c L (h_prev m b)" "h_next m b \<noteq> b" "h_prev m b \<noteq> b"
proof -
  let ?i = "bin_index t" let ?h = "bin_at c ?i"
  have i: "?i < BIN_NUMBER" and bi: "b \<in> set (bl ?i)" using coreD(7) [OF c, of ?i] q by auto
  obtain as bs where sp: "bl ?i = as @ b # bs" using bi by (auto dest: split_list)
  have ring: "ring m ?h (as @ b # bs)" using coreD(5) [OF c i] sp by simp
  have dist: "distinct (?h # as @ b # bs)" using coreD(6) [OF c i] ring_nodes(3) [OF c i] sp by simp
  have an: "h_next m b = hd (bs @ [?h])" "h_prev m b = last (?h # as)"
    using ring by (auto simp: links_append dest: links_last) (cases bs; auto dest: links_first simp: links_append)
  have nd: "node c L x" if "x \<in> insert ?h (set (bl ?i))" for x using ring_nodes(1,2) [OF c i] that by blast
  have n: "hd (bs @ [?h]) \<in> insert ?h (set (bl ?i))" "hd (bs @ [?h]) \<noteq> b" using sp dist by (cases bs; auto)+
  have p: "last (?h # as) \<in> insert ?h (set (bl ?i))" "last (?h # as) \<noteq> b" using last_in_set [of "?h # as"] sp dist by auto
  show "node c L (h_next m b)" "node c L (h_prev m b)" unfolding an by (rule nd [OF n(1)], rule nd [OF p(1)])
  show "h_next m b \<noteq> b" "h_prev m b \<noteq> b" unfolding an by (rule n(2), rule p(2))
qed

lemma realloc_joins_too_little:
  fixes h :: "'z heap_scheme"
  assumes inv: "heap_inv h (A @ (s, Used) # (t, Free) # B)" and n: "s + t < n + 8" "n + 8 < 2 ^ 32"
  shows "\<exists>h'. realloc ext (extent A + 4) n h = Some (Inr (extent A + 4, h')) \<and> h_size (hmem h') (extent A) = s + t"
proof -
  let ?c = "hcontext h" and ?a = "extent A" and ?b = "extent A + s" and ?L = "A @ (s, Used) # (t, Free) # B" and ?m = "hmem h"
  note u = used_chunk [OF inv]
  obtain bl where c: "core ?c ?L bl ?m" using inv by (auto simp: heap_inv_def)
  have q: "(?b, t, Free) \<in> chunks 0 ?L" and p: "(?a, s, Used) \<in> chunks 0 ?L" by simp_all
  note f = chunk_tag [OF c q]
  have st: "s + t < 2 ^ 31" using inv by (simp add: heap_inv_def)
  have eq: "realloc ext (?a + 4) n h = Some (Inr (?a + 4, absorb_next ?a ?b h))"
    using u n f st by (auto simp: realloc_def Let_def add32_def MIN_INUSE_CHUNK_SIZE_def)
  note nodes = free_links [OF c q]
  have q': "node ?c ?L ?b" using q by (auto simp: node_def)
  note ap = nodes(1,2) [THEN node_used_apart [OF c _ p]]
  let ?m1 = "set_size ?a (s + t) ?m" let ?m2 = "store32 (?a + s - 4 + t) (h_size ?m1 ?a) ?m1"
  have m1: "load32 ?m1 ?a = 2 * (s + t) + 1" using u(2) st by (simp add: set_size_def INUSE_STATUS_def)
  have m2: "load32 ?m2 ?a = 2 * (s + t) + 1" "h_next ?m2 ?b = h_next ?m ?b" "h_prev ?m2 ?b = h_prev ?m ?b"
    using m1 u(5) f(3) by (auto simp: load_store_other h_next_def h_prev_def set_size_def)
  let ?m3 = "set_prev (h_next ?m2 ?b) (h_prev ?m2 ?b) ?m2"
  let ?m4 = "set_next (h_prev ?m3 ?b) (h_next ?m3 ?b) ?m3"
  let ?m5 = "set_prev ?b 0 (set_next ?b 0 ?m4)"
  have m3: "load32 ?m3 ?a = 2 * (s + t) + 1" "h_prev ?m3 ?b = h_prev ?m ?b"
    using m2 ap(1) u(5) nodes(3) nodes(1) node_sep [OF c nodes(1) q' nodes(3)]
    by (auto simp: set_prev_def load_store_other h_prev_def)
  have "load32 ?m4 ?a = 2 * (s + t) + 1" using m3 ap(2) u(5) by (auto simp: set_next_def load_store_other)
  then have m5: "load32 ?m5 ?a = 2 * (s + t) + 1" using u(5) by (auto simp: set_next_def set_prev_def load_store_other)
  have "hmem (absorb_next ?a ?b h) = store32 (?c + 4) 0 (store32 ?c (sub32 (load32 ?m5 ?c) (h_size ?m5 ?b)) ?m5)"
    using u(1) f(1) by (simp add: absorb_next_def Let_def hload_def context_fields)
  moreover have "?a + 4 \<le> ?c \<or> ?c + 8 \<le> ?a" using u(5,7) by (auto simp: CONTEXT_SIZE_def)
  ultimately have "load32 (hmem (absorb_next ?a ?b h)) ?a = 2 * (s + t) + 1" using m5 by (auto simp: load_store_other)
  then have "h_size (hmem (absorb_next ?a ?b h)) ?a = s + t" by (simp add: h_size_def)
  then show ?thesis using eq by blast
qed

end
