(* ===== verification/Malloc_Client.thy ===== *)
theory Malloc_Client
  imports Malloc_Spec
begin

text \<open>
  The contract of an allocator as its clients see it, and the programs that use one: any sequence of requests,
  writes into the blocks held and releases of them. The contract is met by \<open>malloc\<close> and \<open>free\<close> of
  \<open>src/system/malloc/malloc.c\<close> on a heap that \<open>init_malloc\<close> made.
\<close>

section \<open>Client programs\<close>

text \<open>A client names the blocks it holds by their position in the list of them; a block has its address, the size
  that was asked for, and the bytes last written.\<close>

datatype request = Alloc nat | Write nat "u8 list" | Release nat

type_synonym holdings = "(nat \<times> nat \<times> u8 list) list"

definition remove_nth :: "nat \<Rightarrow> 'a list \<Rightarrow> 'a list" where
  "remove_nth i xs = take i xs @ drop (Suc i) xs"

fun serve :: "(nat \<Rightarrow> 's \<Rightarrow> (nat \<times> 's) result option) \<Rightarrow> (nat \<Rightarrow> 's \<Rightarrow> 's result) \<Rightarrow> (nat \<Rightarrow> u8 list \<Rightarrow> 's \<Rightarrow> 's) \<Rightarrow>
    request list \<Rightarrow> holdings \<Rightarrow> 's \<Rightarrow> (holdings \<times> 's) result option" where
  "serve alloc release put [] hs s = Some (Inr (hs, s))"
| "serve alloc release put (Alloc n # cs) hs s =
     (case alloc n s of
        None \<Rightarrow> None
      | Some (Inl e) \<Rightarrow> Some (Inl e)
      | Some (Inr (p, s')) \<Rightarrow> serve alloc release put cs (if p = 0 then hs else hs @ [(p, n, [])]) s')"
| "serve alloc release put (Write i xs # cs) hs s =
     (if i < length hs \<and> length xs \<le> fst (snd (hs ! i))
      then serve alloc release put cs (hs[i := (fst (hs ! i), fst (snd (hs ! i)), xs)]) (put (fst (hs ! i)) xs s)
      else serve alloc release put cs hs s)"
| "serve alloc release put (Release i # cs) hs s =
     (if i < length hs
      then (case release (fst (hs ! i)) s of
              Inl e \<Rightarrow> Some (Inl e)
            | Inr s' \<Rightarrow> serve alloc release put cs (remove_nth i hs) s')
      else serve alloc release put cs hs s)"

fun within :: "nat \<Rightarrow> request \<Rightarrow> bool" where
  "within limit (Alloc n) = (n < limit)"
| "within limit _ = True"

definition store_bytes :: "nat \<Rightarrow> u8 list \<Rightarrow> memory \<Rightarrow> memory" where
  "store_bytes p xs m x = (if p \<le> x \<and> x < p + length xs then xs ! (x - p) else m x)"

text \<open>The blocks held do not overlap, and have the bytes the client wrote.\<close>

definition intact :: "memory \<Rightarrow> holdings \<Rightarrow> bool" where
  "intact m hs \<longleftrightarrow> (\<forall>(p, n, xs) \<in> set hs. \<forall>i < length xs. m (p + i) = xs ! i)
     \<and> (\<forall>i < length hs. \<forall>j < length hs. i \<noteq> j \<longrightarrow>
          fst (hs ! i) + fst (snd (hs ! i)) \<le> fst (hs ! j) \<or> fst (hs ! j) + fst (snd (hs ! j)) \<le> fst (hs ! i))"

section \<open>The contract\<close>

locale block_allocator =
  fixes inv :: "'s \<Rightarrow> 'l \<Rightarrow> bool" and blocks :: "'l \<Rightarrow> (nat \<times> nat) set" and bytes :: "'s \<Rightarrow> memory"
    and alloc :: "nat \<Rightarrow> 's \<Rightarrow> (nat \<times> 's) result option" and release :: "nat \<Rightarrow> 's \<Rightarrow> 's result"
    and put :: "nat \<Rightarrow> u8 list \<Rightarrow> 's \<Rightarrow> 's" and limit :: nat
  assumes apart: "inv s l \<Longrightarrow> (p, k) \<in> blocks l \<Longrightarrow> (q, j) \<in> blocks l \<Longrightarrow> p + k \<le> q \<or> q + j \<le> p \<or> (p, k) = (q, j)"
    and sized: "inv s l \<Longrightarrow> (p, k) \<in> blocks l \<Longrightarrow> 0 < k"
    and alloc_law: "inv s l \<Longrightarrow> n < limit \<Longrightarrow> alloc n s = Some (Inr (0, s)) \<or>
      (\<exists>p k s' l'. alloc n s = Some (Inr (p, s')) \<and> 0 < p \<and> n \<le> k \<and> inv s' l' \<and> (p, k) \<notin> blocks l \<and> blocks l' = insert (p, k) (blocks l)
         \<and> (\<forall>(q, j) \<in> blocks l. \<forall>i < j. bytes s' (q + i) = bytes s (q + i)))"
    and release_law: "inv s l \<Longrightarrow> (p, k) \<in> blocks l \<Longrightarrow>
      \<exists>s' l'. release p s = Inr s' \<and> inv s' l' \<and> blocks l' = blocks l - {(p, k)}
         \<and> (\<forall>(q, j) \<in> blocks l'. \<forall>i < j. bytes s' (q + i) = bytes s (q + i))"
    and put_law: "inv s l \<Longrightarrow> (p, k) \<in> blocks l \<Longrightarrow> length xs \<le> k \<Longrightarrow> inv (put p xs s) l"
    and put_bytes: "bytes (put p xs s) = store_bytes p xs (bytes s)"
begin

definition holds :: "'s \<Rightarrow> 'l \<Rightarrow> holdings \<Rightarrow> bool" where
  "holds s l hs \<longleftrightarrow> inv s l \<and> distinct (map fst hs) \<and>
     (\<forall>(p, n, xs) \<in> set hs. length xs \<le> n \<and> (\<forall>i < length xs. bytes s (p + i) = xs ! i) \<and> (\<exists>k \<ge> n. (p, k) \<in> blocks l))"

lemma block_unique: "inv s l \<Longrightarrow> (p, k) \<in> blocks l \<Longrightarrow> (p, j) \<in> blocks l \<Longrightarrow> k = j"
  using apart [of s l p k p j] sized by fastforce

lemma holdsD:
  assumes "holds s l hs" "i < length hs"
  shows "length (snd (snd (hs ! i))) \<le> fst (snd (hs ! i))"
    "\<exists>k. fst (snd (hs ! i)) \<le> k \<and> (fst (hs ! i), k) \<in> blocks l"
  using assms unfolding holds_def by (auto dest!: nth_mem simp: case_prod_beta)

lemma holds_intact:
  assumes "holds s l hs"
  shows "intact (bytes s) hs"
proof -
  have "fst (hs ! i) + fst (snd (hs ! i)) \<le> fst (hs ! j) \<or> fst (hs ! j) + fst (snd (hs ! j)) \<le> fst (hs ! i)"
    if ij: "i < length hs" "j < length hs" "i \<noteq> j" for i j
  proof -
    obtain k k' where k: "fst (snd (hs ! i)) \<le> k" "(fst (hs ! i), k) \<in> blocks l"
      "fst (snd (hs ! j)) \<le> k'" "(fst (hs ! j), k') \<in> blocks l" using holdsD(2) [OF assms] ij by metis
    have "fst (hs ! i) \<noteq> fst (hs ! j)" using assms ij unfolding holds_def by (auto simp: distinct_conv_nth)
    then show ?thesis using apart [OF _ k(2,4)] k(1,3) assms unfolding holds_def by fastforce
  qed
  moreover have "\<forall>(p, n, xs) \<in> set hs. \<forall>i < length xs. bytes s (p + i) = xs ! i" using assms unfolding holds_def by blast
  ultimately show ?thesis unfolding intact_def by blast
qed

lemma holds_alloc:
  assumes h: "holds s l hs" and n: "n < limit"
  shows "\<exists>p s' l'. alloc n s = Some (Inr (p, s')) \<and> holds s' l' (if p = 0 then hs else hs @ [(p, n, [])])"
proof -
  have inv: "inv s l" using h by (simp add: holds_def)
  from alloc_law [OF inv n] show ?thesis
  proof (elim disjE exE conjE)
    assume "alloc n s = Some (Inr (0, s))"
    then show ?thesis using h by auto
  next
    fix p k s' l'
    assume a: "alloc n s = Some (Inr (p, s'))" "0 < p" "n \<le> k" "inv s' l'" "(p, k) \<notin> blocks l" "blocks l' = insert (p, k) (blocks l)"
      and same: "\<forall>(q, j) \<in> blocks l. \<forall>i < j. bytes s' (q + i) = bytes s (q + i)"
    have "p \<notin> fst ` set hs"
    proof
      assume "p \<in> fst ` set hs"
      then obtain j where "(p, j) \<in> blocks l" using h unfolding holds_def by fastforce
      with block_unique [OF a(4), of p j k] a(5,6) show False by auto
    qed
    moreover have "length xs \<le> m \<and> (\<forall>i < length xs. bytes s' (q + i) = xs ! i) \<and> (\<exists>k \<ge> m. (q, k) \<in> blocks l')"
      if "(q, m, xs) \<in> set hs" for q m xs
    proof -
      obtain j where j: "length xs \<le> m" "\<forall>i < length xs. bytes s (q + i) = xs ! i" "m \<le> j" "(q, j) \<in> blocks l"
        using h \<open>(q, m, xs) \<in> set hs\<close> unfolding holds_def by blast
      then show ?thesis using same a(6) by fastforce
    qed
    ultimately have "holds s' l' (hs @ [(p, n, [])])" using h a unfolding holds_def by auto
    then show ?thesis using a(1,2) by auto
  qed
qed

lemma holds_put:
  assumes h: "holds s l hs" and i: "i < length hs" "length xs \<le> fst (snd (hs ! i))"
  shows "holds (put (fst (hs ! i)) xs s) l (hs[i := (fst (hs ! i), fst (snd (hs ! i)), xs)])"
proof -
  let ?p = "fst (hs ! i)" and ?n = "fst (snd (hs ! i))"
  let ?s = "put ?p xs s" and ?hs = "hs[i := (?p, ?n, xs)]"
  have inv: "inv s l" using h by (simp add: holds_def)
  obtain k where k: "?n \<le> k" "(?p, k) \<in> blocks l" using holdsD(2) [OF h i(1)] by blast
  have "inv ?s l" using put_law [OF inv k(2)] i(2) k(1) by simp
  moreover have "map fst ?hs = map fst hs" using i(1) list_update_id [of "map fst hs" i] by (simp add: map_update)
  moreover have "length ys \<le> m \<and> (\<forall>j < length ys. bytes ?s (q + j) = ys ! j) \<and> (\<exists>k \<ge> m. (q, k) \<in> blocks l)"
    if x: "(q, m, ys) \<in> set ?hs" for q m ys
  proof -
    obtain j where j: "j < length hs" "?hs ! j = (q, m, ys)" using x by (metis in_set_conv_nth length_list_update)
    show ?thesis
    proof (cases "j = i")
      case True
      then show ?thesis using i j k by (auto simp: put_bytes store_bytes_def)
    next
      case False
      then have hj: "hs ! j = (q, m, ys)" using j by simp
      then have "(q, m, ys) \<in> set hs" using j(1) by (metis nth_mem)
      then obtain k' where k': "length ys \<le> m" "\<forall>i < length ys. bytes s (q + i) = ys ! i" "m \<le> k'" "(q, k') \<in> blocks l"
        using h unfolding holds_def by blast
      have "distinct (map fst hs)" using h by (simp add: holds_def)
      then have "?p \<noteq> q" using nth_eq_iff_index_eq [of "map fst hs" i j] i(1) j(1) hj False by auto
      then have "?p + k \<le> q \<or> q + k' \<le> ?p" using apart [OF inv k(2) k'(4)] by auto
      then show ?thesis using k' k(1) i(2) by (auto simp: put_bytes store_bytes_def)
    qed
  qed
  ultimately show ?thesis using h unfolding holds_def by auto
qed

lemma holds_release:
  assumes h: "holds s l hs" and i: "i < length hs"
  shows "\<exists>s' l'. release (fst (hs ! i)) s = Inr s' \<and> holds s' l' (remove_nth i hs)"
proof -
  let ?p = "fst (hs ! i)"
  have inv: "inv s l" and d: "distinct (map fst hs)" using h by (simp_all add: holds_def)
  obtain k where k: "(?p, k) \<in> blocks l" using holdsD(2) [OF h i] by blast
  obtain s' l' where r: "release ?p s = Inr s'" "inv s' l'" "blocks l' = blocks l - {(?p, k)}"
    "\<forall>(q, j) \<in> blocks l'. \<forall>i < j. bytes s' (q + i) = bytes s (q + i)" using release_law [OF inv k] by blast
  have "distinct (map fst (take i hs @ hs ! i # drop (Suc i) hs))" by (subst id_take_nth_drop [OF i, symmetric]) (rule d)
  then have d': "distinct (map fst (remove_nth i hs))" "?p \<notin> fst ` set (remove_nth i hs)" by (auto simp: remove_nth_def)
  have sub: "set (remove_nth i hs) \<subseteq> set hs" by (auto simp: remove_nth_def dest: in_set_takeD in_set_dropD)
  have "length xs \<le> m \<and> (\<forall>i < length xs. bytes s' (q + i) = xs ! i) \<and> (\<exists>k \<ge> m. (q, k) \<in> blocks l')"
    if x: "(q, m, xs) \<in> set (remove_nth i hs)" for q m xs
  proof -
    have x': "(q, m, xs) \<in> set hs" using x sub by blast
    have ne: "q \<noteq> ?p" using x d'(2) by (metis fst_conv image_eqI)
    obtain j where j: "length xs \<le> m" "\<forall>i < length xs. bytes s (q + i) = xs ! i" "m \<le> j" "(q, j) \<in> blocks l"
      using h x' unfolding holds_def by blast
    then have q: "(q, j) \<in> blocks l'" using r(3) ne by simp
    then have "\<forall>i < j. bytes s' (q + i) = bytes s (q + i)" using r(4) by blast
    with j q show ?thesis by auto
  qed
  then have "holds s' l' (remove_nth i hs)" using r(2) d'(1) unfolding holds_def by blast
  with r(1) show ?thesis by blast
qed

lemma serve_holds:
  "holds s l hs \<Longrightarrow> list_all (within limit) cs \<Longrightarrow>
     \<exists>hs' s' l'. serve alloc release put cs hs s = Some (Inr (hs', s')) \<and> holds s' l' hs'"
proof (induction cs arbitrary: s l hs)
  case (Cons c cs)
  show ?case
  proof (cases c)
    case (Alloc n)
    then show ?thesis using holds_alloc [OF Cons.prems(1), of n] Cons by fastforce
  next
    case (Write i xs)
    have cs: "list_all (within limit) cs" using Cons.prems(2) by simp
    show ?thesis using Write Cons.IH [OF Cons.prems(1) cs] Cons.IH [OF holds_put [OF Cons.prems(1), of i xs] cs] by auto
  next
    case (Release i)
    then show ?thesis using holds_release [OF Cons.prems(1), of i] Cons by fastforce
  qed
qed auto

end

section \<open>The heap allocator meets it\<close>

definition heap_ready :: "'z heap_scheme \<Rightarrow> layout \<Rightarrow> bool" where
  "heap_ready h L \<longleftrightarrow> heap_inv h L \<and> hload external_alloc_at h = 0"

definition used_blocks :: "layout \<Rightarrow> (nat \<times> nat) set" where
  "used_blocks L = {(p, k). \<exists>a s. (a, s, Used) \<in> chunks 0 L \<and> p = a + 4 \<and> k = s - 8}"

definition put_payload :: "nat \<Rightarrow> u8 list \<Rightarrow> 'z heap_scheme \<Rightarrow> 'z heap_scheme" where
  "put_payload p xs h = h\<lparr>hmem := store_bytes p xs (hmem h)\<rparr>"


lemma used_blocks_split:
  assumes "(p, k) \<in> used_blocks L"
  obtains A s B where "L = A @ (s, Used) # B" "p = extent A + 4" "k = s - 8"
proof -
  obtain a s where a: "(a, s, Used) \<in> chunks 0 L" "p = a + 4" "k = s - 8" using assms by (auto simp: used_blocks_def)
  then show thesis using chunks_split [OF a(1)] that by metis
qed

lemma chunk_sized: "heap_inv h L \<Longrightarrow> (a, s, Used) \<in> chunks 0 L \<Longrightarrow> 16 \<le> s"
  by (erule chunks_split) (use used_chunk(5) in blast)

lemma used_blocks_free_layout:
  assumes inv: "heap_inv h (A @ (s, Used) # B)"
  shows "used_blocks (free_layout A s B) = used_blocks (A @ (s, Used) # B) - {(extent A + 4, s - 8)}"
proof -
  have p: "(extent A, s, Used) \<in> chunks 0 (A @ (s, Used) # B)" by simp
  have s: "16 \<le> s" using used_chunk(5) [OF inv] .
  have 1: "(a, t, Used) \<in> chunks 0 (free_layout A s B)" if "(a, t, Used) \<in> chunks 0 (A @ (s, Used) # B)" "(a, t) \<noteq> (extent A, s)" for a t
    using rest_chunks(2) [of a t Used A s B] that by (auto simp: free_layout_def)
  have 2: "(a, t, Used) \<in> chunks 0 (A @ (s, Used) # B) \<and> a \<noteq> extent A" if q: "(a, t, Used) \<in> chunks 0 (free_layout A s B)" for a t
  proof -
    have e: "extent (left_rest A) + (s + left_gain A + right_gain B) = extent A + s + right_gain B" using extent_left_rest [of A] by simp
    have "(a, t, Used) \<in> chunks 0 (left_rest A) \<or> (a, t, Used) \<in> chunks (extent A + s + right_gain B) (right_rest B)"
      using q e by (auto simp: free_layout_def)
    then have ab: "(a, t, Used) \<in> chunks 0 A \<or> (a, t, Used) \<in> chunks (extent A + s) B"
      by (cases A rule: rev_cases; cases B; auto simp: left_defs right_defs split: if_splits)
    have "16 \<le> t" by (rule chunk_sized [OF inv, of a]) (use ab in auto)
    with ab show ?thesis using chunks_range [of a t Used 0 A] chunks_range [of a t Used "extent A + s" B] s by auto
  qed
  show ?thesis
  proof (intro set_eqI iffI)
    fix x assume "x \<in> used_blocks (free_layout A s B)"
    then show "x \<in> used_blocks (A @ (s, Used) # B) - {(extent A + 4, s - 8)}" using 2 unfolding used_blocks_def by auto
  next
    fix x assume x: "x \<in> used_blocks (A @ (s, Used) # B) - {(extent A + 4, s - 8)}"
    then obtain a t where "(a, t, Used) \<in> chunks 0 (A @ (s, Used) # B)" "x = (a + 4, t - 8)" "(a, t) \<noteq> (extent A, s)"
      unfolding used_blocks_def by auto
    then show "x \<in> used_blocks (free_layout A s B)" using 1 unfolding used_blocks_def by auto
  qed
qed

lemma used_blocks_bytes:
  assumes "heap_inv h L" "payload_same (hcontext h) L (hmem h) m'" "(q, j) \<in> used_blocks L" "i < j"
  shows "m' (q + i) = hmem h (q + i)"
proof -
  obtain A s B where L: "L = A @ (s, Used) # B" "q = extent A + 4" "j = s - 8" by (rule used_blocks_split [OF assms(3)])
  have "(extent A, s, Used) \<in> chunks 0 L" using L(1) by simp
  from payload_byte [OF assms(2) this] used_chunk(7) [OF assms(1) [unfolded L(1)]] show ?thesis using L assms(4) by auto
qed


lemma used_blocks_split_layout:
  assumes "heap_inv h (A @ (s, Free) # B)" "heap_inv h' (split_layout A r s B)" "16 \<le> r" "r \<le> s"
  shows "\<exists>t. r \<le> t \<and> used_blocks (split_layout A r s B) = insert (extent A + 4, t - 8) (used_blocks (A @ (s, Free) # B))"
    "(extent A + 4, k) \<notin> used_blocks (A @ (s, Free) # B)"
proof -
  show "\<exists>t. r \<le> t \<and> used_blocks (split_layout A r s B) = insert (extent A + 4, t - 8) (used_blocks (A @ (s, Free) # B))"
  proof (cases "s - r < 16")
    case True
    then have "used_blocks (split_layout A r s B) = insert (extent A + 4, s - 8) (used_blocks (A @ (s, Free) # B))"
      by (auto simp: split_layout_def MIN_FREE_CHUNK_SIZE_def used_blocks_def)
    then show ?thesis using assms(4) by blast
  next
    case False
    then have "used_blocks (split_layout A r s B) = insert (extent A + 4, r - 8) (used_blocks (A @ (s, Free) # B))"
      using assms(4) by (auto simp: split_layout_def MIN_FREE_CHUNK_SIZE_def used_blocks_def add.assoc)
    then show ?thesis by blast
  qed
  have q: "(extent A, s, Free) \<in> chunks 0 (A @ (s, Free) # B)" by simp
  have "a \<noteq> extent A" if "(a, t, Used) \<in> chunks 0 (A @ (s, Free) # B)" for a t
    using chunks_disjoint [OF q that] chunk_sized [OF assms(1) that] assms(3,4) by auto
  then show "(extent A + 4, k) \<notin> used_blocks (A @ (s, Free) # B)" unfolding used_blocks_def by auto
qed

lemma heap_alloc_law:
  assumes r: "heap_ready h L" and n: "n < 2 ^ 32 - 8"
  shows "malloc ext n h = Some (Inr (0, h)) \<or>
    (\<exists>p k h' L'. malloc ext n h = Some (Inr (p, h')) \<and> 0 < p \<and> n \<le> k \<and> heap_ready h' L' \<and> (p, k) \<notin> used_blocks L
       \<and> used_blocks L' = insert (p, k) (used_blocks L) \<and> (\<forall>(q, j) \<in> used_blocks L. \<forall>i < j. hmem h' (q + i) = hmem h (q + i)))"
proof -
  have inv: "heap_inv h L" and e: "hload external_alloc_at h = 0" using r by (simp_all add: heap_ready_def)
  have n': "n + 8 < 2 ^ 32" using n by simp
  from malloc_ok [OF inv n' e, of ext] show ?thesis
  proof (elim disjE exE conjE)
    fix A s B h'
    assume L: "L = A @ (s, Free) # B" "max 16 (n + 8) \<le> s" and m: "malloc ext n h = Some (Inr (extent A + 4, h'))"
      and inv': "heap_inv h' (split_layout A (max 16 (n + 8)) s B)" and pay: "payload_same (hcontext h) L (hmem h) (hmem h')"
      and e': "hload external_alloc_at h' = 0"
    have g: "16 \<le> max 16 (n + 8)" by simp
    note u = used_blocks_split_layout [OF inv [unfolded L(1)] inv' g L(2), folded L(1)]
    obtain t where t: "max 16 (n + 8) \<le> t" "used_blocks (split_layout A (max 16 (n + 8)) s B) = insert (extent A + 4, t - 8) (used_blocks L)"
      using u(1) by blast
    have "\<forall>(q, j) \<in> used_blocks L. \<forall>i < j. hmem h' (q + i) = hmem h (q + i)" using used_blocks_bytes [OF inv pay] by blast
    moreover have "heap_ready h' (split_layout A (max 16 (n + 8)) s B)" using inv' e' by (simp add: heap_ready_def)
    moreover have "n \<le> t - 8" using t(1) by linarith
    ultimately show ?thesis using m t(2) u(2) by (intro disjI2 exI [of _ "extent A + 4"] exI [of _ "t - 8"]) auto
  qed simp
qed

lemma heap_release_law:
  assumes r: "heap_ready h L" and p: "(p, k) \<in> used_blocks L"
  shows "\<exists>h' L'. free p h = Inr h' \<and> heap_ready h' L' \<and> used_blocks L' = used_blocks L - {(p, k)}
     \<and> (\<forall>(q, j) \<in> used_blocks L'. \<forall>i < j. hmem h' (q + i) = hmem h (q + i))"
proof -
  obtain A s B where L: "L = A @ (s, Used) # B" "p = extent A + 4" "k = s - 8" by (rule used_blocks_split [OF p])
  have inv: "heap_inv h (A @ (s, Used) # B)" and e: "hload external_alloc_at h = 0" using r L(1) by (simp_all add: heap_ready_def)
  obtain h' where h': "free p h = Inr h'" "heap_inv h' (free_layout A s B)" "payload_same (hcontext h) (A @ (s, Loose) # B) (hmem h) (hmem h')"
    "hcontext h' = hcontext h" "hload external_alloc_at h' = 0" using free_ok [OF inv] L(2) e by auto
  note u = used_blocks_free_layout [OF inv]
  have "hmem h' (q + i) = hmem h (q + i)" if q: "(q, j) \<in> used_blocks (free_layout A s B)" and i: "i < j" for q j i
  proof -
    have q': "(q, j) \<in> used_blocks (A @ (s, Used) # B)" "(q, j) \<noteq> (extent A + 4, s - 8)" using q unfolding u by auto
    obtain b t where b: "(b, t, Used) \<in> chunks 0 (A @ (s, Used) # B)" "q = b + 4" "j = t - 8" using q'(1) by (auto simp: used_blocks_def)
    have bt: "(b, t) \<noteq> (extent A, s)" using q'(2) b by auto
    obtain A2 B2 where A2: "A @ (s, Used) # B = A2 @ (t, Used) # B2" "b = extent A2" by (rule chunks_split [OF b(1)])
    have out: "b + t \<le> hcontext h \<or> hcontext h + CONTEXT_SIZE \<le> b" using used_chunk(7) [OF inv [unfolded A2(1)]] A2(2) by simp
    have "(b, t, Used) \<in> chunks 0 (A @ (s, Loose) # B)" using b(1) bt by auto
    from payload_byte [OF h'(3) this] out i b show ?thesis by auto
  qed
  then have "\<forall>(q, j) \<in> used_blocks (free_layout A s B). \<forall>i < j. hmem h' (q + i) = hmem h (q + i)" by blast
  moreover have "heap_ready h' (free_layout A s B)" using h' by (simp add: heap_ready_def)
  ultimately show ?thesis using h'(1) u L by (intro exI [of _ h'] exI [of _ "free_layout A s B"]) simp
qed

lemma heap_put_law:
  assumes r: "heap_ready h L" and p: "(p, k) \<in> used_blocks L" and x: "length xs \<le> k"
  shows "heap_ready (put_payload p xs h) L"
proof -
  obtain a s where a: "(a, s, Used) \<in> chunks 0 L" "p = a + 4" "k = s - 8" using p by (auto simp: used_blocks_def)
  have inv: "heap_inv h L" using r by (simp add: heap_ready_def)
  note s = chunk_sized [OF inv a(1)]
  have "store_bytes p xs (hmem h) y = hmem h y" if "y < a + 4 \<or> a + s \<le> y + 4" for y
    using that a(2,3) x s by (auto simp: store_bytes_def)
  note h = heap_inv_payload [OF inv a(1) this]
  show ?thesis using h(1) h(2) [of external_alloc_at] r by (simp add: heap_ready_def put_payload_def external_alloc_at_def)
qed

interpretation ha: block_allocator heap_ready used_blocks hmem "malloc ext" free put_payload "2 ^ 32 - 8"
proof (unfold_locales, goal_cases)
  case (1 h L p k q j)
  then obtain a s b t where a: "(a, s, Used) \<in> chunks 0 L" "p = a + 4" "k = s - 8" and b: "(b, t, Used) \<in> chunks 0 L" "q = b + 4" "j = t - 8"
    by (auto simp: used_blocks_def)
  have inv: "heap_inv h L" using 1 by (simp add: heap_ready_def)
  show ?case using chunks_disjoint [OF a(1) b(1)] a b chunk_sized [OF inv] by auto
next
  case (2 h L p k)
  then obtain a s where a: "(a, s, Used) \<in> chunks 0 L" "k = s - 8" by (auto simp: used_blocks_def)
  have inv: "heap_inv h L" using 2 by (simp add: heap_ready_def)
  show ?case using chunk_sized [OF inv a(1)] a(2) by simp
next
  case (3 h L n)
  then show ?case by (rule heap_alloc_law)
next
  case (4 h L p k)
  then show ?case by (rule heap_release_law)
next
  case (5 h L p k xs)
  then show ?case by (rule heap_put_law)
qed (simp add: put_payload_def)


section \<open>Properties\<close>

lemma fresh_heap:
  "\<exists>h :: heap. heap_inv h (init_layout 4096 65536) \<and> hload external_alloc_at h = 0"
  using init_malloc_ok [of 65536 4096 "\<lparr>hmem = (\<lambda>_. 0), hcontext = 0\<rparr>"] by (auto simp: CONTEXT_SIZE_def BIN_NUMBER_def)

lemma fresh_layout: "init_layout 4096 65536 = [(5180, Gap), (8, Bound)] @ (64436, Free) # [(8, Bound)]"
  by (simp add: init_layout_def buffer_layout_def CONTEXT_SIZE_def BIN_NUMBER_def)

text \<open>A heap with one chunk of 108 bytes in use, followed by the rest of the memory, which is free.\<close>

lemma one_used:
  "\<exists>h :: heap. heap_inv h ([(5180, Gap), (8, Bound)] @ (108, Used) # (64328, Free) # [(8, Bound)]) \<and> hload external_alloc_at h = 0"
proof -
  obtain h :: heap where h: "heap_inv h ([(5180, Gap), (8, Bound)] @ (64436, Free) # [(8, Bound)])" "hload external_alloc_at h = 0"
    using fresh_heap unfolding fresh_layout by blast
  from carve_ok [OF h(1), of 108] h(2) show ?thesis by (auto simp: split_layout_def MIN_FREE_CHUNK_SIZE_def)
qed



text \<open>\<open>malloc\<close> on a well-formed heap: it returns \<open>NULL\<close> and changes nothing when no free chunk is large enough,
  and otherwise the payload of a chunk cut from a free one; the heap stays well formed, and no byte of a chunk that
  was in use changes.\<close>

theorem malloc_allocates:
  fixes h :: "'z heap_scheme"
  assumes "heap_inv h L" "n + 8 < 2 ^ 32" "hload external_alloc_at h = 0"
  shows "malloc ext n h = Some (Inr (0, h)) \<and> (\<forall>a s. (a, s, Free) \<in> chunks 0 L \<longrightarrow> s < max 16 (n + 8))
    \<or> (\<exists>A s B h'. L = A @ (s, Free) # B \<and> max 16 (n + 8) \<le> s \<and> malloc ext n h = Some (Inr (extent A + 4, h'))
        \<and> heap_inv h' (split_layout A (max 16 (n + 8)) s B) \<and> payload_same (hcontext h) L (hmem h) (hmem h')
        \<and> hcontext h' = hcontext h \<and> hload external_alloc_at h' = 0)"
  by (rule malloc_ok [OF assms])

theorem malloc_allocates_witness:
  "\<exists>(h :: heap) h'. heap_inv h (init_layout 4096 65536) \<and> malloc (\<lambda>n h. (0, 0, h)) 100 h = Some (Inr (5192, h'))
    \<and> heap_inv h' (split_layout [(5180, Gap), (8, Bound)] 108 64436 [(8, Bound)])"
proof -
  obtain h :: heap where h: "heap_inv h (init_layout 4096 65536)" "hload external_alloc_at h = 0" using fresh_heap by blast
  have *: "A = [(5180, Gap), (8, Bound)] \<and> s = 64436 \<and> B = [(8, Bound)]"
    if "init_layout 4096 65536 = A @ (s, Free) # B" for A s B
    using that unfolding fresh_layout by (auto simp: Cons_eq_append_conv append_eq_Cons_conv)
  have n: "(100::nat) + 8 < 2 ^ 32" by simp
  have "\<exists>h'. malloc (\<lambda>n h. (0, 0, h)) 100 h = Some (Inr (5192, h'))
    \<and> heap_inv h' (split_layout [(5180, Gap), (8, Bound)] 108 64436 [(8, Bound)])"
    using malloc_allocates [OF h(1) n h(2), of "\<lambda>n h. (0, 0, h)"]
  proof (elim disjE exE conjE)
    fix A s B h'
    assume a: "init_layout 4096 65536 = A @ (s, Free) # B" "malloc (\<lambda>n h. (0, 0, h)) 100 h = Some (Inr (extent A + 4, h'))"
      "heap_inv h' (split_layout A (max 16 (100 + 8)) s B)"
    with * [OF a(1)] show ?thesis by auto
  qed (auto simp: fresh_layout)
  with h(1) show ?thesis by blast
qed

text \<open>C12. \<open>free\<close> of a chunk in use never fails on a well-formed heap: the chunk becomes free, joined with the free
  chunks before and after it, the heap stays well formed, and no byte of another chunk in use changes.\<close>

theorem free_releases:
  fixes h :: "'z heap_scheme"
  assumes "heap_inv h (A @ (s, Used) # B)"
  shows "\<exists>h'. free (extent A + 4) h = Inr h' \<and> heap_inv h' (free_layout A s B)
    \<and> payload_same (hcontext h) (A @ (s, Loose) # B) (hmem h) (hmem h')
    \<and> hcontext h' = hcontext h \<and> hload external_alloc_at h' = hload external_alloc_at h"
  by (rule free_ok [OF assms])

theorem free_releases_witness:
  "\<exists>(h :: heap) h'. free 5192 h = Inr h' \<and> heap_inv h' ([(5180, Gap), (8, Bound)] @ (64436, Free) # [(8, Bound)])"
proof -
  obtain h :: heap where h: "heap_inv h ([(5180, Gap), (8, Bound)] @ (108, Used) # (64328, Free) # [(8, Bound)])" using one_used by blast
  from free_releases [OF h] show ?thesis by (auto simp: free_layout_def left_defs right_defs)
qed

text \<open>Giving back at once what \<open>malloc\<close> returned brings back the layout the heap had: the chunks that were cut are
  joined again.\<close>

theorem malloc_free_roundtrip:
  assumes "heap_inv h L" "n + 8 < 2 ^ 32" "hload external_alloc_at h = 0" "malloc ext n h = Some (Inr (p, h'))"
  shows "\<exists>h''. free p h' = Inr h'' \<and> heap_inv h'' L"
  by (rule roundtrip_ok [OF assms])

theorem malloc_free_roundtrip_witness:
  "\<exists>(h :: heap) p h' h''. malloc (\<lambda>n h. (0, 0, h)) 100 h = Some (Inr (p, h')) \<and> 0 < p \<and> free p h' = Inr h'' \<and> heap_inv h'' (init_layout 4096 65536)"
proof -
  obtain h :: heap where h: "heap_inv h (init_layout 4096 65536)" "hload external_alloc_at h = 0" using fresh_heap by blast
  obtain p h' where m: "malloc (\<lambda>n h. (0, 0, h)) 100 h = Some (Inr (p, h'))" "0 < p"
    using malloc_ok [OF h(1), of 100 "\<lambda>n h. (0, 0, h)"] h(2) by (auto simp: fresh_layout)
  have n: "(100::nat) + 8 < 2 ^ 32" by simp
  from malloc_free_roundtrip [OF h(1) n h(2) m(1)] m show ?thesis by blast
qed

text \<open>C13. \<open>realloc\<close> of a chunk, but in the case of \<open>realloc_too_small\<close>: it returns \<open>NULL\<close> and changes nothing, which
  only happens when the chunk would have to grow, or a chunk with room for the new size that starts with the old
  contents, as many bytes of them as fit.\<close>

theorem realloc_keeps_contents:
  fixes h :: "'z heap_scheme"
  assumes inv: "heap_inv h (A @ (s, Used) # B)" and n: "8 \<le> n" "n + 8 < 2 ^ 32" and ext: "hload external_alloc_at h = 0"
    and next_chunk: "\<not> right_free B \<or> n + 8 \<le> s + right_gain B"
  shows "realloc ext (extent A + 4) n h = Some (Inr (0, h)) \<and> s < n + 8
    \<or> (\<exists>q t h' L'. realloc ext (extent A + 4) n h = Some (Inr (q + 4, h')) \<and> heap_inv h' L' \<and> (q, t, Used) \<in> chunks 0 L'
        \<and> n + 8 \<le> t \<and> (\<forall>i < min n (s - 8). hmem h' (q + 4 + i) = hmem h (extent A + 4 + i)))"
proof (cases "n + 8 \<le> s")
  case True
  let ?L = "if s - (n + 8) < 16 then A @ (s, Used) # B else free_layout (A @ [(n + 8, Used)]) (s - (n + 8)) B"
  have "\<exists>t. (extent A, t, Used) \<in> chunks 0 ?L \<and> n + 8 \<le> t"
    using True by (cases "s - (n + 8) < 16") (auto simp: free_layout_def left_defs)
  with realloc_shrink_ok [OF inv n(1) True, of ext] show ?thesis by fastforce
next
  case False
  then have "s < n + 8" by simp
  from realloc_move_ok [OF inv this n(2) next_chunk ext, of ext] \<open>s < n + 8\<close> show ?thesis
  proof (elim disjE exE conjE)
    fix q t h' L'
    assume a: "realloc ext (extent A + 4) n h = Some (Inr (q + 4, h'))" "heap_inv h' L'" "(q, t, Used) \<in> chunks 0 L'" "n + 8 \<le> t"
      "\<forall>i < s - 8. hmem h' (q + 4 + i) = hmem h (extent A + 4 + i)"
    then show ?thesis by (intro disjI2 exI [of _ q] exI [of _ t] exI [of _ h'] exI [of _ L']) simp
  qed simp
qed

theorem realloc_keeps_contents_witness:
  "\<exists>(h :: heap). realloc (\<lambda>n h. (0, 0, h)) 5192 50 h \<noteq> Some (Inr (0, h)) \<and>
    (\<exists>q t h' L'. realloc (\<lambda>n h. (0, 0, h)) 5192 50 h = Some (Inr (q + 4, h')) \<and> heap_inv h' L' \<and> (q, t, Used) \<in> chunks 0 L'
      \<and> 58 \<le> t \<and> (\<forall>i < 50. hmem h' (q + 4 + i) = hmem h (5192 + i)))"
proof -
  obtain h :: heap where h: "heap_inv h ([(5180, Gap), (8, Bound)] @ (108, Used) # (64328, Free) # [(8, Bound)])" "hload external_alloc_at h = 0"
    using one_used by blast
  from realloc_keeps_contents [OF h(1) _ _ h(2), of 50 "\<lambda>n h. (0, 0, h)"] show ?thesis
    by (intro exI [of _ h]) (auto simp: right_defs)
qed

text \<open>C35. When the chunk after it is free and both together are too small for the new size, \<open>realloc\<close> does not look for
  another chunk: it returns the two joined, fewer bytes than were asked for.\<close>

theorem realloc_too_small:
  fixes h :: "'z heap_scheme"
  assumes "heap_inv h (A @ (s, Used) # (t, Free) # B)" "s + t < n + 8" "n + 8 < 2 ^ 32"
  shows "\<exists>h'. realloc ext (extent A + 4) n h = Some (Inr (extent A + 4, h')) \<and> h_size (hmem h') (extent A) < n + 8"
  using realloc_joins_too_little [OF assms, of ext] assms(2) by auto

theorem realloc_too_small_witness:
  "\<exists>(h :: heap) h'. realloc (\<lambda>n h. (0, 0, h)) 5192 1000000 h = Some (Inr (5192, h')) \<and> h_size (hmem h') 5188 < 1000008"
proof -
  obtain h :: heap where h: "heap_inv h ([(5180, Gap), (8, Bound)] @ (108, Used) # (64328, Free) # [(8, Bound)])" using one_used by blast
  from realloc_too_small [OF h, of 1000000 "\<lambda>n h. (0, 0, h)"] show ?thesis by auto
qed

text \<open>The size of a request wraps around: the largest requests are answered as a request for no bytes.\<close>

lemma malloc_size_wraps:
  assumes "2 ^ 32 \<le> n + 8" "n < 2 ^ 32"
  shows "malloc ext n h = malloc ext 0 h"
proof -
  have "(n + 8) mod 2 ^ 32 = n + 8 - 2 ^ 32" using assms by (subst mod_if) (simp add: mod_less)
  then have "request_size n = request_size 0" using assms
    by (simp add: request_size_def add32_def MIN_INUSE_CHUNK_SIZE_def MIN_FREE_CHUNK_SIZE_def Let_def)
  then show ?thesis by (subst (1 2) malloc.simps) simp
qed

end
