(* ===== verification/Cache_Progress.thy ===== *)
theory Cache_Progress
  imports Cache
begin

text \<open>
  The block cache always serves: as long as the kernel can have eight chunks and one page is free or lent to the
  cache, no transfer fails, because a chunk can be written back and evicted whenever the table or the memory is full.
\<close>

section \<open>Evictions\<close>

definition cache_ready :: "'z cache_state_scheme \<Rightarrow> bool" where
  "cache_ready st \<longleftrightarrow> cache_wf st \<and> 8 \<le> pm_kalloc st + length (cache_list st)
     \<and> (cache_list st \<noteq> [] \<or> (\<exists>a. free_run (pageMap st) a 1))"

lemma release_chunk_count:
  assumes "cache_wf st" "c \<in> set (cache_list st)" "\<not> dirty (chunks st c)"
  defines "st' \<equiv> release_chunk (ch_index (chunks st c)) st"
  shows "pm_kalloc st' + length (cache_list st') = pm_kalloc st + length (cache_list st)" "\<exists>a. free_run (pageMap st') a 1"
    "chunk_table st' = (chunk_table st)[ch_index (chunks st c) := None]"
proof -
  have ok: "chunk_ok st c" using assms(1,2) by (simp add: cache_wf_def)
  then have t: "chunk_table st ! ch_index (chunks st c) = Some c"
    and v: "valid_pages \<lparr>pg_start = ch_buffer (chunks st c), pg_count = 1\<rparr>" by (auto simp: chunk_ok_def Let_def)
  have st': "st' = st\<lparr>cache_list := remove1 c (cache_list st), pageMap := freePages (pageMap st) (ch_buffer (chunks st c)) 1,
      pm_kalloc := Suc (pm_kalloc st), chunk_table := (chunk_table st)[ch_index (chunks st c) := None]\<rparr>"
    using t assms(3) by (simp add: st'_def release_chunk_def)
  have "0 < length (cache_list st)" using assms(2) by (cases "cache_list st") auto
  then show "pm_kalloc st' + length (cache_list st') = pm_kalloc st + length (cache_list st)"
    using assms(2) by (simp add: st' length_remove1)
  show "chunk_table st' = (chunk_table st)[ch_index (chunks st c) := None]" by (simp add: st')
  let ?p = "buf_page st c"
  have "?p \<in> free_set (pageMap st')" using release_chunk_clean(4) [OF assms(1-3) st'_def [THEN meta_eq_to_obj_eq]] by simp
  then have "page_free (pageMap st') ?p" "UNUSABLE_PAGES \<le> ?p" by (simp_all add: free_set_def)
  moreover have "?p + 1 \<le> PAGE_LIMIT" using v by (auto simp: valid_pages_def buf_page_def)
  ultimately show "\<exists>a. free_run (pageMap st') a 1" unfolding free_run_def by (intro exI [of _ ?p]) simp
qed

lemma sync_entry_fields:
  "cache_list (sync_entry f now e st) = cache_list st" "pm_kalloc (sync_entry f now e st) = pm_kalloc st"
  "chunk_table (sync_entry f now e st) = chunk_table st"
  "dirty (chunks (sync_entry f now e st) c) \<Longrightarrow> dirty (chunks st c)"
  "\<not> dirty (chunks (sync_entry True now (Some c) st) c)"
  by (auto simp: sync_entry_def upd_chunk_def ata_write_def split: option.splits if_splits)

lemma cache_sync_fields:
  "cache_list (cache_sync f st) = cache_list st" "pm_kalloc (cache_sync f st) = pm_kalloc st"
  "chunk_table (cache_sync f st) = chunk_table st"
  "Some c \<in> set (chunk_table st) \<Longrightarrow> \<not> dirty (chunks (cache_sync True st) c)"
proof -
  have "cache_list (fold (sync_entry f now) es s) = cache_list s \<and> pm_kalloc (fold (sync_entry f now) es s) = pm_kalloc s
      \<and> chunk_table (fold (sync_entry f now) es s) = chunk_table s" for es now f and s :: "'a cache_state_scheme"
    by (induction es arbitrary: s) (simp_all add: sync_entry_fields)
  then show "cache_list (cache_sync f st) = cache_list st" "pm_kalloc (cache_sync f st) = pm_kalloc st"
    "chunk_table (cache_sync f st) = chunk_table st" by (simp_all add: cache_sync_def)
  have "\<not> dirty (chunks s c) \<or> Some c \<in> set es \<Longrightarrow> \<not> dirty (chunks (fold (sync_entry True now) es s) c)" for es now and s :: "'a cache_state_scheme"
  proof (induction es arbitrary: s)
    case (Cons e es)
    show ?case
    proof (cases "Some c \<in> set es")
      case False
      then have "\<not> dirty (chunks (sync_entry True now e s) c)" using Cons.prems sync_entry_fields(4,5) by fastforce
      then show ?thesis using Cons.IH by simp
    qed (use Cons.IH in simp)
  qed simp
  then show "Some c \<in> set (chunk_table st) \<Longrightarrow> \<not> dirty (chunks (cache_sync True st) c)" by (simp add: cache_sync_def)
qed

text \<open>An eviction keeps the number of chunks the kernel can have, and has freed a page when it counts one.\<close>

lemma evict_loop_count:
  assumes "cache_wf st" "set es \<subseteq> set (cache_list st)"
  shows "case evict_loop now force n es 0 st of (e, st') \<Rightarrow> pm_kalloc st' + length (cache_list st') = pm_kalloc st + length (cache_list st)
    \<and> (0 < e \<longrightarrow> (\<exists>a. free_run (pageMap st') a 1) \<and> None \<in> set (chunk_table st')) \<and> (e = 0 \<longrightarrow> st' = st)"
  using assms(2)
proof (induction es)
  case (Cons c es)
  then have c: "c \<in> set (cache_list st)" by simp
  have i: "ch_index (chunks st c) < length (chunk_table st)" using assms(1) c by (auto simp: cache_wf_def chunk_ok_def Let_def)
  show ?case
  proof (cases "0 < n \<and> \<not> dirty (chunks st c) \<and> (lastAccessTime (chunks st c) < now \<or> force)")
    case True
    then show ?thesis using release_chunk_count [OF assms(1) c] i by (auto simp: set_update_memI)
  next
    case False
    then show ?thesis using Cons by auto
  qed
qed simp

lemma evict_force:
  assumes "cache_list st \<noteq> []" "\<forall>c \<in> set (cache_list st). \<not> dirty (chunks st c)" "0 < n"
  shows "0 < fst (evict n True st)"
proof -
  obtain c es where "rev (cache_list st) = c # es" using assms(1) by (cases "rev (cache_list st)") auto
  moreover from this have "c \<in> set (cache_list st)" by (metis list.set_intros(1) set_rev)
  ultimately show ?thesis using assms(2,3) by (simp add: evict_def)
qed

lemma evict_count:
  assumes "cache_wf st"
  shows "case evict n force st of (e, st') \<Rightarrow> pm_kalloc st' + length (cache_list st') = pm_kalloc st + length (cache_list st)
    \<and> (0 < e \<longrightarrow> (\<exists>a. free_run (pageMap st') a 1) \<and> None \<in> set (chunk_table st')) \<and> (e = 0 \<longrightarrow> st' = st)"
  using evict_loop_count [OF assms, of "rev (cache_list st)"] by (simp add: evict_def)

lemma cache_evict_frees:
  assumes wf: "cache_wf st" and ne: "cache_list st \<noteq> []"
  shows "case cache_evict 1 st of (e, st') \<Rightarrow> 1 \<le> e \<and> pm_kalloc st' + length (cache_list st') = pm_kalloc st + length (cache_list st)
    \<and> (\<exists>a. free_run (pageMap st') a 1) \<and> None \<in> set (chunk_table st')"
proof -
  let ?n = "\<lambda>s :: 'a cache_state_scheme. pm_kalloc s + length (cache_list s)"
  obtain e1 s1 where 1: "evict 1 False st = (e1, s1)" by fastforce
  note c1 = evict_count [OF wf, of 1 False, unfolded 1, simplified]
  show ?thesis
  proof (cases "e1 < 1")
    case False
    then show ?thesis using 1 c1 by (simp add: cache_evict_def)
  next
    case True
    then have s1: "s1 = st" "e1 = 0" using c1 by auto
    let ?s = "cache_sync True st"
    have wf2: "cache_wf ?s" using cache_sync_wf [OF wf] by simp
    obtain e2 s2 where 2: "evict 1 False ?s = (e2, s2)" by fastforce
    note c2 = evict_count [OF wf2, of 1 False, unfolded 2, simplified]
    show ?thesis
    proof (cases "e2 < 1")
      case False
      then show ?thesis using 1 2 c2 s1 by (simp add: cache_evict_def cache_sync_fields)
    next
      case True
      then have s2: "s2 = ?s" "e2 = 0" using c2 by auto
      obtain e3 s3 where 3: "evict 1 True ?s = (e3, s3)" by fastforce
      note c3 = evict_count [OF wf2, of 1 True, unfolded 3, simplified]
      have "\<forall>c \<in> set (cache_list ?s). \<not> dirty (chunks ?s c)"
        using cache_sync_fields(1) [of True st] cache_sync_fields(4) in_table_iff [OF wf] by metis
      then have "0 < e3" using evict_force [of ?s 1] ne 3 by (simp add: cache_sync_fields)
      then show ?thesis using 1 2 3 c3 s1 s2 by (simp add: cache_evict_def cache_sync_fields)
    qed
  qed
qed

section \<open>Loading\<close>

lemma find_page_found: "free_run m a 1 \<Longrightarrow> \<exists>b m'. find_pages m 1 = (b, m') \<and> b \<noteq> 0"
  using find_pages_cases [of 1 m] by (metis PAGE_SIZE_pos(1) less_numeral_extra(1) mult_is_0 neq0_conv)

lemma allocPages_cache:
  assumes wf: "cache_wf st" and m: "cache_list st \<noteq> [] \<or> (\<exists>a. free_run (pageMap st) a 1)"
  shows "\<exists>b st'. allocPages cache_evict 1 st = (b, st') \<and> b \<noteq> 0
    \<and> pm_kalloc st' + length (cache_list st') = pm_kalloc st + length (cache_list st)"
proof (cases "\<exists>a. free_run (pageMap st) a 1")
  case True
  then obtain b m' where "find_pages (pageMap st) 1 = (b, m')" "b \<noteq> 0" using find_page_found by blast
  then show ?thesis by (simp add: allocPages_def)
next
  case False
  then have f: "find_pages (pageMap st) 1 = (0, pageMap st)" using find_pages_cases [of 1 "pageMap st"] by fastforce
  have "cache_list st \<noteq> []" using m False by blast
  from cache_evict_frees [OF wf this] obtain e st1 where e: "cache_evict 1 st = (e, st1)" "1 \<le> e"
    "pm_kalloc st1 + length (cache_list st1) = pm_kalloc st + length (cache_list st)" "\<exists>a. free_run (pageMap st1) a 1"
    by (auto split: prod.splits)
  obtain b m' where "find_pages (pageMap st1) 1 = (b, m')" "b \<noteq> 0" using e(4) find_page_found by blast
  then show ?thesis using f e by (simp add: allocPages_def)
qed

lemma load_chunk_ready:
  assumes wf: "cache_wf st" and k: "0 < pm_kalloc st" and m: "cache_list st \<noteq> [] \<or> (\<exists>a. free_run (pageMap st) a 1)"
  shows "\<exists>c st'. load_chunk sec i st = Inr (Some c, st') \<and> cache_list st' \<noteq> []
    \<and> pm_kalloc st' + length (cache_list st') = pm_kalloc st + length (cache_list st)"
proof -
  let ?s = "st\<lparr>pm_kalloc := pm_kalloc st - 1, chunk_brk := Suc (chunk_brk st)\<rparr>"
  have "cache_wf ?s" using cache_wf_brk [OF cache.ok_kalloc [OF wf]] by simp
  moreover have "cache_list ?s \<noteq> [] \<or> (\<exists>a. free_run (pageMap ?s) a 1)" using m by simp
  ultimately obtain b s' where "allocPages cache_evict 1 ?s = (b, s')" "b \<noteq> 0" "pm_kalloc s' + length (cache_list s') = pm_kalloc ?s + length (cache_list ?s)"
    using allocPages_cache by metis
  then show ?thesis using k by (simp add: load_chunk_def Let_def)
qed

lemma first_empty_None: "first_empty i es = None \<Longrightarrow> None \<notin> set es"
  by (induction i es rule: first_empty.induct) (auto split: if_splits)

lemma cache_list_short:
  assumes wf: "cache_wf st" and none: "None \<in> set (chunk_table st)"
  shows "length (cache_list st) < 8"
proof -
  have len: "length (chunk_table st) = 8" "distinct (cache_list st)" using wf by (simp_all add: cache_wf_def)
  have "insert None (Some ` set (cache_list st)) \<subseteq> set (chunk_table st)" using none in_table_iff [OF wf] by auto
  then have "card (insert None (Some ` set (cache_list st))) \<le> card (set (chunk_table st))" by (intro card_mono) simp_all
  moreover have "card (set (chunk_table st)) \<le> 8" using card_length [of "chunk_table st"] len by simp
  moreover have "card (insert None (Some ` set (cache_list st))) = Suc (length (cache_list st))"
    using distinct_card [OF len(2)] by (simp add: card_image)
  ultimately show ?thesis by simp
qed

lemma find_chunk_ready:
  assumes r: "cache_ready st" and b: "8 * block < 2 ^ 32"
  shows "\<exists>c st'. find_chunk block st = Inr (Some c, st') \<and> cache_ready st'"
proof -
  have wf: "cache_wf st" and k: "8 \<le> pm_kalloc st + length (cache_list st)"
    and m: "cache_list st \<noteq> [] \<or> (\<exists>a. free_run (pageMap st) a 1)" using r by (simp_all add: cache_ready_def)
  let ?n = "pm_kalloc st + length (cache_list st)"
  have "\<exists>c st'. find_chunk block st = Inr (Some c, st') \<and> (st' = st \<or> cache_list st' \<noteq> [] \<and> pm_kalloc st' + length (cache_list st') = ?n)"
  proof (cases "find_in_table st (nat (un32 (int block * 8))) 0 (chunk_table st) None")
    case (Inl c)
    then show ?thesis by (simp add: find_chunk_def)
  next
    case (Inr fe)
    show ?thesis
    proof (cases fe)
      case (Some i)
      have "first_empty 0 (chunk_table st) = Some i" using find_in_table_Inr [OF Inr] Some by simp
      from first_empty_Some [OF this] have "None \<in> set (chunk_table st)" by (metis add_0 diff_zero nth_mem)
      from cache_list_short [OF wf this] k have "0 < pm_kalloc st" by simp
      from load_chunk_ready [OF wf this m, of "nat (un32 (int block * 8))" i] Inr Some show ?thesis by (auto simp: find_chunk_def)
    next
      case None
      have "None \<notin> set (chunk_table st)" using find_in_table_Inr [OF Inr] None by (intro first_empty_None [of 0]) simp
      moreover have "length (chunk_table st) = 8" using wf by (simp add: cache_wf_def)
      ultimately obtain c where "Some c \<in> set (chunk_table st)" by (cases "chunk_table st"; cases "hd (chunk_table st)") auto
      then have "cache_list st \<noteq> []" using in_table_iff [OF wf, of c] by auto
      from cache_evict_frees [OF wf this] obtain e st1 where e: "cache_evict 1 st = (e, st1)" "1 \<le> e"
        "pm_kalloc st1 + length (cache_list st1) = ?n" "\<exists>a. free_run (pageMap st1) a 1" "None \<in> set (chunk_table st1)"
        by (auto split: prod.splits)
      have wf1: "cache_wf st1" using cache_evict_evicted [OF wf, of 1] e(1) by (simp add: evicted_from_def)
      obtain i where i: "first_empty 0 (chunk_table st1) = Some i" using first_empty_None [of 0 "chunk_table st1"] e(5) by fastforce
      have "0 < pm_kalloc st1" using cache_list_short [OF wf1 e(5)] e(3) k by simp
      from load_chunk_ready [OF wf1 this disjI2 [OF e(4)]] obtain c st' where "load_chunk (nat (un32 (int block * 8))) i st1 = Inr (Some c, st')"
        "cache_list st' \<noteq> []" "pm_kalloc st' + length (cache_list st') = ?n" using e(3) by metis
      then show ?thesis using Inr None e i by (simp add: find_chunk_def)
    qed
  qed
  then obtain c st' where f: "find_chunk block st = Inr (Some c, st')" "st' = st \<or> cache_list st' \<noteq> [] \<and> pm_kalloc st' + length (cache_list st') = ?n"
    by blast
  with find_chunk_ok [OF wf b f(1)] r k show ?thesis by (auto simp: cache_ready_def)
qed

section \<open>Transfers\<close>

lemma mark_access_ready:
  assumes "cache_ready st" "c \<in> set (cache_list st)"
  shows "cache_ready (mark_access c st)"
proof -
  have wf: "cache_wf st" using assms(1) by (simp add: cache_ready_def)
  have "0 < length (cache_list st)" using assms(2) by (cases "cache_list st") auto
  then show ?thesis using assms mark_access_wf(1) [OF wf assms(2)]
    by (simp add: cache_ready_def mark_access_def Let_def upd_chunk_def length_remove1)
qed

lemma read_blocks_ready:
  assumes "cache_ready st" "\<forall>b \<in> set bs. 8 * b < 2 ^ 32"
  shows "\<exists>out st'. read_blocks sec count bs buff st = Inr (Some out, st') \<and> cache_ready st'"
  using assms
proof (induction bs arbitrary: buff st)
  case (Cons b bs)
  then obtain c st1 where f: "find_chunk b st = Inr (Some c, st1)" "cache_ready st1" using find_chunk_ready [of st b] by auto
  have "c \<in> set (cache_list st1)" using find_chunk_ok [of st b "Some c" st1] f(1) Cons.prems by (simp add: cache_ready_def)
  from Cons.IH [OF mark_access_ready [OF f(2) this]] Cons.prems(2) f(1) show ?case by (simp add: Let_def case_prod_beta)
qed simp

lemma chunk_write_ready:
  assumes "cache_ready st" "c \<in> set (cache_list st)" "initialSector (chunks st c) = 8 * b" "first + length data \<le> 8"
  shows "cache_ready (upd_chunk c (write_part first data) (upd_chunk c (\<lambda>x. (if dirty x then x else x\<lparr>firstWriteTime := clock (mark_access c st)\<rparr>)\<lparr>dirty := True\<rparr>)
     (mark_access c st)))"
proof -
  have "cache_wf st" using assms(1) by (simp add: cache_ready_def)
  from chunk_write(1) [OF this assms(2-4)] mark_access_ready [OF assms(1,2)] show ?thesis
    by (simp add: cache_ready_def upd_chunk_def)
qed

lemma write_blocks_ready:
  assumes "cache_ready st" "\<forall>b \<in> set bs. 8 * b < 2 ^ 32 \<and> fst (block_part sec count b) + snd (block_part sec count b) \<le> 8"
  shows "\<exists>st'. write_blocks sec count bs buff st = Inr (0, st') \<and> cache_ready st'"
  using assms
proof (induction bs arbitrary: buff st)
  case (Cons b bs)
  then obtain c st1 where f: "find_chunk b st = Inr (Some c, st1)" "cache_ready st1" using find_chunk_ready [of st b] by auto
  have c: "c \<in> set (cache_list st1)" "initialSector (chunks st1 c) = 8 * b"
    using find_chunk_ok [of st b "Some c" st1] f(1) Cons.prems by (simp_all add: cache_ready_def)
  obtain first n where bp: "block_part sec count b = (first, n)" by fastforce
  have "first + length (take n buff) \<le> 8" using Cons.prems(2) bp by auto
  from Cons.IH [OF chunk_write_ready [OF f(2) c this]] Cons.prems(2) f(1) bp show ?case by (simp add: Let_def)
qed simp

lemma cache_read_serves:
  assumes r: "cache_ready st" and s: "sec + count < 2 ^ 32"
  shows "\<exists>st'. cache_read sec count st = Inr (Some (map (view st) [sec..<sec + count]), st') \<and> cache_ready st' \<and> view st' = view st"
proof -
  have wf: "cache_wf st" using r by (simp add: cache_ready_def)
  let ?e = "(sec + count) div 8"
  have m: "max sec (8 * (sec div 8)) = sec" and le: "sec div 8 \<le> ?e" by (simp_all add: div_le_mono)
  have "\<forall>b \<in> set [sec div 8..<Suc ?e]. 8 * b < 2 ^ 32" using s by auto
  from read_blocks_ready [OF r this, of sec count "[]"] obtain out st' where
    o: "read_blocks sec count [sec div 8..<Suc ?e] [] st = Inr (Some out, st')" "cache_ready st'" by blast
  from read_blocks_correct [OF o(1) wf s order.refl le refl, unfolded m] o show ?thesis by (simp add: cache_read_def)
qed

lemma cache_write_serves:
  assumes r: "cache_ready st" and s: "sec + length buff < 2 ^ 32"
  shows "\<exists>st'. cache_write sec (length buff) buff st = Inr (0, st') \<and> cache_ready st' \<and> view st' = override (view st) sec buff"
proof -
  have wf: "cache_wf st" using r by (simp add: cache_ready_def)
  let ?e = "(sec + length buff) div 8"
  have m: "max sec (8 * (sec div 8)) = sec" and le: "sec div 8 \<le> ?e" by (simp_all add: div_le_mono)
  have "8 * b < 2 ^ 32 \<and> fst (block_part sec (length buff) b) + snd (block_part sec (length buff) b) \<le> 8" if "b \<in> set [sec div 8..<Suc ?e]" for b
    using that s block_part_bounds(2) [of sec b "length buff" "fst (block_part sec (length buff) b)" "snd (block_part sec (length buff) b)"] by auto
  then obtain st' where o: "write_blocks sec (length buff) [sec div 8..<Suc ?e] buff st = Inr (0, st')" "cache_ready st'"
    using write_blocks_ready [OF r] by blast
  from write_blocks_correct [OF o(1) wf s order.refl le refl, unfolded m] o show ?thesis by (simp add: cache_write_def)
qed

text \<open>C3. As long as the kernel can have eight chunks and one page is free or lent to the cache, every transfer succeeds,
  and leaves the cache in such a state: a read gives the current contents of the sectors, a write replaces them.\<close>

theorem cache_transfers_succeed:
  assumes "cache_ready st" "sec + length buff < 2 ^ 32"
  shows "\<exists>st1 st2. cache_read sec (length buff) st = Inr (Some (map (view st) [sec..<sec + length buff]), st1) \<and> cache_ready st1 \<and> view st1 = view st
    \<and> cache_write sec (length buff) buff st = Inr (0, st2) \<and> cache_ready st2 \<and> view st2 = override (view st) sec buff"
  using cache_read_serves [OF assms] cache_write_serves [OF assms] by blast

theorem cache_transfers_succeed_witness:
  "\<exists>st2. cache_write 6 20 (replicate 20 [1]) (cache_example\<lparr>pm_kalloc := 8\<rparr>) = Inr (0, st2) \<and> view st2 25 = [1] \<and> view st2 26 = []"
proof -
  have "cache_wf (cache_example\<lparr>pm_kalloc := 8\<rparr>)" using cache.ok_kalloc [OF cache_example_wf] .
  moreover have "free_run (pageMap (cache_example\<lparr>pm_kalloc := 8\<rparr>)) 1026 1" using example_map_free by (simp add: cache_example_def)
  ultimately have "cache_ready (cache_example\<lparr>pm_kalloc := 8\<rparr>)" by (auto simp: cache_ready_def cache_example_def)
  from cache_transfers_succeed [OF this, of 6 "replicate 20 [1]"] show ?thesis
    by (auto simp: override_def view_upd) (simp add: view_def cache_example_def)
qed

end
