(* ===== verification/Ext2.thy ===== *)
theory Ext2
  imports Cache_Progress Kernel_State
begin

text \<open>
  \<open>src/drivers/ext2/internal.c\<close>, \<open>superblock.c\<close>, \<open>blockGroup.c\<close> and \<open>allocator.c\<close>: blocks of the disk, the
  superblock, the table of block groups, and the allocation of blocks and inodes. \<open>struct ext2\<close> is a record; the
  state of the block cache below is its field \<open>dev\<close>. The superblock and the group table are the bytes that were
  read from the disk, and their fields are read and written at their offsets. The block bitmap is an array of words
  as in theory \<open>Bitmap\<close>; the words after the end of its buffer are the memory behind it. \<open>junk_inode\<close> is what the
  memory of a new inode holds. A buffer is only changed by
  a read that succeeds. A division by zero stops the kernel, like an assertion.
\<close>

section \<open>Little-endian values in buffers\<close>

definition get16 :: "u8 list \<Rightarrow> nat \<Rightarrow> nat" where
  "get16 b i = unat (b ! i) + 256 * unat (b ! (i + 1))"

definition get32 :: "u8 list \<Rightarrow> nat \<Rightarrow> nat" where
  "get32 b i = get16 b i + 65536 * get16 b (i + 2)"

definition le16 :: "nat \<Rightarrow> u8 list" where
  "le16 v = [of_nat v, of_nat (v div 256)]"

definition le32 :: "nat \<Rightarrow> u8 list" where
  "le32 v = le16 v @ le16 (v div 65536)"

text \<open>The bytes \<open>xs\<close> stored from index \<open>i\<close> on.\<close>

definition splice :: "nat \<Rightarrow> 'a list \<Rightarrow> 'a list \<Rightarrow> 'a list" where
  "splice i xs b = take i b @ xs @ drop (i + length xs) b"

section \<open>State\<close>

definition SECTOR_SIZE :: nat where "SECTOR_SIZE = 512"
definition SUPERBLOCK_SIZE :: nat where "SUPERBLOCK_SIZE = 1024"
definition SUPERBLOCK_SECTORS :: nat where "SUPERBLOCK_SECTORS = 2"
definition SUPERBLOCK_START :: nat where "SUPERBLOCK_START = 2"
definition BLOCK_BUFFER_COUNT :: nat where "BLOCK_BUFFER_COUNT = 10"
definition FIRST_USABLE_INODE :: nat where "FIRST_USABLE_INODE = 11"
definition GROUP_DESCRIPTOR_SIZE :: nat where "GROUP_DESCRIPTOR_SIZE = 32"

record ext2 =
  dev :: cache_state
  sb :: "u8 list"
  groupTable :: "u8 list"
  firstSector :: nat
  sectorsPerBlock :: nat
  blockSize :: nat
  blockGroupCount :: nat
  blockIndexAddress :: "nat list"
  blockIndexBuffer :: "nat list list"
  evictBlockBuffer :: nat
  blockBufferAddress :: "nat list"
  blockBufferOwner :: "nat list"
  blockBuffer :: "u8 list list"
  fragmentReadBlock :: nat
  fragmentReadBuffer :: "u8 list"
  bitmapBlock :: nat
  bitmapBuffer :: bitmap
  junk_inode :: ext2_Inode

text \<open>The fields of \<open>struct Superblock\<close> that are used.\<close>

definition totalInodes :: "ext2 \<Rightarrow> nat" where "totalInodes fs = get32 (sb fs) 0"
definition totalBlocks :: "ext2 \<Rightarrow> nat" where "totalBlocks fs = get32 (sb fs) 4"
definition sb_unallocatedBlocks :: "ext2 \<Rightarrow> nat" where "sb_unallocatedBlocks fs = get32 (sb fs) 12"
definition sb_unallocatedInodes :: "ext2 \<Rightarrow> nat" where "sb_unallocatedInodes fs = get32 (sb fs) 16"
definition sb_blockSize :: "ext2 \<Rightarrow> nat" where "sb_blockSize fs = get32 (sb fs) 24"
definition blocksPerBlockGroup :: "ext2 \<Rightarrow> nat" where "blocksPerBlockGroup fs = get32 (sb fs) 32"
definition inodesPerBlockGroup :: "ext2 \<Rightarrow> nat" where "inodesPerBlockGroup fs = get32 (sb fs) 40"

definition put_sb :: "nat \<Rightarrow> nat \<Rightarrow> ext2 \<Rightarrow> ext2" where
  "put_sb off v fs = fs\<lparr>sb := splice off (le32 v) (sb fs)\<rparr>"

text \<open>The fields of \<open>groupTable[g]\<close>: three words, then three half words.\<close>

definition group_word :: "nat \<Rightarrow> nat \<Rightarrow> ext2 \<Rightarrow> nat result" where
  "group_word g off fs =
     (if GROUP_DESCRIPTOR_SIZE * g + GROUP_DESCRIPTOR_SIZE \<le> length (groupTable fs)
      then Inr (get32 (groupTable fs) (GROUP_DESCRIPTOR_SIZE * g + off)) else Inl OutOfBounds)"

abbreviation blockBitmapAddress :: "nat \<Rightarrow> ext2 \<Rightarrow> nat result" where "blockBitmapAddress g \<equiv> group_word g 0"
abbreviation inodeBitmapAddress :: "nat \<Rightarrow> ext2 \<Rightarrow> nat result" where "inodeBitmapAddress g \<equiv> group_word g 4"
abbreviation inodeTableStart :: "nat \<Rightarrow> ext2 \<Rightarrow> nat result" where "inodeTableStart g \<equiv> group_word g 8"

definition add_group_half :: "nat \<Rightarrow> nat \<Rightarrow> int \<Rightarrow> ext2 \<Rightarrow> ext2 result" where
  "add_group_half g off d fs =
     (let i = GROUP_DESCRIPTOR_SIZE * g
      in if i + GROUP_DESCRIPTOR_SIZE \<le> length (groupTable fs)
         then Inr (fs\<lparr>groupTable := splice (i + off) (le16 (nat ((int (get16 (groupTable fs) (i + off)) + d) mod 2 ^ 16))) (groupTable fs)\<rparr>)
         else Inl OutOfBounds)"

abbreviation (input) group_unallocatedBlocks :: nat where "group_unallocatedBlocks \<equiv> 12"
abbreviation (input) group_unallocatedInodes :: nat where "group_unallocatedInodes \<equiv> 14"
abbreviation (input) group_directoryCount :: nat where "group_directoryCount \<equiv> 16"

section \<open>Blocks\<close>

definition read_sectors :: "nat \<Rightarrow> nat \<Rightarrow> ext2 \<Rightarrow> (u8 list option \<times> ext2) result" where
  "read_sectors sec sectors fs =
     rbind (cache_read (firstSector fs + sec) sectors (dev fs)) (\<lambda>(r, d). Inr (map_option concat r, fs\<lparr>dev := d\<rparr>))"

definition read_block :: "nat \<Rightarrow> ext2 \<Rightarrow> (u8 list option \<times> ext2) result" where
  "read_block block fs =
     (if block > totalBlocks fs then Inr (None, fs)
      else read_sectors ((block * sectorsPerBlock fs) mod 2 ^ 32) (sectorsPerBlock fs) fs)"

definition ext2_read_blocks :: "nat \<Rightarrow> nat \<Rightarrow> ext2 \<Rightarrow> (u8 list option \<times> ext2) result" where
  "ext2_read_blocks start blocks fs =
     (if (start + blocks) mod 2 ^ 32 > totalBlocks fs then Inr (None, fs)
      else read_sectors ((start * sectorsPerBlock fs) mod 2 ^ 32) ((sectorsPerBlock fs * blocks) mod 2 ^ 32) fs)"

definition load_fragment :: "nat \<Rightarrow> ext2 \<Rightarrow> (int \<times> ext2) result" where
  "load_fragment block fs =
     (if fragmentReadBlock fs \<noteq> block
      then rbind (read_block block (fs\<lparr>fragmentReadBlock := block\<rparr>)) (\<lambda>(r, fs1).
             case r of
               None \<Rightarrow> Inr (- 1, fs1\<lparr>fragmentReadBlock := 0\<rparr>)
             | Some b \<Rightarrow> Inr (0, fs1\<lparr>fragmentReadBuffer := b\<rparr>))
      else Inr (0, fs))"

definition read_block_fragment :: "nat \<Rightarrow> nat \<Rightarrow> nat \<Rightarrow> ext2 \<Rightarrow> (u8 list option \<times> ext2) result" where
  "read_block_fragment block offset len fs =
     rbind (load_fragment block fs) (\<lambda>(r, fs1).
       Inr (if r = - 1 then None else Some (take len (drop offset (fragmentReadBuffer fs1))), fs1))"

definition sectors_of :: "nat \<Rightarrow> u8 list \<Rightarrow> sector list" where
  "sectors_of n b = map (\<lambda>i. take SECTOR_SIZE (drop (SECTOR_SIZE * i) b)) [0..<n]"

definition write_sectors :: "nat \<Rightarrow> nat \<Rightarrow> u8 list \<Rightarrow> ext2 \<Rightarrow> (int \<times> ext2) result" where
  "write_sectors sec sectors buffer fs =
     rbind (cache_write (firstSector fs + sec) sectors (sectors_of sectors buffer) (dev fs)) (\<lambda>(r, d). Inr (r, fs\<lparr>dev := d\<rparr>))"

definition write_block :: "nat \<Rightarrow> u8 list \<Rightarrow> ext2 \<Rightarrow> (int \<times> ext2) result" where
  "write_block block buffer fs =
     (if block > totalBlocks fs then Inr (- 1, fs)
      else write_sectors ((block * sectorsPerBlock fs) mod 2 ^ 32) (sectorsPerBlock fs) buffer fs)"

definition ext2_write_blocks :: "nat \<Rightarrow> nat \<Rightarrow> u8 list \<Rightarrow> ext2 \<Rightarrow> (int \<times> ext2) result" where
  "ext2_write_blocks start blocks buffer fs =
     (if (start + blocks) mod 2 ^ 32 > totalBlocks fs then Inr (- 1, fs)
      else write_sectors ((start * sectorsPerBlock fs) mod 2 ^ 32) ((blocks * sectorsPerBlock fs) mod 2 ^ 32) buffer fs)"

definition write_block_fragment :: "nat \<Rightarrow> nat \<Rightarrow> u8 list \<Rightarrow> ext2 \<Rightarrow> (int \<times> ext2) result" where
  "write_block_fragment block offset buffer fs =
     rbind (load_fragment block fs) (\<lambda>(r, fs1).
       if r = - 1 then Inr (- 1, fs1)
       else (let fs2 = fs1\<lparr>fragmentReadBuffer := splice offset buffer (fragmentReadBuffer fs1)\<rparr>
             in write_block block (fragmentReadBuffer fs2) fs2))"

section \<open>Superblock and block groups\<close>

definition ext2_superblock_write :: "ext2 \<Rightarrow> (int \<times> ext2) result" where
  "ext2_superblock_write fs = write_sectors SUPERBLOCK_START SUPERBLOCK_SECTORS (sb fs) fs"

definition ext2_superblock_end :: "ext2 \<Rightarrow> (int \<times> ext2) result" where
  "ext2_superblock_end fs = rbind (ext2_superblock_write fs) (\<lambda>(r, fs1). Inr (0, fs1))"

text \<open>\<open>kalloc\<close>: what is left of the objects the kernel can allocate, or \<open>NULL\<close>, here \<open>None\<close>.\<close>

definition kalloc_object :: "ext2 \<Rightarrow> ext2 option" where
  "kalloc_object fs = (if pm_kalloc (dev fs) = 0 then None else Some (fs\<lparr>dev := (dev fs)\<lparr>pm_kalloc := pm_kalloc (dev fs) - 1\<rparr>\<rparr>))"

definition ext2_superblock_init :: "ext2 \<Rightarrow> (int \<times> ext2) result" where
  "ext2_superblock_init fs =
     (case kalloc_object fs of
        None \<Rightarrow> Inr (- 1, fs)
      | Some fs1 \<Rightarrow>
          rbind (read_sectors SUPERBLOCK_START SUPERBLOCK_SECTORS fs1) (\<lambda>(r, fs2).
            case r of None \<Rightarrow> Inr (- 1, fs2) | Some b \<Rightarrow> Inr (0, fs2\<lparr>sb := b\<rparr>)))"

definition ext2_get_total_block_groups :: "ext2 \<Rightarrow> nat result" where
  "ext2_get_total_block_groups fs =
     (if blocksPerBlockGroup fs = 0 then Inl AssertFail else Inr (totalBlocks fs div blocksPerBlockGroup fs + 1))"

definition SUPERBLOCK_END :: nat where "SUPERBLOCK_END = SUPERBLOCK_START + SUPERBLOCK_SECTORS"

definition table_block :: "ext2 \<Rightarrow> nat" where
  "table_block fs = (if SUPERBLOCK_END \<le> sectorsPerBlock fs then 1 else 2)"

definition table_blocks :: "ext2 \<Rightarrow> nat" where
  "table_blocks fs = blockGroupCount fs * GROUP_DESCRIPTOR_SIZE div blockSize fs + 1"

definition ext2_read_blockgroup_table :: "ext2 \<Rightarrow> (int \<times> ext2) result" where
  "ext2_read_blockgroup_table fs =
     (case kalloc_object fs of
        None \<Rightarrow> Inl NullDeref
      | Some fs1 \<Rightarrow>
          rbind (ext2_read_blocks (table_block fs1) (table_blocks fs1) fs1) (\<lambda>(r, fs2).
            case r of None \<Rightarrow> Inr (- 1, fs2) | Some b \<Rightarrow> Inr (0, fs2\<lparr>groupTable := b\<rparr>)))"

definition ext2_write_blockgroup_table :: "ext2 \<Rightarrow> (int \<times> ext2) result" where
  "ext2_write_blockgroup_table fs = ext2_write_blocks (table_block fs) (table_blocks fs) (groupTable fs) fs"

section \<open>Allocation\<close>

definition load_bitmap :: "nat \<Rightarrow> u8 list \<Rightarrow> bitmap \<Rightarrow> bitmap" where
  "load_bitmap n b m = (\<lambda>i. if i < n div 4 then of_nat (get32 b (4 * i)) else m i)"

definition bitmap_bytes :: "nat \<Rightarrow> bitmap \<Rightarrow> u8 list" where
  "bitmap_bytes n m = concat (map (\<lambda>i. le32 (unat (m i))) [0..<n div 4])"

text \<open>The common part of \<open>read_block_bitmap\<close> and \<open>read_inode_bitmap\<close>, and of the functions that write them.\<close>

definition read_bitmap :: "nat \<Rightarrow> ext2 \<Rightarrow> (int \<times> ext2) result" where
  "read_bitmap block fs =
     (if bitmapBlock fs = block then Inr (0, fs)
      else rbind (read_block block (fs\<lparr>bitmapBlock := block\<rparr>)) (\<lambda>(r, fs1).
             case r of
               None \<Rightarrow> Inr (- 1, fs1)
             | Some b \<Rightarrow> Inr (0, fs1\<lparr>bitmapBuffer := load_bitmap (blockSize fs1) b (bitmapBuffer fs1)\<rparr>)))"

definition write_bitmap :: "nat \<Rightarrow> ext2 \<Rightarrow> (int \<times> ext2) result" where
  "write_bitmap block fs =
     (if bitmapBlock fs \<noteq> block then Inr (- 1, fs)
      else write_block (bitmapBlock fs) (bitmap_bytes (blockSize fs) (bitmapBuffer fs)) fs)"

definition read_block_bitmap :: "nat \<Rightarrow> ext2 \<Rightarrow> (int \<times> ext2) result" where
  "read_block_bitmap g fs = rbind (blockBitmapAddress g fs) (\<lambda>b. read_bitmap b fs)"

definition write_block_bitmap :: "nat \<Rightarrow> ext2 \<Rightarrow> (int \<times> ext2) result" where
  "write_block_bitmap g fs = rbind (blockBitmapAddress g fs) (\<lambda>b. write_bitmap b fs)"

definition read_inode_bitmap :: "nat \<Rightarrow> ext2 \<Rightarrow> (int \<times> ext2) result" where
  "read_inode_bitmap g fs = rbind (inodeBitmapAddress g fs) (\<lambda>b. read_bitmap b fs)"

definition write_inode_bitmap :: "nat \<Rightarrow> ext2 \<Rightarrow> (int \<times> ext2) result" where
  "write_inode_bitmap g fs = rbind (inodeBitmapAddress g fs) (\<lambda>b. write_bitmap b fs)"

text \<open>The counters in the superblock and in the descriptor of the group, and their way to the disk.\<close>

definition count_blocks :: "nat \<Rightarrow> int \<Rightarrow> ext2 \<Rightarrow> ext2 result" where
  "count_blocks g d fs =
     (let fs1 = put_sb 12 (nat ((int (sb_unallocatedBlocks fs) + d) mod 2 ^ 32)) fs
      in rbind (ext2_superblock_write fs1) (\<lambda>(_, fs2).
         rbind (add_group_half g group_unallocatedBlocks d fs2) (\<lambda>fs3.
         rbind (ext2_write_blockgroup_table fs3) (\<lambda>(_, fs4). Inr fs4))))"

definition count_inodes :: "nat \<Rightarrow> int \<Rightarrow> ext2 \<Rightarrow> ext2 result" where
  "count_inodes g d fs =
     (let fs1 = put_sb 16 (nat ((int (sb_unallocatedInodes fs) + d) mod 2 ^ 32)) fs
      in rbind (ext2_superblock_write fs1) (\<lambda>(_, fs2).
         rbind (add_group_half g group_unallocatedInodes d fs2) (\<lambda>fs3.
         rbind (ext2_write_blockgroup_table fs3) (\<lambda>(_, fs4). Inr fs4))))"

definition reserve_block :: "nat \<Rightarrow> nat \<Rightarrow> ext2 \<Rightarrow> ext2 result" where
  "reserve_block g block fs =
     rbind (write_block_bitmap g (fs\<lparr>bitmapBuffer := bitmap_set (bitmapBuffer fs) block\<rparr>)) (\<lambda>(_, fs1).
       count_blocks g (- 1) fs1)"

definition block_offset :: "ext2 \<Rightarrow> nat" where
  "block_offset fs = (if sb_blockSize fs = 0 then 1 else 0)"

definition allocate_in_group :: "nat \<Rightarrow> ext2 \<Rightarrow> (nat \<times> ext2) result" where
  "allocate_in_group g fs =
     rbind (read_block_bitmap g fs) (\<lambda>(r, fs1).
       if r = - 1 then Inr (0, fs1)
       else (let block = bitmap_first_clear (bitmapBuffer fs1) (blocksPerBlockGroup fs1)
             in if block = - 1 then Inr (0, fs1)
                else rbind (reserve_block g (nat block) fs1) (\<lambda>fs2.
                       Inr ((block_offset fs1 + g * blocksPerBlockGroup fs1 + nat block) mod 2 ^ 32, fs2))))"

fun allocate_in_groups :: "nat list \<Rightarrow> ext2 \<Rightarrow> (nat \<times> ext2) result" where
  "allocate_in_groups [] fs = Inr (0, fs)"
| "allocate_in_groups (g # gs) fs =
     rbind (allocate_in_group g fs) (\<lambda>(block, fs1). if block \<noteq> 0 then Inr (block, fs1) else allocate_in_groups gs fs1)"

definition allocate_block :: "nat \<Rightarrow> ext2 \<Rightarrow> (nat \<times> ext2) result" where
  "allocate_block groupHint fs = allocate_in_groups (groupHint # [0..<blockGroupCount fs]) fs"

definition deallocate_block :: "nat \<Rightarrow> ext2 \<Rightarrow> (int \<times> ext2) result" where
  "deallocate_block block fs =
     (if blocksPerBlockGroup fs = 0 then Inl AssertFail
      else (let b = nat ((int block - int (block_offset fs)) mod 2 ^ 32);
                g = b div blocksPerBlockGroup fs; index = b mod blocksPerBlockGroup fs
            in rbind (read_block_bitmap g fs) (\<lambda>(r, fs1).
                 if r = - 1 then Inr (- 1, fs1)
                 else rbind (write_block_bitmap g (fs1\<lparr>bitmapBuffer := bitmap_clear (bitmapBuffer fs1) index\<rparr>)) (\<lambda>(_, fs2).
                      rbind (count_blocks g 1 fs2) (\<lambda>fs3. Inr (0, fs3))))))"

fun allocate_inode_loop :: "nat list \<Rightarrow> ext2 \<Rightarrow> (nat \<times> ext2) result" where
  "allocate_inode_loop [] fs = Inr (0, fs)"
| "allocate_inode_loop (i # is) fs =
     rbind (read_inode_bitmap i fs) (\<lambda>(r, fs1).
       if r = - 1 then Inr (0, fs1)
       else (let entry = bitmap_first_clear (bitmapBuffer fs1) (inodesPerBlockGroup fs1);
                 inode = nat ((entry + int (i * inodesPerBlockGroup fs1) + 1) mod 2 ^ 32)
             in if entry \<noteq> - 1 \<and> inode \<ge> FIRST_USABLE_INODE
                then rbind (write_inode_bitmap i (fs1\<lparr>bitmapBuffer := bitmap_set (bitmapBuffer fs1) (nat entry)\<rparr>)) (\<lambda>(w, fs2).
                       if w = - 1 then Inr (0, fs2\<lparr>bitmapBlock := 0\<rparr>)
                       else rbind (count_inodes i (- 1) fs2) (\<lambda>fs3. Inr (inode, fs3)))
                else allocate_inode_loop is fs1))"

definition allocate_inode :: "ext2 \<Rightarrow> (nat \<times> ext2) result" where
  "allocate_inode fs = allocate_inode_loop [0..<blockGroupCount fs] fs"

definition deallocate_inode :: "nat \<Rightarrow> ext2 \<Rightarrow> (int \<times> ext2) result" where
  "deallocate_inode inode fs =
     (if inodesPerBlockGroup fs = 0 then Inl AssertFail
      else (let g = inode div inodesPerBlockGroup fs;
                index = nat ((int inode - 1) mod 2 ^ 32) mod inodesPerBlockGroup fs
            in rbind (read_inode_bitmap g fs) (\<lambda>(r, fs1).
                 if r = - 1 then Inr (- 1, fs1)
                 else rbind (write_inode_bitmap g (fs1\<lparr>bitmapBuffer := bitmap_clear (bitmapBuffer fs1) index\<rparr>)) (\<lambda>(w, fs2).
                        if w = - 1 then Inr (- 1, fs2)
                        else rbind (count_inodes g 1 fs2) (\<lambda>fs3. Inr (0, fs3))))))"

end
