(* ===== verification/Ext2_Blocks.thy ===== *)
theory Ext2_Blocks
  imports Ext2
begin

text \<open>
  The blocks of a file system as the driver sees them through the cache, the well-formed states of the driver, and
  the allocator: a block or inode that is handed out was free, exactly its bit changes, and giving it back restores
  the bitmap.
\<close>

section \<open>Bytes\<close>

lemma byte_bound: "unat (x::u8) < 256"
  using unsigned_less [of x] by simp

lemma le_length [simp]: "length (le16 v) = 2" "length (le32 v) = 4"
  by (simp_all add: le16_def le32_def)

lemma splice_length: "i + length xs \<le> length b \<Longrightarrow> length (splice i xs b) = length b"
  by (simp add: splice_def)

lemma splice_nth:
  assumes "i + length xs \<le> length b" "j < length b"
  shows "splice i xs b ! j = (if i \<le> j \<and> j < i + length xs then xs ! (j - i) else b ! j)"
  using assms by (auto simp: splice_def nth_append min_def)

lemma get16_le16: "v < 2 ^ 16 \<Longrightarrow> get16 (le16 v) 0 = v"
  by (simp add: get16_def le16_def unat_of_nat)

lemma get16_bound: "get16 b i < 2 ^ 16"
  using byte_bound [of "b ! i"] byte_bound [of "b ! (i + 1)"] unfolding get16_def by simp

lemma get32_bound: "get32 b i < 2 ^ 32"
  using get16_bound [of b i] get16_bound [of b "i + 2"] unfolding get32_def by simp

lemma get16_append: "get16 (xs @ le16 v @ ys) (length xs) = v mod 2 ^ 16"
proof -
  have "v mod 65536 = v mod 256 + 256 * (v div 256 mod 256)" using mod_mult2_eq [of v 256 256] by simp
  then show ?thesis by (simp add: get16_def le16_def nth_append unat_of_nat)
qed

lemma get32_append: "get32 (xs @ le32 v @ ys) (length xs) = v mod 2 ^ 32"
proof -
  have 1: "get16 (xs @ le16 v @ le16 (v div 65536) @ ys) (length xs) = v mod 2 ^ 16" by (rule get16_append)
  have 2: "get16 ((xs @ le16 v) @ le16 (v div 65536) @ ys) (length (xs @ le16 v)) = v div 65536 mod 2 ^ 16" by (rule get16_append)
  have "v mod 2 ^ 32 = v mod 65536 + 65536 * (v div 65536 mod 65536)" using mod_mult2_eq [of v 65536 65536] by simp
  with 1 2 show ?thesis by (simp add: get32_def le32_def)
qed

lemma get_cong:
  "(\<And>k. k < 2 \<Longrightarrow> b ! (i + k) = b' ! (i' + k)) \<Longrightarrow> get16 b i = get16 b' i'"
  "(\<And>k. k < 4 \<Longrightarrow> b ! (i + k) = b' ! (i' + k)) \<Longrightarrow> get32 b i = get32 b' i'"
proof -
  show 16: "get16 b i = get16 b' i'" if h: "\<And>k. k < 2 \<Longrightarrow> b ! (i + k) = b' ! (i' + k)" for b b' i i'
    using h [of 0] h [of 1] by (simp add: get16_def)
  show "get32 b i = get32 b' i'" if h: "\<And>k. k < 4 \<Longrightarrow> b ! (i + k) = b' ! (i' + k)"
  proof -
    have "get16 b i = get16 b' i'" using h by (intro 16) simp
    moreover have "get16 b (i + 2) = get16 b' (i' + 2)" using h [of 2] h [of 3] by (intro 16) (auto simp: less_Suc_eq numeral_2_eq_2 numeral_3_eq_3)
    ultimately show ?thesis by (simp add: get32_def)
  qed
qed

lemma get32_splice:
  assumes "off + 4 \<le> length b"
  shows "get32 (splice off (le32 v) b) off = v mod 2 ^ 32"
    "i + 4 \<le> length b \<Longrightarrow> i + 4 \<le> off \<or> off + 4 \<le> i \<Longrightarrow> get32 (splice off (le32 v) b) i = get32 b i"
proof -
  show "get32 (splice off (le32 v) b) off = v mod 2 ^ 32"
    using get32_append [of "take off b" v "drop (off + 4) b"] assms by (simp add: splice_def min_def)
  show "get32 (splice off (le32 v) b) i = get32 b i" if "i + 4 \<le> length b" "i + 4 \<le> off \<or> off + 4 \<le> i"
    using assms that by (intro get_cong) (auto simp: splice_nth)
qed

section \<open>Sectors and blocks\<close>

definition block_sectors :: "ext2 \<Rightarrow> nat \<Rightarrow> nat list" where
  "block_sectors fs b = [firstSector fs + b * sectorsPerBlock fs..<firstSector fs + Suc b * sectorsPerBlock fs]"

definition blk :: "ext2 \<Rightarrow> nat \<Rightarrow> u8 list" where
  "blk fs b = concat (map (view (dev fs)) (block_sectors fs b))"

text \<open>The cache serves, the sectors have their size, and the blocks lie below sector \<open>2 ^ 32\<close>.\<close>

definition dev_ok :: "ext2 \<Rightarrow> bool" where
  "dev_ok fs \<longleftrightarrow> cache_ready (dev fs) \<and> (\<forall>s. length (view (dev fs) s) = SECTOR_SIZE) \<and> 0 < sectorsPerBlock fs
     \<and> blockSize fs = SECTOR_SIZE * sectorsPerBlock fs \<and> firstSector fs + (totalBlocks fs + 1) * sectorsPerBlock fs + 8 < 2 ^ 32"

lemma concat_const: "\<forall>x \<in> set xs. length x = n \<Longrightarrow> length (concat xs) = n * length xs"
  by (induction xs) auto

lemma blk_length: "dev_ok fs \<Longrightarrow> length (blk fs b) = blockSize fs"
  unfolding blk_def by (subst concat_const [of _ SECTOR_SIZE]) (auto simp: dev_ok_def block_sectors_def)

lemma block_below: "dev_ok fs \<Longrightarrow> b \<le> totalBlocks fs \<Longrightarrow> firstSector fs + Suc b * sectorsPerBlock fs < 2 ^ 32"
proof -
  assume "dev_ok fs" "b \<le> totalBlocks fs"
  then have "firstSector fs + (totalBlocks fs + 1) * sectorsPerBlock fs + 8 < 2 ^ 32" "Suc b * sectorsPerBlock fs \<le> (totalBlocks fs + 1) * sectorsPerBlock fs"
    unfolding dev_ok_def by (blast, intro mult_le_mono1) simp
  then show ?thesis by linarith
qed

lemma block_sectors_eq:
  "block_sectors fs b = [firstSector fs + b * sectorsPerBlock fs..<firstSector fs + b * sectorsPerBlock fs + sectorsPerBlock fs]"
  by (simp add: block_sectors_def ac_simps)

lemma read_sectors_ok:
  assumes "cache_ready (dev fs)" "firstSector fs + sec + n < 2 ^ 32"
  shows "\<exists>d. read_sectors sec n fs = Inr (Some (concat (map (view (dev fs)) [firstSector fs + sec..<firstSector fs + sec + n])), fs\<lparr>dev := d\<rparr>)
    \<and> cache_ready d \<and> view d = view (dev fs)"
  using cache_read_serves [OF assms] by (auto simp: read_sectors_def)

lemma sectors_of_props:
  assumes "length b = SECTOR_SIZE * n"
  shows "length (sectors_of n b) = n" "concat (sectors_of n b) = b" "x \<in> set (sectors_of n b) \<Longrightarrow> length x = SECTOR_SIZE"
proof -
  show "length (sectors_of n b) = n" by (simp add: sectors_of_def)
  show "length x = SECTOR_SIZE" if x: "x \<in> set (sectors_of n b)"
  proof -
    obtain i where i: "i < n" "x = take SECTOR_SIZE (drop (SECTOR_SIZE * i) b)" using x by (auto simp: sectors_of_def)
    then have "SECTOR_SIZE * Suc i \<le> SECTOR_SIZE * n" by (intro mult_le_mono2) simp
    then show ?thesis using i assms by simp
  qed
  show "concat (sectors_of n b) = b" using assms
  proof (induction n arbitrary: b)
    case (Suc n)
    have "sectors_of (Suc n) b = take SECTOR_SIZE b # sectors_of n (drop SECTOR_SIZE b)"
    proof -
      have "[0..<Suc n] = 0 # map Suc [0..<n]" by (simp only: map_Suc_upt upt_conv_Cons [OF zero_less_Suc])
      then show ?thesis unfolding sectors_of_def by (simp add: add.commute del: upt_Suc)
    qed
    then show ?case using Suc.IH [of "drop SECTOR_SIZE b"] Suc.prems by simp
  qed (simp add: sectors_of_def)
qed

lemma write_sectors_ok:
  assumes "cache_ready (dev fs)" "firstSector fs + sec + n < 2 ^ 32"
  shows "\<exists>d. write_sectors sec n b fs = Inr (0, fs\<lparr>dev := d\<rparr>) \<and> cache_ready d
    \<and> view d = override (view (dev fs)) (firstSector fs + sec) (sectors_of n b)"
proof -
  have "length (sectors_of n b) = n" by (simp add: sectors_of_def)
  then show ?thesis using cache_write_serves [OF assms(1), of "firstSector fs + sec" "sectors_of n b"] assms(2)
    by (auto simp: write_sectors_def)
qed

lemma read_block_ok:
  assumes d: "dev_ok fs" and b: "b \<le> totalBlocks fs"
  shows "\<exists>d'. read_block b fs = Inr (Some (blk fs b), fs\<lparr>dev := d'\<rparr>) \<and> cache_ready d' \<and> view d' = view (dev fs)"
proof -
  have lt: "firstSector fs + Suc b * sectorsPerBlock fs < 2 ^ 32" by (rule block_below [OF d b])
  then have m: "b * sectorsPerBlock fs mod 2 ^ 32 = b * sectorsPerBlock fs" by simp
  have c: "cache_ready (dev fs)" using d by (simp add: dev_ok_def)
  have "firstSector fs + b * sectorsPerBlock fs + sectorsPerBlock fs < 2 ^ 32" using lt by simp
  moreover have "read_block b fs = read_sectors (b * sectorsPerBlock fs) (sectorsPerBlock fs) fs" unfolding read_block_def m using b by simp
  ultimately show ?thesis using read_sectors_ok [OF c] unfolding blk_def block_sectors_eq by simp
qed

text \<open>The effect of a write of whole sectors on the blocks.\<close>

lemma override_length:
  assumes "\<forall>s. length (v s) = n" "\<forall>x \<in> set xs. length x = n"
  shows "length (override v p xs s) = n"
  using assms by (auto simp: override_def)

lemma map_override_same:
  assumes "length xs = n"
  shows "map (override v p xs) [p..<p + n] = xs"
  using assms by (intro nth_equalityI) (auto simp: override_def)

lemma map_override_other:
  "\<forall>s \<in> set ss. s < p \<or> p + length xs \<le> s \<Longrightarrow> map (override v p xs) ss = map v ss"
  by (induction ss) (auto simp: override_def)

lemma write_block_ok:
  assumes d: "dev_ok fs" and b: "b \<le> totalBlocks fs" and l: "length buf = blockSize fs"
  shows "\<exists>d'. write_block b buf fs = Inr (0, fs\<lparr>dev := d'\<rparr>) \<and> dev_ok (fs\<lparr>dev := d'\<rparr>) \<and> blk (fs\<lparr>dev := d'\<rparr>) = (blk fs)(b := buf)"
proof -
  let ?n = "sectorsPerBlock fs" and ?f = "firstSector fs"
  have lt: "?f + Suc b * ?n < 2 ^ 32" by (rule block_below [OF d b])
  then have m: "b * ?n mod 2 ^ 32 = b * ?n" by simp
  have c: "cache_ready (dev fs)" and sz: "\<forall>s. length (view (dev fs) s) = SECTOR_SIZE" and bs: "blockSize fs = SECTOR_SIZE * ?n"
    using d by (simp_all add: dev_ok_def)
  have "?f + b * ?n + ?n < 2 ^ 32" using lt by simp
  from write_sectors_ok [OF c this, of buf] obtain d' where d': "write_sectors (b * ?n) ?n buf fs = Inr (0, fs\<lparr>dev := d'\<rparr>)" "cache_ready d'"
    "view d' = override (view (dev fs)) (?f + b * ?n) (sectors_of ?n buf)" by blast
  have lb: "length buf = SECTOR_SIZE * ?n" using l bs by simp
  note so = sectors_of_props [OF lb]
  have ok: "dev_ok (fs\<lparr>dev := d'\<rparr>)"
    using d d'(2,3) override_length [OF sz, of "sectors_of ?n buf"] so(3) by (simp add: dev_ok_def totalBlocks_def)
  have "blk (fs\<lparr>dev := d'\<rparr>) x = ((blk fs)(b := buf)) x" for x
  proof (cases "x = b")
    case True
    have "map (view d') (block_sectors fs b) = sectors_of ?n buf"
      using map_override_same [OF so(1), of "view (dev fs)" "?f + b * ?n"] d'(3) by (simp add: block_sectors_eq)
    then show ?thesis using True so(2) by (simp add: blk_def block_sectors_def)
  next
    case False
    have "Suc x * ?n \<le> b * ?n \<or> Suc b * ?n \<le> x * ?n" using False by (metis linorder_neqE_nat mult_le_mono1 Suc_leI)
    then have "\<forall>s \<in> set (block_sectors fs x). s < ?f + b * ?n \<or> ?f + b * ?n + length (sectors_of ?n buf) \<le> s"
      unfolding so(1) block_sectors_def by auto
    from map_override_other [OF this, of "view (dev fs)"] have "map (view d') (block_sectors fs x) = map (view (dev fs)) (block_sectors fs x)"
      unfolding d'(3) .
    moreover have "block_sectors (fs\<lparr>dev := d'\<rparr>) x = block_sectors fs x" "dev (fs\<lparr>dev := d'\<rparr>) = d'" by (simp_all add: block_sectors_def)
    ultimately have "blk (fs\<lparr>dev := d'\<rparr>) x = blk fs x" unfolding blk_def by (simp only:)
    then show ?thesis using False by simp
  qed
  then have "blk (fs\<lparr>dev := d'\<rparr>) = (blk fs)(b := buf)" by blast
  moreover have "write_block b buf fs = write_sectors (b * ?n) ?n buf fs" unfolding write_block_def m using b by simp
  ultimately show ?thesis using d'(1) ok by (intro exI [of _ d']) simp
qed


section \<open>The metadata\<close>

definition table_end :: "ext2 \<Rightarrow> nat" where
  "table_end fs = table_block fs + table_blocks fs"

definition group_addr :: "ext2 \<Rightarrow> nat \<Rightarrow> nat \<Rightarrow> nat" where
  "group_addr fs g off = get32 (groupTable fs) (32 * g + off)"

text \<open>The bits of the bitmap in block \<open>a\<close> of the disk.\<close>

definition disk_bitmap :: "ext2 \<Rightarrow> nat \<Rightarrow> bitmap" where
  "disk_bitmap fs a = load_bitmap (blockSize fs) (blk fs a) (\<lambda>_. 0)"

text \<open>
  A well-formed file system: the superblock and the group table have their sizes and fit, the bitmaps of the groups
  are different blocks after the table, and the bitmap in memory is the one on the disk.
\<close>

definition in_data_area :: "ext2 \<Rightarrow> nat \<Rightarrow> bool" where
  "in_data_area fs b \<longleftrightarrow> table_end fs \<le> b \<and> b \<le> totalBlocks fs"

definition is_bitmap :: "ext2 \<Rightarrow> nat \<Rightarrow> bool" where
  "is_bitmap fs a \<longleftrightarrow> (\<exists>g < blockGroupCount fs. a = group_addr fs g 0 \<or> a = group_addr fs g 4)"

definition bitmap_coherent :: "ext2 \<Rightarrow> bool" where
  "bitmap_coherent fs \<longleftrightarrow> bitmapBlock fs = 0 \<or> in_data_area fs (bitmapBlock fs) \<and> is_bitmap fs (bitmapBlock fs)
     \<and> (\<forall>i < blockSize fs div 4. bitmapBuffer fs i = disk_bitmap fs (bitmapBlock fs) i)"

definition groups_ok :: "ext2 \<Rightarrow> bool" where
  "groups_ok fs \<longleftrightarrow> (\<forall>g < blockGroupCount fs. in_data_area fs (group_addr fs g 0) \<and> in_data_area fs (group_addr fs g 4))
     \<and> inj_on (\<lambda>(g, off). group_addr fs g off) ({..<blockGroupCount fs} \<times> {0, 4})"

definition sizes_ok :: "ext2 \<Rightarrow> bool" where
  "sizes_ok fs \<longleftrightarrow> length (sb fs) = SUPERBLOCK_SIZE \<and> length (groupTable fs) = blockSize fs * table_blocks fs \<and> 2 \<le> sectorsPerBlock fs
     \<and> table_end fs \<le> totalBlocks fs \<and> 0 < blocksPerBlockGroup fs \<and> blocksPerBlockGroup fs \<le> 8 * blockSize fs
     \<and> 0 < inodesPerBlockGroup fs \<and> inodesPerBlockGroup fs \<le> 8 * blockSize fs
     \<and> blockGroupCount fs * blocksPerBlockGroup fs < 2 ^ 31 \<and> blockGroupCount fs * inodesPerBlockGroup fs < 2 ^ 31"

definition fs_ok :: "ext2 \<Rightarrow> bool" where
  "fs_ok fs \<longleftrightarrow> dev_ok fs \<and> sizes_ok fs \<and> groups_ok fs \<and> bitmap_coherent fs"

text \<open>What the allocator may change: the disk, the counters and the bitmap in memory.\<close>

definition same_geometry :: "ext2 \<Rightarrow> ext2 \<Rightarrow> bool" where
  "same_geometry fs fs' \<longleftrightarrow> totalBlocks fs' = totalBlocks fs \<and> totalInodes fs' = totalInodes fs \<and> sb_blockSize fs' = sb_blockSize fs
     \<and> blocksPerBlockGroup fs' = blocksPerBlockGroup fs \<and> inodesPerBlockGroup fs' = inodesPerBlockGroup fs
     \<and> length (sb fs') = length (sb fs) \<and> length (groupTable fs') = length (groupTable fs)
     \<and> (\<forall>g < blockGroupCount fs. \<forall>off \<in> {0, 4, 8}. group_addr fs' g off = group_addr fs g off)
     \<and> firstSector fs' = firstSector fs \<and> sectorsPerBlock fs' = sectorsPerBlock fs \<and> blockSize fs' = blockSize fs
     \<and> blockGroupCount fs' = blockGroupCount fs"

definition same_buffers :: "ext2 \<Rightarrow> ext2 \<Rightarrow> bool" where
  "same_buffers fs fs' \<longleftrightarrow> blockIndexAddress fs' = blockIndexAddress fs \<and> blockIndexBuffer fs' = blockIndexBuffer fs
     \<and> evictBlockBuffer fs' = evictBlockBuffer fs \<and> blockBufferAddress fs' = blockBufferAddress fs \<and> blockBufferOwner fs' = blockBufferOwner fs
     \<and> blockBuffer fs' = blockBuffer fs \<and> fragmentReadBlock fs' = fragmentReadBlock fs \<and> fragmentReadBuffer fs' = fragmentReadBuffer fs
     \<and> junk_inode fs' = junk_inode fs"

lemma same_geometry_refl [simp]: "same_geometry fs fs" by (simp add: same_geometry_def)
lemma same_buffers_refl [simp]: "same_buffers fs fs" by (simp add: same_buffers_def)

lemma same_geometry_trans: "same_geometry fs fs1 \<Longrightarrow> same_geometry fs1 fs2 \<Longrightarrow> same_geometry fs fs2"
  unfolding same_geometry_def by simp

lemma same_buffers_trans: "same_buffers fs fs1 \<Longrightarrow> same_buffers fs1 fs2 \<Longrightarrow> same_buffers fs fs2"
  unfolding same_buffers_def by simp

lemma geometry_accessors:
  assumes "same_geometry fs fs'"
  shows "table_block fs' = table_block fs" "table_blocks fs' = table_blocks fs" "table_end fs' = table_end fs"
    "in_data_area fs' b = in_data_area fs b" "sizes_ok fs' = sizes_ok fs" "groups_ok fs' = groups_ok fs" "block_offset fs' = block_offset fs"
    "is_bitmap fs' b = is_bitmap fs b"
proof -
  show "is_bitmap fs' b = is_bitmap fs b" using assms by (auto simp: same_geometry_def is_bitmap_def)
  show t: "table_block fs' = table_block fs" "table_blocks fs' = table_blocks fs" "table_end fs' = table_end fs"
    "in_data_area fs' b = in_data_area fs b" for b
    using assms by (simp_all add: same_geometry_def table_block_def table_blocks_def table_end_def in_data_area_def)
  show "sizes_ok fs' = sizes_ok fs" using assms by (simp add: same_geometry_def sizes_ok_def t)
  show "block_offset fs' = block_offset fs" using assms by (simp add: same_geometry_def block_offset_def)
  have "inj_on (\<lambda>(g, off). group_addr fs' g off) ({..<blockGroupCount fs} \<times> {0, 4}) = inj_on (\<lambda>(g, off). group_addr fs g off) ({..<blockGroupCount fs} \<times> {0, 4})"
    using assms by (intro inj_on_cong) (auto simp: same_geometry_def)
  then show "groups_ok fs' = groups_ok fs" using assms by (simp add: groups_ok_def same_geometry_def t)
qed

lemma same_geometry_dev [simp]: "same_geometry fs (fs\<lparr>dev := d\<rparr>)" "same_buffers fs (fs\<lparr>dev := d\<rparr>)"
  by (simp_all add: same_geometry_def same_buffers_def totalBlocks_def totalInodes_def sb_blockSize_def blocksPerBlockGroup_def
      inodesPerBlockGroup_def group_addr_def)

text \<open>A write of whole sectors outside a block keeps the block.\<close>

lemma write_sectors_blocks:
  assumes d: "dev_ok fs" and lt: "firstSector fs + sec + n < 2 ^ 32" and l: "length buf = SECTOR_SIZE * n"
  shows "\<exists>d'. write_sectors sec n buf fs = Inr (0, fs\<lparr>dev := d'\<rparr>) \<and> dev_ok (fs\<lparr>dev := d'\<rparr>)
    \<and> (\<forall>b. Suc b * sectorsPerBlock fs \<le> sec \<or> sec + n \<le> b * sectorsPerBlock fs \<longrightarrow> blk (fs\<lparr>dev := d'\<rparr>) b = blk fs b)"
proof -
  let ?n = "sectorsPerBlock fs" and ?f = "firstSector fs"
  have c: "cache_ready (dev fs)" and sz: "\<forall>s. length (view (dev fs) s) = SECTOR_SIZE" using d by (simp_all add: dev_ok_def)
  from write_sectors_ok [OF c lt, of buf] obtain d' where d': "write_sectors sec n buf fs = Inr (0, fs\<lparr>dev := d'\<rparr>)" "cache_ready d'"
    "view d' = override (view (dev fs)) (?f + sec) (sectors_of n buf)" by blast
  note so = sectors_of_props [OF l]
  have ok: "dev_ok (fs\<lparr>dev := d'\<rparr>)"
    using d d'(2,3) override_length [OF sz, of "sectors_of n buf"] so(3) by (simp add: dev_ok_def totalBlocks_def)
  have "blk (fs\<lparr>dev := d'\<rparr>) b = blk fs b" if "Suc b * ?n \<le> sec \<or> sec + n \<le> b * ?n" for b
  proof -
    have "\<forall>s \<in> set (block_sectors fs b). s < ?f + sec \<or> ?f + sec + length (sectors_of n buf) \<le> s"
      unfolding so(1) block_sectors_def using that by auto
    from map_override_other [OF this, of "view (dev fs)"] have "map (view d') (block_sectors fs b) = map (view (dev fs)) (block_sectors fs b)"
      unfolding d'(3) .
    moreover have "block_sectors (fs\<lparr>dev := d'\<rparr>) b = block_sectors fs b" "dev (fs\<lparr>dev := d'\<rparr>) = d'" by (simp_all add: block_sectors_def)
    ultimately show ?thesis unfolding blk_def by (simp only:)
  qed
  then show ?thesis using d'(1) ok by blast
qed

lemma fs_ok_change:
  assumes "fs_ok fs" "dev_ok fs'" "same_geometry fs fs'" "bitmapBlock fs' = bitmapBlock fs" "bitmapBuffer fs' = bitmapBuffer fs"
    "\<And>b. table_end fs \<le> b \<Longrightarrow> blk fs' b = blk fs b"
  shows "fs_ok fs'"
proof -
  note g = geometry_accessors [OF assms(3)]
  have bs: "blockSize fs' = blockSize fs" using assms(3) by (simp add: same_geometry_def)
  have "bitmap_coherent fs'" using assms(1,6) unfolding fs_ok_def bitmap_coherent_def disk_bitmap_def assms(4,5) g(4,8) bs
    by (auto simp: in_data_area_def)
  then show ?thesis using assms(1,2) by (simp add: fs_ok_def g)
qed

lemma table_end_pos: "1 \<le> table_block fs" "table_block fs < table_end fs"
  by (simp_all add: table_block_def table_end_def table_blocks_def)

lemma superblock_write_ok:
  assumes ok: "fs_ok fs"
  shows "\<exists>d. ext2_superblock_write fs = Inr (0, fs\<lparr>dev := d\<rparr>) \<and> fs_ok (fs\<lparr>dev := d\<rparr>) \<and> (\<forall>b. table_block fs \<le> b \<longrightarrow> blk (fs\<lparr>dev := d\<rparr>) b = blk fs b)"
proof -
  have d: "dev_ok fs" and s: "length (sb fs) = 1024" "2 \<le> sectorsPerBlock fs" "table_end fs \<le> totalBlocks fs"
    using ok by (simp_all add: fs_ok_def sizes_ok_def SUPERBLOCK_SIZE_def)
  have "firstSector fs + Suc 1 * sectorsPerBlock fs < 2 ^ 32" using s(3) table_end_pos [of fs] by (intro block_below [OF d]) simp
  then have "firstSector fs + 2 + 2 < 2 ^ 32" using s(2) by simp
  from write_sectors_blocks [OF d this, of "sb fs"] s(1) obtain d' where d': "write_sectors 2 2 (sb fs) fs = Inr (0, fs\<lparr>dev := d'\<rparr>)"
    "dev_ok (fs\<lparr>dev := d'\<rparr>)" "\<forall>b. Suc b * sectorsPerBlock fs \<le> 2 \<or> 2 + 2 \<le> b * sectorsPerBlock fs \<longrightarrow> blk (fs\<lparr>dev := d'\<rparr>) b = blk fs b"
    by (auto simp: SECTOR_SIZE_def)
  have "4 \<le> table_block fs * sectorsPerBlock fs" using s(2) by (simp add: table_block_def SUPERBLOCK_END_def SUPERBLOCK_START_def SUPERBLOCK_SECTORS_def)
  then have "4 \<le> b * sectorsPerBlock fs" if "table_block fs \<le> b" for b using mult_le_mono1 [OF that] by (rule le_trans)
  then have same: "\<forall>b. table_block fs \<le> b \<longrightarrow> blk (fs\<lparr>dev := d'\<rparr>) b = blk fs b" using d'(3) by simp
  moreover have "fs_ok (fs\<lparr>dev := d'\<rparr>)" by (rule fs_ok_change [OF ok d'(2)]) (use same table_end_pos(2) [of fs] in auto)
  ultimately show ?thesis using d'(1) by (intro exI [of _ d']) (simp add: ext2_superblock_write_def SUPERBLOCK_START_def SUPERBLOCK_SECTORS_def)
qed

lemma table_write_ok:
  assumes ok: "fs_ok fs"
  shows "\<exists>d. ext2_write_blockgroup_table fs = Inr (0, fs\<lparr>dev := d\<rparr>) \<and> fs_ok (fs\<lparr>dev := d\<rparr>) \<and> (\<forall>b. table_end fs \<le> b \<longrightarrow> blk (fs\<lparr>dev := d\<rparr>) b = blk fs b)"
proof -
  let ?n = "sectorsPerBlock fs" and ?t = "table_block fs" and ?k = "table_blocks fs"
  have d: "dev_ok fs" and s: "length (groupTable fs) = blockSize fs * ?k" "?t + ?k \<le> totalBlocks fs" "blockSize fs = SECTOR_SIZE * ?n"
    using ok by (simp_all add: fs_ok_def sizes_ok_def table_end_def dev_ok_def)
  have lt: "firstSector fs + Suc (?t + ?k) * ?n < 2 ^ 32" by (rule block_below [OF d s(2)])
  have e: "?t * ?n + ?k * ?n \<le> Suc (?t + ?k) * ?n" by (simp add: algebra_simps)
  then have lt': "firstSector fs + ?t * ?n + ?k * ?n < 2 ^ 32" using lt by linarith
  have m: "?t * ?n mod 2 ^ 32 = ?t * ?n" "?k * ?n mod 2 ^ 32 = ?k * ?n" using lt' by auto
  have "totalBlocks fs < 2 ^ 32" using get32_bound [of "sb fs" 4] by (simp add: totalBlocks_def)
  then have mt: "(?t + ?k) mod 2 ^ 32 = ?t + ?k" using s(2) by (intro mod_less) linarith
  have "length (groupTable fs) = SECTOR_SIZE * (?k * ?n)" using s by simp
  from write_sectors_blocks [OF d lt' this] obtain d' where d': "write_sectors (?t * ?n) (?k * ?n) (groupTable fs) fs = Inr (0, fs\<lparr>dev := d'\<rparr>)"
    "dev_ok (fs\<lparr>dev := d'\<rparr>)" "\<forall>b. Suc b * ?n \<le> ?t * ?n \<or> ?t * ?n + ?k * ?n \<le> b * ?n \<longrightarrow> blk (fs\<lparr>dev := d'\<rparr>) b = blk fs b" by blast
  have "?t * ?n + ?k * ?n \<le> b * ?n" if "table_end fs \<le> b" for b
    using mult_le_mono1 [OF that, of ?n] by (simp add: table_end_def algebra_simps)
  then have same: "\<forall>b. table_end fs \<le> b \<longrightarrow> blk (fs\<lparr>dev := d'\<rparr>) b = blk fs b" using d'(3) by simp
  moreover have "fs_ok (fs\<lparr>dev := d'\<rparr>)" by (rule fs_ok_change [OF ok d'(2)]) (use same in auto)
  moreover have "ext2_write_blockgroup_table fs = Inr (0, fs\<lparr>dev := d'\<rparr>)"
    unfolding ext2_write_blockgroup_table_def ext2_write_blocks_def m mt using s(2) d'(1) by simp
  ultimately show ?thesis by blast
qed


text \<open>The result of an operation on the metadata that keeps every block from \<open>table_end\<close> on but those in \<open>W\<close>.\<close>

definition meta_step :: "nat set \<Rightarrow> ext2 \<Rightarrow> ext2 \<Rightarrow> bool" where
  "meta_step W fs fs' \<longleftrightarrow> fs_ok fs' \<and> same_geometry fs fs' \<and> same_buffers fs fs' \<and> (\<forall>b. table_end fs \<le> b \<longrightarrow> b \<notin> W \<longrightarrow> blk fs' b = blk fs b)"

lemma meta_step_trans: "meta_step W fs fs1 \<Longrightarrow> meta_step W' fs1 fs2 \<Longrightarrow> meta_step (W \<union> W') fs fs2"
  using geometry_accessors(3) [of fs fs1] unfolding meta_step_def by (auto intro: same_geometry_trans same_buffers_trans)

lemma meta_step_refl: "fs_ok fs \<Longrightarrow> meta_step {} fs fs"
  by (simp add: meta_step_def)

lemma meta_step_dev:
  "fs_ok (fs\<lparr>dev := d\<rparr>) \<Longrightarrow> (\<And>b. table_end fs \<le> b \<Longrightarrow> b \<notin> W \<Longrightarrow> blk (fs\<lparr>dev := d\<rparr>) b = blk fs b) \<Longrightarrow> meta_step W fs (fs\<lparr>dev := d\<rparr>)"
  by (simp add: meta_step_def)

lemma put_sb_ok:
  assumes ok: "fs_ok fs" and off: "off = 12 \<or> off = 16 \<or> off = 48"
  shows "meta_step {} fs (put_sb off v fs)" "bitmapBlock (put_sb off v fs) = bitmapBlock fs" "bitmapBuffer (put_sb off v fs) = bitmapBuffer fs"
proof -
  have l: "length (sb fs) = 1024" using ok by (simp add: fs_ok_def sizes_ok_def SUPERBLOCK_SIZE_def)
  have g: "get32 (splice off (le32 v) (sb fs)) i = get32 (sb fs) i" if "i \<in> {0, 4, 24, 32, 40}" for i
    using that off l by (intro get32_splice(2)) auto
  have "off + length (le32 v) \<le> length (sb fs)" using off l by auto
  from splice_length [OF this] have geo: "same_geometry fs (put_sb off v fs)"
    by (simp add: same_geometry_def put_sb_def totalBlocks_def totalInodes_def sb_blockSize_def blocksPerBlockGroup_def
        inodesPerBlockGroup_def group_addr_def g)
  have b: "blk (put_sb off v fs) = blk fs" by (simp add: fun_eq_iff blk_def block_sectors_def put_sb_def)
  have "dev_ok (put_sb off v fs)" using ok geo by (simp add: fs_ok_def dev_ok_def same_geometry_def put_sb_def)
  from fs_ok_change [OF ok this geo] b have "fs_ok (put_sb off v fs)" by (simp add: put_sb_def)
  moreover have "same_buffers fs (put_sb off v fs)" by (simp add: same_buffers_def put_sb_def)
  ultimately show "meta_step {} fs (put_sb off v fs)" using geo b by (simp add: meta_step_def)
qed (simp_all add: put_sb_def)

lemma group_in_table:
  assumes "fs_ok fs" "g < blockGroupCount fs"
  shows "32 * g + 32 \<le> length (groupTable fs)"
proof -
  have "length (groupTable fs) = blockSize fs * table_blocks fs" using assms(1) by (simp add: fs_ok_def sizes_ok_def)
  moreover have bs: "0 < blockSize fs" using assms(1) by (simp add: fs_ok_def dev_ok_def SECTOR_SIZE_def)
  moreover have "blockGroupCount fs * 32 \<le> blockSize fs * (blockGroupCount fs * 32 div blockSize fs + 1)"
  proof -
    have "blockSize fs * (blockGroupCount fs * 32 div blockSize fs) + blockGroupCount fs * 32 mod blockSize fs = blockGroupCount fs * 32"
      by (rule mult_div_mod_eq)
    moreover have "blockGroupCount fs * 32 mod blockSize fs < blockSize fs" using bs by simp
    ultimately show ?thesis unfolding distrib_left mult_1_right by linarith
  qed
  ultimately have "blockGroupCount fs * 32 \<le> length (groupTable fs)" by (simp add: table_blocks_def GROUP_DESCRIPTOR_SIZE_def)
  moreover have "32 * g + 32 \<le> blockGroupCount fs * 32" using assms(2) by simp
  ultimately show ?thesis by simp
qed

lemma group_word_ok: "fs_ok fs \<Longrightarrow> g < blockGroupCount fs \<Longrightarrow> group_word g off fs = Inr (group_addr fs g off)"
  using group_in_table [of fs g] by (simp add: group_word_def group_addr_def GROUP_DESCRIPTOR_SIZE_def)

lemma add_group_half_ok:
  assumes ok: "fs_ok fs" and g: "g < blockGroupCount fs" and off: "off = 12 \<or> off = 14 \<or> off = 16"
  shows "\<exists>t. add_group_half g off d fs = Inr (fs\<lparr>groupTable := t\<rparr>) \<and> meta_step {} fs (fs\<lparr>groupTable := t\<rparr>)"
proof -
  let ?i = "32 * g + off" let ?v = "nat ((int (get16 (groupTable fs) ?i) + d) mod 2 ^ 16)"
  let ?t = "splice ?i (le16 ?v) (groupTable fs)" let ?fs = "fs\<lparr>groupTable := ?t\<rparr>"
  have l: "32 * g + 32 \<le> length (groupTable fs)" by (rule group_in_table [OF ok g])
  have eq: "add_group_half g off d fs = Inr ?fs" using l by (simp add: add_group_half_def Let_def GROUP_DESCRIPTOR_SIZE_def)
  have len: "length ?t = length (groupTable fs)" using l off by (intro splice_length) auto
  have ga: "group_addr ?fs g' o' = group_addr fs g' o'" if "g' < blockGroupCount fs" "o' \<in> {0, 4, 8}" for g' o'
  proof -
    have l': "32 * g' + 32 \<le> length (groupTable fs)" by (rule group_in_table [OF ok that(1)])
    have s: "?i + length (le16 ?v) \<le> length (groupTable fs)" using l off by auto
    have "?t ! (32 * g' + o' + k) = groupTable fs ! (32 * g' + o' + k)" if k: "k < 4" for k
    proof -
      have "g' = g \<or> 32 * g' + 32 \<le> 32 * g \<or> 32 * g + 32 \<le> 32 * g'" by auto
      then have "\<not> (?i \<le> 32 * g' + o' + k \<and> 32 * g' + o' + k < ?i + length (le16 ?v))"
        using k off \<open>o' \<in> {0, 4, 8}\<close> by auto
      moreover have "32 * g' + o' + k < length (groupTable fs)" using l' k \<open>o' \<in> {0, 4, 8}\<close> by auto
      ultimately show ?thesis unfolding splice_nth [OF s \<open>32 * g' + o' + k < length (groupTable fs)\<close>] by (intro if_not_P)
    qed
    then show ?thesis unfolding group_addr_def by (intro get_cong) simp
  qed
  have geo: "same_geometry fs ?fs"
    using len ga by (simp add: same_geometry_def totalBlocks_def totalInodes_def sb_blockSize_def blocksPerBlockGroup_def inodesPerBlockGroup_def)
  have b: "blk ?fs = blk fs" by (simp add: fun_eq_iff blk_def block_sectors_def)
  have "dev_ok ?fs" using ok geo by (simp add: fs_ok_def dev_ok_def same_geometry_def)
  from fs_ok_change [OF ok this geo] b have "fs_ok ?fs" by simp
  moreover have "same_buffers fs ?fs" by (simp add: same_buffers_def)
  ultimately show ?thesis using eq geo b by (intro exI [of _ ?t]) (simp add: meta_step_def)
qed

text \<open>The counters reach the disk, and nothing else changes.\<close>

lemma count_ok:
  assumes ok: "fs_ok fs" and g: "g < blockGroupCount fs" and off: "off = 12 \<or> off = 16" and half: "half = 12 \<or> half = 14"
  shows "\<exists>fs'. rbind (ext2_superblock_write (put_sb off v fs)) (\<lambda>(_, fs2). rbind (add_group_half g half d fs2) (\<lambda>fs3.
      rbind (ext2_write_blockgroup_table fs3) (\<lambda>(_, fs4). Inr fs4))) = Inr fs'
    \<and> meta_step {} fs fs' \<and> bitmapBlock fs' = bitmapBlock fs \<and> bitmapBuffer fs' = bitmapBuffer fs"
proof -
  let ?fs1 = "put_sb off v fs"
  have off': "off = 12 \<or> off = 16 \<or> off = 48" using off by blast
  note p = put_sb_ok [OF ok off', of v]
  have ok1: "fs_ok ?fs1" using p(1) by (simp add: meta_step_def)
  obtain d1 where d1: "ext2_superblock_write ?fs1 = Inr (0, ?fs1\<lparr>dev := d1\<rparr>)" "fs_ok (?fs1\<lparr>dev := d1\<rparr>)"
    "\<forall>b. table_block ?fs1 \<le> b \<longrightarrow> blk (?fs1\<lparr>dev := d1\<rparr>) b = blk ?fs1 b" using superblock_write_ok [OF ok1] by blast
  let ?fs2 = "?fs1\<lparr>dev := d1\<rparr>"
  have s2: "meta_step {} ?fs1 ?fs2" by (rule meta_step_dev [OF d1(2)]) (use d1(3) table_end_pos(2) [of ?fs1] in simp)
  have g2: "g < blockGroupCount ?fs2" using g by (simp add: put_sb_def)
  have half': "half = 12 \<or> half = 14 \<or> half = 16" using half by blast
  obtain t where t: "add_group_half g half d ?fs2 = Inr (?fs2\<lparr>groupTable := t\<rparr>)" "meta_step {} ?fs2 (?fs2\<lparr>groupTable := t\<rparr>)"
    using add_group_half_ok [OF d1(2) g2 half'] by blast
  let ?fs3 = "?fs2\<lparr>groupTable := t\<rparr>"
  have ok3: "fs_ok ?fs3" using t(2) by (simp add: meta_step_def)
  obtain d2 where d2: "ext2_write_blockgroup_table ?fs3 = Inr (0, ?fs3\<lparr>dev := d2\<rparr>)" "fs_ok (?fs3\<lparr>dev := d2\<rparr>)"
    "\<forall>b. table_end ?fs3 \<le> b \<longrightarrow> blk (?fs3\<lparr>dev := d2\<rparr>) b = blk ?fs3 b" using table_write_ok [OF ok3] by blast
  have s4: "meta_step {} ?fs3 (?fs3\<lparr>dev := d2\<rparr>)" by (rule meta_step_dev [OF d2(2)]) (use d2(3) in blast)
  have "meta_step {} fs (?fs3\<lparr>dev := d2\<rparr>)"
    using meta_step_trans [OF meta_step_trans [OF meta_step_trans [OF p(1) s2] t(2)] s4] by simp
  then show ?thesis using d1(1) t(1) d2(1) p(2,3) by (intro exI [of _ "?fs3\<lparr>dev := d2\<rparr>"]) simp
qed

lemma count_blocks_ok:
  assumes "fs_ok fs" "g < blockGroupCount fs"
  shows "\<exists>fs'. count_blocks g d fs = Inr fs' \<and> meta_step {} fs fs' \<and> bitmapBlock fs' = bitmapBlock fs \<and> bitmapBuffer fs' = bitmapBuffer fs"
  using count_ok [OF assms, of 12 12] by (simp add: count_blocks_def Let_def)

lemma count_inodes_ok:
  assumes "fs_ok fs" "g < blockGroupCount fs"
  shows "\<exists>fs'. count_inodes g d fs = Inr fs' \<and> meta_step {} fs fs' \<and> bitmapBlock fs' = bitmapBlock fs \<and> bitmapBuffer fs' = bitmapBuffer fs"
  using count_ok [OF assms, of 16 14] by (simp add: count_inodes_def Let_def)


section \<open>Bitmaps\<close>

lemma concat_le32_split:
  assumes "i < n"
  shows "concat (map (\<lambda>i. le32 (f i)) [0..<n]) = concat (map (\<lambda>i. le32 (f i)) [0..<i]) @ le32 (f i) @ concat (map (\<lambda>i. le32 (f i)) [Suc i..<n])"
    "length (concat (map (\<lambda>i. le32 (f i)) [0..<n])) = 4 * n"
proof -
  have "[0..<n] = [0..<i] @ i # [Suc i..<n]" using assms upt_add_eq_append [of 0 i "n - i"] upt_conv_Cons [of i n] by simp
  then show "concat (map (\<lambda>i. le32 (f i)) [0..<n]) = concat (map (\<lambda>i. le32 (f i)) [0..<i]) @ le32 (f i) @ concat (map (\<lambda>i. le32 (f i)) [Suc i..<n])"
    by simp
  show "length (concat (map (\<lambda>i. le32 (f i)) [0..<n])) = 4 * n" by (subst concat_const [of _ 4]) auto
qed

lemma get32_words:
  assumes "i < n"
  shows "get32 (concat (map (\<lambda>i. le32 (f i)) [0..<n])) (4 * i) = f i mod 2 ^ 32"
proof -
  have l: "length (concat (map (\<lambda>i. le32 (f i)) [0..<i])) = 4 * i" by (subst concat_const [of _ 4]) auto
  show ?thesis unfolding concat_le32_split(1) [OF assms] l [symmetric] by (rule get32_append)
qed

lemma bitmap_bytes_length: "4 dvd n \<Longrightarrow> length (bitmap_bytes n m) = n"
  unfolding bitmap_bytes_def by (subst concat_const [of _ 4]) auto

lemma load_bitmap_bytes: "load_bitmap n (bitmap_bytes n m) m' i = (if i < n div 4 then m i else m' i)"
proof -
  have "unat (m i) < 2 ^ 32" using unsigned_less [of "m i"] by simp
  then show ?thesis using get32_words [of i "n div 4" "\<lambda>i. unat (m i)"] by (simp add: load_bitmap_def bitmap_bytes_def)
qed

definition taken :: "ext2 \<Rightarrow> nat \<Rightarrow> nat \<Rightarrow> bool" where
  "taken fs a i \<longleftrightarrow> bitmap_test (disk_bitmap fs a) i \<noteq> 0"

lemma fs_ok_block_size: "fs_ok fs \<Longrightarrow> 4 dvd blockSize fs \<and> 1024 \<le> blockSize fs"
  by (auto simp: fs_ok_def dev_ok_def sizes_ok_def SECTOR_SIZE_def)

lemma word_index: "fs_ok fs \<Longrightarrow> i < 8 * blockSize fs \<Longrightarrow> i div 32 < blockSize fs div 4"
proof -
  assume "fs_ok fs" "i < 8 * blockSize fs"
  moreover from this obtain k where "blockSize fs = 4 * k" using fs_ok_block_size by blast
  ultimately show ?thesis by (simp add: less_mult_imp_div_less)
qed

lemma taken_cong: "blk fs' a = blk fs a \<Longrightarrow> blockSize fs' = blockSize fs \<Longrightarrow> taken fs' a i = taken fs a i"
  by (simp add: taken_def disk_bitmap_def)

lemma taken_step: "meta_step W fs fs' \<Longrightarrow> table_end fs \<le> a \<Longrightarrow> a \<notin> W \<Longrightarrow> taken fs' a i = taken fs a i"
  by (intro taken_cong) (simp_all add: meta_step_def same_geometry_def)

lemma bitmap_in_data_area: "fs_ok fs \<Longrightarrow> is_bitmap fs a \<Longrightarrow> in_data_area fs a"
  by (auto simp: fs_ok_def groups_ok_def is_bitmap_def)

lemma read_bitmap_ok:
  assumes ok: "fs_ok fs" and a: "is_bitmap fs a"
  shows "\<exists>fs'. read_bitmap a fs = Inr (0, fs') \<and> meta_step {} fs fs' \<and> bitmapBlock fs' = a
    \<and> (\<forall>i < blockSize fs div 4. bitmapBuffer fs' i = disk_bitmap fs a i)"
proof (cases "bitmapBlock fs = a")
  case True
  have "a \<noteq> 0" using bitmap_in_data_area [OF ok a] table_end_pos [of fs] by (auto simp: in_data_area_def)
  then show ?thesis using True ok meta_step_refl [OF ok] by (auto simp: read_bitmap_def fs_ok_def bitmap_coherent_def)
next
  case False
  let ?fs1 = "fs\<lparr>bitmapBlock := a\<rparr>"
  have area: "in_data_area fs a" by (rule bitmap_in_data_area [OF ok a])
  then have "dev_ok ?fs1" "a \<le> totalBlocks ?fs1" using ok by (simp_all add: fs_ok_def dev_ok_def totalBlocks_def in_data_area_def)
  from read_block_ok [OF this] obtain d where d: "read_block a ?fs1 = Inr (Some (blk ?fs1 a), ?fs1\<lparr>dev := d\<rparr>)" "cache_ready d" "view d = view (dev fs)"
    by auto
  let ?m = "load_bitmap (blockSize fs) (blk fs a) (bitmapBuffer fs)"
  let ?fs2 = "fs\<lparr>dev := d, bitmapBlock := a, bitmapBuffer := ?m\<rparr>"
  have b1: "blk ?fs1 a = blk fs a" by (simp add: blk_def block_sectors_def)
  have b: "blk ?fs2 = blk fs" by (simp add: fun_eq_iff blk_def block_sectors_def d(3))
  have eq: "read_bitmap a fs = Inr (0, ?fs2)" using False d(1) b1 by (simp add: read_bitmap_def)
  have geo: "same_geometry fs ?fs2" "same_buffers fs ?fs2"
    by (simp_all add: same_geometry_def same_buffers_def totalBlocks_def totalInodes_def sb_blockSize_def blocksPerBlockGroup_def
        inodesPerBlockGroup_def group_addr_def)
  note ga = geometry_accessors [OF geo(1)]
  have m: "?m i = disk_bitmap fs a i" if "i < blockSize fs div 4" for i using that by (simp add: disk_bitmap_def load_bitmap_def)
  have "dev_ok ?fs2" using ok d(2,3) by (simp add: fs_ok_def dev_ok_def totalBlocks_def)
  moreover have "bitmap_coherent ?fs2" unfolding bitmap_coherent_def ga(4,8) using a area m b by (simp add: disk_bitmap_def)
  ultimately have "fs_ok ?fs2" using ok by (simp add: fs_ok_def ga)
  then show ?thesis using eq geo b m by (intro exI [of _ ?fs2]) (simp add: meta_step_def)
qed

lemma write_bitmap_ok:
  assumes ok: "fs_ok fs" and a: "in_data_area fs a" "bitmapBlock fs = a"
  shows "\<exists>fs'. write_bitmap a (fs\<lparr>bitmapBuffer := m\<rparr>) = Inr (0, fs') \<and> meta_step {a} fs fs' \<and> (\<forall>i < blockSize fs div 4. disk_bitmap fs' a i = m i)"
proof -
  have "a \<noteq> 0" using a table_end_pos [of fs] by (auto simp: in_data_area_def)
  then have isb: "is_bitmap fs a" using ok a(2) by (auto simp: fs_ok_def bitmap_coherent_def)
  let ?fs1 = "fs\<lparr>bitmapBuffer := m\<rparr>" let ?b = "bitmap_bytes (blockSize fs) m"
  have d1: "dev_ok ?fs1" "a \<le> totalBlocks ?fs1" using ok a by (simp_all add: fs_ok_def dev_ok_def totalBlocks_def in_data_area_def)
  have "length ?b = blockSize ?fs1" using fs_ok_block_size [OF ok] bitmap_bytes_length by simp
  from write_block_ok [OF d1 this] obtain d where d: "write_block a ?b ?fs1 = Inr (0, ?fs1\<lparr>dev := d\<rparr>)" "dev_ok (?fs1\<lparr>dev := d\<rparr>)"
    "blk (?fs1\<lparr>dev := d\<rparr>) = (blk ?fs1)(a := ?b)" by blast
  let ?fs2 = "fs\<lparr>dev := d, bitmapBuffer := m\<rparr>"
  have fs2: "?fs1\<lparr>dev := d\<rparr> = ?fs2" by simp
  have b: "blk ?fs2 = (blk fs)(a := ?b)" using d(3) by (simp add: fun_eq_iff blk_def block_sectors_def)
  have eq: "write_bitmap a ?fs1 = Inr (0, ?fs2)" using d(1) a(2) by (simp add: write_bitmap_def)
  have geo: "same_geometry fs ?fs2" "same_buffers fs ?fs2"
    by (simp_all add: same_geometry_def same_buffers_def totalBlocks_def totalInodes_def sb_blockSize_def blocksPerBlockGroup_def
        inodesPerBlockGroup_def group_addr_def)
  note ga = geometry_accessors [OF geo(1)]
  have m: "disk_bitmap ?fs2 a i = m i" if "i < blockSize fs div 4" for i
    using that b load_bitmap_bytes [of "blockSize fs" m "\<lambda>_. 0" i] by (simp add: disk_bitmap_def)
  have "bitmap_coherent ?fs2" unfolding bitmap_coherent_def ga(4,8) using a m isb by simp
  then have "fs_ok ?fs2" using ok d(2) unfolding fs2 by (simp add: fs_ok_def ga)
  then show ?thesis using eq geo b m by (intro exI [of _ ?fs2]) (simp add: meta_step_def)
qed

lemma bitmap_test_cong: "m (i div 32) = m' (i div 32) \<Longrightarrow> bitmap_test m i = bitmap_test m' i"
  by (simp add: bitmap_test_bit)

text \<open>Setting or clearing a bit: the bitmap in memory is changed and written.\<close>

lemma change_bit_ok:
  assumes ok: "fs_ok fs" and a: "in_data_area fs a" "bitmapBlock fs = a"
    and f: "\<And>j. bitmap_test m j = (if j = i then v else bitmap_test (bitmapBuffer fs) j)"
  shows "\<exists>fs'. write_bitmap a (fs\<lparr>bitmapBuffer := m\<rparr>) = Inr (0, fs') \<and> meta_step {a} fs fs'
    \<and> (\<forall>j < 8 * blockSize fs. taken fs' a j \<longleftrightarrow> (if j = i then v \<noteq> 0 else taken fs a j))"
proof -
  obtain fs' where fs': "write_bitmap a (fs\<lparr>bitmapBuffer := m\<rparr>) = Inr (0, fs')" "meta_step {a} fs fs'" "\<forall>i < blockSize fs div 4. disk_bitmap fs' a i = m i"
    using write_bitmap_ok [OF ok a] by blast
  have "a \<noteq> 0" using a table_end_pos [of fs] by (auto simp: in_data_area_def)
  then have co: "\<forall>i < blockSize fs div 4. bitmapBuffer fs i = disk_bitmap fs a i" using ok a(2) by (auto simp: fs_ok_def bitmap_coherent_def)
  have "taken fs' a j \<longleftrightarrow> (if j = i then v \<noteq> 0 else taken fs a j)" if "j < 8 * blockSize fs" for j
  proof -
    have w: "j div 32 < blockSize fs div 4" by (rule word_index [OF ok that])
    have "bitmap_test (disk_bitmap fs' a) j = bitmap_test m j" "bitmap_test (bitmapBuffer fs) j = bitmap_test (disk_bitmap fs a) j"
      using fs'(3) co w by (auto intro: bitmap_test_cong)
    then show ?thesis using f [of j] by (simp add: taken_def)
  qed
  with fs' show ?thesis by blast
qed

text \<open>The search in the bitmap of block \<open>a\<close>, once it has been read.\<close>

lemma first_clear_ok:
  assumes ok: "fs_ok fs" and co: "\<forall>i < blockSize fs div 4. bitmapBuffer fs' i = disk_bitmap fs a i" and n: "n \<le> 8 * blockSize fs"
  shows "bitmap_first_clear (bitmapBuffer fs') n = - 1 \<and> (\<forall>i < n div 32 * 32. taken fs a i)
    \<or> (\<exists>i < n div 32 * 32. bitmap_first_clear (bitmapBuffer fs') n = int i \<and> \<not> taken fs a i \<and> (\<forall>j < i. taken fs a j))"
proof -
  let ?m = "bitmapBuffer fs'" and ?n = "n div 32 * 32"
  have le: "?n \<le> 8 * blockSize fs" using n div_times_less_eq_dividend [of n 32] by linarith
  have t: "bitmap_test ?m i = 0 \<longleftrightarrow> \<not> taken fs a i" if "i < ?n" for i
  proof -
    have "i div 32 < blockSize fs div 4" using that le by (intro word_index [OF ok]) simp
    then show ?thesis using co bitmap_test_cong [of ?m i "disk_bitmap fs a"] by (simp add: taken_def)
  qed
  show ?thesis
  proof (cases "\<exists>c < ?n. bitmap_test ?m c = 0")
    case True
    then obtain c where c: "c < ?n" "bitmap_test ?m c = 0" by blast
    let ?i = "LEAST c. bitmap_test ?m c = 0"
    have i: "bitmap_test ?m ?i = 0" "?i \<le> c" using LeastI [of "\<lambda>c. bitmap_test ?m c = 0", OF c(2)] Least_le [of "\<lambda>c. bitmap_test ?m c = 0", OF c(2)] by auto
    have "taken fs a j" if "j < ?i" for j using t [of j] not_less_Least [OF that] that i(2) c(1) by auto
    then show ?thesis using True i c(1) t [of ?i] by (intro disjI2 exI [of _ ?i]) (simp add: bitmap_first_clear_least)
  next
    case False
    then show ?thesis using t by (auto simp: bitmap_first_clear_least)
  qed
qed

end
