(* ===== verification/Ext2_Allocator.thy ===== *)
theory Ext2_Allocator
  imports Ext2_Blocks
begin

text \<open>
  The allocator of \<open>src/drivers/ext2/allocator.c\<close> on a well-formed file system: blocks and inodes that are handed
  out were free, exactly one bit changes, no other block of the data area changes, and what was handed out can be
  given back.
\<close>

section \<open>Blocks\<close>

abbreviation block_bitmap :: "ext2 \<Rightarrow> nat \<Rightarrow> nat" where "block_bitmap fs g \<equiv> group_addr fs g 0"
abbreviation inode_bitmap :: "ext2 \<Rightarrow> nat \<Rightarrow> nat" where "inode_bitmap fs g \<equiv> group_addr fs g 4"

lemma bitmap_areas:
  assumes "fs_ok fs" "g < blockGroupCount fs"
  shows "in_data_area fs (block_bitmap fs g)" "in_data_area fs (inode_bitmap fs g)" "table_end fs \<le> block_bitmap fs g" "table_end fs \<le> inode_bitmap fs g"
    "is_bitmap fs (block_bitmap fs g)" "is_bitmap fs (inode_bitmap fs g)"
  using assms by (auto simp: fs_ok_def groups_ok_def in_data_area_def is_bitmap_def)

lemma meta_stepD:
  assumes "meta_step W fs fs'"
  shows "fs_ok fs'" "same_geometry fs fs'" "same_buffers fs fs'"
    "blockGroupCount fs' = blockGroupCount fs" "blockSize fs' = blockSize fs" "blocksPerBlockGroup fs' = blocksPerBlockGroup fs"
    "inodesPerBlockGroup fs' = inodesPerBlockGroup fs" "block_offset fs' = block_offset fs" "table_end fs' = table_end fs"
    "in_data_area fs' = in_data_area fs"
    "g < blockGroupCount fs \<Longrightarrow> group_addr fs' g 0 = group_addr fs g 0" "g < blockGroupCount fs \<Longrightarrow> group_addr fs' g 4 = group_addr fs g 4"
  using assms geometry_accessors [of fs fs'] by (auto simp: meta_step_def same_geometry_def fun_eq_iff)

lemma group_word_bitmap [simp]: "group_word g off (fs\<lparr>bitmapBuffer := m\<rparr>) = group_word g off fs"
  by (simp add: group_word_def)

lemma reserve_block_ok:
  assumes ok: "fs_ok fs" and g: "g < blockGroupCount fs" and b: "bitmapBlock fs = block_bitmap fs g" and i: "i < 8 * blockSize fs"
  shows "\<exists>fs'. reserve_block g i fs = Inr fs' \<and> meta_step {block_bitmap fs g} fs fs'
    \<and> (\<forall>j < 8 * blockSize fs. taken fs' (block_bitmap fs g) j \<longleftrightarrow> taken fs (block_bitmap fs g) j \<or> j = i)"
proof -
  let ?a = "block_bitmap fs g" and ?m = "bitmap_set (bitmapBuffer fs) i"
  note area = bitmap_areas [OF ok g]
  obtain fs1 where fs1: "write_bitmap ?a (fs\<lparr>bitmapBuffer := ?m\<rparr>) = Inr (0, fs1)" "meta_step {?a} fs fs1"
    "\<forall>j < 8 * blockSize fs. taken fs1 ?a j \<longleftrightarrow> (if j = i then (1::u32) \<noteq> 0 else taken fs ?a j)"
    using change_bit_ok [OF ok area(1) b, of ?m i 1] bitmap_test_set by blast
  note d1 = meta_stepD [OF fs1(2)]
  have g1: "g < blockGroupCount fs1" using g d1(4) by simp
  obtain fs2 where fs2: "count_blocks g (- 1) fs1 = Inr fs2" "meta_step {} fs1 fs2" using count_blocks_ok [OF d1(1) g1] by blast
  have "group_word g 0 fs = Inr ?a" by (rule group_word_ok [OF ok g])
  then have "reserve_block g i fs = Inr fs2" using fs1(1) fs2(1) by (simp add: reserve_block_def write_block_bitmap_def)
  moreover have "meta_step {?a} fs fs2" using meta_step_trans [OF fs1(2) fs2(2)] by simp
  moreover have "taken fs2 ?a j = taken fs1 ?a j" for j using taken_step [OF fs2(2)] area(3) d1(9) by simp
  ultimately show ?thesis using fs1(3) by auto
qed

lemma allocate_in_group_ok:
  assumes ok: "fs_ok fs" and g: "g < blockGroupCount fs"
  defines "a \<equiv> block_bitmap fs g" and "n \<equiv> blocksPerBlockGroup fs div 32 * 32"
  shows "(\<exists>fs'. allocate_in_group g fs = Inr (0, fs') \<and> meta_step {} fs fs' \<and> (\<forall>i < n. taken fs a i))
    \<or> (\<exists>i fs'. allocate_in_group g fs = Inr (block_offset fs + g * blocksPerBlockGroup fs + i, fs') \<and> meta_step {a} fs fs' \<and> i < n
        \<and> \<not> taken fs a i \<and> (\<forall>j < i. taken fs a j) \<and> (\<forall>j < 8 * blockSize fs. taken fs' a j \<longleftrightarrow> taken fs a j \<or> j = i))"
proof -
  note area = bitmap_areas [OF ok g, folded a_def]
  obtain fs1 where fs1: "read_bitmap a fs = Inr (0, fs1)" "meta_step {} fs fs1" "bitmapBlock fs1 = a"
    "\<forall>i < blockSize fs div 4. bitmapBuffer fs1 i = disk_bitmap fs a i" using read_bitmap_ok [OF ok area(5)] by blast
  note d1 = meta_stepD [OF fs1(2)]
  have rb: "read_block_bitmap g fs = Inr (0, fs1)" using fs1(1) group_word_ok [OF ok g, of 0] by (simp add: read_block_bitmap_def a_def)
  have le: "blocksPerBlockGroup fs \<le> 8 * blockSize fs" using ok by (simp add: fs_ok_def sizes_ok_def)
  then have nle: "n \<le> 8 * blockSize fs" unfolding n_def using div_times_less_eq_dividend [of "blocksPerBlockGroup fs" 32] by linarith
  from first_clear_ok [OF ok fs1(4) le, folded n_def] show ?thesis
  proof (elim disjE exE conjE)
    assume "bitmap_first_clear (bitmapBuffer fs1) (blocksPerBlockGroup fs) = - 1" "\<forall>i < n. taken fs a i"
    then show ?thesis using rb fs1(2) d1(6) by (auto simp: allocate_in_group_def Let_def)
  next
    fix i assume i: "i < n" and c: "bitmap_first_clear (bitmapBuffer fs1) (blocksPerBlockGroup fs) = int i" "\<not> taken fs a i" "\<forall>j < i. taken fs a j"
    have g1: "g < blockGroupCount fs1" and b1: "bitmapBlock fs1 = block_bitmap fs1 g" and i1: "i < 8 * blockSize fs1"
      using g d1(4,5) fs1(3) d1(11) [OF g] i nle by (simp_all add: a_def)
    obtain fs2 where fs2: "reserve_block g i fs1 = Inr fs2" "meta_step {a} fs1 fs2"
      "\<forall>j < 8 * blockSize fs. taken fs2 a j \<longleftrightarrow> taken fs1 a j \<or> j = i"
      using reserve_block_ok [OF d1(1) g1 b1 i1] d1(5) d1(11) [OF g] by (auto simp: a_def)
    have small: "block_offset fs + g * blocksPerBlockGroup fs + i < 2 ^ 32"
    proof -
      have "Suc g * blocksPerBlockGroup fs \<le> blockGroupCount fs * blocksPerBlockGroup fs" using g by (intro mult_le_mono1) simp
      moreover have "blockGroupCount fs * blocksPerBlockGroup fs < 2 ^ 31" using ok by (simp add: fs_ok_def sizes_ok_def)
      moreover have "i < blocksPerBlockGroup fs" using i div_times_less_eq_dividend [of "blocksPerBlockGroup fs" 32] unfolding n_def by linarith
      ultimately show ?thesis by (simp add: block_offset_def)
    qed
    have "taken fs1 a j = taken fs a j" for j using taken_step [OF fs1(2) area(3)] by simp
    then have "\<forall>j < 8 * blockSize fs. taken fs2 a j \<longleftrightarrow> taken fs a j \<or> j = i" using fs2(3) by simp
    moreover have "allocate_in_group g fs = Inr (block_offset fs + g * blocksPerBlockGroup fs + i, fs2)"
      using rb c(1) fs2(1) d1(6,8) small by (simp add: allocate_in_group_def Let_def)
    moreover have "meta_step {a} fs fs2" using meta_step_trans [OF fs1(2) fs2(2)] by simp
    ultimately show ?thesis using i c(2,3) by blast
  qed
qed

text \<open>Block \<open>0\<close> is never free: with blocks of more than 1024 bytes it holds the superblock.\<close>

definition first_block_used :: "ext2 \<Rightarrow> bool" where
  "first_block_used fs \<longleftrightarrow> block_offset fs = 1 \<or> taken fs (block_bitmap fs 0) 0"

text \<open>What an allocation of a block does: \<open>b\<close> is the block with index \<open>i\<close> of group \<open>g\<close>.\<close>

definition allocated :: "ext2 \<Rightarrow> nat \<Rightarrow> nat \<Rightarrow> nat \<Rightarrow> ext2 \<Rightarrow> bool" where
  "allocated fs b g i fs' \<longleftrightarrow> b = block_offset fs + g * blocksPerBlockGroup fs + i \<and> b \<noteq> 0 \<and> g < blockGroupCount fs
     \<and> i < blocksPerBlockGroup fs \<and> \<not> taken fs (block_bitmap fs g) i \<and> meta_step {block_bitmap fs g} fs fs'
     \<and> (\<forall>j < 8 * blockSize fs. taken fs' (block_bitmap fs g) j \<longleftrightarrow> taken fs (block_bitmap fs g) j \<or> j = i)"

lemma allocated_other:
  assumes ok: "fs_ok fs" and al: "allocated fs b g i fs'" and h: "h < blockGroupCount fs" "h \<noteq> g"
  shows "taken fs' (block_bitmap fs h) j = taken fs (block_bitmap fs h) j"
proof -
  have gc: "g < blockGroupCount fs" and st: "meta_step {block_bitmap fs g} fs fs'" using al by (auto simp: allocated_def)
  have inj: "inj_on (\<lambda>(g, off). group_addr fs g off) ({..<blockGroupCount fs} \<times> {0, 4})" using ok by (simp add: fs_ok_def groups_ok_def)
  have "block_bitmap fs h \<noteq> block_bitmap fs g"
    using inj_onD [OF inj, of "(h, 0)" "(g, 0)"] h gc by auto
  then show ?thesis using taken_step [OF st] bitmap_areas(3) [OF ok h(1)] by simp
qed

lemma allocate_in_groups_ok:
  assumes "fs_ok fs" "first_block_used fs" "\<forall>g \<in> set gs. g < blockGroupCount fs"
  shows "(\<exists>fs'. allocate_in_groups gs fs = Inr (0, fs') \<and> meta_step {} fs fs'
      \<and> (\<forall>g \<in> set gs. \<forall>i < blocksPerBlockGroup fs div 32 * 32. taken fs (block_bitmap fs g) i))
    \<or> (\<exists>b g i fs'. allocate_in_groups gs fs = Inr (b, fs') \<and> allocated fs b g i fs')"
  using assms
proof (induction gs arbitrary: fs)
  case Nil
  then show ?case using meta_step_refl by auto
next
  case (Cons g gs)
  let ?n = "blocksPerBlockGroup fs div 32 * 32"
  have g: "g < blockGroupCount fs" using Cons.prems by simp
  from allocate_in_group_ok [OF Cons.prems(1) g] show ?case
  proof (elim disjE exE conjE)
    fix fs1 assume a: "allocate_in_group g fs = Inr (0, fs1)" "meta_step {} fs fs1" "\<forall>i < ?n. taken fs (block_bitmap fs g) i"
    note d1 = meta_stepD [OF a(2)]
    have t: "taken fs1 (block_bitmap fs h) i = taken fs (block_bitmap fs h) i" if "h < blockGroupCount fs" for h i
      using taken_step [OF a(2)] bitmap_areas(3) [OF Cons.prems(1) that] by simp
    have bb: "block_bitmap fs1 h = block_bitmap fs h" if "h < blockGroupCount fs" for h using d1(11) that by simp
    have z: "0 < blockGroupCount fs" using g by simp
    have f1: "first_block_used fs1" using Cons.prems(2) t [OF z] bb [OF z] d1(8) by (simp add: first_block_used_def)
    have "\<forall>g \<in> set gs. g < blockGroupCount fs1" using Cons.prems(3) d1(4) by simp
    from Cons.IH [OF d1(1) f1 this] show ?thesis
    proof (elim disjE exE conjE)
      fix fs2 assume r: "allocate_in_groups gs fs1 = Inr (0, fs2)" "meta_step {} fs1 fs2"
        "\<forall>g \<in> set gs. \<forall>i < blocksPerBlockGroup fs1 div 32 * 32. taken fs1 (block_bitmap fs1 g) i"
      have "\<forall>h \<in> set (g # gs). \<forall>i < ?n. taken fs (block_bitmap fs h) i"
        using a(3) r(3) t bb d1(6) Cons.prems(3) by auto
      moreover have "meta_step {} fs fs2" using meta_step_trans [OF a(2) r(2)] by simp
      ultimately show ?thesis using a(1) r(1) by auto
    next
      fix b h i fs2 assume r: "allocate_in_groups gs fs1 = Inr (b, fs2)" "allocated fs1 b h i fs2"
      have h: "h < blockGroupCount fs" using r(2) d1(4) by (simp add: allocated_def)
      have "meta_step ({} \<union> {block_bitmap fs1 h}) fs fs2" by (rule meta_step_trans [OF a(2)]) (use r(2) in \<open>simp add: allocated_def\<close>)
      then have "allocated fs b h i fs2" using r(2) d1(4-6,8) t [OF h] bb [OF h] by (auto simp: allocated_def)
      then show ?thesis using a(1) r(1) by auto
    qed
  next
    fix i fs1 assume a: "allocate_in_group g fs = Inr (block_offset fs + g * blocksPerBlockGroup fs + i, fs1)" "meta_step {block_bitmap fs g} fs fs1" "i < ?n"
      "\<not> taken fs (block_bitmap fs g) i" "\<forall>j < 8 * blockSize fs. taken fs1 (block_bitmap fs g) j \<longleftrightarrow> taken fs (block_bitmap fs g) j \<or> j = i"
    let ?b = "block_offset fs + g * blocksPerBlockGroup fs + i"
    have pos: "0 < blocksPerBlockGroup fs" using Cons.prems(1) by (simp add: fs_ok_def sizes_ok_def)
    have "?b \<noteq> 0"
    proof
      assume "?b = 0"
      then have "block_offset fs = 0" "g = 0" "i = 0" using pos by auto
      then show False using Cons.prems(2) a(4) by (simp add: first_block_used_def)
    qed
    moreover have "i < blocksPerBlockGroup fs" using a(3) div_times_less_eq_dividend [of "blocksPerBlockGroup fs" 32] by linarith
    ultimately have "allocated fs ?b g i fs1" using a g by (simp add: allocated_def)
    then show ?thesis using a(1) \<open>?b \<noteq> 0\<close> by auto
  qed
qed

lemma allocate_block_ok:
  assumes "fs_ok fs" "first_block_used fs" "hint < blockGroupCount fs"
  shows "(\<exists>fs'. allocate_block hint fs = Inr (0, fs') \<and> meta_step {} fs fs'
      \<and> (\<forall>g < blockGroupCount fs. \<forall>i < blocksPerBlockGroup fs div 32 * 32. taken fs (block_bitmap fs g) i))
    \<or> (\<exists>b g i fs'. allocate_block hint fs = Inr (b, fs') \<and> allocated fs b g i fs')"
proof -
  have "\<forall>g \<in> set (hint # [0..<blockGroupCount fs]). g < blockGroupCount fs" using assms(3) by auto
  from allocate_in_groups_ok [OF assms(1,2) this] show ?thesis by (auto simp: allocate_block_def)
qed

lemma deallocate_block_ok:
  assumes ok: "fs_ok fs" and g: "g < blockGroupCount fs" and i: "i < blocksPerBlockGroup fs"
  shows "\<exists>fs'. deallocate_block (block_offset fs + g * blocksPerBlockGroup fs + i) fs = Inr (0, fs') \<and> meta_step {block_bitmap fs g} fs fs'
    \<and> (\<forall>j < 8 * blockSize fs. taken fs' (block_bitmap fs g) j \<longleftrightarrow> taken fs (block_bitmap fs g) j \<and> j \<noteq> i)"
proof -
  let ?a = "block_bitmap fs g" and ?p = "blocksPerBlockGroup fs"
  note area = bitmap_areas [OF ok g]
  have small: "g * ?p + i < 2 ^ 32"
  proof -
    have "Suc g * ?p \<le> blockGroupCount fs * ?p" using g by (intro mult_le_mono1) simp
    moreover have "blockGroupCount fs * ?p < 2 ^ 31" using ok by (simp add: fs_ok_def sizes_ok_def)
    ultimately show ?thesis using i by simp
  qed
  have b: "nat ((int (block_offset fs + g * ?p + i) - int (block_offset fs)) mod 2 ^ 32) = g * ?p + i"
  proof -
    have "int (block_offset fs + g * ?p + i) - int (block_offset fs) = int (g * ?p + i)" by simp
    moreover have "int (g * ?p + i) < 2 ^ 32" using small by (metis of_nat_less_iff of_nat_numeral of_nat_power)
    then have "int (g * ?p + i) mod 2 ^ 32 = int (g * ?p + i)" by (intro mod_pos_pos_trivial) simp_all
    ultimately show ?thesis by (simp only: nat_int)
  qed
  have gi: "(g * ?p + i) div ?p = g" "(g * ?p + i) mod ?p = i" using i by auto
  obtain fs1 where fs1: "read_bitmap ?a fs = Inr (0, fs1)" "meta_step {} fs fs1" "bitmapBlock fs1 = ?a" using read_bitmap_ok [OF ok area(5)] by blast
  note d1 = meta_stepD [OF fs1(2)]
  have g1: "g < blockGroupCount fs1" and aa: "block_bitmap fs1 g = ?a" using g d1(4) d1(11) [OF g] by simp_all
  note area1 = bitmap_areas [OF d1(1) g1, unfolded aa]
  let ?m = "bitmap_clear (bitmapBuffer fs1) i"
  obtain fs2 where fs2: "write_bitmap ?a (fs1\<lparr>bitmapBuffer := ?m\<rparr>) = Inr (0, fs2)" "meta_step {?a} fs1 fs2"
    "\<forall>j < 8 * blockSize fs1. taken fs2 ?a j \<longleftrightarrow> (if j = i then (0::u32) \<noteq> 0 else taken fs1 ?a j)"
    using change_bit_ok [OF d1(1) area1(1) fs1(3), of ?m i 0] bitmap_test_clear by blast
  note d2 = meta_stepD [OF fs2(2)]
  have g2: "g < blockGroupCount fs2" using g1 d2(4) by simp
  obtain fs3 where fs3: "count_blocks g 1 fs2 = Inr fs3" "meta_step {} fs2 fs3" using count_blocks_ok [OF d2(1) g2] by blast
  have w: "group_word g 0 fs = Inr ?a" "group_word g 0 (fs1\<lparr>bitmapBuffer := ?m\<rparr>) = Inr ?a"
    using group_word_ok [OF ok g, of 0] group_word_ok [OF d1(1) g1, of 0] aa by simp_all
  have pos: "?p \<noteq> 0" using i by simp
  have "deallocate_block (block_offset fs + g * ?p + i) fs = Inr (0, fs3)"
    unfolding deallocate_block_def Let_def b gi using pos w fs1(1) fs2(1) fs3(1)
    by (simp add: read_block_bitmap_def write_block_bitmap_def)
  moreover have "meta_step {?a} fs fs3" using meta_step_trans [OF meta_step_trans [OF fs1(2) fs2(2)] fs3(2)] by simp
  moreover have "taken fs3 ?a j = taken fs2 ?a j" "taken fs1 ?a j = taken fs ?a j" for j
    using taken_step [OF fs3(2)] taken_step [OF fs1(2)] area(3) d1(9) d2(9) by simp_all
  ultimately show ?thesis using fs2(3) d1(5) by auto
qed


section \<open>Inodes\<close>

definition inode_allocated :: "ext2 \<Rightarrow> nat \<Rightarrow> nat \<Rightarrow> nat \<Rightarrow> ext2 \<Rightarrow> bool" where
  "inode_allocated fs n g i fs' \<longleftrightarrow> n = i + g * inodesPerBlockGroup fs + 1 \<and> FIRST_USABLE_INODE \<le> n \<and> g < blockGroupCount fs
     \<and> i < inodesPerBlockGroup fs \<and> \<not> taken fs (inode_bitmap fs g) i \<and> meta_step {inode_bitmap fs g} fs fs'
     \<and> (\<forall>j < 8 * blockSize fs. taken fs' (inode_bitmap fs g) j \<longleftrightarrow> taken fs (inode_bitmap fs g) j \<or> j = i)"

lemma allocate_inode_loop_ok:
  assumes "fs_ok fs" "\<forall>g \<in> set gs. g < blockGroupCount fs"
  shows "(\<exists>fs'. allocate_inode_loop gs fs = Inr (0, fs') \<and> meta_step {} fs fs'
      \<and> (\<forall>g \<in> set gs. (\<forall>i < inodesPerBlockGroup fs div 32 * 32. taken fs (inode_bitmap fs g) i)
           \<or> (\<exists>i. \<not> taken fs (inode_bitmap fs g) i \<and> i + g * inodesPerBlockGroup fs + 1 < FIRST_USABLE_INODE)))
    \<or> (\<exists>n g i fs'. allocate_inode_loop gs fs = Inr (n, fs') \<and> inode_allocated fs n g i fs')"
  using assms
proof (induction gs arbitrary: fs)
  case Nil
  then show ?case using meta_step_refl by auto
next
  case (Cons g gs)
  let ?p = "inodesPerBlockGroup fs" and ?a = "inode_bitmap fs g"
  let ?n = "?p div 32 * 32"
  have ok: "fs_ok fs" and g: "g < blockGroupCount fs" using Cons.prems by simp_all
  note area = bitmap_areas [OF ok g]
  obtain fs1 where fs1: "read_bitmap ?a fs = Inr (0, fs1)" "meta_step {} fs fs1" "bitmapBlock fs1 = ?a"
    "\<forall>i < blockSize fs div 4. bitmapBuffer fs1 i = disk_bitmap fs ?a i" using read_bitmap_ok [OF ok area(6)] by blast
  note d1 = meta_stepD [OF fs1(2)]
  have rb: "read_inode_bitmap g fs = Inr (0, fs1)" using fs1(1) group_word_ok [OF ok g, of 4] by (simp add: read_inode_bitmap_def)
  have le: "?p \<le> 8 * blockSize fs" using ok by (simp add: fs_ok_def sizes_ok_def)
  let ?e = "bitmap_first_clear (bitmapBuffer fs1) ?p"
  let ?inode = "nat ((?e + int (g * ?p) + 1) mod 2 ^ 32)"
  have small: "i + g * ?p + 1 < 2 ^ 32" if "i < ?p" for i
  proof -
    have "Suc g * ?p \<le> blockGroupCount fs * ?p" using g by (intro mult_le_mono1) simp
    moreover have "blockGroupCount fs * ?p < 2 ^ 31" using ok by (simp add: fs_ok_def sizes_ok_def)
    ultimately show ?thesis using that by simp
  qed
  have number: "?inode = i + g * ?p + 1" if i: "i < ?p" "?e = int i" for i
  proof -
    have "int (i + g * ?p + 1) < 2 ^ 32" using small [OF i(1)] by (metis of_nat_less_iff of_nat_numeral of_nat_power)
    then have "int (i + g * ?p + 1) mod 2 ^ 32 = int (i + g * ?p + 1)" by (intro mod_pos_pos_trivial) simp_all
    moreover have "int i + int (g * ?p) + 1 = int (i + g * ?p + 1)" by simp
    ultimately show ?thesis unfolding i(2) by (simp only: nat_int)
  qed
  show ?case
  proof (cases "?e \<noteq> - 1 \<and> ?inode \<ge> FIRST_USABLE_INODE")
    case skip: False
    have step: "allocate_inode_loop (g # gs) fs = allocate_inode_loop gs fs1" using rb skip d1(7) by (cases "?e = - 1") (simp_all add: Let_def)
    have full: "(\<forall>i < ?n. taken fs ?a i) \<or> (\<exists>i. \<not> taken fs ?a i \<and> i + g * ?p + 1 < FIRST_USABLE_INODE)"
    proof (cases "?e = - 1")
      case False
      then obtain i where i: "i < ?n" "?e = int i" "\<not> taken fs ?a i" using first_clear_ok [OF ok fs1(4) le] by auto
      have "i < ?p" using i(1) div_times_less_eq_dividend [of ?p 32] by linarith
      from number [OF this i(2)] have "?inode = i + g * ?p + 1" .
      then show ?thesis using skip False i(3) by auto
    qed (use first_clear_ok [OF ok fs1(4) le] in auto)
    have t: "taken fs1 (inode_bitmap fs h) i = taken fs (inode_bitmap fs h) i" "inode_bitmap fs1 h = inode_bitmap fs h"
      if "h < blockGroupCount fs" for h i
      using taken_step [OF fs1(2)] bitmap_areas(4) [OF ok that] d1(12) that by simp_all
    have "\<forall>g \<in> set gs. g < blockGroupCount fs1" using Cons.prems(2) d1(4) by simp
    from Cons.IH [OF d1(1) this] show ?thesis
    proof (elim disjE exE conjE)
      fix fs2 assume r: "allocate_inode_loop gs fs1 = Inr (0, fs2)" "meta_step {} fs1 fs2"
        "\<forall>g \<in> set gs. (\<forall>i < inodesPerBlockGroup fs1 div 32 * 32. taken fs1 (inode_bitmap fs1 g) i)
           \<or> (\<exists>i. \<not> taken fs1 (inode_bitmap fs1 g) i \<and> i + g * inodesPerBlockGroup fs1 + 1 < FIRST_USABLE_INODE)"
      have "meta_step {} fs fs2" using meta_step_trans [OF fs1(2) r(2)] by simp
      moreover have "\<forall>h \<in> set gs. (\<forall>i < ?n. taken fs (inode_bitmap fs h) i)
           \<or> (\<exists>i. \<not> taken fs (inode_bitmap fs h) i \<and> i + h * ?p + 1 < FIRST_USABLE_INODE)"
        using r(3) t Cons.prems(2) unfolding d1(7) by auto
      ultimately show ?thesis using r(1) step full by auto
    next
      fix n h i fs2 assume r: "allocate_inode_loop gs fs1 = Inr (n, fs2)" "inode_allocated fs1 n h i fs2"
      have h: "h < blockGroupCount fs" using r(2) d1(4) by (simp add: inode_allocated_def)
      have "meta_step ({} \<union> {inode_bitmap fs1 h}) fs fs2" by (rule meta_step_trans [OF fs1(2)]) (use r(2) in \<open>simp add: inode_allocated_def\<close>)
      then have "inode_allocated fs n h i fs2" using r(2) d1(4,5,7) t [OF h] by (auto simp: inode_allocated_def)
      then show ?thesis using r(1) step by auto
    qed
  next
    case hit: True
    then obtain i where i: "i < ?n" "?e = int i" "\<not> taken fs ?a i" using first_clear_ok [OF ok fs1(4) le] by auto
    have ip: "i < ?p" using i(1) div_times_less_eq_dividend [of ?p 32] by linarith
    from number [OF this i(2)] have num: "?inode = i + g * ?p + 1" .
    have g1: "g < blockGroupCount fs1" and aa: "inode_bitmap fs1 g = ?a" using g d1(4) d1(12) [OF g] by simp_all
    note area1 = bitmap_areas [OF d1(1) g1, unfolded aa]
    let ?m = "bitmap_set (bitmapBuffer fs1) i"
    obtain fs2 where fs2: "write_bitmap ?a (fs1\<lparr>bitmapBuffer := ?m\<rparr>) = Inr (0, fs2)" "meta_step {?a} fs1 fs2"
      "\<forall>j < 8 * blockSize fs1. taken fs2 ?a j \<longleftrightarrow> (if j = i then (1::u32) \<noteq> 0 else taken fs1 ?a j)"
      using change_bit_ok [OF d1(1) area1(2) fs1(3), of ?m i 1] bitmap_test_set by blast
    note d2 = meta_stepD [OF fs2(2)]
    have g2: "g < blockGroupCount fs2" using g1 d2(4) by simp
    obtain fs3 where fs3: "count_inodes g (- 1) fs2 = Inr fs3" "meta_step {} fs2 fs3" using count_inodes_ok [OF d2(1) g2] by blast
    have "group_word g 4 fs1 = Inr ?a" using group_word_ok [OF d1(1) g1, of 4] aa by simp
    then have "allocate_inode_loop (g # gs) fs = Inr (?inode, fs3)"
      using rb hit d1(7) i(2) fs2(1) fs3(1) by (simp add: Let_def write_inode_bitmap_def)
    moreover have "meta_step {?a} fs fs3" using meta_step_trans [OF meta_step_trans [OF fs1(2) fs2(2)] fs3(2)] by simp
    moreover have "taken fs3 ?a j = taken fs2 ?a j" "taken fs1 ?a j = taken fs ?a j" for j
      using taken_step [OF fs3(2)] taken_step [OF fs1(2)] area(4) d1(9) d2(9) by simp_all
    ultimately have "allocate_inode_loop (g # gs) fs = Inr (?inode, fs3) \<and> inode_allocated fs ?inode g i fs3"
      using num hit g ip i(3) fs2(3) d1(5) by (auto simp: inode_allocated_def)
    then show ?thesis by blast
  qed
qed

section \<open>A small file system\<close>

text \<open>One group on an empty disk of blocks of 1024 bytes: the block bitmap is block 3, the inode bitmap block 4, the inode table
  starts at block 5.\<close>

definition small_sb :: "u8 list" where
  "small_sb = splice 0 (le32 64) (splice 4 (le32 100) (splice 32 (le32 8192) (splice 40 (le32 64) (replicate 1024 0))))"

definition small_groups :: "u8 list" where
  "small_groups = splice 0 (le32 3) (splice 4 (le32 4) (splice 8 (le32 5) (replicate 1024 0)))"

definition small_fs :: ext2 where
  "small_fs = \<lparr>dev = cache_example\<lparr>pm_kalloc := 20, disk := (\<lambda>_. replicate 512 0)\<rparr>, sb = small_sb, groupTable = small_groups, firstSector = 0,
     sectorsPerBlock = 2, blockSize = 1024, blockGroupCount = 1, blockIndexAddress = replicate 3 0,
     blockIndexBuffer = replicate 3 (replicate 256 0), evictBlockBuffer = 0, blockBufferAddress = replicate 10 0,
     blockBufferOwner = replicate 10 0, blockBuffer = replicate 10 (replicate 1024 0), fragmentReadBlock = 0,
     fragmentReadBuffer = replicate 1024 0, bitmapBlock = 0, bitmapBuffer = (\<lambda>_. 0), junk_inode = zero_inode\<rparr>"

lemma small_sb_fields: "length small_sb = 1024" "get32 small_sb 0 = 64" "get32 small_sb 4 = 100" "get32 small_sb 24 = 0"
  "get32 small_sb 32 = 8192" "get32 small_sb 40 = 64"
proof -
  have z: "get32 (replicate 1024 0) i = 0" if "i + 4 \<le> 1024" for i using that by (simp add: get32_def get16_def)
  show "length small_sb = 1024" "get32 small_sb 0 = 64" "get32 small_sb 4 = 100" "get32 small_sb 24 = 0"
    "get32 small_sb 32 = 8192" "get32 small_sb 40 = 64"
    unfolding small_sb_def by (simp_all add: splice_length get32_splice z)
qed

lemma small_groups_fields: "length small_groups = 1024" "get32 small_groups 0 = 3" "get32 small_groups 4 = 4" "get32 small_groups 8 = 5"
proof -
  have z: "get32 (replicate 1024 0) i = 0" if "i + 4 \<le> 1024" for i using that by (simp add: get32_def get16_def)
  show "length small_groups = 1024" "get32 small_groups 0 = 3" "get32 small_groups 4 = 4" "get32 small_groups 8 = 5"
    unfolding small_groups_def by (simp_all add: splice_length get32_splice z)
qed

lemma small_dev: "cache_ready (dev small_fs)" "view (dev small_fs) s = replicate 512 0"
proof -
  have "cache_wf (cache_example\<lparr>pm_kalloc := 20, disk := (\<lambda>_. replicate 512 0)\<rparr>)"
    by (auto simp: cache_wf_def cache_example_def held_def nth_replicate)
  moreover have "free_run (pageMap cache_example) 1026 1" using example_map_free by (simp add: cache_example_def)
  ultimately show "cache_ready (dev small_fs)" by (auto simp: cache_ready_def small_fs_def cache_example_def)
  show "view (dev small_fs) s = replicate 512 0" by (simp add: view_def small_fs_def cache_example_def)
qed

lemma small_fs_ok: "fs_ok small_fs" "first_block_used small_fs" "blockGroupCount small_fs = 1"
proof -
  have acc: "totalBlocks small_fs = 100" "blocksPerBlockGroup small_fs = 8192" "inodesPerBlockGroup small_fs = 64" "sb_blockSize small_fs = 0"
    "group_addr small_fs 0 0 = 3" "group_addr small_fs 0 4 = 4" "table_block small_fs = 2" "table_blocks small_fs = 1"
    by (simp_all add: small_fs_def totalBlocks_def blocksPerBlockGroup_def inodesPerBlockGroup_def sb_blockSize_def group_addr_def small_sb_fields
        small_groups_fields table_block_def table_blocks_def SUPERBLOCK_END_def SUPERBLOCK_START_def SUPERBLOCK_SECTORS_def GROUP_DESCRIPTOR_SIZE_def)
  have f: "firstSector small_fs = 0" "sectorsPerBlock small_fs = 2" "blockSize small_fs = 1024" "blockGroupCount small_fs = 1" "bitmapBlock small_fs = 0"
    "sb small_fs = small_sb" "groupTable small_fs = small_groups" by (simp_all add: small_fs_def)
  have "dev_ok small_fs" using small_dev by (simp add: dev_ok_def acc f SECTOR_SIZE_def)
  moreover have "sizes_ok small_fs" by (simp add: sizes_ok_def acc f small_sb_fields small_groups_fields SUPERBLOCK_SIZE_def table_end_def)
  moreover have "groups_ok small_fs" by (auto simp: groups_ok_def acc f in_data_area_def table_end_def inj_on_def)
  moreover have "bitmap_coherent small_fs" by (simp add: bitmap_coherent_def f)
  ultimately show "fs_ok small_fs" by (simp add: fs_ok_def)
  show "first_block_used small_fs" by (simp add: first_block_used_def block_offset_def acc)
  show "blockGroupCount small_fs = 1" by (rule f)
qed

lemma small_fs_blocks: "blk small_fs a = replicate 1024 0"
proof -
  have "block_sectors small_fs a = [2 * a, Suc (2 * a)]" by (simp add: block_sectors_eq small_fs_def upt_conv_Cons)
  then show ?thesis by (simp add: blk_def small_dev(2) flip: replicate_add)
qed

lemma small_fs_free: "\<not> taken small_fs a i"
proof -
  have "disk_bitmap small_fs a = (\<lambda>_. 0)" using small_fs_blocks by (auto simp: disk_bitmap_def load_bitmap_def small_fs_def get32_def get16_def)
  then show ?thesis by (simp add: taken_def bitmap_test_bit)
qed

lemma small_fs_layout: "block_offset small_fs = 1" "group_addr small_fs 0 0 = 3" "group_addr small_fs 0 4 = 4" "group_addr small_fs 0 8 = 5"
  "blocksPerBlockGroup small_fs = 8192" "inodesPerBlockGroup small_fs = 64" "totalInodes small_fs = 64" "totalBlocks small_fs = 100"
  by (simp_all add: small_fs_def block_offset_def sb_blockSize_def group_addr_def small_sb_fields small_groups_fields blocksPerBlockGroup_def
      inodesPerBlockGroup_def totalInodes_def totalBlocks_def)

lemma small_fs_allocates: "\<exists>b g i fs'. allocate_block 0 small_fs = Inr (b, fs') \<and> allocated small_fs b g i fs'"
proof -
  have h: "0 < blockGroupCount small_fs" using small_fs_ok(3) by simp
  from allocate_block_ok [OF small_fs_ok(1,2) h] show ?thesis
  proof
    assume "\<exists>fs'. allocate_block 0 small_fs = Inr (0, fs') \<and> meta_step {} small_fs fs'
      \<and> (\<forall>g < blockGroupCount small_fs. \<forall>i < blocksPerBlockGroup small_fs div 32 * 32. taken small_fs (block_bitmap small_fs g) i)"
    then have "taken small_fs (block_bitmap small_fs 0) 0" using small_fs_layout(5) small_fs_ok(3) by auto
    then show ?thesis using small_fs_free by blast
  qed
qed

section \<open>Properties\<close>

text \<open>C9. \<open>allocate_block\<close> always returns. It fails only when every bit of every group it looks at is set; otherwise the block
  it returns was free, its bit and no other is set, and no block of the data area but that bitmap changes.\<close>

theorem allocate_block_fresh:
  assumes "fs_ok fs" "first_block_used fs" "hint < blockGroupCount fs"
  shows "(\<exists>fs'. allocate_block hint fs = Inr (0, fs') \<and> fs_ok fs'
      \<and> (\<forall>g < blockGroupCount fs. \<forall>i < blocksPerBlockGroup fs div 32 * 32. taken fs (block_bitmap fs g) i))
    \<or> (\<exists>b g i fs'. allocate_block hint fs = Inr (b, fs') \<and> b = block_offset fs + g * blocksPerBlockGroup fs + i \<and> b \<noteq> 0
        \<and> g < blockGroupCount fs \<and> i < blocksPerBlockGroup fs \<and> fs_ok fs' \<and> \<not> taken fs (block_bitmap fs g) i
        \<and> (\<forall>h < blockGroupCount fs. \<forall>j < 8 * blockSize fs. taken fs' (block_bitmap fs h) j \<longleftrightarrow> taken fs (block_bitmap fs h) j \<or> (h, j) = (g, i))
        \<and> (\<forall>x. in_data_area fs x \<longrightarrow> x \<noteq> block_bitmap fs g \<longrightarrow> blk fs' x = blk fs x))"
  using allocate_block_ok [OF assms]
proof (elim disjE exE conjE)
  fix b g i fs' assume a: "allocate_block hint fs = Inr (b, fs')" "allocated fs b g i fs'"
  have "taken fs' (block_bitmap fs h) j \<longleftrightarrow> taken fs (block_bitmap fs h) j \<or> (h, j) = (g, i)"
    if "h < blockGroupCount fs" "j < 8 * blockSize fs" for h j
    using a(2) that allocated_other [OF assms(1) a(2)] by (cases "h = g") (auto simp: allocated_def)
  moreover have "\<forall>x. in_data_area fs x \<longrightarrow> x \<noteq> block_bitmap fs g \<longrightarrow> blk fs' x = blk fs x"
    using a(2) by (auto simp: allocated_def meta_step_def in_data_area_def)
  moreover have "block_offset fs + g * blocksPerBlockGroup fs + i \<noteq> 0" using a(2) unfolding allocated_def by linarith
  ultimately show ?thesis using a(1) a(2) [unfolded allocated_def meta_step_def]
    by - (rule disjI2, rule exI [of _ b], rule exI [of _ g], rule exI [of _ i], rule exI [of _ fs'], intro conjI, simp_all)
qed (auto simp: meta_step_def)

theorem allocate_block_fresh_witness:
  "\<exists>b i fs'. allocate_block 0 small_fs = Inr (b, fs') \<and> b \<noteq> 0 \<and> b = 1 + i \<and> \<not> taken small_fs 3 i \<and> fs_ok fs'"
proof -
  have h: "0 < blockGroupCount small_fs" using small_fs_ok(3) by simp
  from allocate_block_fresh [OF small_fs_ok(1,2) h] show ?thesis
  proof (elim disjE exE conjE)
    fix fs' assume "\<forall>g < blockGroupCount small_fs. \<forall>i < blocksPerBlockGroup small_fs div 32 * 32. taken small_fs (block_bitmap small_fs g) i"
    then have "taken small_fs (block_bitmap small_fs 0) 0" using small_fs_layout(5) small_fs_ok(3) by auto
    then show ?thesis using small_fs_free by blast
  qed (use small_fs_layout small_fs_ok(3) in auto)
qed

text \<open>C10. Giving back the block that \<open>allocate_block\<close> returned restores every bit of the bitmaps.\<close>

theorem allocate_deallocate_block:
  assumes ok: "fs_ok fs" "first_block_used fs" "hint < blockGroupCount fs" and a: "allocate_block hint fs = Inr (b, fs1)" "b \<noteq> 0"
  shows "\<exists>fs2. deallocate_block b fs1 = Inr (0, fs2) \<and> fs_ok fs2
    \<and> (\<forall>g < blockGroupCount fs. \<forall>j < 8 * blockSize fs. taken fs2 (block_bitmap fs g) j = taken fs (block_bitmap fs g) j)"
proof -
  obtain g i where al: "allocated fs b g i fs1" using allocate_block_ok [OF ok] a by auto
  then have st: "meta_step {block_bitmap fs g} fs fs1" and g: "g < blockGroupCount fs" and i: "i < blocksPerBlockGroup fs"
    and b: "b = block_offset fs + g * blocksPerBlockGroup fs + i" and free: "\<not> taken fs (block_bitmap fs g) i"
    and bits: "\<forall>j < 8 * blockSize fs. taken fs1 (block_bitmap fs g) j \<longleftrightarrow> taken fs (block_bitmap fs g) j \<or> j = i" by (auto simp: allocated_def)
  note d1 = meta_stepD [OF st]
  have g1: "g < blockGroupCount fs1" and i1: "i < blocksPerBlockGroup fs1" using g i d1(4,6) by simp_all
  obtain fs2 where fs2: "deallocate_block b fs1 = Inr (0, fs2)" "meta_step {block_bitmap fs g} fs1 fs2"
    "\<forall>j < 8 * blockSize fs. taken fs2 (block_bitmap fs g) j \<longleftrightarrow> taken fs1 (block_bitmap fs g) j \<and> j \<noteq> i"
    using deallocate_block_ok [OF d1(1) g1 i1] d1(5,6,8) d1(11) [OF g] b by auto
  have "taken fs2 (block_bitmap fs h) j = taken fs (block_bitmap fs h) j" if hj: "h < blockGroupCount fs" "j < 8 * blockSize fs" for h j
  proof (cases "h = g")
    case True
    then show ?thesis using fs2(3) bits free hj(2) by auto
  next
    case False
    have inj: "inj_on (\<lambda>(g, off). group_addr fs g off) ({..<blockGroupCount fs} \<times> {0, 4})" using ok(1) by (simp add: fs_ok_def groups_ok_def)
    have ne: "block_bitmap fs h \<notin> {block_bitmap fs g}" using inj_onD [OF inj, of "(h, 0)" "(g, 0)"] hj(1) g False by auto
    have "table_end fs1 \<le> block_bitmap fs h" using bitmap_areas(3) [OF ok(1) hj(1)] d1(9) by simp
    from taken_step [OF fs2(2) this ne] allocated_other [OF ok(1) al hj(1) False] show ?thesis by simp
  qed
  with fs2(1,2) show ?thesis by (auto simp: meta_step_def)
qed

theorem allocate_deallocate_block_witness:
  "\<exists>b fs1 fs2. allocate_block 0 small_fs = Inr (b, fs1) \<and> b \<noteq> 0 \<and> deallocate_block b fs1 = Inr (0, fs2) \<and> fs_ok fs2"
proof -
  have h: "0 < blockGroupCount small_fs" using small_fs_ok(3) by simp
  obtain b fs1 where b: "allocate_block 0 small_fs = Inr (b, fs1)" "b \<noteq> 0" using small_fs_allocates by (auto simp: allocated_def)
  from allocate_deallocate_block [OF small_fs_ok(1,2) h b] b show ?thesis by blast
qed

end
