(* ===== verification/Ext2_Inode.thy ===== *)
theory Ext2_Inode
  imports Ext2
begin

text \<open>
  \<open>src/drivers/ext2/inode.c\<close>: inodes, their blocks and their contents. An inode that C reaches through a pointer is
  an argument of the operations that change it, and part of their result. The blocks of pointers are lists of words;
  an access outside such a block, the source or the destination of a transfer is \<open>OutOfBounds\<close>.
\<close>

unbundle bit_operations_syntax

section \<open>The inode on the disk\<close>

definition INODE_SIZE :: nat where "INODE_SIZE = 128"

definition inode_bytes :: "ext2_Inode \<Rightarrow> u8 list" where
  "inode_bytes d =
     le16 (typesAndPermissions d) @ le16 (i_uid d) @ le32 (i_size d) @ le32 (unat (i_lastAccess d)) @ le32 (unat (i_creationTime d)) @
     le32 (unat (i_lastModification d)) @ le32 (unat (i_deletionTime d)) @ le16 (i_gid d) @ le16 (i_hardLinks d) @
     le32 (i_countDiskSectors d) @ le32 (i_flags d) @ le32 (i_operatingSystemValue d) @
     concat (map (\<lambda>i. le32 (i_directBlockPointers d ! i)) [0..<12]) @ le32 (i_singlyIndirectBlockPointer d) @
     le32 (i_doublyIndirectBlockPointer d) @ le32 (i_triplyIndirectBlockPointer d) @ le32 (i_generationNumber d) @
     le32 (i_reserved1 d) @ le32 (i_reserved2 d) @ le32 (i_blockAddressOfFragment d) @
     concat (map (\<lambda>i. le32 (i_operatingSystemValue2 d ! i)) [0..<3])"

definition inode_of_bytes :: "u8 list \<Rightarrow> ext2_Inode" where
  "inode_of_bytes b =
     \<lparr>typesAndPermissions = get16 b 0, i_uid = get16 b 2, i_size = get32 b 4, i_lastAccess = of_nat (get32 b 8),
      i_creationTime = of_nat (get32 b 12), i_lastModification = of_nat (get32 b 16), i_deletionTime = of_nat (get32 b 20),
      i_gid = get16 b 24, i_hardLinks = get16 b 26, i_countDiskSectors = get32 b 28, i_flags = get32 b 32,
      i_operatingSystemValue = get32 b 36, i_directBlockPointers = map (\<lambda>i. get32 b (40 + 4 * i)) [0..<12],
      i_singlyIndirectBlockPointer = get32 b 88, i_doublyIndirectBlockPointer = get32 b 92,
      i_triplyIndirectBlockPointer = get32 b 96, i_generationNumber = get32 b 100, i_reserved1 = get32 b 104,
      i_reserved2 = get32 b 108, i_blockAddressOfFragment = get32 b 112,
      i_operatingSystemValue2 = map (\<lambda>i. get32 b (116 + 4 * i)) [0..<3]\<rparr>"

definition upd_data :: "(ext2_Inode \<Rightarrow> ext2_Inode) \<Rightarrow> fs_Inode \<Rightarrow> fs_Inode" where
  "upd_data f inode = inode\<lparr>in_data := f (in_data inode)\<rparr>"

text \<open>What \<open>_time(NULL)\<close> returns.\<close>

definition fs_time :: "ext2 \<Rightarrow> u32" where
  "fs_time fs = of_int (clock (dev fs))"

text \<open>The block of the inode table with inode \<open>number\<close>, and the place of the inode in it.\<close>

definition inode_group :: "nat \<Rightarrow> ext2 \<Rightarrow> nat result" where
  "inode_group number fs =
     (if inodesPerBlockGroup fs = 0 then Inl AssertFail else Inr (number div inodesPerBlockGroup fs))"

definition inode_offset :: "nat \<Rightarrow> ext2 \<Rightarrow> nat" where
  "inode_offset number fs = INODE_SIZE * (nat ((int number - 1) mod 2 ^ 32) mod inodesPerBlockGroup fs)"

definition ext2_write_inode :: "fs_Inode \<Rightarrow> ext2 \<Rightarrow> (int \<times> fs_Inode \<times> ext2) result" where
  "ext2_write_inode inode fs =
     rbind (inode_group (in_number inode) fs) (\<lambda>g.
       let off = inode_offset (in_number inode) fs;
           inode1 = upd_data (\<lambda>d. d\<lparr>i_lastModification := fs_time fs\<rparr>) inode
       in rbind (inodeTableStart g fs) (\<lambda>start.
          rbind (write_block_fragment (start + off div blockSize fs) (off mod blockSize fs) (inode_bytes (in_data inode1)) fs) (\<lambda>(r, fs1).
            Inr (r, inode1, fs1))))"

definition ext2_read_inode :: "nat \<Rightarrow> ext2 \<Rightarrow> (fs_Inode option \<times> ext2) result" where
  "ext2_read_inode number fs =
     (if totalInodes fs < number then Inr (None, fs)
      else rbind (inode_group number fs) (\<lambda>g.
        if g \<ge> blockGroupCount fs then Inr (None, fs)
        else (let off = inode_offset number fs
              in case Option.bind (kalloc_object fs) kalloc_object of
                   None \<Rightarrow> Inl NullDeref
                 | Some fs1 \<Rightarrow>
                     rbind (inodeTableStart g fs1) (\<lambda>start.
                     rbind (read_block_fragment (start + off div blockSize fs1) (off mod blockSize fs1) INODE_SIZE fs1) (\<lambda>(r, fs2).
                       let data = (case r of None \<Rightarrow> junk_inode fs2 | Some b \<Rightarrow> inode_of_bytes b);
                           inode = \<lparr>in_number = number, in_data = data\<lparr>i_lastAccess := fs_time fs2\<rparr>, in_refCount = 0, in_extra = None\<rparr>
                       in rbind (ext2_write_inode inode fs2) (\<lambda>(_, inode1, fs3). Inr (Some inode1, fs3)))))))"

section \<open>Blocks of pointers\<close>

definition words_of :: "u8 list \<Rightarrow> nat list" where
  "words_of b = map (\<lambda>i. get32 b (4 * i)) [0..<length b div 4]"

definition words_bytes :: "nat list \<Rightarrow> u8 list" where
  "words_bytes ws = concat (map le32 ws)"

definition read_block_index :: "nat \<Rightarrow> nat \<Rightarrow> ext2 \<Rightarrow> (int \<times> ext2) result" where
  "read_block_index level block fs =
     (if blockIndexAddress fs ! level \<noteq> block
      then rbind (read_block block (fs\<lparr>blockIndexAddress := (blockIndexAddress fs)[level := block]\<rparr>)) (\<lambda>(r, fs1).
             case r of
               None \<Rightarrow> Inr (- 1, fs1)
             | Some b \<Rightarrow> Inr (0, fs1\<lparr>blockIndexBuffer := (blockIndexBuffer fs1)[level := words_of b]\<rparr>))
      else Inr (0, fs))"

definition write_block_index :: "nat \<Rightarrow> ext2 \<Rightarrow> (int \<times> ext2) result" where
  "write_block_index level fs = write_block (blockIndexAddress fs ! level) (words_bytes (blockIndexBuffer fs ! level)) fs"

definition index_get :: "nat \<Rightarrow> nat \<Rightarrow> ext2 \<Rightarrow> nat result" where
  "index_get level i fs =
     (if i < length (blockIndexBuffer fs ! level) then Inr (blockIndexBuffer fs ! level ! i) else Inl OutOfBounds)"

definition index_put :: "nat \<Rightarrow> nat \<Rightarrow> nat \<Rightarrow> ext2 \<Rightarrow> ext2 result" where
  "index_put level i v fs =
     (if i < length (blockIndexBuffer fs ! level)
      then Inr (fs\<lparr>blockIndexBuffer := (blockIndexBuffer fs)[level := (blockIndexBuffer fs ! level)[i := v]]\<rparr>) else Inl OutOfBounds)"

definition clear_block_index :: "nat \<Rightarrow> nat \<Rightarrow> ext2 \<Rightarrow> ext2 result" where
  "clear_block_index level block fs =
     rbind (read_block_index level block fs) (\<lambda>(_, fs1).
       let fs2 = fs1\<lparr>blockIndexBuffer := (blockIndexBuffer fs1)[level := replicate (blockSize fs1 div 4) 0]\<rparr>
       in rbind (write_block_index level fs2) (\<lambda>(_, fs3). Inr fs3))"

definition pointersPerBlock :: "ext2 \<Rightarrow> nat" where
  "pointersPerBlock fs = blockSize fs div 4"

text \<open>One step down the tree: the entry \<open>i\<close> of the block \<open>block\<close>, which is read at \<open>level\<close>.\<close>

definition index_entry :: "nat \<Rightarrow> nat \<Rightarrow> nat \<Rightarrow> ext2 \<Rightarrow> (nat \<times> ext2) result" where
  "index_entry level block i fs =
     rbind (read_block_index level block fs) (\<lambda>(_, fs1). rbind (index_get level i fs1) (\<lambda>v. Inr (v, fs1)))"

definition block_index_to_block :: "ext2_Inode \<Rightarrow> nat \<Rightarrow> ext2 \<Rightarrow> (nat \<times> ext2) result" where
  "block_index_to_block inode blockIndex fs =
     (let p = pointersPerBlock fs
      in if blockIndex < 12 then Inr (i_directBlockPointers inode ! blockIndex, fs)
         else if blockIndex - 12 < p
         then (if i_singlyIndirectBlockPointer inode = 0 then Inr (0, fs)
               else index_entry 0 (i_singlyIndirectBlockPointer inode) (blockIndex - 12) fs)
         else if blockIndex - 12 - p < p * p
         then (let offsetInLevel = blockIndex - 12 - p
               in if i_doublyIndirectBlockPointer inode = 0 then Inr (0, fs)
                  else rbind (index_entry 0 (i_doublyIndirectBlockPointer inode) (offsetInLevel div p) fs) (\<lambda>(b, fs1).
                    if b = 0 then Inr (0, fs1) else index_entry 1 b (offsetInLevel mod p) fs1))
         else (let offsetInLevel = blockIndex - 12 - p - p * p
               in if i_triplyIndirectBlockPointer inode = 0 then Inr (0, fs)
                  else rbind (index_entry 0 (i_triplyIndirectBlockPointer inode) (offsetInLevel div (p * p)) fs) (\<lambda>(b, fs1).
                    if b = 0 then Inr (0, fs1)
                    else rbind (index_entry 1 b ((offsetInLevel div p) mod p) fs1) (\<lambda>(b', fs2).
                      if b' = 0 then Inr (0, fs2) else index_entry 2 b' (offsetInLevel mod p) fs2))))"

text \<open>A root of the tree, the field of the inode read by \<open>get\<close> and written by \<open>put\<close>; \<open>False\<close> when no block is left.\<close>

definition add_sectors :: "ext2 \<Rightarrow> fs_Inode \<Rightarrow> fs_Inode" where
  "add_sectors fs = upd_data (\<lambda>d. d\<lparr>i_countDiskSectors := (i_countDiskSectors d + sectorsPerBlock fs) mod 2 ^ 32\<rparr>)"

definition ensure_root :: "(ext2_Inode \<Rightarrow> nat) \<Rightarrow> (nat \<Rightarrow> ext2_Inode \<Rightarrow> ext2_Inode) \<Rightarrow> nat \<Rightarrow> nat \<Rightarrow> fs_Inode \<Rightarrow> ext2 \<Rightarrow>
    (bool \<times> fs_Inode \<times> ext2) result" where
  "ensure_root get put g newBlock inode fs =
     (if get (in_data inode) \<noteq> 0 then Inr (True, inode, fs)
      else rbind (allocate_block g fs) (\<lambda>(b, fs1).
        let inode1 = upd_data (put b) inode
        in if b = 0 then rbind (deallocate_block newBlock fs1) (\<lambda>(_, fs2). Inr (False, inode1, fs2))
           else Inr (True, add_sectors fs1 inode1, fs1)))"

text \<open>An inner entry of the tree: a new block of pointers is cleared on the disk.\<close>

definition ensure_entry :: "nat \<Rightarrow> nat \<Rightarrow> nat \<Rightarrow> nat \<Rightarrow> fs_Inode \<Rightarrow> ext2 \<Rightarrow> (bool \<times> fs_Inode \<times> ext2) result" where
  "ensure_entry level i g newBlock inode fs =
     rbind (index_get level i fs) (\<lambda>v.
       if v \<noteq> 0 then Inr (True, inode, fs)
       else rbind (allocate_block g fs) (\<lambda>(b, fs1).
            rbind (index_put level i b fs1) (\<lambda>fs2.
              if b = 0 then rbind (deallocate_block newBlock fs2) (\<lambda>(_, fs3). Inr (False, inode, fs3))
              else rbind (write_block_index level fs2) (\<lambda>(_, fs3).
                   rbind (index_get level i fs3) (\<lambda>c.
                   rbind (clear_block_index (Suc level) c fs3) (\<lambda>fs4. Inr (True, add_sectors fs4 inode, fs4)))))))"

text \<open>The last step: the entry for the data block itself.\<close>

definition put_entry :: "nat \<Rightarrow> nat \<Rightarrow> nat \<Rightarrow> nat \<Rightarrow> ext2 \<Rightarrow> ext2 result" where
  "put_entry level block i v fs =
     rbind (read_block_index level block fs) (\<lambda>(_, fs1).
     rbind (index_put level i v fs1) (\<lambda>fs2.
     rbind (write_block_index level fs2) (\<lambda>(_, fs3). Inr fs3)))"

definition put_single :: "nat \<Rightarrow> nat \<Rightarrow> nat \<Rightarrow> fs_Inode \<Rightarrow> ext2 \<Rightarrow> (nat \<times> fs_Inode \<times> ext2) result" where
  "put_single g newBlock i inode fs =
     rbind (ensure_root i_singlyIndirectBlockPointer (\<lambda>b d. d\<lparr>i_singlyIndirectBlockPointer := b\<rparr>) g newBlock inode fs) (\<lambda>(ok, inode1, fs1).
       if \<not> ok then Inr (0, inode1, fs1)
       else rbind (put_entry 0 (i_singlyIndirectBlockPointer (in_data inode1)) i newBlock fs1) (\<lambda>fs2. Inr (newBlock, inode1, fs2)))"

definition put_double :: "nat \<Rightarrow> nat \<Rightarrow> nat \<Rightarrow> fs_Inode \<Rightarrow> ext2 \<Rightarrow> (nat \<times> fs_Inode \<times> ext2) result" where
  "put_double g newBlock offsetInLevel inode fs =
     (let p = pointersPerBlock fs; i = offsetInLevel div p; j = offsetInLevel mod p
      in rbind (ensure_root i_doublyIndirectBlockPointer (\<lambda>b d. d\<lparr>i_doublyIndirectBlockPointer := b\<rparr>) g newBlock inode fs) (\<lambda>(ok, inode1, fs1).
           if \<not> ok then Inr (0, inode1, fs1)
           else rbind (read_block_index 0 (i_doublyIndirectBlockPointer (in_data inode1)) fs1) (\<lambda>(_, fs2).
                rbind (ensure_entry 0 i g newBlock inode1 fs2) (\<lambda>(ok1, inode2, fs3).
                  if \<not> ok1 then Inr (0, inode2, fs3)
                  else rbind (index_get 0 i fs3) (\<lambda>b.
                       rbind (put_entry 1 b j newBlock fs3) (\<lambda>fs4. Inr (newBlock, inode2, fs4)))))))"

definition put_triple :: "nat \<Rightarrow> nat \<Rightarrow> nat \<Rightarrow> fs_Inode \<Rightarrow> ext2 \<Rightarrow> (nat \<times> fs_Inode \<times> ext2) result" where
  "put_triple g newBlock offsetInLevel inode fs =
     (let p = pointersPerBlock fs; i = offsetInLevel div (p * p); j = (offsetInLevel div p) mod p; k = offsetInLevel mod p
      in rbind (ensure_root i_triplyIndirectBlockPointer (\<lambda>b d. d\<lparr>i_triplyIndirectBlockPointer := b\<rparr>) g newBlock inode fs) (\<lambda>(ok, inode1, fs1).
           if \<not> ok then Inr (0, inode1, fs1)
           else rbind (read_block_index 0 (i_triplyIndirectBlockPointer (in_data inode1)) fs1) (\<lambda>(_, fs2).
                rbind (ensure_entry 0 i g newBlock inode1 fs2) (\<lambda>(ok1, inode2, fs3).
                  if \<not> ok1 then Inr (0, inode2, fs3)
                  else rbind (index_get 0 i fs3) (\<lambda>b.
                       rbind (read_block_index 1 b fs3) (\<lambda>(_, fs4).
                       rbind (ensure_entry 1 j g newBlock inode2 fs4) (\<lambda>(ok2, inode3, fs5).
                         if \<not> ok2 then Inr (0, inode3, fs5)
                         else rbind (index_get 1 j fs5) (\<lambda>b'.
                              rbind (put_entry 2 b' k newBlock fs5) (\<lambda>fs6. Inr (newBlock, inode3, fs6))))))))))"

definition allocate_data_block :: "fs_Inode \<Rightarrow> nat \<Rightarrow> ext2 \<Rightarrow> (nat \<times> fs_Inode \<times> ext2) result" where
  "allocate_data_block inode blockIndex fs =
     (let p = pointersPerBlock fs
      in rbind (inode_group (in_number inode) fs) (\<lambda>g.
         rbind (allocate_block g fs) (\<lambda>(newBlock, fs1).
           if newBlock = 0 then Inr (0, inode, fs1)
           else rbind (if blockIndex < 12
                       then Inr (newBlock, upd_data (\<lambda>d. d\<lparr>i_directBlockPointers := (i_directBlockPointers d)[blockIndex := newBlock]\<rparr>) inode, fs1)
                       else if blockIndex < 12 + p then put_single g newBlock (blockIndex - 12) inode fs1
                       else if blockIndex < 12 + p + p * p then put_double g newBlock (blockIndex - 12 - p) inode fs1
                       else put_triple g newBlock (blockIndex - 12 - p - p * p) inode fs1) (\<lambda>(r, inode1, fs2).
                  if r = 0 then Inr (0, inode1, fs2) else Inr (r, add_sectors fs2 inode1, fs2)))))"


section \<open>Contents\<close>

definition first_index :: "('a \<Rightarrow> bool) \<Rightarrow> 'a list \<Rightarrow> nat" where
  "first_index P xs = length (takeWhile (\<lambda>x. \<not> P x) xs)"

text \<open>The buffer for inode \<open>number\<close>: one it owns, one without owner, or the next in turn.\<close>

definition choose_buffer :: "nat \<Rightarrow> ext2 \<Rightarrow> nat \<times> ext2" where
  "choose_buffer number fs =
     (let own = first_index (\<lambda>o'. o' = number) (blockBufferOwner fs)
      in if own < BLOCK_BUFFER_COUNT then (own, fs)
         else (let none = first_index (\<lambda>o'. o' = 0) (blockBufferOwner fs);
                   fs1 = (if none < BLOCK_BUFFER_COUNT then fs
                          else fs\<lparr>evictBlockBuffer := (evictBlockBuffer fs + 1) mod BLOCK_BUFFER_COUNT\<rparr>);
                   i = (if none < BLOCK_BUFFER_COUNT then none else evictBlockBuffer fs1)
               in (i, fs1\<lparr>blockBufferOwner := (blockBufferOwner fs1)[i := number],
                          blockBufferAddress := (blockBufferAddress fs1)[i := 0]\<rparr>)))"

definition load_buffer :: "fs_Inode \<Rightarrow> nat \<Rightarrow> ext2 \<Rightarrow> (nat option \<times> ext2) result" where
  "load_buffer inode block fs =
     (case choose_buffer (in_number inode) fs of
        (i, fs1) \<Rightarrow>
          if blockBufferAddress fs1 ! i \<noteq> block
          then rbind (read_block block (fs1\<lparr>blockBufferAddress := (blockBufferAddress fs1)[i := block]\<rparr>)) (\<lambda>(r, fs2).
                 case r of
                   None \<Rightarrow> Inr (None, fs2)
                 | Some b \<Rightarrow> Inr (Some i, fs2\<lparr>blockBuffer := (blockBuffer fs2)[i := b]\<rparr>))
          else Inr (Some i, fs1))"

definition read_inode_block :: "fs_Inode \<Rightarrow> nat \<Rightarrow> nat \<Rightarrow> nat \<Rightarrow> ext2 \<Rightarrow> (u8 list option \<times> ext2) result" where
  "read_inode_block inode blockIndex offset len fs =
     rbind (block_index_to_block (in_data inode) blockIndex fs) (\<lambda>(block, fs1).
     rbind (load_buffer inode block fs1) (\<lambda>(r, fs2).
       Inr (map_option (\<lambda>i. take len (drop offset (blockBuffer fs2 ! i))) r, fs2)))"

text \<open>A store of bytes, when there are any, into the destination of a read.\<close>

definition put_bytes :: "nat \<Rightarrow> u8 list option \<Rightarrow> u8 list \<Rightarrow> u8 list result" where
  "put_bytes pos r buf =
     (case r of
        None \<Rightarrow> Inr buf
      | Some xs \<Rightarrow> if xs = [] then Inr buf else if pos + length xs \<le> length buf then Inr (splice pos xs buf) else Inl OutOfBounds)"

text \<open>The loop over the blocks of a read; \<open>pos\<close> is where \<open>buf\<close> points to in the destination.\<close>

primrec read_loop :: "nat list \<Rightarrow> fs_Inode \<Rightarrow> nat \<Rightarrow> nat \<Rightarrow> nat \<Rightarrow> u8 list \<Rightarrow> ext2 \<Rightarrow> (u8 list \<times> ext2) result" where
  "read_loop [] inode offset sz pos buffer fs = Inr (buffer, fs)"
| "read_loop (block # blocks) inode offset sz pos buffer fs =
     (let bs = blockSize fs
      in if block = offset div bs
         then (let offsetInBlock = offset mod bs; partSize = bs - offsetInBlock
               in rbind (read_inode_block inode block offsetInBlock (if sz < partSize then sz else partSize) fs) (\<lambda>(r, fs1).
                  rbind (put_bytes pos r buffer) (\<lambda>buffer1.
                    read_loop blocks inode offset sz (pos + (bs - offsetInBlock)) buffer1 fs1)))
         else if block = (offset + sz) mod 2 ^ 32 div bs
         then rbind (read_inode_block inode block 0 ((offset + sz) mod 2 ^ 32 mod bs) fs) (\<lambda>(r, fs1).
              rbind (put_bytes pos r buffer) (\<lambda>buffer1. read_loop blocks inode offset sz pos buffer1 fs1))
         else rbind (read_inode_block inode block 0 bs fs) (\<lambda>(r, fs1).
              rbind (put_bytes 0 r buffer) (\<lambda>buffer1. read_loop blocks inode offset sz (pos + bs) buffer1 fs1)))"

definition ext2_read_inode_content :: "fs_Inode \<Rightarrow> nat \<Rightarrow> nat \<Rightarrow> u8 list \<Rightarrow> ext2 \<Rightarrow> (int \<times> u8 list \<times> ext2) result" where
  "ext2_read_inode_content inode offset size0 buffer fs =
     (let isz = i_size (in_data inode)
      in if offset \<ge> isz then Inr (- 1, buffer, fs)
         else (let sz = (if (offset + size0) mod 2 ^ 32 > isz then isz - offset else size0);
                   bs = blockSize fs
               in rbind (read_loop [offset div bs..<Suc ((offset + sz) mod 2 ^ 32 div bs)] inode offset sz 0 buffer fs) (\<lambda>(buffer1, fs1).
                    Inr (int sz, buffer1, fs1))))"

text \<open>The block with index \<open>blockIndex\<close>, which is allocated when there is none; \<open>0\<close> when no block is left.\<close>

definition block_for :: "fs_Inode \<Rightarrow> nat \<Rightarrow> ext2 \<Rightarrow> (nat \<times> fs_Inode \<times> ext2) result" where
  "block_for inode blockIndex fs =
     rbind (block_index_to_block (in_data inode) blockIndex fs) (\<lambda>(block, fs1).
       if block = 0 then allocate_data_block inode blockIndex fs1 else Inr (block, inode, fs1))"

fun fill_loop :: "nat list \<Rightarrow> fs_Inode \<Rightarrow> ext2 \<Rightarrow> (fs_Inode \<times> ext2) result" where
  "fill_loop [] inode fs = Inr (inode, fs)"
| "fill_loop (i # is) inode fs =
     rbind (block_for inode i fs) (\<lambda>(block, inode1, fs1). if block = 0 then Inr (inode1, fs1) else fill_loop is inode1 fs1)"

text \<open>The part of a block is modified in its buffer, which is then written.\<close>

definition write_part_block :: "fs_Inode \<Rightarrow> nat \<Rightarrow> nat \<Rightarrow> u8 list \<Rightarrow> ext2 \<Rightarrow> (bool \<times> ext2) result" where
  "write_part_block inode block startInBlock data fs =
     rbind (load_buffer inode block fs) (\<lambda>(r, fs1).
       case r of
         None \<Rightarrow> Inr (False, fs1)
       | Some i \<Rightarrow>
           (let fs2 = fs1\<lparr>blockBuffer := (blockBuffer fs1)[i := splice startInBlock data (blockBuffer fs1 ! i)]\<rparr>
            in rbind (write_block block (blockBuffer fs2 ! i) fs2) (\<lambda>(_, fs3). Inr (True, fs3))))"

text \<open>The loop over the blocks of a write: \<open>from\<close> is the position in the source, the first result \<open>remainingBytes\<close>.\<close>

primrec write_loop :: "nat list \<Rightarrow> nat \<Rightarrow> u8 list \<Rightarrow> nat \<Rightarrow> nat \<Rightarrow> fs_Inode \<Rightarrow> ext2 \<Rightarrow> (nat \<times> fs_Inode \<times> ext2) result" where
  "write_loop [] offset src remaining from' inode fs = Inr (remaining, inode, fs)"
| "write_loop (blockIndex # is) offset src remaining from' inode fs =
     (let bs = blockSize fs; blockOffset = blockIndex * bs;
          startInBlock = (if offset < blockOffset then 0 else offset - blockOffset)
      in rbind (block_for inode blockIndex fs) (\<lambda>(block, inode1, fs1).
           if block = 0 then Inr (remaining, inode1, fs1)
           else if startInBlock > 0 \<or> remaining < bs
           then (let end' = (if startInBlock + remaining < bs then remaining + startInBlock else bs);
                     n = end' - startInBlock
                 in if from' + n \<le> length src
                    then rbind (write_part_block inode1 block startInBlock (take n (drop from' src)) fs1) (\<lambda>(ok, fs2).
                           if \<not> ok then Inr (remaining, inode1, fs2)
                           else write_loop is offset src (remaining - n) (from' + n) inode1 fs2)
                    else Inl OutOfBounds)
           else if from' + bs \<le> length src
           then (let fs2 = fs1\<lparr>blockBufferAddress := map (\<lambda>a. if a = block then 0 else a) (blockBufferAddress fs1)\<rparr>
                 in rbind (write_block block (take bs (drop from' src)) fs2) (\<lambda>(_, fs3).
                      write_loop is offset src remaining (from' + bs) inode1 fs3))
           else Inl OutOfBounds))"

definition ext2_write_inode_content :: "fs_Inode \<Rightarrow> nat \<Rightarrow> nat \<Rightarrow> u8 list \<Rightarrow> ext2 \<Rightarrow> (nat \<times> fs_Inode \<times> ext2) result" where
  "ext2_write_inode_content inode offset sz buffer fs =
     (let bs = blockSize fs; first = offset div bs; end' = (offset + sz) mod 2 ^ 32 div bs
      in rbind (fill_loop [i_size (in_data inode) div bs..<first] inode fs) (\<lambda>(inode1, fs1).
         rbind (write_loop [first..<Suc end'] offset buffer sz 0 inode1 fs1) (\<lambda>(remaining, inode2, fs2).
           let written = sz - remaining;
               inode3 = upd_data (\<lambda>d. if (offset + written) mod 2 ^ 32 > i_size d then d\<lparr>i_size := (offset + written) mod 2 ^ 32\<rparr> else d) inode2
           in rbind (ext2_write_inode inode3 fs2) (\<lambda>(_, inode4, fs3).
              rbind (ext2_superblock_write (put_sb 48 (unat (i_lastModification (in_data inode4))) fs3)) (\<lambda>(_, fs4).
                Inr (written, inode4, fs4))))))"

section \<open>Creation and deletion\<close>

definition ext2_create_inode :: "nat \<Rightarrow> nat \<Rightarrow> nat \<Rightarrow> nat \<Rightarrow> ext2 \<Rightarrow> (fs_Inode option \<times> ext2) result" where
  "ext2_create_inode type perms uid gid fs =
     rbind (allocate_inode fs) (\<lambda>(number, fs1).
       if number = 0 then Inr (None, fs1)
       else rbind (ext2_read_inode number fs1) (\<lambda>(r, fs2).
         case r of
           None \<Rightarrow> Inr (None, fs2)
         | Some inode \<Rightarrow>
             (let t = fs_time fs2;
                  inode1 = upd_data (\<lambda>d. d\<lparr>i_directBlockPointers := replicate 12 0, i_singlyIndirectBlockPointer := 0,
                    i_doublyIndirectBlockPointer := 0, i_triplyIndirectBlockPointer := 0, i_countDiskSectors := 0, i_size := 0,
                    i_hardLinks := 0, i_lastAccess := t, i_creationTime := t, i_lastModification := t, i_deletionTime := 0,
                    i_uid := uid mod 2 ^ 16, i_gid := gid mod 2 ^ 16,
                    typesAndPermissions := (push_bit 12 type OR (perms AND 0xFFF)) mod 2 ^ 16\<rparr>) inode
              in rbind (ext2_write_inode inode1 fs2) (\<lambda>(_, inode2, fs3). Inr (Some inode2, fs3)))))"

text \<open>The blocks up to the first empty entry; \<open>entry\<close> reads the table, which the loop does not change.\<close>

fun free_blocks :: "(nat \<Rightarrow> ext2 \<Rightarrow> nat result) \<Rightarrow> nat list \<Rightarrow> ext2 \<Rightarrow> (int \<times> ext2) result" where
  "free_blocks entry [] fs = Inr (0, fs)"
| "free_blocks entry (i # is) fs =
     rbind (entry i fs) (\<lambda>b.
       if b \<noteq> 0 then rbind (deallocate_block b fs) (\<lambda>(_, fs1). free_blocks entry is fs1) else Inr (0, fs))"

fun free_children :: "(nat \<Rightarrow> ext2 \<Rightarrow> (int \<times> ext2) result) \<Rightarrow> nat \<Rightarrow> nat list \<Rightarrow> ext2 \<Rightarrow> ext2 result" where
  "free_children f level [] fs = Inr fs"
| "free_children f level (i # is) fs =
     rbind (index_get level i fs) (\<lambda>b.
       if b \<noteq> 0 then rbind (f b fs) (\<lambda>(_, fs1). free_children f level is fs1) else Inr fs)"

definition free_table :: "nat \<Rightarrow> nat \<Rightarrow> ext2 \<Rightarrow> (int \<times> ext2) result" where
  "free_table level indexBlock fs =
     rbind (free_blocks (index_get level) [0..<blockSize fs div 4] fs) (\<lambda>(r, fs1).
       if r = - 1 then Inr (- 1, fs1) else deallocate_block indexBlock fs1)"

text \<open>\<open>depth\<close> is \<open>maxLevel - level - 1\<close>.\<close>

primrec free_index_at :: "nat \<Rightarrow> nat \<Rightarrow> nat \<Rightarrow> ext2 \<Rightarrow> (int \<times> ext2) result" where
  "free_index_at 0 level indexBlock fs =
     (if indexBlock = 0 then Inr (0, fs)
      else rbind (read_block_index level indexBlock fs) (\<lambda>(r, fs1).
        if r = - 1 then Inr (- 1, fs1) else free_table level indexBlock fs1))"
| "free_index_at (Suc depth) level indexBlock fs =
     (if indexBlock = 0 then Inr (0, fs)
      else rbind (read_block_index level indexBlock fs) (\<lambda>(r, fs1).
        if r = - 1 then Inr (- 1, fs1)
        else rbind (free_children (free_index_at depth (Suc level)) level [0..<blockSize fs1 div 4] fs1) (\<lambda>fs2.
               free_table level indexBlock fs2)))"

definition free_index :: "nat \<Rightarrow> nat \<Rightarrow> nat \<Rightarrow> ext2 \<Rightarrow> (int \<times> ext2) result" where
  "free_index indexBlock level maxLevel fs = free_index_at (maxLevel - level - 1) level indexBlock fs"

definition ext2_delete_inode :: "fs_Inode \<Rightarrow> ext2 \<Rightarrow> (int \<times> fs_Inode \<times> ext2) result" where
  "ext2_delete_inode inode0 fs =
     (let inode1 = upd_data (\<lambda>d. d\<lparr>i_deletionTime := fs_time fs\<rparr>) inode0
      in rbind (ext2_write_inode inode1 fs) (\<lambda>(_, inode, fs1).
         rbind (if INODE_TYPE (in_data inode) = INODE_DIR
                then rbind (inode_group (in_number inode) fs1) (\<lambda>g.
                     rbind (add_group_half g group_directoryCount (- 1) fs1) (\<lambda>fs2.
                     rbind (ext2_write_blockgroup_table fs2) (\<lambda>(_, fs3). Inr fs3)))
                else Inr fs1) (\<lambda>fs4.
         rbind (free_blocks (\<lambda>i fs. Inr (i_directBlockPointers (in_data inode) ! i)) [0..<12] fs4) (\<lambda>(_, fs5).
         rbind (free_index (i_singlyIndirectBlockPointer (in_data inode)) 0 1 fs5) (\<lambda>(_, fs6).
         rbind (free_index (i_doublyIndirectBlockPointer (in_data inode)) 0 2 fs6) (\<lambda>(_, fs7).
         rbind (free_index (i_triplyIndirectBlockPointer (in_data inode)) 0 3 fs7) (\<lambda>(_, fs8).
         rbind (deallocate_inode (in_number inode) fs8) (\<lambda>(r, fs9). Inr (r, inode, fs9)))))))))"

end
