(* ===== verification/Ext2_Table.thy ===== *)
theory Ext2_Table
  imports Ext2_Allocator Ext2_Inode
begin

text \<open>
  The encoding of inodes, access to parts of blocks, and the inode tables of the groups as one store of inodes, which
  \<open>ext2_write_inode\<close> and \<open>ext2_read_inode\<close> change at one number only.
\<close>

section \<open>The encoding of inodes\<close>

lemma get_skip:
  assumes "length xs \<le> i"
  shows "get16 (xs @ ys) i = get16 ys (i - length xs)" "get32 (xs @ ys) i = get32 ys (i - length xs)"
  using assms by (auto intro!: get_cong simp: nth_append)

lemma get_here:
  "get16 (le16 v @ ys) 0 = v mod 2 ^ 16" "get32 (le32 v @ ys) 0 = v mod 2 ^ 32"
  using get16_append [of "[]" v ys] get32_append [of "[]" v ys] by simp_all

lemma get32_last: "get32 (le32 v) 0 = v mod 2 ^ 32"
  using get32_append [of "[]" v "[]"] by simp

lemma get32_words_append:
  "i < n \<Longrightarrow> get32 (concat (map (\<lambda>i. le32 (f i)) [0..<n]) @ ys) (4 * i) = f i mod 2 ^ 32"
proof -
  assume i: "i < n"
  have l: "length (concat (map (\<lambda>i. le32 (f i)) [0..<i])) = 4 * i" by (subst concat_const [of _ 4]) auto
  show ?thesis unfolding concat_le32_split(1) [OF i] append_assoc l [symmetric] by (rule get32_append)
qed

lemma words_length [simp]: "length (concat (map (\<lambda>i. le32 (f i)) [0..<n])) = 4 * n"
  by (subst concat_const [of _ 4]) auto

definition inode_in_range :: "ext2_Inode \<Rightarrow> bool" where
  "inode_in_range d \<longleftrightarrow> typesAndPermissions d < 2 ^ 16 \<and> i_uid d < 2 ^ 16 \<and> i_gid d < 2 ^ 16 \<and> i_hardLinks d < 2 ^ 16
     \<and> (\<forall>v \<in> {i_size d, i_countDiskSectors d, i_flags d, i_operatingSystemValue d, i_singlyIndirectBlockPointer d,
          i_doublyIndirectBlockPointer d, i_triplyIndirectBlockPointer d, i_generationNumber d, i_reserved1 d, i_reserved2 d,
          i_blockAddressOfFragment d}. v < 2 ^ 32)
     \<and> length (i_directBlockPointers d) = 12 \<and> length (i_operatingSystemValue2 d) = 3
     \<and> (\<forall>v \<in> set (i_directBlockPointers d) \<union> set (i_operatingSystemValue2 d). v < 2 ^ 32)"

lemma inode_bytes_length [simp]: "length (inode_bytes d) = INODE_SIZE"
  by (simp add: inode_bytes_def INODE_SIZE_def del: upt_Suc upt_rec_numeral)

lemma inode_encoding:
  assumes "inode_in_range d"
  shows "inode_of_bytes (inode_bytes d) = d"
proof -
  note get = get_skip get_here get32_last
  note r = assms [unfolded inode_in_range_def]
  have w: "of_nat (unat (x::u32) mod 2 ^ 32) = x" for x :: u32
  proof -
    have "unat x < 2 ^ 32" using unsigned_less [of x] by simp
    then show ?thesis by simp
  qed
  have h: "get16 (inode_bytes d) 0 = typesAndPermissions d" "get16 (inode_bytes d) 2 = i_uid d" "get16 (inode_bytes d) 24 = i_gid d"
    "get16 (inode_bytes d) 26 = i_hardLinks d"
    using r unfolding inode_bytes_def by (simp_all add: get del: upt_rec_numeral)
  have t: "of_nat (get32 (inode_bytes d) 8) = i_lastAccess d" "of_nat (get32 (inode_bytes d) 12) = i_creationTime d"
    "of_nat (get32 (inode_bytes d) 16) = i_lastModification d" "of_nat (get32 (inode_bytes d) 20) = i_deletionTime d"
    unfolding inode_bytes_def by (simp_all add: get w [simplified] del: upt_rec_numeral)
  have f: "get32 (inode_bytes d) 4 = i_size d" "get32 (inode_bytes d) 28 = i_countDiskSectors d" "get32 (inode_bytes d) 32 = i_flags d"
    "get32 (inode_bytes d) 36 = i_operatingSystemValue d" "get32 (inode_bytes d) 88 = i_singlyIndirectBlockPointer d"
    "get32 (inode_bytes d) 92 = i_doublyIndirectBlockPointer d" "get32 (inode_bytes d) 96 = i_triplyIndirectBlockPointer d"
    "get32 (inode_bytes d) 100 = i_generationNumber d" "get32 (inode_bytes d) 104 = i_reserved1 d" "get32 (inode_bytes d) 108 = i_reserved2 d"
    "get32 (inode_bytes d) 112 = i_blockAddressOfFragment d"
    using r unfolding inode_bytes_def by (simp_all add: get del: upt_rec_numeral)
  have "get32 (inode_bytes d) (40 + 4 * i) = i_directBlockPointers d ! i" if i: "i < 12" for i
    using r i unfolding inode_bytes_def by (simp add: get_skip get32_words_append del: upt_rec_numeral)
  then have p: "map (\<lambda>i. get32 (inode_bytes d) (40 + 4 * i)) [0..<12] = i_directBlockPointers d"
    using r by (intro nth_equalityI) simp_all
  have "get32 (inode_bytes d) (116 + 4 * i) = i_operatingSystemValue2 d ! i" if i: "i < 3" for i
    using r i get32_words_append [OF i, of "\<lambda>i. i_operatingSystemValue2 d ! i" "[]"] unfolding inode_bytes_def
    by (simp add: get_skip del: upt_rec_numeral)
  then have q: "map (\<lambda>i. get32 (inode_bytes d) (116 + 4 * i)) [0..<3] = i_operatingSystemValue2 d"
    using r by (intro nth_equalityI) simp_all
  show ?thesis unfolding inode_of_bytes_def h t f p q by simp
qed

section \<open>Fragments of blocks\<close>

definition fragment_ok :: "ext2 \<Rightarrow> bool" where
  "fragment_ok fs \<longleftrightarrow> fragmentReadBlock fs = 0 \<or> fragmentReadBuffer fs = blk fs (fragmentReadBlock fs)"

abbreviation with_fragment :: "nat \<Rightarrow> u8 list \<Rightarrow> cache_state \<Rightarrow> ext2 \<Rightarrow> ext2" where
  "with_fragment b buf d fs \<equiv> fs\<lparr>dev := d, fragmentReadBlock := b, fragmentReadBuffer := buf\<rparr>"

lemma blk_cong: "view (dev fs') = view (dev fs) \<Longrightarrow> same_geometry fs fs' \<Longrightarrow> blk fs' = blk fs"
  by (intro ext) (simp add: blk_def block_sectors_def same_geometry_def)

lemma fragment_geometry: "same_geometry fs (with_fragment b buf d fs)"
  by (simp add: same_geometry_def totalBlocks_def totalInodes_def sb_blockSize_def blocksPerBlockGroup_def inodesPerBlockGroup_def group_addr_def)

lemma load_fragment_ok:
  assumes ok: "fs_ok fs" "fragment_ok fs" and b: "in_data_area fs b"
  shows "\<exists>d. load_fragment b fs = Inr (0, with_fragment b (blk fs b) d fs) \<and> cache_ready d \<and> view d = view (dev fs)"
proof (cases "fragmentReadBlock fs = b")
  case True
  have "b \<noteq> 0" using b table_end_pos [of fs] by (auto simp: in_data_area_def)
  then have "fs = with_fragment b (blk fs b) (dev fs) fs" using True ok(2) by (cases fs) (simp add: fragment_ok_def)
  moreover have "load_fragment b fs = Inr (0, fs)" using True by (simp add: load_fragment_def)
  moreover have "cache_ready (dev fs)" using ok(1) by (simp add: fs_ok_def dev_ok_def)
  ultimately show ?thesis by (intro exI [of _ "dev fs"]) simp
next
  case False
  let ?fs1 = "fs\<lparr>fragmentReadBlock := b\<rparr>"
  have "dev_ok ?fs1" "b \<le> totalBlocks ?fs1" using ok(1) b by (simp_all add: fs_ok_def dev_ok_def totalBlocks_def in_data_area_def)
  from read_block_ok [OF this] obtain d where d: "read_block b ?fs1 = Inr (Some (blk ?fs1 b), ?fs1\<lparr>dev := d\<rparr>)" "cache_ready d" "view d = view (dev fs)"
    by auto
  have "blk ?fs1 b = blk fs b" by (simp add: blk_def block_sectors_def)
  then show ?thesis using d False by (intro exI [of _ d]) (simp add: load_fragment_def)
qed

lemma fragment_fs_ok:
  assumes ok: "fs_ok fs" and d: "dev_ok (with_fragment b buf d fs)" and w: "blk (with_fragment b buf d fs) = (blk fs)(b := buf)"
    and nb: "\<not> is_bitmap fs b \<or> buf = blk fs b"
  shows "fs_ok (with_fragment b buf d fs)" "fragment_ok (with_fragment b buf d fs)"
proof -
  let ?fs' = "with_fragment b buf d fs"
  note g = geometry_accessors [OF fragment_geometry [of fs buf b d]]
  have "bitmap_coherent ?fs'" using ok nb unfolding bitmap_coherent_def fs_ok_def disk_bitmap_def g w by auto
  then show "fs_ok ?fs'" using ok d by (simp add: fs_ok_def g)
  show "fragment_ok ?fs'" using w by (simp add: fragment_ok_def)
qed

lemma read_block_fragment_ok:
  assumes ok: "fs_ok fs" "fragment_ok fs" and b: "in_data_area fs b"
  shows "\<exists>d. read_block_fragment b off len fs = Inr (Some (take len (drop off (blk fs b))), with_fragment b (blk fs b) d fs)
    \<and> fs_ok (with_fragment b (blk fs b) d fs) \<and> fragment_ok (with_fragment b (blk fs b) d fs) \<and> cache_ready d \<and> view d = view (dev fs)"
proof -
  obtain d where d: "load_fragment b fs = Inr (0, with_fragment b (blk fs b) d fs)" "cache_ready d" "view d = view (dev fs)"
    using load_fragment_ok [OF assms] by blast
  let ?fs' = "with_fragment b (blk fs b) d fs"
  have dv: "dev_ok ?fs'" using ok(1) d(2,3) by (simp add: fs_ok_def dev_ok_def totalBlocks_def)
  have w: "blk ?fs' = (blk fs)(b := blk fs b)" using blk_cong [OF _ fragment_geometry [of fs "blk fs b" b d]] d(3) by simp
  have "fs_ok ?fs'" "fragment_ok ?fs'" using fragment_fs_ok [OF ok(1) dv w] by simp_all
  moreover have "read_block_fragment b off len fs = Inr (Some (take len (drop off (blk fs b))), ?fs')" using d(1) by (simp add: read_block_fragment_def)
  ultimately show ?thesis using d(2,3) by blast
qed

lemma write_block_fragment_ok:
  assumes ok: "fs_ok fs" "fragment_ok fs" and b: "in_data_area fs b" "\<not> is_bitmap fs b" and l: "off + length xs \<le> blockSize fs"
  defines "buf \<equiv> splice off xs (blk fs b)"
  shows "\<exists>d. write_block_fragment b off xs fs = Inr (0, with_fragment b buf d fs) \<and> fs_ok (with_fragment b buf d fs)
    \<and> fragment_ok (with_fragment b buf d fs) \<and> blk (with_fragment b buf d fs) = (blk fs)(b := buf)"
proof -
  obtain d where d: "load_fragment b fs = Inr (0, with_fragment b (blk fs b) d fs)" "cache_ready d" "view d = view (dev fs)"
    using load_fragment_ok [OF ok b(1)] by blast
  let ?fs1 = "with_fragment b buf d fs"
  have d1: "dev_ok ?fs1" and b1: "b \<le> totalBlocks ?fs1" using ok(1) d(2,3) b(1) by (simp_all add: fs_ok_def dev_ok_def totalBlocks_def in_data_area_def)
  have "dev_ok fs" using ok(1) by (simp add: fs_ok_def)
  then have l1: "length buf = blockSize ?fs1" using blk_length [of fs b] l splice_length [of off xs "blk fs b"] by (simp add: buf_def)
  from write_block_ok [OF d1 b1 l1] obtain d' where d': "write_block b buf ?fs1 = Inr (0, ?fs1\<lparr>dev := d'\<rparr>)" "dev_ok (?fs1\<lparr>dev := d'\<rparr>)"
    "blk (?fs1\<lparr>dev := d'\<rparr>) = (blk ?fs1)(b := buf)" by blast
  have eq: "?fs1\<lparr>dev := d'\<rparr> = with_fragment b buf d' fs" by simp
  have w: "blk (with_fragment b buf d' fs) = (blk fs)(b := buf)" using d'(3) blk_cong [OF _ fragment_geometry [of fs buf b d]] d(3) unfolding eq by simp
  have "dev_ok (with_fragment b buf d' fs)" using d'(2) unfolding eq .
  from fragment_fs_ok [OF ok(1) this w] b(2) have "fs_ok (with_fragment b buf d' fs)" "fragment_ok (with_fragment b buf d' fs)" by simp_all
  moreover have "write_block_fragment b off xs fs = Inr (0, with_fragment b buf d' fs)"
    using d(1) d'(1) by (simp add: write_block_fragment_def Let_def buf_def)
  ultimately show ?thesis using w by blast
qed

section \<open>The inode tables\<close>

definition inode_block :: "ext2 \<Rightarrow> nat \<Rightarrow> nat" where
  "inode_block fs n = group_addr fs (n div inodesPerBlockGroup fs) 8 + inode_offset n fs div blockSize fs"

definition disk_inode :: "ext2 \<Rightarrow> nat \<Rightarrow> ext2_Inode" where
  "disk_inode fs n = inode_of_bytes (take INODE_SIZE (drop (inode_offset n fs mod blockSize fs) (blk fs (inode_block fs n))))"

text \<open>The numbers that the driver accepts: the last inode of the last group is not one of them.\<close>

definition inode_number :: "ext2 \<Rightarrow> nat \<Rightarrow> bool" where
  "inode_number fs n \<longleftrightarrow> 0 < n \<and> n < 2 ^ 32 \<and> n div inodesPerBlockGroup fs < blockGroupCount fs"

text \<open>The blocks of the tables are blocks of the data area, not bitmaps, and different groups have different ones.\<close>

definition tables_ok :: "ext2 \<Rightarrow> bool" where
  "tables_ok fs \<longleftrightarrow> (\<forall>n. inode_number fs n \<longrightarrow> in_data_area fs (inode_block fs n) \<and> \<not> is_bitmap fs (inode_block fs n)
     \<and> (\<forall>m. inode_number fs m \<longrightarrow> inode_block fs m = inode_block fs n \<longrightarrow> m div inodesPerBlockGroup fs = n div inodesPerBlockGroup fs))"

lemma geometry_inodes:
  assumes "same_geometry fs fs'"
  shows "inode_offset n fs' = inode_offset n fs" "inode_number fs' n = inode_number fs n"
    "inode_number fs n \<Longrightarrow> inode_block fs' n = inode_block fs n" "tables_ok fs' = tables_ok fs"
proof -
  show o: "inode_offset n fs' = inode_offset n fs" "inode_number fs' n = inode_number fs n" for n
    using assms by (simp_all add: same_geometry_def inode_offset_def inode_number_def)
  show b: "inode_block fs' n = inode_block fs n" if "inode_number fs n" for n
    using assms that by (simp add: same_geometry_def inode_block_def inode_number_def o)
  have p: "inodesPerBlockGroup fs' = inodesPerBlockGroup fs" using assms by (simp add: same_geometry_def)
  show "tables_ok fs' = tables_ok fs" unfolding tables_ok_def o(2) p geometry_accessors(4,8) [OF assms] using b by auto
qed

lemma same_group_index:
  fixes n m p :: nat
  assumes "0 < n" "0 < m" "n div p = m div p" "(n - 1) mod p = (m - 1) mod p" "0 < p"
  shows "n = m"
proof -
  have split: "k mod p = (if Suc r = p then 0 else Suc r)" if "0 < k" "(k - 1) mod p = r" for k r
  proof -
    have "k = Suc (k - 1)" using that(1) by simp
    then show ?thesis using mod_Suc [of "k - 1" p] that(2) by metis
  qed
  have "n mod p = m mod p" using split [OF assms(1) refl] split [OF assms(2) refl] assms(4) by simp
  then show ?thesis using assms(3) by (metis div_mult_mod_eq)
qed

lemma inode_slots:
  assumes ok: "fs_ok fs" "tables_ok fs" and n: "inode_number fs n" and m: "inode_number fs m"
  shows "inode_offset n fs mod blockSize fs + INODE_SIZE \<le> blockSize fs"
    "n \<noteq> m \<Longrightarrow> inode_block fs m = inode_block fs n \<Longrightarrow> inode_offset m fs mod blockSize fs + INODE_SIZE \<le> inode_offset n fs mod blockSize fs
       \<or> inode_offset n fs mod blockSize fs + INODE_SIZE \<le> inode_offset m fs mod blockSize fs"
proof -
  let ?p = "inodesPerBlockGroup fs"
  obtain k where bs: "blockSize fs = 128 * k" "0 < k"
    using ok(1) by (auto simp: fs_ok_def dev_ok_def SECTOR_SIZE_def intro!: that [of "4 * sectorsPerBlock fs"])
  have p: "0 < ?p" using ok(1) by (simp add: fs_ok_def sizes_ok_def)
  have idx: "inode_offset x fs = 128 * ((x - 1) mod ?p)" if "inode_number fs x" for x
  proof -
    have x: "int x - 1 = int (x - 1)" "x - 1 < 2 ^ 32" using that by (auto simp: inode_number_def)
    have "int (x - 1) < 2 ^ 32" using x(2) by (metis of_nat_less_iff of_nat_numeral of_nat_power)
    then have "(int x - 1) mod 2 ^ 32 = int (x - 1)" unfolding x(1) by (intro mod_pos_pos_trivial) simp_all
    then show ?thesis unfolding inode_offset_def INODE_SIZE_def by (simp only: nat_int)
  qed
  have split: "128 * i mod blockSize fs = 128 * (i mod k)" "128 * i div blockSize fs = i div k" for i unfolding bs(1) by simp_all
  have fits: "128 * (i mod k) + 128 \<le> 128 * k" for i using mod_less_divisor [OF bs(2), of i] by linarith
  show "inode_offset n fs mod blockSize fs + INODE_SIZE \<le> blockSize fs" unfolding idx [OF n] split using fits bs(1) by (simp add: INODE_SIZE_def)
  assume ne: "n \<noteq> m" and eq: "inode_block fs m = inode_block fs n"
  let ?i = "(n - 1) mod ?p" and ?j = "(m - 1) mod ?p"
  have g: "m div ?p = n div ?p" using ok(2) n m eq unfolding tables_ok_def by blast
  have "?i \<noteq> ?j" using same_group_index [of n m ?p] n m g p ne by (auto simp: inode_number_def)
  moreover have "?i div k = ?j div k" using eq g unfolding inode_block_def idx [OF n] idx [OF m] split by simp
  ultimately have "?i mod k \<noteq> ?j mod k" using div_mult_mod_eq [of ?i k] div_mult_mod_eq [of ?j k] by metis
  then show "inode_offset m fs mod blockSize fs + INODE_SIZE \<le> inode_offset n fs mod blockSize fs
       \<or> inode_offset n fs mod blockSize fs + INODE_SIZE \<le> inode_offset m fs mod blockSize fs"
    unfolding idx [OF n] idx [OF m] split INODE_SIZE_def by auto
qed

lemma take_drop_splice:
  assumes "off + length xs \<le> length b"
  shows "take (length xs) (drop off (splice off xs b)) = xs"
    "off' + n \<le> length b \<Longrightarrow> off' + n \<le> off \<or> off + length xs \<le> off' \<Longrightarrow> take n (drop off' (splice off xs b)) = take n (drop off' b)"
proof -
  show "take (length xs) (drop off (splice off xs b)) = xs" using assms by (simp add: splice_def)
  show "take n (drop off' (splice off xs b)) = take n (drop off' b)" if "off' + n \<le> length b" "off' + n \<le> off \<or> off + length xs \<le> off'"
    using assms that by (intro nth_equalityI) (auto simp: splice_length splice_nth)
qed

text \<open>The effect of a change of one inode on the store of inodes.\<close>

lemma disk_inode_splice:
  assumes ok: "fs_ok fs" "tables_ok fs" and n: "inode_number fs n" and m: "inode_number fs m"
    and w: "blk fs' = (blk fs)(inode_block fs n := splice (inode_offset n fs mod blockSize fs) (inode_bytes d) (blk fs (inode_block fs n)))"
    and g: "same_geometry fs fs'"
  shows "disk_inode fs' m = (if m = n then inode_of_bytes (inode_bytes d) else disk_inode fs m)"
proof -
  note slots = inode_slots [OF ok n m] inode_slots(1) [OF ok m n]
  have len: "length (blk fs (inode_block fs n)) = blockSize fs" using ok(1) by (intro blk_length) (simp add: fs_ok_def)
  have fit: "inode_offset n fs mod blockSize fs + length (inode_bytes d) \<le> length (blk fs (inode_block fs n))" using slots(1) len by simp
  have bs: "blockSize fs' = blockSize fs" using g by (simp add: same_geometry_def)
  have e: "disk_inode fs' m = inode_of_bytes (take INODE_SIZE (drop (inode_offset m fs mod blockSize fs) (blk fs' (inode_block fs m))))"
    unfolding disk_inode_def geometry_inodes(1) [OF g] geometry_inodes(3) [OF g m] bs ..
  show ?thesis
  proof (cases "m = n")
    case True
    then show ?thesis unfolding e w using take_drop_splice(1) [OF fit] by simp
  next
    case False
    have "take INODE_SIZE (drop (inode_offset m fs mod blockSize fs) (blk fs' (inode_block fs m)))
      = take INODE_SIZE (drop (inode_offset m fs mod blockSize fs) (blk fs (inode_block fs m)))"
      unfolding w using take_drop_splice(2) [OF fit, of "inode_offset m fs mod blockSize fs" INODE_SIZE] slots(2,3) False len
      by (cases "inode_block fs m = inode_block fs n") auto
    then show ?thesis using False unfolding e by (simp add: disk_inode_def)
  qed
qed

definition files_ok :: "ext2 \<Rightarrow> bool" where
  "files_ok fs \<longleftrightarrow> fs_ok fs \<and> fragment_ok fs \<and> tables_ok fs"

definition now_modified :: "ext2 \<Rightarrow> ext2_Inode \<Rightarrow> ext2_Inode" where
  "now_modified fs d = d\<lparr>i_lastModification := fs_time fs\<rparr>"

lemma write_inode_ok:
  assumes ok: "files_ok fs" and n: "inode_number fs (in_number inode)"
  defines "n \<equiv> in_number inode" and "data \<equiv> now_modified fs (in_data inode)"
  shows "\<exists>buf d. ext2_write_inode inode fs = Inr (0, inode\<lparr>in_data := data\<rparr>, with_fragment (inode_block fs n) buf d fs)
    \<and> files_ok (with_fragment (inode_block fs n) buf d fs) \<and> blk (with_fragment (inode_block fs n) buf d fs) = (blk fs)(inode_block fs n := buf)
    \<and> (\<forall>m. inode_number fs m \<longrightarrow> disk_inode (with_fragment (inode_block fs n) buf d fs) m
         = (if m = n then inode_of_bytes (inode_bytes data) else disk_inode fs m))"
proof -
  let ?b = "inode_block fs n" and ?off = "inode_offset n fs"
  have fs: "fs_ok fs" "fragment_ok fs" "tables_ok fs" and num: "inode_number fs n" using ok n by (simp_all add: files_ok_def n_def)
  have b: "in_data_area fs ?b" "\<not> is_bitmap fs ?b" using fs(3) num by (auto simp: tables_ok_def)
  have fit: "?off mod blockSize fs + length (inode_bytes data) \<le> blockSize fs" using inode_slots(1) [OF fs(1,3) num num] by simp
  let ?buf = "splice (?off mod blockSize fs) (inode_bytes data) (blk fs ?b)"
  obtain d where d: "write_block_fragment ?b (?off mod blockSize fs) (inode_bytes data) fs = Inr (0, with_fragment ?b ?buf d fs)"
    "fs_ok (with_fragment ?b ?buf d fs)" "fragment_ok (with_fragment ?b ?buf d fs)" "blk (with_fragment ?b ?buf d fs) = (blk fs)(?b := ?buf)"
    using write_block_fragment_ok [OF fs(1,2) b fit] by blast
  note geo = fragment_geometry [of fs ?buf ?b d]
  have p: "inodesPerBlockGroup fs \<noteq> 0" using fs(1) by (simp add: fs_ok_def sizes_ok_def)
  have g: "n div inodesPerBlockGroup fs < blockGroupCount fs" using num by (simp add: inode_number_def)
  have "ext2_write_inode inode fs = Inr (0, inode\<lparr>in_data := data\<rparr>, with_fragment ?b ?buf d fs)"
    using d(1) p group_word_ok [OF fs(1) g, of 8]
    by (simp add: ext2_write_inode_def inode_group_def upd_data_def Let_def inode_block_def data_def n_def now_modified_def)
  moreover have "tables_ok (with_fragment ?b ?buf d fs)" using geometry_inodes(4) [OF geo] fs(3) by simp
  moreover have "\<forall>m. inode_number fs m \<longrightarrow> disk_inode (with_fragment ?b ?buf d fs) m = (if m = n then inode_of_bytes (inode_bytes data) else disk_inode fs m)"
    using disk_inode_splice [OF fs(1,3) num _ d(4) geo] by blast
  ultimately show ?thesis using d(2-4) unfolding files_ok_def by blast
qed

lemma inode_of_bytes_in_range: "inode_in_range (inode_of_bytes b)"
  using get16_bound get32_bound by (auto simp: inode_in_range_def inode_of_bytes_def)

lemma kalloc_ok:
  assumes "files_ok fs" "10 \<le> pm_kalloc (dev fs)"
  shows "\<exists>d. Option.bind (kalloc_object fs) kalloc_object = Some (fs\<lparr>dev := d\<rparr>) \<and> files_ok (fs\<lparr>dev := d\<rparr>) \<and> view d = view (dev fs)"
proof -
  let ?d = "(dev fs)\<lparr>pm_kalloc := pm_kalloc (dev fs) - 2\<rparr>"
  have eq: "Option.bind (kalloc_object fs) kalloc_object = Some (fs\<lparr>dev := ?d\<rparr>)" using assms(2) by (simp add: kalloc_object_def numeral_2_eq_2)
  have v: "view ?d = view (dev fs)" by (intro ext) (simp add: view_def split: option.split)
  have "cache_wf (dev fs)" using assms(1) by (simp add: files_ok_def fs_ok_def dev_ok_def cache_ready_def)
  from cache.ok_kalloc [OF this] assms have "cache_ready ?d" by (auto simp: files_ok_def fs_ok_def dev_ok_def cache_ready_def)
  then have "dev_ok (fs\<lparr>dev := ?d\<rparr>)" using assms(1) v by (simp add: files_ok_def fs_ok_def dev_ok_def totalBlocks_def)
  moreover have b: "blk (fs\<lparr>dev := ?d\<rparr>) = blk fs" using v by (intro blk_cong) simp_all
  ultimately have "fs_ok (fs\<lparr>dev := ?d\<rparr>)" using assms(1) unfolding files_ok_def by (auto intro: fs_ok_change [of fs])
  then show ?thesis using eq v b assms(1) geometry_inodes(4) [OF same_geometry_dev(1) [of fs ?d]]
    by (intro exI [of _ ?d]) (simp add: files_ok_def fragment_ok_def)
qed

lemma read_inode_ok:
  assumes ok: "files_ok fs" "10 \<le> pm_kalloc (dev fs)" and n: "inode_number fs n" "n \<le> totalInodes fs"
  shows "\<exists>t t' fs'. ext2_read_inode n fs = Inr (Some \<lparr>in_number = n, in_data = (disk_inode fs n)\<lparr>i_lastAccess := t, i_lastModification := t'\<rparr>,
      in_refCount = 0, in_extra = None\<rparr>, fs') \<and> files_ok fs' \<and> same_geometry fs fs'
    \<and> (\<forall>m. inode_number fs m \<longrightarrow> disk_inode fs' m = (if m = n then (disk_inode fs n)\<lparr>i_lastAccess := t, i_lastModification := t'\<rparr> else disk_inode fs m))"
proof -
  obtain d1 where d1: "Option.bind (kalloc_object fs) kalloc_object = Some (fs\<lparr>dev := d1\<rparr>)" "files_ok (fs\<lparr>dev := d1\<rparr>)" "view d1 = view (dev fs)"
    using kalloc_ok [OF ok] by blast
  let ?fs1 = "fs\<lparr>dev := d1\<rparr>" and ?b = "inode_block fs n" and ?off = "inode_offset n fs"
  note geo1 = same_geometry_dev(1) [of fs d1]
  have b1: "blk ?fs1 = blk fs" using d1(3) by (intro blk_cong) simp_all
  have fs1: "fs_ok ?fs1" "fragment_ok ?fs1" "tables_ok ?fs1" using d1(2) by (simp_all add: files_ok_def)
  have b: "in_data_area ?fs1 ?b" using ok(1) n(1) geometry_accessors(4) [OF geo1] by (auto simp: files_ok_def tables_ok_def)
  obtain d2 where d2: "read_block_fragment ?b (?off mod blockSize fs) INODE_SIZE ?fs1
      = Inr (Some (take INODE_SIZE (drop (?off mod blockSize fs) (blk fs ?b))), with_fragment ?b (blk fs ?b) d2 ?fs1)"
    "fs_ok (with_fragment ?b (blk fs ?b) d2 ?fs1)" "fragment_ok (with_fragment ?b (blk fs ?b) d2 ?fs1)" "view d2 = view d1"
    using read_block_fragment_ok [OF fs1(1,2) b] b1 by auto
  let ?fs2 = "with_fragment ?b (blk fs ?b) d2 fs"
  note geo2 = fragment_geometry [of fs "blk fs ?b" ?b d2]
  have ok2: "files_ok ?fs2" using d2(2,3) geometry_inodes(4) [OF geo2] ok(1) by (simp add: files_ok_def)
  have b2: "blk ?fs2 = blk fs" by (rule blk_cong [OF _ geo2]) (simp add: d2(4) d1(3))
  let ?inode = "\<lparr>in_number = n, in_data = (disk_inode fs n)\<lparr>i_lastAccess := fs_time ?fs2\<rparr>, in_refCount = 0, in_extra = None\<rparr> :: fs_Inode"
  let ?data = "(disk_inode fs n)\<lparr>i_lastAccess := fs_time ?fs2, i_lastModification := fs_time ?fs2\<rparr>"
  have n2: "inode_number ?fs2 (in_number ?inode)" using n(1) geometry_inodes(2) [OF geo2] by simp
  have nm: "now_modified ?fs2 (in_data ?inode) = ?data" and num: "in_number ?inode = n" by (simp_all add: now_modified_def)
  have ib: "inode_block ?fs2 n = ?b" by (rule geometry_inodes(3) [OF geo2 n(1)])
  obtain buf d3 where d3: "ext2_write_inode ?inode ?fs2 = Inr (0, ?inode\<lparr>in_data := ?data\<rparr>, with_fragment ?b buf d3 ?fs2)"
    "files_ok (with_fragment ?b buf d3 ?fs2)"
    "\<forall>m. inode_number ?fs2 m \<longrightarrow> disk_inode (with_fragment ?b buf d3 ?fs2) m = (if m = n then inode_of_bytes (inode_bytes ?data) else disk_inode ?fs2 m)"
    using write_inode_ok [OF ok2 n2] unfolding nm num ib by (elim exE conjE) (rule that; assumption)
  have "inode_in_range ?data" using inode_of_bytes_in_range by (simp add: inode_in_range_def disk_inode_def)
  then have data: "inode_of_bytes (inode_bytes ?data) = ?data" by (rule inode_encoding)
  have di: "disk_inode ?fs2 m = disk_inode fs m" if "inode_number fs m" for m
    using b2 geometry_inodes(1,3) [OF geo2] that by (simp add: disk_inode_def)
  have p: "inodesPerBlockGroup fs \<noteq> 0" using ok(1) by (simp add: files_ok_def fs_ok_def sizes_ok_def)
  have g: "n div inodesPerBlockGroup fs < blockGroupCount fs" using n(1) by (simp add: inode_number_def)
  then have w: "group_word (n div inodesPerBlockGroup fs) 8 ?fs1 = Inr (group_addr fs (n div inodesPerBlockGroup fs) 8)"
    using group_word_ok [OF fs1(1), of "n div inodesPerBlockGroup fs" 8] by (simp add: group_addr_def)
  have bn: "group_addr fs (n div inodesPerBlockGroup fs) 8 + ?off div blockSize fs = ?b" by (simp add: inode_block_def)
  have dd: "inode_of_bytes (take INODE_SIZE (drop (?off mod blockSize fs) (blk fs ?b))) = disk_inode fs n" by (simp add: disk_inode_def)
  have "ext2_read_inode n fs = Inr (Some (?inode\<lparr>in_data := ?data\<rparr>), with_fragment ?b buf d3 ?fs2)"
    using n(2) p g d1(1) w d2(1) d3(1)
    by (simp add: ext2_read_inode_def inode_group_def Let_def bn dd)
  moreover have "\<forall>m. inode_number fs m \<longrightarrow> disk_inode (with_fragment ?b buf d3 ?fs2) m = (if m = n then ?data else disk_inode fs m)"
    using d3(3) di data geometry_inodes(2) [OF geo2] by simp
  moreover have "same_geometry fs (with_fragment ?b buf d3 ?fs2)" using same_geometry_trans [OF geo2 fragment_geometry] .
  ultimately show ?thesis using d3(2) by (intro exI [of _ "fs_time ?fs2"] exI [of _ "with_fragment ?b buf d3 ?fs2"]) simp
qed

section \<open>A small file system\<close>

lemma small_fs_fields: "blockSize small_fs = 1024" "blockGroupCount small_fs = 1" "table_end small_fs = 3" "10 \<le> pm_kalloc (dev small_fs)"
  "fragmentReadBlock small_fs = 0"
  by (simp_all add: small_fs_def table_end_def table_block_def table_blocks_def SUPERBLOCK_END_def SUPERBLOCK_START_def SUPERBLOCK_SECTORS_def
      GROUP_DESCRIPTOR_SIZE_def)

lemma small_fs_files: "files_ok small_fs" "inode_number small_fs n \<longleftrightarrow> 0 < n \<and> n < 64" "inode_number small_fs n \<Longrightarrow> inode_block small_fs n \<le> 12"
proof -
  show num: "inode_number small_fs n \<longleftrightarrow> 0 < n \<and> n < 64" for n
    using div_less_iff_less_mult [of 64 n 1] by (auto simp: inode_number_def small_fs_layout small_fs_fields)
  have blk: "5 \<le> inode_block small_fs n \<and> inode_block small_fs n \<le> 12" if "inode_number small_fs n" for n
  proof -
    have "n div 64 = 0" using that num [of n] by simp
    moreover have "128 * (x mod 64) div 1024 \<le> (7::nat)" for x using div_le_mono [of "128 * (x mod 64)" "128 * 63" 1024] by simp
    ultimately show ?thesis by (simp add: inode_block_def inode_offset_def small_fs_layout small_fs_fields INODE_SIZE_def)
  qed
  then show "inode_number small_fs n \<Longrightarrow> inode_block small_fs n \<le> 12" by blast
  have "tables_ok small_fs" unfolding tables_ok_def
  proof (intro allI impI conjI)
    fix n assume n: "inode_number small_fs n"
    show "in_data_area small_fs (inode_block small_fs n)" "\<not> is_bitmap small_fs (inode_block small_fs n)"
      using blk [OF n] by (auto simp: in_data_area_def is_bitmap_def small_fs_layout small_fs_fields)
    fix m assume m: "inode_number small_fs m"
    show "m div inodesPerBlockGroup small_fs = n div inodesPerBlockGroup small_fs" using n m num by (simp add: small_fs_layout)
  qed
  then show "files_ok small_fs" using small_fs_ok(1) by (simp add: files_ok_def fragment_ok_def small_fs_fields)
qed

section \<open>Properties\<close>

text \<open>C8. The inode tables behave as one store of inodes: \<open>ext2_write_inode\<close> returns \<open>0\<close> and changes exactly the inode it was
  given, whose time of modification it sets.\<close>

theorem write_inode_updates:
  assumes "files_ok fs" "inode_number fs (in_number inode)" "inode_in_range (in_data inode)"
  shows "\<exists>inode' fs'. ext2_write_inode inode fs = Inr (0, inode', fs') \<and> files_ok fs'
    \<and> in_data inode' = (in_data inode)\<lparr>i_lastModification := fs_time fs\<rparr> \<and> in_number inode' = in_number inode
    \<and> (\<forall>m. inode_number fs m \<longrightarrow> disk_inode fs' m = ((disk_inode fs)(in_number inode := in_data inode')) m)"
proof -
  obtain buf d where W: "ext2_write_inode inode fs = Inr (0, inode\<lparr>in_data := now_modified fs (in_data inode)\<rparr>, with_fragment (inode_block fs (in_number inode)) buf d fs)"
    "files_ok (with_fragment (inode_block fs (in_number inode)) buf d fs)"
    "\<forall>m. inode_number fs m \<longrightarrow> disk_inode (with_fragment (inode_block fs (in_number inode)) buf d fs) m
         = (if m = in_number inode then inode_of_bytes (inode_bytes (now_modified fs (in_data inode))) else disk_inode fs m)"
    using write_inode_ok [OF assms(1,2)] by blast
  have "inode_in_range (now_modified fs (in_data inode))" using assms(3) by (simp add: inode_in_range_def now_modified_def)
  from inode_encoding [OF this] W show ?thesis by (auto simp: now_modified_def)
qed

theorem write_inode_updates_witness:
  "\<exists>inode' fs'. ext2_write_inode \<lparr>in_number = 12, in_data = zero_inode\<lparr>i_size := 7\<rparr>, in_refCount = 0, in_extra = None\<rparr> small_fs = Inr (0, inode', fs')
    \<and> i_size (disk_inode fs' 12) = 7 \<and> disk_inode fs' 13 = disk_inode small_fs 13"
proof -
  let ?inode = "\<lparr>in_number = 12, in_data = zero_inode\<lparr>i_size := 7\<rparr>, in_refCount = 0, in_extra = None\<rparr> :: fs_Inode"
  have "inode_number small_fs (in_number ?inode)" "inode_number small_fs 13" "inode_number small_fs 12" unfolding small_fs_files(2) by simp_all
  moreover have "inode_in_range (in_data ?inode)" by (auto simp: inode_in_range_def zero_inode_def)
  ultimately show ?thesis using write_inode_updates [OF small_fs_files(1), of ?inode] by fastforce
qed

text \<open>\<open>ext2_read_inode\<close> returns the inode that the tables hold. Reading sets the time of access and also the time of
  modification, in memory and on the disk, and changes no other inode.\<close>

theorem read_inode_returns:
  assumes "files_ok fs" "10 \<le> pm_kalloc (dev fs)" "inode_number fs n" "n \<le> totalInodes fs"
  shows "\<exists>t t' fs'. ext2_read_inode n fs = Inr (Some \<lparr>in_number = n, in_data = (disk_inode fs n)\<lparr>i_lastAccess := t, i_lastModification := t'\<rparr>,
      in_refCount = 0, in_extra = None\<rparr>, fs') \<and> files_ok fs'
    \<and> (\<forall>m. inode_number fs m \<longrightarrow> disk_inode fs' m = ((disk_inode fs)(n := (disk_inode fs n)\<lparr>i_lastAccess := t, i_lastModification := t'\<rparr>)) m)"
  using read_inode_ok [OF assms] by (auto simp only: fun_upd_apply)

theorem read_inode_returns_witness:
  "\<exists>inode fs'. ext2_read_inode 12 small_fs = Inr (Some inode, fs') \<and> i_size (in_data inode) = i_size (disk_inode small_fs 12)"
proof -
  have "inode_number small_fs 12" unfolding small_fs_files(2) by simp
  from read_inode_returns [OF small_fs_files(1) small_fs_fields(4) this] small_fs_layout show ?thesis by fastforce
qed

text \<open>C33. The last inode of a file system cannot be used: its number passes the check of \<open>ext2_read_inode\<close> against the number of
  inodes, but the group is computed without subtracting one from the number, and there is no such group.\<close>

theorem last_inode_unreadable:
  assumes "fs_ok fs"
  shows "ext2_read_inode (blockGroupCount fs * inodesPerBlockGroup fs) fs = Inr (None, fs)"
  using assms by (simp add: ext2_read_inode_def inode_group_def fs_ok_def sizes_ok_def)

theorem last_inode_unreadable_witness: "totalInodes small_fs = 64 \<and> ext2_read_inode 64 small_fs = Inr (None, small_fs)"
  using last_inode_unreadable [OF small_fs_ok(1)] by (simp add: small_fs_layout small_fs_fields)

end
