(* ===== verification/Ext2_Content.thy ===== *)
theory Ext2_Content
  imports Ext2_Table
begin

text \<open>
  The contents of files: the buffers for data blocks, and transfers within a block.
\<close>

section \<open>The buffers for data\<close>

lemma first_index_props:
  "first_index P xs < length xs \<longleftrightarrow> (\<exists>x \<in> set xs. P x)" "first_index P xs < length xs \<Longrightarrow> P (xs ! first_index P xs)"
  "first_index P xs \<le> length xs" "j < first_index P xs \<Longrightarrow> \<not> P (xs ! j)"
proof -
  show "first_index P xs < length xs \<longleftrightarrow> (\<exists>x \<in> set xs. P x)" by (induction xs) (auto simp: first_index_def)
  show "P (xs ! first_index P xs)" if "first_index P xs < length xs"
    using nth_length_takeWhile [of "\<lambda>x. \<not> P x" xs] that by (simp add: first_index_def)
  show "first_index P xs \<le> length xs" by (simp add: first_index_def length_takeWhile_le)
  show "\<not> P (xs ! j)" if "j < first_index P xs"
    using that nth_mem [of j "takeWhile (\<lambda>x. \<not> P x) xs"] takeWhile_nth [of j "\<lambda>x. \<not> P x" xs] set_takeWhileD by (fastforce simp: first_index_def)
qed

lemma first_index_update:
  assumes "length xs = n" "\<not> first_index P xs < n" "i < n" "P y"
  shows "first_index P (xs[i := y]) = i"
proof -
  have none: "\<forall>x \<in> set xs. \<not> P x" using assms first_index_props(1) [of P xs] by simp
  let ?ys = "xs[i := y]"
  have "first_index P ?ys < length ?ys" using assms set_update_memI [of i xs y] unfolding first_index_props(1) by auto
  then have "P (?ys ! first_index P ?ys)" by (rule first_index_props(2))
  then show ?thesis using none assms \<open>first_index P ?ys < length ?ys\<close> by (cases "first_index P ?ys = i") auto
qed

definition buffers_ok :: "ext2 \<Rightarrow> bool" where
  "buffers_ok fs \<longleftrightarrow> length (blockBufferAddress fs) = BLOCK_BUFFER_COUNT \<and> length (blockBufferOwner fs) = BLOCK_BUFFER_COUNT
     \<and> length (blockBuffer fs) = BLOCK_BUFFER_COUNT
     \<and> (\<forall>i < BLOCK_BUFFER_COUNT. blockBufferAddress fs ! i \<noteq> 0 \<longrightarrow> blockBuffer fs ! i = blk fs (blockBufferAddress fs ! i))"

text \<open>The buffer \<open>i\<close> is the one that inode \<open>number\<close> uses.\<close>

definition own_buffer :: "ext2 \<Rightarrow> nat \<Rightarrow> nat \<Rightarrow> bool" where
  "own_buffer fs number i \<longleftrightarrow> i < BLOCK_BUFFER_COUNT \<and> first_index (\<lambda>o'. o' = number) (blockBufferOwner fs) = i"

lemma choose_own: "own_buffer fs number i \<Longrightarrow> choose_buffer number fs = (i, fs)"
  by (simp add: own_buffer_def choose_buffer_def)

abbreviation with_buffers :: "nat \<Rightarrow> nat list \<Rightarrow> nat list \<Rightarrow> u8 list list \<Rightarrow> cache_state \<Rightarrow> ext2 \<Rightarrow> ext2" where
  "with_buffers ev addr own bufs d fs \<equiv>
     fs\<lparr>dev := d, evictBlockBuffer := ev, blockBufferAddress := addr, blockBufferOwner := own, blockBuffer := bufs\<rparr>"

lemma choose_buffer_ok:
  assumes ok: "buffers_ok fs"
  shows "\<exists>i ev addr own. choose_buffer number fs = (i, with_buffers ev addr own (blockBuffer fs) (dev fs) fs)
    \<and> buffers_ok (with_buffers ev addr own (blockBuffer fs) (dev fs) fs) \<and> own_buffer (with_buffers ev addr own (blockBuffer fs) (dev fs) fs) number i"
proof (cases "first_index (\<lambda>o'. o' = number) (blockBufferOwner fs) < BLOCK_BUFFER_COUNT")
  case True
  let ?i = "first_index (\<lambda>o'. o' = number) (blockBufferOwner fs)"
  let ?fs' = "with_buffers (evictBlockBuffer fs) (blockBufferAddress fs) (blockBufferOwner fs) (blockBuffer fs) (dev fs) fs"
  have eq: "?fs' = fs" by (cases fs) simp
  have "choose_buffer number fs = (?i, ?fs')" "buffers_ok ?fs'" "own_buffer ?fs' number ?i"
    unfolding eq using True ok by (simp_all add: choose_buffer_def own_buffer_def)
  then show ?thesis by blast
next
  case False
  let ?none = "first_index (\<lambda>o'. o' = 0) (blockBufferOwner fs)"
  let ?ev = "if ?none < BLOCK_BUFFER_COUNT then evictBlockBuffer fs else (evictBlockBuffer fs + 1) mod BLOCK_BUFFER_COUNT"
  let ?i = "if ?none < BLOCK_BUFFER_COUNT then ?none else ?ev"
  let ?fs' = "with_buffers ?ev ((blockBufferAddress fs)[?i := 0]) ((blockBufferOwner fs)[?i := number]) (blockBuffer fs) (dev fs) fs"
  have i: "?i < BLOCK_BUFFER_COUNT" by (simp add: BLOCK_BUFFER_COUNT_def)
  have "choose_buffer number fs = (?i, ?fs')" using False by (cases fs) (simp add: choose_buffer_def Let_def)
  moreover have "blk ?fs' = blk fs" by (intro ext) (simp add: blk_def block_sectors_def)
  then have "buffers_ok ?fs'" using ok i by (auto simp: buffers_ok_def nth_list_update)
  moreover have "own_buffer ?fs' number ?i"
    using first_index_update [of "blockBufferOwner fs" BLOCK_BUFFER_COUNT "\<lambda>o'. o' = number" ?i number] ok False i by (simp add: own_buffer_def buffers_ok_def)
  ultimately show ?thesis by blast
qed

lemma buffers_geometry: "same_geometry fs (with_buffers ev addr own bufs d fs)"
  by (simp add: same_geometry_def totalBlocks_def totalInodes_def sb_blockSize_def blocksPerBlockGroup_def inodesPerBlockGroup_def group_addr_def)

lemma buffers_files_ok:
  assumes "files_ok fs" "cache_ready d" "view d = view (dev fs)"
  shows "files_ok (with_buffers ev addr own bufs d fs)" "blk (with_buffers ev addr own bufs d fs) = blk fs"
proof -
  let ?fs' = "with_buffers ev addr own bufs d fs"
  note geo = buffers_geometry [of fs]
  show b: "blk ?fs' = blk fs" by (rule blk_cong [OF _ geo]) (simp add: assms(3))
  have "dev_ok ?fs'" using assms by (simp add: files_ok_def fs_ok_def dev_ok_def totalBlocks_def)
  then have "fs_ok ?fs'" using assms(1) b by (intro fs_ok_change [of fs, OF _ _ geo]) (simp_all add: files_ok_def)
  then show "files_ok ?fs'" using assms(1) b geometry_inodes(4) [OF geo] by (simp add: files_ok_def fragment_ok_def)
qed

lemma load_buffer_ok:
  assumes ok: "files_ok fs" "buffers_ok fs" and b: "in_data_area fs b"
  shows "\<exists>i ev addr own bufs d. load_buffer inode b fs = Inr (Some i, with_buffers ev addr own bufs d fs)
    \<and> files_ok (with_buffers ev addr own bufs d fs) \<and> buffers_ok (with_buffers ev addr own bufs d fs) \<and> view d = view (dev fs)
    \<and> own_buffer (with_buffers ev addr own bufs d fs) (in_number inode) i \<and> addr ! i = b \<and> bufs ! i = blk fs b"
proof -
  obtain i ev addr own where c: "choose_buffer (in_number inode) fs = (i, with_buffers ev addr own (blockBuffer fs) (dev fs) fs)"
    "buffers_ok (with_buffers ev addr own (blockBuffer fs) (dev fs) fs)"
    "own_buffer (with_buffers ev addr own (blockBuffer fs) (dev fs) fs) (in_number inode) i" using choose_buffer_ok [OF ok(2)] by blast
  let ?fs1 = "with_buffers ev addr own (blockBuffer fs) (dev fs) fs"
  have cr: "cache_ready (dev fs)" using ok(1) by (simp add: files_ok_def fs_ok_def dev_ok_def)
  have b0: "b \<noteq> 0" using b table_end_pos [of fs] by (auto simp: in_data_area_def)
  have i: "i < BLOCK_BUFFER_COUNT" using c(3) by (simp add: own_buffer_def)
  have b1: "blk ?fs1 = blk fs" by (rule buffers_files_ok(2) [OF ok(1) cr refl])
  show ?thesis
  proof (cases "addr ! i = b")
    case True
    then have "load_buffer inode b fs = Inr (Some i, ?fs1)" using c(1) by (simp add: load_buffer_def)
    moreover have "blockBuffer fs ! i = blk fs b" using c(2) i True b0 b1 by (auto simp: buffers_ok_def)
    ultimately show ?thesis using c(2,3) True buffers_files_ok(1) [OF ok(1) cr refl] by blast
  next
    case False
    let ?fs2 = "with_buffers ev (addr[i := b]) own (blockBuffer fs) (dev fs) fs"
    have "dev_ok ?fs2" "b \<le> totalBlocks ?fs2"
      using ok(1) b by (simp_all add: files_ok_def fs_ok_def dev_ok_def totalBlocks_def in_data_area_def)
    from read_block_ok [OF this] obtain d where d: "read_block b ?fs2 = Inr (Some (blk ?fs2 b), ?fs2\<lparr>dev := d\<rparr>)" "cache_ready d" "view d = view (dev fs)"
      by auto
    have "blk ?fs2 b = blk fs b" by (simp add: blk_def block_sectors_def)
    let ?fs3 = "with_buffers ev (addr[i := b]) own ((blockBuffer fs)[i := blk fs b]) d fs"
    have b3: "blk ?fs3 = blk fs" "files_ok ?fs3" using buffers_files_ok [OF ok(1) d(2,3)] by blast+
    have "load_buffer inode b fs = Inr (Some i, ?fs3)" 
    proof -
      have e1: "fs\<lparr>evictBlockBuffer := ev, blockBufferOwner := own, blockBufferAddress := addr[i := b]\<rparr>
        = fs\<lparr>evictBlockBuffer := ev, blockBufferAddress := addr[i := b], blockBufferOwner := own\<rparr>" by (cases fs) simp
      have e2: "fs\<lparr>evictBlockBuffer := ev, blockBufferAddress := addr[i := b], blockBufferOwner := own, dev := d,
        blockBuffer := (blockBuffer fs)[i := blk fs b]\<rparr> = ?fs3" by (cases fs) simp
      show ?thesis using c(1) False d(1) \<open>blk ?fs2 b = blk fs b\<close> by (simp add: load_buffer_def e1 e2)
    qed
    moreover have "buffers_ok ?fs3" using c(2) i b1 unfolding buffers_ok_def b3(1) by (auto simp: nth_list_update)
    moreover have "own_buffer ?fs3 (in_number inode) i" using c(3) by (simp add: own_buffer_def)
    moreover have "addr[i := b] ! i = b" "((blockBuffer fs)[i := blk fs b]) ! i = blk fs b" using c(2) i by (simp_all add: buffers_ok_def)
    ultimately show ?thesis using b3(2) d(3) by blast
  qed
qed

section \<open>Transfers within a block\<close>

text \<open>A block for data: it is not a bitmap, not in an inode table and not the one in the buffer for fragments.\<close>

definition is_data :: "ext2 \<Rightarrow> nat \<Rightarrow> bool" where
  "is_data fs b \<longleftrightarrow> in_data_area fs b \<and> \<not> is_bitmap fs b \<and> b \<noteq> fragmentReadBlock fs \<and> (\<forall>n. inode_number fs n \<longrightarrow> b \<noteq> inode_block fs n)"

lemma write_data_ok:
  assumes ok: "files_ok fs" and b: "is_data fs b" and l: "length buf = blockSize fs"
  shows "\<exists>d. write_block b buf fs = Inr (0, fs\<lparr>dev := d\<rparr>) \<and> files_ok (fs\<lparr>dev := d\<rparr>) \<and> blk (fs\<lparr>dev := d\<rparr>) = (blk fs)(b := buf)"
proof -
  have dv: "dev_ok fs" and lt: "b \<le> totalBlocks fs" using ok b by (simp_all add: files_ok_def fs_ok_def is_data_def in_data_area_def)
  from write_block_ok [OF dv lt l] obtain d where d: "write_block b buf fs = Inr (0, fs\<lparr>dev := d\<rparr>)" "dev_ok (fs\<lparr>dev := d\<rparr>)"
    "blk (fs\<lparr>dev := d\<rparr>) = (blk fs)(b := buf)" by blast
  let ?fs' = "fs\<lparr>dev := d\<rparr>"
  note geo = same_geometry_dev(1) [of fs d]
  note ga = geometry_accessors [OF geo]
  have "bitmap_coherent ?fs'" using ok b unfolding bitmap_coherent_def files_ok_def fs_ok_def disk_bitmap_def ga d(3) is_data_def by auto
  then have "fs_ok ?fs'" using ok d(2) by (simp add: files_ok_def fs_ok_def ga)
  moreover have "fragment_ok ?fs'" using ok b by (auto simp: files_ok_def fragment_ok_def d(3) is_data_def)
  ultimately show ?thesis using ok d(1,3) geometry_inodes(4) [OF geo] by (auto simp: files_ok_def)
qed

lemma with_buffers_twice [simp]:
  "(with_buffers ev addr own bufs d fs)\<lparr>blockBuffer := bufs'\<rparr> = with_buffers ev addr own bufs' d fs"
  "(with_buffers ev addr own bufs d fs)\<lparr>dev := d'\<rparr> = with_buffers ev addr own bufs d' fs"
  by (cases fs; simp)+

lemma write_part_block_ok:
  assumes ok: "files_ok fs" "buffers_ok fs" and b: "is_data fs b" and l: "off + length xs \<le> blockSize fs"
  defines "new \<equiv> splice off xs (blk fs b)"
  shows "\<exists>i ev addr own bufs d. write_part_block inode b off xs fs = Inr (True, with_buffers ev addr own bufs d fs)
    \<and> files_ok (with_buffers ev addr own bufs d fs) \<and> blk (with_buffers ev addr own bufs d fs) = (blk fs)(b := new)
    \<and> own_buffer (with_buffers ev addr own bufs d fs) (in_number inode) i \<and> addr ! i = b \<and> bufs ! i = new"
proof -
  have "in_data_area fs b" using b by (simp add: is_data_def)
  from load_buffer_ok [OF ok this, of inode] obtain i ev addr own bufs d where
    L: "load_buffer inode b fs = Inr (Some i, with_buffers ev addr own bufs d fs)" "files_ok (with_buffers ev addr own bufs d fs)"
      "buffers_ok (with_buffers ev addr own bufs d fs)" "view d = view (dev fs)" "own_buffer (with_buffers ev addr own bufs d fs) (in_number inode) i"
      "addr ! i = b" "bufs ! i = blk fs b" by blast
  have i: "i < length bufs" using L(3,5) by (simp add: own_buffer_def buffers_ok_def)
  let ?bufs = "bufs[i := new]" let ?fs2 = "with_buffers ev addr own ?bufs d fs"
  have cr: "cache_ready d" using L(2) by (simp add: files_ok_def fs_ok_def dev_ok_def)
  note ok2 = buffers_files_ok [OF ok(1) cr L(4), of ?bufs own addr ev]
  have geo: "same_geometry fs ?fs2" by (rule buffers_geometry)
  have b2: "is_data ?fs2 b" using b geometry_inodes(2,3) [OF geo] geometry_accessors(4,8) [OF geo] by (simp add: is_data_def)
  have "dev_ok fs" using ok(1) by (simp add: files_ok_def fs_ok_def)
  then have "length new = blockSize ?fs2" using splice_length [of off xs "blk fs b"] l blk_length [of fs b] by (simp add: new_def)
  from write_data_ok [OF ok2(1) b2 this] obtain d' where d': "write_block b new ?fs2 = Inr (0, with_buffers ev addr own ?bufs d' fs)"
    "files_ok (with_buffers ev addr own ?bufs d' fs)" "blk (with_buffers ev addr own ?bufs d' fs) = (blk ?fs2)(b := new)"
    unfolding with_buffers_twice by blast
  have "write_part_block inode b off xs fs = Inr (True, with_buffers ev addr own ?bufs d' fs)"
    using L(1,7) d'(1) i by (simp add: write_part_block_def Let_def new_def)
  moreover have "own_buffer (with_buffers ev addr own ?bufs d' fs) (in_number inode) i" using L(5) by (simp add: own_buffer_def)
  moreover have "blk (with_buffers ev addr own ?bufs d' fs) = (blk fs)(b := new)" using d'(3) ok2(2) by simp
  ultimately show ?thesis using d'(2) L(6) i nth_list_update_eq [OF i, of new] by blast
qed

text \<open>The end of a write: the inode and the superblock reach the disk.\<close>

definition same_data_buffers :: "ext2 \<Rightarrow> ext2 \<Rightarrow> bool" where
  "same_data_buffers fs fs' \<longleftrightarrow> blockBufferAddress fs' = blockBufferAddress fs \<and> blockBufferOwner fs' = blockBufferOwner fs \<and> blockBuffer fs' = blockBuffer fs"

definition sync_inode :: "nat \<Rightarrow> fs_Inode \<Rightarrow> ext2 \<Rightarrow> (nat \<times> fs_Inode \<times> ext2) result" where
  "sync_inode w inode fs = rbind (ext2_write_inode inode fs) (\<lambda>(_, inode4, fs3).
     rbind (ext2_superblock_write (put_sb 48 (unat (i_lastModification (in_data inode4))) fs3)) (\<lambda>(_, fs4). Inr (w, inode4, fs4)))"

lemma sync_inode_ok:
  assumes ok: "files_ok fs" and n: "inode_number fs (in_number inode)"
  defines "b \<equiv> inode_block fs (in_number inode)"
  shows "\<exists>fs'. sync_inode w inode fs = Inr (w, inode\<lparr>in_data := now_modified fs (in_data inode)\<rparr>, fs') \<and> files_ok fs' \<and> same_geometry fs fs'
    \<and> same_data_buffers fs fs' \<and> (\<forall>x. table_end fs \<le> x \<longrightarrow> x \<noteq> b \<longrightarrow> blk fs' x = blk fs x)"
proof -
  from write_inode_ok [OF ok n] obtain buf d where
    W: "ext2_write_inode inode fs = Inr (0, inode\<lparr>in_data := now_modified fs (in_data inode)\<rparr>, with_fragment b buf d fs)"
      "files_ok (with_fragment b buf d fs)" "blk (with_fragment b buf d fs) = (blk fs)(b := buf)" unfolding b_def by blast
  let ?fs1 = "with_fragment b buf d fs" and ?t = "unat (i_lastModification (now_modified fs (in_data inode)))"
  have fs1: "fs_ok ?fs1" using W(2) by (simp add: files_ok_def)
  let ?fs2 = "put_sb 48 ?t ?fs1"
  note geo1 = fragment_geometry [of fs buf b d]
  have m2: "meta_step {} ?fs1 ?fs2" using put_sb_ok(1) [OF fs1, of 48 ?t] by simp
  then have fs2: "fs_ok ?fs2" "same_geometry ?fs1 ?fs2" by (simp_all add: meta_step_def)
  obtain d3 where d3: "ext2_superblock_write ?fs2 = Inr (0, ?fs2\<lparr>dev := d3\<rparr>)" "fs_ok (?fs2\<lparr>dev := d3\<rparr>)"
    "\<forall>x. table_block ?fs2 \<le> x \<longrightarrow> blk (?fs2\<lparr>dev := d3\<rparr>) x = blk ?fs2 x" using superblock_write_ok [OF fs2(1)] by blast
  let ?fs3 = "?fs2\<lparr>dev := d3\<rparr>"
  have geo3: "same_geometry fs ?fs3" by (rule same_geometry_trans [OF same_geometry_trans [OF geo1 fs2(2)] same_geometry_dev(1)])
  have b2: "blk ?fs2 = blk ?fs1" by (intro ext) (simp add: blk_def block_sectors_def put_sb_def)
  have te: "table_end ?fs2 = table_end fs" "table_block ?fs2 = table_block fs"
    using geometry_accessors [OF same_geometry_trans [OF geo1 fs2(2)]] by simp_all
  have keep: "blk ?fs3 x = ((blk fs)(b := buf)) x" if "table_end fs \<le> x" for x
    using d3(3) that table_end_pos(2) [of fs] b2 W(3) te by simp
  have "table_end fs \<le> b" using ok n by (auto simp: files_ok_def tables_ok_def in_data_area_def b_def)
  then have "fragment_ok ?fs3" using keep W(2,3) by (simp add: files_ok_def fragment_ok_def put_sb_def)
  then have "files_ok ?fs3" using d3(2) geometry_inodes(4) [OF geo3] ok by (simp add: files_ok_def)
  moreover have "sync_inode w inode fs = Inr (w, inode\<lparr>in_data := now_modified fs (in_data inode)\<rparr>, ?fs3)" using W(1) d3(1) by (simp add: sync_inode_def)
  moreover have "same_data_buffers fs ?fs3" by (simp add: same_data_buffers_def put_sb_def)
  ultimately show ?thesis using geo3 keep by auto
qed

text \<open>A transfer of \<open>sz\<close> bytes at \<open>offset\<close> that stays within one direct block of the file, which exists.\<close>

definition in_block :: "ext2 \<Rightarrow> fs_Inode \<Rightarrow> nat \<Rightarrow> nat \<Rightarrow> bool" where
  "in_block fs inode offset sz \<longleftrightarrow> 0 < sz \<and> offset mod blockSize fs + sz < blockSize fs \<and> offset + sz < 2 ^ 32 \<and> offset div blockSize fs < 12
     \<and> offset div blockSize fs \<le> i_size (in_data inode) div blockSize fs \<and> i_directBlockPointers (in_data inode) ! (offset div blockSize fs) \<noteq> 0"

lemma in_block_one:
  assumes "in_block fs inode offset sz"
  shows "(offset + sz) mod 2 ^ 32 div blockSize fs = offset div blockSize fs" "offset - offset div blockSize fs * blockSize fs = offset mod blockSize fs"
    "\<not> offset < offset div blockSize fs * blockSize fs"
proof -
  have e: "offset + sz = (offset mod blockSize fs + sz) + offset div blockSize fs * blockSize fs" by (simp add: ac_simps)
  have m: "(offset + sz) mod 2 ^ 32 = offset + sz" using assms by (simp add: in_block_def)
  have "(offset + sz) div blockSize fs = offset div blockSize fs" unfolding e using assms by (subst div_mult_self1) (auto simp: in_block_def)
  then show "(offset + sz) mod 2 ^ 32 div blockSize fs = offset div blockSize fs" unfolding m .
  show "offset - offset div blockSize fs * blockSize fs = offset mod blockSize fs" by (simp add: minus_div_mult_eq_mod)
  show "\<not> offset < offset div blockSize fs * blockSize fs" by (rule leD) (rule div_times_less_eq_dividend)
qed

lemma write_in_block:
  assumes ok: "files_ok fs" "buffers_ok fs" and n: "inode_number fs (in_number inode)" and ib: "in_block fs inode offset sz" and l: "sz \<le> length src"
  defines "b \<equiv> i_directBlockPointers (in_data inode) ! (offset div blockSize fs)"
  assumes b: "is_data fs b"
  defines "new \<equiv> splice (offset mod blockSize fs) (take sz src) (blk fs b)"
  shows "\<exists>inode' fs' i. ext2_write_inode_content inode offset sz src fs = Inr (sz, inode', fs') \<and> files_ok fs' \<and> same_geometry fs fs'
    \<and> in_number inode' = in_number inode \<and> i_size (in_data inode') = max (i_size (in_data inode)) (offset + sz)
    \<and> i_directBlockPointers (in_data inode') = i_directBlockPointers (in_data inode)
    \<and> (\<forall>x. table_end fs \<le> x \<longrightarrow> x \<noteq> inode_block fs (in_number inode) \<longrightarrow> blk fs' x = ((blk fs)(b := new)) x)
    \<and> own_buffer fs' (in_number inode) i \<and> blockBufferAddress fs' ! i = b \<and> blockBuffer fs' ! i = new"
proof -
  let ?k = "offset div blockSize fs" and ?o = "offset mod blockSize fs"
  note one = in_block_one [OF ib]
  have p: "0 < sz" "?o + sz < blockSize fs" "offset + sz < 2 ^ 32" "?k < 12" "?k \<le> i_size (in_data inode) div blockSize fs" "b \<noteq> 0"
    using ib by (simp_all add: in_block_def b_def)
  have len: "?o + length (take sz src) \<le> blockSize fs" using p(2) l by simp
  obtain i ev addr own bufs d where W: "write_part_block inode b ?o (take sz src) fs = Inr (True, with_buffers ev addr own bufs d fs)"
    "files_ok (with_buffers ev addr own bufs d fs)" "blk (with_buffers ev addr own bufs d fs) = (blk fs)(b := new)"
    "own_buffer (with_buffers ev addr own bufs d fs) (in_number inode) i" "addr ! i = b" "bufs ! i = new"
    using write_part_block_ok [OF ok b len, of inode] unfolding new_def by blast
  let ?fs1 = "with_buffers ev addr own bufs d fs"
  have geo1: "same_geometry fs ?fs1" by (rule buffers_geometry)
  have bf: "block_for inode ?k fs = Inr (b, inode, fs)" using p(4,6) by (simp add: block_for_def block_index_to_block_def Let_def b_def)
  have loop: "write_loop [?k..<Suc ?k] offset src sz 0 inode fs = Inr (0, inode, ?fs1)"
    using one(2,3) bf p(2,6) W(1) l by (simp add: Let_def)
  let ?inode = "upd_data (\<lambda>d. if (offset + sz) mod 2 ^ 32 > i_size d then d\<lparr>i_size := (offset + sz) mod 2 ^ 32\<rparr> else d) inode"
  have eq: "ext2_write_inode_content inode offset sz src fs = sync_inode sz ?inode ?fs1"
    unfolding ext2_write_inode_content_def Let_def one(1) sync_inode_def using p(5) loop by (simp del: write_loop.simps upt_Suc cong: if_cong)
  have num: "in_number ?inode = in_number inode" by (simp add: upd_data_def)
  have n1: "inode_number ?fs1 (in_number ?inode)" using n geometry_inodes(2) [OF geo1] num by simp
  obtain fs' where fs': "sync_inode sz ?inode ?fs1 = Inr (sz, ?inode\<lparr>in_data := now_modified ?fs1 (in_data ?inode)\<rparr>, fs')" "files_ok fs'" "same_geometry ?fs1 fs'"
    "same_data_buffers ?fs1 fs'" "\<forall>x. table_end ?fs1 \<le> x \<longrightarrow> x \<noteq> inode_block ?fs1 (in_number ?inode) \<longrightarrow> blk fs' x = blk ?fs1 x"
    using sync_inode_ok [OF W(2) n1] by blast
  let ?inode' = "?inode\<lparr>in_data := now_modified ?fs1 (in_data ?inode)\<rparr>"
  have "i_size (in_data ?inode') = max (i_size (in_data inode)) (offset + sz)" "i_directBlockPointers (in_data ?inode') = i_directBlockPointers (in_data inode)"
    "in_number ?inode' = in_number inode" using p(3) by (auto simp: now_modified_def upd_data_def)
  moreover have "\<forall>x. table_end fs \<le> x \<longrightarrow> x \<noteq> inode_block fs (in_number inode) \<longrightarrow> blk fs' x = ((blk fs)(b := new)) x"
    using fs'(5) W(3) geometry_accessors(3) [OF geo1] geometry_inodes(3) [OF geo1 n] num by simp
  moreover have "own_buffer fs' (in_number inode) i" "blockBufferAddress fs' ! i = b" "blockBuffer fs' ! i = new"
    using fs'(4) W(4-6) by (simp_all add: same_data_buffers_def own_buffer_def)
  ultimately show ?thesis using eq fs'(1-3) same_geometry_trans [OF geo1 fs'(3)] by (intro exI [of _ ?inode'] exI [of _ fs'] exI [of _ i]) simp
qed

lemma read_buffered:
  assumes o: "own_buffer fs (in_number inode) i" "blockBufferAddress fs ! i = b" and l: "length (blockBuffer fs ! i) = blockSize fs"
    and ib: "in_block fs inode offset sz" and b: "b = i_directBlockPointers (in_data inode) ! (offset div blockSize fs)"
    and s: "offset + sz \<le> i_size (in_data inode)" "sz \<le> length buffer"
  shows "ext2_read_inode_content inode offset sz buffer fs
    = Inr (int sz, take sz (drop (offset mod blockSize fs) (blockBuffer fs ! i)) @ drop sz buffer, fs)"
proof -
  let ?k = "offset div blockSize fs" and ?o = "offset mod blockSize fs" and ?xs = "take sz (drop (offset mod blockSize fs) (blockBuffer fs ! i))"
  have p: "0 < sz" "?o + sz < blockSize fs" "offset + sz < 2 ^ 32" "?k < 12" using ib by (simp_all add: in_block_def)
  have "load_buffer inode b fs = Inr (Some i, fs)" using choose_own [OF o(1)] o(2) by (simp add: load_buffer_def)
  then have rb: "read_inode_block inode ?k ?o sz fs = Inr (Some ?xs, fs)"
    using p(4) b by (simp add: read_inode_block_def block_index_to_block_def Let_def)
  have xs: "length ?xs = sz" using p(2) l by simp
  have put: "put_bytes 0 (Some ?xs) buffer = Inr (?xs @ drop sz buffer)" 
  proof -
    have "?xs \<noteq> []" using xs p(1) by (metis length_0_conv less_irrefl)
    then show ?thesis using xs s(2) by (simp add: put_bytes_def splice_def del: length_take length_drop)
  qed
  have "sz < blockSize fs - ?o" using p(2) by linarith
  then have loop: "read_loop [?k..<Suc ?k] inode offset sz 0 buffer fs = Inr (?xs @ drop sz buffer, fs)"
    using rb put by (simp add: Let_def)
  show ?thesis unfolding ext2_read_inode_content_def Let_def
    using in_block_one(1) [OF ib] loop p(1,3) s(1) by (simp del: upt_Suc read_loop.simps)
qed

section \<open>Transfers of several blocks\<close>

lemma read_inode_block_ok:
  assumes ok: "files_ok fs" "buffers_ok fs" and k: "k < 12" "in_data_area fs (i_directBlockPointers (in_data inode) ! k)"
  shows "\<exists>fs'. read_inode_block inode k off len fs = Inr (Some (take len (drop off (blk fs (i_directBlockPointers (in_data inode) ! k)))), fs')
    \<and> files_ok fs' \<and> buffers_ok fs' \<and> blk fs' = blk fs \<and> same_geometry fs fs'"
proof -
  let ?b = "i_directBlockPointers (in_data inode) ! k"
  obtain i ev addr own bufs d where L: "load_buffer inode ?b fs = Inr (Some i, with_buffers ev addr own bufs d fs)"
    "files_ok (with_buffers ev addr own bufs d fs)" "buffers_ok (with_buffers ev addr own bufs d fs)" "view d = view (dev fs)" "bufs ! i = blk fs ?b"
    using load_buffer_ok [OF ok k(2), of inode] by blast
  let ?fs' = "with_buffers ev addr own bufs d fs"
  have "blk ?fs' = blk fs" using L(4) by (intro blk_cong buffers_geometry) simp
  moreover have "read_inode_block inode k off len fs = Inr (Some (take len (drop off (blk fs ?b))), ?fs')"
    using k(1) L(1,5) by (simp add: read_inode_block_def block_index_to_block_def Let_def)
  moreover have "same_geometry fs ?fs'" by (rule buffers_geometry)
  ultimately show ?thesis using L(2,3) by blast
qed

text \<open>A whole block is written past the buffers, which forget it.\<close>

lemma write_full_block:
  assumes ok: "files_ok fs" and k: "k < 12" "i_directBlockPointers (in_data inode) ! k = b" "b \<noteq> 0" "is_data fs b"
    and o: "offset \<le> k * blockSize fs" "blockSize fs \<le> rem" "from + blockSize fs \<le> length src"
  shows "\<exists>addr d. write_loop (k # ks) offset src rem from inode fs = write_loop ks offset src rem (from + blockSize fs) inode (fs\<lparr>dev := d, blockBufferAddress := addr\<rparr>)
    \<and> files_ok (fs\<lparr>dev := d, blockBufferAddress := addr\<rparr>) \<and> blk (fs\<lparr>dev := d, blockBufferAddress := addr\<rparr>) = (blk fs)(b := take (blockSize fs) (drop from src))"
proof -
  let ?addr = "map (\<lambda>a. if a = b then 0 else a) (blockBufferAddress fs)" and ?new = "take (blockSize fs) (drop from src)"
  let ?fs1 = "fs\<lparr>blockBufferAddress := ?addr\<rparr>"
  have e: "?fs1 = with_buffers (evictBlockBuffer fs) ?addr (blockBufferOwner fs) (blockBuffer fs) (dev fs) fs" by (cases fs) simp
  have "cache_ready (dev fs)" using ok by (simp add: files_ok_def fs_ok_def dev_ok_def)
  from buffers_files_ok [OF ok this refl] have fs1: "files_ok ?fs1" "blk ?fs1 = blk fs" unfolding e by blast+
  have geo: "same_geometry fs ?fs1" unfolding e by (rule buffers_geometry)
  have "is_data ?fs1 b" using k(4) geometry_inodes(2,3) [OF geo] geometry_accessors(4,8) [OF geo] by (simp add: is_data_def)
  moreover have "length ?new = blockSize ?fs1" using o(3) by simp
  ultimately obtain d where d: "write_block b ?new ?fs1 = Inr (0, ?fs1\<lparr>dev := d\<rparr>)" "files_ok (?fs1\<lparr>dev := d\<rparr>)" "blk (?fs1\<lparr>dev := d\<rparr>) = (blk ?fs1)(b := ?new)"
    using write_data_ok [OF fs1(1)] by blast
  have e2: "?fs1\<lparr>dev := d\<rparr> = fs\<lparr>dev := d, blockBufferAddress := ?addr\<rparr>" by (cases fs) simp
  have bf: "block_for inode k fs = Inr (b, inode, fs)" using k(1-3) by (simp add: block_for_def block_index_to_block_def Let_def)
  have "write_loop (k # ks) offset src rem from inode fs = write_loop ks offset src rem (from + blockSize fs) inode (?fs1\<lparr>dev := d\<rparr>)"
    using bf k(3) o d(1) by (simp add: Let_def)
  then show ?thesis using d(2,3) fs1(2) unfolding e2 by auto
qed

section \<open>A small file\<close>

definition small_file :: fs_Inode where
  "small_file = \<lparr>in_number = 12, in_data = zero_inode\<lparr>i_size := 3000, i_directBlockPointers := [20, 21, 22, 0, 0, 0, 0, 0, 0, 0, 0, 0]\<rparr>,
     in_refCount = 0, in_extra = None\<rparr>"

lemma small_fs_buffers: "buffers_ok small_fs"
  by (auto simp: buffers_ok_def small_fs_def BLOCK_BUFFER_COUNT_def nth_replicate)

lemma small_fs_data: "is_data small_fs 20" "is_data small_fs 21" "is_data small_fs 22"
proof -
  have "is_data small_fs b" if "20 \<le> b" "b \<le> 22" for b
    using that small_fs_files(3) by (fastforce simp: is_data_def in_data_area_def is_bitmap_def small_fs_layout small_fs_fields)
  then show "is_data small_fs 20" "is_data small_fs 21" "is_data small_fs 22" by simp_all
qed

section \<open>Properties\<close>

text \<open>C7. A write within a block of a file is stored: the call returns the number of bytes, the block on the disk holds
  them, the other data blocks are unchanged, and a read at the same place returns them.\<close>

theorem write_then_read:
  assumes ok: "files_ok fs" "buffers_ok fs" and n: "inode_number fs (in_number inode)" and ib: "in_block fs inode offset sz"
    and b: "b = i_directBlockPointers (in_data inode) ! (offset div blockSize fs)" "is_data fs b"
    and l: "sz \<le> length src" "sz \<le> length buffer"
  shows "\<exists>inode' fs'. ext2_write_inode_content inode offset sz src fs = Inr (sz, inode', fs') \<and> files_ok fs'
    \<and> i_size (in_data inode') = max (i_size (in_data inode)) (offset + sz)
    \<and> blk fs' b = splice (offset mod blockSize fs) (take sz src) (blk fs b)
    \<and> (\<forall>x. is_data fs x \<longrightarrow> x \<noteq> b \<longrightarrow> blk fs' x = blk fs x)
    \<and> ext2_read_inode_content inode' offset sz buffer fs' = Inr (int sz, take sz src @ drop sz buffer, fs')"
proof -
  let ?o = "offset mod blockSize fs" and ?k = "offset div blockSize fs" let ?new = "splice ?o (take sz src) (blk fs b)"
  obtain inode' fs' i where W: "ext2_write_inode_content inode offset sz src fs = Inr (sz, inode', fs')" "files_ok fs'" "same_geometry fs fs'"
    "in_number inode' = in_number inode" "i_size (in_data inode') = max (i_size (in_data inode)) (offset + sz)"
    "i_directBlockPointers (in_data inode') = i_directBlockPointers (in_data inode)"
    "\<forall>x. table_end fs \<le> x \<longrightarrow> x \<noteq> inode_block fs (in_number inode) \<longrightarrow> blk fs' x = ((blk fs)(b := ?new)) x"
    "own_buffer fs' (in_number inode) i" "blockBufferAddress fs' ! i = b" "blockBuffer fs' ! i = ?new"
    using write_in_block [OF ok n ib l(1)] b by blast
  have bs: "blockSize fs' = blockSize fs" using W(3) by (simp add: same_geometry_def)
  have fit: "?o + length (take sz src) \<le> length (blk fs b)" using ib l ok(1) blk_length [of fs b] by (auto simp: in_block_def files_ok_def fs_ok_def)
  then have "length ?new = blockSize fs" using ok(1) blk_length [of fs b] splice_length [OF fit] by (simp add: files_ok_def fs_ok_def)
  then have len: "length (blockBuffer fs' ! i) = blockSize fs'" using W(10) bs by simp
  have "i_size (in_data inode) div blockSize fs \<le> i_size (in_data inode') div blockSize fs" using W(5) by (intro div_le_mono) simp
  then have ib': "in_block fs' inode' offset sz" using ib W(6) unfolding in_block_def bs by simp
  have sz: "offset + sz \<le> i_size (in_data inode')" using W(5) by simp
  have b': "b = i_directBlockPointers (in_data inode') ! (offset div blockSize fs')" using b(1) W(6) bs by simp
  have own: "own_buffer fs' (in_number inode') i" using W(4,8) by simp
  have "take sz (drop ?o ?new) = take sz src" using take_drop_splice(1) [OF fit] l(1) by simp
  then have "ext2_read_inode_content inode' offset sz buffer fs' = Inr (int sz, take sz src @ drop sz buffer, fs')"
    using read_buffered [OF own W(9) len ib' b' sz l(2)] W(10) bs by simp
  moreover have "blk fs' x = (if x = b then ?new else blk fs x)" if "is_data fs x" for x
    using W(7) that n by (auto simp: is_data_def in_data_area_def)
  ultimately show ?thesis using W(1,2,5) b(2) by auto
qed

theorem write_then_read_witness:
  "\<exists>inode' fs'. ext2_write_inode_content small_file 1500 4 [1, 2, 3, 4] small_fs = Inr (4, inode', fs') \<and> i_size (in_data inode') = 3000
    \<and> ext2_read_inode_content inode' 1500 4 [0, 0, 0, 0, 9] fs' = Inr (4, [1, 2, 3, 4, 9], fs')"
proof -
  have f: "inode_number small_fs (in_number small_file)" "in_block small_fs small_file 1500 4" unfolding small_fs_files(2)
    by (simp_all add: small_file_def in_block_def small_fs_fields zero_inode_def)
  have "(21::nat) = i_directBlockPointers (in_data small_file) ! (1500 div blockSize small_fs)" by (simp add: small_file_def small_fs_fields zero_inode_def)
  from write_then_read [OF small_fs_files(1) small_fs_buffers f this small_fs_data(2), of "[1, 2, 3, 4]" "[0, 0, 0, 0, 9]"] show ?thesis
    by (auto simp: small_file_def zero_inode_def)
qed

text \<open>C31. A write of one block at a block boundary is not counted: the number of bytes left is not decreased, so the loop
  goes on to the next block of the file, which gets the bytes behind the buffer, and the call returns \<open>0\<close>.\<close>

theorem aligned_write_uncounted:
  assumes ok: "files_ok fs" and n: "inode_number fs (in_number inode)" and k: "Suc k < 12"
    and b: "i_directBlockPointers (in_data inode) ! k = b" "i_directBlockPointers (in_data inode) ! Suc k = b'" "b \<noteq> 0" "b' \<noteq> 0" "b \<noteq> b'"
    and data: "is_data fs b" "is_data fs b'"
    and sz: "Suc k * blockSize fs < 2 ^ 32" "k * blockSize fs \<le> i_size (in_data inode)" "length src = 2 * blockSize fs"
  shows "\<exists>inode' fs'. ext2_write_inode_content inode (k * blockSize fs) (blockSize fs) src fs = Inr (0, inode', fs')
    \<and> i_size (in_data inode') = i_size (in_data inode) \<and> blk fs' b = take (blockSize fs) src \<and> blk fs' b' = drop (blockSize fs) src"
proof -
  let ?bs = "blockSize fs"
  have bs: "0 < ?bs" using ok by (auto simp: files_ok_def fs_ok_def dev_ok_def SECTOR_SIZE_def)
  obtain addr d where A: "write_loop [k, Suc k] (k * ?bs) src ?bs 0 inode fs = write_loop [Suc k] (k * ?bs) src ?bs (0 + ?bs) inode (fs\<lparr>dev := d, blockBufferAddress := addr\<rparr>)"
    "files_ok (fs\<lparr>dev := d, blockBufferAddress := addr\<rparr>)" "blk (fs\<lparr>dev := d, blockBufferAddress := addr\<rparr>) = (blk fs)(b := take ?bs (drop 0 src))"
    using write_full_block [OF ok _ b(1,3) data(1), of "k * ?bs" ?bs 0 src "[Suc k]"] k sz(3) by auto
  let ?fs1 = "fs\<lparr>dev := d, blockBufferAddress := addr\<rparr>"
  have "?fs1 = with_buffers (evictBlockBuffer fs) addr (blockBufferOwner fs) (blockBuffer fs) d fs" by (cases fs) simp
  then have geo1: "same_geometry fs ?fs1" using buffers_geometry by metis
  have data1: "is_data ?fs1 b'" using data(2) geometry_inodes(2,3) [OF geo1] geometry_accessors(4,8) [OF geo1] by (simp add: is_data_def)
  obtain addr2 d2 where B: "write_loop [Suc k] (k * ?bs) src ?bs ?bs inode ?fs1 = write_loop [] (k * ?bs) src ?bs (?bs + ?bs) inode (?fs1\<lparr>dev := d2, blockBufferAddress := addr2\<rparr>)"
    "files_ok (?fs1\<lparr>dev := d2, blockBufferAddress := addr2\<rparr>)" "blk (?fs1\<lparr>dev := d2, blockBufferAddress := addr2\<rparr>) = (blk ?fs1)(b' := take ?bs (drop ?bs src))"
    using write_full_block [OF A(2) k b(2,4) data1, of "k * ?bs" ?bs ?bs src "[]"] sz(3) by auto
  let ?fs2 = "?fs1\<lparr>dev := d2, blockBufferAddress := addr2\<rparr>"
  have "?fs2 = with_buffers (evictBlockBuffer fs) addr2 (blockBufferOwner fs) (blockBuffer fs) d2 fs" by (cases fs) simp
  then have geo2: "same_geometry fs ?fs2" using buffers_geometry by metis
  have num2: "inode_number ?fs2 (in_number inode)" using n geometry_inodes(2) [OF geo2] by simp
  obtain fs' where S: "sync_inode 0 inode ?fs2 = Inr (0, inode\<lparr>in_data := now_modified ?fs2 (in_data inode)\<rparr>, fs')"
    "\<forall>x. table_end ?fs2 \<le> x \<longrightarrow> x \<noteq> inode_block ?fs2 (in_number inode) \<longrightarrow> blk fs' x = blk ?fs2 x" using sync_inode_ok [OF B(2) num2] by blast
  have div: "(k * ?bs + ?bs) mod 2 ^ 32 div ?bs = Suc k" "k * ?bs div ?bs = k" using sz(1) bs by (simp_all add: add.commute)
  have le: "k \<le> i_size (in_data inode) div ?bs" using div_le_mono [OF sz(2), of ?bs] bs by simp
  have up: "[k..<Suc (Suc k)] = [k, Suc k]" by (simp add: upt_conv_Cons)
  have mod: "k * ?bs mod 2 ^ 32 = k * ?bs" using sz(1) by (intro mod_less) simp
  have "ext2_write_inode_content inode (k * ?bs) ?bs src fs = sync_inode 0 inode ?fs2"
    unfolding ext2_write_inode_content_def Let_def div up sync_inode_def using A(1) B(1) le mod sz(2)
    by (simp del: write_loop.simps(2) add: upd_data_def)
  moreover have "blk fs' x = blk ?fs2 x" if "is_data fs x" for x
    using S(2) that n geometry_accessors(3) [OF geo2] geometry_inodes(3) [OF geo2 n] by (auto simp: is_data_def in_data_area_def)
  ultimately show ?thesis using S(1) A(3) B(3) b(5) data sz(3) by (auto simp: now_modified_def)
qed

theorem aligned_write_uncounted_witness:
  "\<exists>inode' fs'. ext2_write_inode_content small_file 1024 1024 (replicate 1024 1 @ replicate 1024 2) small_fs = Inr (0, inode', fs')
    \<and> blk fs' 21 = replicate 1024 1 \<and> blk fs' 22 = replicate 1024 2"
proof -
  have "inode_number small_fs (in_number small_file)" unfolding small_fs_files(2) by (simp add: small_file_def)
  from aligned_write_uncounted [OF small_fs_files(1) this, of 1 21 22 "replicate 1024 1 @ replicate 1024 2"] show ?thesis
    using small_fs_data small_fs_fields(1) by (fastforce simp: small_file_def zero_inode_def)
qed

text \<open>C32. A read over more than two blocks is wrong: every block between the first and the last is stored at the start of the
  destination, over the first one, and its own place is not written. Shown for a read from the start of the file into the third block.\<close>

theorem middle_block_misplaced:
  assumes ok: "files_ok fs" "buffers_ok fs"
    and b: "\<forall>k < 3. in_data_area fs (i_directBlockPointers (in_data inode) ! k)"
    and sz: "2 * blockSize fs < sz" "sz < 3 * blockSize fs" "sz \<le> i_size (in_data inode)" "sz < 2 ^ 32" "length buffer = sz"
  shows "\<exists>fs'. ext2_read_inode_content inode 0 sz buffer fs = Inr (int sz, blk fs (i_directBlockPointers (in_data inode) ! 1)
    @ take (blockSize fs) (drop (blockSize fs) buffer) @ take (sz - 2 * blockSize fs) (blk fs (i_directBlockPointers (in_data inode) ! 2)), fs')"
proof -
  let ?bs = "blockSize fs" and ?b = "\<lambda>k. blk fs (i_directBlockPointers (in_data inode) ! k)"
  have bs: "0 < ?bs" using sz(1,2) by linarith
  have len: "length (blk fs x) = ?bs" for x using ok(1) by (intro blk_length) (simp add: files_ok_def fs_ok_def)
  have dv: "sz div ?bs = 2" using sz(1,2) by (intro div_nat_eqI) simp_all
  have sq: "sz div ?bs = 2" "sz mod ?bs = sz - 2 * ?bs" using dv by (simp_all add: modulo_nat_def)
  have in0: "in_data_area fs (i_directBlockPointers (in_data inode) ! 0)" using b by simp
  obtain fs1 where F1: "read_inode_block inode 0 0 ?bs fs = Inr (Some (?b 0), fs1)" "files_ok fs1" "buffers_ok fs1" "blk fs1 = blk fs" "same_geometry fs fs1"
    using read_inode_block_ok [OF ok _ in0, of 0 ?bs] len by auto
  have in1: "in_data_area fs1 (i_directBlockPointers (in_data inode) ! 1)" using b geometry_accessors(4) [OF F1(5)] by simp
  obtain fs2 where F2: "read_inode_block inode 1 0 ?bs fs1 = Inr (Some (?b 1), fs2)" "files_ok fs2" "buffers_ok fs2" "blk fs2 = blk fs" "same_geometry fs fs2"
    using read_inode_block_ok [OF F1(2,3) _ in1, of 0 ?bs] len F1(4) same_geometry_trans [OF F1(5)] by auto
  have in2: "in_data_area fs2 (i_directBlockPointers (in_data inode) ! 2)" using b geometry_accessors(4) [OF F2(5)] by simp
  obtain fs3 where F3: "read_inode_block inode 2 0 (sz mod ?bs) fs2 = Inr (Some (take (sz mod ?bs) (?b 2)), fs3)"
    using read_inode_block_ok [OF F2(2,3) _ in2, of 0 "sz mod ?bs"] F2(4) by auto
  have bs12: "blockSize fs1 = ?bs" "blockSize fs2 = ?bs" using F1(5) F2(5) by (simp_all add: same_geometry_def)
  let ?u1 = "?b 0 @ drop ?bs buffer" and ?u2 = "?b 1 @ drop ?bs buffer"
  let ?u3 = "?b 1 @ take ?bs (drop ?bs buffer) @ take (sz - 2 * ?bs) (?b 2)"
  have ne: "?b k \<noteq> []" for k using len [of "i_directBlockPointers (in_data inode) ! k"] bs by auto
  have p1: "put_bytes 0 (Some (?b 0)) buffer = Inr ?u1" and p2: "put_bytes 0 (Some (?b 1)) ?u1 = Inr ?u2"
    using ne len sz by (simp_all add: put_bytes_def splice_def)
  have p3: "put_bytes (?bs + ?bs) (Some (take (sz mod ?bs) (?b 2))) ?u2 = Inr ?u3"
    using len sz sq(2) ne by (simp add: put_bytes_def splice_def min_def)
  have loop: "read_loop [0, 1, 2] inode 0 sz 0 buffer fs = Inr (?u3, fs3)"
    using F1(1) F2(1) F3 p1 p2 p3 bs bs12 sq(1) sz by (simp add: Let_def)
  have "[0..<Suc 2] = [0, 1, 2::nat]" by (simp add: numeral_2_eq_2)
  then show ?thesis unfolding ext2_read_inode_content_def Let_def using loop sz sq(1) by (simp del: read_loop.simps upt_Suc)
qed

theorem middle_block_misplaced_witness:
  "\<exists>fs'. ext2_read_inode_content small_file 0 3000 (replicate 3000 7) small_fs = Inr (3000, replicate 1024 0 @ replicate 1024 7 @ replicate 952 0, fs')"
proof -
  have "\<forall>k < 3. in_data_area small_fs (i_directBlockPointers (in_data small_file) ! k)"
    by (auto simp: small_file_def in_data_area_def small_fs_layout small_fs_fields less_Suc_eq numeral_3_eq_3)
  from middle_block_misplaced [OF small_fs_files(1) small_fs_buffers this, of 3000 "replicate 3000 7"] show ?thesis
    using small_fs_blocks by (simp add: small_fs_fields small_file_def)
qed

end
