(* ===== verification/Ext2_Dir.thy ===== *)
theory Ext2_Dir
  imports Ext2_Inode
begin

text \<open>
  \<open>src/drivers/ext2/directory.c\<close> and \<open>ext2.c\<close>: directories, loading of the file system and the operations on open
  files. The loops along the entries of a directory follow lengths read from the disk and need not end; they are
  partial functions, and so are the operations that use them.
\<close>

section \<open>Directory entries\<close>

definition NAME_MAX_LEN :: nat where "NAME_MAX_LEN = 256"
definition ENTRY_HEADER_LEN :: nat where "ENTRY_HEADER_LEN = 8"

record DirectoryEntry =
  de_inode :: nat
  de_entryLength :: nat
  de_nameLength :: nat
  de_name :: string

definition DIRECTORY_ENTRY_SIZE :: nat where "DIRECTORY_ENTRY_SIZE = 268"

definition byte_char :: "u8 \<Rightarrow> char" where "byte_char b = char_of (unat b)"
definition char_byte :: "char \<Rightarrow> u8" where "char_byte c = of_nat (of_char c)"

text \<open>The memory of a \<open>struct DirectoryEntry\<close>: after the name come three bytes of padding.\<close>

definition entry_bytes :: "DirectoryEntry \<Rightarrow> u8 list" where
  "entry_bytes e = le32 (de_inode e) @ le16 (de_entryLength e) @ le16 (de_nameLength e) @ map char_byte (de_name e) @ replicate 3 0"

definition entry_of_bytes :: "u8 list \<Rightarrow> DirectoryEntry" where
  "entry_of_bytes b = \<lparr>de_inode = get32 b 0, de_entryLength = get16 b 4, de_nameLength = get16 b 6,
     de_name = map byte_char (take (Suc NAME_MAX_LEN) (drop ENTRY_HEADER_LEN b))\<rparr>"

definition empty_entry :: DirectoryEntry where
  "empty_entry = \<lparr>de_inode = 0, de_entryLength = 0, de_nameLength = 0, de_name = replicate (Suc NAME_MAX_LEN) NUL\<rparr>"

definition pad :: "nat \<Rightarrow> nat \<Rightarrow> nat" where
  "pad v align = (let padding = align - v mod align in if padding = align then v else v + padding)"

definition ext2_dir_read :: "fs_Inode \<Rightarrow> nat \<Rightarrow> ext2 \<Rightarrow> (DirectoryEntry \<times> ext2) result" where
  "ext2_dir_read dir offset fs =
     (if INODE_TYPE (in_data dir) \<noteq> INODE_DIR then Inr (empty_entry, fs)
      else rbind (ext2_read_inode_content dir offset DIRECTORY_ENTRY_SIZE (entry_bytes empty_entry) fs) (\<lambda>(r, b, fs1).
        let entry = (if r = - 1 then (entry_of_bytes b)\<lparr>de_entryLength := 0\<rparr> else entry_of_bytes b)
        in if de_entryLength entry \<noteq> 0
           then rbind (cput (de_name entry) (de_nameLength entry) NUL) (\<lambda>name. Inr (entry\<lparr>de_name := name\<rparr>, fs1))
           else Inr (entry, fs1)))"

partial_function (option) dir_find_loop :: "fs_Inode \<Rightarrow> string \<Rightarrow> nat \<Rightarrow> DirectoryEntry \<Rightarrow> ext2 \<Rightarrow> (DirectoryEntry \<times> ext2) result option" where
  "dir_find_loop dir name offset entry fs =
     (if de_entryLength entry \<noteq> 0
      then (case strcmp (de_name entry) name of
              Inl e \<Rightarrow> Some (Inl e)
            | Inr r \<Rightarrow>
                if r = 0 then Some (Inr (entry, fs))
                else (case ext2_dir_read dir ((offset + de_entryLength entry) mod 2 ^ 32) fs of
                        Inl e \<Rightarrow> Some (Inl e)
                      | Inr x \<Rightarrow> dir_find_loop dir name ((offset + de_entryLength entry) mod 2 ^ 32) (fst x) (snd x)))
      else Some (Inr (entry, fs)))"

definition ext2_dir_find :: "fs_Inode \<Rightarrow> string \<Rightarrow> ext2 \<Rightarrow> (DirectoryEntry \<times> ext2) result option" where
  "ext2_dir_find dir name fs =
     (case ext2_dir_read dir 0 fs of
        Inl e \<Rightarrow> Some (Inl e)
      | Inr (entry, fs1) \<Rightarrow> dir_find_loop dir name 0 entry fs1)"

text \<open>Sequencing of operations that may not return.\<close>

definition obind :: "'a result option \<Rightarrow> ('a \<Rightarrow> 'b result option) \<Rightarrow> 'b result option" where
  "obind x f = (case x of None \<Rightarrow> None | Some (Inl e) \<Rightarrow> Some (Inl e) | Some (Inr y) \<Rightarrow> f y)"

text \<open>
  The search for room: the offset of the new entry, \<open>0\<close> when there is none, its length, and the end of the
  directory. The entry that had the room is cut on the disk.
\<close>

partial_function (option) dir_room_loop :: "nat \<Rightarrow> nat \<Rightarrow> DirectoryEntry \<Rightarrow> fs_Inode \<Rightarrow> ext2 \<Rightarrow>
    (nat \<times> nat \<times> nat \<times> fs_Inode \<times> ext2) result option" where
  "dir_room_loop len dirOffset cur dir fs =
     (if de_entryLength cur \<noteq> 0
      then (if pad (ENTRY_HEADER_LEN + de_nameLength cur) 4 + len \<le> de_entryLength cur
            then Some (rbind (ext2_write_inode_content dir dirOffset (pad (ENTRY_HEADER_LEN + de_nameLength cur) 4)
                   (entry_bytes (cur\<lparr>de_entryLength := pad (ENTRY_HEADER_LEN + de_nameLength cur) 4\<rparr>)) fs) (\<lambda>(_, dir1, fs1).
                   Inr (dirOffset + pad (ENTRY_HEADER_LEN + de_nameLength cur) 4,
                        de_entryLength cur - pad (ENTRY_HEADER_LEN + de_nameLength cur) 4, dirOffset, dir1, fs1)))
            else (case ext2_dir_read dir ((dirOffset + de_entryLength cur) mod 2 ^ 32) fs of
                    Inl e \<Rightarrow> Some (Inl e)
                  | Inr x \<Rightarrow> dir_room_loop len ((dirOffset + de_entryLength cur) mod 2 ^ 32) (fst x) dir (snd x)))
      else Some (Inr (0, 0, dirOffset, dir, fs)))"

text \<open>The place and the length of the new entry, before the check for the end of the block.\<close>

definition dir_place :: "nat \<Rightarrow> fs_Inode \<Rightarrow> ext2 \<Rightarrow> (nat \<times> nat \<times> fs_Inode \<times> ext2) result option" where
  "dir_place len dir fs =
     (if i_size (in_data dir) = 0 then Some (Inr (0, blockSize fs, dir, fs))
      else obind (Some (ext2_dir_read dir 0 fs)) (\<lambda>(cur, fs1).
           obind (dir_room_loop len 0 cur dir fs1) (\<lambda>(offset, elen, dirOffset, dir1, fs2).
             Some (Inr (if offset = 0
                        then (dirOffset, blockSize fs2 - dirOffset mod blockSize fs2, dir1, fs2)
                        else (offset, elen, dir1, fs2))))))"

definition ext2_dir_add :: "fs_Inode \<Rightarrow> string \<Rightarrow> nat \<Rightarrow> ext2 \<Rightarrow> (int \<times> fs_Inode \<times> ext2) result option" where
  "ext2_dir_add dir name inodeNumber fs =
     obind (ext2_dir_find dir name fs) (\<lambda>(old, fs1).
       if de_entryLength old \<noteq> 0 then Some (Inr (- 1, dir, fs1))
       else obind (Some (strlen (Some name))) (\<lambda>n0.
            let n = (if n0 mod 2 ^ 16 > NAME_MAX_LEN then NAME_MAX_LEN else n0 mod 2 ^ 16); len = ENTRY_HEADER_LEN + n
            in obind (Some (strncpy (replicate (Suc NAME_MAX_LEN) NUL) name NAME_MAX_LEN)) (\<lambda>nm.
               obind (dir_place len dir fs1) (\<lambda>(offset, elen, dir1, fs2).
                 let bs = blockSize fs2;
                     new = (offset mod bs + len \<ge> bs);
                     offset1 = (if new then bs * (1 + offset div bs) else offset);
                     elen1 = (if new then bs else elen);
                     entry = \<lparr>de_inode = inodeNumber, de_entryLength = elen1 mod 2 ^ 16, de_nameLength = n, de_name = nm[NAME_MAX_LEN := NUL]\<rparr>
                 in Some (rbind (ext2_write_inode_content dir1 offset1 len (entry_bytes entry) fs2) (\<lambda>(_, dir2, fs3).
                      ext2_write_inode (upd_data (\<lambda>d. d\<lparr>i_size := pad (i_size d) (blockSize fs3)\<rparr>) dir2) fs3))))))"

partial_function (option) dir_remove_loop :: "string \<Rightarrow> nat \<Rightarrow> nat \<Rightarrow> DirectoryEntry \<Rightarrow> fs_Inode \<Rightarrow> ext2 \<Rightarrow> (fs_Inode \<times> ext2) result option" where
  "dir_remove_loop name lastOffset offset entry dir fs =
     (if de_entryLength entry \<noteq> 0
      then (case strcmp (de_name entry) name of
              Inl e \<Rightarrow> Some (Inl e)
            | Inr r \<Rightarrow>
                if r = 0
                then Some (rbind (if offset mod blockSize fs = 0
                                  then Inr (offset, entry\<lparr>de_inode := 0, de_nameLength := 0\<rparr>, fs)
                                  else rbind (ext2_dir_read dir lastOffset fs) (\<lambda>(e, fs1).
                                         Inr (lastOffset, e\<lparr>de_entryLength := (de_entryLength e + de_entryLength entry) mod 2 ^ 16\<rparr>, fs1)))
                             (\<lambda>(off, e, fs1).
                               rbind (ext2_write_inode_content dir off (pad (ENTRY_HEADER_LEN + de_nameLength e) 4) (entry_bytes e) fs1)
                                 (\<lambda>(_, dir1, fs2). Inr (dir1, fs2))))
                else (case ext2_dir_read dir ((offset + de_entryLength entry) mod 2 ^ 32) fs of
                        Inl e \<Rightarrow> Some (Inl e)
                      | Inr x \<Rightarrow> dir_remove_loop name offset ((offset + de_entryLength entry) mod 2 ^ 32) (fst x) dir (snd x)))
      else Some (Inr (dir, fs)))"

definition ext2_dir_remove :: "fs_Inode \<Rightarrow> string \<Rightarrow> ext2 \<Rightarrow> (int \<times> fs_Inode \<times> ext2) result option" where
  "ext2_dir_remove dir name fs =
     obind (Some (ext2_dir_read dir 0 fs)) (\<lambda>(entry, fs1).
     obind (dir_remove_loop name 0 0 entry dir fs1) (\<lambda>(dir1, fs2). Some (Inr (0, dir1, fs2))))"

definition ext2_dir_create :: "nat \<Rightarrow> nat \<Rightarrow> nat \<Rightarrow> ext2 \<Rightarrow> (fs_Inode option \<times> ext2) result" where
  "ext2_dir_create perms uid gid fs =
     rbind (ext2_create_inode INODE_DIR perms uid gid fs) (\<lambda>(r, fs1).
       case r of
         None \<Rightarrow> Inr (None, fs1)
       | Some inode \<Rightarrow>
           rbind (inode_group (in_number inode) fs1) (\<lambda>g.
           rbind (add_group_half g group_directoryCount 1 fs1) (\<lambda>fs2.
           rbind (ext2_write_blockgroup_table fs2) (\<lambda>(_, fs3). Inr (Some inode, fs3)))))"

definition ext2_dir_rename :: "fs_Inode \<Rightarrow> string \<Rightarrow> string \<Rightarrow> ext2 \<Rightarrow> (int \<times> fs_Inode \<times> ext2) result option" where
  "ext2_dir_rename dir from' to' fs =
     obind (ext2_dir_find dir from' fs) (\<lambda>(original, fs1).
       if de_entryLength original = 0 then Some (Inr (- 1, dir, fs1))
       else obind (ext2_dir_remove dir from' fs1) (\<lambda>(r, dir1, fs2).
              if r = - 1 then Some (Inr (- 1, dir1, fs2)) else ext2_dir_add dir1 to' (de_inode original) fs2))"

section \<open>Loading and open files\<close>

text \<open>The objects \<open>kalloc\<close> gives \<open>ext2_load\<close>, which does not check for \<open>NULL\<close>; the buffers are taken to be zero.\<close>

primrec kalloc_objects :: "nat \<Rightarrow> ext2 \<Rightarrow> ext2 result" where
  "kalloc_objects 0 fs = Inr fs"
| "kalloc_objects (Suc n) fs = (case kalloc_object fs of None \<Rightarrow> Inl NullDeref | Some fs1 \<Rightarrow> kalloc_objects n fs1)"

definition ext2_load :: "nat \<Rightarrow> ext2 \<Rightarrow> ext2 result" where
  "ext2_load startSector fs0 =
     rbind (kalloc_objects 1 fs0) (\<lambda>fs1.
     rbind (ext2_superblock_init (fs1\<lparr>firstSector := startSector\<rparr>)) (\<lambda>(r, fs2).
       if r = - 1 then Inl NullDeref
       else (let bs = push_bit (sb_blockSize fs2) 1024 mod 2 ^ 32;
                 fs3 = fs2\<lparr>blockSize := bs, sectorsPerBlock := bs div SECTOR_SIZE\<rparr>
             in rbind (ext2_get_total_block_groups fs3) (\<lambda>n.
                rbind (kalloc_objects 15 (fs3\<lparr>blockGroupCount := n\<rparr>)) (\<lambda>fs4.
                  let fs5 = fs4\<lparr>blockIndexAddress := replicate 3 0, blockIndexBuffer := replicate 3 (replicate (bs div 4) 0),
                    fragmentReadBlock := 0, fragmentReadBuffer := replicate bs 0, evictBlockBuffer := 0,
                    blockBufferAddress := replicate BLOCK_BUFFER_COUNT 0, blockBufferOwner := replicate BLOCK_BUFFER_COUNT 0,
                    blockBuffer := replicate BLOCK_BUFFER_COUNT (replicate bs 0), bitmapBlock := 0\<rparr>
                  in rbind (ext2_read_blockgroup_table fs5) (\<lambda>(r, fs6). if r = - 1 then Inl NullDeref else Inr fs6))))))"

definition inode_write :: "FileDescriptor \<Rightarrow> fs_Inode \<Rightarrow> u8 list \<Rightarrow> nat \<Rightarrow> ext2 \<Rightarrow> (nat \<times> FileDescriptor \<times> fs_Inode \<times> ext2) result" where
  "inode_write fd inode buffer len fs =
     rbind (ext2_write_inode_content inode (fd_offset fd) len buffer fs) (\<lambda>(res, inode1, fs1).
       Inr (res, fd\<lparr>fd_offset := (fd_offset fd + res) mod 2 ^ 32\<rparr>, inode1, fs1))"

definition inode_read :: "FileDescriptor \<Rightarrow> fs_Inode \<Rightarrow> u8 list \<Rightarrow> nat \<Rightarrow> ext2 \<Rightarrow> (nat \<times> u8 list \<times> FileDescriptor \<times> ext2) result" where
  "inode_read fd inode buffer len fs =
     rbind (ext2_read_inode_content inode (fd_offset fd) len buffer fs) (\<lambda>(res, buffer1, fs1).
       if res = - 1 then Inr (0, buffer1, fd, fs1)
       else Inr (nat res, buffer1, fd\<lparr>fd_offset := (fd_offset fd + nat res) mod 2 ^ 32\<rparr>, fs1))"

definition ENTRY_NAME_MAX_LEN :: nat where "ENTRY_NAME_MAX_LEN = 256"

record fs_DirectoryEntry =
  fde_inode :: nat
  fde_length :: nat
  fde_name :: string

partial_function (option) readdir_loop :: "fs_Inode \<Rightarrow> nat \<Rightarrow> ext2 \<Rightarrow> (DirectoryEntry \<times> nat \<times> ext2) result option" where
  "readdir_loop inode offset fs =
     (case ext2_dir_read inode offset fs of
        Inl e \<Rightarrow> Some (Inl e)
      | Inr x \<Rightarrow>
          if de_entryLength (fst x) \<noteq> 0 \<and> de_inode (fst x) = 0
          then readdir_loop inode ((offset + de_entryLength (fst x)) mod 2 ^ 32) (snd x)
          else Some (Inr (fst x, (offset + de_entryLength (fst x)) mod 2 ^ 32, snd x)))"

definition readdir :: "FileDescriptor \<Rightarrow> fs_Inode \<Rightarrow> ext2 \<Rightarrow> (fs_DirectoryEntry \<times> FileDescriptor \<times> ext2) result option" where
  "readdir fd inode fs =
     obind (readdir_loop inode (fd_offset fd) fs) (\<lambda>(entry, offset, fs1).
       let fd1 = fd\<lparr>fd_offset := offset\<rparr>
       in if de_entryLength entry = 0
          then Some (Inr (\<lparr>fde_inode = 0, fde_length = 0, fde_name = replicate ENTRY_NAME_MAX_LEN NUL\<rparr>, fd1, fs1))
          else obind (Some (strcpy (replicate ENTRY_NAME_MAX_LEN NUL) (de_name entry))) (\<lambda>name.
                 Some (Inr (\<lparr>fde_inode = de_inode entry, fde_length = de_nameLength entry, fde_name = name\<rparr>, fd1, fs1))))"

end
