(* ===== verification/Clock.thy ===== *)
theory Clock
  imports Stdlib
begin

text \<open>
  The clock: \<open>src/drivers/rtc.c\<close> reads the registers of the real time clock and computes the seconds since 1970,
  \<open>src/library/time.c\<close> turns them into a date and into text. The chip is a parameter: \<open>rtc r\<close> is the byte that the data
  port gives after register \<open>r\<close> has been selected. \<open>int\<close> and \<open>long\<close> have 32 bits; where the sources mix them with
  unsigned values the wrap-around is written out.
\<close>

unbundle bit_operations_syntax

section \<open>The driver\<close>

record RTCRegisters =
  rtc_seconds :: int
  rtc_minutes :: int
  rtc_hours :: int
  rtc_day :: int
  rtc_month :: int
  rtc_year :: int
  rtc_century :: int

type_synonym rtc_chip = "nat \<Rightarrow> u8"

definition rtc_read :: "rtc_chip \<Rightarrow> nat \<Rightarrow> int" where
  "rtc_read rtc r = uint (rtc r)"

definition readSeconds :: "rtc_chip \<Rightarrow> int" where "readSeconds rtc = rtc_read rtc 0"
definition readMinutes :: "rtc_chip \<Rightarrow> int" where "readMinutes rtc = rtc_read rtc 2"
definition readHours :: "rtc_chip \<Rightarrow> int" where "readHours rtc = rtc_read rtc 4"
definition readDay :: "rtc_chip \<Rightarrow> int" where "readDay rtc = rtc_read rtc 7"
definition readMonth :: "rtc_chip \<Rightarrow> int" where "readMonth rtc = rtc_read rtc 8"
definition readYear :: "rtc_chip \<Rightarrow> int" where "readYear rtc = rtc_read rtc 9"
definition readCentury :: "rtc_chip \<Rightarrow> int" where "readCentury rtc = rtc_read rtc 0x32"

definition BCDTOBINARY :: "int \<Rightarrow> int" where
  "BCDTOBINARY x = drop_bit 1 (x AND 0xF0) + drop_bit 3 (x AND 0xF0) + (x AND 0xF)"

definition ISLEAPYEAR :: "int \<Rightarrow> bool" where
  "ISLEAPYEAR i \<longleftrightarrow> (i mod 4 = 0 \<and> i mod 100 \<noteq> 0) \<or> i mod 400 = 0"

definition readRTCRegisters :: "rtc_chip \<Rightarrow> RTCRegisters" where
  "readRTCRegisters rtc =
     (let format = rtc_read rtc 11;
          bcd = (\<lambda>x. if format AND 0x02 = 0x02 then BCDTOBINARY x else x);
          h = bcd (readHours rtc);
          h' = (if format AND 0x04 = 0x04 \<and> h AND 0x80 = 0x80
                then (let k = h AND 0x7F in if k = 12 then 0 else k + 12) else h)
      in \<lparr>rtc_seconds = bcd (readSeconds rtc), rtc_minutes = bcd (readMinutes rtc), rtc_hours = h', rtc_day = bcd (readDay rtc),
          rtc_month = bcd (readMonth rtc), rtc_year = bcd (readYear rtc), rtc_century = bcd (readCentury rtc)\<rparr>)"

definition SECONDSINDAY :: int where "SECONDSINDAY = 86400"

text \<open>The two loops of \<open>getTime\<close>, over the years and over the months.\<close>

fun add_years :: "int list \<Rightarrow> int \<Rightarrow> int" where
  "add_years [] days = days"
| "add_years (i # is) days = add_years is (un32 (if ISLEAPYEAR i then days + 366 else days + 365))"

definition month_days :: "int \<Rightarrow> int" where
  "month_days i =
     (if i \<in> {1, 3, 5, 7, 8, 10, 12} then 31
      else if i \<in> {4, 6, 9, 11} then 30
      else if i = 2 then (if ISLEAPYEAR i then 29 else 28)
      else 0)"

fun add_months :: "int list \<Rightarrow> int \<Rightarrow> int" where
  "add_months [] days = days"
| "add_months (i # is) days = add_months is (un32 (days + month_days i))"

definition epoch_seconds :: "rtc_chip \<Rightarrow> int" where
  "epoch_seconds rtc =
     (let regs = readRTCRegisters rtc;
          thisYear = rtc_century regs * 100 + rtc_year regs;
          days1 = add_years [1970..thisYear - 1] 0;
          days2 = add_months [1..rtc_month regs - 1] days1;
          days3 = un32 (days2 + rtc_day regs)
      in un32 (days3 * SECONDSINDAY + rtc_hours regs * 3600 + rtc_minutes regs * 60 + rtc_seconds regs))"

text \<open>\<open>getTime\<close> returns the seconds, and stores them where \<open>tp\<close> points unless it is \<open>NULL\<close>: the second component is the
  object behind \<open>tp\<close>.\<close>

definition getTime :: "rtc_chip \<Rightarrow> int option \<Rightarrow> int \<times> int option" where
  "getTime rtc tp = (let retval = epoch_seconds rtc in (retval, case tp of None \<Rightarrow> None | Some _ \<Rightarrow> Some retval))"

text \<open>\<open>_time\<close> of \<open>src/system/call/time.c\<close>, which the library calls as \<open>time\<close>.\<close>

definition sys_time :: "rtc_chip \<Rightarrow> int option \<Rightarrow> int \<times> int option" where
  "sys_time rtc tp = getTime rtc tp"

section \<open>Dates\<close>

record tm =
  tm_sec :: int
  tm_min :: int
  tm_hour :: int
  tm_mday :: int
  tm_mon :: int
  tm_year :: int
  tm_wday :: int
  tm_yday :: int
  tm_isdst :: int

definition dow_table :: "int list" where
  "dow_table = [0, 3, 2, 5, 0, 3, 5, 1, 4, 6, 2, 4]"

definition dayOfWeek :: "int \<Rightarrow> int \<Rightarrow> int \<Rightarrow> int result" where
  "dayOfWeek year month day =
     (let y = (if month < 3 then year - 1 else year)
      in if 1 \<le> month \<and> month \<le> 12
         then Inr (s32 (y + y sdiv 4 - y sdiv 100 + y sdiv 400 + dow_table ! nat (month - 1) + day) smod 7)
         else Inl OutOfBounds)"

definition year_start :: "int \<Rightarrow> int" where
  "year_start year = un32 (365 * year + year div 4 - year div 100 + year div 400)"

definition dateFromDayNumber :: "int \<Rightarrow> int \<times> int \<times> int" where
  "dateFromDayNumber daysSinceEpoch =
     (let d = un32 (daysSinceEpoch - 60);
          year0 = un32 (10000 * d + 14780) div 3652425;
          ddd0 = s32 (d - year_start year0);
          year = (if ddd0 < 0 then un32 (year0 - 1) else year0);
          ddd = (if ddd0 < 0 then s32 (d - year_start year) else ddd0);
          mi = s32 (100 * ddd + 52) sdiv 3060;
          month = un32 ((mi + 2) smod 12 + 1);
          year1 = un32 (year + (mi + 2) sdiv 12);
          day = un32 (ddd - s32 (mi * 306 + 5) sdiv 10 + 1)
      in (s32 (year1 + 1970), s32 month, s32 day))"

text \<open>\<open>localtime\<close>: the new contents of the shared structure.\<close>

definition localtime :: "int \<Rightarrow> tm \<Rightarrow> tm result" where
  "localtime secsSinceEpoch sharedTm =
     (case dateFromDayNumber (secsSinceEpoch div (3600 * 24)) of
        (year, mon, mday) \<Rightarrow>
          rbind (dayOfWeek year mon mday) (\<lambda>wday.
            let secsOfDay = secsSinceEpoch mod (3600 * 24)
            in Inr (sharedTm\<lparr>tm_year := year, tm_mon := mon, tm_mday := mday, tm_wday := wday, tm_hour := secsOfDay div 3600,
                 tm_min := (secsOfDay mod 3600) div 60, tm_sec := (secsOfDay mod 3600) mod 60\<rparr>)))"

section \<open>Text\<close>

definition day_name :: "int \<Rightarrow> string" where
  "day_name d = (if 0 \<le> d \<and> d \<le> 6 then [''Sun'', ''Mon'', ''Tue'', ''Wed'', ''Thu'', ''Fri'', ''Sat''] ! nat d else ''???'')"

definition month_name :: "int \<Rightarrow> string" where
  "month_name m =
     (if 1 \<le> m \<and> m \<le> 12
      then [''Jan'', ''Feb'', ''Mar'', ''Apr'', ''May'', ''Jun'', ''Jul'', ''Aug'', ''Sep'', ''Oct'', ''Nov'', ''Dec''] ! nat (m - 1)
      else ''???'')"

text \<open>\<open>strcpy (string + pos, s)\<close>.\<close>

definition strcpy_at :: "string \<Rightarrow> nat \<Rightarrow> string \<Rightarrow> string result" where
  "strcpy_at buf pos s = rbind (strcpy (drop pos buf) s) (\<lambda>t. Inr (take pos buf @ t))"

text \<open>A number of at most two digits followed by \<open>sep\<close>, with a leading zero when \<open>two\<close>; the buffer, \<open>aux\<close> and \<open>curPos\<close>.\<close>

definition put_number :: "bool \<Rightarrow> char \<Rightarrow> int \<Rightarrow> string \<times> string \<times> nat \<Rightarrow> (string \<times> string \<times> nat) result" where
  "put_number two sep v st =
     (case st of (buf, aux, pos) \<Rightarrow>
        rbind (itoa aux v) (\<lambda>(aux1, _).
        rbind (if two \<and> v < 10 then rbind (cput buf pos (CHR ''0'')) (\<lambda>b. Inr (b, Suc pos)) else Inr (buf, pos)) (\<lambda>(buf1, pos1).
        rbind (strcpy_at buf1 pos1 aux1) (\<lambda>buf2.
          let pos2 = pos1 + (if v \<ge> 10 then 2 else 1)
          in rbind (cput buf2 pos2 sep) (\<lambda>buf3. Inr (buf3, aux1, Suc pos2))))))"

definition asctime :: "tm \<Rightarrow> string \<Rightarrow> string \<Rightarrow> string result" where
  "asctime tp aux buf =
     rbind (strcpy buf (day_name (tm_wday tp) @ [NUL])) (\<lambda>b1.
     rbind (cput b1 3 (CHR '' '')) (\<lambda>b2.
     rbind (strcpy_at b2 4 (month_name (tm_mon tp) @ [NUL])) (\<lambda>b3.
     rbind (cput b3 7 (CHR '' '')) (\<lambda>b4.
     rbind (put_number False (CHR '' '') (tm_mday tp) (b4, aux, 8)) (\<lambda>st1.
     rbind (put_number True (CHR '':'') (tm_hour tp) st1) (\<lambda>st2.
     rbind (put_number True (CHR '':'') (tm_min tp) st2) (\<lambda>st3.
     rbind (put_number True (CHR '' '') (tm_sec tp) st3) (\<lambda>(b5, aux1, pos).
     rbind (itoa aux1 (tm_year tp)) (\<lambda>(aux2, _).
     rbind (strcpy_at b5 pos aux2) (\<lambda>b6.
     cput b6 (pos + 4) NUL))))))))))"

end
