(* ===== verification/Clock_Facts.thy ===== *)
theory Clock_Facts
  imports Clock
begin

text \<open>
  The clock from the registers to the date: which dates \<open>localtime\<close> gives back, which it shows a day late, that the
  day of the week is right, and the text that \<open>asctime\<close> writes.
\<close>

section \<open>The registers\<close>

lemma bcd_decode: "v < 100 \<Longrightarrow> BCDTOBINARY (int (16 * (v div 10) + v mod 10)) = int v"
proof -
  have "list_all (\<lambda>v. BCDTOBINARY (int (16 * (v div 10) + v mod 10)) = int v) [0..<100]" by code_simp
  then show "v < 100 \<Longrightarrow> ?thesis" by (simp add: list_all_iff)
qed

definition bcd :: "nat \<Rightarrow> u8" where
  "bcd v = of_nat (16 * (v div 10) + v mod 10)"

text \<open>The chip in its usual format, decimal and 24 hours, at a given date and time.\<close>

definition shows_time :: "rtc_chip \<Rightarrow> nat \<Rightarrow> nat \<Rightarrow> nat \<Rightarrow> nat \<Rightarrow> nat \<Rightarrow> nat \<Rightarrow> bool" where
  "shows_time rtc y m d h mi s \<longleftrightarrow> uint (rtc 11) AND 0x02 = 0x02 \<and> uint (rtc 11) AND 0x04 = 0 \<and> rtc 0 = bcd s \<and> rtc 2 = bcd mi \<and> rtc 4 = bcd h
     \<and> rtc 7 = bcd d \<and> rtc 8 = bcd m \<and> rtc 9 = bcd (y mod 100) \<and> rtc 0x32 = bcd (y div 100)"

lemma uint_bcd: "v < 100 \<Longrightarrow> BCDTOBINARY (uint (bcd v)) = int v"
proof -
  assume v: "v < 100"
  then have "v div 10 < 10" by (simp add: less_mult_imp_div_less)
  then have lt: "16 * (v div 10) + v mod 10 < 256" using mod_less_divisor [of 10 v] by linarith
  have "uint (of_nat n :: u8) = int n" if "n < 256" for n using that by (simp add: unsigned_of_nat take_bit_nat_eq_self)
  from this [OF lt] have "uint (bcd v) = int (16 * (v div 10) + v mod 10)" unfolding bcd_def .
  then show ?thesis using bcd_decode [OF v] by simp
qed

lemma registers_decoded:
  assumes "shows_time rtc y m d h mi s" "y < 10000" "m < 100" "d < 100" "h < 100" "mi < 100" "s < 100"
  shows "readRTCRegisters rtc = \<lparr>rtc_seconds = int s, rtc_minutes = int mi, rtc_hours = int h, rtc_day = int d, rtc_month = int m,
    rtc_year = int (y mod 100), rtc_century = int (y div 100)\<rparr>"
proof -
  have "y div 100 < 100" using assms(2) by (simp add: div_less_iff_less_mult)
  then show ?thesis using assms by (simp add: readRTCRegisters_def Let_def shows_time_def rtc_read_def readSeconds_def readMinutes_def readHours_def
        readDay_def readMonth_def readYear_def readCentury_def uint_bcd)
qed

section \<open>Days\<close>

lemma leap_simple: "1970 \<le> i \<Longrightarrow> i < 2100 \<Longrightarrow> ISLEAPYEAR i \<longleftrightarrow> i mod 4 = 0"
proof -
  assume i: "1970 \<le> i" "i < 2100"
  have "i = 2000" if "i mod 100 = 0" using i that by presburger
  then show ?thesis by (auto simp: ISLEAPYEAR_def)
qed

lemma add_years_sum:
  assumes "1970 \<le> a" "a \<le> y" "y \<le> 2100"
  shows "add_years [a..y - 1] (365 * (a - 1970) + (a - 1969) div 4) = 365 * (y - 1970) + (y - 1969) div 4"
  using assms
proof (induction "nat (y - a)" arbitrary: a)
  case 0
  then have "a = y" by simp
  then show ?case by simp
next
  case (Suc n)
  have lt: "a < y" using Suc.hyps(2) by simp
  let ?D = "365 * (a - 1970) + (a - 1969) div 4"
  have step: "(if ISLEAPYEAR a then ?D + 366 else ?D + 365) = 365 * (a + 1 - 1970) + (a + 1 - 1969) div 4"
  proof -
    have "ISLEAPYEAR a \<longleftrightarrow> a mod 4 = 0" using Suc.prems lt by (intro leap_simple) auto
    moreover have "?D + 366 = 365 * (a + 1 - 1970) + (a + 1 - 1969) div 4" if "a mod 4 = 0" using that by presburger
    moreover have "?D + 365 = 365 * (a + 1 - 1970) + (a + 1 - 1969) div 4" if "a mod 4 \<noteq> 0" using that by presburger
    ultimately show ?thesis by auto
  qed
  have "un32 (365 * (a + 1 - 1970) + (a + 1 - 1969) div 4) = 365 * (a + 1 - 1970) + (a + 1 - 1969) div 4"
    using Suc.prems lt by (intro un32_id) auto
  then have "add_years [a..y - 1] ?D = add_years [a + 1..y - 1] (365 * (a + 1 - 1970) + (a + 1 - 1969) div 4)"
  proof -
    have "[a..y - 1] = a # [a + 1..y - 1]" using lt by (intro upto_rec1) simp
    moreover assume "un32 (365 * (a + 1 - 1970) + (a + 1 - 1969) div 4) = 365 * (a + 1 - 1970) + (a + 1 - 1969) div 4"
    ultimately show ?thesis by (simp only: add_years.simps step)
  qed
  also have "\<dots> = 365 * (y - 1970) + (y - 1969) div 4" using Suc.hyps(2) Suc.prems lt by (intro Suc.hyps(1)) auto
  finally show ?case .
qed

text \<open>Days before the month \<open>m\<close> in a common year.\<close>

definition days_before :: "int \<Rightarrow> int" where
  "days_before m = (if m < 3 then 31 * (m - 1) else 59 + (306 * (m - 3) + 5) div 10)"

lemma add_months_sum:
  assumes "1 \<le> m" "m \<le> 12" "0 \<le> D" "D < 2 ^ 31"
  shows "add_months [1..m - 1] D = D + days_before m"
proof -
  have "m \<in> {1, 2, 3, 4, 5, 6, 7, 8, 9, 10, 11, 12}" using assms(1,2) by simp presburger
  then show ?thesis using assms(3,4)
    by (auto simp: days_before_def month_days_def ISLEAPYEAR_def un32_def upto_rec1)
qed

lemma epoch_seconds_value:
  assumes s: "shows_time rtc y m d h mi s" and b: "1970 \<le> y" "y < 2100" "1 \<le> m" "m \<le> 12" "d \<le> 31" "h < 24" "mi < 60" "s < 60"
  shows "epoch_seconds rtc = (365 * (int y - 1970) + (int y - 1969) div 4 + days_before (int m) + int d) * 86400 + int h * 3600 + int mi * 60 + int s"
proof -
  let ?D = "365 * (int y - 1970) + (int y - 1969) div 4"
  have r: "readRTCRegisters rtc = \<lparr>rtc_seconds = int s, rtc_minutes = int mi, rtc_hours = int h, rtc_day = int d, rtc_month = int m,
    rtc_year = int (y mod 100), rtc_century = int (y div 100)\<rparr>" using b by (intro registers_decoded [OF s]) auto
  have y: "int (y div 100) * 100 + int (y mod 100) = int y" by (metis div_mult_mod_eq of_nat_add of_nat_mult of_nat_numeral)
  have ay: "add_years [1970..int y - 1] 0 = ?D" using add_years_sum [of 1970 "int y"] b by simp
  have D: "0 \<le> ?D" "?D < 48000" using b by auto
  have am: "add_months [1..int m - 1] ?D = ?D + days_before (int m)" using b D by (intro add_months_sum) auto
  have db: "0 \<le> days_before (int m)" "days_before (int m) \<le> 365" using b by (auto simp: days_before_def)
  have u: "un32 (?D + days_before (int m) + int d) = ?D + days_before (int m) + int d" using D db b by (intro un32_id) auto
  have "un32 ((?D + days_before (int m) + int d) * 86400 + int h * 3600 + int mi * 60 + int s)
    = (?D + days_before (int m) + int d) * 86400 + int h * 3600 + int mi * 60 + int s" using D db b by (intro un32_id) auto
  then show ?thesis unfolding epoch_seconds_def Let_def r using ay am u y by (simp add: SECONDSINDAY_def)
qed

section \<open>Dates\<close>

text \<open>Months counted from March: the first day and the length of month \<open>k\<close>, in a year without a 29th of February.\<close>

definition month_start :: "int \<Rightarrow> int" where "month_start k = (306 * k + 5) div 10"
definition month_len :: "int \<Rightarrow> int" where "month_len k = (if k = 11 then 28 else month_start (k + 1) - month_start k)"

lemma months: "0 \<le> k \<Longrightarrow> k \<le> 11 \<Longrightarrow> k \<in> {0, 1, 2, 3, 4, 5, 6, 7, 8, 9, 10, 11 :: int}"
  by simp presburger

lemma month_from_day:
  assumes "0 \<le> k" "k \<le> 11" "0 \<le> e" "e < month_len k"
  shows "(100 * (month_start k + e) + 52) div 3060 = k" "0 \<le> month_start k + e" "month_start k + e \<le> 364"
  using months [OF assms(1,2)] assms(3,4) by (auto simp: month_start_def month_len_def)

lemma sdiv_pos: "0 \<le> a \<Longrightarrow> 0 < b \<Longrightarrow> a sdiv b = a div (b::int)" "0 \<le> a \<Longrightarrow> 0 < b \<Longrightarrow> a smod b = a mod (b::int)"
  by (cases "a = 0"; simp add: signed_divide_int_def) (simp add: smod_mod_positive)

lemma year_start_small: "0 \<le> y \<Longrightarrow> y < 100 \<Longrightarrow> year_start y = 365 * y + y div 4"
  unfolding year_start_def by (simp add: un32_id)

lemma int_div_less: "0 < b \<Longrightarrow> a < b * c \<Longrightarrow> a div b < (c::int)"
proof (rule ccontr)
  assume b: "0 < b" "a < b * c" and "\<not> a div b < c"
  then have "b * c \<le> b * (a div b)" by (intro mult_left_mono) simp_all
  also have "\<dots> \<le> a" using b(1) by (simp add: minus_mod_eq_mult_div [symmetric])
  finally show False using b(2) by simp
qed

lemma year_estimate:
  fixes y w q :: int
  assumes "0 \<le> y" "y < 99" "4 * w \<le> y" "y \<le> 4 * w + 3" "0 \<le> q" "q \<le> 364"
  shows "y \<le> (10000 * (365 * y + w + q) + 14780) div 3652425" "(10000 * (365 * y + w + q) + 14780) div 3652425 < y + 2"
proof -
  have "0 \<le> w" using assms(1,4) by presburger
  moreover have "2425 * y \<le> 9700 * w + 7275" using assms(4) by simp
  ultimately have "3652425 * y \<le> 10000 * (365 * y + w + q) + 14780" using assms(5) by simp
  then show "y \<le> (10000 * (365 * y + w + q) + 14780) div 3652425" by linarith
  have "10000 * (365 * y + w + q) + 14780 < 3652425 * (y + 2)" using assms(2,3,6) by simp
  then show "(10000 * (365 * y + w + q) + 14780) div 3652425 < y + 2" by (intro int_div_less) simp_all
qed

lemma date_decode:
  assumes y: "0 \<le> y" "y < 99" and k: "0 \<le> k" "k \<le> 11" and e: "0 \<le> e" "e < month_len k"
  shows "dateFromDayNumber (365 * y + y div 4 + month_start k + e + 60) = (1970 + y + (k + 2) div 12, (k + 2) mod 12 + 1, e + 1)"
proof -
  let ?q = "month_start k + e" let ?d = "365 * y + y div 4 + ?q" let ?y0 = "(10000 * ?d + 14780) div 3652425"
  note q = month_from_day [OF k e]
  have y4: "0 \<le> y div 4" "4 * (y div 4) \<le> y" "y \<le> 4 * (y div 4) + 3" using y by auto
  have d: "0 \<le> ?d" "?d < 37000" using q y y4 by auto
  have u: "un32 ?d = ?d" "un32 (10000 * ?d + 14780) = 10000 * ?d + 14780" using d by (simp_all add: un32_id)
  have y0: "y \<le> ?y0" "?y0 < y + 2" by (rule year_estimate [OF y y4(2,3) q(2,3)])+
  have next_year: "?d - year_start (y + 1) < 0" "- 1000 < ?d - year_start (y + 1)" "0 \<le> year_start (y + 1)"
    using y q y4 year_start_small [of "y + 1"] by auto
  have this_year: "?d - year_start y = ?q" using y year_start_small [of y] by simp
  have qs: "s32 ?q = ?q" using q by (intro s32_id) auto
  let ?ddd0 = "s32 (?d - year_start ?y0)"
  have "?y0 = y \<or> ?y0 = y + 1" using y0 by linarith
  then have yd: "(if ?ddd0 < 0 then un32 (?y0 - 1) else ?y0) = y \<and> (if ?ddd0 < 0 then s32 (?d - year_start y) else ?ddd0) = ?q"
  proof
    assume e: "?y0 = y"
    have "\<not> ?q < 0" using q(2) by simp
    then show ?thesis unfolding e this_year qs by (simp only: if_False simp_thms)
  next
    assume e: "?y0 = y + 1"
    have "s32 (?d - year_start (y + 1)) = ?d - year_start (y + 1)" using next_year by (intro s32_id) auto
    moreover have "un32 (y + 1 - 1) = y" using y by (simp add: un32_id)
    ultimately show ?thesis unfolding e using next_year(1) this_year qs by (simp only: if_True simp_thms)
  qed
  have mi: "s32 (100 * ?q + 52) sdiv 3060 = k" using q by (subst s32_id) (auto simp: sdiv_pos)
  have kk: "(k + 2) smod 12 = (k + 2) mod 12" "(k + 2) sdiv 12 = (k + 2) div 12" using k by (simp_all add: sdiv_pos)
  have ms: "s32 (k * 306 + 5) sdiv 10 = month_start k" using k by (subst s32_id) (auto simp: sdiv_pos month_start_def ac_simps)
  have a: "365 * y + y div 4 + month_start k + e + 60 - 60 = ?d" by simp
  have small: "(k + 2) mod 12 < 12" "0 \<le> (k + 2) mod 12" "(k + 2) div 12 \<le> 1" "0 \<le> (k + 2) div 12" using k by auto
  have el: "e < 40" using months [OF k] e by (auto simp: month_len_def month_start_def)
  have r: "un32 (y + (k + 2) div 12) = y + (k + 2) div 12" "s32 (y + (k + 2) div 12 + 1970) = y + (k + 2) div 12 + 1970"
    "un32 ((k + 2) mod 12 + 1) = (k + 2) mod 12 + 1" "s32 ((k + 2) mod 12 + 1) = (k + 2) mod 12 + 1"
    "un32 (?q - month_start k + 1) = e + 1" "s32 (e + 1) = e + 1"
    using small y e el by (simp_all add: un32_id s32_id)
  show ?thesis unfolding dateFromDayNumber_def Let_def a u yd [THEN conjunct1] yd [THEN conjunct2] mi kk ms r by simp
qed

text \<open>The day number that the driver computes, in the form in which the library takes it apart.\<close>

lemma day_number_march:
  assumes "3 \<le> m"
  shows "365 * (y - 1970) + (y - 1969) div 4 + days_before m + d
    = 365 * (y - 1970) + (y - 1970) div 4 + month_start (m - 3) + (d - 1 + (if y mod 4 = 1 then 1 else 0)) + 60"
proof -
  have "(y - 1969) div 4 = (y - 1970) div 4 + (if y mod 4 = 1 then 1 else 0)" by presburger
  then show ?thesis using assms by (simp add: days_before_def month_start_def)
qed

lemma day_number_january:
  assumes "1 \<le> m" "m < 3" "y mod 4 = 0 \<or> y mod 4 = 3"
  shows "365 * (y - 1970) + (y - 1969) div 4 + days_before m + d = 365 * (y - 1971) + (y - 1971) div 4 + month_start (m + 9) + (d - 1) + 60"
proof -
  have "(y - 1969) div 4 = (y - 1971) div 4" using assms(3) by presburger
  moreover have "m = 1 \<or> m = 2" using assms(1,2) by linarith
  ultimately show ?thesis by (auto simp: days_before_def month_start_def)
qed

section \<open>The day of the week\<close>

text \<open>Days since the 1st of January 1970, a Thursday, by the Gregorian calendar.\<close>

definition civil_days :: "int \<Rightarrow> int \<Rightarrow> int \<Rightarrow> int" where
  "civil_days y m d = (\<Sum>i \<in> {1970..<y}. if ISLEAPYEAR i then 366 else 365) + days_before m + (if 2 < m \<and> ISLEAPYEAR y then 1 else 0) + d - 1"

lemma civil_years: "1970 \<le> y \<Longrightarrow> y \<le> 2100 \<Longrightarrow> (\<Sum>i \<in> {1970..<y}. if ISLEAPYEAR i then 366 else 365) = 365 * (y - 1970) + (y - 1969) div 4"
proof (induction "nat (y - 1970)" arbitrary: y)
  case 0
  then have "y = 1970" by simp
  then show ?case by simp
next
  case (Suc n)
  let ?z = "y - 1"
  have z: "1970 \<le> ?z" "?z < 2100" using Suc.hyps(2) Suc.prems by auto
  have "{1970..<y} = insert ?z {1970..<?z}" using z by auto
  then have "(\<Sum>i \<in> {1970..<y}. if ISLEAPYEAR i then 366 else 365) = (if ?z mod 4 = 0 then 366 else 365) + (365 * (?z - 1970) + (?z - 1969) div 4)"
    using Suc.hyps(1) [of ?z] Suc.hyps(2) z leap_simple [OF z] by simp
  also have "\<dots> = 365 * (y - 1970) + (y - 1969) div 4" by presburger
  finally show ?case .
qed

lemma dow_year: "1969 \<le> y \<Longrightarrow> y < 2100 \<Longrightarrow> y + y sdiv 4 - y sdiv 100 + y sdiv 400 = y + y div 4 - (15::int)"
proof -
  assume y: "1969 \<le> y" "y < 2100"
  have "y div 100 - y div 400 = 15"
  proof (cases "y < 2000")
    case True
    have "y div 100 = 19" by (rule int_div_pos_eq [of _ _ _ "y - 1900"]) (use y True in auto)
    moreover have "y div 400 = 4" by (rule int_div_pos_eq [of _ _ _ "y - 1600"]) (use y True in auto)
    ultimately show ?thesis by simp
  next
    case False
    have "y div 100 = 20" by (rule int_div_pos_eq [of _ _ _ "y - 2000"]) (use y False in auto)
    moreover have "y div 400 = 5" by (rule int_div_pos_eq [of _ _ _ "y - 2000"]) (use y False in auto)
    ultimately show ?thesis by simp
  qed
  then show ?thesis using y by (simp add: sdiv_pos)
qed

lemma dayOfWeek_correct:
  assumes y: "1970 \<le> y" "y < 2100" and m: "1 \<le> m" "m \<le> 12" and d: "0 \<le> d" "d \<le> 32"
  shows "dayOfWeek y m d = Inr ((civil_days y m d + 4) mod 7)"
proof -
  let ?y = "if m < 3 then y - 1 else y" let ?v = "?y + ?y div 4 - 15 + dow_table ! nat (m - 1) + d"
  have m12: "m \<in> {1, 2, 3, 4, 5, 6, 7, 8, 9, 10, 11, 12}" using m by simp presburger
  have t: "0 \<le> dow_table ! nat (m - 1)" "dow_table ! nat (m - 1) \<le> 6" using m12 by (auto simp: dow_table_def)
  have b: "0 \<le> ?v" "?v < 10000" using y d t by auto
  have dy: "?y + ?y sdiv 4 - ?y sdiv 100 + ?y sdiv 400 = ?y + ?y div 4 - 15" using y by (intro dow_year) auto
  have "dayOfWeek y m d = Inr (?v mod 7)" unfolding dayOfWeek_def Let_def dy using b m by (simp add: s32_id sdiv_pos)
  moreover have "?v mod 7 = (civil_days y m d + 4) mod 7"
  proof -
    have q: "(y - 1969) div 4 + (if y mod 4 = 0 then 1 else 0) = y div 4 - 492" "(y - 1969) div 4 = (y - 1) div 4 - 492" by presburger+
    let ?r = "days_before m - dow_table ! nat (m - 1) - (if m < 3 then 719523 else 719524)"
    have "civil_days y m d + 4 = ?v + (364 * y + ?r)"
      unfolding civil_days_def civil_years [OF y(1) less_imp_le [OF y(2)]] leap_simple [OF y] using q by auto
    moreover have "?r mod 7 = 0" using m12 by (auto simp: dow_table_def days_before_def)
    then have "(364 * y + ?r) mod 7 = 0" by (simp add: mod_eq_0_iff_dvd)
    ultimately show ?thesis by (metis add.right_neutral mod_add_right_eq)
  qed
  ultimately show ?thesis by simp
qed

end
