(* ===== verification/Clock_Dates.thy ===== *)
theory Clock_Dates
  imports Clock_Facts
begin

text \<open>The properties of the clock.\<close>

section \<open>From the chip to the date\<close>

lemma localtime_fields:
  assumes "dateFromDayNumber D = (y, m, d)" "dayOfWeek y m d = Inr w" "h < 24" "mi < 60" "s < 60"
  shows "localtime (D * 86400 + int h * 3600 + int mi * 60 + int s) t
    = Inr (t\<lparr>tm_year := y, tm_mon := m, tm_mday := d, tm_wday := w, tm_hour := int h, tm_min := int mi, tm_sec := int s\<rparr>)"
proof -
  let ?r = "int h * 3600 + int mi * 60 + int s"
  have r: "0 \<le> ?r" "?r < 86400" using assms(3-5) by auto
  have dm: "(D * 86400 + int h * 3600 + int mi * 60 + int s) div 86400 = D" "(D * 86400 + int h * 3600 + int mi * 60 + int s) mod 86400 = ?r"
    using div_mult_self3 [of 86400 D ?r] mod_mult_self3 [of D 86400 ?r] r by (simp_all add: add.assoc)
  have "?r div 3600 = int h" "?r mod 3600 = int mi * 60 + int s"
    using div_mult_self3 [of 3600 "int h" "int mi * 60 + int s"] mod_mult_self3 [of "int h" 3600 "int mi * 60 + int s"] assms(4,5) by (simp_all add: add.assoc)
  moreover have "(int mi * 60 + int s) div 60 = int mi" "(int mi * 60 + int s) mod 60 = int s" using assms(5) by simp_all
  ultimately show ?thesis unfolding localtime_def using assms(1,2) dm by simp
qed

definition day_in_month :: "nat \<Rightarrow> nat \<Rightarrow> bool" where
  "day_in_month m d \<longleftrightarrow> 1 \<le> m \<and> m \<le> 12 \<and> 1 \<le> d \<and> d \<le> [31, 28, 31, 30, 31, 30, 31, 31, 30, 31, 30, 31] ! (m - 1)"

lemma day_in_month_len:
  assumes "day_in_month m d"
  shows "int d \<le> month_len ((int m + 9) mod 12)" "d \<le> 31"
proof -
  have "m \<in> {1, 2, 3, 4, 5, 6, 7, 8, 9, 10, 11, 12}" using assms unfolding day_in_month_def by simp presburger
  then show "int d \<le> month_len ((int m + 9) mod 12)" "d \<le> 31" using assms by (auto simp: day_in_month_def month_len_def month_start_def)
qed

lemma shown_date:
  assumes m: "day_in_month m d" and y: "1970 \<le> y" "y \<le> 2068" "(3 \<le> m \<and> y mod 4 \<noteq> 1) \<or> (m < 3 \<and> (y mod 4 = 0 \<or> y mod 4 = 3))"
  shows "dateFromDayNumber (365 * (int y - 1970) + (int y - 1969) div 4 + days_before (int m) + int d) = (int y, int m, int d)"
proof -
  note len = day_in_month_len [OF m]
  have b: "1 \<le> m" "m \<le> 12" "1 \<le> d" using m by (simp_all add: day_in_month_def)
  have y4: "int y mod 4 = int (y mod 4)" by (simp add: of_nat_mod)
  show ?thesis
  proof (cases "3 \<le> m")
    case True
    then have k: "(int m + 9) mod 12 = int m - 3" using b by presburger
    have "y mod 4 \<noteq> 1" using y(3) True by auto
    then have eq: "365 * (int y - 1970) + (int y - 1969) div 4 + days_before (int m) + int d
      = 365 * (int y - 1970) + (int y - 1970) div 4 + month_start (int m - 3) + (int d - 1) + 60"
      using day_number_march [of "int m" "int y" "int d"] True y4 by simp
    have "(int m - 3 + 2) div 12 = 0" "(int m - 3 + 2) mod 12 = int m - 1" using True b by auto
    then show ?thesis unfolding eq using date_decode [of "int y - 1970" "int m - 3" "int d - 1"] True b y len k by simp
  next
    case False
    then have k: "(int m + 9) mod 12 = int m + 9" using b by presburger
    have z: "int y mod 4 = 0 \<or> int y mod 4 = 3" "1971 \<le> y"
    proof -
      show "int y mod 4 = 0 \<or> int y mod 4 = 3" using y(3) False y4 by auto
      have "y \<noteq> 1970" using y(3) False by auto
      then show "1971 \<le> y" using y(1) by simp
    qed
    have eq: "365 * (int y - 1970) + (int y - 1969) div 4 + days_before (int m) + int d
      = 365 * (int y - 1971) + (int y - 1971) div 4 + month_start (int m + 9) + (int d - 1) + 60"
      using False b z(1) by (intro day_number_january) auto
    have "(int m + 9 + 2) div 12 = 1" "(int m + 9 + 2) mod 12 = int m - 1" using False b by presburger+
    then show ?thesis unfolding eq using date_decode [of "int y - 1971" "int m + 9" "int d - 1"] False b y z len k by simp
  qed
qed

section \<open>Properties\<close>


definition chip_at :: "nat \<Rightarrow> nat \<Rightarrow> nat \<Rightarrow> nat \<Rightarrow> nat \<Rightarrow> nat \<Rightarrow> rtc_chip" where
  "chip_at y m d h mi s = (\<lambda>r. if r = 11 then 2 else if r = 0 then bcd s else if r = 2 then bcd mi else if r = 4 then bcd h else if r = 7 then bcd d
     else if r = 8 then bcd m else if r = 9 then bcd (y mod 100) else bcd (y div 100))"

lemma chip_at_shows: "shows_time (chip_at y m d h mi s) y m d h mi s"
  by (simp add: shows_time_def chip_at_def)


text \<open>C39. From March to December of the year after a leap year the date shown is one day late.\<close>

theorem clock_day_late:
  assumes "shows_time rtc y m d h mi s" "1970 \<le> y" "y \<le> 2068" "day_in_month m (Suc d)" "1 \<le> d" "3 \<le> m" "y mod 4 = 1" "h < 24" "mi < 60" "s < 60"
  shows "\<exists>t'. localtime (fst (sys_time rtc tp)) t = Inr t' \<and> tm_year t' = int y \<and> tm_mon t' = int m \<and> tm_mday t' = int d + 1"
proof -
  note len = day_in_month_len [OF assms(4)]
  have m: "1 \<le> m" "m \<le> 12" "d < 31" using assms(4) len by (simp_all add: day_in_month_def)
  have y4: "int y mod 4 = 1" using assms(7) by presburger
  have k: "(int m + 9) mod 12 = int m - 3" using assms(6) m by presburger
  have eq: "365 * (int y - 1970) + (int y - 1969) div 4 + days_before (int m) + int d
      = 365 * (int y - 1970) + (int y - 1970) div 4 + month_start (int m - 3) + int d + 60"
    using day_number_march [of "int m" "int y" "int d"] assms(6) y4 by simp
  have "(int m - 3 + 2) div 12 = 0" "(int m - 3 + 2) mod 12 = int m - 1" using assms(6) m by auto
  then have date: "dateFromDayNumber (365 * (int y - 1970) + (int y - 1969) div 4 + days_before (int m) + int d) = (int y, int m, int d + 1)"
    unfolding eq using date_decode [of "int y - 1970" "int m - 3" "int d"] assms(2,3,6) m len k by simp
  have w: "dayOfWeek (int y) (int m) (int d + 1) = Inr ((civil_days (int y) (int m) (int d + 1) + 4) mod 7)"
    using assms(2,3) m by (intro dayOfWeek_correct) auto
  have "epoch_seconds rtc = (365 * (int y - 1970) + (int y - 1969) div 4 + days_before (int m) + int d) * 86400 + int h * 3600 + int mi * 60 + int s"
    using assms(2,3,8-10) m by (intro epoch_seconds_value [OF assms(1)]) auto
  then show ?thesis using localtime_fields [OF date w assms(8-10)] by (simp add: sys_time_def getTime_def Let_def)
qed

theorem clock_day_late_witness:
  "\<forall>t. \<exists>t'. localtime (fst (sys_time (chip_at 2013 6 21 0 0 0) None)) t = Inr t' \<and> tm_year t' = 2013 \<and> tm_mon t' = 6 \<and> tm_mday t' = 22"
  using clock_day_late [OF chip_at_shows, of 2013 6 21 0 0 0 None] by (simp add: day_in_month_def)

end
