(* ===== verification/Clock_Text.thy ===== *)
theory Clock_Text
  imports Clock_Facts
begin

text \<open>The text that \<open>asctime\<close> writes.\<close>

lemma dec_length: "v < 10 \<Longrightarrow> length (dec v) = 1" "10 \<le> v \<Longrightarrow> v < 100 \<Longrightarrow> length (dec v) = 2" "1000 \<le> v \<Longrightarrow> v < 10000 \<Longrightarrow> length (dec v) = 4"
proof -
  have 1: "length (dec v) = 1" if "v < 10" for v using that by (simp add: dec.simps)
  have 2: "length (dec v) = 2" if "10 \<le> v" "v < 100" for v
    using that 1 [of "v div 10"] less_mult_imp_div_less [of v 10 10] by (subst dec.simps) simp
  have 3: "length (dec v) = 3" if "100 \<le> v" "v < 1000" for v
    using that 2 [of "v div 10"] less_mult_imp_div_less [of v 100 10] div_le_mono [of 100 v 10] by (subst dec.simps) simp
  show "length (dec v) = 4" if "1000 \<le> v" "v < 10000"
    using that 3 [of "v div 10"] less_mult_imp_div_less [of v 1000 10] div_le_mono [of 1000 v 10] by (subst dec.simps) simp
  show "v < 10 \<Longrightarrow> length (dec v) = 1" "10 \<le> v \<Longrightarrow> v < 100 \<Longrightarrow> length (dec v) = 2" using 1 2 by blast+
qed

lemma strcpy_at_append:
  assumes "NUL \<notin> set txt" "length txt < length rest"
  shows "strcpy_at (pre @ rest) (length pre) (txt @ NUL # r) = Inr (pre @ txt @ NUL # drop (Suc (length txt)) rest)"
  using strcpy_correct [of "txt @ NUL # r" rest] assms by (simp add: strcpy_at_def)

definition number_text :: "bool \<Rightarrow> int \<Rightarrow> string" where
  "number_text two v = (if two \<and> v < 10 then ''0'' else []) @ dec (nat v)"

lemma put_number_ok:
  assumes v: "0 \<le> v" "v < 100" and l: "length aux = 5" "4 \<le> length rest"
  shows "\<exists>aux' rest'. put_number two sep v (pre @ rest, aux, length pre) = Inr (pre @ number_text two v @ sep # rest', aux', length (pre @ number_text two v @ [sep]))
    \<and> length aux' = 5 \<and> Suc (length (number_text two v)) + length rest' = length rest"
proof -
  let ?n = "nat v" let ?z = "if two \<and> v < 10 then ''0'' else []"
  have len: "length (dec ?n) = (if v \<ge> 10 then 2 else 1)" using dec_length(1,2) [of ?n] v by auto
  have it: "itoa aux v = Inr (dec ?n @ NUL # drop (Suc (length (dec ?n))) aux, length (dec ?n))"
    using itoa_correct [of v aux] v l len by (simp add: int_str_def split: if_splits)
  obtain x rest1 where rest: "rest = x # rest1" using l(2) by (cases rest) auto
  let ?rest = "drop (length ?z) rest"
  have zero: "(if two \<and> v < 10 then rbind (cput (pre @ rest) (length pre) (CHR ''0'')) (\<lambda>b. Inr (b, Suc (length pre))) else Inr (pre @ rest, length pre))
    = Inr ((pre @ ?z) @ ?rest, length (pre @ ?z))" using rest by simp
  have sc: "strcpy_at ((pre @ ?z) @ ?rest) (length (pre @ ?z)) (dec ?n @ NUL # drop (Suc (length (dec ?n))) aux)
    = Inr ((pre @ ?z) @ dec ?n @ NUL # drop (Suc (length (dec ?n))) ?rest)" using dec_no_NUL len l by (intro strcpy_at_append) auto
  have cp: "cput ((pre @ ?z @ dec ?n) @ NUL # drop (Suc (length (dec ?n))) ?rest) (length (pre @ ?z @ dec ?n)) sep
    = Inr ((pre @ ?z @ dec ?n) @ sep # drop (Suc (length (dec ?n))) ?rest)" by (rule cput_append)
  let ?rest' = "drop (Suc (length (dec ?n))) ?rest" and ?aux' = "dec ?n @ NUL # drop (Suc (length (dec ?n))) aux"
  have "put_number two sep v (pre @ rest, aux, length pre) = Inr (pre @ number_text two v @ sep # ?rest', ?aux', length (pre @ number_text two v @ [sep]))"
    unfolding put_number_def using it zero sc cp len by (cases "10 \<le> v"; cases two; simp add: number_text_def Let_def)
  moreover have "length ?aux' = 5" "Suc (length (number_text two v)) + length ?rest' = length rest" using l len by (auto simp: number_text_def)
  ultimately show ?thesis by blast
qed

definition date_text :: "tm \<Rightarrow> string" where
  "date_text tp = day_name (tm_wday tp) @ '' '' @ month_name (tm_mon tp) @ '' '' @ number_text False (tm_mday tp) @ '' '' @ number_text True (tm_hour tp)
     @ '':'' @ number_text True (tm_min tp) @ '':'' @ number_text True (tm_sec tp) @ '' '' @ dec (nat (tm_year tp))"

lemma names: "length (day_name w) = 3" "NUL \<notin> set (day_name w)" "length (month_name m) = 3" "NUL \<notin> set (month_name m)"
proof -
  have "w \<in> {0, 1, 2, 3, 4, 5, 6} \<or> \<not> (0 \<le> w \<and> w \<le> 6)" by simp presburger
  then show "length (day_name w) = 3" "NUL \<notin> set (day_name w)" by (auto simp: day_name_def)
  have "m \<in> {1, 2, 3, 4, 5, 6, 7, 8, 9, 10, 11, 12} \<or> \<not> (1 \<le> m \<and> m \<le> 12)" by simp presburger
  then show "length (month_name m) = 3" "NUL \<notin> set (month_name m)" by (auto simp: month_name_def)
qed



end
