(* ===== verification/Paths.thy ===== *)
theory Paths
  imports Stdlib
begin

text \<open>
  The functions on paths of \<open>src/library/stdio.c\<close>, which the kernel uses as well. A path is a buffer that
  holds a string with its terminator. The results are new buffers; \<open>path_directory\<close> and \<open>path_file\<close> write
  every byte of theirs, whereas \<open>join_paths\<close> reads bytes that it has not written: \<open>junk\<close> is what the
  memory given by \<open>malloc\<close> holds.
\<close>

section \<open>Directory and file\<close>

text \<open>The loop to the last slash before position \<open>n\<close>; \<open>-1\<close> when there is none.\<close>

primrec last_slash :: "string \<Rightarrow> nat \<Rightarrow> int" where
  "last_slash path 0 = - 1"
| "last_slash path (Suc n) = (if path ! n = CHR ''/'' then int n else last_slash path n)"

text \<open>The length of the path without a slash at its end. The empty path makes the sources read before the string.\<close>

definition trimmed_length :: "string \<Rightarrow> nat result" where
  "trimmed_length path =
     rbind (strlen (Some path)) (\<lambda>len.
       if len = 0 then Inl OutOfBounds
       else rbind (cget path (len - 1)) (\<lambda>c. Inr (if c = CHR ''/'' then len - 1 else len)))"

definition path_directory :: "string \<Rightarrow> string result" where
  "path_directory path =
     rbind (strcmp path (''/'' @ [NUL])) (\<lambda>c.
       if c = 0 then Inr (''/'' @ [NUL])
       else rbind (trimmed_length path) (\<lambda>len.
         let lastSlash = last_slash path len
         in if lastSlash = - 1 then Inr (''.'' @ [NUL])
            else if lastSlash = 0 then Inr (''/'' @ [NUL])
            else rbind (strncpy (replicate (nat lastSlash + 2) NUL) path (nat lastSlash)) (\<lambda>r. cput r (nat lastSlash + 1) NUL)))"

definition path_file :: "string \<Rightarrow> string result" where
  "path_file path =
     rbind (strcmp path (''/'' @ [NUL])) (\<lambda>c.
       if c = 0 then Inr (''.'' @ [NUL])
       else rbind (trimmed_length path) (\<lambda>len.
         let lastSlash = last_slash path len; n = nat (int len - lastSlash)
         in rbind (strncpy (replicate (n + 1) NUL) (drop (nat (lastSlash + 1)) path) (n - 1)) (\<lambda>r. cput r n NUL)))"

section \<open>Joining paths\<close>

text \<open>The length of the component that starts at \<open>i\<close>.\<close>

function component_length :: "string \<Rightarrow> nat \<Rightarrow> nat \<Rightarrow> nat" where
  "component_length path n i = (if i < n \<and> path ! i \<noteq> CHR ''/'' then Suc (component_length path n (Suc i)) else 0)"
  by pat_completeness auto
termination by (relation "measure (\<lambda>(path, n, i). n - i)") auto

declare component_length.simps [simp del]

text \<open>The loop that removes the last component of \<open>nwd\<close>.\<close>

primrec drop_component :: "string \<Rightarrow> nat \<Rightarrow> nat result" where
  "drop_component nwd 0 = Inr 0"
| "drop_component nwd (Suc i) =
     rbind (cget nwd (Suc i)) (\<lambda>c. if c \<noteq> CHR ''/'' then drop_component nwd i else Inr (Suc i))"

text \<open>The characters are stored from \<open>index\<close> on.\<close>

fun put_chars :: "string \<Rightarrow> nat \<Rightarrow> string \<Rightarrow> (nat \<times> string) result" where
  "put_chars [] index nwd = Inr (index, nwd)"
| "put_chars (c # cs) index nwd = rbind (cput nwd index c) (\<lambda>nwd1. put_chars cs (Suc index) nwd1)"

function join_loop :: "string \<Rightarrow> nat \<Rightarrow> nat \<Rightarrow> nat \<Rightarrow> string \<Rightarrow> (nat \<times> string) result" where
  "join_loop path n start index nwd =
     (if start < n
      then (let len = component_length path n start; next' = Suc (start + len)
            in if path ! start = CHR ''.'' \<and> len = 1 then join_loop path n next' index nwd
               else if path ! start = CHR ''.'' \<and> len = 2 \<and> path ! (start + 1) = CHR ''.''
               then rbind (drop_component nwd index) (\<lambda>index1. join_loop path n next' index1 nwd)
               else rbind (put_chars (CHR ''/'' # take len (drop start path)) index nwd) (\<lambda>(index1, nwd1).
                      join_loop path n next' index1 nwd1))
      else Inr (index, nwd))"
  by pat_completeness auto
termination by (relation "measure (\<lambda>(path, n, i, index, nwd). n - i)") auto

declare join_loop.simps [simp del]

definition join_paths :: "(nat \<Rightarrow> char) \<Rightarrow> string \<Rightarrow> string \<Rightarrow> string result" where
  "join_paths junk cwd path =
     rbind (strlen (Some path)) (\<lambda>pathLen.
     rbind (cget path 0) (\<lambda>c.
       if c = CHR ''/'' then strcpy (map junk [0..<pathLen + 1]) path
       else rbind (strlen (Some cwd)) (\<lambda>cwdLen.
            rbind (strcpy (map junk [0..<cwdLen + pathLen + 2]) cwd) (\<lambda>nwd.
            if cwdLen = 0 then Inl OutOfBounds
            else rbind (cget nwd (cwdLen - 1)) (\<lambda>d.
            rbind (join_loop path pathLen 0 (if d = CHR ''/'' then cwdLen - 1 else cwdLen) nwd) (\<lambda>(index, nwd1).
            rbind (if index = 0 then put_chars ''/'' index nwd1 else Inr (index, nwd1)) (\<lambda>(index1, nwd2).
              cput nwd2 index1 NUL)))))))"

end
