(* ===== verification/Path_Facts.thy ===== *)
theory Path_Facts
  imports Paths
begin

text \<open>Properties of the functions on paths: a path is cut at its last slash, and joining paths stays within the new buffer.\<close>

section \<open>Directory and file\<close>

lemma last_slash_skip:
  "CHR ''/'' \<notin> set f \<Longrightarrow> last_slash (p @ f @ r) (length p + length f) = last_slash (p @ f @ r) (length p)"
proof (induction f arbitrary: r rule: rev_induct)
  case (snoc x f)
  then show ?case using snoc.IH [of "x # r"] by (auto simp: nth_append)
qed simp

lemma last_slash_found: "CHR ''/'' \<notin> set f \<Longrightarrow> last_slash (d @ CHR ''/'' # f @ r) (Suc (length d + length f)) = int (length d)"
  using last_slash_skip [of f "d @ ''/''" r] by (simp add: nth_append)

lemma last_slash_none: "CHR ''/'' \<notin> set f \<Longrightarrow> last_slash (f @ r) (length f) = - 1"
  using last_slash_skip [of f "[]" r] by simp

lemma trimmed_length_eq:
  assumes "NUL \<notin> set q" "q \<noteq> []" "last q \<noteq> CHR ''/''" "t = [] \<or> t = ''/''"
  shows "trimmed_length (q @ t @ NUL # r) = Inr (length q)"
proof -
  have "NUL \<notin> set (q @ t)" using assms(1,4) by auto
  then have l: "strlen (Some (q @ t @ NUL # r)) = Inr (length (q @ t))"
    using strlen_correct [of "q @ t @ NUL # r"] cstr_append [of "q @ t" r] terminated_append [of "q @ t" r] by simp
  have "(q @ t @ NUL # r) ! (length q - 1) = last q" using assms(2) by (simp add: nth_append last_conv_nth)
  then show ?thesis using assms l by (auto simp: trimmed_length_def cget_def nth_append)
qed

text \<open>A path with the directory \<open>d\<close>, if any, the last component \<open>f\<close> and an optional slash \<open>t\<close> at the end.\<close>

definition path_parts :: "string option \<Rightarrow> string \<Rightarrow> string \<Rightarrow> string" where
  "path_parts d f t = (case d of None \<Rightarrow> f | Some d \<Rightarrow> d @ CHR ''/'' # f) @ t"

definition dir_part :: "string option \<Rightarrow> string" where
  "dir_part d = (case d of None \<Rightarrow> ''.'' | Some d \<Rightarrow> if d = [] then ''/'' else d)"

lemma not_root:
  assumes "NUL \<notin> set q" "q \<noteq> ''/''" "length q < INT_MAX"
  shows "\<exists>c. strcmp (q @ NUL # r) (''/'' @ [NUL]) = Inr c \<and> c \<noteq> 0"
  using strcmp_correct [of "q @ NUL # r" "''/'' @ [NUL]"] str_order_0_iff [of q "''/''"] assms by (simp add: cstr_def [of "[CHR ''/'', NUL]"] terminated_def)

lemma path_cut:
  assumes "NUL \<notin> set (path_parts d f t)" "CHR ''/'' \<notin> set f" "f \<noteq> []" "t = [] \<or> t = ''/''" "length (path_parts d f t) < INT_MAX"
  shows "\<exists>c. strcmp (path_parts d f t @ NUL # r) (''/'' @ [NUL]) = Inr c \<and> c \<noteq> 0"
    and "trimmed_length (path_parts d f t @ NUL # r) = Inr (length (path_parts d f []))"
    and "last_slash (path_parts d f t @ NUL # r) (length (path_parts d f [])) = (case d of None \<Rightarrow> - 1 | Some e \<Rightarrow> int (length e))"
proof -
  let ?p = "path_parts d f t @ NUL # r"
  have lf: "last f \<noteq> CHR ''/''" using assms(2,3) last_in_set by metis
  have "path_parts d f t \<noteq> ''/''"
  proof
    assume "path_parts d f t = ''/''"
    moreover have "set f \<subseteq> set (path_parts d f t)" by (auto simp: path_parts_def split: option.splits)
    ultimately show False using last_in_set [OF assms(3)] lf by auto
  qed
  then show "\<exists>c. strcmp ?p (''/'' @ [NUL]) = Inr c \<and> c \<noteq> 0" using not_root assms(1,5) by blast
  have "NUL \<notin> set (path_parts d f [])" "path_parts d f [] \<noteq> []" "last (path_parts d f []) = last f"
    using assms(1,3) by (auto simp: path_parts_def split: option.splits)
  then show "trimmed_length ?p = Inr (length (path_parts d f []))"
    using trimmed_length_eq [of "path_parts d f []" t r] assms(4) lf by (simp add: path_parts_def)
  show "last_slash ?p (length (path_parts d f [])) = (case d of None \<Rightarrow> - 1 | Some e \<Rightarrow> int (length e))"
    using last_slash_none [OF assms(2), of "t @ NUL # r"] last_slash_found [OF assms(2), of _ "t @ NUL # r"]
    by (simp add: path_parts_def split: option.splits)
qed

lemma copy_part:
  assumes "NUL \<notin> set (u @ v)"
  shows "strncpy (replicate (length u + 2) NUL) (u @ v @ NUL # r) (length u) = Inr (u @ [NUL, NUL])"
proof -
  have "drop (Suc (length u)) (replicate (length u + 2) NUL) = [NUL]" by (subst drop_replicate) simp
  then show ?thesis using strncpy_correct [of "(u @ v) @ NUL # r" "length u" "replicate (length u + 2) NUL"] cstr_append [OF assms, of r]
      terminated_append [of "u @ v" r] by (simp add: min_def del: replicate_Suc)
qed

lemma path_directory_eq:
  assumes "NUL \<notin> set (path_parts d f t)" "CHR ''/'' \<notin> set f" "f \<noteq> []" "t = [] \<or> t = ''/''" "length (path_parts d f t) < INT_MAX"
  shows "\<exists>a. path_directory (path_parts d f t @ NUL # r) = Inr a \<and> terminated a \<and> cstr a = dir_part d"
proof -
  let ?p = "path_parts d f t @ NUL # r"
  note cut = path_cut [OF assms, of r]
  obtain c where c: "strcmp ?p (''/'' @ [NUL]) = Inr c" "c \<noteq> 0" using cut(1) by blast
  show ?thesis
  proof (cases d)
    case None
    then show ?thesis using c cut(2,3) by (simp add: path_directory_def dir_part_def cstr_def terminated_def)
  next
    case (Some e)
    have nul: "NUL \<notin> set e" using assms(1) Some by (auto simp: path_parts_def)
    have "strncpy (replicate (length e + 2) NUL) ?p (length e) = Inr (e @ [NUL, NUL])"
      using copy_part [of e "CHR ''/'' # f @ t" r] assms(1) Some by (simp add: path_parts_def)
    then show ?thesis using c cut(2,3) Some nul
      by (auto simp del: replicate_Suc simp: path_directory_def dir_part_def cput_def terminated_def cstr_def [of "[CHR ''/'', NUL]"] list_update_append)
  qed
qed

lemma path_file_eq:
  assumes "NUL \<notin> set (path_parts d f t)" "CHR ''/'' \<notin> set f" "f \<noteq> []" "t = [] \<or> t = ''/''" "length (path_parts d f t) < INT_MAX"
  shows "\<exists>a. path_file (path_parts d f t @ NUL # r) = Inr a \<and> terminated a \<and> cstr a = f"
proof -
  let ?p = "path_parts d f t @ NUL # r" and ?ls = "case d of None \<Rightarrow> - 1 | Some e \<Rightarrow> int (length e)"
  note cut = path_cut [OF assms, of r]
  obtain c where c: "strcmp ?p (''/'' @ [NUL]) = Inr c" "c \<noteq> 0" using cut(1) by blast
  have n: "nat (int (length (path_parts d f [])) - ?ls) = Suc (length f)" by (auto simp: path_parts_def split: option.splits)
  have dr: "drop (nat (?ls + 1)) ?p = f @ t @ NUL # r" by (auto simp: path_parts_def nat_add_distrib split: option.splits)
  have nul: "NUL \<notin> set f" "NUL \<notin> set (f @ t)" using assms(1) by (auto simp: path_parts_def split: option.splits)
  have "strncpy (replicate (Suc (length f) + 1) NUL) (f @ t @ NUL # r) (length f) = Inr (f @ [NUL, NUL])"
    using copy_part [OF nul(2), of r] by simp
  then show ?thesis using c cut(2,3) n dr nul by (auto simp del: replicate_Suc simp: path_file_def cput_def terminated_def list_update_append)
qed

text \<open>C28. A path is cut at its last slash: \<open>path_directory\<close> gives the part before it, \<open>path_file\<close> the last component. A slash at the
  end does not matter; without a directory the part before is \<open>.\<close>, and below the root it is \<open>/\<close>.\<close>

theorem path_splits:
  assumes "NUL \<notin> set (path_parts d f t)" "CHR ''/'' \<notin> set f" "f \<noteq> []" "t = [] \<or> t = ''/''" "length (path_parts d f t) < INT_MAX"
  shows "\<exists>a b. path_directory (path_parts d f t @ [NUL]) = Inr a \<and> cstr a = dir_part d
    \<and> path_file (path_parts d f t @ [NUL]) = Inr b \<and> cstr b = f"
  using path_directory_eq [OF assms] path_file_eq [OF assms] by blast

theorem path_splits_witness:
  "\<exists>a b. path_directory (''/usr/bin/ls/'' @ [NUL]) = Inr a \<and> cstr a = ''/usr/bin'' \<and> path_file (''/usr/bin/ls/'' @ [NUL]) = Inr b \<and> cstr b = ''ls''"
  using path_splits [of "Some ''/usr/bin''" "''ls''" "''/''"] by (simp add: path_parts_def dir_part_def INT_MAX_def)

section \<open>Joining paths\<close>

lemma put_chars_append:
  "length xs \<le> length w \<Longrightarrow> put_chars xs (length a) (a @ w) = Inr (length a + length xs, a @ xs @ drop (length xs) w)"
proof (induction xs arbitrary: a w)
  case (Cons x xs)
  then obtain y w' where w: "w = y # w'" by (cases w) auto
  then show ?case using Cons.IH [of w' "a @ [x]"] Cons.prems by simp
qed simp

lemma drop_component_le: "i < length nwd \<Longrightarrow> \<exists>j \<le> i. drop_component nwd i = Inr j"
proof (induction i)
  case (Suc i)
  then obtain j where "j \<le> i" "drop_component nwd i = Inr j" by auto
  then show ?case using Suc.prems by (auto simp: cget_def intro: exI [of _ j])
qed simp

lemma component_length_le: "i \<le> n \<Longrightarrow> i + component_length path n i \<le> n"
proof (induction path n i rule: component_length.induct)
  case (1 path n i)
  then show ?case by (subst component_length.simps) auto
qed

text \<open>The part of the new buffer before \<open>index\<close> is an absolute path, and the rest of the old one still fits.\<close>

definition join_inv :: "nat \<Rightarrow> nat \<Rightarrow> nat \<Rightarrow> string \<Rightarrow> bool" where
  "join_inv n start index nwd \<longleftrightarrow> index + (n + 1 - start) + 1 \<le> length nwd \<and> NUL \<notin> set (take index nwd) \<and> nwd \<noteq> [] \<and> hd nwd = CHR ''/''"

lemma join_inv_less:
  assumes "join_inv n start index nwd" "index' \<le> index" "start \<le> start'"
  shows "join_inv n start' index' nwd"
proof -
  have "set (take index' nwd) \<subseteq> set (take index nwd)" by (rule set_take_subset_set_take [OF assms(2)])
  then show ?thesis using assms by (auto simp: join_inv_def)
qed

lemma put_component_inv:
  assumes inv: "join_inv n start index nwd" and l: "start < n" "start + l \<le> n" and cs: "length cs = l" "NUL \<notin> set cs"
  shows "\<exists>index1 nwd1. put_chars (CHR ''/'' # cs) index nwd = Inr (index1, nwd1) \<and> join_inv n (Suc (start + l)) index1 nwd1 \<and> length nwd1 = length nwd"
proof -
  let ?a = "take index nwd" and ?w = "drop index nwd"
  have len: "index + (n + 1 - start) + 1 \<le> length nwd" "NUL \<notin> set ?a" "nwd \<noteq> []" "hd nwd = CHR ''/''" using inv by (auto simp: join_inv_def)
  then have a: "length ?a = index" by simp
  let ?nwd = "?a @ (CHR ''/'' # cs) @ drop (Suc l) ?w"
  have eq: "put_chars (CHR ''/'' # cs) index nwd = Inr (index + Suc l, ?nwd)"
    using put_chars_append [of "CHR ''/'' # cs" ?w ?a] a len(1) l cs(1) by simp
  have ln: "length ?nwd = length nwd" using a len(1) l cs(1) by simp
  have "take (index + Suc l) ?nwd = ?a @ CHR ''/'' # cs" using a cs(1) by simp
  then have nul: "NUL \<notin> set (take (index + Suc l) ?nwd)" using len(2) cs(2) by simp
  have hd: "hd ?nwd = CHR ''/''" using len(3,4) by (cases nwd; cases index) auto
  have "join_inv n (Suc (start + l)) (index + Suc l) ?nwd" unfolding join_inv_def ln using len(1) l nul hd by simp
  then show ?thesis using eq ln by blast
qed

lemma join_loop_ok:
  assumes "NUL \<notin> set (take n path)" "n \<le> length path"
  shows "join_inv n start index nwd \<Longrightarrow> start \<le> Suc n \<Longrightarrow>
    \<exists>index1 nwd1. join_loop path n start index nwd = Inr (index1, nwd1) \<and> join_inv n (Suc n) index1 nwd1 \<and> length nwd1 = length nwd"
proof (induction "Suc n - start" arbitrary: start index nwd rule: less_induct)
  case less
  let ?l = "component_length path n start"
  show ?case
  proof (cases "start < n")
    case False
    then show ?thesis using less.prems join_inv_less [OF less.prems(1) order_refl less.prems(2)] by (subst join_loop.simps) simp
  next
    case True
    have l: "start + ?l \<le> n" using True by (intro component_length_le) simp
    have next_ok: "\<exists>index1 nwd1. join_loop path n (Suc (start + ?l)) j w = Inr (index1, nwd1) \<and> join_inv n (Suc n) index1 nwd1 \<and> length nwd1 = length w"
      if "join_inv n (Suc (start + ?l)) j w" for j w using less.hyps [OF _ that] True l by simp
    have cs: "NUL \<notin> set (take ?l (drop start path))" "length (take ?l (drop start path)) = ?l"
    proof -
      have "take ?l (drop start path) = drop start (take (start + ?l) path)" by (simp add: drop_take)
      moreover have "set (drop start (take (start + ?l) path)) \<subseteq> set (take n path)"
        by (rule subset_trans [OF set_drop_subset set_take_subset_set_take [OF l]])
      ultimately show "NUL \<notin> set (take ?l (drop start path))" using assms(1) by auto
      show "length (take ?l (drop start path)) = ?l" using l assms(2) by simp
    qed
    obtain j where j: "j \<le> index" "drop_component nwd index = Inr j"
      using drop_component_le [of index nwd] less.prems(1) by (auto simp: join_inv_def)
    obtain i2 w2 where p: "put_chars (CHR ''/'' # take ?l (drop start path)) index nwd = Inr (i2, w2)" "join_inv n (Suc (start + ?l)) i2 w2" "length w2 = length nwd"
      using put_component_inv [OF less.prems(1) True l cs(2,1)] by blast
    have keep: "join_inv n (Suc (start + ?l)) index nwd" "join_inv n (Suc (start + ?l)) j nwd"
      using join_inv_less [OF less.prems(1)] j(1) by simp_all
    let ?dot = "path ! start = CHR ''.'' \<and> ?l = 1" and ?up = "path ! start = CHR ''.'' \<and> ?l = 2 \<and> path ! (start + 1) = CHR ''.''"
    consider ?dot | "\<not> ?dot" ?up | "\<not> ?dot" "\<not> ?up" by blast
    then show ?thesis
    proof cases
      case 1
      then have "join_loop path n start index nwd = join_loop path n (Suc (start + ?l)) index nwd" using True by (subst join_loop.simps) (simp add: Let_def)
      then show ?thesis using next_ok [OF keep(1)] by simp
    next
      case 2
      then have "join_loop path n start index nwd = join_loop path n (Suc (start + ?l)) j nwd" using True j(2) by (subst join_loop.simps) (simp add: Let_def)
      then show ?thesis using next_ok [OF keep(2)] by simp
    next
      case 3
      then have "join_loop path n start index nwd = join_loop path n (Suc (start + ?l)) i2 w2"
        unfolding join_loop.simps [of path n start index nwd] Let_def p(1) using True by auto
      then show ?thesis using next_ok [OF p(2)] p(3) by simp
    qed
  qed
qed

text \<open>A relative path: the loop starts behind a copy of the working directory, in a buffer with room for both.\<close>

definition finish_join :: "nat \<times> string \<Rightarrow> string result" where
  "finish_join = (\<lambda>(index, nwd). rbind (if index = 0 then put_chars ''/'' index nwd else Inr (index, nwd)) (\<lambda>(index1, nwd1). cput nwd1 index1 NUL))"

definition last_index :: "string \<Rightarrow> nat" where
  "last_index cwd = (if last cwd = CHR ''/'' then length cwd - 1 else length cwd)"

lemma join_paths_relative:
  assumes "NUL \<notin> set cwd" "cwd \<noteq> []" "NUL \<notin> set path" "path = [] \<or> hd path \<noteq> CHR ''/''"
  shows "\<exists>rest. length rest = Suc (length path)
    \<and> join_paths junk (cwd @ [NUL]) (path @ [NUL]) = rbind (join_loop (path @ [NUL]) (length path) 0 (last_index cwd) (cwd @ NUL # rest)) finish_join"
proof -
  let ?n = "length path" let ?w = "map junk [0..<length cwd + ?n + 2]"
  define rest where "rest = drop (Suc (length cwd)) ?w"
  have rest: "length rest = Suc ?n" unfolding rest_def by (simp del: upt_Suc)
  have sl: "strlen (Some (path @ [NUL])) = Inr ?n" "strlen (Some (cwd @ [NUL])) = Inr (length cwd)"
    using strlen_correct [of "path @ [NUL]"] strlen_correct [of "cwd @ [NUL]"] assms(1,3) by simp_all
  have sc: "strcpy ?w (cwd @ [NUL]) = Inr (cwd @ NUL # rest)"
    using strcpy_correct [of "cwd @ [NUL]" ?w] assms(1) by (simp add: rest_def del: upt_Suc)
  have d: "cget (cwd @ NUL # rest) (length cwd - 1) = Inr (last cwd)" using assms(2) by (simp add: cget_def nth_append last_conv_nth)
  have first: "cget (path @ [NUL]) 0 = Inr (hd (path @ [NUL]))" "hd (path @ [NUL]) \<noteq> CHR ''/''"
    using assms(4) by (auto simp: cget_def hd_conv_nth nth_append hd_append)
  show ?thesis using rest
    unfolding join_paths_def using sl sc first d assms(2) by (intro exI [of _ rest]) (simp add: finish_join_def last_index_def del: put_chars.simps upt_Suc)
qed

lemma finish_join_inv:
  assumes "join_inv n (Suc n) i w" "2 \<le> length w"
  shows "\<exists>x u. finish_join (i, w) = Inr (x @ NUL # u) \<and> NUL \<notin> set x \<and> x \<noteq> [] \<and> hd x = CHR ''/'' \<and> Suc (length (x @ u)) = length w"
proof (cases "i = 0")
  case True
  obtain y z w2 where "w = y # z # w2" using assms(2) by (cases w; cases "tl w") auto
  then show ?thesis using True by (intro exI [of _ "''/''"] exI [of _ w2]) (simp add: finish_join_def cput_def)
next
  case False
  have i: "i < length w" "NUL \<notin> set (take i w)" "hd w = CHR ''/''" using assms(1) by (simp_all add: join_inv_def)
  have "cput w i NUL = Inr (take i w @ NUL # drop (Suc i) w)" using i(1) by (simp add: cput_def upd_conv_take_nth_drop)
  then show ?thesis using False i by (intro exI [of _ "take i w"] exI [of _ "drop (Suc i) w"]) (auto simp: finish_join_def hd_conv_nth)
qed

text \<open>C29. Joined to an absolute working directory, every path gives an absolute path within the buffer that \<open>join_paths\<close> allocates,
  whatever that memory held before.\<close>

theorem join_paths_absolute:
  assumes "NUL \<notin> set cwd" "NUL \<notin> set path"
  shows "\<exists>b. join_paths junk (CHR ''/'' # cwd @ [NUL]) (path @ [NUL]) = Inr b \<and> terminated b \<and> hd (cstr b) = CHR ''/''
    \<and> length b \<le> length cwd + length path + 3"
proof (cases "path \<noteq> [] \<and> hd path = CHR ''/''")
  case True
  have "strcpy (map junk [0..<length path + 1]) (path @ [NUL]) = Inr (path @ [NUL])"
    using strcpy_correct [of "path @ [NUL]" "map junk [0..<length path + 1]"] assms(2) by simp
  moreover have "strlen (Some (path @ [NUL])) = Inr (length path)" using strlen_correct [of "path @ [NUL]"] assms(2) by simp
  ultimately show ?thesis using True assms(2) by (cases path) (auto simp: join_paths_def cget_def terminated_def cstr_def)
next
  case False
  let ?c = "CHR ''/'' # cwd" and ?n = "length path"
  have nul: "NUL \<notin> set ?c" using assms(1) by simp
  obtain rest where r: "length rest = Suc ?n"
    "join_paths junk (?c @ [NUL]) (path @ [NUL]) = rbind (join_loop (path @ [NUL]) ?n 0 (last_index ?c) (?c @ NUL # rest)) finish_join"
    using join_paths_relative [OF nul _ assms(2), of junk] False by auto
  have i: "last_index ?c \<le> length ?c" by (simp add: last_index_def)
  then have "take (last_index ?c) (?c @ NUL # rest) = take (last_index ?c) ?c" by (subst take_append) simp
  moreover have "NUL \<notin> set (take (last_index ?c) ?c)" using nul set_take_subset [of "last_index ?c" ?c] by blast
  ultimately have "join_inv ?n 0 (last_index ?c) (?c @ NUL # rest)" using i r(1) by (simp add: join_inv_def)
  then obtain i1 w1 where j: "join_loop (path @ [NUL]) ?n 0 (last_index ?c) (?c @ NUL # rest) = Inr (i1, w1)" "join_inv ?n (Suc ?n) i1 w1"
    "length w1 = length (?c @ NUL # rest)"
    using join_loop_ok [of ?n "path @ [NUL]" 0 "last_index ?c" "?c @ NUL # rest"] assms(2) by auto
  then obtain x u where "finish_join (i1, w1) = Inr (x @ NUL # u)" "NUL \<notin> set x" "x \<noteq> []" "hd x = CHR ''/''" "Suc (length (x @ u)) = length w1"
    using finish_join_inv [OF j(2)] r(1) by auto
  then show ?thesis using r j(1,3) by simp
qed

theorem join_paths_absolute_witness:
  "\<exists>b. join_paths (\<lambda>i. CHR ''x'') (''/home'' @ [NUL]) (''../bin'' @ [NUL]) = Inr b \<and> hd (cstr b) = CHR ''/'' \<and> length b \<le> 13"
  using join_paths_absolute [of "''home''" "''../bin''" "\<lambda>i. CHR ''x''"] by auto

lemma drop_component_found:
  "k \<le> length u \<Longrightarrow> CHR ''/'' \<notin> set u \<Longrightarrow> drop_component (d @ CHR ''/'' # u @ r) (length d + k) = Inr (length d)"
proof (induction k)
  case 0
  then show ?case by (cases d rule: rev_cases) (simp_all add: cget_def nth_append)
next
  case (Suc k)
  have "(d @ CHR ''/'' # u @ r) ! Suc (length d + k) = u ! k" using Suc.prems(1) by (simp add: nth_append)
  moreover have "u ! k \<noteq> CHR ''/''" using Suc.prems nth_mem [of k u] by (metis Suc_le_eq)
  ultimately show ?case using Suc by (simp add: cget_def)
qed

lemma join_loop_up:
  assumes "CHR ''/'' \<notin> set u" "k \<le> length u" "path = ''..'' \<or> path = ''../..''"
  shows "join_loop (path @ [NUL]) (length path) 0 (length d + k) (d @ CHR ''/'' # u @ r) = Inr (length d, d @ CHR ''/'' # u @ r)"
proof -
  let ?w = "d @ CHR ''/'' # u @ r"
  have d: "drop_component ?w (length d + k) = Inr (length d)" "drop_component ?w (length d) = Inr (length d)"
    using drop_component_found [of k u d r] drop_component_found [of 0 u d r] assms(1,2) by simp_all
  have c: "component_length (''..'' @ [NUL]) 2 0 = 2" "component_length (''../..'' @ [NUL]) 5 0 = 2" "component_length (''../..'' @ [NUL]) 5 3 = 2"
    by (simp_all add: component_length.simps)
  have one: "join_loop (''..'' @ [NUL]) 2 0 (length d + k) ?w = Inr (length d, ?w)"
    unfolding join_loop.simps [of "''..'' @ [NUL]" 2 0] c Let_def using d by (simp add: numeral_eq_Suc join_loop.simps [of _ _ "Suc (Suc (Suc 0))"])
  have second: "join_loop (''../..'' @ [NUL]) 5 3 (length d) ?w = Inr (length d, ?w)"
    unfolding join_loop.simps [of "''../..'' @ [NUL]" 5 3] c Let_def using d by (simp add: numeral_eq_Suc join_loop.simps [of _ _ "Suc (Suc (Suc (Suc (Suc (Suc 0)))))"])
  have "join_loop (''../..'' @ [NUL]) 5 0 (length d + k) ?w = Inr (length d, ?w)"
    unfolding join_loop.simps [of "''../..'' @ [NUL]" 5 0] c Let_def using d second by (simp add: numeral_eq_Suc)
  then show ?thesis using one assms(3) by (auto simp: numeral_eq_Suc)
qed

text \<open>C38. The search for the start of the last component begins at the slash that the previous search stopped at: \<open>../..\<close> goes up
  one directory only, as \<open>..\<close> does.\<close>

theorem parent_once:
  assumes "NUL \<notin> set (d @ CHR ''/'' # e)" "CHR ''/'' \<notin> set e" "e \<noteq> []" "path = ''..'' \<or> path = ''../..''"
  shows "\<exists>b. join_paths junk (d @ CHR ''/'' # e @ [NUL]) (path @ [NUL]) = Inr b \<and> cstr b = (if d = [] then ''/'' else d)"
proof -
  let ?c = "d @ CHR ''/'' # e"
  obtain rest where r: "join_paths junk (?c @ [NUL]) (path @ [NUL]) = rbind (join_loop (path @ [NUL]) (length path) 0 (last_index ?c) (?c @ NUL # rest)) finish_join"
    using join_paths_relative [of ?c path junk] assms by auto
  have "last e \<noteq> CHR ''/''" using last_in_set [OF assms(3)] assms(2) by metis
  then have "last_index ?c = length d + Suc (length e)" using assms(3) by (simp add: last_index_def)
  then have "join_loop (path @ [NUL]) (length path) 0 (last_index ?c) (?c @ NUL # rest) = Inr (length d, ?c @ NUL # rest)"
    using join_loop_up [of "e @ [NUL]" "Suc (length e)" path d rest] assms(2,4) by simp
  moreover have "\<exists>b. finish_join (length d, ?c @ NUL # rest) = Inr b \<and> cstr b = (if d = [] then ''/'' else d)"
  proof (cases "d = []")
    case True
    obtain x y where "e = x # y" using assms(3) by (cases e) auto
    then show ?thesis using True by (simp add: finish_join_def cput_def cstr_def)
  next
    case False
    then show ?thesis using assms(1) by (simp add: finish_join_def cput_def list_update_append)
  qed
  ultimately show ?thesis using r by simp
qed

theorem parent_once_witness:
  "\<exists>b. join_paths (\<lambda>i. NUL) (''/home/user/docs'' @ [NUL]) (''../..'' @ [NUL]) = Inr b \<and> cstr b = ''/home/user''"
  using parent_once [of "''/home/user''" "''docs''" "''../..''" "\<lambda>i. NUL"] by simp

end
