(* ===== verification/Fs.thy ===== *)
theory Fs
  imports Tty_Input Ext2_Dir Paths
begin

text \<open>
  \<open>src/system/fs/fs.c\<close>: the table of open inodes and the operations on files and directories, over the ext2
  driver. The state is the kernel with the mounted file system. The driver works on the memory of the kernel:
  \<open>mount\<close> gives it the pages and the block cache of \<open>kmem\<close>, \<open>unmount\<close> takes them back. Pointers to inodes are
  numbered in the order of allocation; \<open>inode_brk\<close> is the next one. \<open>heap_junk\<close> is what the memory given by
  \<open>kalloc\<close> holds. Names are buffers that hold a string with its terminator.
\<close>

section \<open>Operations on the kernel\<close>

record io_kernel = tty_kernel +
  k_fs :: ext2
  inode_brk :: nat
  heap_junk :: "nat \<Rightarrow> char"

type_synonym 'a io = "io_kernel \<Rightarrow> ('a \<times> io_kernel) result option"

definition io_return :: "'a \<Rightarrow> 'a io" where
  "io_return x k = Some (Inr (x, k))"

definition io_fault :: "fault \<Rightarrow> 'a io" where
  "io_fault e k = Some (Inl e)"

definition io_bind :: "'a io \<Rightarrow> ('a \<Rightarrow> 'b io) \<Rightarrow> 'b io" where
  "io_bind m f k = obind (m k) (\<lambda>(x, k1). f x k1)"

definition io_get :: "(io_kernel \<Rightarrow> 'a) \<Rightarrow> 'a io" where
  "io_get g k = Some (Inr (g k, k))"

definition io_upd :: "(io_kernel \<Rightarrow> io_kernel) \<Rightarrow> unit io" where
  "io_upd g k = Some (Inr ((), g k))"

definition io_result :: "'a result \<Rightarrow> 'a io" where
  "io_result r k = (case r of Inl e \<Rightarrow> Some (Inl e) | Inr x \<Rightarrow> Some (Inr (x, k)))"

definition io_if :: "bool \<Rightarrow> 'a io \<Rightarrow> 'a io \<Rightarrow> 'a io" where
  "io_if b m n k = (if b then m k else n k)"

text \<open>A call through a pointer that may be \<open>NULL\<close>.\<close>

definition io_deref :: "'p option \<Rightarrow> ('p \<Rightarrow> 'a io) \<Rightarrow> 'a io" where
  "io_deref p f k = (case p of None \<Rightarrow> Some (Inl NullDeref) | Some i \<Rightarrow> f i k)"

definition io_case :: "'p option \<Rightarrow> 'a io \<Rightarrow> ('p \<Rightarrow> 'a io) \<Rightarrow> 'a io" where
  "io_case p m f k = (case p of None \<Rightarrow> m k | Some i \<Rightarrow> f i k)"

lemma io_bind_mono [partial_function_mono]:
  fixes B :: "('x \<Rightarrow> 'y option) \<Rightarrow> 'a io"
  assumes "\<And>k. mono_option (\<lambda>f. B f k)" "\<And>y k. mono_option (\<lambda>f. C y f k)"
  shows "mono_option (\<lambda>f. io_bind (B f) (\<lambda>y. C y f) k)"
proof (rule monotoneI)
  fix f g :: "'x \<Rightarrow> 'y option"
  assume fg: "option.le_fun f g"
  have B: "B f k = None \<or> B f k = B g k" using assms(1) [of k] fg unfolding monotone_def flat_ord_def by blast
  have C: "C y f k' = None \<or> C y f k' = C y g k'" for y k' using assms(2) [of y k'] fg unfolding monotone_def flat_ord_def by blast
  from B show "option_ord (io_bind (B f) (\<lambda>y. C y f) k) (io_bind (B g) (\<lambda>y. C y g) k)"
  proof
    assume "B f k = None"
    then show ?thesis by (simp add: flat_ord_def io_bind_def obind_def)
  next
    assume eq: "B f k = B g k"
    show ?thesis
    proof (cases "B g k")
      case (Some r)
      then show ?thesis using eq C by (cases r) (auto simp: flat_ord_def io_bind_def obind_def)
    qed (simp add: eq flat_ord_def io_bind_def obind_def)
  qed
qed

lemma io_if_mono [partial_function_mono]:
  "mono_option (\<lambda>f. B f k) \<Longrightarrow> mono_option (\<lambda>f. C f k) \<Longrightarrow> mono_option (\<lambda>f. io_if b (B f) (C f) k)"
  by (cases b) (simp_all add: io_if_def)

lemma io_case_mono [partial_function_mono]:
  "mono_option (\<lambda>f. B f k) \<Longrightarrow> (\<And>y. mono_option (\<lambda>f. C y f k)) \<Longrightarrow> mono_option (\<lambda>f. io_case p (B f) (\<lambda>y. C y f) k)"
  by (cases p) (simp_all add: io_case_def)

lemma io_deref_mono [partial_function_mono]:
  "(\<And>y. mono_option (\<lambda>f. C y f k)) \<Longrightarrow> mono_option (\<lambda>f. io_deref p (\<lambda>y. C y f) k)"
  by (cases p) (simp_all add: io_deref_def monotone_def flat_ord_def)

text \<open>The file system driver on the memory of the kernel.\<close>

definition mount :: "io_kernel \<Rightarrow> ext2" where
  "mount k = (k_fs k)\<lparr>dev := (cache_state.truncate (kmem k))\<lparr>clock := uint (now k)\<rparr>\<rparr>"

definition unmount :: "ext2 \<Rightarrow> io_kernel \<Rightarrow> io_kernel" where
  "unmount f k = k\<lparr>k_fs := f, kmem := cache_state.extend (dev f) (cache_state.more (kmem k))\<rparr>"

definition with_fs :: "(ext2 \<Rightarrow> ('a \<times> ext2) result option) \<Rightarrow> 'a io" where
  "with_fs g k = obind (g (mount k)) (\<lambda>(r, f). Some (Inr (r, unmount f k)))"

text \<open>An operation of the driver that changes the inode it gets.\<close>

definition on_inode :: "nat \<Rightarrow> (fs_Inode \<Rightarrow> ext2 \<Rightarrow> ('a \<times> fs_Inode \<times> ext2) result option) \<Rightarrow> 'a io" where
  "on_inode i g k = obind (g (inodes k i) (mount k)) (\<lambda>(r, n, f). Some (Inr (r, upd_inode i (\<lambda>_. n) (unmount f k))))"

definition current :: "nat io" where
  "current k = (case scheduler_current k of None \<Rightarrow> Some (Inl NullDeref) | Some p \<Rightarrow> Some (Inr (p, k)))"

definition upd_links :: "int \<Rightarrow> fs_Inode \<Rightarrow> fs_Inode" where
  "upd_links d = upd_data (\<lambda>e. e\<lparr>i_hardLinks := nat ((int (i_hardLinks e) + d) mod 2 ^ 16)\<rparr>)"

section \<open>The table of open inodes\<close>

definition ENOENT :: int where "ENOENT = - 2"
definition ENOTDIR :: int where "ENOTDIR = - 3"
definition EEXIST :: int where "EEXIST = - 5"
definition EIO :: int where "EIO = - 6"
definition ENOTEMPTY :: int where "ENOTEMPTY = - 7"
definition EISDIR :: int where "EISDIR = - 8"
definition PERM_DEFAULT :: nat where "PERM_DEFAULT = 484"

text \<open>An entry whose reference count is zero makes \<open>fs_inode_open\<close> stop the system in an endless loop.\<close>

definition broken :: "io_kernel \<Rightarrow> bool" where
  "broken k \<longleftrightarrow> (\<exists>i. Some i \<in> set (inodeTable k) \<and> in_refCount (inodes k i) = 0)"

lemma broken_code [code]: "broken k \<longleftrightarrow> list_ex (\<lambda>p. case p of None \<Rightarrow> False | Some i \<Rightarrow> in_refCount (inodes k i) = 0) (inodeTable k)"
  by (auto simp: broken_def list_ex_iff split: option.splits)

fun find_inode :: "nat \<Rightarrow> (nat \<Rightarrow> fs_Inode) \<Rightarrow> ptr list \<Rightarrow> ptr" where
  "find_inode n st [] = None"
| "find_inode n st (p # ps) = (case p of None \<Rightarrow> find_inode n st ps | Some i \<Rightarrow> if in_number (st i) = n then Some i else find_inode n st ps)"

definition new_inode :: "fs_Inode \<Rightarrow> nat io" where
  "new_inode node k = Some (Inr (inode_brk k, k\<lparr>inodes := (inodes k)(inode_brk k := node), inode_brk := Suc (inode_brk k)\<rparr>))"

definition add_reference :: "nat \<Rightarrow> io_kernel \<Rightarrow> io_kernel" where
  "add_reference i k = upd_inode i (\<lambda>n. n\<lparr>in_refCount := in_refCount n + 1\<rparr>) k"

text \<open>The new inode \<open>a\<close> in the first free place of the table.\<close>

definition enter_inode :: "nat \<Rightarrow> ptr io" where
  "enter_inode a k =
     (case find_ptr None (inodeTable k) of
        Some j \<Rightarrow> Some (Inr (Some a, k\<lparr>inodeTable := (inodeTable k)[j := Some a]\<rparr>))
      | None \<Rightarrow> Some (Inr (None, free_inode a k)))"

definition fs_inode_open :: "nat \<Rightarrow> ptr io" where
  "fs_inode_open num k =
     (if broken k then None
      else case find_inode num (inodes k) (inodeTable k) of
        Some i \<Rightarrow> Some (Inr (Some i, add_reference i k))
      | None \<Rightarrow>
          io_bind (with_fs (\<lambda>f. Some (ext2_read_inode num f))) (\<lambda>r.
          io_deref r (\<lambda>node.
          io_bind (new_inode (node\<lparr>in_extra := None, in_refCount := 1\<rparr>)) enter_inode)) k)"

definition fs_root :: "ptr io" where
  "fs_root = fs_inode_open 2"

text \<open>\<open>fs_load\<close>, with the operations that \<open>ext2_load\<close> registers.\<close>

definition fs_load :: "int io" where
  "fs_load =
     io_bind (with_fs (\<lambda>f. Some (rbind (ext2_load 0 f) (\<lambda>f1. Inr ((), f1))))) (\<lambda>_.
     io_bind (io_upd (fs_register_ops INODE_LINK FileOps \<circ> fs_register_ops INODE_FILE FileOps \<circ> fs_register_ops INODE_DIR DirOps)) (\<lambda>_.
     io_bind (fs_inode_open 2) (\<lambda>_. io_return 0)))"

section \<open>Directory entries\<close>

definition fs_findentry :: "nat \<Rightarrow> string \<Rightarrow> fs_DirectoryEntry io" where
  "fs_findentry path name =
     io_bind (io_get (\<lambda>k. inodes k path)) (\<lambda>dir.
     io_bind (with_fs (ext2_dir_find dir name)) (\<lambda>entry.
       io_if (de_entryLength entry \<noteq> 0)
         (io_bind (io_result (strcpy (replicate ENTRY_NAME_MAX_LEN NUL) (de_name entry))) (\<lambda>nm.
            io_return \<lparr>fde_inode = de_inode entry, fde_length = de_nameLength entry, fde_name = nm\<rparr>))
         (io_return \<lparr>fde_inode = 0, fde_length = 0, fde_name = replicate ENTRY_NAME_MAX_LEN NUL\<rparr>)))"

definition remove_link :: "nat \<Rightarrow> string \<Rightarrow> nat \<Rightarrow> int io" where
  "remove_link path name inode =
     io_bind (on_inode path (\<lambda>n. ext2_dir_remove n name)) (\<lambda>r.
       io_if (r = - 1) (io_return EIO)
         (io_bind (io_upd (upd_inode inode (upd_links (- 1)))) (\<lambda>_.
          io_bind (io_get (\<lambda>k. i_hardLinks (in_data (inodes k inode)))) (\<lambda>links.
          io_bind (on_inode inode (\<lambda>n f. Some (if links = 0 then ext2_delete_inode n f else ext2_write_inode n f))) (\<lambda>res.
            io_return (if res = - 1 then EIO else 0))))))"

definition add_link :: "nat \<Rightarrow> string \<Rightarrow> nat \<Rightarrow> int io" where
  "add_link path name inode =
     io_bind (io_get (\<lambda>k. inodes k path)) (\<lambda>dir.
     io_bind (with_fs (ext2_dir_find dir name)) (\<lambda>old.
       io_if (de_entryLength old \<noteq> 0) (io_return EEXIST)
         (io_bind (io_get (\<lambda>k. in_number (inodes k inode))) (\<lambda>num.
          io_bind (on_inode path (\<lambda>n. ext2_dir_add n name num)) (\<lambda>r.
            io_if (r = - 1) (io_return EIO)
              (io_bind (io_upd (upd_inode inode (upd_links 1))) (\<lambda>_.
               on_inode inode (\<lambda>n f. Some (ext2_write_inode n f)))))))))"

definition inode_type :: "nat \<Rightarrow> nat io" where
  "inode_type i = io_get (\<lambda>k. INODE_TYPE (in_data (inodes k i)))"

abbreviation close_inode :: "nat \<Rightarrow> unit io" where
  "close_inode i \<equiv> io_upd (fs_inode_close i)"

text \<open>The loop of \<open>fs_rmdir\<close> over the entries of \<open>dir\<close>: whether there is one that is neither \<open>.\<close> nor \<open>..\<close>.\<close>

partial_function (option) rmdir_loop :: "nat \<Rightarrow> nat \<Rightarrow> nat \<Rightarrow> nat \<Rightarrow> io_kernel \<Rightarrow> (bool \<times> io_kernel) result option" where
  "rmdir_loop dir parent self offset k =
     io_bind (with_fs (\<lambda>f. Some (ext2_dir_read (inodes k dir) offset f))) (\<lambda>child.
       io_if (de_entryLength child = 0) (io_return False)
         (io_if (de_inode child \<noteq> parent \<and> de_inode child \<noteq> self) (io_return True)
            (rmdir_loop dir parent self ((offset + de_entryLength child) mod 2 ^ 32)))) k"

definition fs_rmdir :: "nat \<Rightarrow> string \<Rightarrow> int io" where
  "fs_rmdir path name =
     io_bind (fs_findentry path name) (\<lambda>entry.
       io_if (fde_inode entry = 0) (io_return ENOENT)
         (io_bind (fs_inode_open (fde_inode entry)) (\<lambda>p.
            io_case p (io_return EIO) (\<lambda>dir.
              io_bind (inode_type dir) (\<lambda>t.
                io_if (t \<noteq> INODE_DIR) (io_bind (close_inode dir) (\<lambda>_. io_return ENOTDIR))
                  (io_bind (io_get (\<lambda>k. in_number (inodes k path))) (\<lambda>parent.
                   io_bind (rmdir_loop dir parent (fde_inode entry) 0) (\<lambda>full.
                     io_if full (io_bind (close_inode dir) (\<lambda>_. io_return ENOTEMPTY))
                       (io_bind (remove_link path name dir) (\<lambda>res.
                        io_bind (io_get (\<lambda>k. i_hardLinks (in_data (inodes k dir)))) (\<lambda>links.
                        io_bind (io_if (links = 1)
                                   (io_bind (remove_link dir (''.'' @ [NUL]) dir) (\<lambda>_.
                                    io_bind (remove_link dir (''..'' @ [NUL]) path) (\<lambda>_. io_return ())))
                                   (io_return ())) (\<lambda>_.
                        io_bind (close_inode dir) (\<lambda>_. io_return res)))))))))))))"

definition fs_unlink :: "nat \<Rightarrow> string \<Rightarrow> int io" where
  "fs_unlink path name =
     io_bind (fs_findentry path name) (\<lambda>entry.
       io_if (fde_inode entry = 0) (io_return ENOENT)
         (io_bind (fs_inode_open (fde_inode entry)) (\<lambda>p.
            io_case p (io_return EIO) (\<lambda>inode.
              io_bind (inode_type inode) (\<lambda>t.
                io_if (t = INODE_DIR) (io_bind (close_inode inode) (\<lambda>_. io_return EISDIR))
                  (io_bind (remove_link path name inode) (\<lambda>res.
                   io_bind (close_inode inode) (\<lambda>_. io_return res))))))))"

section \<open>Permissions and new files\<close>

definition fs_permission :: "nat \<Rightarrow> nat io" where
  "fs_permission inode = io_get (\<lambda>k. INODE_PERMISSIONS (in_data (inodes k inode)))"

definition with_permission :: "int \<Rightarrow> ext2_Inode \<Rightarrow> ext2_Inode" where
  "with_permission perm d = d\<lparr>typesAndPermissions := nat ((push_bit 12 (int (INODE_TYPE d)) OR perm) mod 2 ^ 16)\<rparr>"

definition fs_set_permission :: "nat \<Rightarrow> int \<Rightarrow> int io" where
  "fs_set_permission inode perm =
     io_bind (io_upd (upd_inode inode (upd_data (with_permission perm)))) (\<lambda>_.
     io_bind (on_inode inode (\<lambda>n f. Some (ext2_write_inode n f))) (\<lambda>r. io_return (if r = - 1 then EIO else 0)))"

definition fs_set_own :: "nat \<Rightarrow> int \<Rightarrow> int \<Rightarrow> int io" where
  "fs_set_own inode uid gid =
     io_bind (io_upd (upd_inode inode (upd_data (\<lambda>d. d\<lparr>i_uid := nat (uid mod 2 ^ 16), i_gid := nat (gid mod 2 ^ 16)\<rparr>)))) (\<lambda>_.
     io_bind (on_inode inode (\<lambda>n f. Some (ext2_write_inode n f))) (\<lambda>r. io_return (if r = - 1 then EIO else 0)))"

definition fs_get_inode_size :: "nat \<Rightarrow> int io" where
  "fs_get_inode_size inode = io_get (\<lambda>k. s32 (int (i_size (in_data (inodes k inode)))))"

definition fs_mknod :: "nat \<Rightarrow> string \<Rightarrow> nat \<Rightarrow> int io" where
  "fs_mknod path name type =
     io_bind (fs_findentry path name) (\<lambda>entry.
       io_if (fde_inode entry \<noteq> 0) (io_return EEXIST)
         (io_bind current (\<lambda>p.
          io_bind (io_get (\<lambda>k. procs k p)) (\<lambda>process.
          io_bind (with_fs (\<lambda>f. Some (ext2_create_inode type PERM_DEFAULT (nat (p_uid process mod 2 ^ 16)) (nat (p_gid process mod 2 ^ 16)) f))) (\<lambda>r.
            io_case r (io_return EIO) (\<lambda>node.
              io_bind (new_inode node) (\<lambda>nod.
              io_bind (add_link path name nod) (\<lambda>res.
              io_bind (io_upd (free_inode nod)) (\<lambda>_. io_return res)))))))))"

text \<open>\<open>fs_mkdir\<close> does not check the result of \<open>ext2_dir_create\<close>: \<open>free_inode\<close> dereferences \<open>NULL\<close> at the latest.\<close>

definition fs_mkdir :: "nat \<Rightarrow> string \<Rightarrow> int io" where
  "fs_mkdir path name =
     io_bind (fs_findentry path name) (\<lambda>entry.
       io_if (fde_inode entry \<noteq> 0) (io_return EEXIST)
         (io_bind current (\<lambda>p.
          io_bind (io_get (\<lambda>k. procs k p)) (\<lambda>process.
          io_bind (with_fs (\<lambda>f. Some (ext2_dir_create PERM_DEFAULT (nat (p_uid process mod 2 ^ 16)) (nat (p_gid process mod 2 ^ 16)) f))) (\<lambda>r.
            io_deref r (\<lambda>node.
              io_bind (new_inode node) (\<lambda>dir.
              io_bind (add_link path name dir) (\<lambda>res.
              io_bind (io_if (res = 0)
                         (io_bind (add_link dir (''.'' @ [NUL]) dir) (\<lambda>_.
                          io_bind (add_link dir (''..'' @ [NUL]) path) (\<lambda>_. io_return ())))
                         (io_return ())) (\<lambda>_.
              io_bind (io_upd (free_inode dir)) (\<lambda>_. io_return res))))))))))"

definition fs_symlink :: "nat \<Rightarrow> string \<Rightarrow> string \<Rightarrow> int io" where
  "fs_symlink path entry to' =
     io_bind (fs_mknod path entry INODE_LINK) (\<lambda>r.
       io_if (r \<noteq> 0) (io_return (- 1))
         (io_bind (fs_findentry path entry) (\<lambda>direntry.
            io_if (fde_inode direntry = 0) (io_return (- 1))
              (io_bind (fs_inode_open (fde_inode direntry)) (\<lambda>p.
               io_deref p (\<lambda>file.
               io_bind (fs_set_permission file 438) (\<lambda>_.
               io_bind (io_result (strlen (Some to'))) (\<lambda>len.
               io_bind (on_inode file (\<lambda>n f. Some (ext2_write_inode_content n 0 len (map char_byte to') f))) (\<lambda>written.
               io_bind (close_inode file) (\<lambda>_.
                 io_return (if len \<noteq> written then - 1 else 0)))))))))))"

text \<open>\<open>fs_symlink_read\<close>: the buffer, of \<open>size + 1\<close> bytes, or \<open>NULL\<close>.\<close>

definition fs_symlink_read :: "nat \<Rightarrow> nat \<Rightarrow> string \<Rightarrow> string option io" where
  "fs_symlink_read symlink size' buff =
     io_bind (io_get (\<lambda>k. inodes k symlink)) (\<lambda>n.
     io_bind (with_fs (\<lambda>f. Some (rbind (ext2_read_inode_content n 0 size' (map char_byte buff) f) (\<lambda>(r, b, f1). Inr ((r, b), f1))))) (\<lambda>(r, b).
       io_if (int size' \<noteq> r) (io_return None)
         (io_bind (io_result (cput (map byte_char b) size' NUL)) (\<lambda>b1. io_return (Some b1)))))"

definition fs_rename :: "nat \<Rightarrow> string \<Rightarrow> nat \<Rightarrow> string \<Rightarrow> int io" where
  "fs_rename from' original to' new' =
     io_bind (fs_findentry from' original) (\<lambda>entry.
       io_if (fde_inode entry = 0) (io_return ENOENT)
         (io_bind (fs_inode_open (fde_inode entry)) (\<lambda>p.
            io_case p (io_return ENOENT) (\<lambda>inode.
              io_bind (inode_type inode) (\<lambda>t.
              io_bind (io_if (t = INODE_DIR)
                         (io_bind (remove_link inode (''..'' @ [NUL]) from') (\<lambda>r.
                            io_if (r = - 1) (io_return False)
                              (io_bind (add_link inode (''..'' @ [NUL]) to') (\<lambda>r2. io_return (r2 \<noteq> - 1)))))
                         (io_return True)) (\<lambda>linked.
              io_bind (close_inode inode) (\<lambda>_.
                io_if (\<not> linked) (io_return EIO)
                  (io_bind (on_inode to' (\<lambda>n. ext2_dir_add n new' (fde_inode entry))) (\<lambda>r.
                     io_if (r = - 1) (io_return EIO)
                       (io_bind (on_inode from' (\<lambda>n. ext2_dir_remove n original)) (\<lambda>r2.
                          io_return (if r2 = - 1 then EIO else 0))))))))))))"

end
