(* ===== verification/Fs_Calls.thy ===== *)
theory Fs_Calls
  imports Fs
begin

text \<open>
  \<open>src/system/call/io.c\<close>: the system calls on files. Paths are buffers that hold a string with its terminator, a
  working directory is kept without it. Strings from \<open>kalloc\<close> are values, with the number of objects that are left
  in the kernel's memory: a call that forgets to free one shows in the count. Following links and opening a file
  through a link need not end, they are partial functions.
\<close>

section \<open>Strings and pointers\<close>

text \<open>A function that returns a string in new memory.\<close>

definition new_string :: "string result \<Rightarrow> string io" where
  "new_string r k = (case Kernel_State.kalloc_object k of (ok, k1) \<Rightarrow> if ok then io_result r k1 else Some (Inl NullDeref))"

abbreviation free_string :: "unit io" where
  "free_string \<equiv> io_upd kfree_object"

definition close_ptr :: "ptr \<Rightarrow> unit io" where
  "close_ptr p = io_deref p close_inode"

primrec close_all :: "ptr list \<Rightarrow> unit io" where
  "close_all [] = io_return ()"
| "close_all (p # ps) = io_bind (close_ptr p) (\<lambda>_. close_all ps)"

primrec free_strings :: "nat \<Rightarrow> unit io" where
  "free_strings 0 = io_return ()"
| "free_strings (Suc n) = io_bind free_string (\<lambda>_. free_strings n)"

text \<open>The end of a call that gives back inodes and strings.\<close>

definition give_up :: "ptr list \<Rightarrow> nat \<Rightarrow> 'a \<Rightarrow> 'a io" where
  "give_up ps n r = io_bind (close_all ps) (\<lambda>_. io_bind (free_strings n) (\<lambda>_. io_return r))"

definition process :: "Process io" where
  "process = io_bind current (\<lambda>p. io_get (\<lambda>k. procs k p))"

section \<open>Permissions\<close>

definition S_IRUSR :: nat where "S_IRUSR = 256"
definition S_IWUSR :: nat where "S_IWUSR = 128"
definition S_IRGRP :: nat where "S_IRGRP = 32"
definition S_IWGRP :: nat where "S_IWGRP = 16"
definition S_IROTH :: nat where "S_IROTH = 4"
definition S_IWOTH :: nat where "S_IWOTH = 2"

definition access :: "nat \<Rightarrow> nat \<Rightarrow> nat \<Rightarrow> ptr \<Rightarrow> int io" where
  "access oth grp usr p =
     io_bind process (\<lambda>pr.
       io_if (p_uid pr = 0) (io_return 0)
         (io_deref p (\<lambda>inode.
          io_bind (io_get (\<lambda>k. in_data (inodes k inode))) (\<lambda>data.
          io_bind (fs_permission inode) (\<lambda>perms.
            io_return (if perms AND oth = 0 \<and> \<not> (perms AND grp \<noteq> 0 \<and> int (i_gid data) = p_gid pr)
                \<and> \<not> (perms AND usr \<noteq> 0 \<and> int (i_uid data) = p_uid pr) then - 1 else 0))))))"

definition can_read :: "ptr \<Rightarrow> int io" where
  "can_read = access S_IROTH S_IRGRP S_IRUSR"

definition can_write :: "ptr \<Rightarrow> int io" where
  "can_write = access S_IWOTH S_IWGRP S_IWUSR"

section \<open>Paths and links\<close>

text \<open>\<open>resolve_path\<close> of a path, and its loop at an index with the directory reached.\<close>

datatype walk = Path string | Walk string nat ptr

definition entry_at :: "string \<Rightarrow> nat \<Rightarrow> nat \<Rightarrow> (string \<times> nat) result" where
  "entry_at path len index =
     (let n = component_length path len index
      in if n < ENTRY_NAME_MAX_LEN then Inr (take n (drop index path) @ [NUL], Suc (index + n)) else Inl OutOfBounds)"

text \<open>The target of a symbolic link; a size of two gigabytes makes \<open>kalloc\<close> fail. When the link cannot be read, the buffer is lost.\<close>

definition link_target :: "nat \<Rightarrow> string option io" where
  "link_target inode =
     io_bind (fs_get_inode_size inode) (\<lambda>size'.
     io_bind (io_get heap_junk) (\<lambda>junk.
       io_if (size' < 0) (io_fault NullDeref)
         (io_bind (new_string (Inr (map junk [0..<nat size' + 1]))) (\<lambda>buff. fs_symlink_read inode (nat size') buff))))"

partial_function (option) resolve :: "walk \<Rightarrow> io_kernel \<Rightarrow> (ptr \<times> io_kernel) result option" where
  "resolve w k =
     (case w of
        Path path \<Rightarrow>
          io_bind (io_result (strlen (Some path))) (\<lambda>len.
          io_bind (io_result (cget path 0)) (\<lambda>c.
          io_bind (io_if (c = CHR ''/'') fs_root
                     (io_bind process (\<lambda>pr. resolve (Path (p_cwd pr @ [NUL]))))) (\<lambda>curdir.
            io_if (c \<noteq> CHR ''/'' \<and> curdir = None) (io_return None)
              (io_bind (can_read curdir) (\<lambda>permission.
                 io_if (permission \<noteq> 0) (give_up [curdir] 0 None)
                   (resolve (Walk path (if c = CHR ''/'' then 1 else 0) curdir))))))) k
      | Walk path index curdir \<Rightarrow>
          io_bind (io_result (strlen (Some path))) (\<lambda>len.
            io_if (\<not> index < len) (io_return curdir)
              (io_bind (io_result (entry_at path len index)) (\<lambda>(entry, next').
               io_deref curdir (\<lambda>dir.
               io_bind (fs_findentry dir entry) (\<lambda>nextdir.
               io_bind (close_inode dir) (\<lambda>_.
                 io_if (fde_inode nextdir = 0) (io_return None)
                   (io_bind (fs_inode_open (fde_inode nextdir)) (\<lambda>cur.
                    io_bind (can_read cur) (\<lambda>permission.
                      io_if (permission \<noteq> 0) (give_up [cur] 0 None)
                        (io_deref cur (\<lambda>i.
                         io_bind (inode_type i) (\<lambda>t.
                           io_if (t = INODE_LINK)
                             (io_bind (io_bind (link_target i) (\<lambda>b.
                                io_case b (io_return None) (\<lambda>buff.
                                  io_bind (resolve (Path buff)) (\<lambda>ans. give_up [] 1 ans)))) (\<lambda>auxdir.
                              io_bind (close_inode i) (\<lambda>_.
                                io_case auxdir (io_return None) (\<lambda>_. resolve (Walk path next' auxdir)))))
                             (resolve (Walk path next' cur)))))))))))))) k)"

definition resolve_path :: "string \<Rightarrow> ptr io" where
  "resolve_path path = resolve (Path path)"

definition resolve_sym_link :: "nat \<Rightarrow> ptr io" where
  "resolve_sym_link inode =
     io_bind (link_target inode) (\<lambda>b.
       io_case b (io_return None) (\<lambda>buff. io_bind (resolve_path buff) (\<lambda>ans. give_up [] 1 ans)))"

section \<open>Open files\<close>

definition O_CREAT :: int where "O_CREAT = 64"
definition O_APPEND :: int where "O_APPEND = 1024"

text \<open>The entry of the table of open files; the index is not checked.\<close>

definition fd_at :: "int \<Rightarrow> FileDescriptor io" where
  "fd_at fd =
     io_bind process (\<lambda>pr.
       io_if (0 \<le> fd \<and> nat fd < length (p_fdTable pr)) (io_return (p_fdTable pr ! nat fd)) (io_fault OutOfBounds))"

definition put_fd :: "int \<Rightarrow> FileDescriptor \<Rightarrow> unit io" where
  "put_fd fd des = io_bind current (\<lambda>p. io_upd (upd_p p (\<lambda>q. q\<lparr>p_fdTable := (p_fdTable q)[nat fd := des]\<rparr>)))"

definition ops_of :: "FileDescriptor \<Rightarrow> FileDescriptorOps io" where
  "ops_of des = io_get (\<lambda>k. opsTable k ! fd_ops des)"

text \<open>An operation in which the process may give up the processor.\<close>

definition io_run :: "(io_kernel \<Rightarrow> ('a \<times> io_kernel) result option) \<Rightarrow> 'a io" where
  "io_run g k = g k"

definition sys_read :: "(io_kernel \<Rightarrow> io_kernel) \<Rightarrow> int \<Rightarrow> string \<Rightarrow> nat \<Rightarrow> (int \<times> string) io" where
  "sys_read sw fd buf len =
     io_bind (fd_at fd) (\<lambda>des.
     io_bind (ops_of des) (\<lambda>ops.
       io_case (fd_inode des) (io_return (- 1, buf)) (\<lambda>i.
         io_if (ops = NoOps \<or> ops = DirOps \<or> fd_flags des AND 3 = O_WRONLY) (io_return (- 1, buf))
           (case ops of
              FifoOps \<Rightarrow> io_run (\<lambda>k. obind (fifo_read sw des buf len k) (\<lambda>(n, b, k1). Some (Inr ((int n, b), k1))))
            | TtyOps \<Rightarrow> io_run (\<lambda>k. obind (tty_read sw len k) (\<lambda>(b, k1).
                if length b \<le> length buf then Some (Inr ((int (length b), b @ drop (length b) buf), k1)) else Some (Inl OutOfBounds)))
            | _ \<Rightarrow>
                io_bind (io_get (\<lambda>k. inodes k i)) (\<lambda>n.
                io_bind (with_fs (\<lambda>f. Some (rbind (inode_read des n (map char_byte buf) len f) (\<lambda>(r, b, d, f1). Inr ((r, b, d), f1))))) (\<lambda>(r, b, d).
                io_bind (put_fd fd d) (\<lambda>_. io_return (int r, map byte_char b))))))))"

definition sys_write :: "(io_kernel \<Rightarrow> io_kernel) \<Rightarrow> int \<Rightarrow> string \<Rightarrow> nat \<Rightarrow> int io" where
  "sys_write sw fd buf len =
     io_bind (fd_at fd) (\<lambda>des.
     io_bind (ops_of des) (\<lambda>ops.
       io_case (fd_inode des) (io_return (- 1)) (\<lambda>i.
         io_if (ops = NoOps \<or> ops = DirOps \<or> fd_flags des AND 3 = O_RDONLY) (io_return (- 1))
           (case ops of
              FifoOps \<Rightarrow> io_run (\<lambda>k. obind (fifo_write sw des buf len k) (\<lambda>(n, k1). Some (Inr (int n, k1))))
            | TtyOps \<Rightarrow> io_run (\<lambda>k.
                if len \<le> length buf then obind (Some (tty_write (take len buf) k)) (\<lambda>(n, k1). Some (Inr (int n, k1))) else Some (Inl OutOfBounds))
            | _ \<Rightarrow>
                io_bind (on_inode i (\<lambda>n f. Some (rbind (inode_write des n (map char_byte buf) len f) (\<lambda>(r, d, n1, f1). Inr ((r, d), n1, f1))))) (\<lambda>(r, d).
                io_bind (put_fd fd d) (\<lambda>_. io_return (int r)))))))"

definition sys_close :: "int \<Rightarrow> int io" where
  "sys_close fd =
     io_bind (fd_at fd) (\<lambda>des.
       io_case (fd_inode des) (io_return (- 1)) (\<lambda>_.
         io_bind (io_run (\<lambda>k. Some (rbind (fs_fd_close des k) (\<lambda>(res, d, k1). Inr ((res, d), k1))))) (\<lambda>(res, d).
         io_bind (put_fd fd d) (\<lambda>_. io_return res))))"

definition sys_ioctl :: "int \<Rightarrow> int \<Rightarrow> u8 \<times> u8 \<Rightarrow> (int \<times> (u8 \<times> u8)) io" where
  "sys_ioctl fd cmd argp =
     io_bind (fd_at fd) (\<lambda>des.
     io_bind (ops_of des) (\<lambda>ops.
       io_if (fd_inode des = None \<or> ops \<noteq> TtyOps) (io_return (- 1, argp))
         (io_run (\<lambda>k. Some (rbind (ioctlKeyboard cmd argp k) (\<lambda>(r, a, k1). Inr ((r, a), k1)))))))"

text \<open>The loop of \<open>_readdir\<close> over the names that start with a dot.\<close>

partial_function (option) readdir_visible :: "bool \<Rightarrow> nat \<Rightarrow> FileDescriptor \<Rightarrow> io_kernel \<Rightarrow>
    ((fs_DirectoryEntry \<times> FileDescriptor) \<times> io_kernel) result option" where
  "readdir_visible hidden i des k =
     io_bind (with_fs (\<lambda>f. obind (readdir des (inodes k i) f) (\<lambda>(e, d, f1). Some (Inr ((e, d), f1))))) (\<lambda>r.
       io_if (\<not> hidden \<and> fde_inode (fst r) \<noteq> 0 \<and> fde_name (fst r) ! 0 = CHR ''.'') (readdir_visible hidden i (snd r)) (io_return r)) k"

definition sys_readdir :: "int \<Rightarrow> int \<Rightarrow> (int \<times> fs_DirectoryEntry option) io" where
  "sys_readdir fd hidden =
     io_bind (fd_at fd) (\<lambda>des.
     io_bind (ops_of des) (\<lambda>ops.
       io_case (fd_inode des) (io_return (- 1, None)) (\<lambda>i.
         io_if (ops \<noteq> DirOps) (io_return (- 1, None))
           (io_bind (readdir_visible (hidden \<noteq> 0) i des) (\<lambda>(res, d).
            io_bind (put_fd fd d) (\<lambda>_. io_return (if fde_inode res = 0 then (0, None) else (1, Some res))))))))"

section \<open>Creating and opening\<close>

definition sys_creat :: "string \<Rightarrow> int \<Rightarrow> int io" where
  "sys_creat path mode =
     io_bind (new_string (path_directory path)) (\<lambda>base.
     io_bind (new_string (path_file path)) (\<lambda>filename.
     io_bind (resolve_path base) (\<lambda>dp.
       io_case dp (give_up [] 2 (- 1)) (\<lambda>dir.
         io_bind (can_write dp) (\<lambda>w.
           io_if (w \<noteq> 0) (give_up [dp] 2 (- 1))
             (io_bind (fs_mknod dir filename INODE_FILE) (\<lambda>r.
                io_if (r \<noteq> 0) (give_up [dp] 2 (- 1))
                  (io_bind (fs_findentry dir filename) (\<lambda>fileEntry.
                   io_bind (give_up [dp] 2 ()) (\<lambda>_.
                     io_if (fde_inode fileEntry = 0) (io_return (- 1))
                       (io_bind (fs_inode_open (fde_inode fileEntry)) (\<lambda>fp.
                        io_deref fp (\<lambda>file.
                        io_bind (fs_set_permission file mode) (\<lambda>s.
                          give_up [fp] 0 (if s \<noteq> 0 then - 1 else 0)))))))))))))))"

text \<open>The first free entry of the table of open files.\<close>

fun find_fd :: "FileDescriptor list \<Rightarrow> nat option" where
  "find_fd [] = None"
| "find_fd (d # ds) = (if fd_inode d = None then Some 0 else map_option Suc (find_fd ds))"

text \<open>The number of the file of \<open>_open\<close>, which is created when asked for; \<open>0\<close> when there is none.\<close>

definition open_entry :: "nat \<Rightarrow> string \<Rightarrow> string \<Rightarrow> int \<Rightarrow> int \<Rightarrow> nat io" where
  "open_entry dir filename path flags mode =
     io_bind (fs_findentry dir filename) (\<lambda>e.
       io_if (fde_inode e \<noteq> 0) (io_return (fde_inode e))
         (io_if (flags AND O_CREAT = 0) (io_return 0)
            (io_bind (sys_creat path mode) (\<lambda>r.
               io_if (r \<noteq> 0) (io_return 0) (io_bind (fs_findentry dir filename) (\<lambda>e2. io_return (fde_inode e2)))))))"

text \<open>The checks of the permissions for an access mode.\<close>

definition check_mode :: "int \<Rightarrow> ptr \<Rightarrow> bool io" where
  "check_mode flags file =
     io_bind (io_if (flags AND 3 = O_RDONLY \<or> flags AND 3 = O_RDWR) (can_read file) (io_return 0)) (\<lambda>r.
       io_if (r \<noteq> 0) (io_return False)
         (io_bind (io_if (flags AND 3 = O_WRONLY \<or> flags AND 3 = O_RDWR) (can_write file) (io_return 0)) (\<lambda>w. io_return (w = 0))))"

definition install_fd :: "(io_kernel \<Rightarrow> io_kernel) \<Rightarrow> nat \<Rightarrow> nat \<Rightarrow> int \<Rightarrow> unit io" where
  "install_fd sw fd file flags =
     io_bind (io_run (\<lambda>k. Some (fs_fd sw file flags k))) (\<lambda>des.
     io_bind (io_get (\<lambda>k. i_size (in_data (inodes k file)))) (\<lambda>size'.
       put_fd (int fd) (if flags AND O_APPEND \<noteq> 0 then des\<lparr>fd_offset := size'\<rparr> else des)))"

partial_function (option) sys_open :: "(io_kernel \<Rightarrow> io_kernel) \<Rightarrow> string \<Rightarrow> int \<Rightarrow> int \<Rightarrow> io_kernel \<Rightarrow> (int \<times> io_kernel) result option" where
  "sys_open sw path flags mode0 k =
     io_bind process (\<lambda>pr.
       io_case (find_fd (p_fdTable pr)) (io_return (- 1)) (\<lambda>fd.
         io_bind (io_return (if mode0 = 0 then 438 else mode0)) (\<lambda>mode.
         io_bind (new_string (path_directory path)) (\<lambda>base.
         io_bind (new_string (path_file path)) (\<lambda>filename.
         io_bind (resolve_path base) (\<lambda>dp.
           io_case dp (give_up [] 2 (- 1)) (\<lambda>dir.
             io_bind (open_entry dir filename path flags mode) (\<lambda>num.
             io_bind (give_up [dp] 2 ()) (\<lambda>_.
               io_if (num = 0) (io_return (- 1))
                 (io_bind (fs_inode_open num) (\<lambda>fp.
                  io_bind (check_mode flags fp) (\<lambda>ok.
                    io_if (\<not> ok) (give_up [fp] 0 (- 1))
                      (io_deref fp (\<lambda>file.
                       io_bind (inode_type file) (\<lambda>t.
                         io_if (t = INODE_LINK)
                           (io_bind (io_bind (link_target file) (\<lambda>b.
                              io_case b (io_return (- 1)) (\<lambda>buff.
                                io_bind (sys_open sw buff flags mode) (\<lambda>ans. give_up [] 1 ans)))) (\<lambda>ans.
                            give_up [fp] 0 ans))
                           (io_bind (install_fd sw fd file flags) (\<lambda>_. give_up [fp] 0 (int fd)))))))))))))))))) k"

definition open_sym_link :: "(io_kernel \<Rightarrow> io_kernel) \<Rightarrow> nat \<Rightarrow> int \<Rightarrow> int \<Rightarrow> int io" where
  "open_sym_link sw inode flags mode =
     io_bind (link_target inode) (\<lambda>b.
       io_case b (io_return (- 1)) (\<lambda>buff. io_bind (sys_open sw buff flags mode) (\<lambda>ans. give_up [] 1 ans)))"

section \<open>Directories and names\<close>

definition sys_mkdir :: "string \<Rightarrow> int \<Rightarrow> int io" where
  "sys_mkdir path mode =
     io_bind (new_string (path_directory path)) (\<lambda>base.
     io_bind (new_string (path_file path)) (\<lambda>filename.
     io_bind (resolve_path base) (\<lambda>pp.
       io_case pp (give_up [] 2 (- 1)) (\<lambda>parent.
         io_bind (can_write pp) (\<lambda>w.
         io_bind (inode_type parent) (\<lambda>t.
           io_if (w \<noteq> 0 \<or> t \<noteq> INODE_DIR) (give_up [pp] 2 (- 1))
             (io_bind (fs_mkdir parent filename) (\<lambda>res.
              io_bind (give_up [pp] 2 ()) (\<lambda>_.
                io_if (res \<noteq> 0) (io_return res)
                  (io_bind (resolve_path path) (\<lambda>dp.
                     io_case dp (io_return (- 1)) (\<lambda>directory.
                       io_bind (fs_set_permission directory mode) (\<lambda>r. give_up [dp] 0 r)))))))))))))"

text \<open>The check of the file that \<open>_rmdir\<close> and \<open>_unlink\<close> have in common: its entry must exist and it must be writable. On failure
  \<open>base\<close> and \<open>filename\<close> are not freed.\<close>

definition removable :: "nat \<Rightarrow> string \<Rightarrow> bool io" where
  "removable parent filename =
     io_bind (fs_findentry parent filename) (\<lambda>nextdir.
       io_if (fde_inode nextdir = 0) (io_return False)
         (io_bind (fs_inode_open (fde_inode nextdir)) (\<lambda>cp.
          io_bind (can_write cp) (\<lambda>w.
          io_bind (close_ptr cp) (\<lambda>_. io_return (w = 0))))))"

definition sys_rmdir :: "string \<Rightarrow> int io" where
  "sys_rmdir path =
     io_bind (new_string (path_directory path)) (\<lambda>base.
     io_bind (new_string (path_file path)) (\<lambda>filename.
     io_bind (resolve_path base) (\<lambda>pp.
       io_case pp (give_up [] 2 (- 1)) (\<lambda>parent.
         io_bind (can_write pp) (\<lambda>w.
         io_bind (inode_type parent) (\<lambda>t.
           io_if (w \<noteq> 0 \<or> t \<noteq> INODE_DIR) (give_up [pp] 2 (- 1))
             (io_bind (removable parent filename) (\<lambda>ok.
                io_if (\<not> ok) (give_up [pp] 0 (- 1))
                  (io_bind (fs_rmdir parent filename) (\<lambda>res. give_up [pp] 2 res))))))))))"

definition sys_unlink :: "string \<Rightarrow> int io" where
  "sys_unlink path =
     io_bind (new_string (path_directory path)) (\<lambda>base.
     io_bind (new_string (path_file path)) (\<lambda>filename.
     io_bind (resolve_path base) (\<lambda>pp.
       io_case pp (give_up [] 2 (- 1)) (\<lambda>parent.
         io_bind (can_write pp) (\<lambda>w.
           io_if (w \<noteq> 0) (give_up [pp] 2 (- 1))
             (io_bind (removable parent filename) (\<lambda>ok.
                io_if (\<not> ok) (give_up [pp] 0 (- 1))
                  (io_bind (fs_unlink parent filename) (\<lambda>res. give_up [pp] 2 res)))))))))"

definition sys_getcwd :: "string \<Rightarrow> nat \<Rightarrow> (int \<times> string) io" where
  "sys_getcwd path len =
     io_bind process (\<lambda>pr.
     io_bind (io_result (strncpy path (p_cwd pr @ [NUL]) len)) (\<lambda>b.
     io_bind (io_result (if len = 0 then Inl OutOfBounds else cput b (len - 1) NUL)) (\<lambda>b1. io_return (0, b1))))"

definition sys_chdir :: "string \<Rightarrow> int io" where
  "sys_chdir path =
     io_bind current (\<lambda>p.
     io_bind process (\<lambda>pr.
     io_bind (io_get heap_junk) (\<lambda>junk.
     io_bind (new_string (join_paths junk (p_cwd pr @ [NUL]) path)) (\<lambda>nwd.
     io_bind (resolve_path nwd) (\<lambda>dp.
       io_case dp (give_up [] 1 (- 1)) (\<lambda>destination.
         io_bind (inode_type destination) (\<lambda>t.
           io_if (t \<noteq> INODE_DIR) (give_up [dp] 1 (- 1))
             (io_bind (io_upd (upd_p p (\<lambda>q. q\<lparr>p_cwd := cstr nwd\<rparr>))) (\<lambda>_. give_up [dp] 1 0)))))))))"

definition sys_symlink :: "string \<Rightarrow> string \<Rightarrow> int io" where
  "sys_symlink path target =
     io_bind (new_string (path_directory target)) (\<lambda>base.
     io_bind (new_string (path_file target)) (\<lambda>filename.
     io_bind (resolve_path base) (\<lambda>dp.
       io_case dp (give_up [] 2 (- 1)) (\<lambda>dir.
         io_bind (fs_findentry dir filename) (\<lambda>fileEntry.
         io_bind (give_up [dp] 2 ()) (\<lambda>_.
           io_if (fde_inode fileEntry = 0) (io_return (- 1))
             (io_bind process (\<lambda>pr.
              io_bind (io_get heap_junk) (\<lambda>junk.
              io_bind (new_string (join_paths junk (p_cwd pr @ [NUL]) target)) (\<lambda>fulltarget.
              io_bind (new_string (path_directory path)) (\<lambda>base2.
              io_bind (new_string (path_file path)) (\<lambda>filename2.
              io_bind (resolve_path base2) (\<lambda>dp2.
                io_case dp2 (give_up [] 2 (- 1)) (\<lambda>dir2.
                  io_bind (can_write dp2) (\<lambda>w.
                    io_if (w \<noteq> 0) (give_up [dp2] 2 (- 1))
                      (io_bind (fs_symlink dir2 filename2 fulltarget) (\<lambda>ans. give_up [dp2] 2 ans)))))))))))))))))"

definition sys_mkfifo :: "string \<Rightarrow> int io" where
  "sys_mkfifo path =
     io_bind (new_string (path_directory path)) (\<lambda>base.
     io_bind (new_string (path_file path)) (\<lambda>filename.
     io_bind (resolve_path base) (\<lambda>dp.
       io_case dp (give_up [] 2 (- 1)) (\<lambda>dir.
         io_bind (can_write dp) (\<lambda>w.
           io_if (w \<noteq> 0) (give_up [dp] 2 (- 1))
             (io_bind (fs_mknod dir filename INODE_FIFO) (\<lambda>res. give_up [dp] 2 res)))))))"

text \<open>\<open>_chmod\<close> and \<open>_chown\<close> up to the change of the file: the entry is looked up under the whole path \<open>file\<close>. When it is found or
  missing, the two strings are not freed. \<open>missing\<close> is what the call returns without an entry.\<close>

definition on_file :: "string \<Rightarrow> int \<Rightarrow> (nat \<Rightarrow> int io) \<Rightarrow> int io" where
  "on_file file missing change =
     io_bind (new_string (path_directory file)) (\<lambda>base.
     io_bind (new_string (path_file file)) (\<lambda>filename.
     io_bind (resolve_path base) (\<lambda>dp.
       io_case dp (give_up [] 2 (- 1)) (\<lambda>dir.
         io_bind (can_write dp) (\<lambda>w.
           io_if (w \<noteq> 0) (give_up [dp] 2 (- 1))
             (io_bind (fs_findentry dir file) (\<lambda>nextdir.
              io_bind (close_inode dir) (\<lambda>_.
                io_if (fde_inode nextdir = 0) (io_return missing)
                  (io_bind (fs_inode_open (fde_inode nextdir)) (\<lambda>ip.
                   io_bind (can_write ip) (\<lambda>w2.
                     io_if (w2 \<noteq> 0) (give_up [ip] 0 (- 1))
                       (io_deref ip (\<lambda>inode. io_bind (change inode) (\<lambda>ans. give_up [ip] 0 ans))))))))))))))"

definition sys_chmod :: "int \<Rightarrow> string \<Rightarrow> int io" where
  "sys_chmod mode file = on_file file (- 1) (\<lambda>inode. fs_set_permission inode mode)"

definition sys_chown :: "string \<Rightarrow> int io" where
  "sys_chown file = on_file file 0 (\<lambda>inode. io_bind process (\<lambda>pr. fs_set_own inode (p_uid pr) (p_gid pr)))"

record stat =
  st_inode :: nat
  st_mode :: int
  st_uid :: int
  st_gid :: int
  st_size :: nat
  st_type :: int

definition stat_of :: "fs_Inode \<Rightarrow> stat" where
  "stat_of n = \<lparr>st_inode = in_number n, st_mode = int (INODE_PERMISSIONS (in_data n)), st_uid = int (i_uid (in_data n)),
     st_gid = int (i_gid (in_data n)), st_size = i_size (in_data n), st_type = int (INODE_TYPE (in_data n))\<rparr>"

definition sys_stat :: "string \<Rightarrow> (int \<times> stat option) io" where
  "sys_stat entry =
     io_bind (new_string (path_directory entry)) (\<lambda>path.
     io_bind (new_string (path_file entry)) (\<lambda>filename.
     io_bind (resolve_path path) (\<lambda>dp.
       io_case dp (io_return (- 1, None)) (\<lambda>dir.
         io_bind (fs_findentry dir filename) (\<lambda>fileEntry.
         io_bind (give_up [dp] 2 ()) (\<lambda>_.
           io_if (fde_inode fileEntry = 0) (io_return (- 1, None))
             (io_bind (fs_inode_open (fde_inode fileEntry)) (\<lambda>ip.
                io_case ip (io_return (- 1, None)) (\<lambda>inode.
                  io_bind (io_get (\<lambda>k. stat_of (inodes k inode))) (\<lambda>data. give_up [ip] 0 (0, Some data)))))))))))"

section \<open>Renaming\<close>

text \<open>
  \<open>_rename\<close> in its steps. The place of the new name: the directory with its name, or \<open>None\<close> after everything has been
  given back. When \<open>dest\<close> is a directory, the file goes into it under its old name, and the inode of the first
  destination directory is not closed. A file of that name is removed.
\<close>

definition clear_place :: "nat \<Rightarrow> nat \<Rightarrow> bool \<Rightarrow> string \<Rightarrow> string \<Rightarrow> (ptr \<times> string) option io" where
  "clear_place sourcedir destdir isDir filedest fileError =
     io_bind (fs_findentry destdir filedest) (\<lambda>errorEntry.
       io_if (fde_inode errorEntry = 0) (give_up [] 1 (Some (Some destdir, filedest)))
         (io_bind (fs_inode_open (fde_inode errorEntry)) (\<lambda>ep.
            io_case ep (give_up [Some sourcedir, Some destdir] 3 None) (\<lambda>ei.
              io_bind (inode_type ei) (\<lambda>t.
                io_if (\<not> (t \<noteq> INODE_DIR \<and> \<not> isDir)) (give_up [Some sourcedir, Some destdir, ep] 3 None)
                  (io_bind (close_inode ei) (\<lambda>_.
                   io_bind (sys_unlink fileError) (\<lambda>r.
                     io_if (r \<noteq> 0) (give_up [Some sourcedir, Some destdir] 3 None)
                       (give_up [] 1 (Some (Some destdir, filedest)))))))))))"

definition rename_place :: "nat \<Rightarrow> nat \<Rightarrow> bool \<Rightarrow> string \<Rightarrow> string \<Rightarrow> string \<Rightarrow> string \<Rightarrow> (ptr \<times> string) option io" where
  "rename_place sourcedir destdir isDir source dest filesource filedest =
     io_bind (fs_findentry destdir filedest) (\<lambda>destEntry.
       io_if (fde_inode destEntry = 0) (io_return (Some (Some destdir, filedest)))
         (io_bind (fs_inode_open (fde_inode destEntry)) (\<lambda>tp.
          io_deref tp (\<lambda>destInode.
          io_bind (inode_type destInode) (\<lambda>t.
            io_if (t \<noteq> INODE_DIR)
              (io_if isDir (give_up [tp, Some sourcedir, Some destdir] 2 None)
                 (io_bind (close_inode destInode) (\<lambda>_.
                  io_bind (sys_unlink dest) (\<lambda>r.
                    io_if (r \<noteq> 0) (give_up [Some sourcedir, Some destdir] 2 None) (io_return (Some (Some destdir, filedest)))))))
              (io_bind (close_inode destInode) (\<lambda>_.
               io_bind (io_get heap_junk) (\<lambda>junk.
               io_bind (new_string (path_directory dest)) (\<lambda>stringDirDest.
               io_bind (new_string (join_paths junk stringDirDest filedest)) (\<lambda>newDirDest.
               io_bind free_string (\<lambda>_.
               io_bind (resolve_path newDirDest) (\<lambda>dp.
               io_bind (new_string (join_paths junk newDirDest filesource)) (\<lambda>stringFileError.
               io_bind (free_strings 2) (\<lambda>_.
               io_bind (new_string (path_file source)) (\<lambda>filedest2.
               io_deref dp (\<lambda>newdir. clear_place sourcedir newdir isDir filedest2 stringFileError))))))))))))))))"

text \<open>The loop from a directory up to the root: whether it does not meet the directory \<open>src\<close>. The inodes it opens are closed.\<close>

partial_function (option) outside_loop :: "nat \<Rightarrow> nat \<Rightarrow> nat \<Rightarrow> io_kernel \<Rightarrow> (bool \<times> io_kernel) result option" where
  "outside_loop root src sub k =
     io_bind (io_get (\<lambda>k. in_number (inodes k sub))) (\<lambda>n.
     io_bind (io_get (\<lambda>k. in_number (inodes k root))) (\<lambda>r.
       io_if (n = r) (give_up [Some sub] 0 True)
         (io_if (n = src) (give_up [Some sub] 0 False)
            (io_bind (fs_findentry sub (''..'' @ [NUL])) (\<lambda>e.
             io_bind (close_inode sub) (\<lambda>_.
               io_if (fde_inode e = 0) (io_return False)
                 (io_bind (fs_inode_open (fde_inode e)) (\<lambda>sp. io_case sp (io_return False) (\<lambda>sub1. outside_loop root src sub1))))))))) k"

text \<open>Whether the directory \<open>destdir\<close> is not below the directory with number \<open>src\<close>.\<close>

definition outside :: "nat \<Rightarrow> nat \<Rightarrow> bool io" where
  "outside destdir src =
     io_bind (io_get (\<lambda>k. in_number (inodes k destdir))) (\<lambda>n.
       io_if (n = src) (io_return False)
         (io_bind fs_root (\<lambda>rp.
          io_deref rp (\<lambda>root.
          io_bind (io_get (\<lambda>k. in_number (inodes k root))) (\<lambda>r.
            io_if (r = src) (give_up [rp] 0 False)
              (io_bind (fs_findentry destdir (''..'' @ [NUL])) (\<lambda>e.
                 io_if (fde_inode e = 0) (give_up [rp] 0 False)
                   (io_bind (fs_inode_open (fde_inode e)) (\<lambda>sp.
                      io_case sp (give_up [rp] 0 False) (\<lambda>sub.
                        io_bind (outside_loop root src sub) (\<lambda>ok. give_up [rp] 0 ok)))))))))))"

text \<open>The end of the call, once the place of the new name is known.\<close>

definition rename_to :: "nat \<Rightarrow> string \<Rightarrow> bool \<Rightarrow> nat \<Rightarrow> ptr \<Rightarrow> string \<Rightarrow> int io" where
  "rename_to sourcedir filesource isDir src dp filedest =
     io_bind (can_write dp) (\<lambda>w.
       io_if (w \<noteq> 0) (give_up [Some sourcedir, dp] 2 (- 1))
         (io_deref dp (\<lambda>destdir.
          io_bind (io_if isDir (outside destdir src) (io_return True)) (\<lambda>ok.
            io_if (\<not> ok) (give_up [Some sourcedir, dp] 2 (- 1))
              (io_bind (fs_rename sourcedir filesource destdir filedest) (\<lambda>ans. give_up [Some sourcedir, dp] 2 ans))))))"

definition rename_files :: "string \<Rightarrow> string \<Rightarrow> nat \<Rightarrow> nat \<Rightarrow> int io" where
  "rename_files source dest sourcedir destdir =
     io_bind (new_string (path_file source)) (\<lambda>filesource.
     io_bind (fs_findentry sourcedir filesource) (\<lambda>sourceEntry.
       io_if (fde_inode sourceEntry = 0) (give_up [Some sourcedir, Some destdir] 1 (- 1))
         (io_bind (fs_inode_open (fde_inode sourceEntry)) (\<lambda>sp.
            io_case sp (give_up [Some sourcedir, Some destdir] 1 (- 1)) (\<lambda>si.
              io_bind (io_get (\<lambda>k. in_number (inodes k si))) (\<lambda>src.
              io_bind (inode_type si) (\<lambda>t.
              io_bind (can_write sp) (\<lambda>w.
                io_if (w \<noteq> 0) (give_up [Some sourcedir, Some destdir, sp] 1 (- 1))
                  (io_bind (close_inode si) (\<lambda>_.
                   io_bind (new_string (path_file dest)) (\<lambda>filedest.
                   io_bind (io_result (strcmp filesource filedest)) (\<lambda>c.
                   io_bind (io_get (\<lambda>k. in_number (inodes k sourcedir) = in_number (inodes k destdir))) (\<lambda>same.
                     io_if (c = 0 \<and> same) (give_up [Some sourcedir, Some destdir] 2 (- 1))
                       (io_bind (rename_place sourcedir destdir (t = INODE_DIR) source dest filesource filedest) (\<lambda>place.
                          io_case place (io_return (- 1)) (\<lambda>(dp, filedest2).
                            rename_to sourcedir filesource (t = INODE_DIR) src dp filedest2))))))))))))))))"

definition sys_rename :: "string \<Rightarrow> string \<Rightarrow> int io" where
  "sys_rename source dest =
     io_bind (resolve_path source) (\<lambda>sp.
     io_bind (io_get heap_junk) (\<lambda>junk.
     io_bind (new_string (Inr (map junk [0..<1024]))) (\<lambda>buf.
     io_bind (sys_getcwd buf 1024) (\<lambda>(_, cwd).
     io_bind (resolve_path cwd) (\<lambda>cp.
     io_bind free_string (\<lambda>_.
     io_deref sp (\<lambda>si.
     io_deref cp (\<lambda>ci.
     io_bind (io_get (\<lambda>k. in_number (inodes k si) = in_number (inodes k ci))) (\<lambda>same.
     io_bind (give_up [sp, cp] 0 ()) (\<lambda>_.
       io_if same (io_return (- 1))
         (io_bind (new_string (path_directory source)) (\<lambda>pathsource.
          io_bind (resolve_path pathsource) (\<lambda>sd.
          io_bind free_string (\<lambda>_.
            io_case sd (io_return (- 1)) (\<lambda>sourcedir.
              io_bind (new_string (path_directory dest)) (\<lambda>pathdest.
              io_bind (resolve_path pathdest) (\<lambda>dd.
              io_bind free_string (\<lambda>_.
                io_case dd (give_up [sd] 0 (- 1)) (\<lambda>destdir. rename_files source dest sourcedir destdir)))))))))))))))))))"

end
