(* ===== verification/Fs_Frames.thy ===== *)
theory Fs_Frames
  imports Fs_Calls
begin

text \<open>
  What operations of the kernel leave alone. \<open>frames R m\<close> says that \<open>m\<close> only makes changes that the relation \<open>R\<close> allows. The
  contract of such a relation is a locale: it is reflexive and transitive, and then the operations that keep to it are
  closed under composition. It is interpreted by the relations of the theories that follow.
\<close>

definition frames :: "(io_kernel \<Rightarrow> io_kernel \<Rightarrow> bool) \<Rightarrow> 'a io \<Rightarrow> bool" where
  "frames R m \<longleftrightarrow> (\<forall>k x k'. m k = Some (Inr (x, k')) \<longrightarrow> R k k')"

lemma io_bind_Inr: "io_bind m f k = Some (Inr (x, k2)) \<longleftrightarrow> (\<exists>y k1. m k = Some (Inr (y, k1)) \<and> f y k1 = Some (Inr (x, k2)))"
  by (auto simp: io_bind_def obind_def split: option.splits sum.splits)

lemma framesD: "frames R m \<Longrightarrow> m k = Some (Inr (x, k')) \<Longrightarrow> R k k'"
  unfolding frames_def by blast

locale state_frame =
  fixes R :: "io_kernel \<Rightarrow> io_kernel \<Rightarrow> bool"
  assumes refl: "R k k"
    and trans: "R k k1 \<Longrightarrow> R k1 k2 \<Longrightarrow> R k k2"
begin

lemma bind: "frames R m \<Longrightarrow> (\<And>x. frames R (f x)) \<Longrightarrow> frames R (io_bind m f)"
  unfolding frames_def io_bind_Inr by (blast intro: trans)

lemma basic: "frames R (io_return x)" "frames R (io_get g)" "frames R (io_result r)" "frames R (io_fault e)" "frames R current"
  by (auto simp: frames_def io_return_def io_get_def io_result_def io_fault_def current_def refl split: option.splits sum.splits)

lemma branch:
  "(b \<Longrightarrow> frames R m) \<Longrightarrow> (\<not> b \<Longrightarrow> frames R n) \<Longrightarrow> frames R (io_if b m n)"
  "frames R m \<Longrightarrow> (\<And>i. frames R (g i)) \<Longrightarrow> frames R (io_case p m g)"
  "(\<And>i. frames R (g i)) \<Longrightarrow> frames R (io_deref p g)"
  "(\<And>x y. frames R (h x y)) \<Longrightarrow> frames R (case z of (x, y) \<Rightarrow> h x y)"
  by (auto simp: frames_def io_if_def io_case_def io_deref_def split: option.splits prod.splits)

lemma process: "frames R process"
  unfolding process_def by (intro bind basic)

lemma reads: "frames R (fs_permission i)" "frames R (inode_type i)" "frames R (fs_get_inode_size i)" "frames R (access a b c p)"
  "frames R (can_read p)" "frames R (can_write p)"
  unfolding can_read_def can_write_def access_def fs_permission_def inode_type_def fs_get_inode_size_def
  by (intro bind basic branch process)+

end

end
