(* ===== verification/Fs_Refs.thy ===== *)
theory Fs_Refs
  imports Fs_Frames "HOL-Library.Multiset"
begin

text \<open>
  Reference counts of open inodes. \<open>refs k i\<close> is the number of references to the inode \<open>i\<close> of the table. An operation \<open>m\<close>
  that \<open>spends H m G\<close> uses up the references \<open>H\<close> of its caller and, when it returns \<open>x\<close>, hands back the references \<open>G x\<close>;
  all other counts are as before. The rules below derive this from the text of an operation.
\<close>

section \<open>Counting references\<close>

definition entries :: "io_kernel \<Rightarrow> nat set" where
  "entries k = {i. Some i \<in> set (inodeTable k)}"

definition table_ok :: "io_kernel \<Rightarrow> bool" where
  "table_ok k \<longleftrightarrow> (\<forall>i\<in>entries k. i < inode_brk k) \<and> inj_on (\<lambda>i. in_number (inodes k i)) (entries k)
     \<and> distinct (filter (\<lambda>p. p \<noteq> None) (inodeTable k))"

text \<open>The counter of an entry is positive; the value zero stands for its overflow.\<close>

definition ref_value :: "u32 \<Rightarrow> nat" where
  "ref_value w = (if w = 0 then 2 ^ 32 else unat w)"

definition refs :: "io_kernel \<Rightarrow> nat \<Rightarrow> nat" where
  "refs k i = (if i \<in> entries k then ref_value (in_refCount (inodes k i)) else 0)"

lemma ref_value_pos: "0 < ref_value w"
  by (simp add: ref_value_def unat_gt_0)

lemma refs_pos: "0 < refs k i \<longleftrightarrow> i \<in> entries k"
  by (simp add: refs_def ref_value_pos)

lemma ref_value_1 [simp]: "ref_value 1 = 1"
  by (simp add: ref_value_def)

lemma ref_value_Suc:
  assumes "w \<noteq> 0"
  shows "ref_value (w + 1) = Suc (ref_value w)"
proof (cases "w + 1 = 0")
  case True
  then have "w = - 1" by (simp add: eq_neg_iff_add_eq_0)
  then show ?thesis by (simp add: ref_value_def unsigned_minus_1_eq_mask mask_eq_exp_minus_1)
next
  case False
  then show ?thesis using unatSuc [of w] assms by (simp add: ref_value_def add.commute)
qed

lemma ref_value_pred: "w \<noteq> 1 \<Longrightarrow> Suc (ref_value (w - 1)) = ref_value w"
  using ref_value_Suc [of "w - 1"] by simp

definition step_ok :: "io_kernel \<Rightarrow> io_kernel \<Rightarrow> bool" where
  "step_ok k k' \<longleftrightarrow> table_ok k' \<and> inode_brk k \<le> inode_brk k' \<and> (\<forall>i < inode_brk k. in_number (inodes k' i) = in_number (inodes k i))"

lemma step_ok_trans: "step_ok k k1 \<Longrightarrow> step_ok k1 k2 \<Longrightarrow> step_ok k k2"
  by (auto simp: step_ok_def)

definition spends :: "nat multiset \<Rightarrow> 'a io \<Rightarrow> ('a \<Rightarrow> nat multiset) \<Rightarrow> bool" where
  "spends H m G \<longleftrightarrow> (\<forall>k x k'. table_ok k \<longrightarrow> (\<forall>i. count H i \<le> refs k i) \<longrightarrow> m k = Some (Inr (x, k')) \<longrightarrow>
     step_ok k k' \<and> (\<forall>i. refs k' i + count H i = refs k i + count (G x) i))"

text \<open>Operations that leave the table and its counters alone.\<close>

definition calm_step :: "io_kernel \<Rightarrow> io_kernel \<Rightarrow> bool" where
  "calm_step k k' \<longleftrightarrow> inodeTable k' = inodeTable k \<and> inode_brk k \<le> inode_brk k'
     \<and> (\<forall>i < inode_brk k. in_number (inodes k' i) = in_number (inodes k i) \<and> in_refCount (inodes k' i) = in_refCount (inodes k i))"

abbreviation calm :: "'a io \<Rightarrow> bool" where
  "calm \<equiv> frames calm_step"

interpretation calm: state_frame calm_step
  by unfold_locales (auto simp: calm_step_def)

named_theorems calm_intros
named_theorems spends_intros

lemma spendsD:
  assumes "spends H m G" "table_ok k" "\<And>i. count H i \<le> refs k i" "m k = Some (Inr (x, k'))"
  shows "step_ok k k'" "refs k' i + count H i = refs k i + count (G x) i"
  using assms unfolding spends_def by blast+

lemma calm_spends:
  assumes "calm m"
  shows "spends H m (\<lambda>_. H)"
  unfolding spends_def
proof (intro allI impI)
  fix k x k'
  assume ok: "table_ok k" and run: "m k = Some (Inr (x, k'))"
  have t: "inodeTable k' = inodeTable k" "inode_brk k \<le> inode_brk k'"
    "\<And>i. i < inode_brk k \<Longrightarrow> in_number (inodes k' i) = in_number (inodes k i) \<and> in_refCount (inodes k' i) = in_refCount (inodes k i)"
    using framesD [OF assms run] by (auto simp: calm_step_def)
  have e: "entries k' = entries k" using t(1) by (simp add: entries_def)
  have lt: "\<And>i. i \<in> entries k \<Longrightarrow> i < inode_brk k" using ok by (simp add: table_ok_def)
  have "inj_on (\<lambda>i. in_number (inodes k' i)) (entries k)"
    using ok t(3) lt unfolding table_ok_def inj_on_def by (metis (no_types, lifting))
  moreover have "\<forall>i\<in>entries k. i < inode_brk k'" using lt t(2) by (meson less_le_trans)
  ultimately have "table_ok k'" using ok e t(1) by (simp add: table_ok_def)
  moreover have "refs k' i = refs k i" for i using e t(3) lt by (simp add: refs_def)
  ultimately show "step_ok k k' \<and> (\<forall>i. refs k' i + count H i = refs k i + count H i)" using t by (simp add: step_ok_def)
qed

section \<open>Rules\<close>

lemmas calm_rules [calm_intros] = calm.bind calm.basic calm.branch calm.process calm.reads

lemma calm_basic [calm_intros]:
  "calm (with_fs h)" "calm (new_string t)" "calm (io_upd kfree_object)" "calm (io_upd (free_inode i))"
  by (auto simp: frames_def calm_step_def with_fs_def unmount_def new_string_def io_upd_def free_inode_def io_result_def
      kfree_object_def Kernel_State.kalloc_object_def obind_def split: option.splits sum.splits prod.splits if_splits)

lemma spends_return [spends_intros]: "H = G x \<Longrightarrow> spends H (io_return x) G"
  using calm_spends [OF calm.basic(1), of H x] by (auto simp: spends_def io_return_def)

lemma spends_fault [spends_intros]: "spends H (io_fault e) G"
  by (simp add: spends_def io_fault_def)

lemma spends_bind:
  assumes "spends H m G" "\<And>x. spends (G x) (f x) F"
  shows "spends H (io_bind m f) F"
  unfolding spends_def io_bind_Inr
proof (intro allI impI, elim exE conjE)
  fix k x k' y k1
  assume k: "table_ok k" "\<forall>i. count H i \<le> refs k i" and m: "m k = Some (Inr (y, k1))" and f: "f y k1 = Some (Inr (x, k'))"
  note 1 = spendsD [OF assms(1) k(1) k(2) [rule_format] m]
  have le: "count (G y) i \<le> refs k1 i" for i using 1(2) [of i] k(2) [rule_format, of i] by linarith
  note 2 = spendsD [OF assms(2) _ le f]
  have "table_ok k1" using 1(1) by (simp add: step_ok_def)
  then have s: "step_ok k k'" "\<And>i. refs k' i + count (G y) i = refs k1 i + count (F x) i" using 2 step_ok_trans [OF 1(1)] by blast+
  moreover have "refs k' i + count H i = refs k i + count (F x) i" for i using s(2) [of i] 1(2) [of i] by linarith
  ultimately show "step_ok k k' \<and> (\<forall>i. refs k' i + count H i = refs k i + count (F x) i)" by blast
qed

lemma spends_frame:
  assumes "spends H m G"
  shows "spends (H + F) m (\<lambda>x. G x + F)"
  unfolding spends_def
proof (intro allI impI)
  fix k x k'
  assume k: "table_ok k" "\<forall>i. count (H + F) i \<le> refs k i" and m: "m k = Some (Inr (x, k'))"
  have le: "count H i \<le> refs k i" for i using k(2) [rule_format, of i] by simp
  note spendsD [OF assms k(1) le m]
  then show "step_ok k k' \<and> (\<forall>i. refs k' i + count (H + F) i = refs k i + count (G x + F) i)" by simp
qed

lemma spends_branch [spends_intros]:
  "(b \<Longrightarrow> spends H m G) \<Longrightarrow> (\<not> b \<Longrightarrow> spends H n G) \<Longrightarrow> spends H (io_if b m n) G"
  "(p = None \<Longrightarrow> spends H m G) \<Longrightarrow> (\<And>i. p = Some i \<Longrightarrow> spends H (g i) G) \<Longrightarrow> spends H (io_case p m g) G"
  "(\<And>i. p = Some i \<Longrightarrow> spends H (g i) G) \<Longrightarrow> spends H (io_deref p g) G"
  "(\<And>x y. z = (x, y) \<Longrightarrow> spends H (h x y) G) \<Longrightarrow> spends H (case z of (x, y) \<Rightarrow> h x y) G"
  by (auto simp: spends_def io_if_def io_case_def io_deref_def split: option.splits prod.splits)

text \<open>The references that a pointer holds.\<close>

definition held_ref :: "ptr \<Rightarrow> nat multiset" where
  "held_ref p = (case p of None \<Rightarrow> {#} | Some i \<Rightarrow> {#i#})"

lemma held_simps [simp]: "held_ref None = {#}" "held_ref (Some i) = {#i#}"
  by (simp_all add: held_ref_def)

section \<open>Opening and closing\<close>

lemma find_inode_Some: "find_inode n st ps = Some i \<Longrightarrow> Some i \<in> set ps \<and> in_number (st i) = n"
  by (induction ps) (auto split: option.splits if_splits)

lemma find_inode_None: "find_inode n st ps = None \<Longrightarrow> Some i \<in> set ps \<Longrightarrow> in_number (st i) \<noteq> n"
  by (induction ps) (auto split: option.splits if_splits)

lemma find_ptr_table: "find_ptr p ps = Some j \<Longrightarrow> j < length ps \<and> ps ! j = p"
  by (induction ps arbitrary: j) (auto split: if_splits)

lemma find_ptr_ex: "p \<in> set ps \<Longrightarrow> \<exists>j. find_ptr p ps = Some j"
  by (induction ps) auto

text \<open>A new entry in a free place, and an entry that is taken out.\<close>

lemma table_enter:
  assumes "j < length ps" "ps ! j = None" "Some a \<notin> set ps" "distinct (filter (\<lambda>p. p \<noteq> None) ps)"
  shows "{i. Some i \<in> set (ps[j := Some a])} = insert a {i. Some i \<in> set ps}" "distinct (filter (\<lambda>p. p \<noteq> None) (ps[j := Some a]))"
proof -
  have ps: "ps = take j ps @ None # drop (Suc j) ps" using id_take_nth_drop [OF assms(1)] assms(2) by simp
  have up: "ps[j := Some a] = take j ps @ Some a # drop (Suc j) ps" using upd_conv_take_nth_drop [OF assms(1)] .
  have set: "set ps = set (take j ps) \<union> {None} \<union> set (drop (Suc j) ps)" by (subst ps) auto
  show "{i. Some i \<in> set (ps[j := Some a])} = insert a {i. Some i \<in> set ps}" unfolding up set by auto
  have "distinct (filter (\<lambda>p. p \<noteq> None) (take j ps @ None # drop (Suc j) ps))" using assms(4) ps by simp
  then show "distinct (filter (\<lambda>p. p \<noteq> None) (ps[j := Some a]))" unfolding up using assms(3) set by auto
qed

lemma table_leave:
  assumes "j < length ps" "ps ! j = Some a" "distinct (filter (\<lambda>p. p \<noteq> None) ps)"
  shows "{i. Some i \<in> set (ps[j := None])} = {i. Some i \<in> set ps} - {a}" "distinct (filter (\<lambda>p. p \<noteq> None) (ps[j := None]))"
proof -
  have ps: "ps = take j ps @ Some a # drop (Suc j) ps" using id_take_nth_drop [OF assms(1)] assms(2) by simp
  have up: "ps[j := None] = take j ps @ None # drop (Suc j) ps" using upd_conv_take_nth_drop [OF assms(1)] .
  have set: "set ps = set (take j ps) \<union> {Some a} \<union> set (drop (Suc j) ps)" by (subst ps) auto
  have "distinct (filter (\<lambda>p. p \<noteq> None) (take j ps @ Some a # drop (Suc j) ps))" using assms(3) ps by simp
  then have "Some a \<notin> set (take j ps)" "Some a \<notin> set (drop (Suc j) ps)" and d: "distinct (filter (\<lambda>p. p \<noteq> None) (take j ps @ None # drop (Suc j) ps))" by auto
  then show "{i. Some i \<in> set (ps[j := None])} = {i. Some i \<in> set ps} - {a}" unfolding up set by auto
  show "distinct (filter (\<lambda>p. p \<noteq> None) (ps[j := None]))" unfolding up using d .
qed

lemma add_reference_ok:
  assumes "table_ok k" "i \<in> entries k" "in_refCount (inodes k i) \<noteq> 0"
  shows "step_ok k (add_reference i k)" "refs (add_reference i k) j = refs k j + count {#i#} j"
proof -
  let ?k = "add_reference i k"
  have e: "entries ?k = entries k" and n: "in_number (inodes ?k j) = in_number (inodes k j)" and b: "inode_brk ?k = inode_brk k"
    and t: "inodeTable ?k = inodeTable k" for j
    by (simp_all add: add_reference_def upd_inode_def entries_def)
  show "step_ok k ?k" using assms(1) unfolding step_ok_def table_ok_def e n b t by simp
  have c: "in_refCount (inodes ?k j) = (if j = i then in_refCount (inodes k j) + 1 else in_refCount (inodes k j))" for j
    by (simp add: add_reference_def upd_inode_def)
  show "refs ?k j = refs k j + count {#i#} j"
    using ref_value_Suc [OF assms(3)] assms(2) by (cases "j = i") (simp_all add: refs_def e c)
qed

lemma enter_inode_ok:
  assumes k: "table_ok k" and node: "in_refCount node = 1" "find_inode (in_number node) (inodes k) (inodeTable k) = None"
    and run: "io_bind (new_inode node) enter_inode k = Some (Inr (r, k'))"
  shows "step_ok k k'" "refs k' j = refs k j + count (held_ref r) j"
proof -
  let ?a = "inode_brk k"
  let ?k = "k\<lparr>inodes := (inodes k)(?a := node), inode_brk := Suc ?a\<rparr>"
  have run2: "enter_inode ?a ?k = Some (Inr (r, k'))" using run by (simp add: io_bind_def obind_def new_inode_def)
  have lt: "\<And>i. i \<in> entries k \<Longrightarrow> i < inode_brk k" and d: "distinct (filter (\<lambda>p. p \<noteq> None) (inodeTable k))"
    and inj: "inj_on (\<lambda>i. in_number (inodes k i)) (entries k)" using k by (simp_all add: table_ok_def)
  have na: "?a \<notin> entries k" using lt by blast
  have num: "in_number (inodes k i) \<noteq> in_number node" if "i \<in> entries k" for i
    using find_inode_None [OF node(2)] that by (simp add: entries_def)
  show "step_ok k k'" "refs k' j = refs k j + count (held_ref r) j"
  proof -
    show "step_ok k k'"
    proof (cases "find_ptr None (inodeTable k)")
      case None
      then have "k' = free_inode ?a ?k" using run2 by (simp add: enter_inode_def)
      then show ?thesis using inj lt d na by (auto simp: step_ok_def table_ok_def free_inode_def kfree_object_def entries_def inj_on_def less_SucI)
    next
      case (Some p)
      then have k': "k' = ?k\<lparr>inodeTable := (inodeTable k)[p := Some ?a]\<rparr>" "r = Some ?a" using run2 by (auto simp: enter_inode_def)
      note t = table_enter [OF _ _ _ d, of p ?a] find_ptr_table [OF Some]
      have e: "entries k' = insert ?a (entries k)" using t na k' by (simp add: entries_def)
      have "inj_on (\<lambda>i. in_number (inodes k' i)) (entries k)" using inj na k'(1) by (auto simp: inj_on_def)
      moreover have "in_number (inodes k' ?a) \<notin> (\<lambda>i. in_number (inodes k' i)) ` (entries k - {?a})"
      proof
        assume "in_number (inodes k' ?a) \<in> (\<lambda>i. in_number (inodes k' i)) ` (entries k - {?a})"
        then obtain i where "i \<in> entries k" "i \<noteq> ?a" "in_number (inodes k' ?a) = in_number (inodes k' i)" by blast
        then show False using num [of i] k'(1) by simp
      qed
      ultimately have "inj_on (\<lambda>i. in_number (inodes k' i)) (entries k')" unfolding e by (simp add: inj_on_insert)
      moreover have "distinct (filter (\<lambda>p. p \<noteq> None) (inodeTable k'))" using t na k' by (simp add: entries_def)
      moreover have "\<forall>i\<in>entries k'. i < inode_brk k'" using e lt k' by (auto intro: less_SucI)
      ultimately show ?thesis using k' by (auto simp: step_ok_def table_ok_def)
    qed
    show "refs k' j = refs k j + count (held_ref r) j"
    proof (cases "find_ptr None (inodeTable k)")
      case None
      then have k': "k' = free_inode ?a ?k" "r = None" using run2 by (auto simp: enter_inode_def)
      then have "entries k' = entries k" by (simp add: free_inode_def kfree_object_def entries_def)
      then show ?thesis using k' na by (auto simp: refs_def free_inode_def kfree_object_def)
    next
      case (Some p)
      then have k': "k' = ?k\<lparr>inodeTable := (inodeTable k)[p := Some ?a]\<rparr>" "r = Some ?a" using run2 by (auto simp: enter_inode_def)
      have e: "entries k' = insert ?a (entries k)"
        using table_enter [OF _ _ _ d, of p ?a] find_ptr_table [OF Some] na k' by (simp add: entries_def)
      show ?thesis using e k' na node(1) by (auto simp: refs_def)
    qed
  qed
qed

lemma ext2_write_inode_same: "ext2_write_inode n f = Inr (r, n', f') \<Longrightarrow> in_number n' = in_number n \<and> in_refCount n' = in_refCount n"
  by (auto simp: ext2_write_inode_def upd_data_def Let_def elim!: rbind_InrE)

lemma ext2_read_inode_number: "ext2_read_inode num f = Inr (Some n, f') \<Longrightarrow> in_number n = num"
  by (auto simp: ext2_read_inode_def Let_def split: if_splits option.splits elim!: rbind_InrE dest!: ext2_write_inode_same)

lemma fs_inode_open_refs:
  assumes k: "table_ok k" and run: "fs_inode_open num k = Some (Inr (r, k'))"
  shows "\<not> broken k" "step_ok k k'" "refs k' j = refs k j + count (held_ref r) j"
proof -
  show b: "\<not> broken k" using run by (auto simp: fs_inode_open_def)
  have "step_ok k k' \<and> refs k' j = refs k j + count (held_ref r) j"
  proof (cases "find_inode num (inodes k) (inodeTable k)")
    case (Some i)
    then have "i \<in> entries k" "in_refCount (inodes k i) \<noteq> 0" using find_inode_Some [OF Some] b by (auto simp: entries_def broken_def)
    moreover have "k' = add_reference i k" "r = Some i" using run b Some by (simp_all add: fs_inode_open_def)
    ultimately show ?thesis using add_reference_ok [OF k] by simp
  next
    case None
    obtain node k1 where 1: "with_fs (\<lambda>f. Some (ext2_read_inode num f)) k = Some (Inr (Some node, k1))"
      and 2: "io_bind (new_inode (node\<lparr>in_extra := None, in_refCount := 1\<rparr>)) enter_inode k1 = Some (Inr (r, k'))"
      using run b None by (auto simp: fs_inode_open_def io_bind_Inr [of "with_fs _"] io_deref_def split: option.splits)
    have num: "in_number node = num" using 1 ext2_read_inode_number [of num "mount k" node]
      by (auto simp: with_fs_def obind_def split: sum.splits)
    have k1: "inodes k1 = inodes k" "inodeTable k1 = inodeTable k" "inode_brk k1 = inode_brk k"
      using 1 by (auto simp: with_fs_def obind_def unmount_def split: sum.splits)
    have s: "table_ok k1" "refs k1 = refs k" "step_ok k k1"
      using k k1 by (auto simp: table_ok_def refs_def entries_def step_ok_def fun_eq_iff)
    show ?thesis using enter_inode_ok [OF s(1) _ _ 2] num None k1 s by (auto intro: step_ok_trans)
  qed
  then show "step_ok k k'" "refs k' j = refs k j + count (held_ref r) j" by simp_all
qed

lemma close_inode_refs:
  assumes k: "table_ok k" and i: "0 < refs k i"
  shows "step_ok k (fs_inode_close i k)" "refs (fs_inode_close i k) j + count {#i#} j = refs k j"
proof -
  let ?k1 = "upd_inode i (\<lambda>n. n\<lparr>in_refCount := in_refCount n - 1\<rparr>) k"
  have in_k: "i \<in> entries k" using i by (simp add: refs_pos)
  have lt: "\<And>i. i \<in> entries k \<Longrightarrow> i < inode_brk k" and d: "distinct (filter (\<lambda>p. p \<noteq> None) (inodeTable k))"
    and inj: "inj_on (\<lambda>i. in_number (inodes k i)) (entries k)" using k by (simp_all add: table_ok_def)
  have "step_ok k (fs_inode_close i k) \<and> refs (fs_inode_close i k) j + count {#i#} j = refs k j"
  proof (cases "in_refCount (inodes k i) = 1")
    case True
    obtain p where p: "find_ptr (Some i) (inodeTable k) = Some p" using find_ptr_ex in_k by (fastforce simp: entries_def)
    have k': "fs_inode_close i k = (free_inode i ?k1)\<lparr>inodeTable := (inodeTable k)[p := None]\<rparr>"
      using True p by (simp add: fs_inode_close_def upd_inode_def Let_def)
    have f: "inodes (fs_inode_close i k) = inodes ?k1" "inode_brk (fs_inode_close i k) = inode_brk k"
      "inodeTable (fs_inode_close i k) = (inodeTable k)[p := None]"
      unfolding k' by (simp_all add: free_inode_def kfree_object_def upd_inode_def)
    note t = table_leave [OF _ _ d, of p i] find_ptr_table [OF p]
    have e: "entries (fs_inode_close i k) = entries k - {i}" using t by (simp add: entries_def f)
    have n: "in_number (inodes ?k1 j) = in_number (inodes k j)" for j by (simp add: upd_inode_def)
    have "inj_on (\<lambda>i. in_number (inodes k i)) (entries k - {i})" using inj by (rule inj_on_subset) blast
    then have "step_ok k (fs_inode_close i k)" unfolding step_ok_def table_ok_def e f n using t lt by simp
    moreover have "refs (fs_inode_close i k) j + count {#i#} j = refs k j"
      unfolding refs_def e f using in_k True by (cases "j = i") (simp_all add: upd_inode_def)
    ultimately show ?thesis by simp
  next
    case False
    then have k': "fs_inode_close i k = ?k1" by (simp add: fs_inode_close_def upd_inode_def Let_def)
    have e: "entries ?k1 = entries k" by (simp add: entries_def upd_inode_def)
    have n: "in_number (inodes ?k1 j) = in_number (inodes k j)" for j by (simp add: upd_inode_def)
    have f: "inode_brk ?k1 = inode_brk k" "inodeTable ?k1 = inodeTable k" by (simp_all add: upd_inode_def)
    have "step_ok k ?k1" unfolding step_ok_def table_ok_def e n f using lt inj d by simp
    moreover have "refs ?k1 j + count {#i#} j = refs k j"
      unfolding refs_def e using in_k ref_value_pred [OF False] by (cases "j = i") (simp_all add: upd_inode_def)
    ultimately show ?thesis unfolding k' by simp
  qed
  then show "step_ok k (fs_inode_close i k)" "refs (fs_inode_close i k) j + count {#i#} j = refs k j" by simp_all
qed

section \<open>Rules for the table\<close>

lemma spends_open: "spends {#} (fs_inode_open num) held_ref"
  unfolding spends_def using fs_inode_open_refs by simp

lemma spends_root: "spends {#} fs_root held_ref"
  unfolding fs_root_def by (rule spends_open)

lemma spends_close: "spends {#i#} (close_inode i) (\<lambda>_. {#})"
  unfolding spends_def
proof (intro allI impI)
  fix k and x :: unit and k'
  assume k: "table_ok k" "\<forall>j. count {#i#} j \<le> refs k j" and run: "close_inode i k = Some (Inr (x, k'))"
  have "0 < refs k i" using k(2) [rule_format, of i] by simp
  moreover have "k' = fs_inode_close i k" using run by (simp add: io_upd_def)
  ultimately show "step_ok k k' \<and> (\<forall>j. refs k' j + count {#i#} j = refs k j + count {#} j)"
    using close_inode_refs [OF k(1), of i] by simp
qed

lemma spends_bind_calm: "calm m \<Longrightarrow> (\<And>x. spends H (f x) F) \<Longrightarrow> spends H (io_bind m f) F"
  by (rule spends_bind [OF calm_spends])

lemma spends_bind_sub: "spends {#} m G \<Longrightarrow> (\<And>x. spends (G x + H) (f x) F) \<Longrightarrow> spends H (io_bind m f) F"
proof -
  assume m: "spends {#} m G" and f: "\<And>x. spends (G x + H) (f x) F"
  have "spends H m (\<lambda>x. G x + H)" using spends_frame [OF m, of H] by simp
  then show ?thesis using f by (rule spends_bind)
qed

lemmas spends_bind_open = spends_bind_sub [OF spends_open]
lemmas spends_bind_root = spends_bind_sub [OF spends_root]

lemma spends_bind_use:
  assumes "spends U m (\<lambda>_. {#})" "U \<subseteq># H" "\<And>x. spends (H - U) (f x) F"
  shows "spends H (io_bind m f) F"
  using spends_bind [OF spends_frame [OF assms(1), of "H - U"], of f F] assms(2,3) by simp

lemmas spends_bind_close = spends_bind_use [OF spends_close]

definition all_held :: "ptr list \<Rightarrow> nat multiset" where
  "all_held ps = sum_list (map held_ref ps)"

lemma all_held_simps [simp]: "all_held [] = {#}" "all_held (p # ps) = held_ref p + all_held ps"
  by (simp_all add: all_held_def)

lemma spends_close_ptr: "spends (held_ref p) (close_ptr p) (\<lambda>_. {#})"
  unfolding close_ptr_def using spends_close by (intro spends_branch(3)) simp

lemma calm_free_strings [calm_intros]: "calm (free_strings n)"
  by (induction n) (auto intro!: calm_intros)

lemma spends_close_all: "spends (all_held ps) (close_all ps) (\<lambda>_. {#})"
proof (induction ps)
  case Nil
  then show ?case by (auto intro!: spends_return)
next
  case (Cons p ps)
  have "held_ref p \<subseteq># all_held (p # ps)" "all_held (p # ps) - held_ref p = all_held ps" by simp_all
  then show ?case using spends_bind_use [OF spends_close_ptr, of p "all_held (p # ps)" "\<lambda>_. close_all ps"] Cons.IH by (simp del: all_held_simps)
qed

lemma spends_give_up_all: "spends (all_held ps) (give_up ps n r) (\<lambda>_. {#})"
  unfolding give_up_def by (rule spends_bind [OF spends_close_all]) (auto intro!: spends_bind_calm calm_intros spends_return)

lemma give_up_result: "give_up ps n r k = Some (Inr (x, k')) \<Longrightarrow> x = r"
  by (auto simp: give_up_def io_bind_Inr io_return_def)

lemma spends_weaken:
  assumes "spends H m G" "\<And>k x k'. m k = Some (Inr (x, k')) \<Longrightarrow> G x = F x"
  shows "spends H m F"
  unfolding spends_def
proof (intro allI impI)
  fix k x k'
  assume k: "table_ok k" "\<forall>i. count H i \<le> refs k i" and run: "m k = Some (Inr (x, k'))"
  show "step_ok k k' \<and> (\<forall>i. refs k' i + count H i = refs k i + count (F x) i)"
    using spendsD [OF assms(1) k(1) k(2) [rule_format] run] assms(2) [OF run] by simp
qed

lemma spends_give_up:
  assumes "H = all_held ps + G r"
  shows "spends H (give_up ps n r) G"
proof -
  have "spends H (give_up ps n r) (\<lambda>_. G r)" using spends_frame [OF spends_give_up_all [of ps n r], of "G r"] assms by simp
  then show ?thesis by (rule spends_weaken) (drule give_up_result, simp)
qed

lemma spends_bind_give_up:
  assumes "all_held ps \<subseteq># H" "spends (H - all_held ps) (f r) F"
  shows "spends H (io_bind (give_up ps n r) f) F"
proof -
  have "spends H (give_up ps n r) (\<lambda>_. H - all_held ps)" using assms(1) by (intro spends_give_up) simp
  moreover have "io_bind (give_up ps n r) f = io_bind (give_up ps n r) (\<lambda>_. f r)"
    by (auto simp: io_bind_def obind_def fun_eq_iff split: option.splits sum.splits dest: give_up_result)
  ultimately show ?thesis using spends_bind [of H "give_up ps n r" "\<lambda>_. H - all_held ps" "\<lambda>_. f r" F] assms(2) by simp
qed

section \<open>Operations that keep the table\<close>

lemma calm_entries [calm_intros]: "calm (fs_findentry i name)" "calm (fs_symlink_read i n buf)"
  unfolding fs_findentry_def fs_symlink_read_def by (intro calm_intros)+

lemma calm_link [calm_intros]: "calm (link_target i)"
  unfolding link_target_def by (intro calm_intros)

section \<open>Resolving paths\<close>

lemma spends_use:
  assumes "io_bind m f k = Some y" "spends H (io_bind m f) G"
  shows "\<forall>x k'. y = Inr (x, k') \<longrightarrow> table_ok k \<longrightarrow> (\<forall>i. count H i \<le> refs k i) \<longrightarrow>
     step_ok k k' \<and> (\<forall>i. refs k' i + count H i = refs k i + count (G x) i)"
  using assms unfolding spends_def by blast

definition walk_held :: "walk \<Rightarrow> nat multiset" where
  "walk_held w = (case w of Path p \<Rightarrow> {#} | Walk p i cur \<Rightarrow> held_ref cur)"

lemma resolve_spends: "spends (walk_held w) (resolve w) held_ref"
proof -
  have "\<forall>x k'. y = Inr (x, k') \<longrightarrow> table_ok k \<longrightarrow> (\<forall>i. count (walk_held w) i \<le> refs k i) \<longrightarrow>
     step_ok k k' \<and> (\<forall>i. refs k' i + count (walk_held w) i = refs k i + count (held_ref x) i)" if "resolve w k = Some y" for k y
  proof (rule resolve.raw_induct [OF _ that], goal_cases)
    case (1 self w k y)
    have IH: "spends (walk_held w) (self w) held_ref" for w unfolding spends_def using 1(1) by blast
    have P: "spends {#} (self (Path s)) held_ref" and W: "H = held_ref cur \<Longrightarrow> spends H (self (Walk s i cur)) held_ref" for s i cur H
      using IH [of "Path s"] IH [of "Walk s i cur"] by (simp_all add: walk_held_def)
    have L: "spends {#} (io_bind (link_target i) (\<lambda>b. io_case b (io_return None) (\<lambda>buff. io_bind (self (Path buff)) (\<lambda>ans. give_up [] 1 ans)))) held_ref" for i
      by (rule spends_bind_calm, intro calm_intros, rule spends_branch, rule spends_return, simp, rule spends_bind_sub [OF P], rule spends_give_up, simp)
    note link = spends_bind_sub [OF L]
    show ?case
    proof (cases w)
      case (Path path)
      note run = 1(2) [unfolded Path walk.case]
      show ?thesis unfolding Path walk_held_def walk.case
        apply (rule spends_use [OF run])
        apply (rule spends_bind_calm, (intro calm_intros; fail))+
        apply (rule spends_bind_sub [where G = held_ref])
        apply ((rule spends_branch spends_root P
            | (rule spends_return spends_give_up W, (simp; fail))
            | (rule spends_bind_calm, (intro calm_intros; fail)))+)
        done
    next
      case (Walk path index curdir)
      note run = 1(2) [unfolded Walk walk.case]
      show ?thesis unfolding Walk walk_held_def walk.case
        apply (rule spends_use [OF run])
        apply ((rule spends_branch spends_bind_open link
            | (rule spends_bind_close spends_return spends_give_up W, (simp; fail))
            | (rule spends_bind_calm, (intro calm_intros; fail)))+)
        done
    qed
  qed
  then show ?thesis unfolding spends_def by blast
qed

end
