(* ===== verification/Fs_Same.thy ===== *)
theory Fs_Same
  imports Fs_Calls
begin

text \<open>The driver changes only the data of an inode: its number, its reference count and its extra pointer stay.\<close>

definition same_node :: "fs_Inode \<Rightarrow> fs_Inode \<Rightarrow> bool" where
  "same_node n n' \<longleftrightarrow> in_number n' = in_number n \<and> in_refCount n' = in_refCount n \<and> in_extra n' = in_extra n"

lemma same_node_refl [simp]: "same_node n n"
  by (simp add: same_node_def)

lemma same_node_trans: "same_node n n1 \<Longrightarrow> same_node n1 n2 \<Longrightarrow> same_node n n2"
  by (simp add: same_node_def)

lemma same_node_data [simp]: "same_node n (upd_data g n') \<longleftrightarrow> same_node n n'" "same_node n (add_sectors f n') \<longleftrightarrow> same_node n n'"
  "same_node (upd_data g n) n' \<longleftrightarrow> same_node n n'" "same_node n (upd_links d n') \<longleftrightarrow> same_node n n'"
  by (simp_all add: same_node_def upd_data_def add_sectors_def upd_links_def)

lemma ensure_root_same: "ensure_root gt pt g b n f = Inr (ok, n', f') \<Longrightarrow> same_node n n'"
  by (auto simp: ensure_root_def Let_def split: if_splits elim!: rbind_InrE)

lemma ensure_entry_same: "ensure_entry l i g b n f = Inr (ok, n', f') \<Longrightarrow> same_node n n'"
  by (auto simp: ensure_entry_def Let_def split: if_splits elim!: rbind_InrE)

lemma put_single_same: "put_single g b i n f = Inr (r, n', f') \<Longrightarrow> same_node n n'"
  by (auto simp: put_single_def split: if_splits elim!: rbind_InrE dest: ensure_root_same)

lemma put_double_same: "put_double g b i n f = Inr (r, n', f') \<Longrightarrow> same_node n n'"
  by (auto simp: put_double_def Let_def split: if_splits elim!: rbind_InrE dest!: ensure_root_same ensure_entry_same; simp add: same_node_def)

lemma put_triple_same: "put_triple g b i n f = Inr (r, n', f') \<Longrightarrow> same_node n n'"
  by (auto simp: put_triple_def Let_def split: if_splits elim!: rbind_InrE dest!: ensure_root_same ensure_entry_same; simp add: same_node_def)

lemma allocate_data_block_same: "allocate_data_block n i f = Inr (r, n', f') \<Longrightarrow> same_node n n'"
  by (auto simp: allocate_data_block_def Let_def split: if_splits elim!: rbind_InrE dest!: put_single_same put_double_same put_triple_same)

lemma block_for_same: "block_for n i f = Inr (r, n', f') \<Longrightarrow> same_node n n'"
  by (auto simp: block_for_def split: if_splits elim!: rbind_InrE dest: allocate_data_block_same)

lemma fill_loop_same: "fill_loop is n f = Inr (n', f') \<Longrightarrow> same_node n n'"
proof (induction "is" arbitrary: n f)
  case (Cons i "is")
  obtain b n1 f1 where 1: "block_for n i f = Inr (b, n1, f1)" using Cons.prems by (auto elim!: rbind_InrE)
  have "same_node n1 n'" using Cons.prems 1 by (auto split: if_splits dest: Cons.IH)
  then show ?case using block_for_same [OF 1] by (blast intro: same_node_trans)
qed simp

lemma write_loop_same: "write_loop is off src rem from' n f = Inr (r, n', f') \<Longrightarrow> same_node n n'"
proof (induction "is" arbitrary: off rem from' n f)
  case (Cons i "is")
  obtain b n1 f1 where 1: "block_for n i f = Inr (b, n1, f1)" using Cons.prems by (auto simp: Let_def elim!: rbind_InrE)
  have "same_node n1 n'" using Cons.prems 1 by (auto simp: Let_def split: if_splits elim!: rbind_InrE dest: Cons.IH)
  then show ?case using block_for_same [OF 1] by (blast intro: same_node_trans)
qed simp

lemma write_inode_same: "ext2_write_inode n f = Inr (r, n', f') \<Longrightarrow> same_node n n'"
  by (auto simp: ext2_write_inode_def Let_def elim!: rbind_InrE)

lemma write_content_same: "ext2_write_inode_content n off sz b f = Inr (r, n', f') \<Longrightarrow> same_node n n'"
  by (auto simp: ext2_write_inode_content_def Let_def elim!: rbind_InrE dest!: write_inode_same fill_loop_same write_loop_same; simp add: same_node_def)

lemma delete_inode_same: "ext2_delete_inode n f = Inr (r, n', f') \<Longrightarrow> same_node n n'"
  by (auto simp: ext2_delete_inode_def Let_def split: if_splits elim!: rbind_InrE dest!: write_inode_same)

lemma obind_Inr: "obind x g = Some (Inr z) \<longleftrightarrow> (\<exists>y. x = Some (Inr y) \<and> g y = Some (Inr z))"
  by (auto simp: obind_def split: option.splits sum.splits)

lemma dir_room_loop_same: "dir_room_loop len off cur n f = Some y \<Longrightarrow> \<forall>a b c n' f'. y = Inr (a, b, c, n', f') \<longrightarrow> same_node n n'"
proof (rule dir_room_loop.raw_induct [of "\<lambda>len off cur n f y. \<forall>a b c n' f'. y = Inr (a, b, c, n', f') \<longrightarrow> same_node n n'"], goal_cases)
  case (1 self len off cur n f y)
  then show ?case by (auto split: if_splits sum.splits elim!: rbind_InrE dest: write_content_same)
qed

lemma dir_add_same:
  assumes "ext2_dir_add n name num f = Some (Inr (r, n', f'))"
  shows "same_node n n'"
proof -
  have place: "same_node n n1" if "dir_place len n f1 = Some (Inr (a, b, n1, f2))" for len f1 a b n1 f2
    using that by (auto simp: dir_place_def obind_Inr split: if_splits dest!: dir_room_loop_same)
  obtain old f1 where 1: "ext2_dir_find n name f = Some (Inr (old, f1))" using assms by (auto simp: ext2_dir_add_def obind_Inr)
  show ?thesis
  proof (cases "de_entryLength old = 0")
    case True
    show ?thesis using assms unfolding ext2_dir_add_def 1
      by (simp add: obind_Inr Let_def True)
        (elim exE conjE rbind_InrE, auto elim!: rbind_InrE, drule place, drule write_content_same, drule write_inode_same, simp add: same_node_def upd_data_def)
  next
    case False
    then show ?thesis using assms unfolding ext2_dir_add_def 1 by (simp add: obind_Inr)
  qed
qed

lemma dir_remove_loop_same: "dir_remove_loop name l off e n f = Some y \<Longrightarrow> \<forall>n' f'. y = Inr (n', f') \<longrightarrow> same_node n n'"
proof (rule dir_remove_loop.raw_induct [of "\<lambda>name l off e n f y. \<forall>n' f'. y = Inr (n', f') \<longrightarrow> same_node n n'"], goal_cases)
  case (1 self name l off e n f y)
  then show ?case by (auto split: if_splits sum.splits elim!: rbind_InrE dest: write_content_same)
qed

lemma dir_remove_same: "ext2_dir_remove n name f = Some (Inr (r, n', f')) \<Longrightarrow> same_node n n'"
  by (auto simp: ext2_dir_remove_def obind_Inr dest!: dir_remove_loop_same)

end
