(* ===== verification/Fs_Example.thy ===== *)
theory Fs_Example
  imports Fs_Calls Ext2_Allocator
begin

text \<open>A mounted file system with an empty root directory, as an instance for the properties of the file system calls.\<close>

section \<open>Directory entries in memory\<close>

lemma char_byte_roundtrip: "byte_char (char_byte c) = c"
  by (simp add: byte_char_def char_byte_def unsigned_of_nat take_bit_eq_mod)

definition entry_ok :: "DirectoryEntry \<Rightarrow> bool" where
  "entry_ok e \<longleftrightarrow> de_inode e < 2 ^ 32 \<and> de_entryLength e < 2 ^ 16 \<and> de_nameLength e < 2 ^ 16 \<and> length (de_name e) = Suc NAME_MAX_LEN"

lemma entry_roundtrip:
  assumes "entry_ok e"
  shows "entry_of_bytes (entry_bytes e) = e" "length (entry_bytes e) = DIRECTORY_ENTRY_SIZE"
proof -
  have l: "length (de_name e) = 257" using assms by (simp add: entry_ok_def NAME_MAX_LEN_def)
  let ?r = "map char_byte (de_name e) @ replicate 3 0"
  have "get32 (entry_bytes e) 0 = de_inode e" "get16 (entry_bytes e) 4 = de_entryLength e" "get16 (entry_bytes e) 6 = de_nameLength e"
    using assms get32_append [of "[]" "de_inode e"] get16_append [of "le32 (de_inode e)" "de_entryLength e"]
      get16_append [of "le32 (de_inode e) @ le16 (de_entryLength e)" "de_nameLength e"]
    by (simp_all add: entry_ok_def entry_bytes_def le_length)
  moreover have "drop ENTRY_HEADER_LEN (entry_bytes e) = ?r" by (simp add: entry_bytes_def ENTRY_HEADER_LEN_def le32_def le16_def)
  moreover have "take (Suc NAME_MAX_LEN) ?r = map char_byte (de_name e)" using l by (simp add: NAME_MAX_LEN_def)
  moreover have "map byte_char (map char_byte (de_name e)) = de_name e" by (simp add: char_byte_roundtrip comp_def)
  ultimately show "entry_of_bytes (entry_bytes e) = e" by (simp add: entry_of_bytes_def)
  show "length (entry_bytes e) = DIRECTORY_ENTRY_SIZE" using l by (simp add: entry_bytes_def DIRECTORY_ENTRY_SIZE_def le32_def le16_def)
qed

section \<open>The mounted kernel\<close>

definition root_entry :: DirectoryEntry where
  "root_entry = \<lparr>de_inode = 2, de_entryLength = 1024, de_nameLength = 1, de_name = CHR ''.'' # replicate 256 NUL\<rparr>"

definition root_fs :: ext2 where
  "root_fs = small_fs\<lparr>blockBufferOwner := 2 # replicate 9 0, blockBufferAddress := 20 # replicate 9 0,
     blockBuffer := (entry_bytes root_entry @ replicate 756 0) # replicate 9 (replicate 1024 0)\<rparr>"

definition root_inode :: fs_Inode where
  "root_inode = \<lparr>in_number = 2, in_data = zero_inode\<lparr>typesAndPermissions := 0x41ED, i_size := 1024,
     i_directBlockPointers := 20 # replicate 11 0\<rparr>, in_refCount = 1, in_extra = None\<rparr>"

definition mounted_kernel :: io_kernel where
  "mounted_kernel = (tty_kernel.extend (example_tty 1 []) (io_kernel.fields root_fs 1 (\<lambda>_. NUL)))
     \<lparr>inodes := (\<lambda>_. root_inode), inodeTable := Some 0 # replicate 49 None, opsTable := (replicate 16 NoOps)[4 := DirOps],
      procs := (\<lambda>_. zero_process\<lparr>p_active := True, p_cwd := ''/'', p_fdTable := replicate 10 \<lparr>fd_inode = None, fd_flags = 0, fd_offset = 0, fd_ops = 0\<rparr>\<rparr>),
      kmem := paging_example\<lparr>pm_kalloc := 10\<rparr>\<rparr>"

lemma mounted_fields [simp]:
  "inodes mounted_kernel = (\<lambda>_. root_inode)" "inodeTable mounted_kernel = Some 0 # replicate 49 None" "inode_brk mounted_kernel = 1"
  "opsTable mounted_kernel = (replicate 16 NoOps)[4 := DirOps]" "scheduler_curr mounted_kernel = Some 0" "k_fs mounted_kernel = root_fs"
  "pm_kalloc (kmem mounted_kernel) = 10" "heap_junk mounted_kernel = (\<lambda>_. NUL)"
  "procs mounted_kernel = (\<lambda>_. zero_process\<lparr>p_active := True, p_cwd := ''/'', p_fdTable := replicate 10 \<lparr>fd_inode = None, fd_flags = 0, fd_offset = 0, fd_ops = 0\<rparr>\<rparr>)"
  by (simp_all add: mounted_kernel_def tty_kernel.defs io_kernel.defs example_tty_def kernel.defs small_kernel_def)

lemma mounted_open: "\<not> broken mounted_kernel" "find_inode 2 (inodes mounted_kernel) (inodeTable mounted_kernel) = Some 0"
  by (auto simp: broken_def root_inode_def)

section \<open>The root\<close>

lemma root_string: "strlen (Some [CHR ''/'', NUL]) = Inr 1" "cget [CHR ''/'', NUL] 0 = Inr (CHR ''/'')"
  using strlen_correct [of "[CHR ''/'', NUL]"] by (simp_all add: terminated_def cstr_def cget_def)

lemma resolve_root:
  assumes "\<not> broken k" "find_inode 2 (inodes k) (inodeTable k) = Some r" "scheduler_curr k = Some c" "p_uid (procs k c) = 0"
  shows "resolve_path [CHR ''/'', NUL] k = Some (Inr (Some r, add_reference r k))"
proof -
  let ?k = "add_reference r k"
  have root: "fs_root k = Some (Inr (Some r, ?k))" using assms(1,2) by (simp add: fs_root_def fs_inode_open_def)
  have cur: "scheduler_curr ?k = Some c" "procs ?k = procs k" by (simp_all add: add_reference_def upd_inode_def assms(3))
  have read: "can_read (Some r) ?k = Some (Inr (0, ?k))"
    using assms(4) cur by (simp add: can_read_def access_def process_def current_def scheduler_current_def io_bind_def obind_def io_get_def io_if_def io_return_def)
  have walk: "resolve (Walk [CHR ''/'', NUL] (Suc 0) (Some r)) ?k = Some (Inr (Some r, ?k))"
    by (subst resolve.simps) (simp add: root_string io_bind_def obind_def io_result_def io_if_def io_return_def)
  show ?thesis unfolding resolve_path_def
    by (subst resolve.simps) (simp add: root_string io_bind_def obind_def io_result_def io_if_def root read walk)
qed

lemmas io_defs = io_bind_def obind_def io_return_def io_get_def io_upd_def io_result_def io_if_def io_case_def io_deref_def io_run_def current_def process_def
  scheduler_current_def

lemma new_string_ok: "0 < pm_kalloc (kmem k) \<Longrightarrow> new_string (Inr t) k = Some (Inr (t, k\<lparr>kmem := (kmem k)\<lparr>pm_kalloc := pm_kalloc (kmem k) - 1\<rparr>\<rparr>))"
  by (simp add: new_string_def Kernel_State.kalloc_object_def io_result_def)

text \<open>Changing to the root directory.\<close>

lemma join_root: "join_paths junk cwd [CHR ''/'', NUL] = Inr [CHR ''/'', NUL]"
  using strcpy_correct [of "[CHR ''/'', NUL]" "map junk [0..<2]"]
  by (simp add: join_paths_def root_string terminated_def cstr_def numeral_2_eq_2)

lemma root_is_dir: "INODE_TYPE (in_data root_inode) = INODE_DIR" "INODE_TYPE (in_data (root_inode\<lparr>in_refCount := n\<rparr>)) = INODE_DIR"
  by (simp_all add: root_inode_def INODE_TYPE_def INODE_DIR_def)

lemma chdir_root: "\<exists>k'. sys_chdir [CHR ''/'', NUL] mounted_kernel = Some (Inr (0, k'))"
proof -
  let ?k = "mounted_kernel\<lparr>kmem := (kmem mounted_kernel)\<lparr>pm_kalloc := 9\<rparr>\<rparr>"
  have n: "new_string (Inr [CHR ''/'', NUL]) mounted_kernel = Some (Inr ([CHR ''/'', NUL], ?k))" by (simp add: new_string_ok)
  have r: "resolve_path [CHR ''/'', NUL] ?k = Some (Inr (Some 0, add_reference 0 ?k))"
    using mounted_open by (intro resolve_root [of _ 0 0]) (simp_all add: broken_def zero_process_def)
  have t: "INODE_TYPE (in_data (inodes (add_reference 0 ?k) 0)) = INODE_DIR" by (simp add: add_reference_def upd_inode_def root_is_dir)
  show ?thesis unfolding sys_chdir_def
    by (simp add: io_defs join_root n r t inode_type_def give_up_def close_ptr_def numeral_2_eq_2)
qed

text \<open>Looking up the entry of the root directory in itself.\<close>

lemma root_entry_ok: "entry_ok root_entry" "entry_ok empty_entry"
  by (simp_all add: entry_ok_def root_entry_def empty_entry_def NAME_MAX_LEN_def)

lemma dir_read_root:
  assumes "in_data n = in_data root_inode" "in_number n = 2" "f = root_fs\<lparr>dev := d\<rparr>"
  shows "ext2_dir_read n 0 f = Inr (root_entry, f)"
proof -
  have len: "length (entry_bytes root_entry) = 268" "length (entry_bytes empty_entry) = 268"
    using entry_roundtrip(2) [OF root_entry_ok(1)] entry_roundtrip(2) [OF root_entry_ok(2)] by (simp_all add: DIRECTORY_ENTRY_SIZE_def)
  have f: "blockSize f = 1024" "blockBufferOwner f = 2 # replicate 9 0" "blockBufferAddress f = 20 # replicate 9 0"
    "blockBuffer f ! 0 = entry_bytes root_entry @ replicate 756 0" unfolding assms(3) root_fs_def small_fs_def by simp_all
  have b: "block_index_to_block (in_data n) 0 f = Inr (20, f)" unfolding assms(1) by (simp add: block_index_to_block_def root_inode_def)
  have l: "load_buffer n 20 f = Inr (Some 0, f)"
    using f by (simp add: load_buffer_def choose_buffer_def assms(2) first_index_def BLOCK_BUFFER_COUNT_def Let_def)
  have rb: "read_inode_block n 0 0 268 f = Inr (Some (entry_bytes root_entry), f)" using b l f(4) len by (simp add: read_inode_block_def)
  have pb: "put_bytes 0 (Some (entry_bytes root_entry)) (entry_bytes empty_entry) = Inr (entry_bytes root_entry)"
    using len by (cases "entry_bytes root_entry") (simp_all add: put_bytes_def splice_def)
  have "ext2_read_inode_content n 0 268 (entry_bytes empty_entry) f = Inr (268, entry_bytes root_entry, f)"
    using rb pb f(1) by (simp add: ext2_read_inode_content_def assms(1)) (simp add: root_inode_def)
  moreover have "INODE_TYPE (in_data n) = INODE_DIR" unfolding assms(1) by (rule root_is_dir)
  moreover have "(replicate 256 NUL)[0 := NUL] = replicate 256 NUL" by (simp add: list_update_same_conv)
  ultimately show ?thesis using entry_roundtrip(1) [OF root_entry_ok(1)]
    by (simp add: ext2_dir_read_def DIRECTORY_ENTRY_SIZE_def Let_def root_entry_def cput_def)
qed

lemma findentry_root:
  assumes "in_data (inodes k i) = in_data root_inode" "in_number (inodes k i) = 2" "k_fs k = root_fs\<lparr>dev := d\<rparr>"
  shows "\<exists>f nm. fs_findentry i [CHR ''.'', NUL] k = Some (Inr (\<lparr>fde_inode = 2, fde_length = 1, fde_name = nm\<rparr>, unmount f k)) \<and> f = root_fs\<lparr>dev := dev f\<rparr>"
proof -
  let ?f = "mount k"
  have f: "?f = root_fs\<lparr>dev := dev ?f\<rparr>" using assms(3) by (simp add: mount_def)
  have "strcmp (de_name root_entry) [CHR ''.'', NUL] = Inr 0"
    using strcmp_correct [of "de_name root_entry" "[CHR ''.'', NUL]"] by (simp add: root_entry_def terminated_def cstr_def INT_MAX_def)
  then have "dir_find_loop (inodes k i) [CHR ''.'', NUL] 0 root_entry ?f = Some (Inr (root_entry, ?f))"
    by (subst dir_find_loop.simps) (simp add: root_entry_def)
  then have find: "ext2_dir_find (inodes k i) [CHR ''.'', NUL] ?f = Some (Inr (root_entry, ?f))"
    using dir_read_root [OF assms(1,2) f] by (simp add: ext2_dir_find_def)
  obtain nm where "strcpy (replicate ENTRY_NAME_MAX_LEN NUL) (de_name root_entry) = Inr nm"
    using strcpy_correct [of "de_name root_entry" "replicate ENTRY_NAME_MAX_LEN NUL"]
    by (simp add: root_entry_def terminated_def cstr_def ENTRY_NAME_MAX_LEN_def)
  then have "fs_findentry i [CHR ''.'', NUL] k = Some (Inr (\<lparr>fde_inode = 2, fde_length = 1, fde_name = nm\<rparr>, unmount ?f k))"
    unfolding fs_findentry_def by (simp add: io_defs with_fs_def find) (simp add: root_entry_def io_defs)
  then show ?thesis using f by blast
qed

lemma root_path_parts: "path_directory [CHR ''/'', NUL] = Inr [CHR ''/'', NUL]" "path_file [CHR ''/'', NUL] = Inr [CHR ''.'', NUL]"
  using strcmp_correct [of "[CHR ''/'', NUL]" "[CHR ''/'', NUL]"]
  by (simp_all add: path_directory_def path_file_def terminated_def cstr_def INT_MAX_def)

text \<open>The root is in the table with one reference, and the process is the superuser's.\<close>

definition at_root :: "io_kernel \<Rightarrow> bool" where
  "at_root k \<longleftrightarrow> inodes k 0 = root_inode \<and> inodeTable k = Some 0 # replicate 49 None \<and> scheduler_curr k = Some 0 \<and> procs k = procs mounted_kernel
     \<and> opsTable k = opsTable mounted_kernel \<and> (\<exists>d. k_fs k = root_fs\<lparr>dev := d\<rparr>)"

lemma at_root_open:
  assumes "at_root k"
  shows "fs_inode_open 2 k = Some (Inr (Some 0, add_reference 0 k))" "resolve_path [CHR ''/'', NUL] k = Some (Inr (Some 0, add_reference 0 k))"
proof -
  have b: "\<not> broken k" using assms by (auto simp: at_root_def broken_def root_inode_def)
  have f: "find_inode 2 (inodes k) (inodeTable k) = Some 0" using assms by (simp add: at_root_def root_inode_def)
  show "fs_inode_open 2 k = Some (Inr (Some 0, add_reference 0 k))" using b f by (simp add: fs_inode_open_def)
  show "resolve_path [CHR ''/'', NUL] k = Some (Inr (Some 0, add_reference 0 k))"
    using assms by (intro resolve_root [OF b f, of 0]) (simp_all add: at_root_def zero_process_def)
qed

lemma at_root_mem: "at_root (k\<lparr>kmem := m\<rparr>) = at_root k" "at_root (kfree_object k) = at_root k"
  by (simp_all add: at_root_def kfree_object_def)

lemma at_root_close:
  assumes "at_root k" "k_fs k1 = root_fs\<lparr>dev := d\<rparr>" "k1 = (add_reference 0 k)\<lparr>k_fs := f, kmem := m\<rparr>"
  shows "at_root (fs_inode_close 0 k1)"
  using assms by (auto simp: at_root_def fs_inode_close_def add_reference_def upd_inode_def root_inode_def Let_def)

lemma open_root:
  assumes sw: "sw = (\<lambda>k. k)"
  shows "\<exists>k'. sys_open sw [CHR ''/'', NUL] 0 0 mounted_kernel = Some (Inr (0, k'))"
proof -
  let ?k2 = "mounted_kernel\<lparr>kmem := (kmem mounted_kernel)\<lparr>pm_kalloc := 8\<rparr>\<rparr>"
  have k0: "at_root mounted_kernel"
    unfolding at_root_def by (auto intro!: exI [of _ "dev root_fs"])
  then have k2: "at_root ?k2" by (simp add: at_root_mem)
  let ?k3 = "add_reference 0 ?k2"
  have in3: "in_data (inodes ?k3 0) = in_data root_inode" "in_number (inodes ?k3 0) = 2" "k_fs ?k3 = root_fs\<lparr>dev := dev root_fs\<rparr>"
    by (simp_all add: add_reference_def upd_inode_def root_inode_def)
  obtain f nm where e: "fs_findentry 0 [CHR ''.'', NUL] ?k3 = Some (Inr (\<lparr>fde_inode = 2, fde_length = 1, fde_name = nm\<rparr>, unmount f ?k3))" "f = root_fs\<lparr>dev := dev f\<rparr>"
    using findentry_root [OF in3] by blast
  have oe: "open_entry 0 [CHR ''.'', NUL] p 0 m ?k3 = Some (Inr (2, unmount f ?k3))" for p m
    by (simp add: open_entry_def io_defs e(1))
  let ?k4 = "kfree_object (kfree_object (fs_inode_close 0 (unmount f ?k3)))"
  have "at_root (fs_inode_close 0 (unmount f ?k3))" using e(2) by (intro at_root_close [OF k2]) (simp_all add: unmount_def)
  then have k4: "at_root ?k4" by (simp add: at_root_mem)
  let ?k5 = "add_reference 0 ?k4"
  have k5: "scheduler_curr ?k5 = Some 0" "procs ?k5 = procs mounted_kernel" "opsTable ?k5 = opsTable mounted_kernel"
    "INODE_TYPE (in_data (inodes ?k5 0)) = INODE_DIR" using k4 by (simp_all add: at_root_def add_reference_def upd_inode_def root_is_dir)
  have cm: "check_mode 0 (Some 0) ?k5 = Some (Inr (True, ?k5))"
    using k5(1,2) by (simp add: check_mode_def io_defs can_read_def access_def O_RDONLY_def O_WRONLY_def O_RDWR_def zero_process_def)
  obtain k6 where fd: "install_fd sw 0 0 0 ?k5 = Some (Inr ((), k6))"
    using k5 unfolding install_fd_def fs_fd_def sw by (simp add: io_defs put_fd_def Let_def INODE_DIR_def upd_inode_def)
  have ff: "find_fd (replicate 10 \<lparr>fd_inode = None, fd_flags = 0, fd_offset = 0, fd_ops = 0\<rparr>) = Some 0" by (simp add: numeral_eq_Suc)
  have fs2: "free_strings 2 = io_bind free_string (\<lambda>_. io_bind free_string (\<lambda>_. io_return ()))" by (simp add: numeral_2_eq_2)
  have "sys_open sw [CHR ''/'', NUL] 0 0 mounted_kernel = give_up [Some 0] 0 (int 0) k6"
    by (subst sys_open.simps)
      (simp add: io_defs ff root_path_parts new_string_ok at_root_open [OF k2] oe give_up_def close_ptr_def fs2 at_root_open [OF k4] cm fd
        inode_type_def k5(4) INODE_DIR_def INODE_LINK_def)
  then show ?thesis by (simp add: give_up_def close_ptr_def io_defs)
qed

end
