(* ===== verification/Fs_Balance.thy ===== *)
theory Fs_Balance
  imports Fs_Refs Fs_Same Fs_Example
begin

text \<open>The file system calls give back every reference to an inode that they take.\<close>

section \<open>Operations that keep the table\<close>

lemma calm_on_inode:
  assumes "\<And>n f r n' f'. g n f = Some (Inr (r, n', f')) \<Longrightarrow> same_node n n'"
  shows "calm (on_inode i g)"
  unfolding frames_def
proof (intro allI impI)
  fix k x k'
  assume "on_inode i g k = Some (Inr (x, k'))"
  then obtain n f where 1: "g (inodes k i) (mount k) = Some (Inr (x, n, f))" and k': "k' = upd_inode i (\<lambda>_. n) (unmount f k)"
    by (auto simp: on_inode_def obind_Inr)
  have "same_node (inodes k i) n" using assms [OF 1] .
  then show "calm_step k k'"
    unfolding k' by (simp add: calm_step_def upd_inode_def unmount_def same_node_def)
qed

lemma calm_upd_inode:
  assumes "\<And>n. same_node n (h n)"
  shows "calm (io_upd (upd_inode i h))"
  using assms by (auto simp: frames_def calm_step_def io_upd_def upd_inode_def same_node_def)

lemma calm_new_inode [calm_intros]: "calm (new_inode n)"
  by (auto simp: frames_def calm_step_def new_inode_def)

lemma calm_inode_ops [calm_intros]:
  "calm (on_inode i (\<lambda>n. ext2_dir_remove n name))" "calm (on_inode i (\<lambda>n. ext2_dir_add n name num))"
  "calm (on_inode i (\<lambda>n f. Some (ext2_write_inode n f)))"
  "calm (on_inode i (\<lambda>n f. Some (if c then ext2_delete_inode n f else ext2_write_inode n f)))"
  "calm (on_inode i (\<lambda>n f. Some (ext2_write_inode_content n off sz b f)))"
  "calm (io_upd (upd_inode i (upd_links d)))" "calm (io_upd (upd_inode i (upd_data e)))"
  by (auto intro!: calm_on_inode calm_upd_inode split: if_splits
      dest: dir_remove_same dir_add_same write_inode_same delete_inode_same write_content_same)

lemma calm_upd_p [calm_intros]: "calm (io_upd (upd_p p g))"
  by (auto simp: frames_def calm_step_def io_upd_def upd_p_def)

lemma calm_links [calm_intros]: "calm (remove_link i name j)" "calm (add_link i name j)"
  unfolding remove_link_def add_link_def by (intro calm_intros)+

lemma calm_sets [calm_intros]: "calm (fs_set_permission i m)" "calm (fs_set_own i u g)"
  unfolding fs_set_permission_def fs_set_own_def by (intro calm_intros)+

lemma calm_creation [calm_intros]: "calm (fs_mknod i name t)" "calm (fs_mkdir i name)"
  unfolding fs_mknod_def fs_mkdir_def by (intro calm_intros)+

lemma calm_rmdir_loop [calm_intros]: "calm (rmdir_loop d p s off)"
proof -
  have "\<forall>x k'. y = Inr (x, k') \<longrightarrow> calm_step k k'"
    if "rmdir_loop d p s off k = Some y" for k y
  proof (rule rmdir_loop.raw_induct [OF _ that], goal_cases)
    case (1 self d p s off k y)
    have IH: "calm (self d p s off)" for d p s off using 1(1) unfolding frames_def by blast
    have "calm (io_bind (with_fs (\<lambda>f. Some (ext2_dir_read (inodes k d) off f))) (\<lambda>child.
       io_if (de_entryLength child = 0) (io_return False)
         (io_if (de_inode child \<noteq> p \<and> de_inode child \<noteq> s) (io_return True) (self d p s ((off + de_entryLength child) mod 2 ^ 32)))))"
      by (intro calm_intros IH)
    then show ?case using 1(2) unfolding frames_def by blast
  qed
  then show ?thesis unfolding frames_def by blast
qed

section \<open>Operations on names\<close>

lemma resolve_path_spends: "spends {#} (resolve_path path) held_ref"
  using resolve_spends [of "Path path"] by (simp add: resolve_path_def walk_held_def)

lemmas spends_bind_resolve = spends_bind_sub [OF resolve_path_spends]

lemma fs_names_spend:
  "spends {#} (fs_rmdir i name) (\<lambda>_. {#})" "spends {#} (fs_unlink i name) (\<lambda>_. {#})"
  "spends {#} (fs_symlink i name target) (\<lambda>_. {#})" "spends {#} (fs_rename i name j name') (\<lambda>_. {#})"
  "spends {#} (removable i name) (\<lambda>_. {#})"
  unfolding fs_rmdir_def fs_unlink_def fs_symlink_def fs_rename_def removable_def close_ptr_def
  by ((rule spends_branch spends_bind_open
     | (rule spends_bind_close spends_return, (simp; fail))
     | (rule spends_bind_use [OF spends_close_ptr [unfolded close_ptr_def]], (simp; fail))
     | (rule spends_bind_calm, (intro calm_intros; fail)))+)

lemmas spends_binds = spends_bind_open spends_bind_resolve fs_names_spend [THEN spends_bind_sub]

section \<open>System calls\<close>

lemma calls_spend:
  "spends {#} (sys_creat path mode) (\<lambda>_. {#})" "spends {#} (sys_mkdir path mode) (\<lambda>_. {#})" "spends {#} (sys_rmdir path) (\<lambda>_. {#})"
  "spends {#} (sys_unlink path) (\<lambda>_. {#})" "spends {#} (sys_chdir path) (\<lambda>_. {#})" "spends {#} (sys_symlink path target) (\<lambda>_. {#})"
  "spends {#} (sys_mkfifo path) (\<lambda>_. {#})" "spends {#} (sys_chmod mode path) (\<lambda>_. {#})" "spends {#} (sys_chown path) (\<lambda>_. {#})"
  "spends {#} (sys_stat path) (\<lambda>_. {#})"
  unfolding sys_creat_def sys_mkdir_def sys_rmdir_def sys_unlink_def sys_chdir_def sys_symlink_def sys_mkfifo_def sys_chmod_def sys_chown_def on_file_def sys_stat_def
  by ((rule spends_branch spends_binds
     | (rule spends_bind_close spends_return spends_give_up spends_bind_give_up, (simp; fail))
     | (rule spends_bind_calm, (intro calm_intros; fail)))+)

text \<open>The calls that name files, and a sequence of them by different processes.\<close>

datatype file_call = Creat string int | Mkdir string int | Rmdir string | Unlink string | Chdir string | Symlink string string
  | Mkfifo string | Chmod int string | Chown string | Stat string

fun exec_call :: "file_call \<Rightarrow> int io" where
  "exec_call (Creat path mode) = sys_creat path mode"
| "exec_call (Mkdir path mode) = sys_mkdir path mode"
| "exec_call (Rmdir path) = sys_rmdir path"
| "exec_call (Unlink path) = sys_unlink path"
| "exec_call (Chdir path) = sys_chdir path"
| "exec_call (Symlink path target) = sys_symlink path target"
| "exec_call (Mkfifo path) = sys_mkfifo path"
| "exec_call (Chmod mode path) = sys_chmod mode path"
| "exec_call (Chown path) = sys_chown path"
| "exec_call (Stat path) = io_bind (sys_stat path) (\<lambda>(r, _). io_return r)"

fun exec_calls :: "(nat \<times> file_call) list \<Rightarrow> unit io" where
  "exec_calls [] = io_return ()"
| "exec_calls ((p, c) # cs) = io_bind (io_upd (\<lambda>k. k\<lparr>scheduler_curr := Some p\<rparr>)) (\<lambda>_. io_bind (exec_call c) (\<lambda>_. exec_calls cs))"

lemma calm_switch [calm_intros]: "calm (io_upd (\<lambda>k. k\<lparr>scheduler_curr := c\<rparr>))"
  by (auto simp: frames_def calm_step_def io_upd_def)

lemma exec_call_spends: "spends {#} (exec_call c) (\<lambda>_. {#})"
proof (cases c)
  case (Stat path)
  have "spends {#} (io_bind (sys_stat path) (\<lambda>(r, _). io_return r)) (\<lambda>_. {#})"
    by (rule spends_bind_sub [OF calls_spend(10)]) (auto intro!: spends_branch spends_return)
  then show ?thesis using Stat by simp
qed (simp_all add: calls_spend)

lemma exec_calls_spend: "spends {#} (exec_calls cs) (\<lambda>_. {#})"
proof (induction cs)
  case (Cons pc cs)
  obtain p c where "pc = (p, c)" by (cases pc)
  moreover have "spends {#} (io_bind (exec_call c) (\<lambda>_. exec_calls cs)) (\<lambda>_. {#})"
    by (rule spends_bind [OF exec_call_spends]) (rule Cons.IH)
  ultimately show ?case using spends_bind_calm [OF calm_switch] by simp
qed (simp add: spends_return)



end
