(* ===== verification/Fs_Access.thy ===== *)
theory Fs_Access
  imports Fs_Example Fs_Frames
begin

text \<open>
  Access control: a path only leads to inodes that the process may read, and a file is only opened in a mode that
  its permissions allow. The proofs use triples: when an operation starts in a state with \<open>P\<close> and returns \<open>x\<close>, then
  \<open>Q x\<close> holds of the state afterwards.
\<close>

section \<open>Permissions\<close>

text \<open>The rule: the superuser may do everything, others need the bit for everybody, for their group or for the owner.\<close>

definition allowed :: "nat \<Rightarrow> nat \<Rightarrow> nat \<Rightarrow> Process \<Rightarrow> ext2_Inode \<Rightarrow> bool" where
  "allowed oth grp usr pr d \<longleftrightarrow> p_uid pr = 0 \<or> INODE_PERMISSIONS d AND oth \<noteq> 0
     \<or> (INODE_PERMISSIONS d AND grp \<noteq> 0 \<and> int (i_gid d) = p_gid pr) \<or> (INODE_PERMISSIONS d AND usr \<noteq> 0 \<and> int (i_uid d) = p_uid pr)"

definition readable :: "Process \<Rightarrow> ext2_Inode \<Rightarrow> bool" where
  "readable = allowed S_IROTH S_IRGRP S_IRUSR"

definition writable :: "Process \<Rightarrow> ext2_Inode \<Rightarrow> bool" where
  "writable = allowed S_IWOTH S_IWGRP S_IWUSR"

section \<open>Triples\<close>

definition triple :: "(io_kernel \<Rightarrow> bool) \<Rightarrow> 'a io \<Rightarrow> ('a \<Rightarrow> io_kernel \<Rightarrow> bool) \<Rightarrow> bool" where
  "triple P m Q \<longleftrightarrow> (\<forall>k x k'. P k \<longrightarrow> m k = Some (Inr (x, k')) \<longrightarrow> Q x k')"

lemma triple_bind: "triple P m R \<Longrightarrow> (\<And>x. triple (R x) (f x) Q) \<Longrightarrow> triple P (io_bind m f) Q"
  unfolding triple_def io_bind_Inr by blast

lemma triple_any: "(\<And>x. triple (\<lambda>_. True) (f x) Q) \<Longrightarrow> triple P (io_bind m f) Q"
  unfolding triple_def io_bind_Inr by blast

lemma triple_return: "(\<And>k. P k \<Longrightarrow> Q x k) \<Longrightarrow> triple P (io_return x) Q"
  by (auto simp: triple_def io_return_def)

lemma triple_fault: "triple P (io_fault e) Q"
  by (simp add: triple_def io_fault_def)

lemma triple_branch:
  "(b \<Longrightarrow> triple P m Q) \<Longrightarrow> (\<not> b \<Longrightarrow> triple P n Q) \<Longrightarrow> triple P (io_if b m n) Q"
  "(p = None \<Longrightarrow> triple P m Q) \<Longrightarrow> (\<And>i. p = Some i \<Longrightarrow> triple P (g i) Q) \<Longrightarrow> triple P (io_case p m g) Q"
  "(\<And>i. p = Some i \<Longrightarrow> triple P (g i) Q) \<Longrightarrow> triple P (io_deref p g) Q"
  "(\<And>x y. z = (x, y) \<Longrightarrow> triple P (h x y) Q) \<Longrightarrow> triple P (case z of (x, y) \<Rightarrow> h x y) Q"
  by (auto simp: triple_def io_if_def io_case_def io_deref_def split: option.splits prod.splits)

lemma triple_pre: "triple P m Q \<Longrightarrow> (\<And>k. P' k \<Longrightarrow> P k) \<Longrightarrow> triple P' m Q"
  unfolding triple_def by blast

text \<open>What permissions depend on: the current process, the processes and the data of the inodes.\<close>

definition same_rights :: "io_kernel \<Rightarrow> io_kernel \<Rightarrow> bool" where
  "same_rights k k' \<longleftrightarrow> scheduler_curr k' = scheduler_curr k \<and> procs k' = procs k \<and> (\<forall>i. in_data (inodes k' i) = in_data (inodes k i))"

abbreviation steady :: "'a io \<Rightarrow> bool" where
  "steady \<equiv> frames same_rights"

interpretation steady: state_frame same_rights
  by unfold_locales (auto simp: same_rights_def)

named_theorems steady_intros

lemmas steady_rules [steady_intros] = steady.bind steady.basic steady.branch steady.process steady.reads

lemma steady_basic [steady_intros]: "steady (with_fs h)" "steady (new_string t)" "steady (io_upd kfree_object)" "steady (io_upd (fs_inode_close i))"
  by (auto simp: frames_def same_rights_def with_fs_def unmount_def new_string_def io_upd_def io_result_def
      free_inode_def fs_inode_close_def upd_inode_def kfree_object_def Kernel_State.kalloc_object_def obind_def Let_def
      split: option.splits sum.splits prod.splits if_splits)

lemma steady_close_all [steady_intros]: "steady (close_ptr p)" "steady (close_all ps)" "steady (free_strings n)" "steady (give_up ps n r)"
proof -
  show p: "steady (close_ptr p)" for p unfolding close_ptr_def by (intro steady_intros)
  show c: "steady (close_all ps)" for ps by (induction ps) (auto intro!: steady_intros p)
  show f: "steady (free_strings n)" for n by (induction n) (auto intro!: steady_intros)
  show "steady (give_up ps n r)" unfolding give_up_def by (intro steady_intros c f)
qed

lemma triple_steady:
  assumes "steady m" "\<And>k k'. same_rights k k' \<Longrightarrow> P k \<Longrightarrow> P k'" "\<And>x. triple P (f x) Q"
  shows "triple P (io_bind m f) Q"
  using assms unfolding triple_def frames_def io_bind_Inr by meson

section \<open>Paths\<close>

text \<open>The current process may use the inode behind the pointer \<open>p\<close>; a superuser may even use \<open>NULL\<close>.\<close>

definition may :: "(Process \<Rightarrow> ext2_Inode \<Rightarrow> bool) \<Rightarrow> ptr \<Rightarrow> io_kernel \<Rightarrow> bool" where
  "may a p k \<longleftrightarrow> (\<forall>c i. scheduler_curr k = Some c \<longrightarrow> p = Some i \<longrightarrow> a (procs k c) (in_data (inodes k i)))"

lemma may_same: "same_rights k k' \<Longrightarrow> may a p k \<Longrightarrow> may a p k'"
  by (auto simp: may_def same_rights_def)

lemma triple_may: "steady m \<Longrightarrow> (\<And>x. triple (may a p) (f x) Q) \<Longrightarrow> triple (may a p) (io_bind m f) Q"
  by (rule triple_steady) (auto intro: may_same)

lemma access_eq:
  "access oth grp usr p k =
     (case scheduler_curr k of
        None \<Rightarrow> Some (Inl NullDeref)
      | Some c \<Rightarrow>
          if p_uid (procs k c) = 0 then Some (Inr (0, k))
          else (case p of None \<Rightarrow> Some (Inl NullDeref)
                | Some i \<Rightarrow> Some (Inr (if allowed oth grp usr (procs k c) (in_data (inodes k i)) then 0 else - 1, k))))"
proof (cases "scheduler_curr k")
  case (Some c)
  then have "access oth grp usr p k = io_if (p_uid (procs k c) = 0) (io_return 0) (io_deref p (\<lambda>inode.
      io_bind (io_get (\<lambda>k. in_data (inodes k inode))) (\<lambda>data. io_bind (fs_permission inode) (\<lambda>perms.
        io_return (if perms AND oth = 0 \<and> \<not> (perms AND grp \<noteq> 0 \<and> int (i_gid data) = p_gid (procs k c))
          \<and> \<not> (perms AND usr \<noteq> 0 \<and> int (i_uid data) = p_uid (procs k c)) then - 1 else 0))))) k"
    by (simp add: access_def process_def current_def scheduler_current_def io_bind_def obind_def io_get_def)
  then show ?thesis using Some
    by (simp add: io_if_def io_deref_def io_return_def io_bind_def obind_def io_get_def fs_permission_def allowed_def split: option.split)
qed (simp add: access_def process_def current_def scheduler_current_def io_bind_def obind_def)

lemma access_triple: "triple P (access oth grp usr p) (\<lambda>r k. r = 0 \<longrightarrow> may (allowed oth grp usr) p k)"
  unfolding triple_def access_eq by (auto simp: may_def allowed_def [of _ _ _ pr for pr] split: option.splits if_splits)

lemma can_read_triple: "triple P (can_read p) (\<lambda>r k. r = 0 \<longrightarrow> may readable p k)"
  and can_write_triple: "triple P (can_write p) (\<lambda>r k. r = 0 \<longrightarrow> may writable p k)"
  unfolding can_read_def can_write_def readable_def writable_def by (rule access_triple)+

definition walk_may :: "walk \<Rightarrow> io_kernel \<Rightarrow> bool" where
  "walk_may w = (case w of Path p \<Rightarrow> (\<lambda>_. True) | Walk p i cur \<Rightarrow> may readable cur)"

lemma triple_use: "io_bind m f k = Some y \<Longrightarrow> triple P (io_bind m f) Q \<Longrightarrow> \<forall>x k'. y = Inr (x, k') \<longrightarrow> P k \<longrightarrow> Q x k'"
  unfolding triple_def by blast

lemma triple_none: "triple P m (\<lambda>_. may a None)"
  by (simp add: triple_def may_def)

lemma give_up_none: "triple P (give_up ps n None) (may a)"
  by (auto simp: triple_def give_up_def io_bind_Inr io_return_def may_def)

lemma give_up_may: "triple (may a p) (give_up ps n p) (may a)"
  unfolding give_up_def by (intro triple_may steady_intros triple_return)

lemma checked:
  assumes "triple (may readable p) m (may readable)"
  shows "triple P (io_bind (can_read p) (\<lambda>permission. io_if (permission \<noteq> 0) (give_up [p] 0 None) m)) (may readable)"
proof (rule triple_bind [OF can_read_triple], rule triple_branch)
  fix x :: int
  show "triple (\<lambda>k. x = 0 \<longrightarrow> may readable p k) (give_up [p] 0 None) (may readable)" by (rule give_up_none)
  assume "\<not> x \<noteq> 0"
  then show "triple (\<lambda>k. x = 0 \<longrightarrow> may readable p k) m (may readable)" by (intro triple_pre [OF assms]) auto
qed

lemma resolve_readable: "triple (walk_may w) (resolve w) (may readable)"
proof -
  have "\<forall>x k'. y = Inr (x, k') \<longrightarrow> walk_may w k \<longrightarrow> may readable x k'" if "resolve w k = Some y" for k y
  proof (rule resolve.raw_induct [OF _ that], goal_cases)
    case (1 self w k y)
    have IH: "triple (walk_may w) (self w) (may readable)" for w unfolding triple_def using 1(1) by blast
    have P: "triple (\<lambda>_. True) (self (Path s)) (may readable)" and W: "triple (may readable cur) (self (Walk s i cur)) (may readable)" for s i cur
      using IH [of "Path s"] IH [of "Walk s i cur"] by (simp_all add: walk_may_def)
    have N: "triple P (io_return None) (may readable)" for P by (rule triple_return) (simp add: may_def)
    have L: "triple (\<lambda>_. True) (io_bind (link_target i) (\<lambda>b. io_case b (io_return None) (\<lambda>buff. io_bind (self (Path buff)) (\<lambda>ans. give_up [] 1 ans)))) (may readable)" for i
      by (intro triple_any triple_branch N triple_bind [OF P] give_up_may)
    show ?case
    proof (cases w)
      case (Path path)
      note run = 1(2) [unfolded Path walk.case]
      show ?thesis unfolding Path walk_may_def walk.case
        by (rule triple_use [OF run]) ((rule checked N W triple_branch | rule triple_any)+)
    next
      case (Walk path index curdir)
      note run = 1(2) [unfolded Walk walk.case]
      have link: "triple (may readable cur) (io_deref cur (\<lambda>i. io_bind (inode_type i) (\<lambda>t. io_if (t = INODE_LINK)
          (io_bind (io_bind (link_target i) (\<lambda>b. io_case b (io_return None) (\<lambda>buff. io_bind (self (Path buff)) (\<lambda>ans. give_up [] 1 ans)))) (\<lambda>auxdir.
             io_bind (close_inode i) (\<lambda>_. io_case auxdir (io_return None) (\<lambda>_. self (Walk path next' auxdir)))))
          (self (Walk path next' cur))))) (may readable)" for cur next'
      proof (rule triple_branch, rule triple_may, intro steady_intros, rule triple_branch)
        fix i
        show "triple (may readable cur) (self (Walk path next' cur)) (may readable)" by (rule W)
        show "triple (may readable cur) (io_bind (io_bind (link_target i) (\<lambda>b. io_case b (io_return None) (\<lambda>buff. io_bind (self (Path buff)) (\<lambda>ans. give_up [] 1 ans)))) (\<lambda>auxdir.
             io_bind (close_inode i) (\<lambda>_. io_case auxdir (io_return None) (\<lambda>_. self (Walk path next' auxdir))))) (may readable)"
          by (rule triple_pre [OF triple_bind [OF L]]) (rule triple_may, intro steady_intros, intro triple_branch N W, simp)
      qed
      show ?thesis unfolding Walk walk_may_def walk.case
        by (rule triple_use [OF run], rule triple_may, (intro steady_intros)[1], rule triple_branch, rule triple_return, assumption)
          ((rule checked link N triple_branch | rule triple_any)+)
    qed
  qed
  then show ?thesis unfolding triple_def by blast
qed

text \<open>C6. A path only leads to an inode that the current process may read, through whatever directories and links it goes.\<close>

theorem resolve_path_readable:
  assumes "resolve_path path k = Some (Inr (Some i, k'))" "scheduler_curr k' = Some c"
  shows "readable (procs k' c) (in_data (inodes k' i))"
proof -
  have "may readable (Some i) k'" using resolve_readable [of "Path path"] assms(1) by (simp add: triple_def walk_may_def resolve_path_def)
  then show ?thesis using assms(2) by (simp add: may_def)
qed

theorem resolve_path_readable_witness:
  "\<exists>k'. resolve_path [CHR ''/'', NUL] mounted_kernel = Some (Inr (Some 0, k')) \<and> readable (procs k' 0) (in_data (inodes k' 0))"
proof -
  let ?k = "add_reference 0 mounted_kernel"
  have r: "resolve_path [CHR ''/'', NUL] mounted_kernel = Some (Inr (Some 0, ?k))"
    using mounted_open by (intro resolve_root [of _ 0 0]) (simp_all add: zero_process_def)
  have "scheduler_curr ?k = Some 0" by (simp add: add_reference_def upd_inode_def)
  with r show ?thesis using resolve_path_readable [OF r, of 0] by simp
qed

end
