(* ===== verification/Fs_Open.thy ===== *)
theory Fs_Open
  imports Fs_Access
begin

text \<open>A file is opened only in a mode that its permissions allow.\<close>

section \<open>Operations that keep the processes\<close>

definition same_procs :: "io_kernel \<Rightarrow> io_kernel \<Rightarrow> bool" where
  "same_procs k k' \<longleftrightarrow> procs k' = procs k \<and> scheduler_curr k' = scheduler_curr k"

abbreviation loyal :: "'a io \<Rightarrow> bool" where
  "loyal \<equiv> frames same_procs"

interpretation loyal: state_frame same_procs
  by unfold_locales (auto simp: same_procs_def)

named_theorems loyal_intros

lemmas loyal_rules [loyal_intros] = loyal.bind loyal.basic loyal.branch loyal.process loyal.reads

lemma loyal_basic [loyal_intros]:
  "loyal (with_fs h)" "loyal (new_string t)" "loyal (io_upd kfree_object)" "loyal (io_upd (free_inode i))" "loyal (io_upd (fs_inode_close i))"
  "loyal (on_inode i u)" "loyal (io_upd (upd_inode i v))" "loyal (new_inode n)" "loyal (enter_inode a)"
  by (auto simp: frames_def same_procs_def with_fs_def on_inode_def unmount_def new_string_def io_upd_def io_result_def
      new_inode_def enter_inode_def free_inode_def fs_inode_close_def upd_inode_def kfree_object_def Kernel_State.kalloc_object_def obind_def Let_def
      split: option.splits sum.splits prod.splits if_splits)

lemma loyal_steady: "steady m \<Longrightarrow> loyal m"
  by (auto simp: frames_def same_rights_def same_procs_def)

lemma loyal_open [loyal_intros]: "loyal (fs_inode_open num)" "loyal fs_root"
proof -
  show o: "loyal (fs_inode_open num)" for num unfolding frames_def
  proof (intro allI impI)
    fix k r k'
    assume run: "fs_inode_open num k = Some (Inr (r, k'))"
    show "same_procs k k'"
    proof (cases "find_inode num (inodes k) (inodeTable k)")
      case (Some i)
      then show ?thesis using run by (auto simp: same_procs_def fs_inode_open_def add_reference_def upd_inode_def split: if_splits)
    next
      case None
      have "loyal (io_bind (with_fs (\<lambda>f. Some (ext2_read_inode num f))) (\<lambda>r. io_deref r (\<lambda>node.
          io_bind (new_inode (node\<lparr>in_extra := None, in_refCount := 1\<rparr>)) enter_inode)))"
        by (intro loyal_intros)
      then show ?thesis using run None unfolding frames_def by (auto simp: fs_inode_open_def split: if_splits)
    qed
  qed
  show "loyal fs_root" unfolding fs_root_def by (rule o)
qed

lemma loyal_give_up [loyal_intros]: "loyal (give_up ps n r)"
  by (intro loyal_steady steady_intros)

lemma loyal_names [loyal_intros]: "loyal (fs_findentry i name)" "loyal (link_target i)"
  unfolding fs_findentry_def link_target_def fs_symlink_read_def fs_get_inode_size_def by (intro loyal_intros)+

lemma loyal_links [loyal_intros]: "loyal (add_link i name j)" "loyal (fs_set_permission i mode)"
  unfolding add_link_def fs_set_permission_def by (intro loyal_intros)+

lemma loyal_mknod [loyal_intros]: "loyal (fs_mknod i name t)"
  unfolding fs_mknod_def by (intro loyal_intros)

lemma loyal_resolve [loyal_intros]: "loyal (resolve_path path)"
proof -
  have "\<forall>x k'. y = Inr (x, k') \<longrightarrow> same_procs k k'" if "resolve w k = Some y" for w k y
  proof (rule resolve.raw_induct [OF _ that], goal_cases)
    case (1 self w k y)
    have IH: "loyal (self w)" for w unfolding frames_def using 1(1) by blast
    have use: "\<forall>x k'. y = Inr (x, k') \<longrightarrow> same_procs k k'"
      if "io_bind m f k = Some y" "loyal (io_bind m f)" for m :: "nat io" and f :: "nat \<Rightarrow> ptr io" using that unfolding frames_def by blast
    show ?case using 1(2) by (cases w) (simp_all, (drule use, intro loyal_intros IH, assumption)+)
  qed
  then show ?thesis unfolding frames_def resolve_path_def by blast
qed

lemma loyal_creat [loyal_intros]: "loyal (sys_creat path mode)"
  unfolding sys_creat_def by (intro loyal_intros)

lemma loyal_open_entry [loyal_intros]: "loyal (open_entry i name path flags mode)"
  unfolding open_entry_def by (intro loyal_intros)

section \<open>Opening\<close>

text \<open>What matters for the permissions of the current process, whatever runs in between: who it is, the size of its table of open
  files, and the owners and permissions of the files.\<close>

definition rights :: "ext2_Inode \<Rightarrow> nat \<times> nat \<times> nat" where
  "rights d = (INODE_PERMISSIONS d, i_uid d, i_gid d)"

definition same_owner :: "io_kernel \<Rightarrow> io_kernel \<Rightarrow> bool" where
  "same_owner k k' \<longleftrightarrow> scheduler_curr k' = scheduler_curr k \<and> (\<forall>i. rights (in_data (inodes k' i)) = rights (in_data (inodes k i)))
     \<and> (\<forall>c. scheduler_curr k = Some c \<longrightarrow> p_uid (procs k' c) = p_uid (procs k c) \<and> p_gid (procs k' c) = p_gid (procs k c)
          \<and> length (p_fdTable (procs k' c)) = length (p_fdTable (procs k c)))"

lemma same_owner_refl: "same_owner k k"
  by (simp add: same_owner_def)

lemma same_owner_trans: "same_owner k k1 \<Longrightarrow> same_owner k1 k2 \<Longrightarrow> same_owner k k2"
  by (simp add: same_owner_def)

lemma wake_queue_procs: "p_uid (procs (wake_queue q k) c) = p_uid (procs k c) \<and> p_gid (procs (wake_queue q k) c) = p_gid (procs k c)
    \<and> p_fdTable (procs (wake_queue q k) c) = p_fdTable (procs k c)"
  by (induction q arbitrary: k) (auto simp: upd_sched_def upd_proc_def)

lemma wake_all_owner: "same_owner k (wake_all e a k)"
  by (simp add: same_owner_def wake_all_def wake_queue_procs)

lemma fifo_wait_owner:
  assumes "\<And>k. same_owner k (sw k)" "fifo_wait sw e a k = Inr k'"
  shows "same_owner k k'"
proof -
  obtain c where c: "scheduler_curr k = Some c" using assms(2) by (auto simp: fifo_wait_def scheduler_current_def split: option.splits)
  let ?k = "process_table_block c (upd_s c (\<lambda>s. s\<lparr>ioWait := True\<rparr>) (upd_fifo a (\<lambda>f. set_wait_queue e (queue_push (wait_queue e f) c) f) k))"
  have "same_owner k ?k" by (auto simp: same_owner_def upd_sched_def upd_proc_def)
  moreover have "k' = sw ?k" using assms(2) c by (simp add: fifo_wait_def scheduler_current_def)
  ultimately show ?thesis using assms(1) by (auto intro: same_owner_trans)
qed

lemma upd_fifo_owner: "same_owner k (upd_fifo a g k)"
  by (simp add: same_owner_def)

lemma fifo_attach_owner:
  assumes sw: "\<And>k. same_owner k (sw k)" and run: "fifo_attach sw m a k = Inr k'"
  shows "same_owner k k'"
proof -
  have w: "same_owner k k2" if "fifo_wait sw e a (upd_fifo a g k) = Inr k2" for e g k2
    using same_owner_trans [OF upd_fifo_owner fifo_wait_owner [OF sw that]] .
  show ?thesis using run upd_fifo_owner by (auto simp: fifo_attach_def Let_def split: if_splits dest: w)
qed

lemma new_fifo_owner: "new_fifo i k = Inr (a, k') \<Longrightarrow> same_owner k k'"
  by (auto simp: new_fifo_def Kernel_State.kalloc_object_def same_owner_def Let_def split: if_splits)

lemma fs_fd_owner:
  assumes sw: "\<And>k. same_owner k (sw k)" and run: "fs_fd sw i flags k = Inr (des, k')"
  shows "same_owner k k'" "fd_inode des = Some i" "fd_flags des = flags"
proof -
  let ?k = "upd_inode i (\<lambda>n. n\<lparr>in_refCount := in_refCount n + 1\<rparr>) k"
  have k: "same_owner k ?k" by (simp add: same_owner_def upd_inode_def)
  have op: "same_owner k1 k2" if opened: "fifo_open sw d k1 = Inr k2" for d k1 k2
  proof -
    obtain a k3 k4 where 3: "same_owner k1 k3" and 4: "fifo_attach sw (fd_flags d AND 3) a k3 = Inr k4"
      and k2: "k2 = wake_all ReadWait a (wake_all WriteWait a k4)"
    proof -
      obtain i where i: "fd_inode d = Some i" using opened by (cases "fd_inode d") (simp_all add: fifo_open_def)
      obtain z where z: "(case in_extra (inodes k1 i) of Some a \<Rightarrow> Inr (a, k1) | None \<Rightarrow> new_fifo i k1) = Inr z"
        "(case z of (a, k3) \<Rightarrow> rbind (fifo_attach sw (fd_flags d AND 3) a k3) (\<lambda>k4. Inr (wake_all ReadWait a (wake_all WriteWait a k4)))) = Inr k2"
        using opened i unfolding fifo_open_def by (simp only: option.case) (erule rbind_InrE, blast)
      obtain a k3 where zz: "z = (a, k3)" by (cases z)
      note a = z(1) [unfolded zz]
      obtain k4 where r: "fifo_attach sw (fd_flags d AND 3) a k3 = Inr k4" "k2 = wake_all ReadWait a (wake_all WriteWait a k4)"
        using z(2) unfolding zz by (auto elim!: rbind_InrE)
      have "same_owner k1 k3" using a same_owner_refl new_fifo_owner by (cases "in_extra (inodes k1 i)") auto
      then show thesis using r by (rule that)
    qed
    show ?thesis unfolding k2 using same_owner_trans [OF 3 fifo_attach_owner [OF sw 4]] wake_all_owner by (blast intro: same_owner_trans)
  qed
  show "same_owner k k'" "fd_inode des = Some i" "fd_flags des = flags"
    using run k by (auto simp: fs_fd_def Let_def split: if_splits elim!: rbind_InrE dest!: op intro: same_owner_trans)
qed

text \<open>The access that the flags of an open file give.\<close>

definition mode_allowed :: "int \<Rightarrow> Process \<Rightarrow> ext2_Inode \<Rightarrow> bool" where
  "mode_allowed flags pr d \<longleftrightarrow> ((flags AND 3 = O_RDONLY \<or> flags AND 3 = O_RDWR) \<longrightarrow> readable pr d)
     \<and> ((flags AND 3 = O_WRONLY \<or> flags AND 3 = O_RDWR) \<longrightarrow> writable pr d)"

lemma allowed_cong:
  "p_uid pr' = p_uid pr \<Longrightarrow> p_gid pr' = p_gid pr \<Longrightarrow> rights d' = rights d \<Longrightarrow> allowed oth grp usr pr' d' = allowed oth grp usr pr d"
  by (simp add: allowed_def rights_def)

lemma mode_allowed_cong:
  "p_uid pr' = p_uid pr \<Longrightarrow> p_gid pr' = p_gid pr \<Longrightarrow> rights d' = rights d \<Longrightarrow> mode_allowed flags pr' d' = mode_allowed flags pr d"
  using allowed_cong [of pr' pr d' d] by (simp add: mode_allowed_def readable_def writable_def)

text \<open>The current process has an open file \<open>fd\<close> with these flags, and its permissions allow them.\<close>

definition granted :: "int \<Rightarrow> int \<Rightarrow> io_kernel \<Rightarrow> bool" where
  "granted flags fd k \<longleftrightarrow> (\<exists>c i. scheduler_curr k = Some c \<and> nat fd < length (p_fdTable (procs k c))
     \<and> fd_inode (p_fdTable (procs k c) ! nat fd) = Some i \<and> fd_flags (p_fdTable (procs k c) ! nat fd) = flags
     \<and> mode_allowed flags (procs k c) (in_data (inodes k i)))"

lemma granted_same: "same_rights k k' \<Longrightarrow> granted flags fd k \<Longrightarrow> granted flags fd k'"
  by (auto simp: granted_def same_rights_def)

definition runs :: "Process \<Rightarrow> io_kernel \<Rightarrow> bool" where
  "runs pr k \<longleftrightarrow> (\<exists>c. scheduler_curr k = Some c \<and> procs k c = pr)"

lemma triple_runs:
  assumes "loyal m" "\<And>x. triple (runs pr) (f x) Q"
  shows "triple (runs pr) (io_bind m f) Q"
  using assms unfolding triple_def frames_def same_procs_def runs_def io_bind_Inr by metis

lemma triple_process: "(\<And>pr. triple (runs pr) (f pr) Q) \<Longrightarrow> triple P (io_bind process f) Q"
  unfolding triple_def io_bind_Inr process_def
  by (auto simp: current_def scheduler_current_def io_get_def runs_def split: option.splits)

lemma check_mode_triple:
  "triple (runs pr) (check_mode flags p) (\<lambda>ok k. runs pr k \<and> (ok \<longrightarrow> may (mode_allowed flags) p k))"
proof -
  have r: "k' = k \<and> (r = 0 \<longrightarrow> may readable p k)" if "can_read p k = Some (Inr (r, k'))" for r k k'
    using that can_read_triple [of "\<lambda>_. True" p] by (auto simp: can_read_def access_eq triple_def split: option.splits if_splits)
  have w: "k' = k \<and> (r = 0 \<longrightarrow> may writable p k)" if "can_write p k = Some (Inr (r, k'))" for r k k'
    using that can_write_triple [of "\<lambda>_. True" p] by (auto simp: can_write_def access_eq triple_def split: option.splits if_splits)
  show ?thesis unfolding triple_def check_mode_def io_bind_Inr
    by (auto simp: io_if_def io_return_def may_def mode_allowed_def O_RDONLY_def O_WRONLY_def O_RDWR_def io_bind_Inr split: if_splits dest!: r w)
qed

lemma install_fd_granted:
  assumes sw: "\<And>k. same_owner k (sw k)" and fd: "fd < length (p_fdTable pr)"
  shows "triple (\<lambda>k. runs pr k \<and> may (mode_allowed flags) (Some file) k) (install_fd sw fd file flags) (\<lambda>_. granted flags (int fd))"
  unfolding triple_def
proof (intro allI impI)
  fix k x k'
  assume k: "runs pr k \<and> may (mode_allowed flags) (Some file) k" and run: "install_fd sw fd file flags k = Some (Inr (x, k'))"
  obtain c where c: "scheduler_curr k = Some c" "procs k c = pr" using k by (auto simp: runs_def)
  obtain des k1 where d: "fs_fd sw file flags k = Inr (des, k1)"
    and k': "k' = upd_p c (\<lambda>q. q\<lparr>p_fdTable := (p_fdTable q)[fd := if flags AND O_APPEND \<noteq> 0 then des\<lparr>fd_offset := i_size (in_data (inodes k1 file))\<rparr> else des]\<rparr>) k1"
    and c1: "scheduler_curr k1 = Some c"
  proof -
    obtain des k1 where 1: "fs_fd sw file flags k = Inr (des, k1)"
      and 2: "put_fd (int fd) (if flags AND O_APPEND \<noteq> 0 then des\<lparr>fd_offset := i_size (in_data (inodes k1 file))\<rparr> else des) k1 = Some (Inr (x, k'))"
      using run by (auto simp: install_fd_def io_bind_Inr io_run_def io_get_def)
    have "scheduler_curr k1 = Some c" using fs_fd_owner(1) [OF sw 1] c(1) by (simp add: same_owner_def)
    with 1 2 show thesis by (intro that) (auto simp: put_fd_def io_bind_Inr current_def scheduler_current_def io_upd_def)
  qed
  have o: "same_owner k k1" "fd_inode des = Some file" "fd_flags des = flags" using fs_fd_owner [OF sw d] by auto
  have "mode_allowed flags (procs k c) (in_data (inodes k file))" using k c(1) by (simp add: may_def)
  then have "mode_allowed flags (procs k' c) (in_data (inodes k' file))"
    using mode_allowed_cong [of "procs k' c" "procs k c" "in_data (inodes k' file)" "in_data (inodes k file)"] o(1) c(1) unfolding k' same_owner_def by auto
  moreover have "length (p_fdTable (procs k1 c)) = length (p_fdTable pr)" using o(1) c by (simp add: same_owner_def)
  ultimately show "granted flags (int fd) k'" unfolding granted_def using c1 o(2,3) fd by (intro exI [of _ c] exI [of _ "file"]) (simp add: k')
qed

lemma find_fd_less: "find_fd ds = Some fd \<Longrightarrow> fd < length ds"
  by (induction ds arbitrary: fd) (auto split: if_splits)

abbreviation opened :: "int \<Rightarrow> int \<Rightarrow> io_kernel \<Rightarrow> bool" where
  "opened flags fd k \<equiv> 0 \<le> fd \<longrightarrow> granted flags fd k"

lemma give_up_fails: "triple P (give_up ps n (- 1)) (opened flags)" "triple P (io_return (- 1)) (opened flags)"
  by (auto simp: triple_def give_up_def io_bind_Inr io_return_def)

lemma give_up_opened: "triple (opened flags fd) (give_up ps n fd) (opened flags)"
  unfolding triple_def
proof (intro allI impI)
  fix k x k'
  assume "opened flags fd k" "0 \<le> x" and run: "give_up ps n fd k = Some (Inr (x, k'))"
  moreover have "x = fd" using run by (auto simp: give_up_def io_bind_Inr io_return_def)
  moreover have "same_rights k k'" using run steady_close_all(4) [of ps n fd] unfolding frames_def by blast
  ultimately show "granted flags x k'" using granted_same by blast
qed

lemma sys_open_granted:
  assumes sw: "\<And>k. same_owner k (sw k)"
  shows "triple (\<lambda>_. True) (sys_open sw path flags mode) (opened flags)"
proof -
  have "(\<forall>k. same_owner k (sw k)) \<longrightarrow> (\<forall>x k'. y = Inr (x, k') \<longrightarrow> opened flags x k')" if "sys_open sw path flags mode k = Some y" for sw path flags mode k y
  proof (rule sys_open.raw_induct [OF _ that], goal_cases)
    case (1 self sw path flags mode0 k y)
    show ?case
    proof (intro impI)
      assume "\<forall>k. same_owner k (sw k)"
      then have sw: "\<And>k. same_owner k (sw k)" by blast
      have IH: "triple P (self sw path flags mode) (opened flags)" for P path mode unfolding triple_def using 1(1) sw by blast
      have ret: "triple P (io_return (- 1)) (opened flags)" for P by (rule give_up_fails)
      have link: "triple P (io_bind (io_bind (link_target i) (\<lambda>b. io_case b (io_return (- 1)) (\<lambda>buff.
            io_bind (self sw buff flags mode) (\<lambda>ans. give_up [] 1 ans)))) (\<lambda>ans. give_up [fp] 0 ans)) (opened flags)" for P i mode fp
        by (rule triple_bind [OF _ give_up_opened], intro triple_any triple_branch ret triple_bind [OF IH give_up_opened])
      have final: "triple (\<lambda>k. runs pr k \<and> (ok \<longrightarrow> may (mode_allowed flags) fp k))
          (io_if (\<not> ok) (give_up [fp] 0 (- 1)) (io_deref fp (\<lambda>file. io_bind (inode_type file) (\<lambda>t. io_if (t = INODE_LINK)
            (io_bind (io_bind (link_target file) (\<lambda>b. io_case b (io_return (- 1)) (\<lambda>buff.
              io_bind (self sw buff flags mode) (\<lambda>ans. give_up [] 1 ans)))) (\<lambda>ans. give_up [fp] 0 ans))
            (io_bind (install_fd sw fd file flags) (\<lambda>_. give_up [fp] 0 (int fd))))))) (opened flags)"
        if "fd < length (p_fdTable pr)" for fd pr ok fp mode
      proof (intro triple_branch give_up_fails triple_steady [OF steady.reads(2)] link)
        fix k k'
        show "same_rights k k' \<Longrightarrow> runs pr k \<and> (ok \<longrightarrow> may (mode_allowed flags) fp k) \<Longrightarrow> runs pr k' \<and> (ok \<longrightarrow> may (mode_allowed flags) fp k')"
          using may_same by (auto simp: runs_def same_rights_def)
      next
        fix i t
        assume "\<not> \<not> ok" "fp = Some i"
        then show "triple (\<lambda>k. runs pr k \<and> (ok \<longrightarrow> may (mode_allowed flags) fp k)) (io_bind (install_fd sw fd i flags) (\<lambda>_. give_up [fp] 0 (int fd))) (opened flags)"
          by simp (rule triple_bind [OF install_fd_granted [OF sw that]], rule triple_pre [OF give_up_opened], simp)
      qed
      note run = 1(2)
      have "\<forall>x k'. y = Inr (x, k') \<longrightarrow> True \<longrightarrow> opened flags x k'"
        by (rule triple_use [OF run])
          ((rule triple_process ret give_up_fails triple_branch
            | (rule triple_bind [OF check_mode_triple], rule final, rule find_fd_less, assumption)
            | (rule triple_runs, (intro loyal_intros; fail)))+)
      then show "\<forall>x k'. y = Inr (x, k') \<longrightarrow> opened flags x k'" by simp
    qed
  qed
  then show ?thesis using sw unfolding triple_def by blast
qed



end
