(* ===== verification/Spec2Isabelle.thy ===== *)
theory Spec2Isabelle
  imports Tty_Input Stdlib Malloc_Client Ext2_Content Ext2_Dir Clock_Dates Clock_Text Path_Facts Fs_Balance Fs_Open
begin

text \<open>
  A verification development for ArqvengerOS, a multitasking kernel for 32-bit x86 with terminals, a
  disk cache, an ext2 file system and a small user space.

  \<^bold>\<open>The program.\<close> The timer interrupt (\<open>src/system/tick.c\<close>) drives the scheduler
  (\<open>src/system/scheduler.c\<close> with one of two policies), which keeps the ready processes in a queue
  (\<open>src/system/processQueue.c\<close>) and the sleeping ones in a delta list (\<open>src/system/sleepList.c\<close>).
  Processes are created with a page directory, stacks and an initial frame
  (\<open>src/system/process/process.c\<close>) and are kept in a table with their parent and children
  (\<open>src/system/process/table.c\<close>). Pages come from a bit map of the physical memory
  (\<open>src/system/mm/allocator.c\<close>); when it runs out, the disk cache (\<open>src/system/cache/cache.c\<close>) gives
  pages back. Address spaces are two-level page tables (\<open>src/system/mm/pagination.c\<close>). Processes
  communicate through FIFOs (\<open>src/system/fifo.c\<close>) and use terminals: the keyboard interrupt fills a
  ring of scan codes, the terminal process translates them into lines, and output is interpreted by an
  emulator of control sequences (\<open>src/drivers/tty\<close>, \<open>src/drivers/keyboard.c\<close>, \<open>src/drivers/video.c\<close>).
  Files are reached through system calls (\<open>src/system/call/io.c\<close>) that resolve paths, check permissions and work on
  a table of open inodes (\<open>src/system/fs/fs.c\<close>) over the ext2 driver (\<open>src/drivers/ext2\<close>), which uses the disk cache.

  \<^bold>\<open>Conventions\<close> (theory \<open>Kernel_Prelude\<close>). A C structure is a record, an enumeration a datatype. A
  pointer to a kernel object is \<open>nat option\<close>, its object is found in a store of the state. Unsigned
  machine integers whose wrap-around matters are words; other integers are \<open>int\<close> or \<open>nat\<close> with the
  wrap-around written out (\<open>s32\<close>, \<open>un32\<close>). What C leaves undefined is a value: an operation that can
  dereference \<open>NULL\<close>, leave an array, fail an assertion or never come back returns \<open>Inl\<close> the fault, or
  \<open>Inr\<close> its result. A loop that may wait for ever is a partial function whose value is then \<open>None\<close>. An
  operation that gives up the processor takes an argument \<open>sw\<close>, the change the rest of the system makes
  before it runs again; the properties hold for every such change or say which they allow. There is no
  fuel anywhere: every other loop has a termination proof.

  \<^bold>\<open>Theories.\<close>
  \<^item> \<open>Bitmap\<close>: \<open>src/bitmap.h\<close>, the bit maps of the allocators: the first clear bit is found.
  \<^item> \<open>Process_Types\<close>: the structures of \<open>src/system/process/process.h\<close>, \<open>src/system/fs/fd.h\<close>.
  \<^item> \<open>Process_Queue\<close>: the linked queue at pointer level, its free list of nodes, and the refinement to
    lists; \<open>Sleep_List\<close>: the delta list and the due times.
  \<^item> \<open>Scheduler\<close>: the scheduler with both policies; the priority policy picks a process of largest
    accumulated priority and starves none, round robin is fair, sleepers wake when due.
  \<^item> \<open>Page_Allocator\<close>: set-up of the page map from the memory map, first fit search, ownership of the
    reserved pages; \<open>Cache_List\<close> and \<open>Cache\<close>: the cache of disk pages with its eviction, which together
    with the disk behaves as one store of sectors; \<open>Cache_Progress\<close>: with memory for one page and eight
    chunks every transfer succeeds; \<open>Pagination\<close>: page directories, mapping and translation.
  \<^item> \<open>Ext2\<close>, \<open>Ext2_Inode\<close>, \<open>Ext2_Dir\<close>: the ext2 driver \<open>src/drivers/ext2\<close> on top of the cache: blocks, superblock,
    group table and allocator; inodes, the tree of block pointers and contents; directories, loading and open
    files. \<open>Ext2_Blocks\<close>: the blocks as seen through the cache and the well-formed states (\<open>fs_ok\<close>);
    \<open>Ext2_Allocator\<close>: blocks and inodes that are handed out were free; \<open>Ext2_Table\<close>: the inode tables as one store
    of inodes; \<open>Ext2_Content\<close>: transfers to and from files, right within a block and wrong over several.
  \<^item> \<open>Malloc\<close>: the heap allocator \<open>src/system/malloc/malloc.c\<close> over the bytes of memory. \<open>Malloc_Heap\<close>: the
    invariant of the tags and bins and what each step does to it; \<open>Malloc_Ops\<close>: allocation, release and new
    memory; \<open>Malloc_Spec\<close>: \<open>calloc\<close>, \<open>realloc\<close> and the round trip; \<open>Malloc_Client\<close>: the contract of an allocator
    as a locale, with the programs that use one, and its interpretation by \<open>malloc\<close> and \<open>free\<close>.
  \<^item> \<open>C_String\<close>, \<open>Stdlib\<close>: \<open>src/library/string.c\<close>, \<open>ctype.c\<close>, \<open>stdlib.c\<close> and the 64-bit division of
    \<open>div64.h\<close>, against their mathematical meaning.
  \<^item> \<open>Clock\<close>: the clock driver \<open>src/drivers/rtc.c\<close> and \<open>src/library/time.c\<close>; the registers of the chip are a
    parameter. \<open>Clock_Facts\<close>: the arithmetic of the calendar; \<open>Clock_Dates\<close>: which dates come out right;
    \<open>Clock_Text\<close>: the text of a date.
  \<^item> \<open>Paths\<close>, \<open>Path_Facts\<close>: the functions on paths of \<open>src/library/stdio.c\<close>, which the kernel uses: how a path is
    cut and joined, and that \<open>../..\<close> goes up only once.
  \<^item> \<open>Fs\<close>: \<open>src/system/fs/fs.c\<close>, the open inodes, links, permissions and renaming; its state \<open>io_kernel\<close> is the kernel with the
    mounted file system, and the driver works on the memory and the cache of the kernel. \<open>Fs_Calls\<close>: the calls of
    \<open>src/system/call/io.c\<close>. A call is a function of the state that may fail or not return; \<open>io_bind\<close> composes them.
    \<open>Fs_Frames\<close>: what calls leave alone, as a locale that the following theories interpret for their relations.
    \<open>Fs_Same\<close>, \<open>Fs_Refs\<close>, \<open>Fs_Balance\<close>: the references to inodes as a multiset that each step spends or keeps, so that no
    sequence of calls on names loses or gains one (\<open>_open\<close> keeps one in the descriptor, \<open>_rename\<close> can lose one). \<open>Fs_Access\<close>, \<open>Fs_Open\<close>: paths
    and descriptors respect the permissions. \<open>Fs_Example\<close>: a small mounted system on which calls are run.
  \<^item> \<open>Kernel_State\<close>: the state shared by the process and file code. \<open>Byte_Channel\<close>: the contract of a
    buffered byte channel as a locale, with the consequence that no byte is lost or reordered under any
    interleaving; it is interpreted by the FIFOs (\<open>Fifo\<close>) and by the raw keyboard (\<open>Tty_Input\<close>).
  \<^item> \<open>Process\<close>, \<open>Process_Memory\<close>, \<open>Process_Table\<close>: creation, exit and destruction of processes, the table,
    the process system calls, growth of stacks and the tick: a new process has memory of its own and gives
    all of it back, the table stays well-formed, orphans are adopted.
  \<^item> \<open>Tty_Output\<close>: the terminal emulator and the video memory: which bytes keep it inside its buffers, what
    it draws, how it scrolls. \<open>Tty_Input\<close>: terminals, scan codes, the line discipline and reading.

  \<^bold>\<open>What the properties show.\<close> Besides the functional ones, they show for each component which inputs
  keep it well-formed. Several show defects, as facts of the model: control sequences that write past the
  screen buffer, a full line buffer that no key can empty, a wait that leaves a dangling child, a full
  process table that \<open>_run\<close> does not check, a \<open>realloc\<close> that returns too little memory, file transfers of
  several blocks that lose data, a last inode that cannot be read, a sleeper that makes the list dereference \<open>NULL\<close>, a FIFO write
  that never returns.

  \<^bold>\<open>Not modelled.\<close> Assembly, segment and interrupt tables and the port protocols of the disk, clock and
  keyboard controllers: they are the machine the model runs on. Formatted input and output of \<open>stdio.c\<close> take
  variable argument lists, and the user and group files are read with them; kernel messages are output only. The shell and its
  commands are clients of the calls. \<open>_open\<close> and \<open>_rename\<close> follow links and parent directories without a bound, so they and the
  resolution of paths are partial functions, and their properties speak about the calls that return.
\<close>

end
